(* ===== verification/Prelude.thy ===== *)
theory Prelude
  imports Main
begin

text \<open>
  Shared ground of the development.

  \<^item> Python strings: a \<open>string\<close> is a list of code points below 256; \<open>str.strip\<close>,
    \<open>str.upper\<close>, \<open>str.lower\<close>, \<open>str.split\<close>, \<open>str.replace\<close> and substring tests are
    modelled on it (case mapping on the ASCII letters).
  \<^item> SQL tables: a table is the list of its rows; \<open>UPDATE\<close> and \<open>DELETE\<close> with a
    \<open>WHERE\<close> clause are \<open>sql_update\<close> and \<open>sql_delete\<close>, and \<open>rowcount\<close> is the number of
    rows the clause selects.
  \<^item> Time: a \<open>datetime\<close> is an integer number of microseconds.
  \<^item> The lemma collections \<open>py_simps\<close> and \<open>table_simps\<close>, which carry the component
    proofs.
\<close>

named_theorems py_simps
named_theorems table_simps

section \<open>Time\<close>

type_synonym datetime = int

definition seconds :: "int \<Rightarrow> datetime" where
  "seconds n = n * 1000000"

lemma seconds_mono [simp]: "seconds a \<le> seconds b \<longleftrightarrow> a \<le> b"
  by (simp add: seconds_def)

lemma seconds_strict_mono [simp]: "seconds a < seconds b \<longleftrightarrow> a < b"
  by (simp add: seconds_def)

lemma seconds_0 [simp]: "seconds 0 = 0"
  by (simp add: seconds_def)

lemma seconds_nonneg [simp]: "0 \<le> seconds a \<longleftrightarrow> 0 \<le> a"
  by (simp add: seconds_def)

section \<open>Python strings\<close>

definition is_space :: "char \<Rightarrow> bool" where
  "is_space c \<longleftrightarrow> c \<in> set [CHR '' '', CHR 0x09, CHR 0x0A, CHR 0x0B, CHR 0x0C, CHR 0x0D,
     CHR 0x1C, CHR 0x1D, CHR 0x1E, CHR 0x1F, CHR 0x85, CHR 0xA0]"

definition is_digit :: "char \<Rightarrow> bool" where
  "is_digit c \<longleftrightarrow> 48 \<le> (of_char c :: nat) \<and> (of_char c :: nat) \<le> 57"

definition digit_val :: "char \<Rightarrow> int" where
  "digit_val c = int (of_char c) - 48"

definition digit_char :: "int \<Rightarrow> char" where
  "digit_char n = char_of (nat n + 48)"

definition upper_char :: "char \<Rightarrow> char" where
  "upper_char c =
     (let n = (of_char c :: nat) in if 97 \<le> n \<and> n \<le> 122 then char_of (n - 32) else c)"

text \<open>\<open>str.isalnum\<close> of one character.\<close>

definition py_alnum :: "char \<Rightarrow> bool" where
  "py_alnum c \<longleftrightarrow>
     (let n = (of_char c :: nat) in
      is_digit c \<or> (65 \<le> n \<and> n \<le> 90) \<or> (97 \<le> n \<and> n \<le> 122)
      \<or> n \<in> {0xAA, 0xB2, 0xB3, 0xB5, 0xB9, 0xBA, 0xBC, 0xBD, 0xBE} \<or> (0xC0 \<le> n \<and> n \<noteq> 0xD7 \<and> n \<noteq> 0xF7))"

definition lower_char :: "char \<Rightarrow> char" where
  "lower_char c =
     (let n = (of_char c :: nat) in if 65 \<le> n \<and> n \<le> 90 then char_of (n + 32) else c)"

definition upper :: "string \<Rightarrow> string" where
  "upper = map upper_char"

definition lower :: "string \<Rightarrow> string" where
  "lower = map lower_char"

definition lstrip_chars :: "(char \<Rightarrow> bool) \<Rightarrow> string \<Rightarrow> string" where
  "lstrip_chars p s = dropWhile p s"

definition rstrip_chars :: "(char \<Rightarrow> bool) \<Rightarrow> string \<Rightarrow> string" where
  "rstrip_chars p s = rev (dropWhile p (rev s))"

definition strip_chars :: "(char \<Rightarrow> bool) \<Rightarrow> string \<Rightarrow> string" where
  "strip_chars p s = rstrip_chars p (lstrip_chars p s)"

definition strip :: "string \<Rightarrow> string" where
  "strip s = strip_chars is_space s"

text \<open>SQL's \<open>trim\<close>, which removes blanks only.\<close>

definition sql_trim :: "string \<Rightarrow> string" where
  "sql_trim s = strip_chars (\<lambda>c. c = CHR '' '') s"

definition rstrip :: "string \<Rightarrow> string" where
  "rstrip s = rstrip_chars is_space s"

definition startswith :: "string \<Rightarrow> string \<Rightarrow> bool" where
  "startswith s p \<longleftrightarrow> take (length p) s = p"

definition endswith :: "string \<Rightarrow> string \<Rightarrow> bool" where
  "endswith s p \<longleftrightarrow> length p \<le> length s \<and> drop (length s - length p) s = p"

text \<open>\<open>needle in s\<close>.\<close>

fun str_contains :: "string \<Rightarrow> string \<Rightarrow> bool" where
  "str_contains needle [] = (needle = [])"
| "str_contains needle (c # cs) = (startswith (c # cs) needle \<or> str_contains needle cs)"

fun split_on :: "char \<Rightarrow> string \<Rightarrow> string list" where
  "split_on c [] = [[]]"
| "split_on c (x # xs) =
     (if x = c then [] # split_on c xs
      else (case split_on c xs of [] \<Rightarrow> [[x]] | p # ps \<Rightarrow> (x # p) # ps))"

definition replace_char :: "char \<Rightarrow> char \<Rightarrow> string \<Rightarrow> string" where
  "replace_char a b s = map (\<lambda>c. if c = a then b else c) s"

definition remove_char :: "char \<Rightarrow> string \<Rightarrow> string" where
  "remove_char a s = filter (\<lambda>c. c \<noteq> a) s"

text \<open>The idiom \<open>value or ''\<close> on an optional string, and \<open>text or None\<close>.\<close>

definition or_empty :: "string option \<Rightarrow> string" where
  "or_empty v = (case v of None \<Rightarrow> [] | Some s \<Rightarrow> s)"

definition or_none :: "string \<Rightarrow> string option" where
  "or_none s = (if s = [] then None else Some s)"

fun join :: "string \<Rightarrow> string list \<Rightarrow> string" where
  "join sep [] = []"
| "join sep [x] = x"
| "join sep (x # y # ys) = x @ sep @ join sep (y # ys)"

lemma or_empty_simps [simp]: "or_empty None = []" "or_empty (Some s) = s"
  by (simp_all add: or_empty_def)

lemma or_none_simps [simp]: "or_none [] = None" "s \<noteq> [] \<Longrightarrow> or_none s = Some s"
  by (simp_all add: or_none_def)

lemma or_none_eq_None [simp]: "or_none s = None \<longleftrightarrow> s = []"
  by (simp add: or_none_def)

lemma or_none_eq_Some [simp]: "or_none s = Some t \<longleftrightarrow> s = t \<and> t \<noteq> []"
  by (auto simp: or_none_def)

lemma split_on_not_Nil [simp]: "split_on c s \<noteq> []"
  by (cases s) (auto split: list.splits)

lemma strip_chars_id:
  assumes "s \<noteq> [] \<Longrightarrow> \<not> p (hd s) \<and> \<not> p (last s)"
  shows "strip_chars p s = s"
proof (cases s)
  case Nil
  then show ?thesis by (simp add: strip_chars_def lstrip_chars_def rstrip_chars_def)
next
  case (Cons c cs)
  with assms have "lstrip_chars p s = s" by (simp add: lstrip_chars_def)
  moreover have "rstrip_chars p s = s"
  proof -
    have "rev s = last s # rev (butlast s)" using Cons by (simp add: rev_eq_Cons_iff)
    with assms Cons have "dropWhile p (rev s) = rev s" by simp
    then show ?thesis by (simp add: rstrip_chars_def)
  qed
  ultimately show ?thesis by (simp add: strip_chars_def)
qed

lemma strip_chars_id_all: "\<forall>c \<in> set s. \<not> p c \<Longrightarrow> strip_chars p s = s"
  by (rule strip_chars_id) simp

lemma dropWhile_hd: "dropWhile p s \<noteq> [] \<Longrightarrow> \<not> p (hd (dropWhile p s))"
  by (induction s) auto

lemma strip_chars_idem [simp]: "strip_chars p (strip_chars p s) = strip_chars p s"
proof (rule strip_chars_id)
  let ?l = "dropWhile p s"
  let ?r = "strip_chars p s"
  have r: "?r = rev (dropWhile p (rev ?l))"
    by (simp add: strip_chars_def lstrip_chars_def rstrip_chars_def)
  assume ne: "?r \<noteq> []"
  then have "dropWhile p (rev ?l) \<noteq> []" by (simp add: r)
  then have last: "\<not> p (last ?r)"
    using dropWhile_hd [of p "rev ?l"] by (simp add: r last_rev)
  have "?l = ?r @ rev (takeWhile p (rev ?l))"
    by (metis r rev_append rev_rev_ident takeWhile_dropWhile_id)
  with ne have "hd ?l = hd ?r" and "?l \<noteq> []" by (metis hd_append2, metis append_is_Nil_conv)
  then have "\<not> p (hd ?r)" using dropWhile_hd [of p s] by simp
  with last show "\<not> p (hd ?r) \<and> \<not> p (last ?r)" by simp
qed

lemma strip_idem [simp]: "strip (strip s) = strip s"
  by (simp add: strip_def)

lemma strip_id_all: "\<forall>c \<in> set s. \<not> is_space c \<Longrightarrow> strip s = s"
  by (simp add: strip_def strip_chars_id_all)

lemma replace_char_absent: "a \<notin> set s \<Longrightarrow> replace_char a b s = s"
  by (auto simp: replace_char_def intro: map_idI)

lemma replace_char_removes: "a \<noteq> b \<Longrightarrow> a \<notin> set (replace_char a b s)"
  by (auto simp: replace_char_def)

lemma split_on_absent: "c \<notin> set s \<Longrightarrow> split_on c s = [s]"
  by (induction s) auto

lemma startswith_refl_append [simp]: "startswith (p @ s) p"
  by (simp add: startswith_def)

lemma startswith_decomp: "startswith s p \<Longrightarrow> s = p @ drop (length p) s"
  by (metis append_take_drop_id startswith_def)

lemma startswith_nth: "startswith s p \<Longrightarrow> i < length p \<Longrightarrow> s ! i = p ! i"
  by (metis nth_take startswith_def)

lemma strip_ends: "strip s \<noteq> [] \<Longrightarrow> \<not> is_space (hd (strip s)) \<and> \<not> is_space (last (strip s))"
proof -
  let ?r = "strip s" and ?l = "dropWhile is_space s"
  assume ne: "?r \<noteq> []"
  have r: "?r = rev (dropWhile is_space (rev ?l))"
    by (simp add: strip_def strip_chars_def lstrip_chars_def rstrip_chars_def)
  with ne have "dropWhile is_space (rev ?l) \<noteq> []" by simp
  then have last: "\<not> is_space (last ?r)" using dropWhile_hd [of is_space "rev ?l"] by (simp add: r last_rev)
  have "?l = ?r @ rev (takeWhile is_space (rev ?l))"
    by (metis r rev_append rev_rev_ident takeWhile_dropWhile_id)
  with ne have "hd ?l = hd ?r" and "?l \<noteq> []" by (metis hd_append2, metis append_is_Nil_conv)
  with last show ?thesis using dropWhile_hd [of is_space s] by simp
qed

lemma letter_not_space: "65 \<le> (of_char c :: nat) \<Longrightarrow> (of_char c :: nat) \<le> 122 \<Longrightarrow> \<not> is_space c"
  unfolding is_space_def by auto

lemma is_space_lower_char [simp]: "is_space (lower_char c) = is_space c"
proof (cases "65 \<le> (of_char c :: nat) \<and> (of_char c :: nat) \<le> 90")
  case True
  then have "(of_char (lower_char c) :: nat) = of_char c + 32" by (simp add: lower_char_def Let_def)
  with True letter_not_space [of c] letter_not_space [of "lower_char c"] show ?thesis by simp
qed (auto simp: lower_char_def Let_def)

lemma is_digit_not_space: "is_digit c \<Longrightarrow> \<not> is_space c"
  by (auto simp: is_digit_def is_space_def)

lemma digit_char_props:
  assumes "0 \<le> n" and "n < 10"
  shows "is_digit (digit_char n)" and "digit_val (digit_char n) = n"
proof -
  have "of_char (digit_char n) = nat n + 48"
    using assms by (simp add: digit_char_def)
  then show "is_digit (digit_char n)" and "digit_val (digit_char n) = n"
    using assms by (auto simp: is_digit_def digit_val_def)
qed

lemma sort_key_eq_Nil [simp]: "sort_key f xs = [] \<longleftrightarrow> xs = []"
  by (metis length_0_conv length_sort)

lemma take_sort_not_Nil: "0 < n \<Longrightarrow> xs \<noteq> [] \<Longrightarrow> take (nat n) (sort_key f xs) \<noteq> []"
  by simp

text \<open>\<open>LIKE\<close> with the wildcards \<open>%\<close> and \<open>_\<close> and the escape character backslash.\<close>

fun sql_like :: "string \<Rightarrow> string \<Rightarrow> bool" where
  "sql_like [] s = (s = [])"
| "sql_like (p # ps) [] = (p = CHR ''%'' \<and> sql_like ps [])"
| "sql_like (p # ps) (c # cs) =
     (if p = CHR ''%'' then sql_like ps (c # cs) \<or> sql_like (p # ps) cs
      else if p = CHR ''_'' then sql_like ps cs
      else if p = CHR 0x5C then (case ps of [] \<Rightarrow> False | q # qs \<Rightarrow> q = c \<and> sql_like qs cs)
      else p = c \<and> sql_like ps cs)"

section \<open>SQL tables as lists of rows\<close>

definition sql_update :: "('r \<Rightarrow> bool) \<Rightarrow> ('r \<Rightarrow> 'r) \<Rightarrow> 'r list \<Rightarrow> 'r list" where
  "sql_update p f t = map (\<lambda>r. if p r then f r else r) t"

definition sql_delete :: "('r \<Rightarrow> bool) \<Rightarrow> 'r list \<Rightarrow> 'r list" where
  "sql_delete p t = filter (\<lambda>r. \<not> p r) t"

definition rowcount :: "('r \<Rightarrow> bool) \<Rightarrow> 'r list \<Rightarrow> nat" where
  "rowcount p t = length (filter p t)"

text \<open>The first row that satisfies a clause, as \<open>.first()\<close> returns it.\<close>

definition sql_first :: "('r \<Rightarrow> bool) \<Rightarrow> 'r list \<Rightarrow> 'r option" where
  "sql_first p t = find p t"

lemma sql_update_keys [table_simps]:
  "(\<And>r. p r \<Longrightarrow> key (f r) = key r) \<Longrightarrow> map key (sql_update p f t) = map key t"
  by (simp add: sql_update_def)

lemma length_sql_update [simp]: "length (sql_update p f t) = length t"
  by (simp add: sql_update_def)

lemma set_sql_update [table_simps]:
  "set (sql_update p f t) = f ` {r \<in> set t. p r} \<union> {r \<in> set t. \<not> p r}"
  by (auto simp: sql_update_def)

lemma sql_update_hit: "r \<in> set t \<Longrightarrow> p r \<Longrightarrow> f r \<in> set (sql_update p f t)"
  by (auto simp: sql_update_def)

lemma sql_update_miss: "r \<in> set t \<Longrightarrow> \<not> p r \<Longrightarrow> r \<in> set (sql_update p f t)"
  by (force simp: sql_update_def)

lemma sql_update_none: "\<forall>r \<in> set t. \<not> p r \<Longrightarrow> sql_update p f t = t"
  by (auto simp: sql_update_def intro: map_idI)

lemma rowcount_0 [simp]: "rowcount p t = 0 \<longleftrightarrow> (\<forall>r \<in> set t. \<not> p r)"
  by (simp add: rowcount_def filter_empty_conv)

lemma sql_delete_none: "\<forall>r \<in> set t. \<not> p r \<Longrightarrow> sql_delete p t = t"
  by (simp add: sql_delete_def)

lemma distinct_key_sql_delete [table_simps]:
  "distinct (map key t) \<Longrightarrow> distinct (map key (sql_delete p t))"
  by (simp add: sql_delete_def distinct_map_filter)

lemma set_sql_delete [table_simps]: "set (sql_delete p t) = {r \<in> set t. \<not> p r}"
  by (auto simp: sql_delete_def)

lemma sql_first_Some: "sql_first p t = Some r \<Longrightarrow> r \<in> set t \<and> p r"
  by (auto simp: sql_first_def find_Some_iff)

lemma sql_first_None [simp]: "sql_first p t = None \<longleftrightarrow> (\<forall>r \<in> set t. \<not> p r)"
  by (auto simp: sql_first_def find_None_iff)

lemma sql_first_unique:
  assumes "distinct (map key t)" and "r \<in> set t" and "\<And>x. p x \<Longrightarrow> key x = key r" and "p r"
  shows "sql_first p t = Some r"
proof (cases "sql_first p t")
  case None
  with assms show ?thesis by auto
next
  case (Some x)
  then have "x \<in> set t" "p x" by (auto dest: sql_first_Some)
  with assms have "x = r" by (metis distinct_map inj_onD)
  with Some show ?thesis by simp
qed

lemma same_key_same_row:
  "distinct (map key t) \<Longrightarrow> r \<in> set t \<Longrightarrow> x \<in> set t \<Longrightarrow> key x = key r \<Longrightarrow> x = r"
  by (metis distinct_map inj_onD)

end
