(* ===== verification/Lease_Core.thy ===== *)
theory Lease_Core
  imports Prelude
begin

text \<open>
  What the database-backed queues of the program have in common.

  Four tables are work queues: \<open>durable_jobs\<close>, \<open>matter_status_recalc_queue\<close>,
  \<open>annuity_workflow_sync_queue\<close> and \<open>file_delete_queue\<close>. A worker takes rows by writing its
  own token and the time into them (a lease), works, and then finalizes each row with a statement
  guarded by its token. The columns the last three share are the record \<open>lease_row\<close>.

  The contracts are stated as locales and interpreted on each queue's own operations:
  \<^item> \<open>backoff_policy\<close>: a retry delay that doubles up to a cap;
  \<^item> \<open>lease_claim\<close>: taking a batch never takes a row whose lease is live;
  \<^item> \<open>fenced_write\<close>: a guarded statement changes nothing once the token is gone;
  \<^item> \<open>leased_queue\<close>: both together, which gives that a worker whose lease was taken over can
    no longer change the row.
\<close>

section \<open>The shared columns\<close>

record lease_row =
  attempts :: int
  next_run_at :: "datetime option"
  locked_at :: "datetime option"
  lock_token :: "string option"
  last_error :: "string option"
  created_at :: datetime
  updated_at :: datetime

text \<open>\<open>locked_at IS NULL OR locked_at < :expired_before\<close>.\<close>

definition lock_open :: "datetime \<Rightarrow> 'a lease_row_scheme \<Rightarrow> bool" where
  "lock_open expired_before r = (case locked_at r of None \<Rightarrow> True | Some l \<Rightarrow> l < expired_before)"

text \<open>\<open>next_run_at IS NULL OR next_run_at <= :now\<close>.\<close>

definition run_due :: "datetime \<Rightarrow> 'a lease_row_scheme \<Rightarrow> bool" where
  "run_due now r = (case next_run_at r of None \<Rightarrow> True | Some n \<Rightarrow> n \<le> now)"

text \<open>A lease that is held and has not expired.\<close>

definition lease_live :: "datetime \<Rightarrow> 'a lease_row_scheme \<Rightarrow> bool" where
  "lease_live expired_before r \<longleftrightarrow>
     lock_token r \<noteq> None \<and> (case locked_at r of None \<Rightarrow> False | Some l \<Rightarrow> expired_before \<le> l)"

lemma lease_live_not_open: "lease_live eb r \<Longrightarrow> \<not> lock_open eb r"
  by (auto simp: lease_live_def lock_open_def split: option.splits)

section \<open>Retry delays\<close>

locale backoff_policy =
  fixes backoff :: "int \<Rightarrow> int \<Rightarrow> int" and base :: int
  assumes backoff_eq: "backoff a c = min c (base * 2 ^ nat (a - 1))"
begin

lemma at_most_cap: "backoff a c \<le> c"
  by (simp add: backoff_eq)

lemma positive: "0 < base \<Longrightarrow> 0 < c \<Longrightarrow> 0 < backoff a c"
  by (simp add: backoff_eq)

lemma first_delay: "base \<le> c \<Longrightarrow> backoff 1 c = base"
  by (simp add: backoff_eq)

lemma mono:
  assumes "a \<le> a'" and "0 \<le> base"
  shows "backoff a c \<le> backoff a' c"
proof -
  have "nat (a - 1) \<le> nat (a' - 1)" using assms by simp
  then have "(2::int) ^ nat (a - 1) \<le> 2 ^ nat (a' - 1)" by (simp add: power_increasing)
  with assms(2) have "base * 2 ^ nat (a - 1) \<le> base * 2 ^ nat (a' - 1)" by (rule mult_left_mono [rotated])
  then show ?thesis by (simp add: backoff_eq)
qed

lemma doubling:
  assumes "1 \<le> a" and "0 \<le> c"
  shows "backoff (a + 1) c = min c (2 * backoff a c)"
proof -
  have "nat (a + 1 - 1) = Suc (nat (a - 1))" using assms by simp
  then have "backoff (a + 1) c = min c (2 * (base * 2 ^ nat (a - 1)))"
    by (simp only: backoff_eq power_Suc mult.left_commute)
  moreover have "min c (2 * x) = min c (2 * min c x)" for x :: int
    using \<open>0 \<le> c\<close> by (auto simp: min_def)
  ultimately show ?thesis by (simp only: backoff_eq)
qed

lemma saturated:
  assumes "c \<le> backoff a c" and "a \<le> a'" and "0 \<le> base"
  shows "backoff a' c = c"
  using mono [OF assms(2,3), of c] assms(1) at_most_cap [of a' c] by simp

lemma schedule:
  assumes "1 \<le> a" and "0 < c" and "0 < base"
  shows "0 < backoff a c \<and> backoff a c \<le> c \<and> backoff (a + 1) c = min c (2 * backoff a c)
    \<and> (base \<le> c \<longrightarrow> backoff 1 c = base)"
  using assms positive at_most_cap doubling first_delay by simp

end

section \<open>Taking a batch under a lease\<close>

locale lease_claim =
  fixes key :: "'r \<Rightarrow> 'k"
    and token :: "'r \<Rightarrow> 't option"
    and live :: "'now \<Rightarrow> 'r \<Rightarrow> bool"
    and within :: "'now \<Rightarrow> 'now \<Rightarrow> bool"
    and claim :: "'now \<Rightarrow> 't \<Rightarrow> 'r list \<Rightarrow> 'r list \<times> 'k list"
  assumes claim_keys:
      "distinct (map key t) \<Longrightarrow> claim now tok t = (t', ks) \<Longrightarrow> map key t' = map key t"
    and claim_live:
      "distinct (map key t) \<Longrightarrow> claim now tok t = (t', ks) \<Longrightarrow> r \<in> set t \<Longrightarrow> live now r \<Longrightarrow>
        key r \<notin> set ks \<and> r \<in> set t'"
    and claim_taken:
      "distinct (map key t) \<Longrightarrow> claim now tok t = (t', ks) \<Longrightarrow> k \<in> set ks \<Longrightarrow>
        \<exists>r' \<in> set t'. key r' = k \<and> token r' = Some tok \<and> (\<forall>now'. within now now' \<longrightarrow> live now' r')"
begin

lemma second_claim_disjoint:
  assumes dist: "distinct (map key t)"
    and first: "claim now1 tok1 t = (t1, ks1)"
    and second: "claim now2 tok2 t1 = (t2, ks2)"
    and lease: "within now1 now2"
  shows "set ks1 \<inter> set ks2 = {}"
proof -
  from claim_keys [OF dist first] dist have dist1: "distinct (map key t1)" by simp
  have "k \<notin> set ks2" if k: "k \<in> set ks1" for k
  proof -
    from claim_taken [OF dist first k] lease obtain r
      where r: "r \<in> set t1" "key r = k" "live now2 r" by blast
    from claim_live [OF dist1 second r(1,3)] r(2) show ?thesis by simp
  qed
  then show ?thesis by auto
qed

lemma claimed_row_survives:
  assumes dist: "distinct (map key t)"
    and first: "claim now1 tok1 t = (t1, ks1)" and k: "k \<in> set ks1"
    and second: "claim now2 tok2 t1 = (t2, ks2)"
    and lease: "within now1 now2"
  shows "\<exists>r \<in> set t2. key r = k \<and> token r = Some tok1"
proof -
  from claim_keys [OF dist first] dist have dist1: "distinct (map key t1)" by simp
  from claim_taken [OF dist first k] lease obtain r
    where r: "r \<in> set t1" "key r = k" "token r = Some tok1" "live now2 r" by blast
  from claim_live [OF dist1 second r(1,4)] r show ?thesis by auto
qed

end

text \<open>
  The way two of the queues take rows: select the keys of ready rows, lock those rows with an
  \<open>UPDATE\<close> that repeats the condition, and read back what carries the token. When nothing does, the
  transaction is rolled back to \<open>committed\<close>, the table without the session's own pending writes.
\<close>

definition lease_rows ::
  "('r \<Rightarrow> 'k) \<Rightarrow> ('r \<Rightarrow> 't option) \<Rightarrow> ('r \<Rightarrow> bool) \<Rightarrow> ('r \<Rightarrow> 'r) \<Rightarrow> 't \<Rightarrow> 'k list \<Rightarrow> 'r list \<Rightarrow> 'r list \<Rightarrow> 'r list \<times> 'r list"
where
  "lease_rows key token ready lock tok ids committed t =
     (if ids = [] then (committed, [])
      else let t1 = sql_update (\<lambda>r. key r \<in> set ids \<and> ready r) lock t;
               locked = filter (\<lambda>r. key r \<in> set ids \<and> token r = Some tok) t1
           in if locked = [] then (committed, []) else (t1, locked))"

locale row_leasing =
  fixes key :: "'r \<Rightarrow> 'k"
    and token :: "'r \<Rightarrow> 't option"
    and live :: "'now \<Rightarrow> 'r \<Rightarrow> bool"
    and within :: "'now \<Rightarrow> 'now \<Rightarrow> bool"
    and chosen :: "'now \<Rightarrow> 'r list \<Rightarrow> 'k list"
    and ready :: "'now \<Rightarrow> 'r \<Rightarrow> bool"
    and lock :: "'now \<Rightarrow> 't \<Rightarrow> 'r \<Rightarrow> 'r"
  assumes lock_key: "key (lock now tok r) = key r"
    and lock_token: "token (lock now tok r) = Some tok"
    and lock_live: "within now now' \<Longrightarrow> live now' (lock now tok r)"
    and chosen_ready: "k \<in> set (chosen now t) \<Longrightarrow> \<exists>r \<in> set t. key r = k \<and> ready now r"
    and ready_not_live: "ready now r \<Longrightarrow> \<not> live now r"
begin

lemma lease_rows_keys:
  "map key (fst (lease_rows key token (ready now) (lock now tok) tok ids t t)) = map key t"
  by (simp add: lease_rows_def Let_def sql_update_keys lock_key)

lemma lease_rows_locked:
  assumes dist: "distinct (map key t)" and ids: "set ids \<subseteq> set (chosen now t)"
    and r: "r \<in> set (snd (lease_rows key token (ready now) (lock now tok) tok ids t t))"
  shows "r \<in> set (fst (lease_rows key token (ready now) (lock now tok) tok ids t t))
    \<and> (\<exists>r0 \<in> set t. ready now r0 \<and> r = lock now tok r0 \<and> key r0 \<in> set ids)"
proof -
  let ?p = "\<lambda>r. key r \<in> set ids \<and> ready now r"
  from r have mem: "r \<in> set (sql_update ?p (lock now tok) t)" and rid: "key r \<in> set ids"
    and fst: "fst (lease_rows key token (ready now) (lock now tok) tok ids t t) = sql_update ?p (lock now tok) t"
    by (auto simp: lease_rows_def Let_def split: if_splits)
  from rid ids chosen_ready obtain r0 where r0: "r0 \<in> set t" "key r0 = key r" "ready now r0" by blast
  then have "lock now tok r0 \<in> set (sql_update ?p (lock now tok) t)" using rid by (intro sql_update_hit) auto
  moreover have "distinct (map key (sql_update ?p (lock now tok) t))"
    using dist by (simp add: sql_update_keys lock_key)
  ultimately have "r = lock now tok r0"
    using mem r0(2) by (intro same_key_same_row [where key = key]) (simp_all add: lock_key)
  with mem fst r0 rid show ?thesis by auto
qed

end

sublocale row_leasing \<subseteq> lease_claim key token live within
  "\<lambda>now tok t. map_prod id (map key) (lease_rows key token (ready now) (lock now tok) tok (chosen now t) t t)"
proof
  fix t now tok t' ks
  let ?l = "lease_rows key token (ready now) (lock now tok) tok (chosen now t) t t"
  assume dist: "distinct (map key t)"
    and claim: "map_prod id (map key) ?l = (t', ks)"
  then have t': "t' = fst ?l" and ks: "ks = map key (snd ?l)" by (cases ?l; simp)+
  show "map key t' = map key t" by (simp add: t' lease_rows_keys)
  {
    fix r
    assume r: "r \<in> set t" and live: "live now r"
    have "key r \<notin> set (chosen now t)"
    proof
      assume "key r \<in> set (chosen now t)"
      then obtain r0 where "r0 \<in> set t" "key r0 = key r" "ready now r0" using chosen_ready by blast
      with dist r have "ready now r" by (metis same_key_same_row)
      with live ready_not_live show False by blast
    qed
    then show "key r \<notin> set ks \<and> r \<in> set t'"
      using r by (auto simp: t' ks lease_rows_def Let_def sql_update_miss)
  }
  {
    fix k
    assume "k \<in> set ks"
    then obtain r where r: "r \<in> set (snd ?l)" "k = key r" by (auto simp: ks)
    from lease_rows_locked [OF dist subset_refl r(1)] obtain r0
      where "r \<in> set t'" "r = lock now tok r0" by (auto simp: t')
    with r(2) show "\<exists>r' \<in> set t'. key r' = k \<and> token r' = Some tok \<and> (\<forall>now'. within now now' \<longrightarrow> live now' r')"
      by (intro bexI [of _ r]) (simp_all add: lock_token lock_live)
  }
qed

section \<open>Statements guarded by the token\<close>

locale fenced_write =
  fixes key :: "'r \<Rightarrow> 'k"
    and token :: "'r \<Rightarrow> 't option"
    and finalize :: "'t \<Rightarrow> 'k \<Rightarrow> 'r list \<Rightarrow> 'r list"
  assumes write_fenced:
      "\<forall>r \<in> set t. key r = k \<longrightarrow> token r \<noteq> Some tok \<Longrightarrow> finalize tok k t = t"
    and write_frame:
      "r \<in> set t \<Longrightarrow> key r \<noteq> k \<Longrightarrow> r \<in> set (finalize tok k t)"

locale leased_queue = lease_claim key token live within claim + fenced_write key token finalize
  for key :: "'r \<Rightarrow> 'k"
    and token :: "'r \<Rightarrow> 't option"
    and live :: "'now \<Rightarrow> 'r \<Rightarrow> bool"
    and within :: "'now \<Rightarrow> 'now \<Rightarrow> bool"
    and claim :: "'now \<Rightarrow> 't \<Rightarrow> 'r list \<Rightarrow> 'r list \<times> 'k list"
    and finalize :: "'t \<Rightarrow> 'k \<Rightarrow> 'r list \<Rightarrow> 'r list"
begin

lemma superseded_worker_harmless:
  assumes dist: "distinct (map key t)"
    and takeover: "claim now tok' t = (t', ks)" and k: "k \<in> set ks"
    and other: "tok \<noteq> tok'"
  shows "finalize tok k t' = t'"
proof (rule write_fenced)
  from claim_keys [OF dist takeover] dist have dist': "distinct (map key t')" by simp
  from claim_taken [OF dist takeover k] obtain r
    where r: "r \<in> set t'" "key r = k" "token r = Some tok'" by blast
  show "\<forall>x \<in> set t'. key x = k \<longrightarrow> token x \<noteq> Some tok"
  proof (intro ballI impI)
    fix x
    assume "x \<in> set t'" and "key x = k"
    with dist' r have "x = r" by (intro same_key_same_row [where key = key]) simp_all
    with r other show "token x \<noteq> Some tok" by simp
  qed
qed

end

end
