(* ===== verification/Recalc_Queue.thy ===== *)
theory Recalc_Queue
  imports Lease_Core "HOL-Library.Char_ord" "HOL-Library.List_Lexorder"
    "HOL-Library.Product_Lexorder"
begin

text \<open>
  The matter status recalculation queue
  (\<open>app/services/matter/matter_status_recalc_queue.py\<close>, table
  \<open>matter_status_recalc_queue\<close>).

  A row stands for "recompute the cached status of this matter". Producers upsert a row
  (\<open>rq_enqueue\<close>); a drain takes batches under a lease, recomputes each matter, and in one
  transaction stores the matter and removes the row (\<open>rq_finalize_success\<close>), or records the
  failure (\<open>rq_record_failure\<close>). The recalculation itself (\<open>apply_auto_status_cache_to_matter\<close>),
  what other transactions do to the table meanwhile, the clock and the database failures are the
  record \<open>rq_env\<close> the drain takes as an argument.
\<close>

section \<open>Data\<close>

text \<open>
  The payload column holds the JSON text of three values; the text determines them and is
  determined by them, so the column is modelled by the values.
\<close>

record rq_payload =
  reason :: "string option"
  enqueue_id :: string
  enqueued_at :: datetime

record rq_row = lease_row +
  matter_id :: string
  payload :: "rq_payload option"

type_synonym rq_table = "rq_row list"

record rq_counts =
  processed :: int
  updated :: int
  failed :: int

datatype rq_error = LockLostBeforeFinalize | LockLostDuringProcessing | DatabaseError string
  | RecalcError string

definition datetime_min :: datetime where
  "datetime_min = -62135596800000000"

section \<open>Producer\<close>

definition rq_upsert :: "datetime \<Rightarrow> datetime \<Rightarrow> string \<Rightarrow> rq_payload \<Rightarrow> rq_table \<Rightarrow> rq_table" where
  "rq_upsert expired_before now mid pl t =
     (if \<exists>r \<in> set t. matter_id r = mid
      then sql_update (\<lambda>r. matter_id r = mid)
             (\<lambda>r. let live = lease_live expired_before r in
                r\<lparr>payload := Some pl,
                  attempts := (if live then attempts r else 0),
                  next_run_at := Some now,
                  locked_at := (if live then locked_at r else None),
                  lock_token := (if live then lock_token r else None),
                  last_error := None,
                  updated_at := now\<rparr>) t
      else t @ [\<lparr>attempts = 0, next_run_at = Some now, locked_at = None, lock_token = None,
                 last_error = None, created_at = now, updated_at = now,
                 matter_id = mid, payload = Some pl\<rparr>])"

definition rq_enqueue ::
  "int \<Rightarrow> datetime \<Rightarrow> string \<Rightarrow> bool \<Rightarrow> string option \<Rightarrow> string option \<Rightarrow> rq_table \<Rightarrow> bool \<times> rq_table"
where
  "rq_enqueue lock_timeout now uuid db_fails mid_arg why t =
     (let mid = strip (or_empty mid_arg) in
      if mid = [] then (False, t)
      else if db_fails then (False, t)
      else (True, rq_upsert (now - seconds lock_timeout) now mid
                    \<lparr>reason = why, enqueue_id = uuid, enqueued_at = now\<rparr> t))"

section \<open>Taking rows\<close>

definition rq_compute_backoff_seconds :: "int \<Rightarrow> int \<Rightarrow> int \<Rightarrow> int" where
  "rq_compute_backoff_seconds tries base cap = min cap (base * 2 ^ nat (max 0 (tries - 1)))"

type_synonym rq_candidate = "string \<times> datetime option \<times> datetime"

definition rq_candidate_key :: "rq_candidate \<Rightarrow> bool \<times> datetime \<times> datetime \<times> string" where
  "rq_candidate_key c =
     (case c of (mid, nxt, upd) \<Rightarrow>
        (nxt \<noteq> None, (case nxt of None \<Rightarrow> datetime_min | Some n \<Rightarrow> n), upd, mid))"

text \<open>
  \<open>held\<close> are the rows other open transactions hold row locks on, which \<open>FOR UPDATE SKIP
  LOCKED\<close> passes over (none on dialects without it).
\<close>

definition rq_ready_for :: "(rq_row \<Rightarrow> bool) \<Rightarrow> datetime \<Rightarrow> int \<Rightarrow> rq_row \<Rightarrow> bool" where
  "rq_ready_for lock_predicate now max_attempts r \<longleftrightarrow>
     lock_predicate r \<and> run_due now r \<and> attempts r < max_attempts"

definition rq_lock_predicate :: "bool \<Rightarrow> datetime \<Rightarrow> rq_row \<Rightarrow> bool" where
  "rq_lock_predicate include_expired_locked expired_before r =
     (if include_expired_locked
      then (case locked_at r of None \<Rightarrow> False | Some l \<Rightarrow> l < expired_before)
      else locked_at r = None)"

definition rq_select_ready_candidate_rows ::
  "int \<Rightarrow> datetime \<Rightarrow> datetime \<Rightarrow> int \<Rightarrow> (string \<Rightarrow> bool) \<Rightarrow> bool \<Rightarrow> rq_table \<Rightarrow> rq_candidate list"
where
  "rq_select_ready_candidate_rows limit now expired_before max_attempts held include_expired_locked t =
     (if limit \<le> 0 then []
      else let rows = map (\<lambda>r. (matter_id r, next_run_at r, updated_at r))
             (filter (\<lambda>r. rq_ready_for (rq_lock_predicate include_expired_locked expired_before)
                 now max_attempts r \<and> \<not> held (matter_id r)) t)
       in filter (\<lambda>c. fst c \<noteq> []) (take (nat limit) (sort_key rq_candidate_key rows)))"

definition rq_lock :: "datetime \<Rightarrow> string \<Rightarrow> rq_row \<Rightarrow> rq_row" where
  "rq_lock now token r =
     r\<lparr>locked_at := Some now, lock_token := Some token, attempts := attempts r + 1,
       last_error := None, updated_at := now\<rparr>"

text \<open>The \<open>UPDATE ... WHERE matter_id IN :ids\<close> and the \<open>SELECT\<close> of what it locked.\<close>

definition rq_lock_rows ::
  "string list \<Rightarrow> datetime \<Rightarrow> string \<Rightarrow> int \<Rightarrow> datetime \<Rightarrow> rq_table
    \<Rightarrow> rq_table \<times> (string \<times> rq_payload option) list"
where
  "rq_lock_rows mids now token max_attempts expired_before t =
     (if mids = [] then (t, [])
      else let t1 = sql_update (\<lambda>r. matter_id r \<in> set mids
                      \<and> rq_ready_for (lock_open expired_before) now max_attempts r)
                      (rq_lock now token) t;
           locked = map (\<lambda>r. (matter_id r, payload r))
             (filter (\<lambda>r. matter_id r \<in> set mids \<and> lock_token r = Some token \<and> matter_id r \<noteq> []) t1)
       in if locked = [] then (t, []) else (t1, locked))"

definition rq_pick_and_lock_ready_items ::
  "int \<Rightarrow> datetime \<Rightarrow> string \<Rightarrow> int \<Rightarrow> int \<Rightarrow> (string \<Rightarrow> bool) \<Rightarrow> bool \<Rightarrow> rq_table
    \<Rightarrow> rq_table \<times> (string \<times> rq_payload option) list"
where
  "rq_pick_and_lock_ready_items limit now token max_attempts lock_timeout held db_fails t =
     (if db_fails then (t, [])
      else let expired_before = now - seconds lock_timeout;
           unlocked_rows = rq_select_ready_candidate_rows limit now expired_before max_attempts held False t;
           expired_rows = rq_select_ready_candidate_rows
             (max 0 (limit - int (length unlocked_rows))) now expired_before max_attempts held True t;
           candidates = sort_key rq_candidate_key (unlocked_rows @ expired_rows);
           mids = map fst (take (nat limit) candidates)
       in rq_lock_rows mids now token max_attempts expired_before t)"

definition rq_lock_specific_items ::
  "string list \<Rightarrow> datetime \<Rightarrow> string \<Rightarrow> int \<Rightarrow> int \<Rightarrow> bool \<Rightarrow> rq_table
    \<Rightarrow> rq_table \<times> (string \<times> rq_payload option) list"
where
  "rq_lock_specific_items ids now token max_attempts lock_timeout db_fails t =
     (if ids = [] then (t, [])
      else if db_fails then (t, [])
      else let expired_before = now - seconds lock_timeout;
           mids = filter (\<lambda>m. m \<noteq> []) (map matter_id (filter (\<lambda>r. matter_id r \<in> set ids
              \<and> rq_ready_for (lock_open expired_before) now max_attempts r) t))
       in rq_lock_rows mids now token max_attempts expired_before t)"

section \<open>Finishing a row\<close>

definition rq_owned :: "string \<Rightarrow> string \<Rightarrow> rq_row \<Rightarrow> bool" where
  "rq_owned mid token r \<longleftrightarrow> matter_id r = mid \<and> lock_token r = Some token"

definition rq_count_done :: "bool \<Rightarrow> rq_counts \<Rightarrow> rq_counts" where
  "rq_count_done changed c =
     c\<lparr>processed := processed c + 1, updated := (if changed then updated c + 1 else updated c)\<rparr>"

text \<open>
  Finishing takes two statements: a plain \<open>SELECT\<close>, which locks nothing, and an \<open>UPDATE\<close> or
  \<open>DELETE\<close>. \<open>between\<close> is what other transactions commit after the first and before the second. An
  error comes with the table as it is then. A failing statement or commit is either of the two.
\<close>

definition rq_finalize_success ::
  "string \<Rightarrow> bool \<Rightarrow> rq_payload option \<Rightarrow> string \<Rightarrow> datetime \<Rightarrow> bool \<Rightarrow> (rq_table \<Rightarrow> rq_table) \<Rightarrow> rq_table \<times> rq_counts
    \<Rightarrow> (rq_error \<times> rq_table) + rq_table \<times> rq_counts"
where
  "rq_finalize_success mid matter_changed locked_payload token now db_fails between s =
     (case s of (t, c) \<Rightarrow>
        if db_fails then Inl (DatabaseError ''finalize'', between t)
        else case sql_first (rq_owned mid token) t of
          None \<Rightarrow> Inl (LockLostBeforeFinalize, t)
        | Some row \<Rightarrow>
            let t1 = between t in
            if payload row \<noteq> locked_payload
            then Inr (sql_update (rq_owned mid token)
                   (\<lambda>r. r\<lparr>attempts := 0, next_run_at := Some now, locked_at := None,
                          lock_token := None, last_error := None, updated_at := now\<rparr>) t1,
                 rq_count_done matter_changed c)
            else if rowcount (rq_owned mid token) t1 = 0 then Inl (LockLostBeforeFinalize, t1)
            else Inr (sql_delete (rq_owned mid token) t1, rq_count_done matter_changed c))"

text \<open>Recording a failure is a \<open>SELECT\<close> and an \<open>UPDATE\<close> as well.\<close>

definition rq_record_failure ::
  "string \<Rightarrow> string \<Rightarrow> string \<Rightarrow> int \<Rightarrow> int \<Rightarrow> int \<Rightarrow> datetime \<Rightarrow> bool \<Rightarrow> bool \<Rightarrow> (rq_table \<Rightarrow> rq_table) \<Rightarrow> rq_table \<times> rq_counts
    \<Rightarrow> rq_table \<times> rq_counts"
where
  "rq_record_failure mid err token max_attempts base cap now select_fails update_fails between s =
     (case s of (t, c) \<Rightarrow>
        let c' = c\<lparr>failed := failed c + 1\<rparr>;
            tries = (if select_fails then 0
                     else case sql_first (\<lambda>r. matter_id r = mid) t of None \<Rightarrow> 0 | Some r \<Rightarrow> attempts r);
            next_run = (if 0 < tries \<and> tries < max_attempts
                        then Some (now + seconds (rq_compute_backoff_seconds tries base cap)) else None);
            t1 = between t
        in if update_fails then (t1, c')
           else (sql_update (rq_owned mid token)
                  (\<lambda>r. r\<lparr>last_error := Some (take 4000 err), next_run_at := next_run,
                         locked_at := None, lock_token := None, updated_at := now\<rparr>) t1, c'))"

section \<open>Draining\<close>

datatype rq_work = MatterGone | Recalculated bool | RecalcRaises string

text \<open>What other transactions commit: during the recalculation, between the two statements that
  finish a row, and between the two that record a failure.\<close>

record rq_env =
  work :: "string \<Rightarrow> rq_work"
  meanwhile :: "string \<Rightarrow> rq_table \<Rightarrow> rq_table"
  before_write :: "string \<Rightarrow> rq_table \<Rightarrow> rq_table"
  before_record :: "string \<Rightarrow> rq_table \<Rightarrow> rq_table"
  heartbeat_lost :: "string \<Rightarrow> bool"
  finalize_fails :: "string \<Rightarrow> bool"
  attempts_read_fails :: "string \<Rightarrow> bool"
  record_fails :: "string \<Rightarrow> bool"
  clock :: "string \<Rightarrow> datetime"

record rq_config =
  max_attempts :: int
  backoff_base :: int
  backoff_cap :: int
  lock_timeout :: int

text \<open>
  The state of a drain: the table, the counters, and the matters whose recomputed status was
  committed (in the transaction that finalizes the row).
\<close>

record rq_state =
  table :: rq_table
  counts :: rq_counts
  saved :: "string list"

definition rq_error_text :: "rq_error \<Rightarrow> string" where
  "rq_error_text e =
     (case e of LockLostBeforeFinalize \<Rightarrow> ''matter status recalc lock lost before finalize''
      | LockLostDuringProcessing \<Rightarrow> ''matter status recalc lock lost during processing''
      | DatabaseError m \<Rightarrow> m | RecalcError m \<Rightarrow> m)"

text \<open>
  A row heartbeat runs only when the batch has a single row; a larger batch has one heartbeat for
  all its rows, whose loss \<open>_drain_one\<close> does not look at.
\<close>

definition rq_try_one ::
  "rq_env \<Rightarrow> bool \<Rightarrow> string \<Rightarrow> rq_payload option \<Rightarrow> string \<Rightarrow> rq_table \<times> rq_counts
    \<Rightarrow> (rq_error \<times> rq_table) + bool \<times> rq_table \<times> rq_counts"
where
  "rq_try_one env use_row_heartbeat mid locked_payload token s =
     (case work env mid of
        MatterGone \<Rightarrow>
          map_sum id (Pair False)
            (rq_finalize_success mid False locked_payload token (clock env mid) (finalize_fails env mid) (before_write env mid) s)
      | RecalcRaises m \<Rightarrow> Inl (RecalcError m, fst s)
      | Recalculated changed \<Rightarrow>
          if use_row_heartbeat \<and> heartbeat_lost env mid then Inl (LockLostDuringProcessing, fst s)
          else map_sum id (Pair changed)
            (rq_finalize_success mid changed locked_payload token (clock env mid) (finalize_fails env mid) (before_write env mid) s))"

definition rq_drain_one ::
  "rq_env \<Rightarrow> rq_config \<Rightarrow> string \<Rightarrow> bool \<Rightarrow> string \<times> rq_payload option \<Rightarrow> rq_state \<Rightarrow> rq_state"
where
  "rq_drain_one env cfg token use_row_heartbeat item s =
     (case item of (mid, locked_payload) \<Rightarrow>
        let t = meanwhile env mid (table s) in
        case rq_try_one env use_row_heartbeat mid locked_payload token (t, counts s) of
          Inr (changed, t', c') \<Rightarrow>
            s\<lparr>table := t', counts := c', saved := (if changed then mid # saved s else saved s)\<rparr>
        | Inl (e, t1) \<Rightarrow>
            (case rq_record_failure mid
                (if rq_error_text e = [] then ''unknown error'' else rq_error_text e)
                token (max_attempts cfg) (backoff_base cfg) (backoff_cap cfg) (clock env mid)
                (attempts_read_fails env mid) (record_fails env mid) (before_record env mid) (t1, counts s) of
               (t', c') \<Rightarrow> s\<lparr>table := t', counts := c'\<rparr>))"

definition rq_drain_batch ::
  "rq_env \<Rightarrow> rq_config \<Rightarrow> string \<Rightarrow> (string \<times> rq_payload option) list \<Rightarrow> rq_state \<Rightarrow> rq_state"
where
  "rq_drain_batch env cfg token locked s = fold (rq_drain_one env cfg token (length locked \<le> 1)) locked s"

text \<open>Per iteration of the loop: the environment, the clock, the rows held elsewhere, and
  whether the statement that takes the batch fails.\<close>

record rq_iteration =
  iter_env :: rq_env
  iter_now :: datetime
  iter_held :: "string \<Rightarrow> bool"
  iter_pick_fails :: bool

function rq_drain_loop ::
  "(int \<Rightarrow> rq_iteration) \<Rightarrow> rq_config \<Rightarrow> string \<Rightarrow> int \<Rightarrow> int \<Rightarrow> int \<Rightarrow> rq_state \<Rightarrow> rq_state"
where
  "rq_drain_loop its cfg token pick_batch_size target drained s =
     (if drained < target then
        let it = its drained;
            batch_limit = min pick_batch_size (target - drained);
            (t', locked) = rq_pick_and_lock_ready_items batch_limit (iter_now it) token
               (max_attempts cfg) (lock_timeout cfg) (iter_held it) (iter_pick_fails it) (table s)
        in if locked = [] then s
           else rq_drain_loop its cfg token pick_batch_size target (drained + int (length locked))
                  (rq_drain_batch (iter_env it) cfg token locked (s\<lparr>table := t'\<rparr>))
      else s)"
  by pat_completeness auto
termination
  by (relation "measure (\<lambda>(its, cfg, token, b, target, drained, s). nat (target - drained))")
     (auto simp: nat_mono_iff)

declare rq_drain_loop.simps [simp del]

definition rq_no_counts :: rq_counts where
  "rq_no_counts = \<lparr>processed = 0, updated = 0, failed = 0\<rparr>"

definition drain_matter_status_recalc_queue ::
  "(int \<Rightarrow> rq_iteration) \<Rightarrow> rq_config \<Rightarrow> string \<Rightarrow> int option \<Rightarrow> string option list option \<Rightarrow> rq_table \<Rightarrow> rq_state"
where
  "drain_matter_status_recalc_queue its cfg token limit matter_ids t =
     (let s = \<lparr>table = t, counts = rq_no_counts, saved = []\<rparr> in
      case matter_ids of
        Some ids \<Rightarrow>
          let requested = map strip (filter (\<lambda>m. strip m \<noteq> []) (map or_empty ids));
              it = its 0;
              (t', locked) = rq_lock_specific_items requested (iter_now it) token
                 (max_attempts cfg) (lock_timeout cfg) (iter_pick_fails it) t
          in rq_drain_batch (iter_env it) cfg token locked (s\<lparr>table := t'\<rparr>)
      | None \<Rightarrow>
          let target = (case limit of None \<Rightarrow> 0 | Some l \<Rightarrow> l);
              pick_batch_size = max 1 (min 100 (if target = 0 then 100 else target))
          in rq_drain_loop its cfg token pick_batch_size target 0 s)"

definition run_matter_status_recalc_task ::
  "(int \<Rightarrow> rq_iteration) \<Rightarrow> rq_config \<Rightarrow> string \<Rightarrow> string list option \<Rightarrow> int option \<Rightarrow> rq_table \<Rightarrow> rq_state"
where
  "run_matter_status_recalc_task its cfg token matter_ids limit t =
     (let clean_ids = filter (\<lambda>m. m \<noteq> []) (map strip (case matter_ids of None \<Rightarrow> [] | Some l \<Rightarrow> l));
          task_limit = (case limit of Some l \<Rightarrow> if l \<noteq> 0 then l
                          else if clean_ids \<noteq> [] then int (length clean_ids) else 200
                        | None \<Rightarrow> if clean_ids \<noteq> [] then int (length clean_ids) else 200)
      in drain_matter_status_recalc_queue its cfg token (Some (max 1 task_limit))
           (if clean_ids = [] then None else Some (map Some clean_ids)) t)"

section \<open>Well-formed tables\<close>

definition rq_row_ok :: "int \<Rightarrow> rq_row \<Rightarrow> bool" where
  "rq_row_ok m r \<longleftrightarrow>
     0 \<le> attempts r \<and> attempts r \<le> m \<and> (lock_token r = None \<longleftrightarrow> locked_at r = None)"

definition rq_wf :: "int \<Rightarrow> rq_table \<Rightarrow> bool" where
  "rq_wf m t \<longleftrightarrow> distinct (map matter_id t) \<and> (\<forall>r \<in> set t. rq_row_ok m r)"

lemma rq_wf_distinct: "rq_wf m t \<Longrightarrow> distinct (map matter_id t)"
  by (simp add: rq_wf_def)

lemma rq_wf_sql_update:
  assumes "rq_wf m t"
    and "\<And>r. r \<in> set t \<Longrightarrow> p r \<Longrightarrow> matter_id (f r) = matter_id r"
    and "\<And>r. r \<in> set t \<Longrightarrow> p r \<Longrightarrow> rq_row_ok m r \<Longrightarrow> rq_row_ok m (f r)"
  shows "rq_wf m (sql_update p f t)"
proof -
  have "map matter_id (sql_update p f t) = map matter_id t"
    using assms(2) by (auto simp: sql_update_def)
  with assms show ?thesis by (auto simp: rq_wf_def set_sql_update)
qed

lemma rq_wf_sql_delete: "rq_wf m t \<Longrightarrow> rq_wf m (sql_delete p t)"
  by (auto simp: rq_wf_def table_simps)

lemma rq_wf_upsert:
  assumes "rq_wf m t" and "0 \<le> m"
  shows "rq_wf m (rq_upsert eb now mid pl t)"
proof (cases "\<exists>r \<in> set t. matter_id r = mid")
  case True
  have "rq_wf m (sql_update (\<lambda>r. matter_id r = mid)
             (\<lambda>r. let live = lease_live eb r in
                r\<lparr>payload := Some pl,
                  attempts := (if live then attempts r else 0),
                  next_run_at := Some now,
                  locked_at := (if live then locked_at r else None),
                  lock_token := (if live then lock_token r else None),
                  last_error := None,
                  updated_at := now\<rparr>) t)"
    using assms by (intro rq_wf_sql_update) (auto simp: rq_row_ok_def Let_def)
  with True show ?thesis by (simp add: rq_upsert_def)
next
  case False
  with assms show ?thesis
    by (auto simp: rq_upsert_def rq_wf_def rq_row_ok_def)
qed

lemma rq_wf_enqueue:
  "rq_wf m t \<Longrightarrow> 0 \<le> m \<Longrightarrow> rq_wf m (snd (rq_enqueue lt now u f mid why t))"
  by (simp add: rq_enqueue_def Let_def rq_wf_upsert)

lemma rq_wf_lock_rows:
  assumes "rq_wf m t"
  shows "rq_wf m (fst (rq_lock_rows mids now token m eb t))"
proof -
  have "rq_wf m (sql_update (\<lambda>r. matter_id r \<in> set mids \<and> rq_ready_for (lock_open eb) now m r)
      (rq_lock now token) t)"
    using assms by (intro rq_wf_sql_update) (auto simp: rq_row_ok_def rq_lock_def rq_ready_for_def)
  with assms show ?thesis by (simp add: rq_lock_rows_def Let_def)
qed

lemma rq_wf_pick:
  "rq_wf m t \<Longrightarrow> rq_wf m (fst (rq_pick_and_lock_ready_items l now token m lt held f t))"
  by (simp add: rq_pick_and_lock_ready_items_def Let_def rq_wf_lock_rows)

lemma rq_wf_lock_specific:
  "rq_wf m t \<Longrightarrow> rq_wf m (fst (rq_lock_specific_items ids now token m lt f t))"
  by (simp add: rq_lock_specific_items_def Let_def rq_wf_lock_rows)

lemma rq_wf_finalize:
  assumes "rq_wf m t" and "0 \<le> m" and between: "\<And>t. rq_wf m t \<Longrightarrow> rq_wf m (between t)"
  shows "rq_finalize_success mid ch lp token now f between (t, c) = Inr (t', c') \<Longrightarrow> rq_wf m t'"
    and "rq_finalize_success mid ch lp token now f between (t, c) = Inl (e, t') \<Longrightarrow> rq_wf m t'"
proof -
  let ?reset = "\<lambda>r. r\<lparr>attempts := 0, next_run_at := Some now, locked_at := None,
      lock_token := None, last_error := None, updated_at := now\<rparr>"
  have wf: "rq_wf m (between t)" using assms(1) by (rule between)
  have "rq_wf m (sql_update (rq_owned mid token) ?reset (between t))"
    using wf assms(2) by (intro rq_wf_sql_update) (auto simp: rq_row_ok_def)
  with assms(1) wf rq_wf_sql_delete [of m "between t"]
  show "rq_finalize_success mid ch lp token now f between (t, c) = Inr (t', c') \<Longrightarrow> rq_wf m t'"
    and "rq_finalize_success mid ch lp token now f between (t, c) = Inl (e, t') \<Longrightarrow> rq_wf m t'"
    by (auto simp: rq_finalize_success_def Let_def split: if_splits option.splits)
qed

lemma rq_wf_record_failure:
  assumes "rq_wf m (between t)"
  shows "rq_wf m (fst (rq_record_failure mid err token ma b cp now sf uf between (t, c)))"
proof -
  have "rq_wf m (sql_update (rq_owned mid token)
      (\<lambda>r. r\<lparr>last_error := e, next_run_at := n, locked_at := None, lock_token := None,
             updated_at := now\<rparr>) (between t))" for e n
    using assms by (intro rq_wf_sql_update) (auto simp: rq_row_ok_def)
  with assms show ?thesis by (simp add: rq_record_failure_def Let_def)
qed

section \<open>What taking a batch does\<close>

lemma rq_lock_rows_keys:
  "rq_lock_rows mids now token m eb t = (t', l) \<Longrightarrow> map matter_id t' = map matter_id t"
  by (auto simp: rq_lock_rows_def Let_def rq_lock_def sql_update_def split: if_splits)

lemma rq_lock_rows_live:
  assumes "rq_lock_rows mids now token m eb t = (t', l)" and "r \<in> set t" and "lease_live eb r"
  shows "r \<in> set t'"
  using assms lease_live_not_open [OF assms(3)]
  by (auto simp: rq_lock_rows_def Let_def set_sql_update rq_ready_for_def split: if_splits)

lemma rq_lock_rows_taken:
  assumes "rq_lock_rows mids now token m eb t = (t', l)"
    and "\<And>r. r \<in> set t \<Longrightarrow> matter_id r \<in> set mids \<Longrightarrow> rq_ready_for (lock_open eb) now m r"
    and "k \<in> fst ` set l"
  shows "\<exists>r \<in> set t. matter_id r = k \<and> k \<in> set mids \<and> rq_ready_for (lock_open eb) now m r
           \<and> rq_lock now token r \<in> set t' \<and> (k, payload r) \<in> set l"
proof -
  let ?p = "\<lambda>r. matter_id r \<in> set mids \<and> rq_ready_for (lock_open eb) now m r"
  have t': "t' = sql_update ?p (rq_lock now token) t"
    and l: "l = map (\<lambda>r. (matter_id r, payload r))
             (filter (\<lambda>r. matter_id r \<in> set mids \<and> lock_token r = Some token \<and> matter_id r \<noteq> []) t')"
    using assms(1,3) by (auto simp: rq_lock_rows_def Let_def split: if_splits)
  from assms(3) l obtain r' where r': "r' \<in> set t'" "matter_id r' = k" "k \<in> set mids"
    "(k, payload r') \<in> set l" by auto
  from r'(1) obtain r where r: "r \<in> set t" "r' = (if ?p r then rq_lock now token r else r)"
    by (auto simp: t' sql_update_def)
  then have "matter_id r = k" using r'(2) by (auto simp: rq_lock_def split: if_splits)
  with assms(2) r(1) r'(3) have "?p r" by simp
  with r r' \<open>matter_id r = k\<close> have "r' = rq_lock now token r" "payload r' = payload r"
    by (simp_all add: rq_lock_def)
  with r r' \<open>matter_id r = k\<close> \<open>?p r\<close> show ?thesis by auto
qed

lemma rq_select_ready:
  assumes "c \<in> set (rq_select_ready_candidate_rows l now eb m held inc t)"
  shows "\<exists>r \<in> set t. matter_id r = fst c \<and> rq_ready_for (lock_open eb) now m r
           \<and> \<not> held (fst c) \<and> fst c \<noteq> []"
proof -
  from assms obtain r where "r \<in> set t" "c = (matter_id r, next_run_at r, updated_at r)"
    "rq_ready_for (rq_lock_predicate inc eb) now m r" "\<not> held (matter_id r)" "fst c \<noteq> []"
    by (auto simp: rq_select_ready_candidate_rows_def Let_def split: if_splits dest!: in_set_takeD)
  then show ?thesis
    by (auto simp: rq_ready_for_def rq_lock_predicate_def lock_open_def split: if_splits option.splits)
qed

definition rq_picked_ids :: "int \<Rightarrow> datetime \<Rightarrow> datetime \<Rightarrow> int \<Rightarrow> (string \<Rightarrow> bool) \<Rightarrow> rq_table \<Rightarrow> string list" where
  "rq_picked_ids limit now eb m held t =
     (let unlocked_rows = rq_select_ready_candidate_rows limit now eb m held False t;
          expired_rows = rq_select_ready_candidate_rows (max 0 (limit - int (length unlocked_rows))) now eb m held True t
      in map fst (take (nat limit) (sort_key rq_candidate_key (unlocked_rows @ expired_rows))))"

lemma rq_pick_alt:
  "rq_pick_and_lock_ready_items limit now token m lt held f t =
     (if f then (t, [])
      else rq_lock_rows (rq_picked_ids limit now (now - seconds lt) m held t) now token m (now - seconds lt) t)"
  by (simp add: rq_pick_and_lock_ready_items_def rq_picked_ids_def Let_def)

lemma rq_picked_ids_ready:
  assumes "k \<in> set (rq_picked_ids limit now eb m held t)"
  shows "\<exists>r \<in> set t. matter_id r = k \<and> rq_ready_for (lock_open eb) now m r \<and> \<not> held k \<and> k \<noteq> []"
proof -
  from assms obtain c inc l' where "c \<in> set (rq_select_ready_candidate_rows l' now eb m held inc t)" "k = fst c"
    by (auto simp: rq_picked_ids_def Let_def dest!: in_set_takeD)
  with rq_select_ready show ?thesis by blast
qed

lemma rq_ready_unique:
  assumes "distinct (map matter_id t)" and "r \<in> set t"
    and "\<exists>x \<in> set t. matter_id x = matter_id r \<and> P x"
  shows "P r"
  using assms same_key_same_row [of matter_id t] by blast

lemma rq_pick_taken:
  assumes "distinct (map matter_id t)"
    and pick: "rq_pick_and_lock_ready_items limit now token m lt held f t = (t', l)"
    and k: "k \<in> fst ` set l"
  shows "\<exists>r \<in> set t. matter_id r = k \<and> rq_ready_for (lock_open (now - seconds lt)) now m r
           \<and> \<not> held k \<and> rq_lock now token r \<in> set t' \<and> (k, payload r) \<in> set l"
proof -
  let ?eb = "now - seconds lt"
  let ?mids = "rq_picked_ids limit now ?eb m held t"
  have lock: "rq_lock_rows ?mids now token m ?eb t = (t', l)"
    using pick k by (auto simp: rq_pick_alt split: if_splits)
  have "\<exists>r \<in> set t. matter_id r = k \<and> k \<in> set ?mids \<and> rq_ready_for (lock_open ?eb) now m r
           \<and> rq_lock now token r \<in> set t' \<and> (k, payload r) \<in> set l"
    by (rule rq_lock_rows_taken [OF lock _ k])
       (metis (no_types, lifting) assms(1) rq_picked_ids_ready rq_ready_unique)
  then show ?thesis using rq_picked_ids_ready by blast
qed

section \<open>The queue meets the lease contracts\<close>

definition rq_after_finalize ::
  "bool \<Rightarrow> rq_payload option \<Rightarrow> datetime \<Rightarrow> bool \<Rightarrow> string \<Rightarrow> string \<Rightarrow> rq_table \<Rightarrow> rq_table"
where
  "rq_after_finalize ch lp now f token mid t =
     (case rq_finalize_success mid ch lp token now f (\<lambda>t. t) (t, rq_no_counts) of Inl e \<Rightarrow> t | Inr (t', c') \<Rightarrow> t')"

definition rq_after_failure ::
  "string \<Rightarrow> int \<Rightarrow> int \<Rightarrow> int \<Rightarrow> datetime \<Rightarrow> bool \<Rightarrow> bool \<Rightarrow> string \<Rightarrow> string \<Rightarrow> rq_table \<Rightarrow> rq_table"
where
  "rq_after_failure err m b cp now sf uf token mid t =
     fst (rq_record_failure mid err token m b cp now sf uf (\<lambda>t. t) (t, rq_no_counts))"

lemma rq_owned_none:
  "\<forall>r \<in> set t. matter_id r = mid \<longrightarrow> lock_token r \<noteq> Some token \<Longrightarrow> \<forall>r \<in> set t. \<not> rq_owned mid token r"
  by (auto simp: rq_owned_def)

lemma rq_finalize_lost:
  "\<forall>r \<in> set t. \<not> rq_owned mid token r \<Longrightarrow>
     rq_finalize_success mid ch lp token now False between (t, c) = Inl (LockLostBeforeFinalize, t)"
  by (simp add: rq_finalize_success_def sql_first_None [THEN iffD2])

lemma rq_record_lost:
  "\<forall>r \<in> set (between t). \<not> rq_owned mid token r \<Longrightarrow>
     rq_record_failure mid err token m b cp now sf uf between (t, c) = (between t, c\<lparr>failed := failed c + 1\<rparr>)"
  by (simp add: rq_record_failure_def Let_def sql_update_none)

interpretation rq_backoff: backoff_policy "\<lambda>a c. rq_compute_backoff_seconds a b c" b for b
proof
  fix a c :: int
  have "nat (max 0 (a - 1)) = nat (a - 1)" by simp
  then show "rq_compute_backoff_seconds a b c = min c (b * 2 ^ nat (a - 1))"
    by (simp add: rq_compute_backoff_seconds_def)
qed

interpretation rq_lease: lease_claim matter_id lock_token
  "\<lambda>now. lease_live (now - seconds lt)" "\<lambda>now now'. now' - seconds lt \<le> now"
  "\<lambda>now token t. map_prod id (map fst) (rq_pick_and_lock_ready_items limit now token m lt held f t)"
  for limit m lt held f
proof
  fix t :: rq_table and now token t' ks
  assume dist: "distinct (map matter_id t)"
    and "map_prod id (map fst) (rq_pick_and_lock_ready_items limit now token m lt held f t) = (t', ks)"
  then obtain l where pick: "rq_pick_and_lock_ready_items limit now token m lt held f t = (t', l)"
    and ks: "ks = map fst l" by (auto simp: map_prod_def split: prod.splits)
  show "map matter_id t' = map matter_id t"
    using pick by (auto simp: rq_pick_alt dest: rq_lock_rows_keys split: if_splits)
  show "matter_id r \<notin> set ks \<and> r \<in> set t'" if "r \<in> set t" "lease_live (now - seconds lt) r" for r
  proof
    show "r \<in> set t'" using pick that
      by (auto simp: rq_pick_alt intro: rq_lock_rows_live split: if_splits)
    show "matter_id r \<notin> set ks"
    proof
      assume "matter_id r \<in> set ks"
      with rq_pick_taken [OF dist pick] ks have "\<exists>x \<in> set t. matter_id x = matter_id r
          \<and> rq_ready_for (lock_open (now - seconds lt)) now m x" by fastforce
      with dist that(1) have "rq_ready_for (lock_open (now - seconds lt)) now m r"
        by (rule rq_ready_unique)
      with lease_live_not_open [OF that(2)] show False by (simp add: rq_ready_for_def)
    qed
  qed
  show "\<exists>r' \<in> set t'. matter_id r' = k \<and> lock_token r' = Some token
      \<and> (\<forall>now'. now' - seconds lt \<le> now \<longrightarrow> lease_live (now' - seconds lt) r')" if "k \<in> set ks" for k
  proof -
    from rq_pick_taken [OF dist pick] that ks obtain r
      where "matter_id r = k" "rq_lock now token r \<in> set t'" by force
    then show ?thesis
      by (intro bexI [of _ "rq_lock now token r"]) (auto simp: rq_lock_def lease_live_def)
  qed
qed

interpretation rq_fence: fenced_write matter_id lock_token "rq_after_finalize ch lp now f"
  for ch lp now f
proof
  fix t :: rq_table and k token
  assume "\<forall>r \<in> set t. matter_id r = k \<longrightarrow> lock_token r \<noteq> Some token"
  then have "\<forall>r \<in> set t. \<not> rq_owned k token r" by (rule rq_owned_none)
  then show "rq_after_finalize ch lp now f token k t = t"
    by (cases f) (simp_all add: rq_after_finalize_def rq_finalize_lost, simp add: rq_finalize_success_def)
next
  fix r and t :: rq_table and k token
  assume "r \<in> set t" and "matter_id r \<noteq> k"
  then show "r \<in> set (rq_after_finalize ch lp now f token k t)"
    by (auto simp: rq_after_finalize_def rq_finalize_success_def Let_def table_simps rq_owned_def
        split: option.splits if_splits)
qed

interpretation rq_failure_fence: fenced_write matter_id lock_token "rq_after_failure err m b cp now sf uf"
  for err m b cp now sf uf
proof
  fix t :: rq_table and k token
  assume "\<forall>r \<in> set t. matter_id r = k \<longrightarrow> lock_token r \<noteq> Some token"
  then have "\<forall>r \<in> set t. \<not> rq_owned k token r" by (rule rq_owned_none)
  then show "rq_after_failure err m b cp now sf uf token k t = t"
    by (simp add: rq_after_failure_def rq_record_lost)
next
  fix r and t :: rq_table and k token
  assume "r \<in> set t" and "matter_id r \<noteq> k"
  then show "r \<in> set (rq_after_failure err m b cp now sf uf token k t)"
    by (auto simp: rq_after_failure_def rq_record_failure_def Let_def table_simps rq_owned_def)
qed

interpretation rq_queue: leased_queue matter_id lock_token
  "\<lambda>now. lease_live (now - seconds lt)" "\<lambda>now now'. now' - seconds lt \<le> now"
  "\<lambda>now token t. map_prod id (map fst) (rq_pick_and_lock_ready_items limit now token m lt held f t)"
  "rq_after_finalize ch lp at ff"
  for limit m lt held f ch lp at ff
  by intro_locales

section \<open>One row through the drain\<close>

lemma rq_try_one_Inr:
  assumes "rq_try_one env hb mid lp token s = Inr (ch, t', c')"
  shows "rq_finalize_success mid ch lp token (clock env mid) (finalize_fails env mid) (before_write env mid) s = Inr (t', c')"
proof -
  have "x = Inr (t', c') \<and> b = ch" if "map_sum id (Pair b) x = Inr (ch, t', c')"
    for b and x :: "(rq_error \<times> rq_table) + rq_table \<times> rq_counts"
    using that by (cases x) auto
  then show ?thesis
    using assms unfolding rq_try_one_def by (fastforce split: rq_work.splits if_splits)
qed

lemma rq_try_one_Inl:
  assumes "rq_try_one env hb mid lp token s = Inl (e, t')"
  shows "t' = fst s \<or> (\<exists>ch. rq_finalize_success mid ch lp token (clock env mid) (finalize_fails env mid) (before_write env mid) s = Inl (e, t'))"
proof -
  have "x = Inl (e, t')" if "map_sum id (Pair b) x = Inl (e, t')"
    for b and x :: "(rq_error \<times> rq_table) + rq_table \<times> rq_counts"
    using that by (cases x) auto
  then show ?thesis
    using assms unfolding rq_try_one_def by (fastforce split: rq_work.splits if_splits)
qed

lemma rq_finalize_needs_owner:
  assumes "rq_finalize_success mid ch lp token now f between (t, c) = Inr (t', c')"
  shows "\<exists>r \<in> set t. rq_owned mid token r" and "\<not> f"
  using assms
  by (auto simp: rq_finalize_success_def Let_def split: option.splits if_splits dest: sql_first_Some)

lemma rq_finalize_error_table:
  "rq_finalize_success mid ch lp token now f between (t, c) = Inl (e, t') \<Longrightarrow> t' = t \<or> t' = between t"
  by (auto simp: rq_finalize_success_def Let_def split: option.splits if_splits)

lemma rq_try_one_lost:
  assumes "\<forall>r \<in> set t. \<not> rq_owned mid token r"
  shows "\<exists>e t'. rq_try_one env hb mid lp token (t, c) = Inl (e, t') \<and> (t' = t \<or> t' = before_write env mid t)"
proof (cases "rq_try_one env hb mid lp token (t, c)")
  case (Inr x)
  then obtain ch t' c' where "rq_try_one env hb mid lp token (t, c) = Inr (ch, t', c')"
    by (cases x) auto
  from rq_finalize_needs_owner(1) [OF rq_try_one_Inr [OF this]] assms show ?thesis by blast
next
  case (Inl x)
  then obtain e t' where x: "rq_try_one env hb mid lp token (t, c) = Inl (e, t')" by (cases x) auto
  with rq_try_one_Inl [OF x] rq_finalize_error_table show ?thesis by fastforce
qed

lemma rq_wf_drain_one:
  assumes "rq_wf m (table s)" and "0 \<le> m"
    and env: "\<And>t. rq_wf m t \<Longrightarrow> rq_wf m (meanwhile env (fst item) t)"
      "\<And>t. rq_wf m t \<Longrightarrow> rq_wf m (before_write env (fst item) t)" "\<And>t. rq_wf m t \<Longrightarrow> rq_wf m (before_record env (fst item) t)"
  shows "rq_wf m (table (rq_drain_one env cfg token hb item s))"
proof -
  obtain mid lp where item: "item = (mid, lp)" by (cases item)
  let ?t = "meanwhile env mid (table s)"
  have wf: "rq_wf m ?t" using assms(1) env(1) item by simp
  have between: "rq_wf m t \<Longrightarrow> rq_wf m (before_write env mid t)" for t using env(2) item by simp
  show ?thesis
  proof (cases "rq_try_one env hb mid lp token (?t, counts s)")
    case (Inl x)
    then obtain e t' where x: "rq_try_one env hb mid lp token (?t, counts s) = Inl (e, t')" by (cases x) auto
    have "rq_wf m t'" using rq_try_one_Inl [OF x] wf rq_wf_finalize(2) [OF wf assms(2) between] by auto
    then have "rq_wf m (before_record env mid t')" using env(3) item by simp
    then have "rq_wf m (fst (rq_record_failure mid err token ma b cp now sf uf (before_record env mid) (t', c)))"
      for err ma b cp now sf uf c by (rule rq_wf_record_failure)
    with x item show ?thesis by (simp add: rq_drain_one_def Let_def split_def)
  next
    case (Inr x)
    then obtain ch t' c' where r: "rq_try_one env hb mid lp token (?t, counts s) = Inr (ch, t', c')" by (cases x) auto
    from rq_wf_finalize(1) [OF wf assms(2) between rq_try_one_Inr [OF this]] have "rq_wf m t'" .
    with r item show ?thesis by (simp add: rq_drain_one_def Let_def)
  qed
qed

lemma rq_drain_one_counts:
  "processed (counts (rq_drain_one env cfg token hb item s))
     + failed (counts (rq_drain_one env cfg token hb item s))
   = processed (counts s) + failed (counts s) + 1"
proof -
  obtain mid lp where item: "item = (mid, lp)" by (cases item)
  let ?t = "meanwhile env mid (table s)"
  show ?thesis
  proof (cases "rq_try_one env hb mid lp token (?t, counts s)")
    case (Inl x)
    then show ?thesis
      by (cases x) (simp add: item rq_drain_one_def rq_record_failure_def Let_def)
  next
    case (Inr x)
    then obtain ch t' c' where r: "rq_try_one env hb mid lp token (?t, counts s) = Inr (ch, t', c')"
      by (cases x) auto
    from rq_try_one_Inr [OF r] have "c' = rq_count_done ch (counts s)"
      by (auto simp: rq_finalize_success_def Let_def split: option.splits if_splits)
    with r show ?thesis
      by (simp add: item rq_drain_one_def Let_def rq_count_done_def)
  qed
qed

definition rq_env_keeps :: "int \<Rightarrow> rq_env \<Rightarrow> bool" where
  "rq_env_keeps m env \<longleftrightarrow>
     (\<forall>mid t. rq_wf m t \<longrightarrow> rq_wf m (meanwhile env mid t) \<and> rq_wf m (before_write env mid t) \<and> rq_wf m (before_record env mid t))"

lemma rq_wf_fold_drain:
  "rq_wf m (table s) \<Longrightarrow> 0 \<le> m \<Longrightarrow> rq_env_keeps m env \<Longrightarrow>
     rq_wf m (table (fold (rq_drain_one env cfg token hb) items s))"
  by (induction items arbitrary: s) (auto simp: rq_env_keeps_def intro!: rq_wf_drain_one)

lemma rq_wf_drain_batch:
  "rq_wf m (table s) \<Longrightarrow> 0 \<le> m \<Longrightarrow> rq_env_keeps m env \<Longrightarrow>
     rq_wf m (table (rq_drain_batch env cfg token items s))"
  by (simp add: rq_drain_batch_def rq_wf_fold_drain)

lemma rq_fold_drain_counts:
  "processed (counts (fold (rq_drain_one env cfg token hb) items s))
     + failed (counts (fold (rq_drain_one env cfg token hb) items s))
   = processed (counts s) + failed (counts s) + int (length items)"
proof (induction items arbitrary: s)
  case Nil
  then show ?case by simp
next
  case (Cons a items)
  show ?case using Cons [of "rq_drain_one env cfg token hb a s"] rq_drain_one_counts [of env cfg token hb a s]
    by simp
qed

lemma rq_drain_batch_counts:
  "processed (counts (rq_drain_batch env cfg token items s))
     + failed (counts (rq_drain_batch env cfg token items s))
   = processed (counts s) + failed (counts s) + int (length items)"
  by (simp add: rq_drain_batch_def rq_fold_drain_counts)

lemma rq_pick_length:
  assumes "distinct (map matter_id t)" and "0 \<le> limit"
    and "rq_pick_and_lock_ready_items limit now token m lt held f t = (t', l)"
  shows "int (length l) \<le> limit"
proof (cases "l = []")
  case True
  with assms(2) show ?thesis by simp
next
  case False
  let ?mids = "rq_picked_ids limit now (now - seconds lt) m held t"
  have lock: "rq_lock_rows ?mids now token m (now - seconds lt) t = (t', l)"
    using assms(3) False by (auto simp: rq_pick_alt split: if_splits)
  then have l: "l = map (\<lambda>r. (matter_id r, payload r))
     (filter (\<lambda>r. matter_id r \<in> set ?mids \<and> lock_token r = Some token \<and> matter_id r \<noteq> []) t')"
    using False by (auto simp: rq_lock_rows_def Let_def split: if_splits)
  from rq_lock_rows_keys [OF lock] assms(1) have "distinct (map matter_id t')" by simp
  then have dist: "distinct (map fst l)" by (simp add: l comp_def distinct_map_filter)
  have "set (map fst l) \<subseteq> set ?mids" by (auto simp: l)
  then have "length (map fst l) \<le> length ?mids"
    using dist by (metis card_length card_mono distinct_card finite_set le_trans)
  also have "\<dots> \<le> nat limit" by (simp add: rq_picked_ids_def Let_def)
  finally show ?thesis using assms(2) by simp
qed

definition rq_iterations_keep :: "int \<Rightarrow> (int \<Rightarrow> rq_iteration) \<Rightarrow> bool" where
  "rq_iterations_keep m its \<longleftrightarrow> (\<forall>i. rq_env_keeps m (iter_env (its i)))"

lemma rq_drain_loop_inv:
  assumes "rq_wf (max_attempts cfg) (table s)" and "0 \<le> max_attempts cfg"
    and "rq_iterations_keep (max_attempts cfg) its"
    and "1 \<le> b" and "processed (counts s) + failed (counts s) = drained" and "drained \<le> target"
  shows "rq_wf (max_attempts cfg) (table (rq_drain_loop its cfg token b target drained s))
       \<and> processed (counts (rq_drain_loop its cfg token b target drained s))
         + failed (counts (rq_drain_loop its cfg token b target drained s)) \<le> target"
  using assms
proof (induction its cfg token b target drained s rule: rq_drain_loop.induct)
  case (1 its cfg token b target drained s)
  let ?it = "its drained"
  let ?limit = "min b (target - drained)"
  obtain t' l where pick: "rq_pick_and_lock_ready_items ?limit (iter_now ?it) token
      (max_attempts cfg) (lock_timeout cfg) (iter_held ?it) (iter_pick_fails ?it) (table s) = (t', l)"
    by fastforce
  show ?case
  proof (cases "drained < target \<and> l \<noteq> []")
    case False
    with 1 pick show ?thesis by (subst (1 2 3) rq_drain_loop.simps) (auto simp: Let_def)
  next
    case True
    let ?s' = "rq_drain_batch (iter_env ?it) cfg token l (s\<lparr>table := t'\<rparr>)"
    have wf': "rq_wf (max_attempts cfg) t'"
      using rq_wf_pick [OF 1(2), of ?limit "iter_now ?it" token "lock_timeout cfg"
          "iter_held ?it" "iter_pick_fails ?it"] pick by simp
    have len: "int (length l) \<le> ?limit"
      using rq_pick_length [OF rq_wf_distinct [OF 1(2)] _ pick] True 1(5) by simp
    have step: "rq_drain_loop its cfg token b target drained s
        = rq_drain_loop its cfg token b target (drained + int (length l)) ?s'"
      using True pick by (subst rq_drain_loop.simps) (simp add: Let_def)
    have wfs: "rq_wf (max_attempts cfg) (table ?s')"
      using wf' 1(3,4) by (intro rq_wf_drain_batch) (auto simp: rq_iterations_keep_def)
    have cnt: "processed (counts ?s') + failed (counts ?s') = drained + int (length l)"
      using 1(6) by (simp add: rq_drain_batch_counts)
    show ?thesis unfolding step
      using True pick len wfs cnt 1(3-5) by (intro 1(1) [of ?it ?limit "(t', l)" t' l]) auto
  qed
qed

lemma rq_upsert_known:
  assumes "distinct (map matter_id t)" and "r \<in> set t" and "matter_id r = mid"
  shows "\<exists>r' \<in> set (rq_upsert eb now mid pl t). matter_id r' = mid \<and> payload r' = Some pl
      \<and> next_run_at r' = Some now \<and> lock_token r' = (if lease_live eb r then lock_token r else None)
      \<and> locked_at r' = (if lease_live eb r then locked_at r else None)
      \<and> attempts r' = (if lease_live eb r then attempts r else 0)"
proof -
  let ?f = "\<lambda>r. let live = lease_live eb r in
                r\<lparr>payload := Some pl,
                  attempts := (if live then attempts r else 0),
                  next_run_at := Some now,
                  locked_at := (if live then locked_at r else None),
                  lock_token := (if live then lock_token r else None),
                  last_error := None,
                  updated_at := now\<rparr>"
  have "?f r \<in> set (sql_update (\<lambda>r. matter_id r = mid) ?f t)"
    using assms(2,3) by (intro sql_update_hit) simp_all
  moreover have "rq_upsert eb now mid pl t = sql_update (\<lambda>r. matter_id r = mid) ?f t"
    using assms(2,3) by (auto simp: rq_upsert_def)
  ultimately show ?thesis using assms(3)
    by (intro bexI [of _ "?f r"]) (simp_all add: Let_def)
qed

lemma rq_keys_upsert:
  "mid \<in> matter_id ` set t \<Longrightarrow> map matter_id (rq_upsert eb now mid pl t) = map matter_id t"
  by (auto simp: rq_upsert_def sql_update_def Let_def)

lemma rq_upsert_other: "r \<in> set t \<Longrightarrow> matter_id r \<noteq> mid \<Longrightarrow> r \<in> set (rq_upsert eb now mid pl t)"
  by (auto simp: rq_upsert_def intro!: sql_update_miss)

lemma rq_upsert_distinct: "distinct (map matter_id t) \<Longrightarrow> distinct (map matter_id (rq_upsert eb now mid pl t))"
  using rq_keys_upsert [of mid t] by (cases "mid \<in> matter_id ` set t") (auto simp: rq_upsert_def image_iff)

lemma rq_sql_update_payload:
  assumes "r \<in> set t" and "\<And>x. matter_id (f x) = matter_id x" and "\<And>x. payload (f x) = payload x"
  shows "\<exists>r' \<in> set (sql_update p f t). matter_id r' = matter_id r \<and> payload r' = payload r"
  using assms sql_update_hit [OF assms(1), of p f] sql_update_miss [OF assms(1), of p f] by (cases "p r") fastforce+

section \<open>Requests of producers\<close>

text \<open>A sequence of committed requests: time, random id, matter and reason of each; and the payloads
  they write for one matter.\<close>

definition rq_requests :: "int \<Rightarrow> (datetime \<times> string \<times> string \<times> string option) list \<Rightarrow> rq_table \<Rightarrow> rq_table" where
  "rq_requests lt reqs = fold (\<lambda>(now, uuid, m, why) t. snd (rq_enqueue lt now uuid False (Some m) why t)) reqs"

definition rq_asked :: "string \<Rightarrow> (datetime \<times> string \<times> string \<times> string option) list \<Rightarrow> rq_payload set" where
  "rq_asked mid reqs =
     {\<lparr>reason = why, enqueue_id = uuid, enqueued_at = now\<rparr> | now uuid m why. (now, uuid, m, why) \<in> set reqs \<and> strip m = mid}"

lemma rq_asked_Cons:
  "rq_asked mid ((now, uuid, m, why) # reqs) =
     (if strip m = mid then {\<lparr>reason = why, enqueue_id = uuid, enqueued_at = now\<rparr>} else {}) \<union> rq_asked mid reqs"
  by (auto simp: rq_asked_def)

lemma rq_asked_append: "rq_asked mid (reqs @ reqs') = rq_asked mid reqs \<union> rq_asked mid reqs'"
  by (auto simp: rq_asked_def)

text \<open>The lease of a row outlasts all the requests.\<close>

definition rq_lease_outlasts :: "int \<Rightarrow> rq_row \<Rightarrow> (datetime \<times> string \<times> string \<times> string option) list \<Rightarrow> bool" where
  "rq_lease_outlasts lt r reqs \<longleftrightarrow>
     lock_token r \<noteq> None \<and> (\<exists>l. locked_at r = Some l \<and> (\<forall>q \<in> set reqs. fst q - seconds lt \<le> l))"

lemma rq_requests_row:
  assumes "distinct (map matter_id t)" and "r \<in> set t" and "matter_id r = mid" and "mid \<noteq> []"
  shows "distinct (map matter_id (rq_requests lt reqs t))
    \<and> (\<exists>r' \<in> set (rq_requests lt reqs t). matter_id r' = mid
        \<and> (if rq_asked mid reqs = {} then payload r' = payload r else payload r' \<in> Some ` rq_asked mid reqs)
        \<and> (rq_lease_outlasts lt r reqs \<longrightarrow> lock_token r' = lock_token r \<and> locked_at r' = locked_at r))"
  using assms
proof (induction reqs arbitrary: t r)
  case Nil
  then show ?case by (auto simp: rq_requests_def rq_asked_def)
next
  case (Cons q reqs)
  obtain now uuid m why where q: "q = (now, uuid, m, why)" by (cases q)
  let ?t = "snd (rq_enqueue lt now uuid False (Some m) why t)"
  let ?pl = "\<lparr>reason = why, enqueue_id = uuid, enqueued_at = now\<rparr>"
  have step: "rq_requests lt (q # reqs) t = rq_requests lt reqs ?t" by (simp add: rq_requests_def q)
  have t: "?t = (if strip m = [] then t else rq_upsert (now - seconds lt) now (strip m) ?pl t)" by (simp add: rq_enqueue_def Let_def)
  have dist: "distinct (map matter_id ?t)" using Cons.prems(1) by (simp add: t rq_upsert_distinct)
  have asked: "rq_asked mid (q # reqs) = (if strip m = mid then {?pl} else {}) \<union> rq_asked mid reqs" by (simp add: q rq_asked_Cons)
  have less: "rq_lease_outlasts lt r (q # reqs) \<Longrightarrow> rq_lease_outlasts lt r reqs" by (auto simp: rq_lease_outlasts_def)
  show ?case
  proof (cases "strip m = mid")
    case False
    then have "r \<in> set ?t" using Cons.prems(2,3) by (auto simp: t intro: rq_upsert_other)
    from Cons.IH [OF dist this Cons.prems(3,4)] False less show ?thesis
      unfolding step asked by (simp only: if_False Un_empty_left) blast
  next
    case True
    from rq_upsert_known [OF Cons.prems(1-3), of "now - seconds lt" now ?pl] obtain r1
      where r1: "r1 \<in> set ?t" "matter_id r1 = mid" "payload r1 = Some ?pl"
        "lease_live (now - seconds lt) r \<Longrightarrow> lock_token r1 = lock_token r \<and> locked_at r1 = locked_at r"
      using True Cons.prems(4) by (auto simp: t)
    have live: "lock_token r1 = lock_token r \<and> locked_at r1 = locked_at r \<and> rq_lease_outlasts lt r1 reqs"
      if "rq_lease_outlasts lt r (q # reqs)"
    proof -
      have "lease_live (now - seconds lt) r" using that by (auto simp: rq_lease_outlasts_def lease_live_def q)
      with r1(4) less [OF that] show ?thesis by (simp add: rq_lease_outlasts_def)
    qed
    from Cons.IH [OF dist r1(1,2) Cons.prems(4)] obtain r'
      where d: "distinct (map matter_id (rq_requests lt reqs ?t))" and r': "r' \<in> set (rq_requests lt reqs ?t)" "matter_id r' = mid"
        "if rq_asked mid reqs = {} then payload r' = payload r1 else payload r' \<in> Some ` rq_asked mid reqs"
        "rq_lease_outlasts lt r1 reqs \<Longrightarrow> lock_token r' = lock_token r1 \<and> locked_at r' = locked_at r1" by blast
    have "rq_asked mid (q # reqs) \<noteq> {}" "payload r' \<in> Some ` rq_asked mid (q # reqs)"
      using r'(3) r1(3) True unfolding asked by (auto split: if_splits)
    moreover have "lock_token r' = lock_token r \<and> locked_at r' = locked_at r" if "rq_lease_outlasts lt r (q # reqs)"
      using live [OF that] r'(4) by simp
    ultimately show ?thesis unfolding step using d r'(1,2) by auto
  qed
qed

lemma rq_requests_payload:
  assumes "distinct (map matter_id t)" and "r \<in> set t" and "matter_id r = mid" and "mid \<noteq> []" and "payload r \<in> Some ` A"
  shows "\<exists>r' \<in> set (rq_requests lt reqs t). matter_id r' = mid \<and> payload r' \<in> Some ` (A \<union> rq_asked mid reqs)"
  using rq_requests_row [OF assms(1-4), of lt reqs] assms(5) by (auto split: if_splits)

lemma rq_finalize_read:
  assumes "distinct (map matter_id t)" and "r \<in> set t" and "rq_owned mid token r"
  shows "sql_first (rq_owned mid token) t = Some r"
  using assms by (intro sql_first_unique [where key = matter_id]) (auto simp: rq_owned_def)

text \<open>The drain of a matter keeps a row whose payload is no longer the locked one, and with it every
  later request.\<close>

lemma rq_changed_payload_kept:
  assumes dist: "distinct (map matter_id t)" and r: "r \<in> set t" "matter_id r = mid" "mid \<noteq> []" "payload r \<in> Some ` A" "payload r \<noteq> lp"
    and env: "meanwhile env mid (table s) = t" "\<And>t. before_write env mid t = rq_requests lt later t"
      "\<And>t. before_record env mid t = rq_requests lt latest t"
  shows "\<exists>r' \<in> set (table (rq_drain_one env cfg token hb (mid, lp) s)).
      matter_id r' = mid \<and> payload r' \<in> Some ` (A \<union> rq_asked mid (later @ latest))"
proof (cases "rq_try_one env hb mid lp token (t, counts s)")
  case (Inl x)
  then obtain e t' where x: "rq_try_one env hb mid lp token (t, counts s) = Inl (e, t')" by (cases x) auto
  from rq_try_one_Inl [OF x] have "t' = t \<or> t' = rq_requests lt later t"
  proof (elim disjE exE)
    fix ch
    assume "rq_finalize_success mid ch lp token (clock env mid) (finalize_fails env mid) (before_write env mid) (t, counts s) = Inl (e, t')"
    from rq_finalize_error_table [OF this] show ?thesis by (simp add: env(2))
  qed simp
  then have "\<exists>r1 \<in> set t'. matter_id r1 = mid \<and> payload r1 \<in> Some ` (A \<union> rq_asked mid later)" and d: "distinct (map matter_id t')"
    using rq_requests_payload [OF dist r(1-4), of lt later] rq_requests_row [OF dist r(1-3), of lt later] dist r by auto
  then obtain r1 where r1: "r1 \<in> set t'" "matter_id r1 = mid" "payload r1 \<in> Some ` (A \<union> rq_asked mid later)" by blast
  obtain r2 where r2: "r2 \<in> set (rq_requests lt latest t')" "matter_id r2 = mid" "payload r2 \<in> Some ` (A \<union> rq_asked mid later \<union> rq_asked mid latest)"
    using rq_requests_payload [OF d r1(1,2) r(3) r1(3), of lt latest] by blast
  have "\<exists>r' \<in> set (fst (rq_record_failure mid err token m b cp now sf uf (before_record env mid) (t', c))).
      matter_id r' = mid \<and> payload r' = payload r2" for err m b cp now sf uf c
    using r2(1,2) rq_sql_update_payload [OF r2(1)] by (cases uf) (auto simp: rq_record_failure_def Let_def env(3))
  then have "\<exists>r' \<in> set (table (rq_drain_one env cfg token hb (mid, lp) s)). matter_id r' = mid \<and> payload r' = payload r2"
    using x by (simp add: rq_drain_one_def Let_def env(1) split_def)
  moreover have "payload r2 \<in> Some ` (A \<union> rq_asked mid (later @ latest))" using r2(3) by (simp add: rq_asked_append Un_assoc)
  ultimately show ?thesis by metis
next
  case (Inr x)
  then obtain ch t' c' where x: "rq_try_one env hb mid lp token (t, counts s) = Inr (ch, t', c')" by (cases x) auto
  note fin = rq_try_one_Inr [OF x]
  from rq_finalize_needs_owner [OF fin] obtain y where y: "y \<in> set t" "rq_owned mid token y" and ok: "\<not> finalize_fails env mid" by blast
  have "y = r" using same_key_same_row [OF dist y(1) r(1)] y(2) r(2) by (simp add: rq_owned_def)
  then have "sql_first (rq_owned mid token) t = Some r" using rq_finalize_read [OF dist y] by simp
  with fin ok r(5) obtain g where t': "t' = sql_update (rq_owned mid token) g (rq_requests lt later t)"
    and g: "\<And>x. matter_id (g x) = matter_id x" "\<And>x. payload (g x) = payload x"
    by (auto simp: rq_finalize_success_def Let_def env(2))
  obtain r1 where r1: "r1 \<in> set (rq_requests lt later t)" "matter_id r1 = mid" "payload r1 \<in> Some ` (A \<union> rq_asked mid later)"
    using rq_requests_payload [OF dist r(1-4), of lt later] by blast
  have "\<exists>r' \<in> set (table (rq_drain_one env cfg token hb (mid, lp) s)). matter_id r' = mid \<and> payload r' = payload r1"
    using rq_sql_update_payload [OF r1(1) g] r1(2) x by (simp add: rq_drain_one_def Let_def env(1) t')
  moreover have "payload r1 \<in> Some ` (A \<union> rq_asked mid (later @ latest))" using r1(3) by (auto simp: rq_asked_append)
  ultimately show ?thesis by metis
qed

lemma rq_select_complete:
  assumes "r \<in> set t" and "rq_ready_for (rq_lock_predicate inc eb) now m r"
    and "\<not> held (matter_id r)" and "\<forall>x \<in> set t. matter_id x \<noteq> []" and "0 < limit"
  shows "rq_select_ready_candidate_rows limit now eb m held inc t \<noteq> []"
proof -
  let ?rows = "map (\<lambda>r. (matter_id r, next_run_at r, updated_at r))
     (filter (\<lambda>r. rq_ready_for (rq_lock_predicate inc eb) now m r \<and> \<not> held (matter_id r)) t)"
  have "?rows \<noteq> []" using assms(1-3) by (auto simp: filter_empty_conv)
  with assms(5) have "take (nat limit) (sort_key rq_candidate_key ?rows) \<noteq> []"
    by (rule take_sort_not_Nil)
  moreover have "filter (\<lambda>c. fst c \<noteq> []) (take (nat limit) (sort_key rq_candidate_key ?rows))
      = take (nat limit) (sort_key rq_candidate_key ?rows)"
  proof (rule filter_True)
    show "\<forall>c \<in> set (take (nat limit) (sort_key rq_candidate_key ?rows)). fst c \<noteq> []"
    proof
      fix c
      assume "c \<in> set (take (nat limit) (sort_key rq_candidate_key ?rows))"
      then have "c \<in> set (sort_key rq_candidate_key ?rows)" by (rule in_set_takeD)
      then have "c \<in> set ?rows" by (simp only: set_sort)
      then obtain x where "x \<in> set t" "c = (matter_id x, next_run_at x, updated_at x)"
        unfolding set_map set_filter by blast
      then show "fst c \<noteq> []" using assms(4) by simp
    qed
  qed
  ultimately show ?thesis using assms(5)
    by (simp add: rq_select_ready_candidate_rows_def Let_def)
qed

lemma rq_lock_rows_progress:
  assumes "k \<in> set mids" and "r \<in> set t" and "matter_id r = k" and "k \<noteq> []"
    and "rq_ready_for (lock_open eb) now m r"
  shows "snd (rq_lock_rows mids now token m eb t) \<noteq> []"
proof -
  let ?p = "\<lambda>r. matter_id r \<in> set mids \<and> rq_ready_for (lock_open eb) now m r"
  have "rq_lock now token r \<in> set (sql_update ?p (rq_lock now token) t)"
    using assms by (intro sql_update_hit) simp_all
  moreover have "matter_id (rq_lock now token r) = k" "lock_token (rq_lock now token r) = Some token"
    using assms(3) by (simp_all add: rq_lock_def)
  ultimately have "rq_lock now token r \<in> set (filter (\<lambda>r. matter_id r \<in> set mids
      \<and> lock_token r = Some token \<and> matter_id r \<noteq> []) (sql_update ?p (rq_lock now token) t))"
    (is "_ \<in> set ?l")
    using assms(1,4) by simp
  then have "?l \<noteq> []" by (rule list.set_cases) simp_all
  moreover have "mids \<noteq> []" using assms(1) by auto
  ultimately show ?thesis
    by (simp only: rq_lock_rows_def Let_def if_False map_is_Nil_conv snd_conv not_False_eq_True)
qed

lemma rq_picked_ids_progress:
  assumes "r \<in> set t" and "rq_ready_for (lock_open eb) now m r"
    and "\<not> held (matter_id r)" and "\<forall>x \<in> set t. matter_id x \<noteq> []" and "0 < limit"
  shows "rq_picked_ids limit now eb m held t \<noteq> []"
proof -
  let ?u = "rq_select_ready_candidate_rows limit now eb m held False t"
  let ?e = "rq_select_ready_candidate_rows (max 0 (limit - int (length ?u))) now eb m held True t"
  have "?u @ ?e \<noteq> []"
  proof (cases "locked_at r")
    case None
    with assms(2) have "rq_ready_for (rq_lock_predicate False eb) now m r"
      by (simp add: rq_ready_for_def rq_lock_predicate_def)
    from rq_select_complete [of r, OF assms(1) this, of held] assms(3-5) show ?thesis by simp
  next
    case (Some l)
    with assms(2) have "rq_ready_for (rq_lock_predicate True eb) now m r"
      by (simp add: rq_ready_for_def rq_lock_predicate_def lock_open_def)
    moreover have "max 0 limit = limit" using assms(5) by simp
    ultimately show ?thesis
      using rq_select_complete [of r t True eb now m held limit] assms(1,3-5)
      by (cases "?u = []") simp_all
  qed
  with assms(5) have "take (nat limit) (sort_key rq_candidate_key (?u @ ?e)) \<noteq> []"
    by (rule take_sort_not_Nil)
  then show ?thesis
    by (simp only: rq_picked_ids_def Let_def map_is_Nil_conv not_False_eq_True)
qed

section \<open>What other transactions do while a row is leased\<close>

text \<open>
  Any sequence of requests, batches taken by whatever worker, and rows finished or failed by workers
  with another token than \<open>tok\<close>, all before the time \<open>until\<close>. The statements of a worker that
  finishes a row may themselves be separated by such steps.
\<close>

inductive rq_others :: "int \<Rightarrow> string \<Rightarrow> datetime \<Rightarrow> rq_table \<Rightarrow> rq_table \<Rightarrow> bool"
  for lt :: int and tok :: string and until :: datetime
where
  rq_none: "rq_others lt tok until t t"
| rq_request: "rq_others lt tok until t t1 \<Longrightarrow> now \<le> until
    \<Longrightarrow> rq_others lt tok until t (snd (rq_enqueue lt now uuid f mid why t1))"
| rq_picked: "rq_others lt tok until t t1 \<Longrightarrow> now \<le> until
    \<Longrightarrow> rq_others lt tok until t (fst (rq_pick_and_lock_ready_items limit now token m lt held f t1))"
| rq_locked: "rq_others lt tok until t t1 \<Longrightarrow> now \<le> until
    \<Longrightarrow> rq_others lt tok until t (fst (rq_lock_specific_items ids now token m lt f t1))"
| rq_finished: "rq_others lt tok until t t1 \<Longrightarrow> rq_others lt tok until t1 (between t1) \<Longrightarrow> token \<noteq> tok
    \<Longrightarrow> rq_finalize_success mid ch lp token now f between (t1, c) = Inr (t2, c2) \<Longrightarrow> rq_others lt tok until t t2"
| rq_failed: "rq_others lt tok until t t1 \<Longrightarrow> rq_others lt tok until t1 (between t1) \<Longrightarrow> token \<noteq> tok
    \<Longrightarrow> rq_others lt tok until t (fst (rq_record_failure mid err token m b cp now sf uf between (t1, c)))"

definition rq_leased :: "string \<Rightarrow> string \<Rightarrow> datetime \<Rightarrow> rq_table \<Rightarrow> bool" where
  "rq_leased mid tok l t \<longleftrightarrow>
     distinct (map matter_id t) \<and> (\<exists>r \<in> set t. matter_id r = mid \<and> lock_token r = Some tok \<and> locked_at r = Some l)"

lemma rq_leased_update:
  assumes "rq_leased mid tok l t" and "token \<noteq> tok" and "\<And>r. matter_id (g r) = matter_id r"
  shows "rq_leased mid tok l (sql_update (rq_owned mid' token) g t)"
proof -
  from assms(1) obtain r where r: "r \<in> set t" "matter_id r = mid" "lock_token r = Some tok" "locked_at r = Some l"
    and d: "distinct (map matter_id t)" by (auto simp: rq_leased_def)
  have "r \<in> set (sql_update (rq_owned mid' token) g t)" using r assms(2) by (intro sql_update_miss) (auto simp: rq_owned_def)
  moreover have "distinct (map matter_id (sql_update (rq_owned mid' token) g t))" using d assms(3) by (simp add: sql_update_keys)
  ultimately show ?thesis using r by (auto simp: rq_leased_def)
qed

lemma rq_leased_delete: "rq_leased mid tok l t \<Longrightarrow> token \<noteq> tok \<Longrightarrow> rq_leased mid tok l (sql_delete (rq_owned mid' token) t)"
  by (force simp: rq_leased_def table_simps rq_owned_def)

lemma rq_leased_live: "rq_leased mid tok l t \<Longrightarrow> eb \<le> l \<Longrightarrow> \<exists>r \<in> set t. matter_id r = mid \<and> lock_token r = Some tok \<and> locked_at r = Some l \<and> lease_live eb r"
  by (auto simp: rq_leased_def lease_live_def)

lemma rq_leased_lock_rows:
  assumes "rq_leased mid tok l t" and "eb \<le> l"
  shows "rq_leased mid tok l (fst (rq_lock_rows mids now token m eb t))"
proof -
  obtain t' ls where p: "rq_lock_rows mids now token m eb t = (t', ls)" by force
  from rq_leased_live [OF assms] obtain r where r: "r \<in> set t" "matter_id r = mid" "lock_token r = Some tok" "locked_at r = Some l" "lease_live eb r" by blast
  have "r \<in> set t'" by (rule rq_lock_rows_live [OF p r(1,5)])
  moreover have "distinct (map matter_id t')" using rq_lock_rows_keys [OF p] assms(1) by (simp add: rq_leased_def)
  ultimately show ?thesis using r p by (auto simp: rq_leased_def)
qed

lemma rq_leased_enqueue:
  assumes "rq_leased mid tok l t" and "now - seconds lt \<le> l"
  shows "rq_leased mid tok l (snd (rq_enqueue lt now uuid f m why t))"
proof -
  from rq_leased_live [OF assms] obtain r where r: "r \<in> set t" "matter_id r = mid" "lock_token r = Some tok" "locked_at r = Some l"
    "lease_live (now - seconds lt) r" by blast
  have d: "distinct (map matter_id t)" using assms(1) by (simp add: rq_leased_def)
  have "\<exists>r' \<in> set (rq_upsert (now - seconds lt) now m' pl t). matter_id r' = mid \<and> lock_token r' = Some tok \<and> locked_at r' = Some l" for m' pl
  proof (cases "m' = mid")
    case True
    with rq_upsert_known [OF d r(1,2), of "now - seconds lt" now pl] r show ?thesis by auto
  next
    case False
    with rq_upsert_other [OF r(1)] r show ?thesis by auto
  qed
  with assms(1) rq_upsert_distinct [OF d] show ?thesis by (auto simp: rq_enqueue_def Let_def rq_leased_def)
qed

lemma rq_others_leased:
  assumes "rq_others lt tok until t t'" and "until - seconds lt \<le> l"
  shows "rq_leased mid tok l t \<Longrightarrow> rq_leased mid tok l t'"
  using assms(1)
proof (induction rule: rq_others.induct)
  case (rq_request t t1 now uuid f m why)
  then show ?case using assms(2) by (intro rq_leased_enqueue) auto
next
  case (rq_picked t t1 now limit token m held f)
  then show ?case using assms(2) by (simp add: rq_pick_alt rq_leased_lock_rows)
next
  case (rq_locked t t1 now ids token m f)
  then show ?case using assms(2) by (simp add: rq_lock_specific_items_def Let_def rq_leased_lock_rows)
next
  case (rq_finished t t1 between token mid' ch lp now f c t2 c2)
  then have "rq_leased mid tok l (between t1)" by simp
  with rq_finished.hyps show ?case
    by (auto simp: rq_finalize_success_def Let_def split: if_splits option.splits intro: rq_leased_update rq_leased_delete)
next
  case (rq_failed t t1 between token mid' err m b cp now sf uf c)
  then have "rq_leased mid tok l (between t1)" by simp
  with rq_failed.hyps show ?case by (auto simp: rq_record_failure_def Let_def intro: rq_leased_update)
qed

section \<open>Properties\<close>

text \<open>C9: While a worker holds the rows of a batch no other batch has any of them. Between the two batches there may be
  any sequence of requests, of further batches taken by whatever workers with whatever sizes, and of rows that
  other workers finish or fail; the second batch may have another size, other rows held by open
  transactions and another limit of attempts. It only has to be taken before the lease of the first
  expires, and the first worker has not finished.\<close>

theorem rq_batches_disjoint:
  assumes "distinct (map matter_id t)"
    and "rq_pick_and_lock_ready_items limit now1 tok1 m lt held f t = (t1, l1)"
    and "rq_others lt tok1 (now1 + seconds lt) t1 t2"
    and "rq_pick_and_lock_ready_items limit' now2 tok2 m' lt held' f' t2 = (t3, l2)"
    and "now2 \<le> now1 + seconds lt"
  shows "fst ` set l1 \<inter> fst ` set l2 = {}"
proof -
  have "k \<notin> fst ` set l2" if k: "k \<in> fst ` set l1" for k
  proof -
    from rq_pick_taken [OF assms(1,2) k] obtain r where r: "matter_id r = k" "rq_lock now1 tok1 r \<in> set t1" by blast
    have "map_prod id (map fst) (rq_pick_and_lock_ready_items limit now1 tok1 m lt held f t) = (t1, map fst l1)" using assms(2) by simp
    from rq_lease.claim_keys [OF assms(1) this] assms(1) have "distinct (map matter_id t1)" by simp
    with r have "rq_leased k tok1 now1 t1" unfolding rq_leased_def by (intro conjI bexI [of _ "rq_lock now1 tok1 r"]) (simp_all add: rq_lock_def)
    from rq_others_leased [OF assms(3) _ this] have l: "rq_leased k tok1 now1 t2" by simp
    from rq_leased_live [OF l, of "now2 - seconds lt"] assms(5) obtain r2
      where r2: "r2 \<in> set t2" "matter_id r2 = k" "lease_live (now2 - seconds lt) r2" by auto
    have "map_prod id (map fst) (rq_pick_and_lock_ready_items limit' now2 tok2 m' lt held' f' t2) = (t3, map fst l2)" using assms(4) by simp
    from rq_lease.claim_live [OF _ this r2(1,3)] l r2(2) show ?thesis by (simp add: rq_leased_def)
  qed
  then show ?thesis by auto
qed

definition rq_example_row :: "string \<Rightarrow> rq_row" where
  "rq_example_row mid =
     \<lparr>attempts = 0, next_run_at = None, locked_at = None, lock_token = None, last_error = None,
      created_at = 0, updated_at = 0, matter_id = mid, payload = None\<rparr>"

theorem rq_batches_disjoint_witness:
  "fst ` set (snd (rq_pick_and_lock_ready_items 1 10 ''w1'' 8 300 (\<lambda>_. False) False [rq_example_row ''M1'', rq_example_row ''M2'']))
   \<inter> fst ` set (snd (rq_pick_and_lock_ready_items 5 12 ''w2'' 8 300 (\<lambda>m. m = ''M3'') False
        (snd (rq_enqueue 300 11 ''u1'' False (Some ''M1'') None
          (fst (rq_pick_and_lock_ready_items 1 10 ''w1'' 8 300 (\<lambda>_. False) False [rq_example_row ''M1'', rq_example_row ''M2''])))))) = {}"
proof (rule rq_batches_disjoint [where t = "[rq_example_row ''M1'', rq_example_row ''M2'']"])
  show "distinct (map matter_id [rq_example_row ''M1'', rq_example_row ''M2''])"
    by (simp add: rq_example_row_def)
  show "(12::int) \<le> 10 + seconds 300" by (simp add: seconds_def)
  show "rq_others 300 ''w1'' (10 + seconds 300) t (snd (rq_enqueue 300 11 ''u1'' False (Some ''M1'') None t))" for t
    by (intro rq_request rq_none) (simp add: seconds_def)
qed (rule prod.collapse [symmetric])+

text \<open>Once another worker has taken over the matter's row, a worker still processing it under its
  old token neither changes the queue table nor commits a recomputed status, whatever its
  recalculation returns and whichever database statements fail. Others may go on changing the table, but
  do not write its token.\<close>

theorem rq_superseded_worker_commits_nothing:
  assumes "distinct (map matter_id t)"
    and "rq_pick_and_lock_ready_items limit now tok' m lt held f t = (t', l)"
    and "mid \<in> fst ` set l" and "token \<noteq> tok'"
    and "meanwhile env mid (table s) = t'"
    and "\<And>t. \<forall>r \<in> set t. \<not> rq_owned mid token r \<Longrightarrow> \<forall>r \<in> set (before_write env mid t). \<not> rq_owned mid token r"
    and "\<And>t. \<forall>r \<in> set t. \<not> rq_owned mid token r \<Longrightarrow> \<forall>r \<in> set (before_record env mid t). \<not> rq_owned mid token r"
  shows "table (rq_drain_one env cfg token hb (mid, lp) s) \<in> {before_record env mid t', before_record env mid (before_write env mid t')}
    \<and> saved (rq_drain_one env cfg token hb (mid, lp) s) = saved s"
proof -
  have claim: "map_prod id (map fst) (rq_pick_and_lock_ready_items limit now tok' m lt held f t) = (t', map fst l)"
    using assms(2) by simp
  have taken: "\<exists>r' \<in> set t'. matter_id r' = mid \<and> lock_token r' = Some tok'"
    using rq_lease.claim_taken [OF assms(1) claim, of mid] assms(3) by auto
  have "distinct (map matter_id t')"
    using rq_lease.claim_keys [OF assms(1) claim] assms(1) by simp
  with taken have "lock_token r = Some tok'" if "r \<in> set t'" "matter_id r = mid" for r
    using that same_key_same_row [of matter_id t'] by blast
  with assms(4) have no: "\<forall>r \<in> set t'. \<not> rq_owned mid token r" by (auto simp: rq_owned_def)
  from rq_try_one_lost [OF no, of env hb lp "counts s"] obtain e t1
    where t1: "rq_try_one env hb mid lp token (t', counts s) = Inl (e, t1)" "t1 = t' \<or> t1 = before_write env mid t'" by blast
  have "\<forall>r \<in> set t1. \<not> rq_owned mid token r" using t1(2) no assms(6) by blast
  then have "\<forall>r \<in> set (before_record env mid t1). \<not> rq_owned mid token r" by (rule assms(7))
  with t1 show ?thesis by (auto simp: rq_drain_one_def Let_def assms(5) rq_record_lost)
qed

definition rq_example_env :: rq_env where
  "rq_example_env = \<lparr>work = (\<lambda>_. Recalculated True), meanwhile = (\<lambda>_ t. t), before_write = (\<lambda>_ t. t), before_record = (\<lambda>_ t. t),
     heartbeat_lost = (\<lambda>_. False), finalize_fails = (\<lambda>_. False), attempts_read_fails = (\<lambda>_. False),
     record_fails = (\<lambda>_. False), clock = (\<lambda>_. 20)\<rparr>"

definition rq_example_config :: rq_config where
  "rq_example_config = \<lparr>max_attempts = 8, backoff_base = 30, backoff_cap = 3600, lock_timeout = 300\<rparr>"

definition rq_example_leased :: "string \<Rightarrow> string \<Rightarrow> rq_row" where
  "rq_example_leased mid token =
     (rq_example_row mid)\<lparr>locked_at := Some 10, lock_token := Some token, attempts := 1, updated_at := 10\<rparr>"

theorem rq_superseded_worker_commits_nothing_witness:
  "table (rq_drain_one rq_example_env rq_example_config ''w1'' True (''M1'', None)
      \<lparr>table = [rq_example_leased ''M1'' ''w2''], counts = rq_no_counts, saved = []\<rparr>) = [rq_example_leased ''M1'' ''w2'']"
proof -
  let ?t = "[rq_example_row ''M1'']"
  let ?t' = "[rq_example_leased ''M1'' ''w2'']"
  let ?s = "\<lparr>table = ?t', counts = rq_no_counts, saved = []\<rparr>"
  have pick: "rq_pick_and_lock_ready_items 1 10 ''w2'' 8 300 (\<lambda>_. False) False ?t = (?t', [(''M1'', None)])"
    by code_simp
  have "distinct (map matter_id ?t)" "''M1'' \<in> fst ` set [(''M1'', None :: rq_payload option)]" "''w1'' \<noteq> ''w2''" by simp_all
  moreover have "meanwhile rq_example_env ''M1'' (table ?s) = ?t'" by (simp add: rq_example_env_def)
  ultimately have "table (rq_drain_one rq_example_env rq_example_config ''w1'' True (''M1'', None) ?s)
      \<in> {before_record rq_example_env ''M1'' ?t', before_record rq_example_env ''M1'' (before_write rq_example_env ''M1'' ?t')}"
    using rq_superseded_worker_commits_nothing [OF _ pick, of "''M1''" "''w1''" rq_example_env ?s] by (simp add: rq_example_env_def)
  then show ?thesis by (simp add: rq_example_env_def)
qed

text \<open>C1: A request that is committed while its matter is being recalculated is not lost. Whatever happens to the
  drain of the matter, and however many requests for this and other matters are committed meanwhile and
  between the statements that finish the row, the table has a row of the matter with the payload of one of the
  requests made since the drain took it. When the recalculation succeeds and the lease outlasts the
  requests, the row is unlocked, its attempts are reset and it is due at once. (A first request
  between the two finishing statements is another matter, see the next theorem.)\<close>

theorem rq_no_lost_wakeup:
  assumes dist: "distinct (map matter_id (table s))"
    and row: "r \<in> set (table s)" "rq_owned mid token r" and mid: "mid \<noteq> []"
    and env: "meanwhile env mid (table s) = rq_requests lt reqs (table s)" "\<And>t. before_write env mid t = rq_requests lt later t"
      "\<And>t. before_record env mid t = rq_requests lt latest t"
    and asked: "rq_asked mid reqs \<noteq> {}" and fresh: "\<And>q. q \<in> rq_asked mid reqs \<Longrightarrow> map_option enqueue_id lp \<noteq> Some (enqueue_id q)"
  shows "\<exists>r' \<in> set (table (rq_drain_one env cfg token hb (mid, lp) s)).
       matter_id r' = mid \<and> payload r' \<in> Some ` rq_asked mid (reqs @ later @ latest)
       \<and> (work env mid = Recalculated ch \<and> \<not> (hb \<and> heartbeat_lost env mid) \<and> \<not> finalize_fails env mid \<and> rq_lease_outlasts lt r (reqs @ later)
          \<longrightarrow> lock_token r' = None \<and> attempts r' = 0 \<and> next_run_at r' = Some (clock env mid))"
proof -
  let ?t = "rq_requests lt reqs (table s)"
  let ?ok = "work env mid = Recalculated ch \<and> \<not> (hb \<and> heartbeat_lost env mid) \<and> \<not> finalize_fails env mid \<and> rq_lease_outlasts lt r (reqs @ later)"
  have mem: "matter_id r = mid" "lock_token r = Some token" using row(2) by (simp_all add: rq_owned_def)
  from rq_requests_row [OF dist row(1) mem(1) mid, of lt reqs] asked obtain r1
    where d1: "distinct (map matter_id ?t)" and r1: "r1 \<in> set ?t" "matter_id r1 = mid" "payload r1 \<in> Some ` rq_asked mid reqs"
      and l1: "rq_lease_outlasts lt r reqs \<Longrightarrow> lock_token r1 = lock_token r \<and> locked_at r1 = locked_at r" by auto
  have diff: "payload r1 \<noteq> lp" using r1(3) fresh by auto
  show ?thesis
  proof (cases ?ok)
    case False
    from rq_changed_payload_kept [OF d1 r1(1,2) mid r1(3) diff env, of cfg token hb] False show ?thesis
      by (simp add: rq_asked_append) blast
  next
    case True
    then have "rq_lease_outlasts lt r reqs" by (auto simp: rq_lease_outlasts_def)
    with l1 True mem(2) have r1': "rq_owned mid token r1" "rq_lease_outlasts lt r1 later"
      using r1(2) by (auto simp: rq_owned_def rq_lease_outlasts_def)
    from rq_requests_row [OF d1 r1(1,2) mid, of lt later] r1'(2) r1(3) obtain r2
      where r2: "r2 \<in> set (rq_requests lt later ?t)" "matter_id r2 = mid" "lock_token r2 = lock_token r1"
        "payload r2 \<in> Some ` (rq_asked mid reqs \<union> rq_asked mid later)" by (auto split: if_splits)
    let ?reset = "\<lambda>r. r\<lparr>attempts := 0, next_run_at := Some (clock env mid), locked_at := None, lock_token := None, last_error := None, updated_at := clock env mid\<rparr>"
    let ?t' = "sql_update (rq_owned mid token) ?reset (rq_requests lt later ?t)"
    have "rq_finalize_success mid ch lp token (clock env mid) False (before_write env mid) (?t, counts s) = Inr (?t', rq_count_done ch (counts s))"
      using rq_finalize_read [OF d1 r1(1) r1'(1)] diff by (simp add: rq_finalize_success_def Let_def env(2))
    then have "table (rq_drain_one env cfg token hb (mid, lp) s) = ?t'"
      using True by (auto simp: rq_drain_one_def rq_try_one_def Let_def env(1))
    moreover have "?reset r2 \<in> set ?t'"
      using r2(1-3) r1'(1) by (intro sql_update_hit) (auto simp: rq_owned_def)
    ultimately show ?thesis
      using r2(2,4) by (intro bexI [of _ "?reset r2"]) (auto simp: rq_asked_append)
  qed
qed

theorem rq_no_lost_wakeup_witness:
  "\<exists>r' \<in> set (table (rq_drain_one
       (rq_example_env\<lparr>meanwhile := (\<lambda>_. rq_requests 300 [(11, ''u2'', '' M1'', None)]), before_write := (\<lambda>_. rq_requests 300 []), before_record := (\<lambda>_. rq_requests 300 [])\<rparr>)
       rq_example_config ''w1'' True (''M1'', None)
       \<lparr>table = [rq_example_leased ''M1'' ''w1''], counts = rq_no_counts, saved = []\<rparr>)).
     matter_id r' = ''M1'' \<and> payload r' = Some \<lparr>reason = None, enqueue_id = ''u2'', enqueued_at = 11\<rparr>
     \<and> lock_token r' = None \<and> attempts r' = 0 \<and> next_run_at r' = Some 20"
proof -
  let ?env = "rq_example_env\<lparr>meanwhile := (\<lambda>_. rq_requests 300 [(11, ''u2'', '' M1'', None)]), before_write := (\<lambda>_. rq_requests 300 []), before_record := (\<lambda>_. rq_requests 300 [])\<rparr>"
  let ?s = "\<lparr>table = [rq_example_leased ''M1'' ''w1''], counts = rq_no_counts, saved = []\<rparr>"
  have strip: "strip '' M1'' = ''M1''" by code_simp
  have asked: "rq_asked ''M1'' [(11, ''u2'', '' M1'', None)] = {\<lparr>reason = None, enqueue_id = ''u2'', enqueued_at = 11\<rparr>}"
    by (auto simp: rq_asked_def strip)
  have "\<exists>r' \<in> set (table (rq_drain_one ?env rq_example_config ''w1'' True (''M1'', None) ?s)).
       matter_id r' = ''M1'' \<and> payload r' \<in> Some ` rq_asked ''M1'' ([(11, ''u2'', '' M1'', None)] @ [] @ [])
       \<and> (work ?env ''M1'' = Recalculated True \<and> \<not> (True \<and> heartbeat_lost ?env ''M1'') \<and> \<not> finalize_fails ?env ''M1''
            \<and> rq_lease_outlasts 300 (rq_example_leased ''M1'' ''w1'') ([(11, ''u2'', '' M1'', None)] @ [])
          \<longrightarrow> lock_token r' = None \<and> attempts r' = 0 \<and> next_run_at r' = Some (clock ?env ''M1''))"
    by (rule rq_no_lost_wakeup)
       (simp_all add: rq_example_leased_def rq_example_row_def rq_owned_def asked)
  then show ?thesis by (simp add: asked rq_example_env_def rq_lease_outlasts_def rq_example_leased_def seconds_def)
qed

text \<open>A request that comes between the two statements that finish a row is lost. When the recalculation succeeds,
  nobody asked before the \<open>SELECT\<close> of the payload, and requests are committed after it while the lease
  lasts, the \<open>DELETE\<close>, which compares the token only, removes the row with the new request: the table has no row of the
  matter and the work counts as done.\<close>

theorem rq_request_between_statements_is_lost:
  assumes "distinct (map matter_id (table s))" and "r \<in> set (table s)" and "rq_owned mid token r" and "payload r = lp" and "mid \<noteq> []"
    and "meanwhile env mid (table s) = table s" and "before_write env mid (table s) = rq_requests lt later (table s)"
    and "rq_lease_outlasts lt r later"
    and "work env mid = Recalculated ch" and "\<not> (hb \<and> heartbeat_lost env mid)" and "\<not> finalize_fails env mid"
  shows "mid \<notin> matter_id ` set (table (rq_drain_one env cfg token hb (mid, lp) s))
    \<and> processed (counts (rq_drain_one env cfg token hb (mid, lp) s)) = processed (counts s) + 1"
proof -
  let ?t = "rq_requests lt later (table s)"
  have mem: "matter_id r = mid" "lock_token r = Some token" using assms(3) by (simp_all add: rq_owned_def)
  from rq_requests_row [OF assms(1,2) mem(1) assms(5), of lt later] assms(8) obtain r1
    where d1: "distinct (map matter_id ?t)" and r1: "r1 \<in> set ?t" "matter_id r1 = mid" "lock_token r1 = Some token" using mem(2) by auto
  have own: "rq_owned mid token x" if "x \<in> set ?t" "matter_id x = mid" for x
    using same_key_same_row [OF d1 that(1) r1(1)] that(2) r1 by (simp add: rq_owned_def)
  have "rowcount (rq_owned mid token) ?t \<noteq> 0" using r1 by (auto simp: rq_owned_def)
  then have "rq_finalize_success mid ch lp token (clock env mid) False (before_write env mid) (table s, counts s)
      = Inr (sql_delete (rq_owned mid token) ?t, rq_count_done ch (counts s))"
    using rq_finalize_read [OF assms(1-3)] assms(4,7) by (simp add: rq_finalize_success_def Let_def)
  then have "table (rq_drain_one env cfg token hb (mid, lp) s) = sql_delete (rq_owned mid token) ?t"
    "counts (rq_drain_one env cfg token hb (mid, lp) s) = rq_count_done ch (counts s)"
    using assms(6,9-11) by (auto simp: rq_drain_one_def rq_try_one_def Let_def)
  with own show ?thesis by (auto simp: table_simps rq_count_done_def)
qed

theorem rq_request_between_statements_is_lost_witness:
  "''M1'' \<notin> matter_id ` set (table (rq_drain_one (rq_example_env\<lparr>before_write := (\<lambda>_. rq_requests 300 [(11, ''u2'', ''M1'', None)])\<rparr>)
       rq_example_config ''w1'' True (''M1'', None) \<lparr>table = [rq_example_leased ''M1'' ''w1''], counts = rq_no_counts, saved = []\<rparr>))"
  by (rule rq_request_between_statements_is_lost [where r = "rq_example_leased ''M1'' ''w1''" and lt = 300 and later = "[(11, ''u2'', ''M1'', None)]" and ch = True, THEN conjunct1])
     (simp_all add: rq_example_leased_def rq_example_row_def rq_owned_def rq_example_env_def rq_lease_outlasts_def seconds_def)

text \<open>A drain keeps the table well formed (one row per matter, attempts between 0 and the
  configured maximum, a token exactly when there is a lock time), provided the other transactions
  do, and handles at most \<open>limit\<close> rows: every row taken is counted once, as processed or as
  failed. The loop always ends.\<close>

theorem rq_drain_well_formed_and_bounded:
  assumes "rq_wf (max_attempts cfg) t" and "0 \<le> max_attempts cfg"
    and "rq_iterations_keep (max_attempts cfg) its" and "0 \<le> limit"
  shows "rq_wf (max_attempts cfg) (table (drain_matter_status_recalc_queue its cfg token (Some limit) None t))
    \<and> processed (counts (drain_matter_status_recalc_queue its cfg token (Some limit) None t))
      + failed (counts (drain_matter_status_recalc_queue its cfg token (Some limit) None t)) \<le> limit"
  using rq_drain_loop_inv [of cfg "\<lparr>table = t, counts = rq_no_counts, saved = []\<rparr>" its
      "max 1 (min 100 (if limit = 0 then 100 else limit))" 0 limit token] assms(1-4)
  by (simp add: drain_matter_status_recalc_queue_def Let_def rq_no_counts_def)

theorem rq_drain_well_formed_and_bounded_witness:
  "processed (counts (drain_matter_status_recalc_queue
       (\<lambda>_. \<lparr>iter_env = rq_example_env, iter_now = 10, iter_held = (\<lambda>_. False), iter_pick_fails = False\<rparr>)
       rq_example_config ''w1'' (Some 1) None [rq_example_row ''M1'', rq_example_row ''M2'']))
   + failed (counts (drain_matter_status_recalc_queue
       (\<lambda>_. \<lparr>iter_env = rq_example_env, iter_now = 10, iter_held = (\<lambda>_. False), iter_pick_fails = False\<rparr>)
       rq_example_config ''w1'' (Some 1) None [rq_example_row ''M1'', rq_example_row ''M2''])) \<le> 1"
  by (rule rq_drain_well_formed_and_bounded [THEN conjunct2])
     (simp_all add: rq_wf_def rq_row_ok_def rq_example_row_def rq_example_config_def
        rq_iterations_keep_def rq_env_keeps_def rq_example_env_def)

text \<open>The queue makes progress: whenever some row is ready (not leased or its lease expired, due,
  attempts left) and not held by another transaction, taking a batch of at least one returns a
  non-empty batch.\<close>

theorem rq_pick_progress:
  assumes "r \<in> set t" and "rq_ready_for (lock_open (now - seconds lt)) now m r"
    and "\<not> held (matter_id r)" and "\<forall>x \<in> set t. matter_id x \<noteq> []" and "0 < limit"
    and "distinct (map matter_id t)"
  shows "snd (rq_pick_and_lock_ready_items limit now token m lt held False t) \<noteq> []"
proof -
  let ?eb = "now - seconds lt"
  obtain k where k: "k \<in> set (rq_picked_ids limit now ?eb m held t)"
    using rq_picked_ids_progress [OF assms(1,2), of held limit] assms(3-5) by (meson list.set_sel(1))
  from rq_picked_ids_ready [OF k] obtain x
    where "x \<in> set t" "matter_id x = k" "rq_ready_for (lock_open ?eb) now m x" "k \<noteq> []" by blast
  from rq_lock_rows_progress [OF k this(1,2,4,3)] show ?thesis by (simp add: rq_pick_alt)
qed

theorem rq_pick_progress_witness:
  "snd (rq_pick_and_lock_ready_items 1 10 ''w1'' 8 300 (\<lambda>_. False) False [rq_example_row ''M1'']) \<noteq> []"
  by (rule rq_pick_progress [where r = "rq_example_row ''M1''"])
     (simp_all add: rq_example_row_def rq_ready_for_def lock_open_def run_due_def)

text \<open>A row whose attempts are used up is never taken again, at any time and by any worker;
  a new request for the matter makes the same row ready at once, unless a live lease holds it.\<close>

theorem rq_exhausted_until_requested:
  assumes "distinct (map matter_id t)" and "r \<in> set t" and "m \<le> attempts r" and "0 < m"
    and "\<not> lease_live (now' - seconds lt) r" and "strip (matter_id r) = matter_id r" and "matter_id r \<noteq> []"
  shows "matter_id r \<notin> fst ` set (snd (rq_pick_and_lock_ready_items limit now token m lt held f t))
    \<and> (\<exists>r' \<in> set (snd (rq_enqueue lt now' uuid False (Some (matter_id r)) why t)).
      matter_id r' = matter_id r \<and> rq_ready_for (lock_open (now' - seconds lt)) now' m r')"
proof
  show "matter_id r \<notin> fst ` set (snd (rq_pick_and_lock_ready_items limit now token m lt held f t))"
  proof
    assume "matter_id r \<in> fst ` set (snd (rq_pick_and_lock_ready_items limit now token m lt held f t))"
    from rq_pick_taken [OF assms(1) prod.collapse [symmetric] this]
    have "\<exists>x \<in> set t. matter_id x = matter_id r \<and> attempts x < m" by (auto simp: rq_ready_for_def)
    from rq_ready_unique [OF assms(1,2) this] assms(3) show False by simp
  qed
  from rq_upsert_known [OF assms(1,2) refl, of "now' - seconds lt" now'
      "\<lparr>reason = why, enqueue_id = uuid, enqueued_at = now'\<rparr>"] assms(4-7)
  show "\<exists>r' \<in> set (snd (rq_enqueue lt now' uuid False (Some (matter_id r)) why t)).
      matter_id r' = matter_id r \<and> rq_ready_for (lock_open (now' - seconds lt)) now' m r'"
    by (auto simp: rq_enqueue_def Let_def rq_ready_for_def lock_open_def run_due_def)
qed

theorem rq_exhausted_until_requested_witness:
  "''M1'' \<notin> fst ` set (snd (rq_pick_and_lock_ready_items 10 99 ''w1'' 8 300 (\<lambda>_. False) False
       [(rq_example_row ''M1'')\<lparr>attempts := 8\<rparr>]))
   \<and> (\<exists>r' \<in> set (snd (rq_enqueue 300 100 ''u1'' False (Some ''M1'') None [(rq_example_row ''M1'')\<lparr>attempts := 8\<rparr>])).
      matter_id r' = ''M1'' \<and> rq_ready_for (lock_open (100 - seconds 300)) 100 8 r')"
proof -
  have mid: "matter_id ((rq_example_row ''M1'')\<lparr>attempts := 8\<rparr>) = ''M1''"
    by (simp add: rq_example_row_def)
  have strip: "strip ''M1'' = ''M1''" by code_simp
  show ?thesis
    by (rule rq_exhausted_until_requested [where r = "(rq_example_row ''M1'')\<lparr>attempts := 8\<rparr>", unfolded mid])
       (simp_all add: rq_example_row_def lease_live_def strip)
qed

end
