(* ===== verification/Durable_Queue.thy ===== *)
theory Durable_Queue
  imports Lease_Core "HOL-Library.Product_Lexorder"
begin

text \<open>
  The durable job queue (\<open>app/ops/durable_queue.py\<close>, table \<open>durable_jobs\<close> of
  \<open>app/ops/models.py\<close>).

  Producers insert jobs, deduplicated by an optional key that a partial unique index protects
  (\<open>enqueue\<close>), directly or staged until the surrounding transaction commits. Workers recover
  stale locks, claim one due job at a time in the order of their queue names (\<open>claim_one\<close>), run
  its handler and record the outcome (\<open>mark_succeeded\<close>, \<open>mark_failed\<close>), with two retries of the
  recording and a last direct statement (\<open>worker_iteration\<close>). Operators may retry or cancel a job.

  Recording an outcome is a read with a check of the owner, then a write by id; other sessions may commit in between,
  and the model has them as arguments of \<open>mark_succeeded\<close> and \<open>mark_failed\<close>.

  The state is the table and its id sequence (\<open>durable_db\<close>); the bookkeeping columns
  \<open>created_at\<close> and \<open>updated_at\<close>, which no operation reads, are left out. Handlers, the clock,
  other transactions and database failures are arguments.
\<close>

section \<open>Data\<close>

datatype job_status = Queued | Running | Succeeded | Failed | Cancelled

type_synonym job_payload = "(string \<times> string) list"

record durable_job =
  job_id :: int
  job_queue :: string
  job_task :: string
  job_payload :: job_payload
  payload_version :: int
  dedupe_key :: "string option"
  source_event_id :: "string option"
  provider_request_id :: "string option"
  idempotency_scope :: "string option"
  job_status :: job_status
  job_attempts :: int
  job_max_attempts :: int
  run_at :: datetime
  job_locked_at :: "datetime option"
  locked_by :: "string option"
  job_last_error :: "string option"
  last_traceback :: "string option"
  finished_at :: "datetime option"

record durable_db =
  jobs :: "durable_job list"
  next_job_id :: int

record queue_settings =
  lock_ttl_seconds :: int
  max_backoff_seconds :: int
  worker_heartbeat_interval_seconds :: int

record durable_job_claim =
  claim_id :: int
  claim_queue :: string
  claim_task :: string
  claim_payload :: job_payload
  claim_attempts :: int
  claim_max_attempts :: int

record enqueue_spec =
  spec_task :: string
  spec_payload :: job_payload
  spec_queue :: string
  spec_run_at :: "datetime option"
  spec_max_attempts :: int
  spec_dedupe_key :: "string option"
  spec_payload_version :: int
  spec_source_event_id :: "string option"
  spec_provider_request_id :: "string option"
  spec_idempotency_scope :: "string option"

section \<open>Retry delay and diagnostics\<close>

definition backoff_seconds :: "int \<Rightarrow> int \<Rightarrow> int" where
  "backoff_seconds tries max_backoff =
     (let sec = 2 ^ nat (max 0 (tries - 1));
          backoff = sec * 60
      in if backoff > max_backoff then max_backoff else backoff)"

definition exception_summary :: "string \<times> string \<Rightarrow> string" where
  "exception_summary err =
     (case err of (err_type, text) \<Rightarrow>
        let message = strip text in if message \<noteq> [] then err_type @ '': '' @ message else err_type)"

definition marker_label :: "string \<Rightarrow> string option" where
  "marker_label l =
     (if l = ''[manual retry]'' then Some ''manual retry''
      else if l = ''[recovered stale lock]'' then Some ''stale lock recovered''
      else if l = ''[recovered worker startup lock]'' then Some ''worker startup lock recovered''
      else None)"

fun visible_cause_lines :: "string list \<Rightarrow> string list \<Rightarrow> string" where
  "visible_cause_lines seen [] = join '', '' (rev seen)"
| "visible_cause_lines seen (line # lines) =
     (let text = strip line in
      if text = [] then visible_cause_lines seen lines
      else case marker_label text of
        Some marker \<Rightarrow> visible_cause_lines (marker # seen) lines
      | None \<Rightarrow> if 300 < length text then rstrip (take 299 text) @ ''...'' else text)"

definition visible_retry_cause :: "string option \<Rightarrow> string" where
  "visible_retry_cause err =
     (let raw = strip (or_empty err) in
      if raw = [] then []
      else visible_cause_lines [] (split_on (CHR 0x0A) (replace_char (CHR 0x0D) (CHR 0x0A) raw)))"

text \<open>\<open>int(delta.total_seconds())\<close>: truncation towards zero.\<close>

definition whole_seconds :: "datetime \<Rightarrow> int" where
  "whole_seconds d = (if 0 \<le> d then d div 1000000 else - ((- d) div 1000000))"

record retry_diagnostics =
  retry_state :: string
  retry_state_label :: string
  retry_cause :: string
  next_retry_at :: "datetime option"
  retry_due_in_seconds :: "int option"
  retries_remaining :: "int option"

definition retry_label :: "string \<Rightarrow> string" where
  "retry_label st =
     (if st = ''retry_waiting'' then ''Retry Waiting''
      else if st = ''retry_ready'' then ''Retry ''
      else if st = ''retry_running'' then ''Retry row In Progress''
      else if st = ''retry_exhausted'' then ''Retry ''
      else if st = ''failed'' then ''Failed''
      else [])"

definition durable_job_retry_diagnostics :: "durable_job \<Rightarrow> datetime \<Rightarrow> retry_diagnostics" where
  "durable_job_retry_diagnostics job now =
     (let tries = job_attempts job;
          max_tries = job_max_attempts job;
          nxt = (if job_status job = Queued \<and> 0 < tries then Some (run_at job) else None);
          due = map_option (\<lambda>n. whole_seconds (n - now)) nxt;
          st = (if job_status job = Queued \<and> 0 < tries
                then (if (case due of None \<Rightarrow> False | Some d \<Rightarrow> 0 < d) then ''retry_waiting'' else ''retry_ready'')
                else if job_status job = Running \<and> 1 < tries then ''retry_running''
                else if job_status job = Failed
                then (if max_tries \<noteq> 0 \<and> max_tries \<le> tries then ''retry_exhausted'' else ''failed'')
                else []);
          cause = visible_retry_cause (job_last_error job)
      in \<lparr>retry_state = st, retry_state_label = retry_label st,
          retry_cause = (if cause = [] \<and> st \<noteq> [] then ''previous attempt failed'' else cause),
          next_retry_at = nxt, retry_due_in_seconds = due,
          retries_remaining = (if max_tries \<noteq> 0 then Some (max 0 (max_tries - tries)) else None)\<rparr>)"

section \<open>Producers\<close>

definition clean_optional :: "string option \<Rightarrow> string option" where
  "clean_optional v = or_none (strip (or_empty v))"

definition is_active :: "job_status \<Rightarrow> bool" where
  "is_active st \<longleftrightarrow> st = Queued \<or> st = Running"

definition dedupe_match :: "string \<Rightarrow> string \<Rightarrow> string \<Rightarrow> durable_job \<Rightarrow> bool" where
  "dedupe_match q task key j \<longleftrightarrow>
     job_queue j = q \<and> job_task j = task \<and> dedupe_key j = Some key \<and> is_active (job_status j)"

definition find_existing_deduped_job ::
  "string \<Rightarrow> string \<Rightarrow> string option \<Rightarrow> durable_job list \<Rightarrow> durable_job option"
where
  "find_existing_deduped_job q task key t =
     (case key of None \<Rightarrow> None
      | Some k \<Rightarrow> if k = [] then None
          else (case sort_key job_id (filter (dedupe_match q task k) t) of [] \<Rightarrow> None | j # _ \<Rightarrow> Some j))"

text \<open>The partial unique index \<open>ux_durable_jobs_dedupe_active\<close>, as a check on the table.\<close>

definition dedupe_index_ok :: "durable_job list \<Rightarrow> bool" where
  "dedupe_index_ok t \<longleftrightarrow>
     (\<forall>i \<in> set t. \<forall>j \<in> set t. is_active (job_status i) \<and> is_active (job_status j)
        \<and> dedupe_key i \<noteq> None \<and> dedupe_key i = dedupe_key j
        \<and> job_queue i = job_queue j \<and> job_task i = job_task j \<longrightarrow> job_id i = job_id j)"

definition clean_payload_version :: "int \<Rightarrow> int" where
  "clean_payload_version v = max 1 (if v = 0 then 1 else v)"

datatype enqueue_result = Existing durable_job | Created durable_job | IntegrityRaised | DbRaised

definition new_job :: "enqueue_spec \<Rightarrow> datetime \<Rightarrow> int \<Rightarrow> durable_job" where
  "new_job a now i =
     \<lparr>job_id = i, job_queue = spec_queue a, job_task = spec_task a, job_payload = spec_payload a,
      payload_version = clean_payload_version (spec_payload_version a),
      dedupe_key = clean_optional (spec_dedupe_key a),
      source_event_id = clean_optional (spec_source_event_id a),
      provider_request_id = clean_optional (spec_provider_request_id a),
      idempotency_scope = clean_optional (spec_idempotency_scope a),
      job_status = Queued, job_attempts = 0, job_max_attempts = spec_max_attempts a,
      run_at = (case spec_run_at a of None \<Rightarrow> now | Some r \<Rightarrow> r),
      job_locked_at = None, locked_by = None, job_last_error = None, last_traceback = None,
      finished_at = None\<rparr>"

text \<open>
  The look-up and the insert are two statements, and another producer may commit between them:
  \<open>seen\<close> is the table at the look-up, \<open>db\<close> at the insert.
\<close>

definition enqueue ::
  "enqueue_spec \<Rightarrow> datetime \<Rightarrow> bool \<Rightarrow> durable_job list \<Rightarrow> durable_db \<Rightarrow> enqueue_result \<times> durable_db"
where
  "enqueue a now db_fails seen db =
     (let key = clean_optional (spec_dedupe_key a) in
      case find_existing_deduped_job (spec_queue a) (spec_task a) key seen of
        Some existing \<Rightarrow> (Existing existing, db)
      | None \<Rightarrow>
          if db_fails then (DbRaised, db)
          else let job = new_job a now (next_job_id db) in
            if dedupe_index_ok (jobs db @ [job])
            then (Created job, db\<lparr>jobs := jobs db @ [job], next_job_id := next_job_id db + 1\<rparr>)
            else (case key of None \<Rightarrow> (IntegrityRaised, db)
                  | Some k \<Rightarrow>
                      (case find_existing_deduped_job (spec_queue a) (spec_task a) key (jobs db) of
                         Some existing \<Rightarrow> (Existing existing, db)
                       | None \<Rightarrow> (IntegrityRaised, db))))"

text \<open>Staging on a session: the list under \<open>_AFTER_COMMIT_ENQUEUE_KEY\<close>, absent at first.\<close>

type_synonym session_info = "enqueue_spec list option"

definition enqueue_after_commit :: "enqueue_spec \<Rightarrow> session_info \<Rightarrow> session_info" where
  "enqueue_after_commit a pending =
     (let spec = a\<lparr>spec_queue := (if spec_queue a = [] then ''default'' else spec_queue a),
                   spec_max_attempts := (if spec_max_attempts a = 0 then 5 else spec_max_attempts a),
                   spec_dedupe_key := clean_optional (spec_dedupe_key a),
                   spec_payload_version := clean_payload_version (spec_payload_version a),
                   spec_source_event_id := clean_optional (spec_source_event_id a),
                   spec_provider_request_id := clean_optional (spec_provider_request_id a),
                   spec_idempotency_scope := clean_optional (spec_idempotency_scope a)\<rparr>
      in Some ((case pending of None \<Rightarrow> [] | Some l \<Rightarrow> l) @ [spec]))"

fun enqueue_all :: "(enqueue_spec \<Rightarrow> bool) \<Rightarrow> datetime \<Rightarrow> enqueue_spec list \<Rightarrow> durable_db \<Rightarrow> durable_db" where
  "enqueue_all fails now [] db = db"
| "enqueue_all fails now (a # as) db =
     enqueue_all fails now as (snd (enqueue a now (fails a) (jobs db) db))"

definition drain_after_commit_enqueues ::
  "bool \<Rightarrow> (enqueue_spec \<Rightarrow> bool) \<Rightarrow> datetime \<Rightarrow> session_info \<times> durable_db \<Rightarrow> session_info \<times> durable_db"
where
  "drain_after_commit_enqueues nested fails now s =
     (case s of (pending, db) \<Rightarrow>
        if nested then (pending, db)
        else (None, enqueue_all fails now (case pending of None \<Rightarrow> [] | Some l \<Rightarrow> l) db))"

definition clear_after_commit_enqueues :: "session_info \<Rightarrow> session_info" where
  "clear_after_commit_enqueues pending = None"

section \<open>Lock recovery\<close>

definition stale :: "datetime \<Rightarrow> durable_job \<Rightarrow> bool" where
  "stale cutoff j \<longleftrightarrow>
     job_status j = Running \<and> (case job_locked_at j of None \<Rightarrow> False | Some l \<Rightarrow> l < cutoff)"

definition requeue :: "datetime \<Rightarrow> string \<Rightarrow> durable_job \<Rightarrow> durable_job" where
  "requeue now mark j =
     j\<lparr>job_status := Queued, job_locked_at := None, locked_by := None, run_at := now,
       job_last_error := Some (or_empty (job_last_error j) @ CHR 0x0A # mark)\<rparr>"

definition recover_stale_locks ::
  "int \<Rightarrow> datetime \<Rightarrow> bool \<Rightarrow> durable_job list \<Rightarrow> int \<times> durable_job list"
where
  "recover_stale_locks ttl now db_fails t =
     (if db_fails then (0, t)
      else (int (rowcount (stale (now - seconds ttl)) t),
            sql_update (stale (now - seconds ttl)) (requeue now ''[recovered stale lock]'') t))"

definition before_last :: "char \<Rightarrow> string \<Rightarrow> string" where
  "before_last c s = rev (tl (dropWhile (\<lambda>x. x \<noteq> c) (rev s)))"

definition worker_hostname :: "string \<Rightarrow> string \<Rightarrow> string" where
  "worker_hostname worker_id gethostname =
     (if CHR '':'' \<in> set worker_id then before_last (CHR '':'') worker_id else gethostname)"

definition startup_lock :: "string list \<Rightarrow> string \<Rightarrow> durable_job \<Rightarrow> bool" where
  "startup_lock queue_names prefix_pattern j \<longleftrightarrow>
     job_status j = Running \<and> job_queue j \<in> set queue_names
     \<and> (case locked_by j of None \<Rightarrow> False | Some w \<Rightarrow> sql_like prefix_pattern w)"

definition recover_startup_locks_for_worker ::
  "string \<Rightarrow> string \<Rightarrow> string list \<Rightarrow> datetime \<Rightarrow> bool \<Rightarrow> durable_job list \<Rightarrow> int \<times> durable_job list"
where
  "recover_startup_locks_for_worker worker_id gethostname queues now db_fails t =
     (let queue_names = filter (\<lambda>q. q \<noteq> []) queues;
          pat = worker_hostname worker_id gethostname @ '':%'' in
      if queue_names = [] then (0, t)
      else if db_fails then (0, t)
      else (int (rowcount (startup_lock queue_names pat) t),
            sql_update (startup_lock queue_names pat) (requeue now ''[recovered worker startup lock]'') t))"

section \<open>Claiming\<close>

text \<open>\<open>held\<close>: ids other transactions hold row locks on (\<open>SKIP LOCKED\<close>).\<close>

definition claimable :: "datetime \<Rightarrow> (int \<Rightarrow> bool) \<Rightarrow> string \<Rightarrow> durable_job \<Rightarrow> bool" where
  "claimable now held q j \<longleftrightarrow>
     job_status j = Queued \<and> job_queue j = q \<and> run_at j \<le> now \<and> \<not> held (job_id j)"

fun first_claimable ::
  "datetime \<Rightarrow> (int \<Rightarrow> bool) \<Rightarrow> string list \<Rightarrow> durable_job list \<Rightarrow> durable_job option"
where
  "first_claimable now held [] t = None"
| "first_claimable now held (q # qs) t =
     (case sort_key (\<lambda>j. (run_at j, job_id j)) (filter (claimable now held q) t) of
        j # _ \<Rightarrow> Some j
      | [] \<Rightarrow> first_claimable now held qs t)"

definition take_lock :: "datetime \<Rightarrow> string \<Rightarrow> durable_job \<Rightarrow> durable_job" where
  "take_lock now worker_id j =
     j\<lparr>job_status := Running, job_locked_at := Some now, locked_by := Some worker_id,
       job_attempts := job_attempts j + 1\<rparr>"

definition snapshot_claimed_job :: "durable_job \<Rightarrow> durable_job_claim" where
  "snapshot_claimed_job j =
     \<lparr>claim_id = job_id j, claim_queue = job_queue j, claim_task = job_task j,
      claim_payload = job_payload j, claim_attempts = job_attempts j,
      claim_max_attempts = job_max_attempts j\<rparr>"

datatype dq_error = DqDatabaseError | DqIntegrityError

record claim_env =
  claim_now :: datetime
  recovery_now :: datetime
  recovery_fails :: bool
  claim_fails :: bool
  held_ids :: "int \<Rightarrow> bool"

definition claim_one ::
  "int \<Rightarrow> string \<Rightarrow> string list \<Rightarrow> claim_env \<Rightarrow> durable_job list
    \<Rightarrow> (dq_error + durable_job_claim option) \<times> durable_job list"
where
  "claim_one ttl worker_id queues e t =
     (let queue_names = filter (\<lambda>q. q \<noteq> []) queues;
          t1 = snd (recover_stale_locks ttl (recovery_now e) (recovery_fails e) t) in
      if claim_fails e then (Inl DqDatabaseError, t1)
      else case first_claimable (claim_now e) (held_ids e) queue_names t1 of
        None \<Rightarrow> (Inr None, t1)
      | Some job \<Rightarrow>
          (Inr (Some (snapshot_claimed_job (take_lock (claim_now e) worker_id job))),
           sql_update (\<lambda>j. job_id j = job_id job) (take_lock (claim_now e) worker_id) t1))"

section \<open>Leases\<close>

definition owned_by :: "string \<Rightarrow> int \<Rightarrow> durable_job \<Rightarrow> bool" where
  "owned_by worker_id i j \<longleftrightarrow> job_id j = i \<and> job_status j = Running \<and> locked_by j = Some worker_id"

definition refresh_job_lock ::
  "string \<Rightarrow> int \<Rightarrow> datetime \<Rightarrow> bool \<Rightarrow> durable_job list \<Rightarrow> bool \<times> durable_job list"
where
  "refresh_job_lock worker_id i now db_fails t =
     (if i = 0 then (False, t)
      else if db_fails then (False, t)
      else (0 < rowcount (owned_by worker_id i) t,
            sql_update (owned_by worker_id i) (\<lambda>j. j\<lparr>job_locked_at := Some now\<rparr>) t))"

definition job_lock_interval :: "queue_settings \<Rightarrow> int" where
  "job_lock_interval st =
     (let ttl = max 1 (if lock_ttl_seconds st = 0 then 600 else lock_ttl_seconds st);
          worker_interval = max 5 (if worker_heartbeat_interval_seconds st = 0 then 30
                                   else worker_heartbeat_interval_seconds st)
      in max 5 (min worker_interval (max 5 (ttl div 3))))"

text \<open>
  The heartbeat thread of a running job: at each tick (its time, whether the database fails, and
  what others did to the table since the last tick) it refreshes the lease, and it ends at the
  first refresh that returns \<open>False\<close>. The result is the table and the ticks not served.
\<close>

fun job_lock_heartbeat ::
  "string \<Rightarrow> int \<Rightarrow> (datetime \<times> bool \<times> (durable_job list \<Rightarrow> durable_job list)) list \<Rightarrow> durable_job list
    \<Rightarrow> durable_job list \<times> nat"
where
  "job_lock_heartbeat worker_id i [] t = (t, 0)"
| "job_lock_heartbeat worker_id i ((now, db_fails, others) # ticks) t =
     (case refresh_job_lock worker_id i now db_fails (others t) of
        (True, t') \<Rightarrow> job_lock_heartbeat worker_id i ticks t'
      | (False, t') \<Rightarrow> (fold (\<lambda>(n, f, oth) x. oth x) ticks t', length ticks))"

record worker_heartbeat =
  hb_worker_id :: string
  hb_hostname :: string
  hb_pid :: int
  hb_queues :: "string list"
  hb_updated_at :: datetime

definition worker_heartbeat_key :: "string \<Rightarrow> string \<Rightarrow> string" where
  "worker_heartbeat_key worker_id gethostname =
     ''ops.worker_heartbeat.'' @ worker_hostname worker_id gethostname"

definition record_worker_heartbeat ::
  "string \<Rightarrow> string \<Rightarrow> int \<Rightarrow> string list \<Rightarrow> datetime \<Rightarrow> bool \<Rightarrow> (string \<rightharpoonup> worker_heartbeat)
    \<Rightarrow> (string \<rightharpoonup> worker_heartbeat)"
where
  "record_worker_heartbeat worker_id gethostname pid queues now db_fails config =
     (if db_fails then config
      else config(worker_heartbeat_key worker_id gethostname \<mapsto>
        \<lparr>hb_worker_id = worker_id, hb_hostname = worker_hostname worker_id gethostname, hb_pid = pid,
         hb_queues = filter (\<lambda>q. q \<noteq> []) queues, hb_updated_at = now\<rparr>))"

section \<open>Recording outcomes\<close>

text \<open>A job reference: an id, a claim, an ORM instance (its \<open>id\<close> attribute and its identity, each
  of which may raise), or anything else.\<close>

datatype job_ref = RefId int | RefClaim durable_job_claim
  | RefInstance "dq_error + int option" "dq_error + int option" | RefOther

fun resolve_job_id :: "job_ref \<Rightarrow> int option" where
  "resolve_job_id (RefId i) = Some i"
| "resolve_job_id (RefClaim c) = Some (claim_id c)"
| "resolve_job_id (RefInstance (Inr (Some i)) ident) = Some i"
| "resolve_job_id (RefInstance a (Inr ident)) = ident"
| "resolve_job_id (RefInstance a (Inl e)) = None"
| "resolve_job_id RefOther = None"

text \<open>
  The recording operations read the row, check its status and owner, and then write it through the ORM:
  \<open>UPDATE ... WHERE id = :id\<close>, without a condition on the owner. \<open>others\<close> is what other sessions commit between the
  read and the write. The write raises when the row is gone or the unique index refuses it. The operations return
  whether they raised, and the table.
\<close>

definition write_job :: "int \<Rightarrow> (durable_job \<Rightarrow> durable_job) \<Rightarrow> durable_job list \<Rightarrow> bool \<times> durable_job list" where
  "write_job i f t =
     (if list_ex (\<lambda>j. job_id j = i) t
      then let t' = sql_update (\<lambda>j. job_id j = i) f t in if dedupe_index_ok t' then (False, t') else (True, t)
      else (True, t))"

definition owned_row :: "string \<Rightarrow> int \<Rightarrow> durable_job list \<Rightarrow> durable_job option" where
  "owned_row worker_id i t =
     (case find (\<lambda>j. job_id j = i) t of
        None \<Rightarrow> None
      | Some fresh \<Rightarrow> if job_status fresh \<noteq> Running \<or> locked_by fresh \<noteq> Some worker_id then None else Some fresh)"

definition mark_succeeded ::
  "string \<Rightarrow> job_ref \<Rightarrow> datetime \<Rightarrow> bool \<Rightarrow> (durable_job list \<Rightarrow> durable_job list) \<Rightarrow> durable_job list
    \<Rightarrow> bool \<times> durable_job list"
where
  "mark_succeeded worker_id ref now db_fails others t =
     (case resolve_job_id ref of None \<Rightarrow> (False, others t)
      | Some i \<Rightarrow>
          if db_fails then (True, others t)
          else case owned_row worker_id i t of
            None \<Rightarrow> (False, others t)
          | Some fresh \<Rightarrow>
              write_job i (\<lambda>j. j\<lparr>job_status := Succeeded, finished_at := Some now, job_locked_at := None, locked_by := None\<rparr>)
                (others t))"

text \<open>The columns a failure writes, with values computed from the row as it was read.\<close>

definition record_error ::
  "int \<Rightarrow> datetime \<Rightarrow> string \<times> string \<Rightarrow> string \<Rightarrow> durable_job \<Rightarrow> durable_job \<Rightarrow> durable_job"
where
  "record_error max_backoff now err trace fresh j =
     (let j1 = j\<lparr>job_last_error := Some (exception_summary err), last_traceback := Some trace\<rparr>;
          j2 = (if job_attempts fresh < job_max_attempts fresh
                then j1\<lparr>job_status := Queued,
                        run_at := now + seconds (backoff_seconds (job_attempts fresh) max_backoff)\<rparr>
                else j1\<lparr>job_status := Failed, finished_at := Some now\<rparr>)
      in j2\<lparr>job_locked_at := None, locked_by := None\<rparr>)"

definition mark_failed ::
  "string \<Rightarrow> int \<Rightarrow> job_ref \<Rightarrow> string \<times> string \<Rightarrow> string \<Rightarrow> datetime \<Rightarrow> bool \<Rightarrow> (durable_job list \<Rightarrow> durable_job list)
    \<Rightarrow> durable_job list \<Rightarrow> bool \<times> durable_job list"
where
  "mark_failed worker_id max_backoff ref err trace now db_fails others t =
     (case resolve_job_id ref of None \<Rightarrow> (False, others t)
      | Some i \<Rightarrow>
          if db_fails then (True, others t)
          else case owned_row worker_id i t of
            None \<Rightarrow> (False, others t)
          | Some fresh \<Rightarrow> write_job i (record_error max_backoff now err trace fresh) (others t))"

definition force_failed :: "string \<Rightarrow> int \<Rightarrow> datetime \<Rightarrow> bool \<Rightarrow> durable_job list \<Rightarrow> durable_job list" where
  "force_failed worker_id i now db_fails t =
     (if db_fails then t
      else sql_update (owned_by worker_id i)
        (\<lambda>j. j\<lparr>job_status := Failed, job_locked_at := None, locked_by := None, finished_at := Some now\<rparr>) t)"

definition set_job :: "int \<Rightarrow> (durable_job \<Rightarrow> durable_job) \<Rightarrow> durable_job list
    \<Rightarrow> (dq_error + bool) \<times> durable_job list" where
  "set_job i f t =
     (if \<exists>j \<in> set t. job_id j = i
      then let t' = sql_update (\<lambda>j. job_id j = i) f t in
           if dedupe_index_ok t' then (Inr True, t') else (Inl DqIntegrityError, t)
      else (Inr False, t))"

definition retry_job :: "int \<Rightarrow> datetime \<Rightarrow> durable_job list \<Rightarrow> (dq_error + bool) \<times> durable_job list" where
  "retry_job i now t =
     set_job i (\<lambda>j. j\<lparr>job_status := Queued, run_at := now, job_locked_at := None, locked_by := None,
       job_last_error := Some (or_empty (job_last_error j) @ CHR 0x5C # ''n[manual retry]'')\<rparr>) t"

definition cancel_job :: "int \<Rightarrow> datetime \<Rightarrow> durable_job list \<Rightarrow> (dq_error + bool) \<times> durable_job list" where
  "cancel_job i now t =
     set_job i (\<lambda>j. j\<lparr>job_status := Cancelled, finished_at := Some now, job_locked_at := None,
       locked_by := None\<rparr>) t"

section \<open>The worker\<close>

text \<open>A handler is what happens to the table while it runs (its own effects, the heartbeats, other
  workers) and the exception it ends with, if any.\<close>

type_synonym handler = "job_payload \<Rightarrow> durable_job list \<Rightarrow> (string \<times> string) option \<times> durable_job list"

record worker_env =
  env_claim :: claim_env
  handlers :: "string \<Rightarrow> handler option"
  env_trace :: string
  mark_now :: datetime
  first_mark_fails :: bool
  before_first_write :: "durable_job list \<Rightarrow> durable_job list"
  second_mark_fails :: bool
  before_second_write :: "durable_job list \<Rightarrow> durable_job list"
  force_fails :: bool

datatype worker_result = Idle | Served int | Crashed

definition record_failure_with_retries ::
  "queue_settings \<Rightarrow> string \<Rightarrow> worker_env \<Rightarrow> int \<Rightarrow> string \<times> string \<Rightarrow> durable_job list \<Rightarrow> durable_job list"
where
  "record_failure_with_retries st worker_id e i err t =
     (case mark_failed worker_id (max_backoff_seconds st) (RefId i) err (env_trace e) (mark_now e)
             (first_mark_fails e) (before_first_write e) t of
        (False, t1) \<Rightarrow> t1
      | (True, t1) \<Rightarrow>
          (case mark_failed worker_id (max_backoff_seconds st) (RefId i) err (env_trace e) (mark_now e)
                  (second_mark_fails e) (before_second_write e) t1 of
             (False, t2) \<Rightarrow> t2
           | (True, t2) \<Rightarrow> force_failed worker_id i (mark_now e) (force_fails e) t2))"

definition record_success_with_retry ::
  "string \<Rightarrow> worker_env \<Rightarrow> int \<Rightarrow> durable_job list \<Rightarrow> durable_job list"
where
  "record_success_with_retry worker_id e i t =
     (case mark_succeeded worker_id (RefId i) (mark_now e) (first_mark_fails e) (before_first_write e) t of
        (False, t1) \<Rightarrow> t1
      | (True, t1) \<Rightarrow>
          snd (mark_succeeded worker_id (RefId i) (mark_now e) (second_mark_fails e) (before_second_write e) t1))"

definition worker_iteration ::
  "queue_settings \<Rightarrow> string \<Rightarrow> string list \<Rightarrow> worker_env \<Rightarrow> durable_job list \<Rightarrow> worker_result \<times> durable_job list"
where
  "worker_iteration st worker_id queues e t =
     (case claim_one (lock_ttl_seconds st) worker_id queues (env_claim e) t of
        (Inl err, t1) \<Rightarrow> (Crashed, t1)
      | (Inr None, t1) \<Rightarrow> (Idle, t1)
      | (Inr (Some job), t1) \<Rightarrow>
          (case (if claim_task job = [] then None else handlers e (claim_task job)) of
             None \<Rightarrow>
               (case mark_failed worker_id (max_backoff_seconds st) (RefId (claim_id job))
                       (''RuntimeError'', ''No handler registered for task='' @ claim_task job)
                       (env_trace e) (mark_now e) (first_mark_fails e) (before_first_write e) t1 of
                  (raised, t2) \<Rightarrow> (if raised then Crashed else Served (claim_id job), t2))
           | Some handler \<Rightarrow>
               (case handler (claim_payload job) t1 of
                  (Some err, t2) \<Rightarrow>
                    (Served (claim_id job), record_failure_with_retries st worker_id e (claim_id job) err t2)
                | (None, t2) \<Rightarrow>
                    (Served (claim_id job), record_success_with_retry worker_id e (claim_id job) t2))))"

text \<open>The loop, over the iterations until the stop event is set; an iteration that raises ends it.\<close>

fun worker_iterations ::
  "queue_settings \<Rightarrow> string \<Rightarrow> string list \<Rightarrow> worker_env list \<Rightarrow> durable_job list \<Rightarrow> worker_result list \<times> durable_job list"
where
  "worker_iterations st worker_id queues [] t = ([], t)"
| "worker_iterations st worker_id queues (e # es) t =
     (case worker_iteration st worker_id queues e t of
        (Crashed, t') \<Rightarrow> ([Crashed], t')
      | (r, t') \<Rightarrow> (case worker_iterations st worker_id queues es t' of (rs, t'') \<Rightarrow> (r # rs, t'')))"

definition worker_loop ::
  "queue_settings \<Rightarrow> string \<Rightarrow> string \<Rightarrow> string list \<Rightarrow> datetime \<Rightarrow> bool \<Rightarrow> worker_env list \<Rightarrow> durable_job list
    \<Rightarrow> worker_result list \<times> durable_job list"
where
  "worker_loop st worker_id gethostname queues start_now start_fails es t =
     (let queue_names = filter (\<lambda>q. q \<noteq> []) queues in
      worker_iterations st worker_id queue_names es
        (snd (recover_startup_locks_for_worker worker_id gethostname queue_names start_now start_fails t)))"

section \<open>The invariant of the table\<close>

definition job_ok :: "durable_job \<Rightarrow> bool" where
  "job_ok j \<longleftrightarrow>
     (job_status j = Running \<longleftrightarrow> locked_by j \<noteq> None) \<and> (locked_by j = None \<longleftrightarrow> job_locked_at j = None)
     \<and> (job_status j \<in> {Succeeded, Failed, Cancelled} \<longrightarrow> finished_at j \<noteq> None)
     \<and> 0 \<le> job_attempts j \<and> 1 \<le> payload_version j"

definition jobs_inv :: "durable_job list \<Rightarrow> bool" where
  "jobs_inv t \<longleftrightarrow> distinct (map job_id t) \<and> (\<forall>j \<in> set t. job_ok j) \<and> dedupe_index_ok t"

definition dq_inv :: "durable_db \<Rightarrow> bool" where
  "dq_inv db \<longleftrightarrow> jobs_inv (jobs db) \<and> (\<forall>j \<in> set (jobs db). job_id j < next_job_id db)"

text \<open>
  What later states keep of a job: its request, while the attempts only grow. The updates the
  queue itself makes apply to active rows only.
\<close>

definition continues :: "durable_job \<Rightarrow> durable_job \<Rightarrow> bool" where
  "continues j j' \<longleftrightarrow>
     job_id j' = job_id j \<and> job_queue j' = job_queue j \<and> job_task j' = job_task j
     \<and> job_payload j' = job_payload j \<and> dedupe_key j' = dedupe_key j
     \<and> job_max_attempts j' = job_max_attempts j \<and> job_attempts j \<le> job_attempts j'"

definition lifecycle_update :: "(durable_job \<Rightarrow> bool) \<Rightarrow> (durable_job \<Rightarrow> durable_job) \<Rightarrow> bool" where
  "lifecycle_update p f \<longleftrightarrow>
     (\<forall>j. p j \<longrightarrow> continues j (f j) \<and> is_active (job_status j) \<and> (job_ok j \<longrightarrow> job_ok (f j)))"

lemma continues_refl [simp]: "continues j j"
  by (simp add: continues_def)

lemma continues_trans: "continues i j \<Longrightarrow> continues j k \<Longrightarrow> continues i k"
  by (simp add: continues_def)

lemma sql_update_image: "x \<in> set (sql_update p f t) \<Longrightarrow> \<exists>y \<in> set t. x = (if p y then f y else y)"
  by (auto simp: sql_update_def)

lemma sql_update_row: "r \<in> set t \<Longrightarrow> (if p r then f r else r) \<in> set (sql_update p f t)"
  by (auto simp: sql_update_def)

lemma dedupe_index_okD:
  assumes "dedupe_index_ok t" and "i \<in> set t" and "j \<in> set t" and "is_active (job_status i)"
    and "is_active (job_status j)" and "dedupe_key i = Some k" and "dedupe_key j = Some k"
    and "job_queue i = job_queue j" and "job_task i = job_task j"
  shows "job_id i = job_id j"
  using assms unfolding dedupe_index_ok_def by (metis option.distinct(1))

lemma dedupe_index_okI:
  assumes "\<And>i j k. i \<in> set t \<Longrightarrow> j \<in> set t \<Longrightarrow> is_active (job_status i) \<Longrightarrow> is_active (job_status j)
    \<Longrightarrow> dedupe_key i = Some k \<Longrightarrow> dedupe_key j = Some k \<Longrightarrow> job_queue i = job_queue j
    \<Longrightarrow> job_task i = job_task j \<Longrightarrow> job_id i = job_id j"
  shows "dedupe_index_ok t"
  unfolding dedupe_index_ok_def
proof (intro ballI impI)
  fix i j
  assume mem: "i \<in> set t" "j \<in> set t" and *: "is_active (job_status i) \<and> is_active (job_status j)
    \<and> dedupe_key i \<noteq> None \<and> dedupe_key i = dedupe_key j \<and> job_queue i = job_queue j \<and> job_task i = job_task j"
  then obtain k where k: "dedupe_key i = Some k" by blast
  show "job_id i = job_id j"
    by (rule assms [OF mem]) (use * k in \<open>elim conjE, simp\<close>)+
qed

lemma lifecycle_update_index:
  assumes lc: "lifecycle_update p f" and ok: "dedupe_index_ok t"
  shows "dedupe_index_ok (sql_update p f t)"
proof (rule dedupe_index_okI)
  have row: "\<exists>i0 \<in> set t. continues i0 i \<and> (is_active (job_status i) \<longrightarrow> is_active (job_status i0))"
    if "i \<in> set (sql_update p f t)" for i
  proof -
    from sql_update_image [OF that] obtain i0
      where "i0 \<in> set t" and i: "i = (if p i0 then f i0 else i0)" by (elim bexE)
    moreover have "continues i0 i \<and> (is_active (job_status i) \<longrightarrow> is_active (job_status i0))"
      using lc i by (cases "p i0") (simp_all add: lifecycle_update_def)
    ultimately show ?thesis by blast
  qed
  fix i j k
  assume mem: "i \<in> set (sql_update p f t)" "j \<in> set (sql_update p f t)"
    and *: "is_active (job_status i)" "is_active (job_status j)" "dedupe_key i = Some k"
      "dedupe_key j = Some k" "job_queue i = job_queue j" "job_task i = job_task j"
  from row [OF mem(1)] * obtain i0 where i0: "i0 \<in> set t" "continues i0 i" "is_active (job_status i0)" by blast
  from row [OF mem(2)] * obtain j0 where j0: "j0 \<in> set t" "continues j0 j" "is_active (job_status j0)" by blast
  have "job_id i0 = job_id j0"
    by (rule dedupe_index_okD [OF ok i0(1) j0(1) i0(3) j0(3), where k = k])
      (use * i0(2) j0(2) in \<open>simp_all add: continues_def\<close>)
  with i0(2) j0(2) show "job_id i = job_id j" by (simp add: continues_def)
qed

lemma lifecycle_update_keys:
  "lifecycle_update p f \<Longrightarrow> map job_id (sql_update p f t) = map job_id t"
  by (intro sql_update_keys) (simp add: lifecycle_update_def continues_def)

lemma lifecycle_update_inv:
  assumes "lifecycle_update p f" and "jobs_inv t"
  shows "jobs_inv (sql_update p f t)"
proof -
  have "\<forall>j \<in> set (sql_update p f t). job_ok j"
    using assms by (auto simp: jobs_inv_def lifecycle_update_def set_sql_update)
  with assms lifecycle_update_index lifecycle_update_keys show ?thesis by (simp add: jobs_inv_def)
qed

named_theorems lifecycle

lemma lc_requeue_stale [lifecycle]: "lifecycle_update (stale c) (requeue now m)"
  by (auto simp: lifecycle_update_def continues_def stale_def requeue_def job_ok_def is_active_def)

lemma lc_requeue_startup [lifecycle]: "lifecycle_update (startup_lock qs pat) (requeue now m)"
  by (auto simp: lifecycle_update_def continues_def startup_lock_def requeue_def job_ok_def is_active_def)

lemma lc_refresh [lifecycle]:
  "lifecycle_update (owned_by w i) (\<lambda>j. j\<lparr>job_locked_at := Some now\<rparr>)"
  by (auto simp: lifecycle_update_def continues_def owned_by_def job_ok_def is_active_def)

lemma lc_succeeded [lifecycle]:
  "lifecycle_update (owned_by w i)
     (\<lambda>j. j\<lparr>job_status := Succeeded, finished_at := Some now, job_locked_at := None, locked_by := None\<rparr>)"
  by (auto simp: lifecycle_update_def continues_def owned_by_def job_ok_def is_active_def)

lemma lc_record_error [lifecycle]: "lifecycle_update (owned_by w i) (record_error mb now err tr fresh)"
  by (auto simp: lifecycle_update_def continues_def owned_by_def record_error_def job_ok_def is_active_def Let_def)

lemma lc_force [lifecycle]:
  "lifecycle_update (owned_by w i)
     (\<lambda>j. j\<lparr>job_status := Failed, job_locked_at := None, locked_by := None, finished_at := Some now\<rparr>)"
  by (auto simp: lifecycle_update_def continues_def owned_by_def job_ok_def is_active_def)

lemma lc_take_lock [lifecycle]:
  "lifecycle_update (\<lambda>j. job_id j = i \<and> job_status j = Queued) (take_lock now w)"
  by (auto simp: lifecycle_update_def continues_def take_lock_def job_ok_def is_active_def)

text \<open>What an operation of the queue keeps of a well-formed table; finished rows stay as they are.\<close>

definition keeps :: "durable_job list \<Rightarrow> durable_job list \<Rightarrow> bool" where
  "keeps t t' \<longleftrightarrow>
     (jobs_inv t \<longrightarrow> jobs_inv t' \<and> map job_id t' = map job_id t
        \<and> (\<forall>j \<in> set t. \<exists>j' \<in> set t'. continues j j' \<and> (\<not> is_active (job_status j) \<longrightarrow> j' = j)))"

lemma keeps_refl [simp]: "keeps t t"
  by (force simp: keeps_def)

lemma keeps_trans:
  assumes "keeps t t'" and "keeps t' t''"
  shows "keeps t t''"
  unfolding keeps_def
proof (intro impI conjI ballI)
  assume inv: "jobs_inv t"
  with assms show "jobs_inv t''" and "map job_id t'' = map job_id t" by (simp_all add: keeps_def)
  fix j
  assume "j \<in> set t"
  with inv assms(1) obtain j' where j': "j' \<in> set t'" "continues j j'" "\<not> is_active (job_status j) \<longrightarrow> j' = j"
    unfolding keeps_def by blast
  moreover from inv assms have "jobs_inv t'" by (simp add: keeps_def)
  ultimately obtain j'' where "j'' \<in> set t''" "continues j' j''" "\<not> is_active (job_status j') \<longrightarrow> j'' = j'"
    using assms(2) unfolding keeps_def by blast
  with j' show "\<exists>j'' \<in> set t''. continues j j'' \<and> (\<not> is_active (job_status j) \<longrightarrow> j'' = j)"
    by (intro bexI [of _ j'']) (auto intro: continues_trans)
qed

lemma keeps_lifecycle:
  assumes "lifecycle_update p f"
  shows "keeps t (sql_update p f t)"
proof -
  have "\<exists>j' \<in> set (sql_update p f t). continues j j' \<and> (\<not> is_active (job_status j) \<longrightarrow> j' = j)"
    if "j \<in> set t" for j
    using assms sql_update_row [OF that, of p f]
    by (intro bexI [of _ "if p j then f j else j"]) (auto simp: lifecycle_update_def)
  with assms show ?thesis by (simp add: keeps_def lifecycle_update_inv lifecycle_update_keys)
qed

lemma keeps_recover_stale: "keeps t (snd (recover_stale_locks ttl now f t))"
  by (simp add: recover_stale_locks_def keeps_lifecycle lifecycle)

lemma keeps_recover_startup: "keeps t (snd (recover_startup_locks_for_worker w h qs now f t))"
  by (simp add: recover_startup_locks_for_worker_def Let_def keeps_lifecycle lifecycle)

lemma keeps_refresh: "keeps t (snd (refresh_job_lock w i now f t))"
  by (simp add: refresh_job_lock_def keeps_lifecycle lifecycle)

text \<open>A recording that nobody interferes with is the statement that is guarded by the owner.\<close>

lemma owned_row_Some:
  assumes "owned_row w i t = Some fresh"
  shows "fresh \<in> set t \<and> owned_by w i fresh"
  using assms by (auto simp: owned_row_def owned_by_def find_Some_iff split: option.splits if_splits)

lemma owned_row_None:
  assumes "distinct (map job_id t)" and "owned_row w i t = None" and "j \<in> set t"
  shows "\<not> owned_by w i j"
proof
  assume o: "owned_by w i j"
  then obtain fresh where f: "find (\<lambda>j. job_id j = i) t = Some fresh"
    using assms(3) by (cases "find (\<lambda>j. job_id j = i) t") (auto simp: find_None_iff owned_by_def)
  then have "fresh \<in> set t" "job_id fresh = i" by (auto simp: find_Some_iff)
  with o assms(3) have "fresh = j" by (intro same_key_same_row [OF assms(1)]) (simp_all add: owned_by_def)
  with o f assms(2) show False by (simp add: owned_row_def owned_by_def)
qed

lemma owned_row_eq:
  assumes "distinct (map job_id t)" and "j \<in> set t" and "owned_by w i j"
  shows "owned_row w i t = Some j"
proof (cases "owned_row w i t")
  case None
  with owned_row_None [OF assms(1) None assms(2)] assms(3) show ?thesis by blast
next
  case (Some fresh)
  with owned_row_Some [OF Some] assms have "fresh = j"
    by (intro same_key_same_row [OF assms(1)]) (simp_all add: owned_by_def)
  with Some show ?thesis by simp
qed

lemma write_owned:
  assumes "jobs_inv t" and "j \<in> set t" and "owned_by w i j" and "lifecycle_update (owned_by w i) f"
  shows "write_job i f t = (False, sql_update (owned_by w i) f t)"
proof -
  have d: "distinct (map job_id t)" using assms(1) by (simp add: jobs_inv_def)
  have "job_id x = i \<longleftrightarrow> owned_by w i x" if "x \<in> set t" for x
    using same_key_same_row [OF d assms(2) that] assms(3) by (auto simp: owned_by_def)
  then have "sql_update (\<lambda>j. job_id j = i) f t = sql_update (owned_by w i) f t" by (auto simp: sql_update_def)
  moreover have "dedupe_index_ok (sql_update (owned_by w i) f t)"
    using lifecycle_update_index [OF assms(4)] assms(1) by (simp add: jobs_inv_def)
  moreover have "list_ex (\<lambda>j. job_id j = i) t" using assms(2,3) by (auto simp: list_ex_iff owned_by_def)
  ultimately show ?thesis by (simp add: write_job_def)
qed

lemma prompt_write:
  assumes "jobs_inv t" and "\<And>fresh. lifecycle_update (owned_by w i) (f fresh)"
  shows "keeps t (snd (case owned_row w i t of None \<Rightarrow> (False, t) | Some fresh \<Rightarrow> write_job i (f fresh) t))"
proof (cases "owned_row w i t")
  case (Some fresh)
  from owned_row_Some [OF Some] have "write_job i (f fresh) t = (False, sql_update (owned_by w i) (f fresh) t)"
    by (intro write_owned [OF assms(1), of fresh]) (simp_all add: assms(2))
  with Some show ?thesis by (simp add: keeps_lifecycle [OF assms(2)])
qed simp

lemma keeps_mark_succeeded: "keeps t (snd (mark_succeeded w ref now f (\<lambda>t. t) t))"
proof (cases "jobs_inv t")
  case True
  then show ?thesis
    using prompt_write [OF True, of w _ "\<lambda>fresh j. j\<lparr>job_status := Succeeded, finished_at := Some now, job_locked_at := None, locked_by := None\<rparr>"]
    by (simp add: mark_succeeded_def lifecycle split: option.split)
qed (simp add: keeps_def)

lemma keeps_mark_failed: "keeps t (snd (mark_failed w mb ref err tr now f (\<lambda>t. t) t))"
proof (cases "jobs_inv t")
  case True
  then show ?thesis
    using prompt_write [OF True, of w _ "record_error mb now err tr"] by (simp add: mark_failed_def lifecycle split: option.split)
qed (simp add: keeps_def)

lemma keeps_force: "keeps t (force_failed w i now f t)"
  by (simp add: force_failed_def keeps_lifecycle lifecycle)

lemma first_claimable_Some:
  "first_claimable now held qs t = Some j \<Longrightarrow> \<exists>q \<in> set qs. j \<in> set t \<and> claimable now held q j"
proof (induction qs)
  case Nil
  then show ?case by simp
next
  case (Cons q qs)
  let ?l = "sort_key (\<lambda>j. (run_at j, job_id j)) (filter (claimable now held q) t)"
  show ?case
  proof (cases ?l)
    case Nil
    with Cons show ?thesis by simp
  next
    case (Cons x xs)
    have "x \<in> set ?l" by (simp only: Cons list.set_intros)
    then have "x \<in> set t" "claimable now held q x" by simp_all
    with Cons.prems Cons show ?thesis by auto
  qed
qed

lemma take_lock_update:
  assumes "distinct (map job_id t)" and "x \<in> set t" and "job_status x = Queued"
  shows "sql_update (\<lambda>j. job_id j = job_id x) (take_lock now w) t
    = sql_update (\<lambda>j. job_id j = job_id x \<and> job_status j = Queued) (take_lock now w) t"
proof -
  have "job_status j = Queued" if "j \<in> set t" "job_id j = job_id x" for j
    using same_key_same_row [OF assms(1,2) that] assms(3) by simp
  then show ?thesis by (auto simp: sql_update_def)
qed


lemma keeps_claim_one: "keeps t (snd (claim_one ttl w qs e t))"
proof -
  let ?qs = "filter (\<lambda>q. q \<noteq> []) qs"
  let ?t1 = "snd (recover_stale_locks ttl (recovery_now e) (recovery_fails e) t)"
  have t1: "keeps t ?t1" by (rule keeps_recover_stale)
  have "keeps ?t1 (sql_update (\<lambda>j. job_id j = job_id x) (take_lock (claim_now e) w) ?t1)"
    if "first_claimable (claim_now e) (held_ids e) ?qs ?t1 = Some x" for x
  proof (cases "jobs_inv ?t1")
    case False
    then show ?thesis by (simp add: keeps_def)
  next
    case True
    from first_claimable_Some [OF that] have x: "x \<in> set ?t1" "job_status x = Queued"
      by (auto simp: claimable_def)
    with True show ?thesis by (simp add: jobs_inv_def take_lock_update keeps_lifecycle lifecycle)
  qed
  with t1 show ?thesis
    by (auto simp: claim_one_def Let_def split: option.splits intro: keeps_trans)
qed

section \<open>Producers: deduplication\<close>

definition dq_keeps :: "durable_db \<Rightarrow> durable_db \<Rightarrow> bool" where
  "dq_keeps db db' \<longleftrightarrow>
     (dq_inv db \<longrightarrow> dq_inv db'
        \<and> (\<forall>j \<in> set (jobs db). \<exists>j' \<in> set (jobs db'). continues j j' \<and> (\<not> is_active (job_status j) \<longrightarrow> j' = j)))"

lemma dq_keeps_refl [simp]: "dq_keeps db db"
  by (force simp: dq_keeps_def)

lemma dq_keeps_trans:
  assumes "dq_keeps a b" and "dq_keeps b c"
  shows "dq_keeps a c"
  unfolding dq_keeps_def
proof (intro impI conjI ballI)
  assume inv: "dq_inv a"
  with assms show "dq_inv c" by (simp add: dq_keeps_def)
  from inv assms(1) have b: "dq_inv b" by (simp add: dq_keeps_def)
  fix j
  assume "j \<in> set (jobs a)"
  with inv assms(1) obtain j' where j': "j' \<in> set (jobs b)" "continues j j'" "\<not> is_active (job_status j) \<longrightarrow> j' = j"
    unfolding dq_keeps_def by blast
  with b assms(2) obtain j'' where "j'' \<in> set (jobs c)" "continues j' j''" "\<not> is_active (job_status j') \<longrightarrow> j'' = j'"
    unfolding dq_keeps_def by blast
  with j' show "\<exists>j'' \<in> set (jobs c). continues j j'' \<and> (\<not> is_active (job_status j) \<longrightarrow> j'' = j)"
    by (intro bexI [of _ j'']) (auto intro: continues_trans)
qed

lemma dq_keeps_table:
  assumes "keeps (jobs db) t'"
  shows "dq_keeps db (db\<lparr>jobs := t'\<rparr>)"
  unfolding dq_keeps_def
proof (intro impI conjI)
  assume inv: "dq_inv db"
  then have "jobs_inv (jobs db)" by (simp add: dq_inv_def)
  with assms have "jobs_inv t'" and ids: "map job_id t' = map job_id (jobs db)"
    and rows: "\<forall>j \<in> set (jobs db). \<exists>j' \<in> set t'. continues j j' \<and> (\<not> is_active (job_status j) \<longrightarrow> j' = j)"
    by (simp_all add: keeps_def)
  moreover have "\<forall>j \<in> set t'. job_id j < next_job_id db"
  proof
    fix j
    assume "j \<in> set t'"
    then have "job_id j \<in> set (map job_id t')" by simp
    then have "job_id j \<in> set (map job_id (jobs db))" by (simp only: ids)
    with inv show "job_id j < next_job_id db" by (auto simp: dq_inv_def)
  qed
  ultimately show "dq_inv (db\<lparr>jobs := t'\<rparr>)" by (simp add: dq_inv_def)
  from rows show "\<forall>j \<in> set (jobs db). \<exists>j' \<in> set (jobs (db\<lparr>jobs := t'\<rparr>)).
      continues j j' \<and> (\<not> is_active (job_status j) \<longrightarrow> j' = j)" by simp
qed

lemma new_job_sel [simp]:
  "job_id (new_job a now i) = i" "job_queue (new_job a now i) = spec_queue a"
  "job_task (new_job a now i) = spec_task a" "job_status (new_job a now i) = Queued"
  "dedupe_key (new_job a now i) = clean_optional (spec_dedupe_key a)"
  "job_attempts (new_job a now i) = 0" "job_max_attempts (new_job a now i) = spec_max_attempts a"
  by (simp_all add: new_job_def)

lemma new_job_ok: "job_ok (new_job a now i)"
  by (simp add: job_ok_def new_job_def clean_payload_version_def)

lemma dq_keeps_insert:
  assumes "dedupe_index_ok (jobs db @ [new_job a now (next_job_id db)])"
  shows "dq_keeps db (db\<lparr>jobs := jobs db @ [new_job a now (next_job_id db)], next_job_id := next_job_id db + 1\<rparr>)"
proof -
  have "dq_inv (db\<lparr>jobs := jobs db @ [new_job a now (next_job_id db)], next_job_id := next_job_id db + 1\<rparr>)"
    if "dq_inv db"
  proof -
    from that have lt: "\<forall>j \<in> set (jobs db). job_id j < next_job_id db" and inv: "jobs_inv (jobs db)"
      by (simp_all add: dq_inv_def)
    from lt have "next_job_id db \<notin> job_id ` set (jobs db)" by auto
    with inv assms have "jobs_inv (jobs db @ [new_job a now (next_job_id db)])"
      by (simp add: jobs_inv_def new_job_ok)
    moreover from lt have "\<forall>j \<in> set (jobs db). job_id j < next_job_id db + 1" by force
    ultimately show ?thesis by (simp add: dq_inv_def)
  qed
  then show ?thesis by (force simp: dq_keeps_def)
qed

lemma dq_keeps_enqueue: "dq_keeps db (snd (enqueue a now f seen db))"
  by (simp add: enqueue_def Let_def dq_keeps_insert split: option.splits)

lemma dq_keeps_enqueue_all: "dq_keeps db (enqueue_all fails now specs db)"
  by (induction specs arbitrary: db) (auto intro: dq_keeps_trans dq_keeps_enqueue)

lemma find_existing_Some:
  assumes "find_existing_deduped_job q task key t = Some j"
  shows "\<exists>k. key = Some k \<and> k \<noteq> [] \<and> j \<in> set t \<and> dedupe_match q task k j"
proof -
  from assms obtain k js where k: "key = Some k" "k \<noteq> []"
    and l: "sort_key job_id (filter (dedupe_match q task k) t) = j # js"
    by (auto simp: find_existing_deduped_job_def split: option.splits if_splits list.splits)
  have "j \<in> set (sort_key job_id (filter (dedupe_match q task k) t))" by (simp only: l list.set_intros)
  with k show ?thesis by simp
qed

lemma find_existing_None:
  assumes "find_existing_deduped_job q task (Some k) t = None" and "k \<noteq> []" and "j \<in> set t"
  shows "\<not> dedupe_match q task k j"
  using assms by (auto simp: find_existing_deduped_job_def filter_empty_conv split: list.splits)

lemma clean_optional_not_empty: "clean_optional v = Some k \<Longrightarrow> k \<noteq> []"
  by (auto simp: clean_optional_def)

text \<open>The index refuses the new row exactly when an active row has its key.\<close>

lemma dedupe_index_append:
  assumes ok: "dedupe_index_ok t" and fresh: "i \<notin> job_id ` set t"
  shows "dedupe_index_ok (t @ [new_job a now i]) \<longleftrightarrow>
    (\<forall>k. clean_optional (spec_dedupe_key a) = Some k \<longrightarrow> \<not> (\<exists>j \<in> set t. dedupe_match (spec_queue a) (spec_task a) k j))"
    (is "?L \<longleftrightarrow> ?R")
proof
  assume L: ?L
  show ?R
  proof (intro allI impI notI)
    fix k
    assume k: "clean_optional (spec_dedupe_key a) = Some k"
      and "\<exists>j \<in> set t. dedupe_match (spec_queue a) (spec_task a) k j"
    then obtain j where j: "j \<in> set t" "dedupe_match (spec_queue a) (spec_task a) k j" by blast
    have "job_id j = job_id (new_job a now i)"
      by (rule dedupe_index_okD [OF L, where k = k])
        (use j k in \<open>simp_all add: dedupe_match_def is_active_def\<close>)
    with j fresh show False by force
  qed
next
  assume R: ?R
  have no: "\<not> dedupe_match (spec_queue a) (spec_task a) k j"
    if "clean_optional (spec_dedupe_key a) = Some k" "j \<in> set t" for k j
    using R that by blast
  show ?L
  proof (rule dedupe_index_okI)
    fix x y k
    assume mem: "x \<in> set (t @ [new_job a now i])" "y \<in> set (t @ [new_job a now i])"
      and act: "is_active (job_status x)" "is_active (job_status y)"
      and keys: "dedupe_key x = Some k" "dedupe_key y = Some k"
      and eqs: "job_queue x = job_queue y" "job_task x = job_task y"
    consider "x \<in> set t" "y \<in> set t" | "x \<in> set t" "y = new_job a now i"
      | "x = new_job a now i" "y \<in> set t" | "x = new_job a now i" "y = new_job a now i"
      using mem by auto
    then show "job_id x = job_id y"
    proof cases
      case 1
      show ?thesis by (rule dedupe_index_okD [OF ok 1 act keys eqs])
    next
      case 2
      with no [of k x] act keys eqs show ?thesis by (simp add: dedupe_match_def)
    next
      case 3
      with no [of k y] act keys eqs show ?thesis by (simp add: dedupe_match_def)
    next
      case 4
      then show ?thesis by simp
    qed
  qed
qed

lemma dedupe_match_unique:
  assumes "jobs_inv t" and "i \<in> set t" and "j \<in> set t" and "dedupe_match q task k i" and "dedupe_match q task k j"
  shows "i = j"
proof -
  have "job_id i = job_id j"
    by (rule dedupe_index_okD [where t = t and k = k])
      (use assms in \<open>simp_all add: jobs_inv_def dedupe_match_def\<close>)
  with assms show ?thesis by (intro same_key_same_row [where key = job_id]) (simp_all add: jobs_inv_def)
qed

text \<open>The insert statement, after a look-up that found nothing.\<close>

lemma enqueue_insert:
  assumes inv: "dq_inv db" and k: "clean_optional (spec_dedupe_key a) = Some k"
    and miss: "find_existing_deduped_job (spec_queue a) (spec_task a) (Some k) seen = None"
  shows "enqueue a now False seen db =
    (case find_existing_deduped_job (spec_queue a) (spec_task a) (Some k) (jobs db) of
       Some j \<Rightarrow> (Existing j, db)
     | None \<Rightarrow> (Created (new_job a now (next_job_id db)),
         db\<lparr>jobs := jobs db @ [new_job a now (next_job_id db)], next_job_id := next_job_id db + 1\<rparr>))"
proof -
  from inv have ok: "dedupe_index_ok (jobs db)" and fresh: "next_job_id db \<notin> job_id ` set (jobs db)"
    by (auto simp: dq_inv_def jobs_inv_def)
  have k0: "k \<noteq> []" using k by (rule clean_optional_not_empty)
  show ?thesis
  proof (cases "find_existing_deduped_job (spec_queue a) (spec_task a) (Some k) (jobs db)")
    case None
    with k0 have "\<not> (\<exists>j \<in> set (jobs db). dedupe_match (spec_queue a) (spec_task a) k j)"
      using find_existing_None by blast
    with dedupe_index_append [OF ok fresh] k None miss show ?thesis by (simp add: enqueue_def Let_def)
  next
    case (Some j)
    with find_existing_Some [OF Some] have "\<exists>j \<in> set (jobs db). dedupe_match (spec_queue a) (spec_task a) k j"
      by auto
    with dedupe_index_append [OF ok fresh] k Some miss show ?thesis by (auto simp: enqueue_def Let_def)
  qed
qed

text \<open>Deduplication holds under races: after a look-up that found nothing, an enqueue with a
  key never raises the unique-index error, whatever other producers inserted in between, and
  afterwards exactly one active job carries the key, the one it returns.\<close>

theorem dq_enqueue_deduplicates:
  assumes "dq_inv db" and "clean_optional (spec_dedupe_key a) = Some k"
    and "find_existing_deduped_job (spec_queue a) (spec_task a) (Some k) seen = None"
    and "enqueue a now False seen db = (r, db')"
  shows "\<exists>j. r \<in> {Existing j, Created j} \<and> j \<in> set (jobs db')
    \<and> (\<forall>x \<in> set (jobs db'). dedupe_match (spec_queue a) (spec_task a) k x \<longleftrightarrow> x = j)"
proof -
  have inv': "jobs_inv (jobs db')"
    using dq_keeps_enqueue [of db a now False seen] assms(1,4) by (simp add: dq_keeps_def dq_inv_def)
  have "\<exists>j. r \<in> {Existing j, Created j} \<and> j \<in> set (jobs db') \<and> dedupe_match (spec_queue a) (spec_task a) k j"
  proof (cases "find_existing_deduped_job (spec_queue a) (spec_task a) (Some k) (jobs db)")
    case None
    with enqueue_insert [OF assms(1-3)] assms(2,4) show ?thesis
      by (auto simp: dedupe_match_def is_active_def)
  next
    case (Some j)
    with enqueue_insert [OF assms(1-3)] assms(4) find_existing_Some [OF Some] show ?thesis by auto
  qed
  with dedupe_match_unique [OF inv'] show ?thesis by blast
qed

definition spec_example :: enqueue_spec where
  "spec_example = \<lparr>spec_task = ''sync'', spec_payload = [], spec_queue = ''default'', spec_run_at = None,
     spec_max_attempts = 2, spec_dedupe_key = Some ''k'', spec_payload_version = 1,
     spec_source_event_id = None, spec_provider_request_id = None, spec_idempotency_scope = None\<rparr>"

definition db_empty :: durable_db where
  "db_empty = \<lparr>jobs = [], next_job_id = 1\<rparr>"

lemma dq_inv_empty: "dq_inv db_empty"
  by (simp add: dq_inv_def jobs_inv_def dedupe_index_ok_def db_empty_def)

definition db_example :: durable_db where
  "db_example = \<lparr>jobs = [new_job spec_example 0 1], next_job_id = 2\<rparr>"

lemma clean_example: "clean_optional (spec_dedupe_key spec_example) = Some ''k''"
  by (simp add: clean_optional_def spec_example_def strip_def strip_chars_def lstrip_chars_def rstrip_chars_def is_space_def)

lemma dq_inv_example: "dq_inv db_example"
  by (simp add: dq_inv_def jobs_inv_def dedupe_index_ok_def db_example_def new_job_ok)

theorem dq_enqueue_deduplicates_witness:
  "\<exists>j. fst (enqueue spec_example 7 False [] db_example) \<in> {Existing j, Created j}
     \<and> j \<in> set (jobs (snd (enqueue spec_example 7 False [] db_example)))
     \<and> (\<forall>x \<in> set (jobs (snd (enqueue spec_example 7 False [] db_example))).
          dedupe_match ''default'' ''sync'' ''k'' x \<longleftrightarrow> x = j)"
  using dq_enqueue_deduplicates [OF dq_inv_example clean_example, of "[]" 7, OF _ surjective_pairing]
  by (simp add: find_existing_deduped_job_def spec_example_def)

section \<open>Every interleaving\<close>

text \<open>One statement of any participant. \<open>Operator\<close> marks the two administrative actions. A worker records an outcome
  from what it has just read, or, as \<open>Late\<close>, from any table \<open>t0\<close> that it read earlier, with whatever the others made
  of it since.\<close>

datatype dq_actor = Producer | Worker string | Late string | Operator

inductive dq_step :: "dq_actor \<Rightarrow> durable_db \<Rightarrow> durable_db \<Rightarrow> bool" where
  step_enqueue: "dq_step Producer db (snd (enqueue a now f seen db))"
| step_drain: "dq_step Producer db (snd (drain_after_commit_enqueues nested fails now (pending, db)))"
| step_recover: "dq_step (Worker w) db (db\<lparr>jobs := snd (recover_stale_locks ttl now f (jobs db))\<rparr>)"
| step_startup: "dq_step (Worker w) db (db\<lparr>jobs := snd (recover_startup_locks_for_worker w h qs now f (jobs db))\<rparr>)"
| step_claim: "dq_step (Worker w) db (db\<lparr>jobs := snd (claim_one ttl w qs e (jobs db))\<rparr>)"
| step_refresh: "dq_step (Worker w) db (db\<lparr>jobs := snd (refresh_job_lock w i now f (jobs db))\<rparr>)"
| step_succeeded: "dq_step (Worker w) db (db\<lparr>jobs := snd (mark_succeeded w ref now f (\<lambda>t. t) (jobs db))\<rparr>)"
| step_failed: "dq_step (Worker w) db (db\<lparr>jobs := snd (mark_failed w mb ref err tr now f (\<lambda>t. t) (jobs db))\<rparr>)"
| step_late_succeeded: "others t0 = jobs db \<Longrightarrow> dq_step (Late w) db (db\<lparr>jobs := snd (mark_succeeded w ref now f others t0)\<rparr>)"
| step_late_failed: "others t0 = jobs db \<Longrightarrow> dq_step (Late w) db (db\<lparr>jobs := snd (mark_failed w mb ref err tr now f others t0)\<rparr>)"
| step_force: "dq_step (Worker w) db (db\<lparr>jobs := force_failed w i now f (jobs db)\<rparr>)"
| step_retry: "dq_step Operator db (db\<lparr>jobs := snd (retry_job i now (jobs db))\<rparr>)"
| step_cancel: "dq_step Operator db (db\<lparr>jobs := snd (cancel_job i now (jobs db))\<rparr>)"

inductive dq_run :: "dq_actor set \<Rightarrow> durable_db \<Rightarrow> durable_db \<Rightarrow> bool" for A where
  run_start: "dq_run A db db"
| run_step: "dq_run A db db' \<Longrightarrow> dq_step x db' db'' \<Longrightarrow> x \<in> A \<Longrightarrow> dq_run A db db''"

lemma dq_step_keeps: "dq_step x db db' \<Longrightarrow> x \<noteq> Operator \<Longrightarrow> \<forall>w. x \<noteq> Late w \<Longrightarrow> dq_keeps db db'"
  by (induction rule: dq_step.induct)
    (simp_all add: dq_keeps_enqueue drain_after_commit_enqueues_def dq_keeps_enqueue_all dq_keeps_table
      keeps_recover_stale keeps_recover_startup keeps_claim_one keeps_refresh keeps_mark_succeeded
      keeps_mark_failed keeps_force)

text \<open>The operator's statements and late recordings pass the unique index and may touch finished rows.\<close>

lemma set_job_inv:
  assumes ok: "\<And>j. job_ok j \<Longrightarrow> job_ok (f j)" and cont: "\<And>j. continues j (f j)" and inv: "dq_inv db"
  shows "dq_inv (db\<lparr>jobs := snd (set_job i f (jobs db))\<rparr>)
    \<and> (\<forall>j \<in> set (jobs db). \<exists>j' \<in> set (snd (set_job i f (jobs db))). continues j j')"
proof (cases "(\<exists>j \<in> set (jobs db). job_id j = i) \<and> dedupe_index_ok (sql_update (\<lambda>j. job_id j = i) f (jobs db))")
  case True
  let ?t = "sql_update (\<lambda>j. job_id j = i) f (jobs db)"
  from True have eq: "snd (set_job i f (jobs db)) = ?t" by (simp add: set_job_def Let_def)
  have ids: "map job_id ?t = map job_id (jobs db)"
    using cont by (intro sql_update_keys) (simp add: continues_def)
  have "job_ok j \<and> job_id j < next_job_id db" if "j \<in> set ?t" for j
    using sql_update_image [OF that] inv ok cont
    by (auto simp: dq_inv_def jobs_inv_def continues_def)
  with inv True ids have "dq_inv (db\<lparr>jobs := ?t\<rparr>)" by (simp add: dq_inv_def jobs_inv_def)
  moreover have "\<exists>j' \<in> set ?t. continues j j'" if "j \<in> set (jobs db)" for j
    using sql_update_row [OF that, of "\<lambda>j. job_id j = i" f] cont
    by (cases "job_id j = i") (auto intro: bexI [of _ j])
  ultimately show ?thesis by (simp add: eq)
next
  case False
  then have "snd (set_job i f (jobs db)) = jobs db" by (auto simp: set_job_def Let_def)
  with inv show ?thesis by (auto intro: continues_refl)
qed

lemma write_job_table: "snd (write_job i f t) = snd (set_job i f t)"
  by (auto simp: write_job_def set_job_def Let_def list_ex_iff)

lemma late_succeeded_table:
  "snd (mark_succeeded w ref now f others t0) = others t0
   \<or> (\<exists>i. snd (mark_succeeded w ref now f others t0) =
        snd (set_job i (\<lambda>j. j\<lparr>job_status := Succeeded, finished_at := Some now, job_locked_at := None, locked_by := None\<rparr>) (others t0)))"
  by (auto simp: mark_succeeded_def write_job_table split: option.split)

lemma late_failed_table:
  "snd (mark_failed w mb ref err tr now f others t0) = others t0
   \<or> (\<exists>i fresh. snd (mark_failed w mb ref err tr now f others t0) = snd (set_job i (record_error mb now err tr fresh) (others t0)))"
  by (auto simp: mark_failed_def write_job_table split: option.split)

lemma dq_step_inv:
  assumes "dq_step x db db'" and "dq_inv db"
  shows "dq_inv db' \<and> (\<forall>j \<in> set (jobs db). \<exists>j' \<in> set (jobs db'). continues j j')"
proof (cases "x = Operator \<or> (\<exists>w. x = Late w)")
  case False
  with dq_step_keeps [OF assms(1)] assms(2) show ?thesis unfolding dq_keeps_def by blast
next
  case True
  have same: ?thesis if "db' = db\<lparr>jobs := jobs db\<rparr>" using that assms(2) by (auto intro: continues_refl)
  from assms(1) True show ?thesis
  proof cases
    case (step_retry i now)
    show ?thesis unfolding step_retry retry_job_def
      using set_job_inv [OF _ _ assms(2)] by (simp add: job_ok_def continues_def)
  next
    case (step_cancel i now)
    show ?thesis unfolding step_cancel cancel_job_def
      using set_job_inv [OF _ _ assms(2)] by (simp add: job_ok_def continues_def)
  next
    case (step_late_succeeded others t0 w ref now f)
    from late_succeeded_table [of w ref now f others t0] show ?thesis
    proof (elim disjE exE)
      fix i
      assume "snd (mark_succeeded w ref now f others t0) =
        snd (set_job i (\<lambda>j. j\<lparr>job_status := Succeeded, finished_at := Some now, job_locked_at := None, locked_by := None\<rparr>) (others t0))"
      then show ?thesis unfolding step_late_succeeded
        using set_job_inv [OF _ _ assms(2)] by (simp add: job_ok_def continues_def)
    qed (use same step_late_succeeded in simp)
  next
    case (step_late_failed others t0 w mb ref err tr now f)
    from late_failed_table [of w mb ref err tr now f others t0] show ?thesis
    proof (elim disjE exE)
      fix i fresh
      assume w: "snd (mark_failed w mb ref err tr now f others t0) = snd (set_job i (record_error mb now err tr fresh) (others t0))"
      have "job_ok j \<Longrightarrow> job_ok (record_error mb now err tr fresh j)" "continues j (record_error mb now err tr fresh j)" for j
        by (auto simp: record_error_def Let_def job_ok_def continues_def)
      from set_job_inv [OF this assms(2)] show ?thesis unfolding step_late_failed w by simp
    qed (use same step_late_failed in simp)
  qed simp_all
qed


text \<open>A worker claims the job, and another one, which had read it earlier as its own, ends it.\<close>

definition claimed_example :: durable_db where
  "claimed_example = db_example\<lparr>jobs := snd (claim_one 600 ''h:1'' [''default'']
     \<lparr>claim_now = 5, recovery_now = 5, recovery_fails = False, claim_fails = False, held_ids = (\<lambda>_. False)\<rparr> (jobs db_example))\<rparr>"

definition ended_example :: durable_db where
  "ended_example = claimed_example\<lparr>jobs := snd (mark_succeeded ''h:9'' (RefId 1) 9 False (\<lambda>t. jobs claimed_example)
     [take_lock 1 ''h:9'' (new_job spec_example 0 1)])\<rparr>"

lemma run_example: "dq_run {Worker ''h:1'', Late ''h:9''} db_example ended_example"
proof -
  have "dq_run {Worker ''h:1'', Late ''h:9''} db_example claimed_example"
    unfolding claimed_example_def by (rule run_step [OF run_start step_claim]) simp
  then show ?thesis unfolding ended_example_def by (rule run_step [OF _ step_late_succeeded]) simp_all
qed


text \<open>A finished job (succeeded, failed or cancelled) stays exactly as it is in every interleaving of producers and
  of workers that record what they have just read; only an operator's retry or cancel touches it, or a recording that
  comes late.\<close>

theorem dq_finished_jobs_are_final:
  assumes "dq_run A db db'" and "dq_inv db" and "Operator \<notin> A" and "\<And>w. Late w \<notin> A"
    and "j \<in> set (jobs db)" and "\<not> is_active (job_status j)"
  shows "j \<in> set (jobs db')"
proof -
  have "dq_keeps db db'"
    using assms(1,3,4)
  proof (induction rule: dq_run.induct)
    case (run_step db db' x db'')
    moreover from run_step have "dq_keeps db' db''" by (metis dq_step_keeps)
    ultimately show ?case by (metis dq_keeps_trans)
  qed simp
  with assms(2,5,6) show ?thesis unfolding dq_keeps_def by blast
qed

definition job_done_example :: durable_job where
  "job_done_example = (new_job spec_example 0 1)\<lparr>job_status := Succeeded, finished_at := Some 3\<rparr>"

definition db_done_example :: durable_db where
  "db_done_example = \<lparr>jobs = [job_done_example], next_job_id = 2\<rparr>"

theorem dq_finished_jobs_are_final_witness:
  "job_done_example \<in> set (jobs (db_done_example\<lparr>jobs :=
     snd (claim_one 600 ''h:1'' [''default'']
       \<lparr>claim_now = 5, recovery_now = 5, recovery_fails = False, claim_fails = False, held_ids = (\<lambda>_. False)\<rparr>
       (jobs db_done_example))\<rparr>))"
proof (rule dq_finished_jobs_are_final [where A = "{Worker ''h:1''}" and db = db_done_example])
  show "dq_run {Worker ''h:1''} db_done_example (db_done_example\<lparr>jobs :=
     snd (claim_one 600 ''h:1'' [''default'']
       \<lparr>claim_now = 5, recovery_now = 5, recovery_fails = False, claim_fails = False, held_ids = (\<lambda>_. False)\<rparr>
       (jobs db_done_example))\<rparr>)"
    by (rule run_step [OF run_start step_claim]) simp
  show "dq_inv db_done_example"
    using new_job_ok [of spec_example 0 1]
    by (auto simp: db_done_example_def job_done_example_def dq_inv_def jobs_inv_def dedupe_index_ok_def job_ok_def)
qed (simp_all add: db_done_example_def job_done_example_def is_active_def)

section \<open>Claiming\<close>

lemma first_claimable_order:
  assumes "first_claimable now held qs t = Some x"
  shows "\<exists>qs1 q qs2. qs = qs1 @ q # qs2 \<and> claimable now held q x
    \<and> (\<forall>q' \<in> set qs1. \<forall>j \<in> set t. \<not> claimable now held q' j)
    \<and> (\<forall>j \<in> set t. claimable now held q j \<longrightarrow> (run_at x, job_id x) \<le> (run_at j, job_id j))"
  using assms
proof (induction qs)
  case Nil
  then show ?case by simp
next
  case (Cons q qs)
  let ?l = "sort_key (\<lambda>j. (run_at j, job_id j)) (filter (claimable now held q) t)"
  show ?case
  proof (cases ?l)
    case Nil
    then have none: "\<forall>j \<in> set t. \<not> claimable now held q j" by (simp add: filter_empty_conv)
    from Cons.prems Nil have "first_claimable now held qs t = Some x" by simp
    from Cons.IH [OF this] none show ?thesis by (metis append_Cons set_ConsD)
  next
    case (Cons y ys)
    with Cons.prems have y: "y = x" by simp
    have mem: "set (y # ys) = {j \<in> set t. claimable now held q j}"
      using arg_cong [OF Cons, of set] by (simp add: Int_def conj_commute)
    have "sorted (map (\<lambda>j. (run_at j, job_id j)) (y # ys))"
      using sorted_sort_key [of "\<lambda>j. (run_at j, job_id j)" "filter (claimable now held q) t"] by (simp only: Cons)
    then have least: "\<forall>j \<in> set (y # ys). (run_at y, job_id y) \<le> (run_at j, job_id j)" by auto
    have "\<forall>j \<in> set t. claimable now held q j \<longrightarrow> (run_at x, job_id x) \<le> (run_at j, job_id j)"
      using least mem y by blast
    moreover have "claimable now held q x" using mem y by auto
    ultimately show ?thesis by (intro exI [of _ "[]"] exI [of _ q] exI [of _ qs]) simp
  qed
qed

lemma first_claimable_None:
  "first_claimable now held qs t = None \<longleftrightarrow> (\<forall>q \<in> set qs. \<forall>j \<in> set t. \<not> claimable now held q j)"
  by (induction qs) (auto simp: filter_empty_conv split: list.splits)

text \<open>A claim takes a job exactly when one is due in a listed queue. The job it takes is in
  the first listed queue that has a due job and is the least of its due jobs by run time, then id;
  it becomes running under the worker's lock with one more attempt, the claim is its snapshot,
  and no other row changes after the stale-lock recovery.\<close>

theorem dq_claim_takes_the_first_due_job:
  assumes "distinct (map job_id t)" and "\<not> claim_fails e"
    and "t1 = snd (recover_stale_locks ttl (recovery_now e) (recovery_fails e) t)"
    and "queue_names = filter (\<lambda>q. q \<noteq> []) qs"
    and "claim_one ttl w qs e t = (r, t')"
  shows "case r of
      Inl err \<Rightarrow> False
    | Inr None \<Rightarrow> t' = t1 \<and> (\<forall>q \<in> set queue_names. \<forall>j \<in> set t1. \<not> claimable (claim_now e) (held_ids e) q j)
    | Inr (Some c) \<Rightarrow> \<exists>x \<in> set t1. \<exists>qs1 q qs2. queue_names = qs1 @ q # qs2
        \<and> claimable (claim_now e) (held_ids e) q x
        \<and> (\<forall>q' \<in> set qs1. \<forall>j \<in> set t1. \<not> claimable (claim_now e) (held_ids e) q' j)
        \<and> (\<forall>j \<in> set t1. claimable (claim_now e) (held_ids e) q j \<longrightarrow> (run_at x, job_id x) \<le> (run_at j, job_id j))
        \<and> c = snapshot_claimed_job (take_lock (claim_now e) w x)
        \<and> t' = map (\<lambda>j. if j = x then take_lock (claim_now e) w x else j) t1"
proof (cases "first_claimable (claim_now e) (held_ids e) queue_names t1")
  case None
  with assms have "r = Inr None \<and> t' = t1" by (simp add: claim_one_def Let_def)
  with None show ?thesis by (simp add: first_claimable_None)
next
  case (Some x)
  with assms have r: "r = Inr (Some (snapshot_claimed_job (take_lock (claim_now e) w x)))"
    and t': "t' = sql_update (\<lambda>j. job_id j = job_id x) (take_lock (claim_now e) w) t1"
    by (simp_all add: claim_one_def Let_def)
  have x: "x \<in> set t1" using first_claimable_Some [OF Some] by blast
  have "map job_id t1 = map job_id t"
    unfolding assms(3) by (auto simp: recover_stale_locks_def requeue_def intro: sql_update_keys)
  with assms(1) have dist: "distinct (map job_id t1)" by simp
  have "job_id j = job_id x \<longleftrightarrow> j = x" if "j \<in> set t1" for j
    using same_key_same_row [OF dist x that] by auto
  then have "t' = map (\<lambda>j. if j = x then take_lock (claim_now e) w x else j) t1"
    unfolding t' sql_update_def by (auto intro: map_cong)
  with r x first_claimable_order [OF Some] show ?thesis by auto
qed

definition claim_env_example :: claim_env where
  "claim_env_example = \<lparr>claim_now = 5, recovery_now = 5, recovery_fails = False, claim_fails = False,
     held_ids = (\<lambda>_. False)\<rparr>"

theorem dq_claim_takes_the_first_due_job_witness:
  "\<exists>c t'. claim_one 600 ''h:1'' [''ops'', ''default''] claim_env_example (jobs db_example) = (Inr (Some c), t')
     \<and> (\<exists>x \<in> set (jobs db_example). c = snapshot_claimed_job (take_lock 5 ''h:1'' x)
          \<and> t' = map (\<lambda>j. if j = x then take_lock 5 ''h:1'' x else j) (jobs db_example))"
proof -
  have t1: "jobs db_example = snd (recover_stale_locks 600 (recovery_now claim_env_example)
      (recovery_fails claim_env_example) (jobs db_example))"
    by (simp add: claim_env_example_def db_example_def recover_stale_locks_def sql_update_def stale_def)
  obtain c t' where c: "claim_one 600 ''h:1'' [''ops'', ''default''] claim_env_example (jobs db_example) = (Inr (Some c), t')"
    by (simp add: claim_one_def claim_env_example_def db_example_def recover_stale_locks_def sql_update_def
        stale_def claimable_def new_job_def spec_example_def)
  from dq_claim_takes_the_first_due_job [OF _ _ t1 refl c] c show ?thesis
    by (auto simp: db_example_def claim_env_example_def)
qed

section \<open>Leases\<close>

text \<open>A running job whose lock is younger than the recovery's cutoff.\<close>

definition job_lease_live :: "int \<Rightarrow> claim_env \<Rightarrow> durable_job \<Rightarrow> bool" where
  "job_lease_live ttl e j \<longleftrightarrow>
     job_status j = Running \<and> \<not> stale (recovery_now e - seconds ttl) j"

definition claim_within :: "int \<Rightarrow> claim_env \<Rightarrow> claim_env \<Rightarrow> bool" where
  "claim_within ttl e e' \<longleftrightarrow> recovery_now e' - seconds ttl \<le> claim_now e"

definition claim_batch :: "int \<Rightarrow> string list \<Rightarrow> claim_env \<Rightarrow> string \<Rightarrow> durable_job list \<Rightarrow> durable_job list \<times> int list" where
  "claim_batch ttl qs e w t =
     (case claim_one ttl w qs e t of
        (Inr (Some c), t') \<Rightarrow> (t', [claim_id c])
      | (_, t') \<Rightarrow> (t', []))"

lemma claim_batch_cases:
  fixes t :: "durable_job list"
  assumes "distinct (map job_id t)" and "claim_batch ttl qs e w t = (t', ks)"
    and "t1 = snd (recover_stale_locks ttl (recovery_now e) (recovery_fails e) t)"
  obtains "t' = t1" "ks = []"
    | x where "x \<in> set t1" "job_status x = Queued" "ks = [job_id x]"
        "t' = sql_update (\<lambda>j. job_id j = job_id x) (take_lock (claim_now e) w) t1"
proof (cases "\<not> claim_fails e \<and> first_claimable (claim_now e) (held_ids e) (filter (\<lambda>q. q \<noteq> []) qs) t1 \<noteq> None")
  case False
  with assms(2,3) have "t' = t1 \<and> ks = []" by (auto simp: claim_batch_def claim_one_def Let_def split: if_splits)
  with that show ?thesis by blast
next
  case True
  then obtain x where x: "first_claimable (claim_now e) (held_ids e) (filter (\<lambda>q. q \<noteq> []) qs) t1 = Some x" by blast
  with True assms(2,3) have "ks = [job_id x]"
    "t' = sql_update (\<lambda>j. job_id j = job_id x) (take_lock (claim_now e) w) t1"
    by (auto simp: claim_batch_def claim_one_def Let_def snapshot_claimed_job_def take_lock_def)
  moreover from first_claimable_Some [OF x] have "x \<in> set t1" "job_status x = Queued"
    by (auto simp: claimable_def)
  ultimately show ?thesis using that by blast
qed

lemma take_lock_keys: "map job_id (sql_update p (take_lock now w) t) = map job_id t"
  by (rule sql_update_keys) (simp add: take_lock_def)

lemma recover_stale_keys: "map job_id (snd (recover_stale_locks ttl now f t)) = map job_id t"
  by (auto simp: recover_stale_locks_def requeue_def intro: sql_update_keys)

lemma recover_stale_live:
  "j \<in> set t \<Longrightarrow> \<not> stale (now - seconds ttl) j \<Longrightarrow> j \<in> set (snd (recover_stale_locks ttl now f t))"
  by (simp add: recover_stale_locks_def sql_update_miss)

interpretation dq_lease: lease_claim job_id locked_by "job_lease_live ttl" "claim_within ttl" "claim_batch ttl qs"
  for ttl qs
proof unfold_locales
  fix t t' :: "durable_job list" and e w ks
  assume dist: "distinct (map job_id t)" and claim: "claim_batch ttl qs e w t = (t', ks)"
  define t1 where "t1 = snd (recover_stale_locks ttl (recovery_now e) (recovery_fails e) t)"
  have keys1: "map job_id t1 = map job_id t" by (simp add: t1_def recover_stale_keys)
  then have dist1: "distinct (map job_id t1)" using dist by simp
  note claim_cases = claim_batch_cases [OF dist claim t1_def]
  show "map job_id t' = map job_id t"
    by (rule claim_cases) (simp_all add: keys1 take_lock_keys)
  {
    fix r
    assume "r \<in> set t" and live: "job_lease_live ttl e r"
    then have r1: "r \<in> set t1" by (simp add: t1_def job_lease_live_def recover_stale_live)
    show "job_id r \<notin> set ks \<and> r \<in> set t'"
    proof (rule claim_cases)
      fix x
      assume x: "x \<in> set t1" "job_status x = Queued" "ks = [job_id x]"
        and t': "t' = sql_update (\<lambda>j. job_id j = job_id x) (take_lock (claim_now e) w) t1"
      have "job_id r \<noteq> job_id x"
        using same_key_same_row [OF dist1 x(1) r1] x(2) live by (auto simp: job_lease_live_def)
      with x r1 t' show ?thesis by (simp add: sql_update_miss)
    qed (simp_all add: r1)
  }
  {
    fix k
    assume k: "k \<in> set ks"
    show "\<exists>r' \<in> set t'. job_id r' = k \<and> locked_by r' = Some w
        \<and> (\<forall>e'. claim_within ttl e e' \<longrightarrow> job_lease_live ttl e' r')"
    proof (rule claim_cases)
      fix x
      assume x: "x \<in> set t1" "ks = [job_id x]"
        and t': "t' = sql_update (\<lambda>j. job_id j = job_id x) (take_lock (claim_now e) w) t1"
      have "take_lock (claim_now e) w x \<in> set t'" unfolding t' by (rule sql_update_hit [OF x(1)]) simp
      with x k show ?thesis
        by (intro bexI [of _ "take_lock (claim_now e) w x"])
          (auto simp: take_lock_def claim_within_def job_lease_live_def stale_def)
    qed (use k in simp)
  }
qed

text \<open>Recordings of a worker on a row that is not its own when it reads it write nothing, and no recording writes
  another row. \<open>quiet\<close> is an environment in which nobody writes between the reads and the writes.\<close>

definition quiet :: "worker_env \<Rightarrow> worker_env" where
  "quiet e = e\<lparr>before_first_write := \<lambda>t. t, before_second_write := \<lambda>t. t\<rparr>"

lemma not_owned_row:
  assumes "\<forall>r \<in> set t. job_id r = i \<longrightarrow> locked_by r \<noteq> Some w"
  shows "owned_row w i t = None"
proof (cases "owned_row w i t")
  case (Some fresh)
  from owned_row_Some [OF Some] assms show ?thesis by (auto simp: owned_by_def)
qed

lemma write_job_frame: "r \<in> set t \<Longrightarrow> job_id r \<noteq> i \<Longrightarrow> r \<in> set (snd (write_job i f t))"
  by (simp add: write_job_def Let_def sql_update_miss)

lemma mark_frame:
  assumes "r \<in> set (others t)" and "resolve_job_id ref \<noteq> Some (job_id r)"
  shows "r \<in> set (snd (mark_succeeded w ref now f others t))" and "r \<in> set (snd (mark_failed w mb ref err tr now f others t))"
  using assms by (auto simp: mark_succeeded_def mark_failed_def write_job_frame split: option.splits)

lemma mark_not_owned:
  assumes "\<forall>r \<in> set t. resolve_job_id ref = Some (job_id r) \<longrightarrow> locked_by r \<noteq> Some w"
  shows "snd (mark_succeeded w ref now f others t) = others t" and "snd (mark_failed w mb ref err tr now f others t) = others t"
proof -
  have "resolve_job_id ref = Some i \<Longrightarrow> owned_row w i t = None" for i using assms by (intro not_owned_row) auto
  then show "snd (mark_succeeded w ref now f others t) = others t" "snd (mark_failed w mb ref err tr now f others t) = others t"
    by (auto simp: mark_succeeded_def mark_failed_def split: option.split)
qed

lemma record_success_quiet:
  assumes "\<forall>r \<in> set t. job_id r = i \<longrightarrow> locked_by r \<noteq> Some w"
  shows "record_success_with_retry w (quiet e) i t = t"
  using mark_not_owned(1) [of t "RefId i" w] assms
  by (auto simp: record_success_with_retry_def quiet_def split: prod.split bool.split) (metis snd_conv)+

lemma record_failure_quiet:
  assumes "\<forall>r \<in> set t. job_id r = i \<longrightarrow> locked_by r \<noteq> Some w"
  shows "record_failure_with_retries st w (quiet e) i err t = t"
proof -
  have m: "snd (mark_failed w mb (RefId i) err tr now f (\<lambda>t. t) t) = t" for mb tr now f
    using mark_not_owned(2) [of t "RefId i" w] assms by simp
  have "sql_update (owned_by w i) g t = t" for g using assms by (intro sql_update_none) (auto simp: owned_by_def)
  then have "force_failed w i now f t = t" for now f by (simp add: force_failed_def)
  with m show ?thesis
    by (auto simp: record_failure_with_retries_def quiet_def split: prod.split bool.split) (metis snd_conv)+
qed

lemma record_success_frame:
  assumes "r \<in> set t" and "job_id r \<noteq> i"
  shows "r \<in> set (record_success_with_retry w (quiet e) i t)"
proof -
  have m: "r \<in> set (snd (mark_succeeded w (RefId i) now f (\<lambda>t. t) u))" if "r \<in> set u" for now f u
    using that assms(2) by (intro mark_frame) simp_all
  obtain b t1 where t1: "mark_succeeded w (RefId i) (mark_now e) (first_mark_fails e) (\<lambda>t. t) t = (b, t1)" by force
  have "r \<in> set t1" using m [OF assms(1), of "mark_now e" "first_mark_fails e"] t1 by simp
  with m t1 show ?thesis by (cases b) (simp_all add: record_success_with_retry_def quiet_def)
qed

lemma record_failure_frame:
  assumes "r \<in> set t" and "job_id r \<noteq> i"
  shows "r \<in> set (record_failure_with_retries st w (quiet e) i err t)"
proof -
  have m: "r \<in> set (snd (mark_failed w mb (RefId i) err tr now f (\<lambda>t. t) u))" if "r \<in> set u" for mb tr now f u
    using that assms(2) by (intro mark_frame) simp_all
  have g: "r \<in> set (force_failed w i now f u)" if "r \<in> set u" for now f u
    using that assms(2) by (auto simp: force_failed_def owned_by_def intro!: sql_update_miss)
  let ?mark = "\<lambda>f u. mark_failed w (max_backoff_seconds st) (RefId i) err (env_trace e) (mark_now e) f (\<lambda>t. t) u"
  obtain b t1 where t1: "?mark (first_mark_fails e) t = (b, t1)" by force
  have r1: "r \<in> set t1" using m [OF assms(1), of "max_backoff_seconds st" "env_trace e" "mark_now e" "first_mark_fails e"] t1 by simp
  obtain b' t2 where t2: "?mark (second_mark_fails e) t1 = (b', t2)" by force
  have r2: "r \<in> set t2" using m [OF r1, of "max_backoff_seconds st" "env_trace e" "mark_now e" "second_mark_fails e"] t2 by simp
  show ?thesis using r1 g [OF r2] r2 t1 t2 by (cases b; cases b') (simp_all add: record_failure_with_retries_def quiet_def)
qed

interpretation dq_success: leased_queue job_id locked_by "job_lease_live ttl" "claim_within ttl" "claim_batch ttl qs"
    "\<lambda>w i t. record_success_with_retry w (quiet e) i t"
  for ttl qs e
  by unfold_locales (simp_all add: record_success_quiet record_success_frame)

interpretation dq_failure: leased_queue job_id locked_by "job_lease_live ttl" "claim_within ttl" "claim_batch ttl qs"
    "\<lambda>w i t. record_failure_with_retries st w (quiet e) i err t"
  for ttl qs st e err
  by unfold_locales (simp_all add: record_failure_quiet record_failure_frame)

lemma owned_update_fenced:
  assumes "\<forall>r \<in> set t. job_id r = i \<longrightarrow> locked_by r \<noteq> Some w"
  shows "sql_update (owned_by w i) f t = t"
  using assms by (intro sql_update_none) (auto simp: owned_by_def)

lemma owned_update_frame:
  "r \<in> set t \<Longrightarrow> job_id r \<noteq> i \<Longrightarrow> r \<in> set (sql_update (owned_by w i) f t)"
  by (rule sql_update_miss) (auto simp: owned_by_def)

interpretation dq_refresh: leased_queue job_id locked_by "job_lease_live ttl" "claim_within ttl" "claim_batch ttl qs"
    "\<lambda>w i t. snd (refresh_job_lock w i now f t)"
  for ttl qs now f
  by unfold_locales (simp_all add: refresh_job_lock_def owned_update_fenced owned_update_frame)

text \<open>
  What may happen while worker \<open>w\<close> holds job \<open>i\<close> with a lock taken at \<open>since\<close>: producers insert jobs; workers
  recover stale locks and claim jobs, with any queue names, at times at which the lock is younger than the
  time-to-live; workers refresh locks; workers record outcomes, of this job only when the job was not theirs when
  they read it; operators retry and cancel other jobs; and workers start up on other hosts. What is left out takes the
  job away in spite of the lock: the end of the job by \<open>w\<close> itself, the startup of a worker on the same host, an
  operator's retry or cancel of this job, and a late recording by a worker that read the job when it still had it.
\<close>

inductive dq_meanwhile :: "int \<Rightarrow> datetime \<Rightarrow> string \<Rightarrow> int \<Rightarrow> durable_db \<Rightarrow> durable_db \<Rightarrow> bool" for ttl since w i where
  mw_start: "dq_meanwhile ttl since w i db db"
| mw_enqueue: "dq_meanwhile ttl since w i db db' \<Longrightarrow> dq_meanwhile ttl since w i db (snd (enqueue a now f seen db'))"
| mw_drain: "dq_meanwhile ttl since w i db db'
    \<Longrightarrow> dq_meanwhile ttl since w i db (snd (drain_after_commit_enqueues nested fails now (pending, db')))"
| mw_recover: "dq_meanwhile ttl since w i db db' \<Longrightarrow> now - seconds ttl \<le> since
    \<Longrightarrow> dq_meanwhile ttl since w i db (db'\<lparr>jobs := snd (recover_stale_locks ttl now f (jobs db'))\<rparr>)"
| mw_startup: "dq_meanwhile ttl since w i db db' \<Longrightarrow> \<not> sql_like (worker_hostname w' h @ '':%'') w
    \<Longrightarrow> dq_meanwhile ttl since w i db (db'\<lparr>jobs := snd (recover_startup_locks_for_worker w' h qs now f (jobs db'))\<rparr>)"
| mw_claim: "dq_meanwhile ttl since w i db db' \<Longrightarrow> recovery_now e - seconds ttl \<le> since
    \<Longrightarrow> dq_meanwhile ttl since w i db (db'\<lparr>jobs := snd (claim_one ttl w' qs e (jobs db'))\<rparr>)"
| mw_refresh: "dq_meanwhile ttl since w i db db' \<Longrightarrow> w' \<noteq> w \<or> since \<le> now
    \<Longrightarrow> dq_meanwhile ttl since w i db (db'\<lparr>jobs := snd (refresh_job_lock w' k now f (jobs db'))\<rparr>)"
| mw_succeeded: "dq_meanwhile ttl since w i db db' \<Longrightarrow> others t0 = jobs db'
    \<Longrightarrow> resolve_job_id ref \<noteq> Some i \<or> owned_row w' i t0 = None
    \<Longrightarrow> dq_meanwhile ttl since w i db (db'\<lparr>jobs := snd (mark_succeeded w' ref now f others t0)\<rparr>)"
| mw_failed: "dq_meanwhile ttl since w i db db' \<Longrightarrow> others t0 = jobs db'
    \<Longrightarrow> resolve_job_id ref \<noteq> Some i \<or> owned_row w' i t0 = None
    \<Longrightarrow> dq_meanwhile ttl since w i db (db'\<lparr>jobs := snd (mark_failed w' mb ref err tr now f others t0)\<rparr>)"
| mw_force: "dq_meanwhile ttl since w i db db' \<Longrightarrow> w' \<noteq> w \<or> k \<noteq> i
    \<Longrightarrow> dq_meanwhile ttl since w i db (db'\<lparr>jobs := force_failed w' k now f (jobs db')\<rparr>)"
| mw_retry: "dq_meanwhile ttl since w i db db' \<Longrightarrow> k \<noteq> i
    \<Longrightarrow> dq_meanwhile ttl since w i db (db'\<lparr>jobs := snd (retry_job k now (jobs db'))\<rparr>)"
| mw_cancel: "dq_meanwhile ttl since w i db db' \<Longrightarrow> k \<noteq> i
    \<Longrightarrow> dq_meanwhile ttl since w i db (db'\<lparr>jobs := snd (cancel_job k now (jobs db'))\<rparr>)"

lemma step_inv: "dq_step x db db' \<Longrightarrow> dq_inv db \<Longrightarrow> dq_inv db'"
  by (drule (1) dq_step_inv) (rule conjunct1)

lemma meanwhile_inv:
  assumes "dq_meanwhile ttl since w i db db'" and "dq_inv db"
  shows "dq_inv db'"
  using assms
proof (induction rule: dq_meanwhile.induct)
  case mw_enqueue
  show ?case by (rule step_inv [OF step_enqueue mw_enqueue.IH [OF mw_enqueue.prems]])
next
  case mw_drain
  show ?case by (rule step_inv [OF step_drain mw_drain.IH [OF mw_drain.prems]])
next
  case mw_recover
  show ?case by (rule step_inv [OF step_recover mw_recover.IH [OF mw_recover.prems]])
next
  case mw_startup
  show ?case by (rule step_inv [OF step_startup mw_startup.IH [OF mw_startup.prems]])
next
  case mw_claim
  show ?case by (rule step_inv [OF step_claim mw_claim.IH [OF mw_claim.prems]])
next
  case mw_refresh
  show ?case by (rule step_inv [OF step_refresh mw_refresh.IH [OF mw_refresh.prems]])
next
  case mw_succeeded
  show ?case by (rule step_inv [OF step_late_succeeded mw_succeeded.IH [OF mw_succeeded.prems]]) (rule mw_succeeded.hyps(2))
next
  case mw_failed
  show ?case by (rule step_inv [OF step_late_failed mw_failed.IH [OF mw_failed.prems]]) (rule mw_failed.hyps(2))
next
  case mw_force
  show ?case by (rule step_inv [OF step_force mw_force.IH [OF mw_force.prems]])
next
  case mw_retry
  show ?case by (rule step_inv [OF step_retry mw_retry.IH [OF mw_retry.prems]])
next
  case mw_cancel
  show ?case by (rule step_inv [OF step_cancel mw_cancel.IH [OF mw_cancel.prems]])
qed

definition holds_lock :: "datetime \<Rightarrow> string \<Rightarrow> int \<Rightarrow> durable_job list \<Rightarrow> bool" where
  "holds_lock since w i t \<longleftrightarrow> (\<exists>j l. j \<in> set t \<and> owned_by w i j \<and> job_locked_at j = Some l \<and> since \<le> l)"

lemma holds_mono: "(\<And>j. j \<in> set t \<Longrightarrow> job_id j = i \<Longrightarrow> j \<in> set t') \<Longrightarrow> holds_lock since w i t \<Longrightarrow> holds_lock since w i t'"
  unfolding holds_lock_def owned_by_def by blast

lemma enqueue_grows: "set (jobs db) \<subseteq> set (jobs (snd (enqueue a now f seen db)))"
  by (auto simp: enqueue_def Let_def split: option.splits if_splits)

lemma enqueue_all_grows: "set (jobs db) \<subseteq> set (jobs (enqueue_all fails now as db))"
proof (induction as arbitrary: db)
  case (Cons a as)
  then show ?case using enqueue_grows by (metis enqueue_all.simps(2) subset_trans)
qed simp

lemma held_not_stale: "owned_by w i j \<Longrightarrow> job_locked_at j = Some l \<Longrightarrow> since \<le> l \<Longrightarrow> cutoff \<le> since \<Longrightarrow> \<not> stale cutoff j"
  by (simp add: stale_def)

lemma claim_keeps_held:
  assumes "distinct (map job_id t)" and "holds_lock since w i t" and "recovery_now e - seconds ttl \<le> since"
  shows "holds_lock since w i (snd (claim_one ttl w' qs e t)) \<and> (\<forall>c t'. claim_one ttl w' qs e t = (Inr (Some c), t') \<longrightarrow> claim_id c \<noteq> i)"
proof -
  obtain j l where j: "j \<in> set t" "owned_by w i j" "job_locked_at j = Some l" "since \<le> l" using assms(2) by (auto simp: holds_lock_def)
  have live: "job_lease_live ttl e j" using j held_not_stale [OF j(2-4) assms(3)] by (simp add: job_lease_live_def owned_by_def)
  obtain t' ks where b: "claim_batch ttl qs e w' t = (t', ks)" by force
  then have t': "t' = snd (claim_one ttl w' qs e t)" and ks: "\<And>c u. claim_one ttl w' qs e t = (Inr (Some c), u) \<Longrightarrow> ks = [claim_id c]"
    by (auto simp: claim_batch_def split: prod.splits sum.splits option.splits)
  from dq_lease.claim_live [OF assms(1) b j(1) live] have "job_id j \<notin> set ks" "j \<in> set t'" by auto
  with j t' ks show ?thesis by (auto simp: holds_lock_def owned_by_def)
qed

lemma refresh_keeps_held:
  assumes "holds_lock since w i t" and "w' \<noteq> w \<or> since \<le> now"
  shows "holds_lock since w i (snd (refresh_job_lock w' k now f t))"
proof -
  obtain j l where j: "j \<in> set t" "owned_by w i j" "job_locked_at j = Some l" "since \<le> l" using assms(1) by (auto simp: holds_lock_def)
  have u: "(if owned_by w' k j then j\<lparr>job_locked_at := Some now\<rparr> else j) \<in> set (sql_update (owned_by w' k) (\<lambda>j. j\<lparr>job_locked_at := Some now\<rparr>) t)"
    by (rule sql_update_row [OF j(1)])
  show ?thesis
  proof (cases "owned_by w' k j")
    case True
    then have "since \<le> now" using assms(2) j(2) by (auto simp: owned_by_def)
    with True u j show ?thesis by (auto simp: refresh_job_lock_def holds_lock_def owned_by_def)
  next
    case False
    with u j show ?thesis by (auto simp: refresh_job_lock_def holds_lock_def)
  qed
qed

lemma mark_spares:
  assumes "j \<in> set (others t0)" and "resolve_job_id ref \<noteq> Some (job_id j) \<or> owned_row w (job_id j) t0 = None"
  shows "j \<in> set (snd (mark_succeeded w ref now f others t0))" and "j \<in> set (snd (mark_failed w mb ref err tr now f others t0))"
proof -
  have "j \<in> set (snd (mark_succeeded w ref now f others t0)) \<and> j \<in> set (snd (mark_failed w mb ref err tr now f others t0))"
  proof (cases "resolve_job_id ref = Some (job_id j)")
    case True
    with assms show ?thesis by (simp add: mark_succeeded_def mark_failed_def)
  next
    case False
    with assms(1) mark_frame show ?thesis by blast
  qed
  then show "j \<in> set (snd (mark_succeeded w ref now f others t0))" "j \<in> set (snd (mark_failed w mb ref err tr now f others t0))" by auto
qed

lemma recorded_keeps_held:
  assumes "holds_lock since w i (others t0)" and "resolve_job_id ref \<noteq> Some i \<or> owned_row w' i t0 = None"
  shows "holds_lock since w i (snd (mark_succeeded w' ref now f others t0))"
    and "holds_lock since w i (snd (mark_failed w' mb ref err tr now f others t0))"
  by (rule holds_mono [OF mark_spares(1) assms(1)]; use assms(2) in simp)
    (rule holds_mono [OF mark_spares(2) assms(1)]; use assms(2) in simp)

lemma set_job_frame: "j \<in> set t \<Longrightarrow> job_id j \<noteq> k \<Longrightarrow> j \<in> set (snd (set_job k f t))"
  by (simp add: set_job_def Let_def sql_update_miss)

lemma meanwhile_holds:
  assumes "dq_meanwhile ttl since w i db db'" and "dq_inv db" and "holds_lock since w i (jobs db)"
  shows "holds_lock since w i (jobs db')"
  using assms
proof (induction rule: dq_meanwhile.induct)
  case (mw_enqueue db db' a now f seen)
  then show ?case using enqueue_grows [of db' a now f seen] by (blast intro: holds_mono)
next
  case (mw_drain db db' nested fails now pending)
  then show ?case using enqueue_all_grows [of db' fails now "case pending of None \<Rightarrow> [] | Some l \<Rightarrow> l"]
    by (auto simp: drain_after_commit_enqueues_def intro: holds_mono)
next
  case (mw_recover db db' now f)
  then obtain j l where j: "j \<in> set (jobs db')" "owned_by w i j" "job_locked_at j = Some l" "since \<le> l" by (auto simp: holds_lock_def)
  have "j \<in> set (snd (recover_stale_locks ttl now f (jobs db')))"
    by (rule recover_stale_live [OF j(1) held_not_stale [OF j(2-4) mw_recover.hyps(2)]])
  with j show ?case by (auto simp: holds_lock_def)
next
  case (mw_startup db db' w' h qs now f)
  then obtain j l where j: "j \<in> set (jobs db')" "owned_by w i j" "job_locked_at j = Some l" "since \<le> l" by (auto simp: holds_lock_def)
  have "j \<in> set (snd (recover_startup_locks_for_worker w' h qs now f (jobs db')))"
    using j mw_startup.hyps(2)
    by (simp add: recover_startup_locks_for_worker_def Let_def) (intro impI sql_update_miss; simp add: startup_lock_def owned_by_def)
  with j show ?case by (auto simp: holds_lock_def)
next
  case (mw_claim db db' e w' qs)
  then have "distinct (map job_id (jobs db'))" using meanwhile_inv [OF mw_claim.hyps(1)] by (simp add: dq_inv_def jobs_inv_def)
  with mw_claim claim_keeps_held show ?case by simp
next
  case (mw_refresh db db' w' now k f)
  then show ?case using refresh_keeps_held by simp
next
  case (mw_succeeded db db' others t0 ref w' now f)
  then show ?case using recorded_keeps_held(1) by simp
next
  case (mw_failed db db' others t0 ref w' mb err tr now f)
  then show ?case using recorded_keeps_held(2) by simp
next
  case (mw_force db db' w' k now f)
  then obtain j l where j: "j \<in> set (jobs db')" "owned_by w i j" "job_locked_at j = Some l" "since \<le> l" by (auto simp: holds_lock_def)
  have "\<not> owned_by w' k j" using j(2) mw_force.hyps(2) by (auto simp: owned_by_def)
  with j show ?case by (auto simp: force_failed_def holds_lock_def intro!: sql_update_miss)
next
  case (mw_retry db db' k now)
  then show ?case using set_job_frame by (auto simp: retry_job_def intro!: holds_mono [of "jobs db'"])
next
  case (mw_cancel db db' k now)
  then show ?case using set_job_frame by (auto simp: cancel_job_def intro!: holds_mono [of "jobs db'"])
qed simp


definition claim_example :: durable_job_claim where
  "claim_example = snapshot_claimed_job (take_lock 5 ''h:1'' (new_job spec_example 0 1))"

lemma claim_example_eq:
  "claim_one 600 ''h:1'' [''default''] claim_env_example (jobs db_example)
    = (Inr (Some claim_example), [take_lock 5 ''h:1'' (new_job spec_example 0 1)])"
  by (simp add: claim_one_def claim_env_example_def db_example_def recover_stale_locks_def sql_update_def
      stale_def claimable_def new_job_def spec_example_def claim_example_def)


text \<open>A recording that comes late is not guarded. Worker \<open>h:1\<close> reads the job, which is still its own; before it
  writes, its lock is recovered and \<open>h:2\<close> claims the job. The write of \<open>h:1\<close> ends the job that \<open>h:2\<close> is running.\<close>

lemma dq_late_recording_overwrites:
  "let others = (\<lambda>t. snd (claim_one 600 ''h:2'' [''default'']
         \<lparr>claim_now = seconds 700, recovery_now = seconds 700, recovery_fails = False, claim_fails = False, held_ids = (\<lambda>_. False)\<rparr> t));
       t = [take_lock 5 ''h:1'' (new_job spec_example 0 1)] in
   map (\<lambda>j. (job_status j, locked_by j)) (others t) = [(Running, Some ''h:2'')]
   \<and> map (\<lambda>j. (job_status j, locked_by j)) (snd (mark_succeeded ''h:1'' (RefId 1) (seconds 700) False others t)) = [(Succeeded, None)]"
  by code_simp

text \<open>A worker whose job was recovered and claimed by another worker changes nothing when it
  later refreshes its lock or reads the job to record success or failure, however its retries go.\<close>

theorem dq_superseded_worker_changes_nothing:
  assumes "distinct (map job_id t)" and "claim_one ttl w' qs ce t = (Inr (Some c), t')" and "w \<noteq> w'"
  shows "record_success_with_retry w (quiet e) (claim_id c) t' = t'
    \<and> record_failure_with_retries st w (quiet e) (claim_id c) err t' = t'
    \<and> snd (refresh_job_lock w (claim_id c) now f t') = t'"
proof -
  have claim: "claim_batch ttl qs ce w' t = (t', [claim_id c])" using assms(2) by (simp add: claim_batch_def)
  show ?thesis
    using dq_success.superseded_worker_harmless [OF assms(1) claim _ assms(3)]
      dq_failure.superseded_worker_harmless [OF assms(1) claim _ assms(3)]
      dq_refresh.superseded_worker_harmless [OF assms(1) claim _ assms(3)]
    by simp
qed

theorem dq_superseded_worker_changes_nothing_witness:
  "snd (refresh_job_lock ''h:9'' (claim_id claim_example) 8 False [take_lock 5 ''h:1'' (new_job spec_example 0 1)])
    = [take_lock 5 ''h:1'' (new_job spec_example 0 1)]"
  using dq_superseded_worker_changes_nothing [OF _ claim_example_eq, where w = "''h:9''" and now = 8 and f = False]
  by (simp add: db_example_def)

section \<open>Outcomes\<close>

interpretation dq_backoff: backoff_policy backoff_seconds 60
proof
  fix a c :: int
  have "nat (max 0 (a - 1)) = nat (a - 1)" by simp
  then show "backoff_seconds a c = min c (60 * 2 ^ nat (a - 1))"
    by (simp add: backoff_seconds_def Let_def min_def)
qed

lemma owned_update_hit:
  "j \<in> set t \<Longrightarrow> owned_by w i j \<Longrightarrow> f j \<in> set (sql_update (owned_by w i) f t)"
  by (rule sql_update_hit)

lemma owned_by_id: "owned_by w i j \<Longrightarrow> job_id j = i"
  by (simp add: owned_by_def)

text \<open>Others that leave a row and the table's constraints alone.\<close>

definition spares :: "durable_job \<Rightarrow> (durable_job list \<Rightarrow> durable_job list) \<Rightarrow> bool" where
  "spares j g \<longleftrightarrow> (\<forall>t. jobs_inv t \<and> j \<in> set t \<longrightarrow> jobs_inv (g t) \<and> j \<in> set (g t))"

lemma mark_succeeded_owned:
  assumes "jobs_inv t" and "j \<in> set t" and "owned_by w i j" and "spares j others"
  shows "mark_succeeded w (RefId i) now f others t = (f, if f then others t
    else sql_update (owned_by w i) (\<lambda>j. j\<lparr>job_status := Succeeded, finished_at := Some now, job_locked_at := None, locked_by := None\<rparr>) (others t))"
proof -
  have "distinct (map job_id t)" using assms(1) by (simp add: jobs_inv_def)
  moreover have "jobs_inv (others t)" "j \<in> set (others t)" using assms by (simp_all add: spares_def)
  ultimately show ?thesis
    using assms(2,3) by (simp add: mark_succeeded_def owned_row_eq write_owned [OF _ _ assms(3)] lifecycle)
qed

lemma mark_failed_owned:
  assumes "jobs_inv t" and "j \<in> set t" and "owned_by w i j" and "spares j others"
  shows "mark_failed w mb (RefId i) err tr now f others t = (f, if f then others t
    else sql_update (owned_by w i) (record_error mb now err tr j) (others t))"
proof -
  have "distinct (map job_id t)" using assms(1) by (simp add: jobs_inv_def)
  moreover have "jobs_inv (others t)" "j \<in> set (others t)" using assms by (simp_all add: spares_def)
  ultimately show ?thesis
    using assms(2,3) by (simp add: mark_failed_def owned_row_eq write_owned [OF _ _ assms(3)] lifecycle)
qed

text \<open>The table on which the last statement of a recording works.\<close>

definition recorded_on :: "worker_env \<Rightarrow> durable_job list \<Rightarrow> durable_job list" where
  "recorded_on e t = (if first_mark_fails e then before_second_write e (before_first_write e t) else before_first_write e t)"

lemma recorded_on_row:
  assumes "jobs_inv t" and "j \<in> set t" and "spares j (before_first_write e)" and "spares j (before_second_write e)"
  shows "j \<in> set (recorded_on e t)"
  using assms by (simp add: recorded_on_def spares_def)

lemma record_success_eq:
  assumes "jobs_inv t" and "j \<in> set t" and "owned_by w i j" and "spares j (before_first_write e)" and "spares j (before_second_write e)"
  shows "record_success_with_retry w e i t =
     (if first_mark_fails e \<and> second_mark_fails e then recorded_on e t
      else sql_update (owned_by w i) (\<lambda>j. j\<lparr>job_status := Succeeded, finished_at := Some (mark_now e),
        job_locked_at := None, locked_by := None\<rparr>) (recorded_on e t))"
proof -
  have t1: "jobs_inv (before_first_write e t)" "j \<in> set (before_first_write e t)" using assms by (simp_all add: spares_def)
  show ?thesis
    by (simp add: record_success_with_retry_def recorded_on_def mark_succeeded_owned [OF assms(1-4)]
        mark_succeeded_owned [OF t1 assms(3,5)] split: bool.split)
qed

lemma record_failure_eq:
  assumes "jobs_inv t" and "j \<in> set t" and "owned_by w i j" and "spares j (before_first_write e)" and "spares j (before_second_write e)"
  shows "record_failure_with_retries st w e i err t =
     (if first_mark_fails e \<and> second_mark_fails e then force_failed w i (mark_now e) (force_fails e) (recorded_on e t)
      else sql_update (owned_by w i) (record_error (max_backoff_seconds st) (mark_now e) err (env_trace e) j) (recorded_on e t))"
proof -
  have t1: "jobs_inv (before_first_write e t)" "j \<in> set (before_first_write e t)" using assms by (simp_all add: spares_def)
  show ?thesis
    by (simp add: record_failure_with_retries_def recorded_on_def mark_failed_owned [OF assms(1-4)]
        mark_failed_owned [OF t1 assms(3,5)] split: bool.split)
qed

text \<open>C6: What a finished handler leaves behind, on every branch. If the worker still owns the job when the handler
  ends, and others leave the job alone while the outcome is recorded, a success ends in \<open>succeeded\<close>; a failure with
  attempts left is queued again after the backoff of its attempts, and without attempts left is \<open>failed\<close>; when both
  recordings fail the direct statement ends it as \<open>failed\<close>. The lock is released in all of these; only when every
  statement fails does the job stay as it was, running, for the stale-lock recovery. To the rest of the table the
  handler and the others may do anything that its constraints allow.\<close>

theorem dq_iteration_settles_job:
  assumes "claim_one (lock_ttl_seconds st) w qs (env_claim e) t = (Inr (Some c), t1)"
    and "claim_task c \<noteq> []" and "handlers e (claim_task c) = Some h"
    and "h (claim_payload c) t1 = (res, t2)" and "j \<in> set t2" and "owned_by w (claim_id c) j"
    and "jobs_inv t2" and "spares j (before_first_write e)" and "spares j (before_second_write e)"
    and "worker_iteration st w qs e t = (out, t')"
  shows "out = Served (claim_id c) \<and> (\<exists>j' \<in> set t'. job_id j' = claim_id c
    \<and> (if first_mark_fails e \<and> second_mark_fails e \<and> (res = None \<or> force_fails e) then j' = j
       else job_locked_at j' = None \<and> locked_by j' = None
         \<and> (case res of
              None \<Rightarrow> job_status j' = Succeeded \<and> finished_at j' = Some (mark_now e)
            | Some err \<Rightarrow>
                if first_mark_fails e \<and> second_mark_fails e then job_status j' = Failed
                else job_last_error j' = Some (exception_summary err)
                  \<and> (if job_attempts j < job_max_attempts j
                     then job_status j' = Queued \<and> run_at j' = mark_now e
                       + seconds (min (max_backoff_seconds st) (60 * 2 ^ nat (job_attempts j - 1)))
                     else job_status j' = Failed \<and> finished_at j' = Some (mark_now e)))))"
proof -
  note own = assms(7,5,6,8,9)
  have row: "j \<in> set (recorded_on e t2)" by (rule recorded_on_row [OF assms(7,5,8,9)])
  have id: "job_id j = claim_id c" using assms(6) by (rule owned_by_id)
  show ?thesis
  proof (cases res)
    case None
    with assms have "out = Served (claim_id c)" and t': "t' = record_success_with_retry w e (claim_id c) t2"
      by (simp_all add: worker_iteration_def)
    let ?j = "if first_mark_fails e \<and> second_mark_fails e then j
      else j\<lparr>job_status := Succeeded, finished_at := Some (mark_now e), job_locked_at := None, locked_by := None\<rparr>"
    have "?j \<in> set t'"
      unfolding t' record_success_eq [OF own]
      using row owned_update_hit [OF row assms(6), of "\<lambda>j. j\<lparr>job_status := Succeeded,
        finished_at := Some (mark_now e), job_locked_at := None, locked_by := None\<rparr>"] by simp
    with None \<open>out = _\<close> id show ?thesis by (intro conjI bexI [of _ ?j]) simp_all
  next
    case (Some err)
    with assms have out: "out = Served (claim_id c)" and t': "t' = record_failure_with_retries st w e (claim_id c) err t2"
      by (simp_all add: worker_iteration_def)
    show ?thesis
    proof (cases "first_mark_fails e \<and> second_mark_fails e")
      case True
      let ?j = "if force_fails e then j
        else j\<lparr>job_status := Failed, job_locked_at := None, locked_by := None, finished_at := Some (mark_now e)\<rparr>"
      have "?j \<in> set t'"
        unfolding t' record_failure_eq [OF own] force_failed_def
        using True row owned_update_hit [OF row assms(6), of "\<lambda>j. j\<lparr>job_status := Failed,
          job_locked_at := None, locked_by := None, finished_at := Some (mark_now e)\<rparr>"] by simp
      with True Some out id show ?thesis by (intro conjI bexI [of _ ?j]) simp_all
    next
      case False
      let ?j = "record_error (max_backoff_seconds st) (mark_now e) err (env_trace e) j j"
      have "?j \<in> set t'" unfolding t' record_failure_eq [OF own] using False owned_update_hit [OF row assms(6)] by auto
      with False Some out id show ?thesis
        by (intro conjI bexI [of _ ?j]) (auto simp: record_error_def Let_def dq_backoff.backoff_eq)
    qed
  qed
qed

text \<open>The queue with one job whose handler always raises.\<close>

definition failing_env :: "string \<Rightarrow> string \<times> string \<Rightarrow> worker_env \<Rightarrow> bool" where
  "failing_env task err e \<longleftrightarrow>
     \<not> claim_fails (env_claim e) \<and> \<not> first_mark_fails e \<and> held_ids (env_claim e) = (\<lambda>_. False)
     \<and> before_first_write e = (\<lambda>t. t) \<and> handlers e task = Some (\<lambda>_ t. (Some err, t))"

fun paced :: "int \<Rightarrow> datetime \<Rightarrow> worker_env list \<Rightarrow> bool" where
  "paced cap r [] = True"
| "paced cap r (e # es) = (r \<le> claim_now (env_claim e) \<and> paced cap (mark_now e + seconds cap) es)"

lemma first_claimable_single:
  "claimable now held q j \<Longrightarrow> q \<in> set qs \<Longrightarrow> first_claimable now held qs [j] = Some j"
  by (induction qs) auto

lemma recover_none: "job_status j \<noteq> Running \<Longrightarrow> snd (recover_stale_locks ttl now f [j]) = [j]"
  by (simp add: recover_stale_locks_def sql_update_def stale_def)

lemma failing_iteration:
  assumes "failing_env (job_task j) err e" and "job_task j \<noteq> []" and "job_status j = Queued"
    and "run_at j \<le> claim_now (env_claim e)" and "job_queue j \<in> set qs" and "job_queue j \<noteq> []"
  shows "worker_iteration st w qs e [j] = (Served (job_id j),
    [record_error (max_backoff_seconds st) (mark_now e) err (env_trace e) (take_lock (claim_now (env_claim e)) w j)
       (take_lock (claim_now (env_claim e)) w j)])"
proof -
  let ?j = "take_lock (claim_now (env_claim e)) w j"
  have "first_claimable (claim_now (env_claim e)) (held_ids (env_claim e)) (filter (\<lambda>q. q \<noteq> []) qs) [j] = Some j"
    by (rule first_claimable_single [where q = "job_queue j"])
      (use assms in \<open>simp_all add: claimable_def failing_env_def\<close>)
  then have claim: "claim_one (lock_ttl_seconds st) w qs (env_claim e) [j] = (Inr (Some (snapshot_claimed_job ?j)), [?j])"
    using assms by (simp add: claim_one_def Let_def recover_none failing_env_def sql_update_def)
  have "claim_task (snapshot_claimed_job ?j) = job_task j" "claim_id (snapshot_claimed_job ?j) = job_id j"
    by (simp_all add: snapshot_claimed_job_def take_lock_def)
  moreover have "mark_failed w mb (RefId (job_id j)) err tr now False (\<lambda>t. t) [?j] = (False, [record_error mb now err tr ?j ?j])" for mb tr now
    by (simp add: mark_failed_def owned_row_def write_job_def sql_update_def dedupe_index_ok_def take_lock_def)
  ultimately show ?thesis
    using claim assms by (simp add: worker_iteration_def failing_env_def record_failure_with_retries_def)
qed

text \<open>C29: A job whose handler always raises is run exactly as often as it has attempts left, and
  then is \<open>failed\<close>: no further iteration touches it.\<close>

theorem dq_failing_job_runs_max_attempts_times:
  assumes "\<forall>e \<in> set es. failing_env (job_task j) err e" and "job_task j \<noteq> []"
    and "job_status j = Queued" and "job_queue j \<in> set qs" and "job_queue j \<noteq> []"
    and "paced (max_backoff_seconds st) (run_at j) es"
    and "job_attempts j + int (length es) = job_max_attempts j" and "es \<noteq> []"
    and "0 \<le> job_attempts j"
  shows "\<exists>j'. worker_iterations st w qs es [j] = (replicate (length es) (Served (job_id j)), [j'])
    \<and> job_status j' = Failed \<and> job_attempts j' = job_max_attempts j
    \<and> (\<forall>e. \<not> claim_fails (env_claim e) \<longrightarrow> worker_iteration st w qs e [j'] = (Idle, [j']))"
  using assms
proof (induction es arbitrary: j)
  case Nil
  then show ?case by simp
next
  case (Cons e es)
  let ?j = "record_error (max_backoff_seconds st) (mark_now e) err (env_trace e) (take_lock (claim_now (env_claim e)) w j)
      (take_lock (claim_now (env_claim e)) w j)"
  have step: "worker_iteration st w qs e [j] = (Served (job_id j), [?j])"
    using Cons.prems by (intro failing_iteration) simp_all
  have same: "job_id ?j = job_id j" "job_task ?j = job_task j" "job_queue ?j = job_queue j"
    "job_max_attempts ?j = job_max_attempts j" "job_attempts ?j = job_attempts j + 1"
    by (simp_all add: record_error_def take_lock_def Let_def)
  show ?case
  proof (cases "es = []")
    case True
    with Cons.prems have "job_status ?j = Failed" and att: "job_attempts ?j = job_max_attempts j"
      by (simp_all add: record_error_def take_lock_def Let_def)
    moreover from this have "first_claimable now held qs' [?j] = None" for now held qs'
      by (simp add: first_claimable_None claimable_def)
    ultimately show ?thesis
      using True step by (simp add: worker_iteration_def claim_one_def Let_def recover_none)
  next
    case False
    with Cons.prems have less: "job_attempts j + 1 < job_max_attempts j" by (cases es) simp_all
    then have q: "job_status ?j = Queued"
      and "run_at ?j = mark_now e + seconds (backoff_seconds (job_attempts j + 1) (max_backoff_seconds st))"
      by (simp_all add: record_error_def take_lock_def Let_def)
    then have "run_at ?j \<le> mark_now e + seconds (max_backoff_seconds st)"
      by (simp add: dq_backoff.at_most_cap)
    with Cons.prems False have "paced (max_backoff_seconds st) (run_at ?j) es" by (cases es) simp_all
    with Cons.IH [of ?j] Cons.prems False q same obtain j' where
      "worker_iterations st w qs es [?j] = (replicate (length es) (Served (job_id j)), [j'])"
      "job_status j' = Failed" "job_attempts j' = job_max_attempts j"
      "\<forall>e. \<not> claim_fails (env_claim e) \<longrightarrow> worker_iteration st w qs e [j'] = (Idle, [j'])" by auto
    with step show ?thesis by simp
  qed
qed

definition worker_env_example :: worker_env where
  "worker_env_example = \<lparr>env_claim = claim_env_example,
     handlers = (\<lambda>task. if task = ''sync'' then Some (\<lambda>_ t. (Some (''ValueError'', ''boom''), t)) else None),
     env_trace = [], mark_now = 6, first_mark_fails = False, before_first_write = (\<lambda>t. t), second_mark_fails = False,
     before_second_write = (\<lambda>t. t), force_fails = False\<rparr>"

definition settings_example :: queue_settings where
  "settings_example = \<lparr>lock_ttl_seconds = 600, max_backoff_seconds = 3600, worker_heartbeat_interval_seconds = 30\<rparr>"

lemma claimed_inv: "jobs_inv [take_lock 5 ''h:1'' (new_job spec_example 0 1)]"
  using new_job_ok [of spec_example 0 1] by (simp add: jobs_inv_def dedupe_index_ok_def job_ok_def take_lock_def)

theorem dq_iteration_settles_job_witness:
  "fst (worker_iteration settings_example ''h:1'' [''default''] worker_env_example (jobs db_example)) = Served 1
   \<and> (\<exists>j' \<in> set (snd (worker_iteration settings_example ''h:1'' [''default''] worker_env_example (jobs db_example))).
        job_id j' = 1 \<and> job_status j' = Queued \<and> run_at j' = 6 + seconds 60)"
proof -
  have "claim_id claim_example = 1" by (simp add: claim_example_def snapshot_claimed_job_def take_lock_def)
  with dq_iteration_settles_job [where st = settings_example and e = worker_env_example and t = "jobs db_example"
      and qs = "[''default'']" and w = "''h:1''" and c = claim_example and j = "take_lock 5 ''h:1'' (new_job spec_example 0 1)"
      and h = "\<lambda>_ t. (Some (''ValueError'', ''boom''), t)"
      and ?t2.0 = "[take_lock 5 ''h:1'' (new_job spec_example 0 1)]" and res = "Some (''ValueError'', ''boom'')"
      and ?t1.0 = "[take_lock 5 ''h:1'' (new_job spec_example 0 1)]", OF _ _ _ _ _ _ _ _ _ surjective_pairing]
    claim_example_eq claimed_inv
  show ?thesis
    by (auto simp: settings_example_def worker_env_example_def claim_example_def snapshot_claimed_job_def
        take_lock_def owned_by_def spares_def spec_example_def new_job_def)
qed

theorem dq_failing_job_runs_max_attempts_times_witness:
  "\<exists>j'. worker_iterations settings_example ''h:1'' [''default'']
       [worker_env_example, worker_env_example\<lparr>env_claim := claim_env_example\<lparr>claim_now := 6 + seconds 3600\<rparr>\<rparr>]
       (jobs db_example) = ([Served 1, Served 1], [j']) \<and> job_status j' = Failed \<and> job_attempts j' = 2"
  using dq_failing_job_runs_max_attempts_times [where j = "new_job spec_example 0 1" and err = "(''ValueError'', ''boom'')"
      and es = "[worker_env_example, worker_env_example\<lparr>env_claim := claim_env_example\<lparr>claim_now := 6 + seconds 3600\<rparr>\<rparr>]"
      and st = settings_example and w = "''h:1''" and qs = "[''default'']"]
  by (simp add: failing_env_def worker_env_example_def claim_env_example_def settings_example_def spec_example_def
      db_example_def new_job_def numeral_2_eq_2) auto

text \<open>Stale-lock recovery does not look at the attempts: a job whose worker dies each time.\<close>

definition crash_round :: "int \<Rightarrow> string \<Rightarrow> string list \<Rightarrow> claim_env \<times> claim_env \<Rightarrow> durable_job list \<Rightarrow> durable_job list" where
  "crash_round ttl w qs r t = snd (claim_one ttl w qs (snd r) (snd (claim_one ttl w qs (fst r) t)))"

text \<open>A round: the recovery happens after the lock expired, in a claim whose \<open>now\<close> was read just
  before it, and the next claim finds the recovered job.\<close>

fun crash_paced :: "int \<Rightarrow> datetime \<Rightarrow> (claim_env \<times> claim_env) list \<Rightarrow> bool" where
  "crash_paced ttl l [] = True"
| "crash_paced ttl l ((a, b) # rs) =
     (l < recovery_now a - seconds ttl \<and> \<not> recovery_fails a \<and> claim_now a < recovery_now a
      \<and> recovery_now a \<le> claim_now b \<and> \<not> claim_fails b \<and> held_ids b = (\<lambda>_. False)
      \<and> crash_paced ttl (claim_now b) rs)"

lemma crash_round_single:
  assumes "job_status j = Running" and "job_locked_at j = Some l" and "job_queue j \<in> set qs" and "job_queue j \<noteq> []"
    and "crash_paced ttl l ((a, b) # rs)"
  shows "\<exists>j'. crash_round ttl w qs (a, b) [j] = [j'] \<and> job_status j' = Running
    \<and> job_locked_at j' = Some (claim_now b) \<and> job_queue j' = job_queue j
    \<and> job_max_attempts j' = job_max_attempts j \<and> job_attempts j' = job_attempts j + 1"
proof -
  let ?j = "requeue (recovery_now a) ''[recovered stale lock]'' j"
  let ?k = "take_lock (claim_now b) w ?j"
  have r: "snd (recover_stale_locks ttl (recovery_now a) (recovery_fails a) [j]) = [?j]"
    using assms by (simp add: recover_stale_locks_def sql_update_def stale_def)
  have "first_claimable (claim_now a) (held_ids a) qs' [?j] = None" for qs'
    using assms by (simp add: first_claimable_None claimable_def requeue_def)
  then have "snd (claim_one ttl w qs a [j]) = [?j]" by (simp add: claim_one_def Let_def r)
  moreover have "first_claimable (claim_now b) (held_ids b) (filter (\<lambda>q. q \<noteq> []) qs) [?j] = Some ?j"
    by (rule first_claimable_single [where q = "job_queue j"])
      (use assms in \<open>simp_all add: claimable_def requeue_def\<close>)
  then have "snd (claim_one ttl w qs b [?j]) = [?k]"
    using assms(5) by (simp add: claim_one_def Let_def recover_none requeue_def sql_update_def)
  ultimately have "crash_round ttl w qs (a, b) [j] = [?k]" by (simp add: crash_round_def)
  then show ?thesis by (simp add: take_lock_def requeue_def)
qed

text \<open>The attempts limit does not bound how often a job is run when its worker dies: after any
  number of rounds of crash, stale-lock recovery and claim, the job is running again with that
  many more attempts, whatever its \<open>max_attempts\<close>.\<close>

theorem dq_crash_loop_ignores_max_attempts:
  assumes "job_status j = Running" and "job_locked_at j = Some l" and "job_queue j \<in> set qs" and "job_queue j \<noteq> []"
    and "crash_paced ttl l rs"
  shows "\<exists>j'. fold (crash_round ttl w qs) rs [j] = [j'] \<and> job_status j' = Running
    \<and> job_attempts j' = job_attempts j + int (length rs) \<and> job_max_attempts j' = job_max_attempts j"
  using assms
proof (induction rs arbitrary: j l)
  case Nil
  then show ?case by simp
next
  case (Cons r rs)
  obtain a b where r: "r = (a, b)" by (cases r)
  from crash_round_single [OF Cons.prems(1-4) Cons.prems(5) [unfolded r], of w] obtain j'
    where j': "crash_round ttl w qs (a, b) [j] = [j']" "job_status j' = Running"
      "job_locked_at j' = Some (claim_now b)" "job_queue j' = job_queue j"
      "job_max_attempts j' = job_max_attempts j" "job_attempts j' = job_attempts j + 1" by blast
  from Cons.prems(5) r have "crash_paced ttl (claim_now b) rs" by simp
  from Cons.IH [OF j'(2,3) _ _ this] j' Cons.prems(3,4) r show ?case by (simp add: ac_simps)
qed

theorem dq_crash_loop_ignores_max_attempts_witness:
  "\<exists>j'. fold (crash_round 1 ''h:1'' [''default''])
      (replicate 1 (claim_env_example\<lparr>claim_now := seconds 9, recovery_now := seconds 9 + 1\<rparr>,
                    claim_env_example\<lparr>claim_now := seconds 10\<rparr>))
      [(take_lock 5 ''h:1'' (new_job spec_example 0 1))\<lparr>job_attempts := 2\<rparr>] = [j']
    \<and> job_status j' = Running \<and> job_attempts j' = 3 \<and> job_max_attempts j' = 2"
  using dq_crash_loop_ignores_max_attempts [where j = "(take_lock 5 ''h:1'' (new_job spec_example 0 1))\<lparr>job_attempts := 2\<rparr>"
      and l = 5 and ttl = 1 and qs = "[''default'']" and w = "''h:1''"
      and rs = "replicate 1 (claim_env_example\<lparr>claim_now := seconds 9, recovery_now := seconds 9 + 1\<rparr>,
                    claim_env_example\<lparr>claim_now := seconds 10\<rparr>)"]
  by (simp add: take_lock_def new_job_def spec_example_def claim_env_example_def seconds_def)

section \<open>The job lock heartbeat\<close>

lemma job_lock_interval_bounds:
  "5 \<le> job_lock_interval st" "15 \<le> lock_ttl_seconds st \<Longrightarrow> 3 * job_lock_interval st \<le> lock_ttl_seconds st"
proof -
  show "5 \<le> job_lock_interval st" by (simp add: job_lock_interval_def Let_def)
  assume ttl: "15 \<le> lock_ttl_seconds st"
  then have "5 \<le> lock_ttl_seconds st div 3" by linarith
  with ttl have "job_lock_interval st \<le> lock_ttl_seconds st div 3"
    by (auto simp: job_lock_interval_def Let_def)
  then show "3 * job_lock_interval st \<le> lock_ttl_seconds st" by linarith
qed

lemma refresh_owned:
  assumes "i \<noteq> 0" and "j \<in> set t" and "owned_by w i j"
  shows "\<exists>t' j'. refresh_job_lock w i now False t = (True, t') \<and> j' \<in> set t' \<and> owned_by w i j'
    \<and> job_locked_at j' = Some now"
proof -
  have "0 < rowcount (owned_by w i) t" using assms(2,3) by (metis rowcount_0 gr0I)
  moreover have "j\<lparr>job_locked_at := Some now\<rparr> \<in> set (sql_update (owned_by w i) (\<lambda>j. j\<lparr>job_locked_at := Some now\<rparr>) t)"
    using owned_update_hit [OF assms(2,3), of "\<lambda>j. j\<lparr>job_locked_at := Some now\<rparr>"] .
  moreover have "owned_by w i (j\<lparr>job_locked_at := Some now\<rparr>)" using assms(3) by (simp add: owned_by_def)
  ultimately show ?thesis using assms(1) by (force simp: refresh_job_lock_def)
qed

text \<open>With a time-to-live of at least 15 seconds, a heartbeat that reaches the database keeps
  the lease: it serves every tick, and from its last tick the lock outlives the next two missed
  ticks, so that the stale-lock recovery leaves the job alone.\<close>

theorem dq_heartbeat_keeps_lease:
  assumes "15 \<le> lock_ttl_seconds st" and "i \<noteq> 0" and "ticks \<noteq> []"
    and "\<forall>(tick, db_fails, others) \<in> set ticks. \<not> db_fails
      \<and> (\<forall>t j. j \<in> set t \<and> owned_by w i j \<longrightarrow> j \<in> set (others t))"
    and "j \<in> set t" and "owned_by w i j"
    and "job_lock_heartbeat w i ticks t = (t', unserved)"
    and "now \<le> fst (last ticks) + seconds (3 * job_lock_interval st)"
  shows "unserved = 0 \<and> (\<exists>j' \<in> set t'. owned_by w i j' \<and> job_locked_at j' = Some (fst (last ticks))
    \<and> j' \<in> set (snd (recover_stale_locks (lock_ttl_seconds st) now f t')))"
proof -
  have "unserved = 0 \<and> (\<exists>j' \<in> set t'. owned_by w i j' \<and> job_locked_at j' = Some (fst (last ticks)))"
    using assms(3-7)
  proof (induction ticks arbitrary: t j)
    case Nil
    then show ?case by simp
  next
    case (Cons tick ticks)
    obtain now db_fails others where tick: "tick = (now, db_fails, others)" by (cases tick) auto
    with Cons.prems(2-4) have "j \<in> set (others t)" and ok: "\<not> db_fails" by auto
    from refresh_owned [OF assms(2) this(1) Cons.prems(4), of now] obtain t1 j1
      where r: "refresh_job_lock w i now False (others t) = (True, t1)"
        and j1: "j1 \<in> set t1" "owned_by w i j1" "job_locked_at j1 = Some now" by blast
    show ?case
    proof (cases "ticks = []")
      case True
      with Cons.prems(5) r ok j1 tick show ?thesis by auto
    next
      case False
      have "job_lock_heartbeat w i ticks t1 = (t', unserved)" using Cons.prems(5) r ok tick by simp
      from Cons.IH [OF False _ j1(1,2) this] Cons.prems(2) False show ?thesis by simp
    qed
  qed
  moreover have "j' \<in> set (snd (recover_stale_locks (lock_ttl_seconds st) now f t'))"
    if "j' \<in> set t'" "job_locked_at j' = Some (fst (last ticks))" for j'
  proof (rule recover_stale_live [OF that(1)])
    have "seconds (3 * job_lock_interval st) \<le> seconds (lock_ttl_seconds st)"
      using job_lock_interval_bounds(2) [OF assms(1)] by simp
    with assms(8) have "now - seconds (lock_ttl_seconds st) \<le> fst (last ticks)" by linarith
    with that(2) show "\<not> stale (now - seconds (lock_ttl_seconds st)) j'" by (simp add: stale_def)
  qed
  ultimately show ?thesis by blast
qed

theorem dq_heartbeat_keeps_lease_witness:
  "snd (job_lock_heartbeat ''h:1'' 1 [(seconds 30, False, id), (seconds 60, False, id)]
      [take_lock 5 ''h:1'' (new_job spec_example 0 1)]) = 0"
  using dq_heartbeat_keeps_lease [where st = settings_example and i = 1 and w = "''h:1''"
      and ticks = "[(seconds 30, False, id), (seconds 60, False, id)]" and now = 0
      and t = "[take_lock 5 ''h:1'' (new_job spec_example 0 1)]" and j = "take_lock 5 ''h:1'' (new_job spec_example 0 1)",
      OF _ _ _ _ _ _ surjective_pairing]
  by (simp add: settings_example_def take_lock_def owned_by_def job_lock_interval_def seconds_def)

text \<open>One refresh that meets a database error ends the heartbeat for good: no later tick is
  served, the lock ages from its last refresh, and with a time-to-live below five seconds even a
  healthy heartbeat comes too late.\<close>

theorem dq_heartbeat_ends_at_first_error:
  "snd (job_lock_heartbeat w i ((now, True, others) # ticks) t) = length ticks
   \<and> fst (job_lock_heartbeat w i ((now, True, others) # ticks) t) = fold (\<lambda>(n, f, oth) x. oth x) ticks (others t)
   \<and> (1 \<le> lock_ttl_seconds st \<and> lock_ttl_seconds st < 5 \<longrightarrow> lock_ttl_seconds st < job_lock_interval st)"
  using job_lock_interval_bounds(1) [of st] by (simp add: refresh_job_lock_def)

theorem dq_heartbeat_ends_at_first_error_witness:
  "lock_ttl_seconds (settings_example\<lparr>lock_ttl_seconds := 4\<rparr>) < job_lock_interval (settings_example\<lparr>lock_ttl_seconds := 4\<rparr>)"
  using dq_heartbeat_ends_at_first_error [where st = "settings_example\<lparr>lock_ttl_seconds := 4\<rparr>"]
  by simp

section \<open>Staged jobs\<close>

lemma enqueue_all_unkeyed:
  assumes "dq_inv db" and "\<forall>a \<in> set specs. clean_optional (spec_dedupe_key a) = None \<and> \<not> fails a"
  shows "jobs (enqueue_all fails now specs db) =
    jobs db @ map (\<lambda>(a, n). new_job a now n) (zip specs (map (\<lambda>n. next_job_id db + int n) [0..<length specs]))"
  using assms
proof (induction specs arbitrary: db)
  case Nil
  then show ?case by simp
next
  case (Cons a specs)
  let ?job = "new_job a now (next_job_id db)"
  let ?db = "db\<lparr>jobs := jobs db @ [?job], next_job_id := next_job_id db + 1\<rparr>"
  from Cons.prems have none: "clean_optional (spec_dedupe_key a) = None" and "\<not> fails a" by simp_all
  moreover have ok: "dedupe_index_ok (jobs db @ [?job])"
    by (subst dedupe_index_append) (use Cons.prems none in \<open>auto simp: dq_inv_def jobs_inv_def\<close>)
  ultimately have "snd (enqueue a now (fails a) (jobs db) db) = ?db"
    by (simp add: enqueue_def Let_def find_existing_deduped_job_def)
  moreover have "dq_inv ?db" using dq_keeps_insert [OF ok] Cons.prems(1) by (simp add: dq_keeps_def)
  moreover have "map (\<lambda>n. next_job_id db + int n) [0..<length (a # specs)]
      = next_job_id db # map (\<lambda>n. next_job_id db + 1 + int n) [0..<length specs]"
    by (simp only: length_Cons upt_conv_Cons [OF zero_less_Suc] list.map map_Suc_upt [symmetric] map_map)
      (simp add: comp_def)
  ultimately show ?case using Cons.IH [of ?db] Cons.prems(2) by simp
qed

text \<open>Jobs staged on a session reach the queue exactly when its outer transaction commits: a
  commit of a nested transaction leaves them staged, a rollback drops them, and the commit turns
  each staged request into one job, in order, with consecutive ids, and empties the stage.\<close>

theorem dq_staged_jobs_follow_the_transaction:
  assumes "dq_inv db" and "\<forall>a \<in> set specs. clean_optional (spec_dedupe_key a) = None \<and> \<not> fails a"
  shows "drain_after_commit_enqueues True fails now (Some specs, db) = (Some specs, db)
    \<and> drain_after_commit_enqueues b fails now (clear_after_commit_enqueues (Some specs), db) = (None, db)
    \<and> fst (drain_after_commit_enqueues False fails now (Some specs, db)) = None
    \<and> jobs (snd (drain_after_commit_enqueues False fails now (Some specs, db))) =
        jobs db @ map (\<lambda>(a, n). new_job a now n) (zip specs (map (\<lambda>n. next_job_id db + int n) [0..<length specs]))"
  using enqueue_all_unkeyed [OF assms]
  by (simp add: drain_after_commit_enqueues_def clear_after_commit_enqueues_def)

theorem dq_staged_jobs_follow_the_transaction_witness:
  "jobs (snd (drain_after_commit_enqueues False (\<lambda>_. False) 3
      (Some [spec_example\<lparr>spec_dedupe_key := None\<rparr>, spec_example\<lparr>spec_dedupe_key := Some ''  ''\<rparr>], db_example)))
    = jobs db_example @ [new_job (spec_example\<lparr>spec_dedupe_key := None\<rparr>) 3 2,
                         new_job (spec_example\<lparr>spec_dedupe_key := Some ''  ''\<rparr>) 3 3]"
  using dq_staged_jobs_follow_the_transaction [OF dq_inv_example,
      of "[spec_example\<lparr>spec_dedupe_key := None\<rparr>, spec_example\<lparr>spec_dedupe_key := Some ''  ''\<rparr>]" "\<lambda>_. False" 3 True]
  by (simp add: clean_optional_def strip_def strip_chars_def lstrip_chars_def rstrip_chars_def is_space_def
      db_example_def upt_conv_Cons)

section \<open>Diagnostics\<close>

text \<open>The retry cause shown for a job: the markers of the two lock recoveries are recognised,
  while the marker a manual retry writes is not (it starts with a backslash and an n, not with a
  line break), so that the cause shown is the raw marker itself.\<close>

theorem dq_manual_retry_marker_not_recognised:
  "map_option (\<lambda>j. visible_retry_cause (job_last_error j))
      (find (\<lambda>j. job_id j = 1) (snd (retry_job 1 4 (jobs db_done_example)))) = Some (CHR 0x5C # ''n[manual retry]'')
   \<and> visible_retry_cause (job_last_error (requeue 4 ''[recovered stale lock]'' job_done_example)) = ''stale lock recovered''
   \<and> visible_retry_cause (job_last_error (requeue 4 ''[manual retry]'' job_done_example)) = ''manual retry''"
  by code_simp

end
