(* ===== verification/Annuity_Sync_Queue.thy ===== *)
theory Annuity_Sync_Queue
  imports Lease_Core "HOL-Library.Char_ord" "HOL-Library.List_Lexorder"
    "HOL-Library.Product_Lexorder"
begin

text \<open>
  The annuity-to-workflow synchronisation queue
  (\<open>app/services/annuity/annuity_sync_queue.py\<close>, tables \<open>annuity_workflow_sync_queue\<close> and
  \<open>annuity_workflow_sync_dead_letter\<close>).

  A row asks for the workflows of one matter to be rebuilt from its annuities. Producers upsert a
  row without committing; a drain locks one row at a time, runs the rebuild
  (\<open>sync_annuity_workflows_for_matter\<close>, an argument), and removes the row, schedules a retry, or
  moves the row to the dead letters.

  The state keeps the committed table, the session's own view of it (they differ while an upsert
  is pending), the dead letters, and the committed domain data the rebuild works on (type
  \<open>'d\<close>), because one transaction carries the rebuild's writes and the queue's statement.
\<close>

section \<open>Data\<close>

text \<open>The payload column is the JSON text of the reason; it is modelled by the reason.\<close>

record aq_row = lease_row +
  aq_matter_id :: string
  aq_payload :: "string option"

type_synonym aq_table = "aq_row list"

record aq_dead_letter =
  dl_matter_id :: string
  dl_payload :: "string option"
  dl_attempts :: int
  dl_last_error :: string
  dead_letter_reason :: string
  dead_lettered_at :: datetime

record 'd aq_state =
  aq_committed :: aq_table
  aq_session :: aq_table
  aq_dead_letters :: "aq_dead_letter list"
  aq_domain :: 'd
  aq_processed :: int

record aq_config =
  aq_max_attempts :: int
  aq_base :: int
  aq_cap :: int
  aq_lock_timeout :: int

definition aq_commit :: "aq_table \<Rightarrow> 'd aq_state \<Rightarrow> 'd aq_state" where
  "aq_commit t s = s\<lparr>aq_committed := t, aq_session := t\<rparr>"

section \<open>Producer\<close>

definition aq_upsert :: "datetime \<Rightarrow> string \<Rightarrow> string option \<Rightarrow> aq_table \<Rightarrow> aq_table" where
  "aq_upsert now mid pl t =
     (if \<exists>r \<in> set t. aq_matter_id r = mid
      then sql_update (\<lambda>r. aq_matter_id r = mid)
             (\<lambda>r. r\<lparr>aq_payload := (if pl = None then aq_payload r else pl),
                    updated_at := now,
                    next_run_at := (case next_run_at r of None \<Rightarrow> Some now
                       | Some n \<Rightarrow> if n \<le> now then Some now else Some n)\<rparr>) t
      else t @ [\<lparr>attempts = 0, next_run_at = Some now, locked_at = None, lock_token = None,
                 last_error = None, created_at = now, updated_at = now,
                 aq_matter_id = mid, aq_payload = pl\<rparr>])"

definition enqueue_annuity_matter_rebuild ::
  "datetime \<Rightarrow> bool \<Rightarrow> string option \<Rightarrow> string option \<Rightarrow> aq_table \<Rightarrow> aq_table"
where
  "enqueue_annuity_matter_rebuild now db_fails mid_arg why t =
     (let mid = strip (or_empty mid_arg);
          pl = or_none (or_empty why) in
      if mid = [] then t
      else if db_fails then t
      else aq_upsert now mid pl t)"

section \<open>Taking rows\<close>

definition aq_compute_backoff_seconds :: "int \<Rightarrow> int \<Rightarrow> int \<Rightarrow> int" where
  "aq_compute_backoff_seconds tries base cap = min cap (base * 2 ^ nat (max 0 (tries - 1)))"

definition aq_ready :: "datetime \<Rightarrow> int \<Rightarrow> int \<Rightarrow> aq_row \<Rightarrow> bool" where
  "aq_ready now max_attempts lock_timeout r \<longleftrightarrow>
     lock_open (now - seconds lock_timeout) r \<and> run_due now r \<and> attempts r < max_attempts"

definition aq_order_key :: "aq_row \<Rightarrow> datetime \<times> datetime" where
  "aq_order_key r = ((case next_run_at r of None \<Rightarrow> created_at r | Some n \<Rightarrow> n), updated_at r)"

definition aq_lock :: "datetime \<Rightarrow> string \<Rightarrow> aq_row \<Rightarrow> aq_row" where
  "aq_lock now token r =
     r\<lparr>locked_at := Some now, lock_token := Some token, attempts := attempts r + 1,
       last_error := None, updated_at := now\<rparr>"

definition aq_candidates :: "int \<Rightarrow> datetime \<Rightarrow> int \<Rightarrow> int \<Rightarrow> (string \<Rightarrow> bool) \<Rightarrow> aq_table \<Rightarrow> string list" where
  "aq_candidates limit now max_attempts lock_timeout held t =
     filter (\<lambda>m. m \<noteq> []) (map aq_matter_id (take (nat limit) (sort_key aq_order_key
       (filter (\<lambda>r. aq_ready now max_attempts lock_timeout r \<and> \<not> held (aq_matter_id r)) t))))"

definition aq_pick_and_lock_ready_items ::
  "int \<Rightarrow> datetime \<Rightarrow> string \<Rightarrow> int \<Rightarrow> int \<Rightarrow> (string \<Rightarrow> bool) \<Rightarrow> bool \<Rightarrow> aq_table \<Rightarrow> aq_table \<Rightarrow> aq_table \<times> string list"
where
  "aq_pick_and_lock_ready_items limit now token max_attempts lock_timeout held db_fails committed t =
     (if db_fails then (committed, [])
      else map_prod id (map aq_matter_id)
        (lease_rows aq_matter_id lock_token (aq_ready now max_attempts lock_timeout) (aq_lock now token)
           token (aq_candidates limit now max_attempts lock_timeout held t) committed t))"

definition aq_lock_specific_items ::
  "string list \<Rightarrow> datetime \<Rightarrow> string \<Rightarrow> int \<Rightarrow> int \<Rightarrow> bool \<Rightarrow> aq_table \<Rightarrow> aq_table \<Rightarrow> aq_table \<times> string list"
where
  "aq_lock_specific_items ids now token max_attempts lock_timeout db_fails committed t =
     (if db_fails then (committed, [])
      else let mids = filter (\<lambda>m. m \<noteq> []) (map aq_matter_id (filter (\<lambda>r. aq_matter_id r \<in> set ids
             \<and> aq_ready now max_attempts lock_timeout r) t))
       in map_prod id (map aq_matter_id)
         (lease_rows aq_matter_id lock_token (aq_ready now max_attempts lock_timeout) (aq_lock now token)
            token mids committed t))"

section \<open>Draining\<close>

text \<open>
  The environment of one item: the rebuild (its error, if any, and the domain data with its
  writes, complete or not), what other transactions commit to the table meanwhile, whether the
  heartbeat lost the lock, which statements fail, and the clock.
\<close>

record 'd aq_env =
  aq_sync :: "string \<Rightarrow> 'd \<Rightarrow> string option \<times> 'd"
  aq_meanwhile :: "aq_table \<Rightarrow> aq_table"
  aq_heartbeat_lost :: bool
  aq_read_fails :: bool
  aq_delete_fails :: bool
  aq_attempts_read_fails :: bool
  aq_dead_letter_fails :: bool
  aq_record_fails :: bool
  aq_db_error :: string
  aq_clock :: datetime

definition aq_owned :: "string \<Rightarrow> string \<Rightarrow> aq_row \<Rightarrow> bool" where
  "aq_owned mid token r \<longleftrightarrow> aq_matter_id r = mid \<and> lock_token r = Some token"

text \<open>The guarded part of \<open>_drain_one\<close>: the domain data it is about to commit, or the error and
  the writes that are pending in the session at that point.\<close>

definition aq_try_one ::
  "'d aq_env \<Rightarrow> string \<Rightarrow> string \<Rightarrow> aq_table \<Rightarrow> 'd \<Rightarrow> (string \<times> 'd) + 'd"
where
  "aq_try_one env token mid t d =
     (if aq_read_fails env then Inl (aq_db_error env, d)
      else case aq_sync env mid d of
        (Some err, d1) \<Rightarrow> Inl (err, d1)
      | (None, d1) \<Rightarrow>
          if aq_heartbeat_lost env then Inl (''annuity sync lock lost during processing'', d1)
          else if aq_delete_fails env then Inl (aq_db_error env, d1)
          else if rowcount (aq_owned mid token) t = 0
          then Inl (''annuity sync lock lost before finalize'', d)
          else Inr d1)"

definition dead_letter :: "string \<Rightarrow> string option \<Rightarrow> int \<Rightarrow> string \<Rightarrow> datetime \<Rightarrow> aq_dead_letter" where
  "dead_letter mid pl tries err now =
     \<lparr>dl_matter_id = mid, dl_payload = pl, dl_attempts = tries, dl_last_error = err,
      dead_letter_reason = ''max_attempts_exceeded'', dead_lettered_at = now\<rparr>"

definition aq_record_failure ::
  "aq_config \<Rightarrow> 'd aq_env \<Rightarrow> string \<Rightarrow> string \<Rightarrow> string \<Rightarrow> 'd \<Rightarrow> aq_table \<Rightarrow> 'd aq_state \<Rightarrow> 'd aq_state"
where
  "aq_record_failure cfg env token mid e d1 t s =
     (let err = take 4000 (if e = [] then ''unknown error'' else e);
          row = (if aq_attempts_read_fails env then None else sql_first (\<lambda>r. aq_matter_id r = mid) t);
          tries = (case row of None \<Rightarrow> 0 | Some r \<Rightarrow> attempts r);
          pl = (case row of None \<Rightarrow> None | Some r \<Rightarrow> aq_payload r);
          now = aq_clock env in
      if aq_record_fails env then aq_commit t s
      else if aq_max_attempts cfg \<le> tries \<and> 0 < tries then
        (aq_commit (sql_delete (aq_owned mid token) t) s)\<lparr>
           aq_dead_letters := (if aq_dead_letter_fails env then aq_dead_letters s
                               else aq_dead_letters s @ [dead_letter mid pl tries err now]),
           aq_domain := d1\<rparr>
      else if rowcount (aq_owned mid token) t = 0 then aq_commit t s
      else (aq_commit (sql_update (aq_owned mid token)
              (\<lambda>r. r\<lparr>last_error := Some err,
                     next_run_at := Some (now + seconds (aq_compute_backoff_seconds (max 1 tries) (aq_base cfg) (aq_cap cfg))),
                     locked_at := None, lock_token := None, updated_at := now\<rparr>) t) s)\<lparr>aq_domain := d1\<rparr>)"

definition aq_drain_one ::
  "aq_config \<Rightarrow> 'd aq_env \<Rightarrow> string \<Rightarrow> string \<Rightarrow> 'd aq_state \<Rightarrow> 'd aq_state"
where
  "aq_drain_one cfg env token mid s =
     (let t = aq_meanwhile env (aq_committed s) in
      case aq_try_one env token mid t (aq_domain s) of
        Inr d1 \<Rightarrow> (aq_commit (sql_delete (aq_owned mid token) t) s)\<lparr>
                    aq_domain := d1, aq_processed := aq_processed s + 1\<rparr>
      | Inl (e, d1) \<Rightarrow> aq_record_failure cfg env token mid e d1 t s)"

text \<open>Per lock attempt: the time, the rows held elsewhere, whether the statements fail, and the
  environment of the item.\<close>

record 'd aq_turn =
  turn_now :: datetime
  turn_held :: "string \<Rightarrow> bool"
  turn_fails :: bool
  turn_env :: "'d aq_env"

fun aq_drain_requested ::
  "aq_config \<Rightarrow> string \<Rightarrow> (string \<Rightarrow> 'd aq_turn) \<Rightarrow> string list \<Rightarrow> 'd aq_state \<Rightarrow> 'd aq_state"
where
  "aq_drain_requested cfg token turns [] s = s"
| "aq_drain_requested cfg token turns (mid # mids) s =
     (let (t', locked) = aq_lock_specific_items [mid] (turn_now (turns mid)) token (aq_max_attempts cfg)
            (aq_lock_timeout cfg) (turn_fails (turns mid)) (aq_committed s) (aq_session s);
          s' = aq_commit t' s in
      aq_drain_requested cfg token turns mids
        (if locked = [] then s' else aq_drain_one cfg (turn_env (turns mid)) token mid s'))"

fun aq_drain_ready ::
  "aq_config \<Rightarrow> string \<Rightarrow> (nat \<Rightarrow> 'd aq_turn) \<Rightarrow> nat \<Rightarrow> 'd aq_state \<Rightarrow> 'd aq_state"
where
  "aq_drain_ready cfg token turns 0 s = s"
| "aq_drain_ready cfg token turns (Suc left) s =
     (let (t', mids) = aq_pick_and_lock_ready_items 1 (turn_now (turns left)) token (aq_max_attempts cfg)
            (aq_lock_timeout cfg) (turn_held (turns left)) (turn_fails (turns left)) (aq_committed s) (aq_session s);
          s' = aq_commit t' s in
      case mids of [] \<Rightarrow> s'
      | mid # _ \<Rightarrow> aq_drain_ready cfg token turns left (aq_drain_one cfg (turn_env (turns left)) token mid s'))"

definition drain_annuity_sync_queue ::
  "aq_config \<Rightarrow> string \<Rightarrow> (string \<Rightarrow> 'd aq_turn) \<Rightarrow> (nat \<Rightarrow> 'd aq_turn) \<Rightarrow> int \<Rightarrow> string option list option
    \<Rightarrow> 'd aq_state \<Rightarrow> int \<times> 'd aq_state"
where
  "drain_annuity_sync_queue cfg token turns ready_turns limit matter_ids s =
     (let s0 = s\<lparr>aq_processed := 0\<rparr>;
          s1 = (case matter_ids of
                  Some ids \<Rightarrow> aq_drain_requested cfg token turns
                    (map strip (filter (\<lambda>m. strip m \<noteq> []) (map or_empty ids))) s0
                | None \<Rightarrow> aq_drain_ready cfg token ready_turns (nat limit) s0)
      in (aq_processed s1, s1))"

section \<open>The durable task\<close>

record aq_task =
  task_annuity_ids :: "string list"
  task_matter_ids :: "string list"
  task_ensure :: bool
  task_refresh :: bool

record aq_task_result =
  res_processed :: int
  res_annuity_ids :: int
  res_matter_ids :: int
  res_ensured :: int

text \<open>\<open>ensure_annuities_for_matter\<close> is an argument: an error, or the count, with its writes.\<close>

fun aq_ensure_all ::
  "(string \<Rightarrow> bool \<Rightarrow> 'd \<Rightarrow> (string + int) \<times> 'd) \<Rightarrow> bool \<Rightarrow> string list \<Rightarrow> int \<Rightarrow> 'd \<Rightarrow> (string + int) \<times> 'd"
where
  "aq_ensure_all ensure refresh [] n d = (Inr n, d)"
| "aq_ensure_all ensure refresh (mid # mids) n d =
     (case ensure mid refresh d of
        (Inl e, d') \<Rightarrow> (Inl e, d')
      | (Inr k, d') \<Rightarrow> aq_ensure_all ensure refresh mids (n + k) d')"

definition clean_ids :: "string list \<Rightarrow> string list" where
  "clean_ids ids = sort (remdups (filter (\<lambda>m. m \<noteq> []) (map strip ids)))"

definition run_annuity_workflow_sync_task ::
  "aq_config \<Rightarrow> string \<Rightarrow> (string \<Rightarrow> 'd aq_turn) \<Rightarrow> (nat \<Rightarrow> 'd aq_turn)
    \<Rightarrow> (string \<Rightarrow> bool \<Rightarrow> 'd \<Rightarrow> (string + int) \<times> 'd) \<Rightarrow> (string \<times> string option) list \<Rightarrow> datetime
    \<Rightarrow> aq_task \<Rightarrow> 'd aq_state \<Rightarrow> (string + aq_task_result) \<times> 'd aq_state"
where
  "run_annuity_workflow_sync_task cfg token turns ready_turns ensure annuity_items now data s =
     (let annuity_ids = clean_ids (task_annuity_ids data);
          found = concat (map (\<lambda>(aid, mid). if aid \<in> set annuity_ids then [or_empty mid] else []) annuity_items);
          matter_ids = sort (remdups (clean_ids (task_matter_ids data) @ filter (\<lambda>m. m \<noteq> []) found));
          ensured = (if task_ensure data \<and> matter_ids \<noteq> []
                     then aq_ensure_all ensure (task_refresh data) matter_ids 0 (aq_domain s)
                     else (Inr 0, aq_domain s)) in
      case ensured of
        (Inl e, d) \<Rightarrow> (Inl e, aq_commit (aq_committed s) s)
      | (Inr n, d) \<Rightarrow>
          let s1 = (if task_ensure data \<and> matter_ids \<noteq> []
                    then (aq_commit (aq_session s) s)\<lparr>aq_domain := d\<rparr> else s);
              s2 = s1\<lparr>aq_session := fold (\<lambda>mid. enqueue_annuity_matter_rebuild now False (Some mid) (Some ''durable_queue''))
                       matter_ids (aq_session s1)\<rparr>;
              (k, s3) = (if matter_ids \<noteq> []
                         then drain_annuity_sync_queue cfg token turns ready_turns 200 (Some (map Some matter_ids)) s2
                         else drain_annuity_sync_queue cfg token turns ready_turns 200 None s2)
          in (Inr \<lparr>res_processed = k, res_annuity_ids = int (length annuity_ids),
                   res_matter_ids = int (length matter_ids), res_ensured = n\<rparr>, s3))"

section \<open>Well-formed tables\<close>

definition aq_row_ok :: "aq_row \<Rightarrow> bool" where
  "aq_row_ok r \<longleftrightarrow> (lock_token r = None \<longleftrightarrow> locked_at r = None) \<and> 0 \<le> attempts r \<and> aq_matter_id r \<noteq> []"

definition aq_wf :: "aq_table \<Rightarrow> bool" where
  "aq_wf t \<longleftrightarrow> distinct (map aq_matter_id t) \<and> (\<forall>r \<in> set t. aq_row_ok r)"

definition aq_clean :: "'d aq_state \<Rightarrow> bool" where
  "aq_clean s \<longleftrightarrow> aq_session s = aq_committed s \<and> aq_wf (aq_committed s)"

lemma aq_wf_update:
  assumes "aq_wf t" and "\<And>r. p r \<Longrightarrow> aq_matter_id (f r) = aq_matter_id r" and "\<And>r. p r \<Longrightarrow> aq_row_ok r \<Longrightarrow> aq_row_ok (f r)"
  shows "aq_wf (sql_update p f t)"
proof -
  have "map aq_matter_id (sql_update p f t) = map aq_matter_id t"
    using assms(2) by (intro sql_update_keys)
  moreover have "\<forall>r \<in> set (sql_update p f t). aq_row_ok r"
    using assms(1,3) by (auto simp: aq_wf_def set_sql_update)
  ultimately show ?thesis using assms(1) by (simp add: aq_wf_def)
qed

lemma aq_wf_delete: "aq_wf t \<Longrightarrow> aq_wf (sql_delete p t)"
  by (auto simp: aq_wf_def table_simps)

lemma aq_wf_upsert: "aq_wf t \<Longrightarrow> mid \<noteq> [] \<Longrightarrow> aq_wf (aq_upsert now mid pl t)"
proof (cases "\<exists>r \<in> set t. aq_matter_id r = mid")
  case True
  assume "aq_wf t"
  then have "aq_wf (sql_update (\<lambda>r. aq_matter_id r = mid)
      (\<lambda>r. r\<lparr>aq_payload := (if pl = None then aq_payload r else pl), updated_at := now,
        next_run_at := (case next_run_at r of None \<Rightarrow> Some now | Some n \<Rightarrow> if n \<le> now then Some now else Some n)\<rparr>) t)"
    by (rule aq_wf_update) (simp_all add: aq_row_ok_def)
  then show ?thesis using True by (simp add: aq_upsert_def)
next
  case False
  assume "aq_wf t" "mid \<noteq> []"
  with False show ?thesis by (auto simp: aq_upsert_def aq_wf_def aq_row_ok_def)
qed

lemma aq_wf_enqueue: "aq_wf t \<Longrightarrow> aq_wf (enqueue_annuity_matter_rebuild now f m why t)"
  by (simp add: enqueue_annuity_matter_rebuild_def Let_def aq_wf_upsert)

lemma aq_wf_lock: "aq_wf t \<Longrightarrow> aq_wf (sql_update p (aq_lock now tok) t)"
  by (rule aq_wf_update) (auto simp: aq_lock_def aq_row_ok_def)

lemma aq_wf_release:
  "aq_wf t \<Longrightarrow> aq_wf (sql_update p (\<lambda>r. r\<lparr>last_error := e, next_run_at := n, locked_at := None,
     lock_token := None, updated_at := u\<rparr>) t)"
  by (rule aq_wf_update) (simp_all add: aq_row_ok_def)

lemma aq_wf_lease_rows:
  "aq_wf c \<Longrightarrow> aq_wf t \<Longrightarrow> aq_wf (fst (lease_rows aq_matter_id lock_token p (aq_lock now tok) tok' ids c t))"
  by (simp add: lease_rows_def Let_def aq_wf_lock)

lemma aq_wf_pick:
  "aq_wf c \<Longrightarrow> aq_wf t \<Longrightarrow> aq_wf (fst (aq_pick_and_lock_ready_items n now tok ma lt held f c t))"
  by (simp add: aq_pick_and_lock_ready_items_def aq_wf_lease_rows)

lemma aq_wf_lock_specific:
  "aq_wf c \<Longrightarrow> aq_wf t \<Longrightarrow> aq_wf (fst (aq_lock_specific_items ids now tok ma lt f c t))"
  by (simp add: aq_lock_specific_items_def Let_def aq_wf_lease_rows)

lemma aq_commit_sel [simp]:
  "aq_committed (aq_commit t s) = t" "aq_session (aq_commit t s) = t" "aq_dead_letters (aq_commit t s) = aq_dead_letters s"
  "aq_domain (aq_commit t s) = aq_domain s" "aq_processed (aq_commit t s) = aq_processed s"
  by (simp_all add: aq_commit_def)

lemma aq_drain_one_clean:
  assumes "aq_wf (aq_meanwhile env (aq_committed s))"
  shows "aq_clean (aq_drain_one cfg env tok mid s)
    \<and> aq_processed (aq_drain_one cfg env tok mid s) \<in> {aq_processed s, aq_processed s + 1}"
proof -
  let ?t = "aq_meanwhile env (aq_committed s)"
  have "aq_clean (aq_record_failure cfg env tok mid e d1 ?t s) \<and> aq_processed (aq_record_failure cfg env tok mid e d1 ?t s) = aq_processed s"
    for e d1
    using assms aq_wf_delete [OF assms]
    by (simp add: aq_record_failure_def Let_def aq_clean_def aq_wf_release)
  with aq_wf_delete [OF assms] show ?thesis
    by (auto simp: aq_drain_one_def Let_def aq_clean_def split: sum.splits)
qed

section \<open>Leases\<close>

interpretation aq_backoff: backoff_policy "\<lambda>a c. aq_compute_backoff_seconds a b c" b for b
proof
  fix a c :: int
  have "nat (max 0 (a - 1)) = nat (a - 1)" by simp
  then show "aq_compute_backoff_seconds a b c = min c (b * 2 ^ nat (a - 1))"
    by (simp add: aq_compute_backoff_seconds_def)
qed

interpretation aq_leasing: row_leasing aq_matter_id lock_token
  "\<lambda>now. lease_live (now - seconds lt)" "\<lambda>now now'. now' - seconds lt \<le> now"
  "\<lambda>now. aq_candidates n now ma lt held" "\<lambda>now. aq_ready now ma lt" aq_lock
  for n ma lt held
proof unfold_locales
  fix now k and t :: aq_table
  assume "k \<in> set (aq_candidates n now ma lt held t)"
  then show "\<exists>r \<in> set t. aq_matter_id r = k \<and> aq_ready now ma lt r"
    by (auto simp: aq_candidates_def dest!: in_set_takeD)
next
  fix now r
  assume "aq_ready now ma lt r"
  then show "\<not> lease_live (now - seconds lt) r"
    using lease_live_not_open by (auto simp: aq_ready_def)
qed (auto simp: aq_lock_def lease_live_def)

lemma aq_owned_fenced:
  assumes "\<forall>r \<in> set t. aq_matter_id r = mid \<longrightarrow> lock_token r \<noteq> Some tok"
  shows "sql_update (aq_owned mid tok) f t = t" "sql_delete (aq_owned mid tok) t = t"
    "rowcount (aq_owned mid tok) t = 0"
  using assms by (auto simp: aq_owned_def intro!: sql_update_none sql_delete_none)

text \<open>The effect of an item on the committed table, after what others committed meanwhile.\<close>

interpretation aq_queue: leased_queue aq_matter_id lock_token
  "\<lambda>now. lease_live (now - seconds lt)" "\<lambda>now now'. now' - seconds lt \<le> now"
  "\<lambda>now tok t. map_prod id (map aq_matter_id) (lease_rows aq_matter_id lock_token (aq_ready now ma lt) (aq_lock now tok) tok
     (aq_candidates n now ma lt held t) t t)"
  "\<lambda>tok mid t. aq_committed (aq_drain_one cfg (env\<lparr>aq_meanwhile := id\<rparr>) tok mid (s\<lparr>aq_committed := t\<rparr>))"
  for n ma lt held cfg env s
proof unfold_locales
  fix t :: aq_table and mid tok
  assume "\<forall>r \<in> set t. aq_matter_id r = mid \<longrightarrow> lock_token r \<noteq> Some tok"
  then show "aq_committed (aq_drain_one cfg (env\<lparr>aq_meanwhile := id\<rparr>) tok mid (s\<lparr>aq_committed := t\<rparr>)) = t"
    by (simp add: aq_drain_one_def aq_record_failure_def Let_def aq_owned_fenced split: sum.splits)
next
  fix t :: aq_table and r mid tok
  assume "r \<in> set t" "aq_matter_id r \<noteq> mid"
  then have "\<not> aq_owned mid tok r" by (simp add: aq_owned_def)
  with \<open>r \<in> set t\<close> show "r \<in> set (aq_committed (aq_drain_one cfg (env\<lparr>aq_meanwhile := id\<rparr>) tok mid (s\<lparr>aq_committed := t\<rparr>)))"
    by (auto simp: aq_drain_one_def aq_record_failure_def Let_def sql_update_miss set_sql_delete split: sum.splits)
qed

text \<open>The annuity queue hands a matter to one worker at a time: two picks within a lock
  timeout have no matter in common, and while the second holds other rows the first worker's lock
  is still in place.\<close>

theorem aq_picks_disjoint:
  assumes "distinct (map aq_matter_id t)"
    and "aq_pick_and_lock_ready_items n now1 tok1 ma lt held False t t = (t1, ids1)"
    and "aq_pick_and_lock_ready_items n now2 tok2 ma lt held False t1 t1 = (t2, ids2)"
    and "now2 - seconds lt \<le> now1"
  shows "set ids1 \<inter> set ids2 = {} \<and> (\<forall>m \<in> set ids1. \<exists>r \<in> set t2. aq_matter_id r = m \<and> lock_token r = Some tok1)"
proof -
  note claims = assms(2,3) [unfolded aq_pick_and_lock_ready_items_def if_False]
  show ?thesis
    using aq_leasing.second_claim_disjoint [OF assms(1) claims assms(4)]
      aq_leasing.claimed_row_survives [OF assms(1) claims(1) _ claims(2) assms(4)]
    by blast
qed
definition aq_row_example :: aq_row where
  "aq_row_example = \<lparr>attempts = 0, next_run_at = Some 0, locked_at = None, lock_token = None, last_error = None,
     created_at = 0, updated_at = 0, aq_matter_id = ''M1'', aq_payload = None\<rparr>"

theorem aq_picks_disjoint_witness:
  "set (snd (aq_pick_and_lock_ready_items 1 5 ''t1'' 8 300 (\<lambda>_. False) False [aq_row_example] [aq_row_example]))
     \<inter> set (snd (aq_pick_and_lock_ready_items 1 6 ''t2'' 8 300 (\<lambda>_. False) False
         (fst (aq_pick_and_lock_ready_items 1 5 ''t1'' 8 300 (\<lambda>_. False) False [aq_row_example] [aq_row_example]))
         (fst (aq_pick_and_lock_ready_items 1 5 ''t1'' 8 300 (\<lambda>_. False) False [aq_row_example] [aq_row_example])))) = {}"
  using aq_picks_disjoint [where ?now1.0 = 5 and ?now2.0 = 6 and lt = 300 and n = 1 and ma = 8 and held = "\<lambda>_. False"
      and t = "[aq_row_example]" and ?tok1.0 = "''t1''" and ?tok2.0 = "''t2''", OF _ surjective_pairing surjective_pairing]
  by (simp add: seconds_def)

section \<open>Outcomes of an item\<close>

lemma aq_owned_first:
  assumes "distinct (map aq_matter_id t)" and "r \<in> set t" and "aq_owned mid tok r"
  shows "sql_first (\<lambda>r. aq_matter_id r = mid) t = Some r" "rowcount (aq_owned mid tok) t \<noteq> 0"
proof -
  show "sql_first (\<lambda>r. aq_matter_id r = mid) t = Some r"
    by (rule sql_first_unique [OF assms(1,2)]) (use assms(3) in \<open>auto simp: aq_owned_def\<close>)
  show "rowcount (aq_owned mid tok) t \<noteq> 0" using assms(2,3) by auto
qed

lemma aq_owned_delete_gone:
  assumes "distinct (map aq_matter_id t)" and "r \<in> set t" and "aq_owned mid tok r"
    and "x \<in> set (sql_delete (aq_owned mid tok) t)"
  shows "aq_matter_id x \<noteq> mid"
proof
  assume "aq_matter_id x = mid"
  moreover from assms(4) have "x \<in> set t" "\<not> aq_owned mid tok x" by (auto simp: set_sql_delete)
  moreover have "aq_matter_id r = mid" using assms(3) by (simp add: aq_owned_def)
  ultimately show False using assms(1-3) same_key_same_row [OF assms(1,2), of x] by auto
qed

text \<open>What a failed rebuild leaves, when the worker still holds the row. Before the last attempt
  the row is released and due again after the backoff of its attempts; at the last attempt it
  leaves the queue and a dead letter records its payload, attempts and error. In both cases the
  domain writes the rebuild had made before it raised are committed with the statement.\<close>

theorem aq_failed_rebuild_outcome:
  assumes "distinct (map aq_matter_id t)" and "t = aq_meanwhile env (aq_committed s)"
    and "r \<in> set t" and "aq_owned mid tok r"
    and "aq_sync env mid (aq_domain s) = (Some err, d1)" and "err \<noteq> []"
    and "\<not> aq_read_fails env" and "\<not> aq_attempts_read_fails env" and "\<not> aq_record_fails env"
    and "\<not> aq_dead_letter_fails env" and "1 \<le> attempts r" and "s' = aq_drain_one cfg env tok mid s"
  shows "aq_domain s' = d1 \<and> aq_processed s' = aq_processed s \<and>
    (if attempts r < aq_max_attempts cfg
     then aq_dead_letters s' = aq_dead_letters s
       \<and> (\<exists>r' \<in> set (aq_committed s'). aq_matter_id r' = mid \<and> lock_token r' = None \<and> locked_at r' = None
            \<and> attempts r' = attempts r \<and> last_error r' = Some (take 4000 err)
            \<and> next_run_at r' = Some (aq_clock env
                + seconds (min (aq_cap cfg) (aq_base cfg * 2 ^ nat (attempts r - 1)))))
     else aq_dead_letters s' = aq_dead_letters s
            @ [dead_letter mid (aq_payload r) (attempts r) (take 4000 err) (aq_clock env)]
       \<and> (\<forall>x \<in> set (aq_committed s'). aq_matter_id x \<noteq> mid))"
proof -
  note first = aq_owned_first [OF assms(1,3,4)]
  have s': "s' = aq_record_failure cfg env tok mid err d1 t s"
    using assms(2,5,7,12) by (simp add: aq_drain_one_def Let_def aq_try_one_def)
  have id: "aq_matter_id r = mid" using assms(4) by (simp add: aq_owned_def)
  show ?thesis
  proof (cases "attempts r < aq_max_attempts cfg")
    case True
    let ?f = "\<lambda>r'. r'\<lparr>last_error := Some (take 4000 err), next_run_at := Some (aq_clock env
      + seconds (aq_compute_backoff_seconds (max 1 (attempts r)) (aq_base cfg) (aq_cap cfg))),
      locked_at := None, lock_token := None, updated_at := aq_clock env\<rparr>"
    have "s' = (aq_commit (sql_update (aq_owned mid tok) ?f t) s)\<lparr>aq_domain := d1\<rparr>"
      using True first assms(6-11) by (simp add: s' aq_record_failure_def Let_def del: rowcount_0)
    moreover have "?f r \<in> set (sql_update (aq_owned mid tok) ?f t)"
      by (rule sql_update_hit [where f = ?f, OF assms(3)]) (rule assms(4))
    moreover have "max 1 (attempts r) = attempts r" using assms(11) by simp
    ultimately show ?thesis
      using True id aq_backoff.backoff_eq [of "attempts r" "aq_base cfg" "aq_cap cfg"]
      by (auto intro!: bexI [of _ "?f r"])
  next
    case False
    then have "s' = (aq_commit (sql_delete (aq_owned mid tok) t) s)\<lparr>
        aq_dead_letters := aq_dead_letters s @ [dead_letter mid (aq_payload r) (attempts r) (take 4000 err) (aq_clock env)],
        aq_domain := d1\<rparr>"
      using first assms(6-11) by (simp add: s' aq_record_failure_def Let_def del: rowcount_0)
    with False aq_owned_delete_gone [OF assms(1,3,4)] show ?thesis by simp
  qed
qed

definition aq_env_example :: "int aq_env" where
  "aq_env_example = \<lparr>aq_sync = (\<lambda>_ d. (Some ''boom'', d + 1)), aq_meanwhile = id, aq_heartbeat_lost = False,
     aq_read_fails = False, aq_delete_fails = False, aq_attempts_read_fails = False, aq_dead_letter_fails = False,
     aq_record_fails = False, aq_db_error = ''db'', aq_clock = 9\<rparr>"

definition aq_config_example :: aq_config where
  "aq_config_example = \<lparr>aq_max_attempts = 8, aq_base = 30, aq_cap = 3600, aq_lock_timeout = 300\<rparr>"

definition aq_state_example :: "aq_table \<Rightarrow> int aq_state" where
  "aq_state_example t = \<lparr>aq_committed = t, aq_session = t, aq_dead_letters = [], aq_domain = 0, aq_processed = 0\<rparr>"

theorem aq_failed_rebuild_outcome_witness:
  "aq_domain (aq_drain_one aq_config_example aq_env_example ''t1'' ''M1'' (aq_state_example [aq_lock 5 ''t1'' aq_row_example])) = 1
   \<and> (\<exists>r' \<in> set (aq_committed (aq_drain_one aq_config_example aq_env_example ''t1'' ''M1'' (aq_state_example [aq_lock 5 ''t1'' aq_row_example]))).
        next_run_at r' = Some (9 + seconds 30))"
  using aq_failed_rebuild_outcome [where env = aq_env_example and s = "aq_state_example [aq_lock 5 ''t1'' aq_row_example]"
      and t = "[aq_lock 5 ''t1'' aq_row_example]" and r = "aq_lock 5 ''t1'' aq_row_example" and mid = "''M1''" and tok = "''t1''"
      and cfg = aq_config_example and err = "''boom''" and ?d1.0 = 1, OF _ _ _ _ _ _ _ _ _ _ _ refl]
  by (auto simp: aq_env_example_def aq_config_example_def aq_state_example_def aq_lock_def aq_row_example_def aq_owned_def)

text \<open>A worker that no longer holds the row changes neither the table nor the counter, and
  below the attempts limit neither the domain data nor the dead letters; at the limit it still
  writes a dead letter for the row another worker is processing, and commits the writes of the
  rebuild it was told to abandon.\<close>

theorem aq_superseded_worker_outcome:
  assumes "t = aq_meanwhile env (aq_committed s)" and "distinct (map aq_matter_id t)"
    and "r \<in> set t" and "aq_matter_id r = mid" and "lock_token r \<noteq> Some tok"
    and "\<not> aq_read_fails env" and "\<not> aq_attempts_read_fails env" and "\<not> aq_record_fails env"
    and "\<not> aq_dead_letter_fails env" and "aq_sync env mid (aq_domain s) = (None, d1)" and "aq_heartbeat_lost env"
    and "1 \<le> attempts r" and "s' = aq_drain_one cfg env tok mid s"
  shows "aq_committed s' = t \<and> aq_processed s' = aq_processed s \<and>
    (if attempts r < aq_max_attempts cfg
     then aq_domain s' = aq_domain s \<and> aq_dead_letters s' = aq_dead_letters s
     else aq_domain s' = d1 \<and> aq_dead_letters s' = aq_dead_letters s @ [dead_letter mid (aq_payload r) (attempts r)
       ''annuity sync lock lost during processing'' (aq_clock env)])"
proof -
  have fenced: "\<forall>x \<in> set t. aq_matter_id x = mid \<longrightarrow> lock_token x \<noteq> Some tok"
    using same_key_same_row [OF assms(2,3)] assms(4,5) by auto
  have first: "sql_first (\<lambda>r. aq_matter_id r = mid) t = Some r"
    by (rule sql_first_unique [OF assms(2,3)]) (use assms(4) in auto)
  have "s' = aq_record_failure cfg env tok mid ''annuity sync lock lost during processing'' d1 t s"
    using assms(1,6,10,11,13) by (simp add: aq_drain_one_def Let_def aq_try_one_def)
  then show ?thesis
    using assms(6-12) first aq_owned_fenced [OF fenced] by (simp add: aq_record_failure_def Let_def del: rowcount_0)
qed

theorem aq_superseded_worker_outcome_witness:
  "aq_dead_letters (aq_drain_one aq_config_example (aq_env_example\<lparr>aq_sync := (\<lambda>_ d. (None, d + 1)), aq_heartbeat_lost := True\<rparr>)
      ''t1'' ''M1'' (aq_state_example [aq_lock 5 ''t2'' (aq_row_example\<lparr>attempts := 7\<rparr>)]))
    = [dead_letter ''M1'' None 8 ''annuity sync lock lost during processing'' 9]"
  using aq_superseded_worker_outcome [where cfg = aq_config_example
      and env = "aq_env_example\<lparr>aq_sync := (\<lambda>_ d. (None, d + 1)), aq_heartbeat_lost := True\<rparr>"
      and s = "aq_state_example [aq_lock 5 ''t2'' (aq_row_example\<lparr>attempts := 7\<rparr>)]" and tok = "''t1''" and mid = "''M1''"
      and t = "[aq_lock 5 ''t2'' (aq_row_example\<lparr>attempts := 7\<rparr>)]" and r = "aq_lock 5 ''t2'' (aq_row_example\<lparr>attempts := 7\<rparr>)"
      and ?d1.0 = 1, OF _ _ _ _ _ _ _ _ _ _ _ _ refl]
  by (simp add: aq_env_example_def aq_config_example_def aq_state_example_def aq_lock_def aq_row_example_def)

text \<open>A request that arrives while its matter is being rebuilt is lost: after the rebuild
  succeeds, no row for the matter is left.\<close>

theorem aq_request_during_rebuild_is_lost:
  assumes "distinct (map aq_matter_id (aq_committed s))" and "r \<in> set (aq_committed s)" and "aq_owned mid tok r"
    and "aq_meanwhile env = enqueue_annuity_matter_rebuild now False (Some mid) why" and "strip mid = mid" and "mid \<noteq> []"
    and "aq_sync env mid (aq_domain s) = (None, d1)"
    and "\<not> aq_read_fails env" and "\<not> aq_heartbeat_lost env" and "\<not> aq_delete_fails env"
    and "s' = aq_drain_one cfg env tok mid s"
  shows "aq_processed s' = aq_processed s + 1 \<and> (\<forall>x \<in> set (aq_committed s'). aq_matter_id x \<noteq> mid)"
proof -
  let ?t = "aq_meanwhile env (aq_committed s)"
  let ?f = "\<lambda>r. r\<lparr>aq_payload := (if or_none (or_empty why) = None then aq_payload r else or_none (or_empty why)), updated_at := now,
    next_run_at := (case next_run_at r of None \<Rightarrow> Some now | Some n \<Rightarrow> if n \<le> now then Some now else Some n)\<rparr>"
  have t: "?t = sql_update (\<lambda>r. aq_matter_id r = mid) ?f (aq_committed s)"
    using assms(2-6) by (auto simp: enqueue_annuity_matter_rebuild_def aq_upsert_def Let_def aq_owned_def)
  have "map aq_matter_id ?t = map aq_matter_id (aq_committed s)" unfolding t by (rule sql_update_keys) simp
  with assms(1) have dist: "distinct (map aq_matter_id ?t)" by simp
  have mem: "?f r \<in> set ?t" unfolding t
    by (rule sql_update_hit [where f = ?f, OF assms(2)]) (use assms(3) in \<open>simp add: aq_owned_def\<close>)
  have own: "aq_owned mid tok (?f r)" using assms(3) by (simp add: aq_owned_def)
  have "s' = (aq_commit (sql_delete (aq_owned mid tok) ?t) s)\<lparr>aq_domain := d1, aq_processed := aq_processed s + 1\<rparr>"
    using assms(7-11) aq_owned_first(2) [OF dist mem own]
    by (simp add: aq_drain_one_def Let_def aq_try_one_def del: rowcount_0)
  then show ?thesis using aq_owned_delete_gone [OF dist mem own] by simp
qed

theorem aq_request_during_rebuild_is_lost_witness:
  "aq_matter_id ` set (aq_committed (aq_drain_one aq_config_example
     (aq_env_example\<lparr>aq_sync := (\<lambda>_ d. (None, d + 1)), aq_meanwhile := enqueue_annuity_matter_rebuild 8 False (Some ''M1'') None\<rparr>)
     ''t1'' ''M1'' (aq_state_example [aq_lock 5 ''t1'' aq_row_example]))) \<subseteq> - {''M1''}"
  using aq_request_during_rebuild_is_lost [where s = "aq_state_example [aq_lock 5 ''t1'' aq_row_example]" and mid = "''M1''" and tok = "''t1''"
      and env = "aq_env_example\<lparr>aq_sync := (\<lambda>_ d. (None, d + 1)), aq_meanwhile := enqueue_annuity_matter_rebuild 8 False (Some ''M1'') None\<rparr>"
      and r = "aq_lock 5 ''t1'' aq_row_example" and now = 8 and why = None and ?d1.0 = 1 and cfg = aq_config_example,
      OF _ _ _ _ _ _ _ _ _ _ refl]
  by (auto simp: aq_env_example_def aq_state_example_def aq_lock_def aq_row_example_def aq_owned_def
      strip_def strip_chars_def lstrip_chars_def rstrip_chars_def is_space_def)

section \<open>Exhausted rows\<close>

lemma lease_rows_skips:
  assumes "\<not> ready r" and "r \<in> set t" and "r \<in> set c"
  shows "r \<in> set (fst (lease_rows key token ready lock tok ids c t))"
  using assms by (simp add: lease_rows_def Let_def sql_update_miss)

lemma aq_upsert_attempts:
  "r \<in> set t \<Longrightarrow> \<exists>r' \<in> set (aq_upsert now mid pl t). aq_matter_id r' = aq_matter_id r \<and> attempts r' = attempts r
     \<and> lock_token r' = lock_token r"
proof (cases "aq_matter_id r = mid")
  case True
  assume r: "r \<in> set t"
  let ?f = "\<lambda>r. r\<lparr>aq_payload := (if pl = None then aq_payload r else pl), updated_at := now,
    next_run_at := (case next_run_at r of None \<Rightarrow> Some now | Some n \<Rightarrow> if n \<le> now then Some now else Some n)\<rparr>"
  from r True have "?f r \<in> set (aq_upsert now mid pl t)"
    using sql_update_hit [where f = ?f and p = "\<lambda>r. aq_matter_id r = mid", OF r] by (auto simp: aq_upsert_def)
  then show ?thesis by (intro bexI [of _ "?f r"]) simp_all
next
  case False
  assume "r \<in> set t"
  with False have "r \<in> set (aq_upsert now mid pl t)" by (simp add: aq_upsert_def sql_update_miss)
  then show ?thesis by blast
qed

lemma aq_candidates_ready:
  "m \<in> set (aq_candidates n now ma lt held t) \<Longrightarrow> \<exists>r \<in> set t. aq_matter_id r = m \<and> aq_ready now ma lt r"
  by (auto simp: aq_candidates_def dest!: in_set_takeD)

lemma lease_rows_subset: "set (map key (snd (lease_rows key token ready lock tok ids c t))) \<subseteq> set ids"
  by (auto simp: lease_rows_def Let_def)

text \<open>A row that has used up its attempts (its last worker died, or the statement that records
  the failure failed) is out of reach: no pick and no targeted lock takes it, it is not
  dead-lettered, and a new request for its matter does not reset the attempts.\<close>

theorem aq_exhausted_row_is_stuck:
  assumes "distinct (map aq_matter_id t)" and "r \<in> set t" and "aq_max_attempts cfg \<le> attempts r"
  shows "aq_matter_id r \<notin> set (snd (aq_pick_and_lock_ready_items n now tok (aq_max_attempts cfg) lt held f t t))
    \<and> r \<in> set (fst (aq_pick_and_lock_ready_items n now tok (aq_max_attempts cfg) lt held f t t))
    \<and> aq_matter_id r \<notin> set (snd (aq_lock_specific_items ids now tok (aq_max_attempts cfg) lt f t t))
    \<and> r \<in> set (fst (aq_lock_specific_items ids now tok (aq_max_attempts cfg) lt f t t))
    \<and> (\<exists>r' \<in> set (enqueue_annuity_matter_rebuild now' f' m why t).
         aq_matter_id r' = aq_matter_id r \<and> aq_max_attempts cfg \<le> attempts r')"
proof -
  let ?ready = "aq_ready now (aq_max_attempts cfg) lt"
  have no: "\<not> ?ready r" using assms(3) by (simp add: aq_ready_def)
  have unique: "x = r" if "x \<in> set t" "aq_matter_id x = aq_matter_id r" for x
    using same_key_same_row [OF assms(1,2) that] .
  have "aq_matter_id r \<notin> set (aq_candidates n now (aq_max_attempts cfg) lt held t)"
    using aq_candidates_ready unique no by blast
  then have 1: "aq_matter_id r \<notin> set (snd (aq_pick_and_lock_ready_items n now tok (aq_max_attempts cfg) lt held f t t))"
    using lease_rows_subset [of aq_matter_id lock_token ?ready "aq_lock now tok" tok
        "aq_candidates n now (aq_max_attempts cfg) lt held t" t t]
    by (auto simp: aq_pick_and_lock_ready_items_def)
  have "aq_matter_id r \<notin> set (filter (\<lambda>m. m \<noteq> []) (map aq_matter_id (filter (\<lambda>r. aq_matter_id r \<in> set ids \<and> ?ready r) t)))"
    using unique no by auto
  then have 2: "aq_matter_id r \<notin> set (snd (aq_lock_specific_items ids now tok (aq_max_attempts cfg) lt f t t))"
    using lease_rows_subset [of aq_matter_id lock_token ?ready "aq_lock now tok" tok
        "filter (\<lambda>m. m \<noteq> []) (map aq_matter_id (filter (\<lambda>r. aq_matter_id r \<in> set ids \<and> ?ready r) t))" t t]
    by (auto simp: aq_lock_specific_items_def Let_def)
  have 3: "\<exists>r' \<in> set (enqueue_annuity_matter_rebuild now' f' m why t).
      aq_matter_id r' = aq_matter_id r \<and> aq_max_attempts cfg \<le> attempts r'"
    using aq_upsert_attempts [OF assms(2)] assms(2,3)
    by (auto simp: enqueue_annuity_matter_rebuild_def Let_def) metis+
  from 1 2 3 no assms(2) show ?thesis
    by (simp add: aq_pick_and_lock_ready_items_def aq_lock_specific_items_def Let_def lease_rows_skips)
qed

theorem aq_exhausted_row_is_stuck_witness:
  "''M1'' \<notin> set (snd (aq_pick_and_lock_ready_items 200 1000 ''t9'' 8 300 (\<lambda>_. False) False
      [aq_row_example\<lparr>attempts := 8\<rparr>] [aq_row_example\<lparr>attempts := 8\<rparr>]))"
  using aq_exhausted_row_is_stuck [where cfg = aq_config_example and t = "[aq_row_example\<lparr>attempts := 8\<rparr>]"
      and r = "aq_row_example\<lparr>attempts := 8\<rparr>" and n = 200 and now = 1000 and tok = "''t9''" and lt = 300
      and held = "\<lambda>_. False" and f = False]
  by (simp add: aq_config_example_def aq_row_example_def)

section \<open>The drain\<close>

lemma aq_lock_specific_none:
  assumes "\<forall>r \<in> set t. aq_matter_id r \<in> set ids \<longrightarrow> \<not> aq_ready now ma lt r"
  shows "aq_lock_specific_items ids now tok ma lt f c t = (c, [])"
proof -
  have "filter (\<lambda>r. aq_matter_id r \<in> set ids \<and> aq_ready now ma lt r) t = []"
    using assms by (auto simp: filter_empty_conv)
  then show ?thesis by (simp add: aq_lock_specific_items_def lease_rows_def)
qed

text \<open>The pending upserts of a task share the session with its drain, so the first requested
  matter that is not ready (locked, in backoff or exhausted) rolls all of them back: a later
  matter of the same task with no committed row is then neither rebuilt nor left in the queue.\<close>

theorem aq_unready_matter_drops_later_requests:
  assumes "aq_session s = fold (\<lambda>mid. enqueue_annuity_matter_rebuild now False (Some mid) why) [a, b] (aq_committed s)"
    and "\<forall>r \<in> set (aq_session s). aq_matter_id r = a \<longrightarrow> \<not> aq_ready (turn_now (turns a)) (aq_max_attempts cfg) (aq_lock_timeout cfg) r"
    and "\<forall>r \<in> set (aq_committed s). aq_matter_id r \<noteq> b"
  shows "aq_drain_requested cfg tok turns [a, b] s = s\<lparr>aq_session := aq_committed s\<rparr>"
proof -
  have "aq_lock_specific_items [a] (turn_now (turns a)) tok (aq_max_attempts cfg) (aq_lock_timeout cfg)
      (turn_fails (turns a)) (aq_committed s) (aq_session s) = (aq_committed s, [])"
    by (rule aq_lock_specific_none) (use assms(2) in simp)
  moreover have "aq_lock_specific_items [b] (turn_now (turns b)) tok (aq_max_attempts cfg) (aq_lock_timeout cfg)
      (turn_fails (turns b)) (aq_committed s) (aq_committed s) = (aq_committed s, [])"
    by (rule aq_lock_specific_none) (use assms(3) in simp)
  ultimately show ?thesis by (simp add: aq_commit_def)
qed

definition aq_turn_example :: "int aq_turn" where
  "aq_turn_example = \<lparr>turn_now = 7, turn_held = (\<lambda>_. False), turn_fails = False,
     turn_env = aq_env_example\<lparr>aq_sync := (\<lambda>_ d. (None, d + 1))\<rparr>\<rparr>"

definition aq_dropped_example :: "int aq_state" where
  "aq_dropped_example = (aq_state_example [aq_lock 5 ''t2'' aq_row_example])\<lparr>aq_session :=
     fold (\<lambda>mid. enqueue_annuity_matter_rebuild 6 False (Some mid) None) [''M1'', ''M2''] [aq_lock 5 ''t2'' aq_row_example]\<rparr>"

lemma aq_dropped_session: "aq_session aq_dropped_example =
  [aq_lock 5 ''t2'' aq_row_example\<lparr>updated_at := 6, next_run_at := Some 6\<rparr>,
   \<lparr>attempts = 0, next_run_at = Some 6, locked_at = None, lock_token = None, last_error = None, created_at = 6,
    updated_at = 6, aq_matter_id = ''M2'', aq_payload = None\<rparr>]"
  by (simp add: aq_dropped_example_def aq_state_example_def enqueue_annuity_matter_rebuild_def Let_def aq_upsert_def
      sql_update_def aq_lock_def aq_row_example_def strip_def strip_chars_def lstrip_chars_def rstrip_chars_def is_space_def)

theorem aq_unready_matter_drops_later_requests_witness:
  "aq_matter_id ` set (aq_session aq_dropped_example) = {''M1'', ''M2''}
   \<and> aq_drain_requested aq_config_example ''t1'' (\<lambda>_. aq_turn_example) [''M1'', ''M2''] aq_dropped_example
     = aq_state_example [aq_lock 5 ''t2'' aq_row_example]"
proof -
  have c: "aq_committed aq_dropped_example = [aq_lock 5 ''t2'' aq_row_example]"
    by (simp add: aq_dropped_example_def aq_state_example_def)
  have "aq_session aq_dropped_example = fold (\<lambda>mid. enqueue_annuity_matter_rebuild 6 False (Some mid) None)
      [''M1'', ''M2''] (aq_committed aq_dropped_example)"
    by (simp add: c) (simp add: aq_dropped_example_def)
  from aq_unready_matter_drops_later_requests [OF this, of "\<lambda>_. aq_turn_example" aq_config_example "''t1''"]
  have "aq_drain_requested aq_config_example ''t1'' (\<lambda>_. aq_turn_example) [''M1'', ''M2''] aq_dropped_example
      = aq_dropped_example\<lparr>aq_session := aq_committed aq_dropped_example\<rparr>"
    by (simp add: c aq_dropped_session aq_ready_def lock_open_def aq_turn_example_def aq_config_example_def
        aq_lock_def aq_row_example_def seconds_def)
  then show ?thesis
    unfolding aq_dropped_session c by (auto simp: aq_dropped_example_def aq_state_example_def aq_lock_def aq_row_example_def)
qed

lemma aq_drain_ready_clean:
  assumes "aq_clean s" and "\<And>i t. aq_wf t \<Longrightarrow> aq_wf (aq_meanwhile (turn_env (turns i)) t)"
  shows "aq_clean (aq_drain_ready cfg tok turns n s)
    \<and> aq_processed s \<le> aq_processed (aq_drain_ready cfg tok turns n s)
    \<and> aq_processed (aq_drain_ready cfg tok turns n s) \<le> aq_processed s + int n"
  using assms(1)
proof (induction n arbitrary: s)
  case 0
  then show ?case by simp
next
  case (Suc n)
  let ?r = "aq_pick_and_lock_ready_items 1 (turn_now (turns n)) tok (aq_max_attempts cfg)
    (aq_lock_timeout cfg) (turn_held (turns n)) (turn_fails (turns n)) (aq_committed s) (aq_session s)"
  obtain t' mids where r: "?r = (t', mids)" by fastforce
  have wf: "aq_wf t'" using aq_wf_pick [of "aq_committed s" "aq_session s"] Suc.prems r
    by (metis aq_clean_def fst_conv)
  show ?case
  proof (cases mids)
    case Nil
    with r wf show ?thesis by (simp add: aq_clean_def)
  next
    case (Cons mid rest)
    let ?s = "aq_drain_one cfg (turn_env (turns n)) tok mid (aq_commit t' s)"
    have step: "aq_clean ?s \<and> aq_processed ?s \<in> {aq_processed s, aq_processed s + 1}"
      using aq_drain_one_clean [of "turn_env (turns n)" "aq_commit t' s"] assms(2) wf by simp
    with Suc.IH [of ?s] show ?thesis using r Cons by auto
  qed
qed

text \<open>A drain of the annuity queue returns with the session clean and the table well formed
  (unique matters, a lock time exactly with a token), whatever well-formed changes other
  transactions make, and reports at most \<open>limit\<close> matters.\<close>

theorem aq_drain_well_formed_and_bounded:
  assumes "aq_clean s" and "\<And>i t. aq_wf t \<Longrightarrow> aq_wf (aq_meanwhile (turn_env (ready_turns i)) t)"
    and "drain_annuity_sync_queue cfg tok turns ready_turns limit None s = (k, s')"
  shows "aq_clean s' \<and> 0 \<le> k \<and> k \<le> max 0 limit"
proof -
  have "aq_clean (s\<lparr>aq_processed := 0\<rparr>)" using assms(1) by (simp add: aq_clean_def)
  let ?s = "aq_drain_ready cfg tok ready_turns (nat limit) (s\<lparr>aq_processed := 0\<rparr>)"
  from \<open>aq_clean (s\<lparr>aq_processed := 0\<rparr>)\<close>
  have "aq_clean ?s \<and> aq_processed (s\<lparr>aq_processed := 0\<rparr>) \<le> aq_processed ?s
      \<and> aq_processed ?s \<le> aq_processed (s\<lparr>aq_processed := 0\<rparr>) + int (nat limit)"
    by (rule aq_drain_ready_clean) (rule assms(2))
  moreover have "k = aq_processed ?s" "s' = ?s"
    using assms(3) by (auto simp: drain_annuity_sync_queue_def Let_def)
  ultimately show ?thesis by (auto simp: max_def split: if_splits)
qed

theorem aq_drain_well_formed_and_bounded_witness:
  "aq_clean (snd (drain_annuity_sync_queue aq_config_example ''t1'' (\<lambda>_. aq_turn_example) (\<lambda>_. aq_turn_example) 5 None
      (aq_state_example [aq_row_example])))
   \<and> fst (drain_annuity_sync_queue aq_config_example ''t1'' (\<lambda>_. aq_turn_example) (\<lambda>_. aq_turn_example) 5 None
      (aq_state_example [aq_row_example])) \<le> 5"
  using aq_drain_well_formed_and_bounded [where s = "aq_state_example [aq_row_example]" and ready_turns = "\<lambda>_. aq_turn_example"
      and cfg = aq_config_example and tok = "''t1''" and turns = "\<lambda>_. aq_turn_example" and limit = 5, OF _ _ surjective_pairing]
  by (simp add: aq_clean_def aq_wf_def aq_row_ok_def aq_state_example_def aq_row_example_def aq_turn_example_def aq_env_example_def)

end
