(* ===== verification/Storage.thy ===== *)
theory Storage
  imports Prelude
begin

text \<open>
  Stored file paths and the storage backends (\<open>app/services/storage/file_asset_service.py\<close>:
  \<open>normalize_rel_path\<close>, \<open>abs_path\<close>, \<open>delete_physical_file\<close>;
  \<open>app/services/storage/backends.py\<close>: the local and the S3 backend).

  A store is the set of files below the upload root and the set of S3 objects, by relative path.
  What the operating system and the S3 client do is an argument: which unlink calls fail, how S3
  calls end, and which paths a symbolic link leads out of the upload root.
\<close>

datatype storage_error = EmptyFilePath | PathTraversal string

section \<open>Relative paths\<close>

fun drop_dot_slash :: "string \<Rightarrow> string" where
  "drop_dot_slash s =
     (case s of a # b # rest \<Rightarrow> if a = CHR ''.'' \<and> b = CHR ''/'' then drop_dot_slash rest else s
      | _ \<Rightarrow> s)"

declare drop_dot_slash.simps [simp del]

text \<open>The loop over the segments: \<open>None\<close> when it meets a parent reference.\<close>

fun clean_parts :: "string list \<Rightarrow> string list option" where
  "clean_parts [] = Some []"
| "clean_parts (p # ps) =
     (if p = [] \<or> p = ''.'' then clean_parts ps
      else if p = ''..'' then None
      else map_option (Cons p) (clean_parts ps))"

definition strip_legacy_prefix :: "string \<Rightarrow> string" where
  "strip_legacy_prefix rel =
     (if startswith (lower rel) ''data/uploads/'' then drop (length ''data/uploads/'') rel else rel)"

definition normalize_rel_path :: "string \<Rightarrow> storage_error + string" where
  "normalize_rel_path stored_path =
     (let raw = strip stored_path in
      if raw = [] then Inl EmptyFilePath
      else let rel = lstrip_chars (\<lambda>c. c = CHR ''/'')
                 (strip_legacy_prefix (drop_dot_slash (replace_char (CHR 0x5C) (CHR ''/'') raw)))
           in case clean_parts (split_on (CHR ''/'') rel) of
                None \<Rightarrow> Inl (PathTraversal stored_path)
              | Some parts \<Rightarrow> if parts = [] then Inl EmptyFilePath else Inr (join ''/'' parts))"

section \<open>Backends\<close>

record store =
  local_files :: "string \<Rightarrow> bool"
  s3_objects :: "string \<Rightarrow> bool"

datatype s3_reply = S3Ok | S3ClientError | S3Raises string

record storage_env =
  path_escapes :: "string \<Rightarrow> bool"
  unlink_fails :: "string \<Rightarrow> bool"
  s3_reply :: "string \<Rightarrow> s3_reply"

datatype storage_type = Local | S3

definition strip_slashes :: "string \<Rightarrow> string" where
  "strip_slashes s = strip_chars (\<lambda>c. c = CHR ''/'' \<or> c = CHR 0x5C) s"

definition local_delete :: "storage_env \<Rightarrow> string \<Rightarrow> store \<Rightarrow> bool \<times> store" where
  "local_delete e path fs =
     (let p = strip_slashes path in
      if path_escapes e p then (False, fs)
      else if local_files fs p
      then if unlink_fails e p then (False, fs)
           else (True, fs\<lparr>local_files := (local_files fs)(p := False)\<rparr>)
      else (True, fs))"

definition s3_key :: "string \<Rightarrow> string" where
  "s3_key path = replace_char (CHR 0x5C) (CHR ''/'') (strip_slashes path)"

definition s3_delete :: "storage_env \<Rightarrow> string \<Rightarrow> store \<Rightarrow> (string + bool) \<times> store" where
  "s3_delete e path fs =
     (let key = s3_key path in
      case s3_reply e key of
        S3Ok \<Rightarrow> (Inr True, fs\<lparr>s3_objects := (s3_objects fs)(key := False)\<rparr>)
      | S3ClientError \<Rightarrow> (Inr False, fs)
      | S3Raises m \<Rightarrow> (Inl m, fs))"

definition storage_error_text :: "storage_error \<Rightarrow> string" where
  "storage_error_text err =
     (case err of EmptyFilePath \<Rightarrow> ''Empty file path''
      | PathTraversal p \<Rightarrow> ''Path traversal detected: '' @ p)"

section \<open>The file service\<close>

definition abs_path :: "storage_env \<Rightarrow> string \<Rightarrow> storage_error + string" where
  "abs_path e stored_path =
     (case normalize_rel_path stored_path of
        Inl err \<Rightarrow> Inl err
      | Inr rel \<Rightarrow> if path_escapes e rel then Inl (PathTraversal stored_path) else Inr rel)"

definition delete_physical_file ::
  "storage_env \<Rightarrow> storage_type \<Rightarrow> string \<Rightarrow> store \<Rightarrow> (string + bool) \<times> store"
where
  "delete_physical_file e backend stored_path fs =
     (case normalize_rel_path stored_path of
        Inl err \<Rightarrow> (Inl (''ValueError: '' @ storage_error_text err), fs)
      | Inr rel \<Rightarrow>
          (case backend of
             Local \<Rightarrow> map_prod Inr id (local_delete e rel fs)
           | S3 \<Rightarrow> s3_delete e rel fs))"

section \<open>Normalised paths are safe\<close>

definition safe_segment :: "string \<Rightarrow> bool" where
  "safe_segment p \<longleftrightarrow> p \<noteq> [] \<and> p \<noteq> ''.'' \<and> p \<noteq> ''..'' \<and> CHR ''/'' \<notin> set p \<and> CHR 0x5C \<notin> set p"

lemma split_on_segments: "p \<in> set (split_on c s) \<Longrightarrow> c \<notin> set p"
proof (induction s arbitrary: p)
  case Nil
  then show ?case by simp
next
  case (Cons x xs)
  then show ?case by (cases "split_on c xs") (auto split: if_splits)
qed

lemma split_on_subset: "p \<in> set (split_on c s) \<Longrightarrow> set p \<subseteq> set s"
proof (induction s arbitrary: p)
  case Nil
  then show ?case by simp
next
  case (Cons x xs)
  obtain q qs where q: "split_on c xs = q # qs" by (cases "split_on c xs") simp_all
  with Cons.prems have "p = [] \<or> p = x # q \<or> p \<in> set (split_on c xs)" by (auto split: if_splits)
  moreover have "set q \<subseteq> set xs" by (rule Cons.IH) (simp add: q)
  moreover have "p \<in> set (split_on c xs) \<Longrightarrow> set p \<subseteq> set xs" by (rule Cons.IH)
  ultimately show ?case by (elim disjE) auto
qed

lemma split_on_append_sep: "c \<notin> set p \<Longrightarrow> split_on c (p @ c # s) = p # split_on c s"
  by (induction p) auto

lemma split_on_join:
  "ps \<noteq> [] \<Longrightarrow> \<forall>p \<in> set ps. c \<notin> set p \<Longrightarrow> split_on c (join [c] ps) = ps"
proof (induction ps rule: induct_list012)
  case (3 x y ys)
  then show ?case by (simp add: split_on_append_sep)
qed (simp_all add: split_on_absent)

lemma clean_parts_Some:
  "clean_parts ps = Some qs \<Longrightarrow> qs = filter (\<lambda>p. p \<noteq> [] \<and> p \<noteq> ''.'') ps \<and> ''..'' \<notin> set ps"
  by (induction ps arbitrary: qs) (auto split: if_splits)

lemma clean_parts_safe:
  "\<forall>p \<in> set ps. p \<noteq> [] \<and> p \<noteq> ''.'' \<and> p \<noteq> ''..'' \<Longrightarrow> clean_parts ps = Some ps"
  by (induction ps) auto

lemma drop_dot_slash_subset: "set (drop_dot_slash s) \<subseteq> set s"
proof (induction s rule: drop_dot_slash.induct)
  case (1 s)
  then show ?case by (subst drop_dot_slash.simps) (auto split: list.splits)
qed

lemma strip_legacy_subset: "set (strip_legacy_prefix s) \<subseteq> set s"
  by (auto simp: strip_legacy_prefix_def dest: in_set_dropD)

lemma lstrip_subset: "set (lstrip_chars p s) \<subseteq> set s"
  by (auto simp: lstrip_chars_def dest: set_dropWhileD)

lemma normalize_parts:
  assumes "normalize_rel_path stored = Inr rel"
  obtains parts where "parts \<noteq> []" "rel = join ''/'' parts" "\<forall>p \<in> set parts. safe_segment p"
proof -
  let ?raw = "replace_char (CHR 0x5C) (CHR ''/'') (strip stored)"
  let ?s = "lstrip_chars (\<lambda>c. c = CHR ''/'') (strip_legacy_prefix (drop_dot_slash ?raw))"
  from assms obtain parts where parts: "clean_parts (split_on (CHR ''/'') ?s) = Some parts" "parts \<noteq> []" "rel = join ''/'' parts"
    by (auto simp: normalize_rel_path_def Let_def split: if_splits option.splits)
  have "CHR 0x5C \<notin> set ?raw" by (rule replace_char_removes) simp
  then have no: "CHR 0x5C \<notin> set ?s"
    using lstrip_subset [of "\<lambda>c. c = CHR ''/''" "strip_legacy_prefix (drop_dot_slash ?raw)"]
      strip_legacy_subset [of "drop_dot_slash ?raw"] drop_dot_slash_subset [of ?raw] by blast
  have "safe_segment p" if "p \<in> set parts" for p
  proof -
    from clean_parts_Some [OF parts(1)] that have p: "p \<in> set (split_on (CHR ''/'') ?s)" "p \<noteq> []" "p \<noteq> ''.''" "p \<noteq> ''..''"
      by auto
    with split_on_segments [OF p(1)] split_on_subset [OF p(1)] no show ?thesis by (auto simp: safe_segment_def)
  qed
  with parts that show ?thesis by blast
qed

lemma join_hd_last:
  assumes "ps \<noteq> []" and "\<forall>p \<in> set ps. p \<noteq> []"
  shows "join sep ps \<noteq> [] \<and> hd (join sep ps) = hd (hd ps) \<and> last (join sep ps) = last (last ps)"
  using assms by (induction ps rule: induct_list012) auto

lemma safe_path_ends:
  assumes "parts \<noteq> []" and "\<forall>p \<in> set parts. safe_segment p"
  shows "strip_slashes (join ''/'' parts) = join ''/'' parts"
  unfolding strip_slashes_def
proof (rule strip_chars_id)
  have ne: "\<forall>p \<in> set parts. p \<noteq> []" using assms by (auto simp: safe_segment_def)
  have "hd (hd parts) \<in> set (hd parts)" "last (last parts) \<in> set (last parts)"
    using assms ne by auto
  moreover have "safe_segment (hd parts)" "safe_segment (last parts)" using assms by auto
  ultimately have "hd (hd parts) \<noteq> CHR ''/'' \<and> hd (hd parts) \<noteq> CHR 0x5C \<and> last (last parts) \<noteq> CHR ''/'' \<and> last (last parts) \<noteq> CHR 0x5C"
    by (metis safe_segment_def)
  with join_hd_last [OF assms(1) ne, of "''/''"]
  show "\<not> (hd (join ''/'' parts) = CHR ''/'' \<or> hd (join ''/'' parts) = CHR 0x5C)
      \<and> \<not> (last (join ''/'' parts) = CHR ''/'' \<or> last (join ''/'' parts) = CHR 0x5C)" by simp
qed

lemma normalized_strip_slashes: "normalize_rel_path stored = Inr rel \<Longrightarrow> strip_slashes rel = rel"
  by (metis normalize_parts safe_path_ends)

text \<open>C38: A stored path that normalises at all normalises to a non-empty sequence of segments
  joined by single slashes, none of them empty, \<open>.\<close> or \<open>..\<close> and none with a slash or backslash
  in it: it cannot name anything above the upload root.\<close>

theorem normalize_rel_path_safe:
  assumes "normalize_rel_path stored = Inr rel"
  shows "split_on (CHR ''/'') rel \<noteq> [] \<and> (\<forall>p \<in> set (split_on (CHR ''/'') rel). safe_segment p)
    \<and> rel = join ''/'' (split_on (CHR ''/'') rel) \<and> strip_slashes rel = rel"
proof -
  from assms obtain parts where parts: "parts \<noteq> []" "rel = join ''/'' parts" "\<forall>p \<in> set parts. safe_segment p"
    by (rule normalize_parts)
  then have "split_on (CHR ''/'') rel = parts"
    by (simp add: split_on_join safe_segment_def)
  with parts normalized_strip_slashes [OF assms] show ?thesis by simp
qed

theorem normalize_rel_path_safe_witness:
  "normalize_rel_path '' ./data/uploads//matter/./a.pdf'' = Inr ''matter/a.pdf''
   \<and> safe_segment ''matter'' \<and> safe_segment ''a.pdf''"
proof -
  have "normalize_rel_path '' ./data/uploads//matter/./a.pdf'' = Inr ''matter/a.pdf''" by code_simp
  moreover have "split_on (CHR ''/'') ''matter/a.pdf'' = [''matter'', ''a.pdf'']" by code_simp
  ultimately show ?thesis using normalize_rel_path_safe [of "'' ./data/uploads//matter/./a.pdf''"] by fastforce
qed

end
