(* ===== verification/File_Delete_Queue.thy ===== *)
theory File_Delete_Queue
  imports Lease_Core Storage "HOL-Library.Product_Lexorder"
begin

text \<open>
  The retry queue for failed file deletions (\<open>app/services/files/file_delete_queue.py\<close>, table
  \<open>file_delete_queue\<close>).

  A row names a stored path whose file could not be deleted. Housekeeping takes a batch under a
  lease and tries each file again through the file service of theory \<open>Storage\<close>; the row is
  removed, scheduled again, or marked as failed for good.
\<close>

section \<open>Data\<close>

record fd_row = lease_row +
  delete_id :: string
  file_path :: string
  file_asset_id :: "string option"

type_synonym fd_table = "fd_row list"

record fd_job =
  fdj_delete_id :: string
  fdj_file_path :: string
  fdj_attempts :: int

record fd_counts =
  fd_picked :: int
  fd_deleted :: int
  fd_retried :: int
  fd_failed :: int

record fd_config =
  fd_max_attempts :: int
  fd_base :: int
  fd_cap :: int
  fd_lock_timeout :: int

datatype fd_error_arg = NoErrorArg | ErrorText string | ErrorException string string

definition fd_compute_backoff_seconds :: "int \<Rightarrow> int \<Rightarrow> int \<Rightarrow> int" where
  "fd_compute_backoff_seconds tries base cap = min cap (base * 2 ^ nat (max 0 (tries - 1)))"

section \<open>Producer\<close>

definition fd_error_text :: "fd_error_arg \<Rightarrow> string option" where
  "fd_error_text e =
     or_none (take 4000 (case e of NoErrorArg \<Rightarrow> [] | ErrorText s \<Rightarrow> s | ErrorException ty m \<Rightarrow> ty @ '': '' @ m))"

text \<open>
  The insert fails on a database error or on the unique path; then the update runs, which may fail
  in turn. The returned flag does not depend on whether the update found a row.
\<close>

definition enqueue_file_delete_retry ::
  "string \<Rightarrow> string option \<Rightarrow> fd_error_arg \<Rightarrow> string \<Rightarrow> datetime \<Rightarrow> bool \<Rightarrow> bool \<Rightarrow> fd_table \<Rightarrow> bool \<times> fd_table"
where
  "enqueue_file_delete_retry path_arg fid error uuid now insert_fails update_fails t =
     (let path = strip path_arg; err = fd_error_text error; f = or_none (or_empty fid) in
      if path = [] then (False, t)
      else if \<not> insert_fails \<and> (\<forall>r \<in> set t. file_path r \<noteq> path \<and> delete_id r \<noteq> uuid)
      then (True, t @ [\<lparr>attempts = 0, next_run_at = Some now, locked_at = None, lock_token = None,
                        last_error = err, created_at = now, updated_at = now,
                        delete_id = uuid, file_path = path, file_asset_id = f\<rparr>])
      else if update_fails then (False, t)
      else (True, sql_update (\<lambda>r. file_path r = path)
              (\<lambda>r. r\<lparr>file_asset_id := (if file_asset_id r = None then f else file_asset_id r),
                     last_error := err, next_run_at := Some now, updated_at := now\<rparr>) t))"

text \<open>The bulk helper, with the id and the database failures of each call.\<close>

fun enqueue_file_delete_retries ::
  "(string \<times> string \<times> bool \<times> bool) list \<Rightarrow> string option \<Rightarrow> fd_error_arg \<Rightarrow> datetime \<Rightarrow> fd_table \<Rightarrow> int \<times> fd_table"
where
  "enqueue_file_delete_retries [] fid error now t = (0, t)"
| "enqueue_file_delete_retries ((p, uuid, insf, updf) # ps) fid error now t =
     (let (ok, t1) = enqueue_file_delete_retry p fid error uuid now insf updf t;
          (n, t2) = enqueue_file_delete_retries ps fid error now t1
      in ((if ok then n + 1 else n), t2))"

definition count_file_delete_queue :: "bool \<Rightarrow> int \<Rightarrow> bool \<Rightarrow> fd_table \<Rightarrow> int" where
  "count_file_delete_queue include_failed max_tries db_fails t =
     (if db_fails then 0
      else if include_failed then int (length t)
      else int (rowcount (\<lambda>r. attempts r < max_tries) t))"

section \<open>Taking rows\<close>

definition fd_selectable :: "datetime \<Rightarrow> int \<Rightarrow> int \<Rightarrow> fd_row \<Rightarrow> bool" where
  "fd_selectable now max_tries lt r \<longleftrightarrow>
     lock_open (now - seconds lt) r \<and> run_due now r \<and> attempts r < max_tries"

definition fd_lockable :: "datetime \<Rightarrow> int \<Rightarrow> int \<Rightarrow> fd_row \<Rightarrow> bool" where
  "fd_lockable now max_tries lt r \<longleftrightarrow> lock_open (now - seconds lt) r \<and> attempts r < max_tries"

definition fd_lock :: "datetime \<Rightarrow> string \<Rightarrow> fd_row \<Rightarrow> fd_row" where
  "fd_lock now token r =
     r\<lparr>locked_at := Some now, lock_token := Some token, attempts := attempts r + 1, updated_at := now\<rparr>"

definition fd_order_key :: "fd_row \<Rightarrow> datetime \<times> datetime" where
  "fd_order_key r = ((case next_run_at r of None \<Rightarrow> created_at r | Some n \<Rightarrow> n), updated_at r)"

definition fd_candidates :: "int \<Rightarrow> datetime \<Rightarrow> int \<Rightarrow> int \<Rightarrow> (string \<Rightarrow> bool) \<Rightarrow> fd_table \<Rightarrow> string list" where
  "fd_candidates limit now max_tries lt held t =
     filter (\<lambda>i. i \<noteq> []) (map delete_id (take (nat limit) (sort_key fd_order_key
       (filter (\<lambda>r. fd_selectable now max_tries lt r \<and> \<not> held (delete_id r)) t))))"

definition fd_pick_and_lock_ready_jobs ::
  "int \<Rightarrow> datetime \<Rightarrow> string \<Rightarrow> int \<Rightarrow> int \<Rightarrow> (string \<Rightarrow> bool) \<Rightarrow> bool \<Rightarrow> fd_table \<Rightarrow> fd_table \<times> fd_job list"
where
  "fd_pick_and_lock_ready_jobs limit now token max_tries lt held db_fails t =
     (if db_fails then (t, [])
      else let (t1, locked) = lease_rows delete_id lock_token (fd_lockable now max_tries lt) (fd_lock now token)
                 token (fd_candidates limit now max_tries lt held t) t t;
               out = map (\<lambda>r. \<lparr>fdj_delete_id = delete_id r, fdj_file_path = file_path r, fdj_attempts = attempts r\<rparr>)
                 (filter (\<lambda>r. file_path r \<noteq> []) locked)
           in if out = [] then (t, []) else (t1, out))"

section \<open>Finishing a row\<close>

definition fd_owned :: "string \<Rightarrow> string \<Rightarrow> fd_row \<Rightarrow> bool" where
  "fd_owned did token r \<longleftrightarrow> delete_id r = did \<and> lock_token r = Some token"

definition fd_delete_row :: "string \<Rightarrow> string \<Rightarrow> bool \<Rightarrow> fd_table \<Rightarrow> bool \<times> fd_table" where
  "fd_delete_row did token db_fails t =
     (if db_fails then (False, t) else (rowcount (fd_owned did token) t \<noteq> 0, sql_delete (fd_owned did token) t))"

definition fd_schedule_retry ::
  "string \<Rightarrow> string \<Rightarrow> string \<Rightarrow> datetime \<Rightarrow> datetime \<Rightarrow> bool \<Rightarrow> fd_table \<Rightarrow> bool \<times> fd_table"
where
  "fd_schedule_retry did token error next_run now db_fails t =
     (let err = take 4000 (if error = [] then ''unknown error'' else error) in
      if db_fails then (False, t)
      else (rowcount (fd_owned did token) t \<noteq> 0,
            sql_update (fd_owned did token)
              (\<lambda>r. r\<lparr>last_error := Some err, next_run_at := Some next_run, locked_at := None,
                     lock_token := None, updated_at := now\<rparr>) t))"

definition fd_mark_terminal_failure ::
  "string \<Rightarrow> string \<Rightarrow> string \<Rightarrow> int \<Rightarrow> datetime \<Rightarrow> bool \<Rightarrow> fd_table \<Rightarrow> bool \<times> fd_table"
where
  "fd_mark_terminal_failure did token error max_tries now db_fails t =
     (let err = take 4000 (if error = [] then ''unknown error'' else error) in
      if db_fails then (False, t)
      else (rowcount (fd_owned did token) t \<noteq> 0,
            sql_update (fd_owned did token)
              (\<lambda>r. r\<lparr>last_error := Some err, next_run_at := None, attempts := max_tries, locked_at := None,
                     lock_token := None, updated_at := now\<rparr>) t))"

section \<open>Draining\<close>

record fd_env =
  fd_storage :: storage_env
  fd_backend :: storage_type
  fd_clock :: "string \<Rightarrow> datetime"
  fd_stmt_fails :: "string \<Rightarrow> bool"

record fd_state =
  fd_rows :: fd_table
  fd_store :: store
  fd_counts :: fd_counts

definition count_deleted :: "bool \<Rightarrow> fd_counts \<Rightarrow> fd_counts" where
  "count_deleted ok c = (if ok then c\<lparr>fd_deleted := fd_deleted c + 1\<rparr> else c)"

definition count_failed :: "fd_counts \<Rightarrow> fd_counts" where
  "count_failed c = c\<lparr>fd_failed := fd_failed c + 1\<rparr>"

text \<open>The result of \<open>delete_physical_file\<close> and the error text the drain makes of it.\<close>

definition delete_outcome :: "string + bool \<Rightarrow> bool \<times> string" where
  "delete_outcome res =
     (case res of Inl m \<Rightarrow> (False, m)
      | Inr ok \<Rightarrow> (ok, if ok then [] else ''delete_physical_file returned False''))"

definition fd_process_job :: "fd_config \<Rightarrow> fd_env \<Rightarrow> string \<Rightarrow> fd_job \<Rightarrow> fd_state \<Rightarrow> fd_state" where
  "fd_process_job cfg env token job s =
     (let did = fdj_delete_id job; path = fdj_file_path job; tries = fdj_attempts job;
          now = fd_clock env did; fails = fd_stmt_fails env did in
      if did = [] \<or> path = [] then s
      else case abs_path (fd_storage env) path of
        Inl err \<Rightarrow>
          s\<lparr>fd_rows := snd (fd_mark_terminal_failure did token (''unsafe_path:ValueError: '' @ storage_error_text err)
              (fd_max_attempts cfg) now fails (fd_rows s)),
            fd_counts := count_failed (fd_counts s)\<rparr>
      | Inr full \<Rightarrow>
          if \<not> local_files (fd_store s) full
          then case fd_delete_row did token fails (fd_rows s) of
            (ok, t') \<Rightarrow> s\<lparr>fd_rows := t', fd_counts := count_deleted ok (fd_counts s)\<rparr>
          else case delete_physical_file (fd_storage env) (fd_backend env) path (fd_store s) of
            (res, fs') \<Rightarrow>
              (case delete_outcome res of
                 (True, err) \<Rightarrow>
                   (case fd_delete_row did token fails (fd_rows s) of
                      (ok, t') \<Rightarrow> s\<lparr>fd_rows := t', fd_store := fs', fd_counts := count_deleted ok (fd_counts s)\<rparr>)
               | (False, err) \<Rightarrow>
                   if fd_max_attempts cfg \<le> tries
                   then s\<lparr>fd_rows := snd (fd_mark_terminal_failure did token err (fd_max_attempts cfg) now fails (fd_rows s)),
                          fd_store := fs', fd_counts := count_failed (fd_counts s)\<rparr>
                   else (case fd_schedule_retry did token err
                             (now + seconds (fd_compute_backoff_seconds (max 1 tries) (fd_base cfg) (fd_cap cfg)))
                             now fails (fd_rows s) of
                           (ok, t') \<Rightarrow> s\<lparr>fd_rows := t', fd_store := fs',
                              fd_counts := (if ok then (fd_counts s)\<lparr>fd_retried := fd_retried (fd_counts s) + 1\<rparr>
                                            else count_failed (fd_counts s))\<rparr>)))"

definition fd_no_counts :: fd_counts where
  "fd_no_counts = \<lparr>fd_picked = 0, fd_deleted = 0, fd_retried = 0, fd_failed = 0\<rparr>"

definition drain_file_delete_queue ::
  "fd_config \<Rightarrow> fd_env \<Rightarrow> string \<Rightarrow> datetime \<Rightarrow> (string \<Rightarrow> bool) \<Rightarrow> bool \<Rightarrow> int \<Rightarrow> fd_table \<Rightarrow> store \<Rightarrow> fd_state"
where
  "drain_file_delete_queue cfg env token now held db_fails limit t fs =
     (let (t1, jobs) = fd_pick_and_lock_ready_jobs limit now token (fd_max_attempts cfg) (fd_lock_timeout cfg) held db_fails t;
          s = fold (fd_process_job cfg env token) jobs \<lparr>fd_rows = t1, fd_store = fs, fd_counts = fd_no_counts\<rparr>
      in s\<lparr>fd_counts := (fd_counts s)\<lparr>fd_picked := int (length jobs)\<rparr>\<rparr>)"

section \<open>Leases\<close>

interpretation fd_backoff: backoff_policy "\<lambda>a c. fd_compute_backoff_seconds a b c" b for b
proof
  fix a c :: int
  have "nat (max 0 (a - 1)) = nat (a - 1)" by simp
  then show "fd_compute_backoff_seconds a b c = min c (b * 2 ^ nat (a - 1))"
    by (simp add: fd_compute_backoff_seconds_def)
qed

interpretation fd_leasing: row_leasing delete_id lock_token
  "\<lambda>now. lease_live (now - seconds lt)" "\<lambda>now now'. now' - seconds lt \<le> now"
  "\<lambda>now. fd_candidates n now ma lt held" "\<lambda>now. fd_lockable now ma lt" fd_lock
  for n ma lt held
proof unfold_locales
  fix now k and t :: fd_table
  assume "k \<in> set (fd_candidates n now ma lt held t)"
  then show "\<exists>r \<in> set t. delete_id r = k \<and> fd_lockable now ma lt r"
    by (auto simp: fd_candidates_def fd_selectable_def fd_lockable_def dest!: in_set_takeD)
next
  fix now r
  assume "fd_lockable now ma lt r"
  then show "\<not> lease_live (now - seconds lt) r"
    using lease_live_not_open by (auto simp: fd_lockable_def)
qed (auto simp: fd_lock_def lease_live_def)

lemma fd_pick_jobs:
  assumes "fd_pick_and_lock_ready_jobs n now tok ma lt held f t = (t1, js)"
  shows "js = [] \<and> t1 = t
    \<or> map_prod id (map delete_id) (lease_rows delete_id lock_token (fd_lockable now ma lt) (fd_lock now tok) tok
         (fd_candidates n now ma lt held t) t t) = (t1, map delete_id (snd (lease_rows delete_id lock_token
           (fd_lockable now ma lt) (fd_lock now tok) tok (fd_candidates n now ma lt held t) t t)))
      \<and> js = map (\<lambda>r. \<lparr>fdj_delete_id = delete_id r, fdj_file_path = file_path r, fdj_attempts = attempts r\<rparr>)
          (filter (\<lambda>r. file_path r \<noteq> []) (snd (lease_rows delete_id lock_token (fd_lockable now ma lt) (fd_lock now tok) tok
             (fd_candidates n now ma lt held t) t t)))"
  using assms by (auto simp: fd_pick_and_lock_ready_jobs_def Let_def split: if_splits prod.splits)

text \<open>Two housekeeping runs within a lock timeout never take the same deletion.\<close>

theorem fd_picks_disjoint:
  assumes "distinct (map delete_id t)"
    and "fd_pick_and_lock_ready_jobs n now1 tok1 ma lt held False t = (t1, js1)"
    and "fd_pick_and_lock_ready_jobs n now2 tok2 ma lt held False t1 = (t2, js2)"
    and "now2 - seconds lt \<le> now1"
  shows "fdj_delete_id ` set js1 \<inter> fdj_delete_id ` set js2 = {}"
proof (cases "js1 = [] \<or> js2 = []")
  case False
  let ?l1 = "lease_rows delete_id lock_token (fd_lockable now1 ma lt) (fd_lock now1 tok1) tok1 (fd_candidates n now1 ma lt held t) t t"
  let ?l2 = "lease_rows delete_id lock_token (fd_lockable now2 ma lt) (fd_lock now2 tok2) tok2 (fd_candidates n now2 ma lt held t1) t1 t1"
  from fd_pick_jobs [OF assms(2)] False
  have 1: "map_prod id (map delete_id) ?l1 = (t1, map delete_id (snd ?l1))"
    and sub1: "fdj_delete_id ` set js1 \<subseteq> set (map delete_id (snd ?l1))" by auto
  from fd_pick_jobs [OF assms(3)] False
  have 2: "map_prod id (map delete_id) ?l2 = (t2, map delete_id (snd ?l2))"
    and sub2: "fdj_delete_id ` set js2 \<subseteq> set (map delete_id (snd ?l2))" by auto
  from fd_leasing.second_claim_disjoint [OF assms(1) 1 2 assms(4)] sub1 sub2 show ?thesis by blast
qed auto

definition fd_row_example :: fd_row where
  "fd_row_example = \<lparr>attempts = 0, next_run_at = Some 0, locked_at = None, lock_token = None, last_error = None,
     created_at = 0, updated_at = 0, delete_id = ''d1'', file_path = ''matter/a.pdf'', file_asset_id = None\<rparr>"

theorem fd_picks_disjoint_witness:
  "fdj_delete_id ` set (snd (fd_pick_and_lock_ready_jobs 1 5 ''t1'' 10 600 (\<lambda>_. False) False [fd_row_example]))
     \<inter> fdj_delete_id ` set (snd (fd_pick_and_lock_ready_jobs 1 6 ''t2'' 10 600 (\<lambda>_. False) False
          (fst (fd_pick_and_lock_ready_jobs 1 5 ''t1'' 10 600 (\<lambda>_. False) False [fd_row_example])))) = {}"
  using fd_picks_disjoint [where ?now1.0 = 5 and ?now2.0 = 6 and lt = 600 and n = 1 and ma = 10 and held = "\<lambda>_. False"
      and t = "[fd_row_example]" and ?tok1.0 = "''t1''" and ?tok2.0 = "''t2''", OF _ surjective_pairing surjective_pairing]
  by (simp add: seconds_def)

section \<open>A row leaves the queue only when its file is gone\<close>

definition file_gone :: "store \<Rightarrow> string \<Rightarrow> bool" where
  "file_gone fs path \<longleftrightarrow> (\<exists>rel. normalize_rel_path path = Inr rel \<and> \<not> local_files fs rel)"

definition same_deletion :: "fd_row \<Rightarrow> fd_row \<Rightarrow> bool" where
  "same_deletion r r' \<longleftrightarrow> delete_id r' = delete_id r \<and> file_path r' = file_path r"

lemma local_delete_shrinks: "local_files (snd (local_delete e p fs)) x \<Longrightarrow> local_files fs x"
  by (auto simp: local_delete_def Let_def split: if_splits)

lemma local_delete_gone:
  "fst (local_delete e p fs) \<Longrightarrow> \<not> local_files (snd (local_delete e p fs)) (strip_slashes p)"
  by (auto simp: local_delete_def Let_def split: if_splits)

lemma delete_local_effect:
  assumes "delete_physical_file e Local path fs = (res, fs')"
  shows "(\<forall>x. local_files fs' x \<longrightarrow> local_files fs x) \<and> (res = Inr True \<longrightarrow> file_gone fs' path)"
proof (cases "normalize_rel_path path")
  case (Inl err)
  with assms show ?thesis by (auto simp: delete_physical_file_def)
next
  case (Inr rel)
  with assms have res: "res = Inr (fst (local_delete e rel fs))" and fs': "fs' = snd (local_delete e rel fs)"
    by (auto simp: delete_physical_file_def map_prod_def split: prod.splits)
  have "strip_slashes rel = rel" using Inr by (rule normalized_strip_slashes)
  with Inr res fs' local_delete_gone [of e rel fs] local_delete_shrinks [of e rel fs] show ?thesis
    by (auto simp: file_gone_def)
qed

lemma sql_update_same:
  assumes "r \<in> set t" and "\<And>x. same_deletion x (f x)"
  shows "\<exists>r' \<in> set (sql_update p f t). same_deletion r r'"
  using sql_update_hit [of r t p f] sql_update_miss [of r t p f] assms
  by (cases "p r") (auto simp: same_deletion_def)

lemma mark_terminal_same: "r \<in> set t \<Longrightarrow> \<exists>r' \<in> set (snd (fd_mark_terminal_failure did tok e m now f t)). same_deletion r r'"
proof -
  assume r: "r \<in> set t"
  show ?thesis unfolding fd_mark_terminal_failure_def Let_def
    using r sql_update_same [OF r] by (auto simp: same_deletion_def)
qed

lemma schedule_same: "r \<in> set t \<Longrightarrow> \<exists>r' \<in> set (snd (fd_schedule_retry did tok e nr now f t)). same_deletion r r'"
proof -
  assume r: "r \<in> set t"
  show ?thesis unfolding fd_schedule_retry_def Let_def
    using r sql_update_same [OF r] by (auto simp: same_deletion_def)
qed

lemma delete_row_same:
  assumes "r \<in> set t" and "delete_id r \<noteq> did"
  shows "\<exists>r' \<in> set (snd (fd_delete_row did tok f t)). same_deletion r r'"
  using assms by (auto simp: fd_delete_row_def set_sql_delete fd_owned_def same_deletion_def)
lemma sql_update_origin:
  "r' \<in> set (sql_update p f t) \<Longrightarrow> (\<And>x. same_deletion x (f x)) \<Longrightarrow> \<exists>r \<in> set t. same_deletion r r'"
  by (auto simp: set_sql_update same_deletion_def)

lemma fd_statement_origin:
  "r' \<in> set (snd (fd_mark_terminal_failure did tok e m now f t)) \<Longrightarrow> \<exists>r \<in> set t. same_deletion r r'"
  "r' \<in> set (snd (fd_schedule_retry did tok e nr now f t)) \<Longrightarrow> \<exists>r \<in> set t. same_deletion r r'"
  "r' \<in> set (snd (fd_delete_row did tok f t)) \<Longrightarrow> \<exists>r \<in> set t. same_deletion r r'"
  by (auto simp: fd_mark_terminal_failure_def fd_schedule_retry_def fd_delete_row_def Let_def set_sql_delete
      same_deletion_def split: if_splits dest!: sql_update_origin)

text \<open>The ways a job can end: nothing to do, marked as failed, removed because its file is gone, or
  scheduled again.\<close>

lemma fd_process_cases:
  assumes local: "fd_backend env = Local" and s': "s' = fd_process_job cfg env tok job s"
  obtains
    (skip) "s' = s"
  | (terminal) err m where "fd_rows s' = snd (fd_mark_terminal_failure (fdj_delete_id job) tok err m
        (fd_clock env (fdj_delete_id job)) (fd_stmt_fails env (fdj_delete_id job)) (fd_rows s))"
      "\<forall>x. local_files (fd_store s') x \<longrightarrow> local_files (fd_store s) x" "fd_counts s' = count_failed (fd_counts s)"
  | (removed) ok where "fd_delete_row (fdj_delete_id job) tok (fd_stmt_fails env (fdj_delete_id job)) (fd_rows s) = (ok, fd_rows s')"
      "\<forall>x. local_files (fd_store s') x \<longrightarrow> local_files (fd_store s) x" "file_gone (fd_store s') (fdj_file_path job)"
      "fd_counts s' = count_deleted ok (fd_counts s)"
  | (retried) err nr ok where "fd_schedule_retry (fdj_delete_id job) tok err nr (fd_clock env (fdj_delete_id job))
        (fd_stmt_fails env (fdj_delete_id job)) (fd_rows s) = (ok, fd_rows s')"
      "\<forall>x. local_files (fd_store s') x \<longrightarrow> local_files (fd_store s) x"
      "fd_counts s' = (if ok then (fd_counts s)\<lparr>fd_retried := fd_retried (fd_counts s) + 1\<rparr> else count_failed (fd_counts s))"
proof (cases "fdj_delete_id job = [] \<or> fdj_file_path job = []")
  case True
  with s' show ?thesis by (intro skip) (auto simp: fd_process_job_def Let_def)
next
  case False
  show ?thesis
  proof (cases "abs_path (fd_storage env) (fdj_file_path job)")
    case (Inl err)
    with False s' show ?thesis by (intro terminal) (auto simp: fd_process_job_def Let_def)
  next
    case (Inr full)
    then have norm: "normalize_rel_path (fdj_file_path job) = Inr full"
      by (auto simp: abs_path_def split: sum.splits if_splits)
    obtain res fs' where del: "delete_physical_file (fd_storage env) Local (fdj_file_path job) (fd_store s) = (res, fs')" by fastforce
    note effect = delete_local_effect [OF del]
    obtain ok err where out: "delete_outcome res = (ok, err)" by fastforce
    have okres: "ok \<Longrightarrow> res = Inr True" using out by (auto simp: delete_outcome_def split: sum.splits)
    obtain dok t1 where drow: "fd_delete_row (fdj_delete_id job) tok (fd_stmt_fails env (fdj_delete_id job)) (fd_rows s) = (dok, t1)"
      by fastforce
    consider (absent) "\<not> local_files (fd_store s) full" | (present) "local_files (fd_store s) full" by blast
    then show ?thesis
    proof cases
      case absent
      with False Inr s' drow norm show ?thesis
        by (intro removed [of dok]) (auto simp: fd_process_job_def Let_def file_gone_def)
    next
      case present
      show ?thesis
      proof (cases ok)
        case True
        with False Inr s' drow present del out local effect okres show ?thesis
          by (intro removed [of dok]) (auto simp: fd_process_job_def Let_def)
      next
        case fail: False
        show ?thesis
        proof (cases "fd_max_attempts cfg \<le> fdj_attempts job")
          case True
          with False Inr s' present del out local effect fail show ?thesis
            by (intro terminal) (auto simp: fd_process_job_def Let_def)
        next
          case retry: False
          let ?nr = "fd_clock env (fdj_delete_id job) + seconds (fd_compute_backoff_seconds (max 1 (fdj_attempts job)) (fd_base cfg) (fd_cap cfg))"
          obtain sok t2 where "fd_schedule_retry (fdj_delete_id job) tok err ?nr (fd_clock env (fdj_delete_id job))
              (fd_stmt_fails env (fdj_delete_id job)) (fd_rows s) = (sok, t2)" by fastforce
          with False Inr s' present del out local effect fail retry show ?thesis
            by (intro retried [of err ?nr sok]) (auto simp: fd_process_job_def Let_def)
        qed
      qed
    qed
  qed
qed

definition fd_done_count :: "fd_counts \<Rightarrow> int" where
  "fd_done_count c = fd_deleted c + fd_retried c + fd_failed c"

lemma fd_process_job_effect:
  assumes "fd_backend env = Local" and "s' = fd_process_job cfg env tok job s"
    and match: "\<forall>r \<in> set (fd_rows s). delete_id r = fdj_delete_id job \<longrightarrow> file_path r = fdj_file_path job"
  shows "(\<forall>r \<in> set (fd_rows s). (\<exists>r' \<in> set (fd_rows s'). same_deletion r r') \<or> file_gone (fd_store s') (file_path r))
    \<and> (\<forall>r' \<in> set (fd_rows s'). \<exists>r \<in> set (fd_rows s). same_deletion r r')
    \<and> (\<forall>x. local_files (fd_store s') x \<longrightarrow> local_files (fd_store s) x)
    \<and> fd_done_count (fd_counts s) \<le> fd_done_count (fd_counts s') \<and> fd_done_count (fd_counts s') \<le> fd_done_count (fd_counts s) + 1"
  using assms(1,2)
proof (cases rule: fd_process_cases)
  case skip
  then show ?thesis by (auto simp: same_deletion_def)
next
  case (terminal err m)
  then show ?thesis
    using mark_terminal_same fd_statement_origin(1) by (simp add: fd_done_count_def count_failed_def)
next
  case (removed ok)
  let ?did = "fdj_delete_id job"
  have rows: "fd_rows s' = snd (fd_delete_row ?did tok (fd_stmt_fails env ?did) (fd_rows s))" using removed(1) by simp
  have "(\<exists>r' \<in> set (fd_rows s'). same_deletion r r') \<or> file_gone (fd_store s') (file_path r)"
    if "r \<in> set (fd_rows s)" for r
    using delete_row_same [OF that] match that removed(3) unfolding rows by (cases "delete_id r = ?did") auto
  moreover have "\<exists>r \<in> set (fd_rows s). same_deletion r r'" if "r' \<in> set (fd_rows s')" for r'
    using fd_statement_origin(3) that unfolding rows .
  ultimately show ?thesis using removed(2,4) by (auto simp: fd_done_count_def count_deleted_def)
next
  case (retried err nr ok)
  let ?did = "fdj_delete_id job"
  have rows: "fd_rows s' = snd (fd_schedule_retry ?did tok err nr (fd_clock env ?did) (fd_stmt_fails env ?did) (fd_rows s))"
    using retried(1) by simp
  have "\<exists>r' \<in> set (fd_rows s'). same_deletion r r'" if "r \<in> set (fd_rows s)" for r
    using schedule_same [OF that] unfolding rows .
  moreover have "\<exists>r \<in> set (fd_rows s). same_deletion r r'" if "r' \<in> set (fd_rows s')" for r'
    using fd_statement_origin(2) that unfolding rows .
  ultimately show ?thesis using retried(2,3) by (auto simp: fd_done_count_def count_failed_def)
qed
lemma same_deletion_trans: "same_deletion a b \<Longrightarrow> same_deletion b c \<Longrightarrow> same_deletion a c"
  by (simp add: same_deletion_def)

lemma file_gone_mono: "file_gone fs p \<Longrightarrow> \<forall>x. local_files fs' x \<longrightarrow> local_files fs x \<Longrightarrow> file_gone fs' p"
  by (auto simp: file_gone_def)

lemma fd_fold_effect:
  assumes "fd_backend env = Local"
    and "\<forall>j \<in> set js. \<forall>r \<in> set (fd_rows s). delete_id r = fdj_delete_id j \<longrightarrow> file_path r = fdj_file_path j"
    and "s' = fold (fd_process_job cfg env tok) js s"
  shows "(\<forall>r \<in> set (fd_rows s). (\<exists>r' \<in> set (fd_rows s'). same_deletion r r') \<or> file_gone (fd_store s') (file_path r))
    \<and> (\<forall>x. local_files (fd_store s') x \<longrightarrow> local_files (fd_store s) x)
    \<and> fd_done_count (fd_counts s') \<le> fd_done_count (fd_counts s) + int (length js)"
  using assms(2,3)
proof (induction js arbitrary: s)
  case Nil
  then show ?case by (auto simp: same_deletion_def)
next
  case (Cons j js)
  let ?s1 = "fd_process_job cfg env tok j s"
  have step: "(\<forall>r \<in> set (fd_rows s). (\<exists>r' \<in> set (fd_rows ?s1). same_deletion r r') \<or> file_gone (fd_store ?s1) (file_path r))
    \<and> (\<forall>r' \<in> set (fd_rows ?s1). \<exists>r \<in> set (fd_rows s). same_deletion r r')
    \<and> (\<forall>x. local_files (fd_store ?s1) x \<longrightarrow> local_files (fd_store s) x)
    \<and> fd_done_count (fd_counts s) \<le> fd_done_count (fd_counts ?s1) \<and> fd_done_count (fd_counts ?s1) \<le> fd_done_count (fd_counts s) + 1"
    by (rule fd_process_job_effect [OF assms(1) refl]) (use Cons.prems(1) in simp)
  have match1: "\<forall>j' \<in> set js. \<forall>r' \<in> set (fd_rows ?s1). delete_id r' = fdj_delete_id j' \<longrightarrow> file_path r' = fdj_file_path j'"
  proof (intro ballI impI)
    fix j' r'
    assume j': "j' \<in> set js" and "r' \<in> set (fd_rows ?s1)" and id: "delete_id r' = fdj_delete_id j'"
    with step obtain r where r: "r \<in> set (fd_rows s)" "same_deletion r r'" by blast
    with Cons.prems(1) j' id show "file_path r' = fdj_file_path j'" by (auto simp: same_deletion_def)
  qed
  have IH: "(\<forall>r \<in> set (fd_rows ?s1). (\<exists>r' \<in> set (fd_rows s'). same_deletion r r') \<or> file_gone (fd_store s') (file_path r))
    \<and> (\<forall>x. local_files (fd_store s') x \<longrightarrow> local_files (fd_store ?s1) x)
    \<and> fd_done_count (fd_counts s') \<le> fd_done_count (fd_counts ?s1) + int (length js)"
    by (rule Cons.IH [OF match1]) (use Cons.prems(2) in simp)
  have "(\<exists>r' \<in> set (fd_rows s'). same_deletion r r') \<or> file_gone (fd_store s') (file_path r)" if "r \<in> set (fd_rows s)" for r
  proof -
    from step that consider r1 where "r1 \<in> set (fd_rows ?s1)" "same_deletion r r1" | "file_gone (fd_store ?s1) (file_path r)" by blast
    then show ?thesis
    proof cases
      case 1
      with IH have "(\<exists>r' \<in> set (fd_rows s'). same_deletion r1 r') \<or> file_gone (fd_store s') (file_path r1)" by blast
      with 1(2) same_deletion_trans show ?thesis by (metis same_deletion_def)
    next
      case 2
      with IH file_gone_mono show ?thesis by blast
    qed
  qed
  with IH step show ?case by force
qed

lemma fd_pick_origin:
  assumes dist: "distinct (map delete_id t)" and "fd_pick_and_lock_ready_jobs n now tok ma lt held f t = (t1, js)"
  shows "(\<forall>r \<in> set t. \<exists>r1 \<in> set t1. same_deletion r r1)
    \<and> (\<forall>j \<in> set js. \<forall>r \<in> set t1. delete_id r = fdj_delete_id j \<longrightarrow> file_path r = fdj_file_path j)"
proof -
  let ?l = "lease_rows delete_id lock_token (fd_lockable now ma lt) (fd_lock now tok) tok (fd_candidates n now ma lt held t) t t"
  from fd_pick_jobs [OF assms(2)] consider "js = []" "t1 = t" | "t1 = fst ?l"
    "js = map (\<lambda>r. \<lparr>fdj_delete_id = delete_id r, fdj_file_path = file_path r, fdj_attempts = attempts r\<rparr>)
        (filter (\<lambda>r. file_path r \<noteq> []) (snd ?l))"
    by (auto simp: map_prod_def split: prod.splits)
  then show ?thesis
  proof cases
    case 1
    then show ?thesis by (auto simp: same_deletion_def)
  next
    case 2
    have dist1: "distinct (map delete_id t1)" using dist fd_leasing.lease_rows_keys [of now ma lt tok] by (simp add: 2(1))
    have "\<exists>r1 \<in> set t1. same_deletion r r1" if "r \<in> set t" for r
      unfolding 2(1) lease_rows_def Let_def using that sql_update_same [OF that, of "fd_lock now tok"]
      by (auto simp: same_deletion_def fd_lock_def)
    moreover have "file_path r = fdj_file_path j"
      if j: "j \<in> set js" and r: "r \<in> set t1" "delete_id r = fdj_delete_id j" for j r
    proof -
      from j 2(2) obtain r0 where r0: "r0 \<in> set (snd ?l)" "fdj_delete_id j = delete_id r0" "fdj_file_path j = file_path r0" by auto
      have "r0 \<in> set t1" using fd_leasing.lease_rows_locked [OF dist subset_refl r0(1)] 2(1) by simp
      with r r0 same_key_same_row [OF dist1 r(1)] show ?thesis by simp
    qed
    ultimately show ?thesis by blast
  qed
qed

text \<open>C30: With local storage a deletion leaves the queue only when its file is gone: after a drain,
  every row that was in the queue is still there for the same path, or the file it names does not
  exist; files are only ever removed, and the drain accounts for at most the rows it picked.\<close>

theorem fd_row_leaves_only_with_its_file:
  assumes "distinct (map delete_id t)" and "fd_backend env = Local"
    and "s = drain_file_delete_queue cfg env tok now held f n t fs"
  shows "(\<forall>r \<in> set t. (\<exists>r' \<in> set (fd_rows s). delete_id r' = delete_id r \<and> file_path r' = file_path r)
      \<or> (\<exists>rel. normalize_rel_path (file_path r) = Inr rel \<and> \<not> local_files (fd_store s) rel))
    \<and> (\<forall>x. local_files (fd_store s) x \<longrightarrow> local_files fs x)
    \<and> fd_deleted (fd_counts s) + fd_retried (fd_counts s) + fd_failed (fd_counts s) \<le> fd_picked (fd_counts s)"
proof -
  obtain t1 js where pick: "fd_pick_and_lock_ready_jobs n now tok (fd_max_attempts cfg) (fd_lock_timeout cfg) held f t = (t1, js)"
    by fastforce
  let ?init = "\<lparr>fd_rows = t1, fd_store = fs, fd_counts = fd_no_counts\<rparr>"
  let ?s = "fold (fd_process_job cfg env tok) js ?init"
  have s: "s = ?s\<lparr>fd_counts := (fd_counts ?s)\<lparr>fd_picked := int (length js)\<rparr>\<rparr>"
    using assms(3) pick by (simp add: drain_file_delete_queue_def Let_def)
  note origin = fd_pick_origin [OF assms(1) pick]
  have effect: "(\<forall>r \<in> set (fd_rows ?init). (\<exists>r' \<in> set (fd_rows ?s). same_deletion r r') \<or> file_gone (fd_store ?s) (file_path r))
    \<and> (\<forall>x. local_files (fd_store ?s) x \<longrightarrow> local_files (fd_store ?init) x)
    \<and> fd_done_count (fd_counts ?s) \<le> fd_done_count (fd_counts ?init) + int (length js)"
    by (rule fd_fold_effect [OF assms(2) _ refl]) (use origin in simp)
  have "(\<exists>r' \<in> set (fd_rows ?s). same_deletion r r') \<or> file_gone (fd_store ?s) (file_path r)" if r: "r \<in> set t" for r
  proof -
    from origin r obtain r1 where r1: "r1 \<in> set t1" "same_deletion r r1" by blast
    with effect have "(\<exists>r' \<in> set (fd_rows ?s). same_deletion r1 r') \<or> file_gone (fd_store ?s) (file_path r1)" by simp
    with r1(2) same_deletion_trans [OF r1(2)] show ?thesis by (metis same_deletion_def)
  qed
  with effect show ?thesis
    by (simp add: s same_deletion_def file_gone_def fd_done_count_def fd_no_counts_def)
qed

definition storage_env_example :: storage_env where
  "storage_env_example = \<lparr>path_escapes = (\<lambda>_. False), unlink_fails = (\<lambda>_. False), s3_reply = (\<lambda>_. S3Ok)\<rparr>"

definition fd_env_example :: "storage_type \<Rightarrow> fd_env" where
  "fd_env_example b = \<lparr>fd_storage = storage_env_example, fd_backend = b, fd_clock = (\<lambda>_. 9), fd_stmt_fails = (\<lambda>_. False)\<rparr>"

definition fd_config_example :: fd_config where
  "fd_config_example = \<lparr>fd_max_attempts = 10, fd_base = 60, fd_cap = 3600, fd_lock_timeout = 600\<rparr>"

theorem fd_row_leaves_only_with_its_file_witness:
  "let s = drain_file_delete_queue fd_config_example (fd_env_example Local) ''t1'' 5 (\<lambda>_. False) False 200 [fd_row_example]
       \<lparr>local_files = (\<lambda>p. p = ''matter/a.pdf''), s3_objects = (\<lambda>_. False)\<rparr>
   in (\<exists>r' \<in> set (fd_rows s). delete_id r' = ''d1'' \<and> file_path r' = ''matter/a.pdf'')
      \<or> (\<exists>rel. normalize_rel_path ''matter/a.pdf'' = Inr rel \<and> \<not> local_files (fd_store s) rel)"
  using fd_row_leaves_only_with_its_file [where t = "[fd_row_example]" and env = "fd_env_example Local", OF _ _ refl]
  by (simp add: fd_env_example_def fd_row_example_def)

section \<open>Where the queue loses deletions\<close>

text \<open>With S3 storage the drain decides by the local file: a stored path that has no local copy
  is taken for deleted, the row is removed, and the object in the bucket stays.\<close>

theorem fd_s3_object_survives:
  assumes "r \<in> set (fd_rows s)" and "fd_owned did tok r" and "did \<noteq> []" and "path \<noteq> []"
    and "fdj_delete_id job = did" and "fdj_file_path job = path"
    and "normalize_rel_path path = Inr rel" and "\<not> path_escapes (fd_storage env) rel" and "\<not> local_files (fd_store s) rel"
    and "\<not> fd_stmt_fails env did" and "s' = fd_process_job cfg env tok job s"
  shows "fd_store s' = fd_store s \<and> fd_deleted (fd_counts s') = fd_deleted (fd_counts s) + 1
    \<and> (\<forall>x \<in> set (fd_rows s'). \<not> fd_owned did tok x)"
proof -
  have "rowcount (fd_owned did tok) (fd_rows s) \<noteq> 0" using assms(1,2) by auto
  with assms(3-11) show ?thesis
    by (simp add: fd_process_job_def Let_def abs_path_def fd_delete_row_def count_deleted_def set_sql_delete del: rowcount_0)
qed

theorem fd_s3_object_survives_witness:
  "fd_store (fd_process_job fd_config_example (fd_env_example S3) ''t1''
      \<lparr>fdj_delete_id = ''d1'', fdj_file_path = ''matter/a.pdf'', fdj_attempts = 1\<rparr>
      \<lparr>fd_rows = [fd_lock 5 ''t1'' fd_row_example], fd_store = \<lparr>local_files = (\<lambda>_. False), s3_objects = (\<lambda>p. p = ''matter/a.pdf'')\<rparr>,
       fd_counts = fd_no_counts\<rparr>) = \<lparr>local_files = (\<lambda>_. False), s3_objects = (\<lambda>p. p = ''matter/a.pdf'')\<rparr>"
proof -
  have "normalize_rel_path ''matter/a.pdf'' = Inr ''matter/a.pdf''" by code_simp
  with fd_s3_object_survives [where did = "''d1''" and tok = "''t1''" and path = "''matter/a.pdf''" and rel = "''matter/a.pdf''"
      and job = "\<lparr>fdj_delete_id = ''d1'', fdj_file_path = ''matter/a.pdf'', fdj_attempts = 1\<rparr>" and env = "fd_env_example S3"
      and s = "\<lparr>fd_rows = [fd_lock 5 ''t1'' fd_row_example],
        fd_store = \<lparr>local_files = (\<lambda>_. False), s3_objects = (\<lambda>p. p = ''matter/a.pdf'')\<rparr>, fd_counts = fd_no_counts\<rparr>"
      and r = "fd_lock 5 ''t1'' fd_row_example" and cfg = fd_config_example, OF _ _ _ _ _ _ _ _ _ _ refl]
  show ?thesis by (simp add: fd_env_example_def storage_env_example_def fd_owned_def fd_lock_def fd_row_example_def)
qed

text \<open>Recording a failed deletion again does not revive an exhausted row (its attempts stay, so
  no drain takes it), and when the insert fails for another reason than the path being queued, the
  call still reports success although nothing is in the queue.\<close>

theorem fd_enqueue_gaps:
  assumes "distinct (map file_path t)" and "r \<in> set t" and "file_path r = strip path" and "strip path \<noteq> []"
    and "ma \<le> attempts r"
  shows "fst (enqueue_file_delete_retry path fid err uuid now insf False t)
    \<and> (\<exists>r' \<in> set (snd (enqueue_file_delete_retry path fid err uuid now insf False t)).
         file_path r' = strip path \<and> attempts r' = attempts r \<and> \<not> fd_selectable now' ma lt r')
    \<and> enqueue_file_delete_retry path fid err uuid now True False [] = (True, [])"
proof -
  let ?f = "\<lambda>r. r\<lparr>file_asset_id := (if file_asset_id r = None then or_none (or_empty fid) else file_asset_id r),
    last_error := fd_error_text err, next_run_at := Some now, updated_at := now\<rparr>"
  have "?f r \<in> set (sql_update (\<lambda>r. file_path r = strip path) ?f t)"
    by (rule sql_update_hit [where f = ?f, OF assms(2)]) (rule assms(3))
  then show ?thesis
    using assms(2-5) by (auto simp: enqueue_file_delete_retry_def Let_def fd_selectable_def sql_update_def intro!: bexI [of _ "?f r"])
qed

theorem fd_enqueue_gaps_witness:
  "fst (enqueue_file_delete_retry ''matter/a.pdf'' None NoErrorArg ''d2'' 7 False False [fd_row_example\<lparr>attempts := 10\<rparr>])"
proof -
  have "strip ''matter/a.pdf'' = ''matter/a.pdf''" by code_simp
  with fd_enqueue_gaps [where t = "[fd_row_example\<lparr>attempts := 10\<rparr>]" and r = "fd_row_example\<lparr>attempts := 10\<rparr>"
      and path = "''matter/a.pdf''" and ma = 10 and fid = None and err = NoErrorArg and uuid = "''d2''" and now = 7 and insf = False]
  show ?thesis by (simp add: fd_row_example_def)
qed

end
