(* ===== verification/Lock_Heartbeat.thy ===== *)
theory Lock_Heartbeat
  imports Lease_Core
begin

text \<open>
  The lock renewal thread of the row queues (\<open>app/services/ops/queue_lock_heartbeat.py\<close>).

  The thread runs while a worker processes the rows it locked. At every tick it renews the lock
  with an \<open>UPDATE\<close> guarded by the token (and by the id of the row when the heartbeat is for one
  row). An update that finds no row sets \<open>lost\<close> and ends the thread; a database error is logged
  and the thread goes on.
\<close>

record 'r heartbeat_tick =
  tick_now :: datetime
  tick_fails :: bool
  tick_others :: "'r list \<Rightarrow> 'r list"

definition renew_lock :: "datetime \<Rightarrow> 'a lease_row_scheme \<Rightarrow> 'a lease_row_scheme" where
  "renew_lock now r = r\<lparr>locked_at := Some now, updated_at := now\<rparr>"

definition heartbeat_where ::
  "('a lease_row_scheme \<Rightarrow> 'k) \<Rightarrow> 'k option \<Rightarrow> string \<Rightarrow> 'a lease_row_scheme \<Rightarrow> bool"
where
  "heartbeat_where key id_value token r \<longleftrightarrow>
     (case id_value of None \<Rightarrow> True | Some k \<Rightarrow> key r = k) \<and> lock_token r = Some token"

fun queue_lock_heartbeat ::
  "('a lease_row_scheme \<Rightarrow> bool) \<Rightarrow> 'a lease_row_scheme heartbeat_tick list \<Rightarrow> 'a lease_row_scheme list
    \<Rightarrow> bool \<times> 'a lease_row_scheme list"
where
  "queue_lock_heartbeat p [] t = (False, t)"
| "queue_lock_heartbeat p (k # ticks) t =
     (let t1 = tick_others k t in
      if tick_fails k then queue_lock_heartbeat p ticks t1
      else if rowcount p t1 = 0 then (True, fold tick_others ticks t1)
      else queue_lock_heartbeat p ticks (sql_update p (renew_lock (tick_now k)) t1))"

text \<open>The intervals of the queues: half the lock timeout, between 5 and 60 seconds; the thread
  itself waits at least one second.\<close>

definition heartbeat_interval :: "int \<Rightarrow> int" where
  "heartbeat_interval lock_timeout =
     max 5 (min 60 (if lock_timeout \<noteq> 0 then lock_timeout div 2 else 30))"

definition heartbeat_wait :: "int \<Rightarrow> int" where
  "heartbeat_wait interval_seconds = max 1 (if interval_seconds = 0 then 1 else interval_seconds)"

text \<open>As long as nobody else touches the locked row, the heartbeat never reports it lost, even
  over ticks where the database fails, and after a tick that reached the database the row's lock
  time is that tick's: a lease whose timeout is at least ten seconds is renewed before it ends.\<close>

theorem heartbeat_keeps_lock:
  assumes "r \<in> set t" and "p r" and "\<And>x n. p x \<Longrightarrow> p (renew_lock n x)"
    and "\<forall>k \<in> set ticks. \<forall>t x. x \<in> set t \<and> p x \<longrightarrow> x \<in> set (tick_others k t)"
    and "ticks \<noteq> []" and "\<not> tick_fails (last ticks)"
    and "queue_lock_heartbeat p ticks t = (lost, t')" and "10 \<le> lock_timeout"
  shows "\<not> lost \<and> (\<exists>r' \<in> set t'. p r' \<and> locked_at r' = Some (tick_now (last ticks)))
    \<and> heartbeat_wait (heartbeat_interval lock_timeout) \<le> lock_timeout div 2"
proof -
  have "\<not> lost \<and> (\<exists>r' \<in> set t'. p r' \<and> locked_at r' = Some (tick_now (last ticks)))"
    using assms(1,2,4-7)
  proof (induction ticks arbitrary: t r)
    case Nil
    then show ?case by simp
  next
    case (Cons k ticks)
    let ?t1 = "tick_others k t"
    have r1: "r \<in> set ?t1" "p r" using Cons.prems(1,2) Cons.prems(3) [THEN bspec, of k] by simp_all
    then have count: "rowcount p ?t1 \<noteq> 0" by auto
    have r2: "renew_lock (tick_now k) r \<in> set (sql_update p (renew_lock (tick_now k)) ?t1)"
      by (rule sql_update_hit [where f = "renew_lock (tick_now k)"]) (use r1 in simp_all)
    show ?case
    proof (cases "ticks = []")
      case True
      with Cons.prems count have "\<not> lost" and t': "t' = sql_update p (renew_lock (tick_now k)) ?t1"
        by (simp_all add: Let_def del: rowcount_0)
      with r1(2) r2 assms(3) True show ?thesis
        by (intro conjI bexI [of _ "renew_lock (tick_now k) r"]) (simp_all add: renew_lock_def)
    next
      case False
      have others: "\<forall>k \<in> set ticks. \<forall>t x. x \<in> set t \<and> p x \<longrightarrow> x \<in> set (tick_others k t)"
        and last: "\<not> tick_fails (last ticks)" using Cons.prems(3,5) False by simp_all
      show ?thesis
      proof (cases "tick_fails k")
        case True
        with Cons.prems have "queue_lock_heartbeat p ticks ?t1 = (lost, t')" by (simp add: Let_def)
        from Cons.IH [OF r1 others False last this] False show ?thesis by simp
      next
        case ok: False
        with Cons.prems count
        have "queue_lock_heartbeat p ticks (sql_update p (renew_lock (tick_now k)) ?t1) = (lost, t')"
          by (simp add: Let_def del: rowcount_0)
        from Cons.IH [OF r2 assms(3) [OF r1(2)] others False last this] False show ?thesis by simp
      qed
    qed
  qed
  moreover have "heartbeat_wait (heartbeat_interval lock_timeout) \<le> lock_timeout div 2"
    using assms(8) by (auto simp: heartbeat_wait_def heartbeat_interval_def min_def max_def)
  ultimately show ?thesis by blast
qed

definition lease_row_example :: lease_row where
  "lease_row_example = \<lparr>attempts = 1, next_run_at = None, locked_at = Some 0, lock_token = Some ''t'',
     last_error = None, created_at = 0, updated_at = 0\<rparr>"

theorem heartbeat_keeps_lock_witness:
  "\<not> fst (queue_lock_heartbeat (\<lambda>r. lock_token r = Some ''t'')
      [\<lparr>tick_now = 1, tick_fails = True, tick_others = id\<rparr>, \<lparr>tick_now = 2, tick_fails = False, tick_others = id\<rparr>]
      [lease_row_example])"
  using heartbeat_keeps_lock [where r = lease_row_example and t = "[lease_row_example]" and lock_timeout = 300
      and p = "\<lambda>r. lock_token r = Some ''t''"
      and ticks = "[\<lparr>tick_now = 1, tick_fails = True, tick_others = id\<rparr>, \<lparr>tick_now = 2, tick_fails = False, tick_others = id\<rparr>]",
      OF _ _ _ _ _ _ surjective_pairing]
  by (simp add: lease_row_example_def renew_lock_def)

text \<open>Once the token is gone from the table and stays gone, the heartbeat changes no row, and it
  reports the loss exactly when one of its later ticks reaches the database.\<close>

theorem heartbeat_reports_loss:
  assumes "\<forall>r \<in> set t. \<not> p r" and "\<forall>k \<in> set ticks. \<forall>t. (\<forall>r \<in> set t. \<not> p r) \<longrightarrow> (\<forall>r \<in> set (tick_others k t). \<not> p r)"
  shows "queue_lock_heartbeat p ticks t = (\<exists>k \<in> set ticks. \<not> tick_fails k, fold tick_others ticks t)"
  using assms
proof (induction ticks arbitrary: t)
  case (Cons k ticks)
  have gone: "\<forall>r \<in> set (tick_others k t). \<not> p r"
    using Cons.prems(1) Cons.prems(2) [THEN bspec, of k] by simp
  have "queue_lock_heartbeat p ticks (tick_others k t)
      = (\<exists>k \<in> set ticks. \<not> tick_fails k, fold tick_others ticks (tick_others k t))"
    by (rule Cons.IH [OF gone]) (intro ballI, rule Cons.prems(2) [THEN bspec], simp)
  with gone show ?case by (cases "tick_fails k") (simp_all add: Let_def)
qed simp

theorem heartbeat_reports_loss_witness:
  "queue_lock_heartbeat (heartbeat_where attempts (Some 1) ''u'')
      [\<lparr>tick_now = 2, tick_fails = True, tick_others = id\<rparr>, \<lparr>tick_now = 3, tick_fails = False, tick_others = id\<rparr>]
      [lease_row_example] = (True, [lease_row_example])"
  using heartbeat_reports_loss [where p = "heartbeat_where attempts (Some 1) ''u''" and t = "[lease_row_example]"
      and ticks = "[\<lparr>tick_now = 2, tick_fails = True, tick_others = id\<rparr>, \<lparr>tick_now = 3, tick_fails = False, tick_others = id\<rparr>]"]
  by (simp add: lease_row_example_def heartbeat_where_def)

end
