(* ===== verification/Calendar.thy ===== *)
theory Calendar
  imports Prelude
begin

text \<open>
  Calendar dates as Python's \<open>datetime.date\<close> has them, and the two ways the program reads a date
  from text: the regular expression search and \<open>date.fromisoformat\<close>.
\<close>

section \<open>Dates\<close>

datatype date = Date (year: int) (month: int) (day: int)

definition is_leap :: "int \<Rightarrow> bool" where
  "is_leap y \<longleftrightarrow> y mod 4 = 0 \<and> (y mod 100 \<noteq> 0 \<or> y mod 400 = 0)"

definition days_in_month :: "int \<Rightarrow> int \<Rightarrow> int" where
  "days_in_month y m =
     (if m = 2 then (if is_leap y then 29 else 28) else if m = 4 \<or> m = 6 \<or> m = 9 \<or> m = 11 then 30 else 31)"

definition valid_date :: "date \<Rightarrow> bool" where
  "valid_date d \<longleftrightarrow> 1 \<le> year d \<and> year d \<le> 9999 \<and> 1 \<le> month d \<and> month d \<le> 12
     \<and> 1 \<le> day d \<and> day d \<le> days_in_month (year d) (month d)"

text \<open>\<open>date(y, m, d)\<close>: \<open>None\<close> where Python raises \<open>ValueError\<close>.\<close>

definition mk_date :: "int \<Rightarrow> int \<Rightarrow> int \<Rightarrow> date option" where
  "mk_date y m d = (if valid_date (Date y m d) then Some (Date y m d) else None)"

instantiation date :: linorder
begin

definition less_eq_date :: "date \<Rightarrow> date \<Rightarrow> bool" where
  "a \<le> b \<longleftrightarrow> year a < year b \<or> year a = year b \<and> (month a < month b \<or> month a = month b \<and> day a \<le> day b)"

definition less_date :: "date \<Rightarrow> date \<Rightarrow> bool" where
  "(a :: date) < b \<longleftrightarrow> a \<le> b \<and> \<not> b \<le> a"

instance
  by standard (auto simp: less_eq_date_def less_date_def intro: date.expand)

end

lemma mk_date_Some: "mk_date y m d = Some x \<Longrightarrow> x = Date y m d \<and> valid_date x"
  by (auto simp: mk_date_def split: if_splits)

lemma mk_date_valid: "valid_date x \<Longrightarrow> mk_date (year x) (month x) (day x) = Some x"
  by (cases x) (simp add: mk_date_def)

section \<open>Printing\<close>

definition pad2 :: "int \<Rightarrow> string" where
  "pad2 n = [digit_char (n div 10), digit_char (n mod 10)]"

definition pad4 :: "int \<Rightarrow> string" where
  "pad4 n = [digit_char (n div 1000), digit_char (n div 100 mod 10), digit_char (n div 10 mod 10), digit_char (n mod 10)]"

definition isoformat :: "date \<Rightarrow> string" where
  "isoformat d = pad4 (year d) @ ''-'' @ pad2 (month d) @ ''-'' @ pad2 (day d)"

section \<open>Reading\<close>

fun digits_val_acc :: "int \<Rightarrow> string \<Rightarrow> int" where
  "digits_val_acc a [] = a"
| "digits_val_acc a (c # cs) = digits_val_acc (10 * a + digit_val c) cs"

definition digits_val :: "string \<Rightarrow> int" where
  "digits_val s = digits_val_acc 0 s"

text \<open>
  The expression \<open>(\d{4})SEP(\d{1,2})SEP(\d{1,2})\<close> at the start of a text, for a set of separator
  characters of which one (\<open>many = False\<close>) or at least one (\<open>many = True\<close>) stands between the
  groups. A separator is never a digit, so each group is a whole run of digits, except that the
  last group ends after two digits when \<open>bounded\<close> (the look-ahead \<open>(?!\d)\<close>) is absent.
\<close>

record date_regex =
  rx_sep :: "char \<Rightarrow> bool"
  rx_many :: bool
  rx_bounded :: bool

definition skip_sep :: "date_regex \<Rightarrow> string \<Rightarrow> string option" where
  "skip_sep rx s =
     (case s of [] \<Rightarrow> None
      | c # cs \<Rightarrow> if rx_sep rx c then Some (if rx_many rx then dropWhile (rx_sep rx) cs else cs) else None)"

definition take_group :: "string \<Rightarrow> (int \<times> string) option" where
  "take_group s =
     (let run = takeWhile is_digit s in
      if run \<noteq> [] \<and> length run \<le> 2 then Some (digits_val run, drop (length run) s) else None)"

definition take_last_group :: "date_regex \<Rightarrow> string \<Rightarrow> int option" where
  "take_last_group rx s =
     (let run = takeWhile is_digit s in
      if run = [] then None
      else if length run \<le> 2 then Some (digits_val run)
      else if rx_bounded rx then None else Some (digits_val (take 2 run)))"

definition match_date :: "date_regex \<Rightarrow> string \<Rightarrow> (int \<times> int \<times> int) option" where
  "match_date rx s =
     (let y = take 4 s in
      if length y = 4 \<and> (\<forall>c \<in> set y. is_digit c) then
        (case skip_sep rx (drop 4 s) of None \<Rightarrow> None
         | Some s1 \<Rightarrow>
             (case take_group s1 of None \<Rightarrow> None
              | Some (m, s2) \<Rightarrow>
                  (case skip_sep rx s2 of None \<Rightarrow> None
                   | Some s3 \<Rightarrow> map_option (\<lambda>d. (digits_val y, m, d)) (take_last_group rx s3))))
      else None)"

text \<open>\<open>re.search\<close>: the first position where the expression matches; \<open>prev\<close> says whether the
  character before is a digit, which the look-behind \<open>(?<!\d)\<close> of bounded expressions excludes.\<close>

fun search_date :: "date_regex \<Rightarrow> bool \<Rightarrow> string \<Rightarrow> (int \<times> int \<times> int) option" where
  "search_date rx prev [] = None"
| "search_date rx prev (c # cs) =
     (case (if rx_bounded rx \<and> prev then None else match_date rx (c # cs)) of
        Some r \<Rightarrow> Some r
      | None \<Rightarrow> search_date rx (is_digit c) cs)"

text \<open>\<open>date.fromisoformat\<close> on the form \<open>YYYY-MM-DD\<close>; it is used on normalised dates only, so the
  other forms Python 3.11 accepts never reach it.\<close>

definition fromisoformat :: "string \<Rightarrow> date option" where
  "fromisoformat s =
     (if length s = 10 \<and> s ! 4 = CHR ''-'' \<and> s ! 7 = CHR ''-''
         \<and> (\<forall>c \<in> set (take 4 s @ take 2 (drop 5 s) @ drop 8 s). is_digit c)
      then mk_date (digits_val (take 4 s)) (digits_val (take 2 (drop 5 s))) (digits_val (drop 8 s))
      else None)"

section \<open>Round trips\<close>

lemma pad2_props:
  assumes "0 \<le> n" and "n < 100"
  shows "digits_val (pad2 n) = n" and "\<forall>c \<in> set (pad2 n). is_digit c" and "length (pad2 n) = 2"
proof -
  have "0 \<le> n div 10" "n div 10 < 10" "0 \<le> n mod 10" "n mod 10 < 10" using assms by auto
  note d = digit_char_props [OF this(1,2)] digit_char_props [OF this(3,4)]
  show "digits_val (pad2 n) = n" using d by (simp add: pad2_def digits_val_def)
  show "\<forall>c \<in> set (pad2 n). is_digit c" using d by (simp add: pad2_def)
qed (simp add: pad2_def)

lemma pad4_props:
  assumes "0 \<le> n" and "n < 10000"
  shows "digits_val (pad4 n) = n" and "\<forall>c \<in> set (pad4 n). is_digit c" and "length (pad4 n) = 4"
proof -
  have "0 \<le> n div 1000" "n div 1000 < 10" using assms by auto
  note d1 = digit_char_props [OF this]
  have "0 \<le> n div 100 mod 10" "n div 100 mod 10 < 10" by auto
  note d2 = digit_char_props [OF this]
  have "0 \<le> n div 10 mod 10" "n div 10 mod 10 < 10" by auto
  note d3 = digit_char_props [OF this]
  have "0 \<le> n mod 10" "n mod 10 < 10" by auto
  note d4 = digit_char_props [OF this]
  have "n div 100 = n div 10 div 10" using zdiv_zmult2_eq [of 10 n 10] by simp
  then have e2: "10 * (n div 100) + n div 10 mod 10 = n div 10" by (simp only: mult_div_mod_eq)
  have "n div 1000 = n div 100 div 10" using zdiv_zmult2_eq [of 10 n 100] by simp
  then have "10 * (n div 1000) + n div 100 mod 10 = n div 100" by (simp only: mult_div_mod_eq)
  with e2 have "10 * (10 * (10 * (n div 1000) + n div 100 mod 10) + n div 10 mod 10) + n mod 10 = n"
    by (simp only: mult_div_mod_eq)
  then show "digits_val (pad4 n) = n"
    unfolding pad4_def digits_val_def digits_val_acc.simps d1(2) d2(2) d3(2) d4(2) by simp
  show "\<forall>c \<in> set (pad4 n). is_digit c" using d1(1) d2(1) d3(1) d4(1) by (simp add: pad4_def)
qed (simp add: pad4_def)

lemma days_in_month_le: "days_in_month y m \<le> 31"
  by (simp add: days_in_month_def)

lemma valid_date_ranges:
  assumes "valid_date d"
  shows "0 \<le> year d \<and> year d < 10000 \<and> 0 \<le> month d \<and> month d < 100 \<and> 0 \<le> day d \<and> day d < 100"
  using assms days_in_month_le [of "year d" "month d"] by (auto simp: valid_date_def)

lemma isoformat_parts:
  assumes "valid_date d"
  obtains y m dd where "isoformat d = y @ CHR ''-'' # m @ CHR ''-'' # dd"
    "length y = 4" "length m = 2" "length dd = 2" "\<forall>c \<in> set (y @ m @ dd). is_digit c"
    "digits_val y = year d" "digits_val m = month d" "digits_val dd = day d"
proof -
  from valid_date_ranges [OF assms] have r: "0 \<le> year d" "year d < 10000" "0 \<le> month d" "month d < 100" "0 \<le> day d" "day d < 100"
    by auto
  note p = pad4_props [OF r(1,2)] pad2_props [OF r(3,4)] pad2_props [OF r(5,6)]
  show ?thesis
    by (rule that [of "pad4 (year d)" "pad2 (month d)" "pad2 (day d)"]) (use p in \<open>auto simp: isoformat_def\<close>)
qed

lemma dash_not_digit [simp]: "\<not> is_digit (CHR ''-'')"
  by (simp add: is_digit_def)

lemma takeWhile_run: "\<forall>c \<in> set a. p c \<Longrightarrow> \<not> p x \<Longrightarrow> takeWhile p (a @ x # s) = a"
  by (induction a) auto

lemma fromisoformat_isoformat:
  assumes "valid_date d"
  shows "fromisoformat (isoformat d) = Some d"
proof -
  from assms obtain y m dd where i: "isoformat d = y @ CHR ''-'' # m @ CHR ''-'' # dd"
    and len: "length y = 4" "length m = 2" "length dd = 2" and dig: "\<forall>c \<in> set (y @ m @ dd). is_digit c"
    and val: "digits_val y = year d" "digits_val m = month d" "digits_val dd = day d" by (rule isoformat_parts)
  have t4: "take 4 (isoformat d) = y" and d5: "take 2 (drop 5 (isoformat d)) = m" and d8: "drop 8 (isoformat d) = dd"
    and n4: "isoformat d ! 4 = CHR ''-''" and n7: "isoformat d ! 7 = CHR ''-''"
    using len by (simp_all add: i nth_append drop_Cons')
  have "length (isoformat d) = 10" using len by (simp add: i)
  with t4 d5 d8 n4 n7 dig val mk_date_valid [OF assms] show ?thesis by (auto simp: fromisoformat_def)
qed

lemma match_isoformat:
  assumes "valid_date d" and "rx_sep rx (CHR ''-'')" and "\<And>c. is_digit c \<Longrightarrow> \<not> rx_sep rx c"
  shows "match_date rx (isoformat d) = Some (year d, month d, day d)"
proof -
  from assms(1) obtain y m dd where i: "isoformat d = y @ CHR ''-'' # m @ CHR ''-'' # dd"
    and len: "length y = 4" "length m = 2" "length dd = 2" and dig: "\<forall>c \<in> set (y @ m @ dd). is_digit c"
    and val: "digits_val y = year d" "digits_val m = month d" "digits_val dd = day d" by (rule isoformat_parts)
  have noskip: "dropWhile (rx_sep rx) (a @ s) = a @ s" if "length a = 2" "\<forall>c \<in> set a. is_digit c" for a s
    using that assms(3) by (cases a) auto
  have s1: "skip_sep rx (drop 4 (isoformat d)) = Some (m @ CHR ''-'' # dd)"
    using len dig assms(2) noskip [of m "CHR ''-'' # dd"] by (simp add: i skip_sep_def)
  have run_m: "takeWhile is_digit (m @ CHR ''-'' # dd) = m" using dig by (intro takeWhile_run) auto
  have g: "take_group (m @ CHR ''-'' # dd) = Some (month d, CHR ''-'' # dd)"
    unfolding take_group_def Let_def run_m using len val by auto
  have s2: "skip_sep rx (CHR ''-'' # dd) = Some dd"
    using len dig assms(2) noskip [of dd "[]"] by (simp add: skip_sep_def)
  have run_d: "takeWhile is_digit dd = dd" using dig by (simp add: takeWhile_eq_all_conv)
  have l: "take_last_group rx dd = Some (day d)"
    unfolding take_last_group_def Let_def run_d using len val by auto
  have "take 4 (isoformat d) = y" using len by (simp add: i)
  with len dig val s1 g s2 l show ?thesis by (simp add: match_date_def)
qed

lemma search_isoformat:
  assumes "valid_date d" and "rx_sep rx (CHR ''-'')" and "\<And>c. is_digit c \<Longrightarrow> \<not> rx_sep rx c"
  shows "search_date rx False (isoformat d) = Some (year d, month d, day d)"
proof -
  have "isoformat d \<noteq> []" by (simp add: isoformat_def pad4_def)
  then obtain c cs where "isoformat d = c # cs" by (cases "isoformat d") auto
  with match_isoformat [OF assms] show ?thesis by simp
qed

lemma isoformat_chars: "valid_date d \<Longrightarrow> c \<in> set (isoformat d) \<Longrightarrow> is_digit c \<or> c = CHR ''-''"
  by (elim isoformat_parts) auto

lemma isoformat_not_Nil [simp]: "isoformat d \<noteq> []"
  by (simp add: isoformat_def pad4_def)

lemma isoformat_hd:
  assumes "valid_date d"
  shows "is_digit (hd (isoformat d))"
proof -
  from assms obtain y m dd where "isoformat d = y @ CHR ''-'' # m @ CHR ''-'' # dd" "length y = 4"
    "\<forall>c \<in> set (y @ m @ dd). is_digit c" by (rule isoformat_parts)
  moreover from this have "y \<noteq> []" by auto
  ultimately show ?thesis by (cases y) auto
qed

lemma isoformat_inject:
  assumes "valid_date a" and "valid_date b" and "isoformat a = isoformat b"
  shows "a = b"
proof -
  have "Some a = fromisoformat (isoformat a)" by (rule fromisoformat_isoformat [OF assms(1), symmetric])
  also have "\<dots> = Some b" unfolding assms(3) by (rule fromisoformat_isoformat [OF assms(2)])
  finally show ?thesis by simp
qed

end
