(* ===== verification/Docket_Dates.thy ===== *)
theory Docket_Dates
  imports Calendar
begin

text \<open>
  The dates of docket items (\<open>app/utils/docket_dates.py\<close>): reading what users and imports put
  into the text columns \<open>due_date\<close>, \<open>extended_due_date\<close> and \<open>done_date\<close>, the due dates derived
  from them, and the state a done date encodes. Recording a parse failure is a log entry and left
  out.
\<close>

section \<open>Values\<close>

text \<open>A column value: \<open>None\<close>, a date, a datetime (its date and time of day), or anything else by
  its text.\<close>

datatype pyval = PyNone | PyDate date | PyDatetime date int | PyStr string

definition AUTO_CANCELLED_PREFIX :: string where
  "AUTO_CANCELLED_PREFIX = ''AUTO_CANCELLED''"

definition AUTO_EXPIRED_PREFIX :: string where
  "AUTO_EXPIRED_PREFIX = ''AUTO_EXPIRED''"

definition docket_regex :: date_regex where
  "docket_regex = \<lparr>rx_sep = (\<lambda>c. c = CHR ''-'' \<or> c = CHR ''.'' \<or> c = CHR ''/''), rx_many = False, rx_bounded = True\<rparr>"

definition is_bracket :: "char \<Rightarrow> bool" where
  "is_bracket c \<longleftrightarrow> c \<in> set ''[](){}<>''"

section \<open>Normalising\<close>

definition search_docket_date :: "string \<Rightarrow> date option" where
  "search_docket_date s =
     (let token = strip (hd (split_on (CHR '' '') (hd (split_on (CHR ''T'') s)))) in
      case (case search_date docket_regex False token of
              Some r \<Rightarrow> Some r | None \<Rightarrow> search_date docket_regex False s) of
        None \<Rightarrow> None
      | Some (y, m, d) \<Rightarrow> mk_date y m d)"

definition normalize_date_text :: "string \<Rightarrow> string option" where
  "normalize_date_text v =
     (let s = strip v in
      if s = [] then None
      else let s1 = strip_chars is_bracket s in
        if s1 = [] then None
        else if lower s1 \<in> set [''null'', ''none'', ''nil'', ''nan''] then None
        else map_option isoformat
          (search_docket_date (replace_char (CHR ''/'') (CHR ''-'') (replace_char (CHR ''.'') (CHR ''-'') s1))))"

fun normalize_date_str :: "pyval \<Rightarrow> string option" where
  "normalize_date_str PyNone = None"
| "normalize_date_str (PyDate d) = Some (isoformat d)"
| "normalize_date_str (PyDatetime d t) = Some (isoformat d)"
| "normalize_date_str (PyStr s) = normalize_date_text s"

text \<open>The text after an \<open>AUTO_\<close> marker: \<open>s[len(prefix):].lstrip(":").strip()\<close>.\<close>

definition marker_suffix :: "string \<Rightarrow> string \<Rightarrow> string" where
  "marker_suffix prefix s = strip (lstrip_chars (\<lambda>c. c = CHR '':'') (drop (length prefix) s))"

definition stamp :: "string \<Rightarrow> string \<Rightarrow> date \<Rightarrow> string" where
  "stamp prefix suffix today =
     prefix @ '':'' @ (case normalize_date_str (PyStr suffix) of None \<Rightarrow> isoformat today | Some d \<Rightarrow> d)"

fun normalize_done_date :: "pyval \<Rightarrow> date \<Rightarrow> string option" where
  "normalize_done_date PyNone today = None"
| "normalize_done_date (PyDate d) today = normalize_date_str (PyDate d)"
| "normalize_done_date (PyDatetime d t) today = normalize_date_str (PyDatetime d t)"
| "normalize_done_date (PyStr v) today =
     (let s = strip v in
      if s = [] then None
      else if startswith (upper s) AUTO_CANCELLED_PREFIX
      then Some (stamp AUTO_CANCELLED_PREFIX (marker_suffix AUTO_CANCELLED_PREFIX s) today)
      else if startswith (upper s) AUTO_EXPIRED_PREFIX
      then Some (stamp AUTO_EXPIRED_PREFIX (marker_suffix AUTO_EXPIRED_PREFIX s) today)
      else normalize_date_str (PyStr s))"

section \<open>Due dates\<close>

definition parse_date :: "pyval \<Rightarrow> date option" where
  "parse_date v = (case normalize_date_str v of None \<Rightarrow> None | Some s \<Rightarrow> if s = [] then None else fromisoformat s)"

definition parse_date_fallback :: "pyval \<Rightarrow> pyval \<Rightarrow> date option" where
  "parse_date_fallback primary secondary =
     (case parse_date primary of Some d \<Rightarrow> Some d | None \<Rightarrow> parse_date secondary)"

definition effective_due_for_work :: "pyval \<Rightarrow> pyval \<Rightarrow> date option" where
  "effective_due_for_work due_date extended_due_date = parse_date_fallback extended_due_date due_date"

definition effective_due_for_legal :: "pyval \<Rightarrow> pyval \<Rightarrow> date option" where
  "effective_due_for_legal due_date extended_due_date =
     (case (parse_date due_date, parse_date extended_due_date) of
        (Some due, Some ext) \<Rightarrow> Some (if due \<le> ext then ext else due)
      | (due, Some ext) \<Rightarrow> Some ext
      | (due, None) \<Rightarrow> due)"

definition adjusted_legal_due_for_docket :: "pyval \<Rightarrow> pyval \<Rightarrow> date option" where
  "adjusted_legal_due_for_docket due_date extended_due_date =
     (case (parse_date due_date, parse_date extended_due_date) of
        (Some due, Some ext) \<Rightarrow> if due < ext then Some ext else Some due
      | (due, _) \<Rightarrow> due)"

definition internal_due_for_docket :: "pyval \<Rightarrow> pyval \<Rightarrow> date option" where
  "internal_due_for_docket due_date extended_due_date =
     (case parse_date extended_due_date of None \<Rightarrow> None
      | Some ext \<Rightarrow>
          (case parse_date due_date of
             Some due \<Rightarrow> if due \<le> ext then None else Some ext
           | None \<Rightarrow> Some ext))"

section \<open>Done dates\<close>

fun parse_done_date :: "pyval \<Rightarrow> date option" where
  "parse_done_date PyNone = None"
| "parse_done_date (PyDate d) = parse_date (PyDate d)"
| "parse_done_date (PyDatetime d t) = parse_date (PyDatetime d t)"
| "parse_done_date (PyStr v) =
     (let s = strip v in
      if s = [] then None
      else if startswith (upper s) AUTO_CANCELLED_PREFIX then parse_date (PyStr (marker_suffix AUTO_CANCELLED_PREFIX s))
      else if startswith (upper s) AUTO_EXPIRED_PREFIX then parse_date (PyStr (marker_suffix AUTO_EXPIRED_PREFIX s))
      else parse_date (PyStr s))"

datatype done_kind = DonePending | DoneDone | DoneCancelled | DoneExpired

fun done_state :: "pyval \<Rightarrow> done_kind \<times> string option" where
  "done_state PyNone = (DonePending, None)"
| "done_state (PyDate d) = (DoneDone, normalize_date_str (PyDate d))"
| "done_state (PyDatetime d t) = (DoneDone, normalize_date_str (PyDatetime d t))"
| "done_state (PyStr v) =
     (let s = strip v in
      if s = [] then (DonePending, None)
      else if startswith (upper s) AUTO_CANCELLED_PREFIX
      then (DoneCancelled, normalize_date_str (PyStr (marker_suffix AUTO_CANCELLED_PREFIX s)))
      else if startswith (upper s) AUTO_EXPIRED_PREFIX
      then (DoneExpired, normalize_date_str (PyStr (marker_suffix AUTO_EXPIRED_PREFIX s)))
      else (case normalize_date_str (PyStr s) of
              Some d \<Rightarrow> if d = [] then (DonePending, None) else (DoneDone, Some d)
            | None \<Rightarrow> (DonePending, None)))"

definition is_done :: "pyval \<Rightarrow> bool" where
  "is_done v \<longleftrightarrow> fst (done_state v) \<in> {DoneDone, DoneCancelled, DoneExpired}"

definition is_cancelled :: "pyval \<Rightarrow> bool" where
  "is_cancelled v \<longleftrightarrow> fst (done_state v) = DoneCancelled"

definition is_expired :: "pyval \<Rightarrow> bool" where
  "is_expired v \<longleftrightarrow> fst (done_state v) = DoneExpired"

section \<open>Reading what was written\<close>

lemma iso_char:
  assumes "valid_date d" and "c \<in> set (isoformat d)"
  shows "\<not> is_space c \<and> \<not> is_bracket c \<and> c \<noteq> CHR ''.'' \<and> c \<noteq> CHR ''/'' \<and> c \<noteq> CHR ''T'' \<and> c \<noteq> CHR '' '' \<and> c \<noteq> CHR '':''"
  using isoformat_chars [OF assms] by (auto simp: is_digit_def is_space_def is_bracket_def)

lemma lower_hd_digit: "s \<noteq> [] \<Longrightarrow> is_digit (hd s) \<Longrightarrow> hd (lower s) = hd s"
  by (cases s) (auto simp: lower_def lower_char_def is_digit_def Let_def)

lemma upper_hd_digit: "s \<noteq> [] \<Longrightarrow> is_digit (hd s) \<Longrightarrow> hd (upper s) = hd s"
  by (cases s) (auto simp: upper_def upper_char_def is_digit_def Let_def)

lemma normalize_iso_text:
  assumes "valid_date d"
  shows "normalize_date_text (isoformat d) = Some (isoformat d)"
proof -
  let ?s = "isoformat d"
  note ch = iso_char [OF assms]
  have strip: "strip ?s = ?s" using ch by (intro strip_id_all) auto
  have brackets: "strip_chars is_bracket ?s = ?s" using ch by (intro strip_chars_id_all) auto
  have "is_digit (hd (lower ?s))" using lower_hd_digit [of ?s] isoformat_hd [OF assms] by simp
  then have token: "lower ?s \<notin> set [''null'', ''none'', ''nil'', ''nan'']" by (auto simp: is_digit_def)
  have rep: "replace_char (CHR ''/'') (CHR ''-'') (replace_char (CHR ''.'') (CHR ''-'') ?s) = ?s"
  proof -
    have "replace_char (CHR ''.'') (CHR ''-'') ?s = ?s" using ch by (intro replace_char_absent) auto
    moreover have "replace_char (CHR ''/'') (CHR ''-'') ?s = ?s" using ch by (intro replace_char_absent) auto
    ultimately show ?thesis by simp
  qed
  have "split_on (CHR ''T'') ?s = [?s]" "split_on (CHR '' '') ?s = [?s]"
    using ch by (auto intro!: split_on_absent)
  moreover have "search_date docket_regex False ?s = Some (year d, month d, day d)"
    by (rule search_isoformat [OF assms]) (auto simp: docket_regex_def is_digit_def)
  ultimately have "search_docket_date ?s = Some d"
    using strip mk_date_valid [OF assms] by (simp add: search_docket_date_def)
  with strip brackets token rep show ?thesis by (simp add: normalize_date_text_def)
qed

lemma normalize_date_text_iso:
  assumes "normalize_date_text v = Some s"
  shows "\<exists>d. valid_date d \<and> s = isoformat d"
proof -
  from assms obtain x d where d: "search_docket_date x = Some d" "s = isoformat d"
    by (auto simp: normalize_date_text_def Let_def split: if_splits)
  then have "valid_date d"
    by (auto simp: search_docket_date_def Let_def dest!: mk_date_Some split: option.splits)
  with d show ?thesis by blast
qed

fun valid_val :: "pyval \<Rightarrow> bool" where
  "valid_val (PyDate d) = valid_date d"
| "valid_val (PyDatetime d t) = valid_date d"
| "valid_val v = True"

lemma normalize_date_str_iso:
  "valid_val v \<Longrightarrow> normalize_date_str v = Some s \<Longrightarrow> \<exists>d. valid_date d \<and> s = isoformat d"
  by (cases v) (auto dest: normalize_date_text_iso)

lemma parse_date_eq:
  assumes "valid_val v"
  shows "parse_date v = Some d \<longleftrightarrow> valid_date d \<and> normalize_date_str v = Some (isoformat d)"
proof (cases "normalize_date_str v")
  case None
  then show ?thesis by (simp add: parse_date_def)
next
  case (Some s)
  from normalize_date_str_iso [OF assms Some] obtain x where x: "valid_date x" "s = isoformat x" by blast
  then have "parse_date v = Some x" using Some by (simp add: parse_date_def fromisoformat_isoformat)
  with x Some isoformat_inject [OF x(1)] show ?thesis by auto
qed

text \<open>Normalising a date is a projection onto ISO dates: a result is the ISO form of a valid
  calendar date, normalising it again changes nothing, and parsing the value or its normal form
  gives that date; every valid date is the parse of its own ISO form.\<close>

theorem normalize_date_projection:
  assumes "valid_val v" and "normalize_date_str v = Some s"
  shows "\<exists>d. valid_date d \<and> s = isoformat d \<and> normalize_date_str (PyStr s) = Some s
    \<and> parse_date v = Some d \<and> parse_date (PyStr s) = Some d"
proof -
  from normalize_date_str_iso [OF assms] obtain d where d: "valid_date d" "s = isoformat d" by blast
  have "normalize_date_str (PyStr s) = Some s" using normalize_iso_text [OF d(1)] by (simp add: d(2))
  with d assms parse_date_eq [OF assms(1)] parse_date_eq [of "PyStr s"] show ?thesis by auto
qed

theorem normalize_date_projection_witness:
  "normalize_date_str (PyStr ''(2024. 2/3'') = None \<and> normalize_date_str (PyStr ''[2024.2/29] 10:00'') = Some ''2024-02-29''
   \<and> parse_date (PyStr ''2024-02-29'') = Some (Date 2024 2 29)"
proof -
  have n: "normalize_date_str (PyStr ''[2024.2/29] 10:00'') = Some ''2024-02-29''"
    and iso: "isoformat (Date 2024 2 29) = ''2024-02-29''"
    and none: "normalize_date_str (PyStr ''(2024. 2/3'') = None" by code_simp+
  from normalize_date_projection [OF _ n] obtain d where d: "valid_date d" "''2024-02-29'' = isoformat d"
    "parse_date (PyStr ''2024-02-29'') = Some d" by auto
  have "valid_date (Date 2024 2 29)" by (simp add: valid_date_def days_in_month_def is_leap_def)
  with d iso have "d = Date 2024 2 29" by (metis isoformat_inject)
  with d n none show ?thesis by simp
qed

lemma stamped_text:
  assumes d: "valid_date d" and p: "p = AUTO_CANCELLED_PREFIX \<or> p = AUTO_EXPIRED_PREFIX" and x: "x = p @ '':'' @ isoformat d"
  shows "strip x = x" and "startswith (upper x) p" and "marker_suffix p x = isoformat d" and "x \<noteq> []"
    and "p = AUTO_EXPIRED_PREFIX \<Longrightarrow> \<not> startswith (upper x) AUTO_CANCELLED_PREFIX"
proof -
  have iso: "strip (isoformat d) = isoformat d" using iso_char [OF d] by (intro strip_id_all) auto
  have up: "upper p = p" and ne: "p \<noteq> []" and ps: "\<forall>c \<in> set p. \<not> is_space c"
    using p by (auto simp: AUTO_CANCELLED_PREFIX_def AUTO_EXPIRED_PREFIX_def upper_def upper_char_def is_space_def)
  have colon: "\<not> is_space (CHR '':'')" by (simp add: is_space_def)
  have "\<forall>c \<in> set (isoformat d). \<not> is_space c" using iso_char [OF d] by blast
  with ps colon show "strip x = x" by (intro strip_id_all) (simp add: x ball_Un)
  show "startswith (upper x) p" using up by (simp add: x upper_def)
  show "x \<noteq> []" by (simp add: x)
  have "lstrip_chars (\<lambda>c. c = CHR '':'') ('':'' @ isoformat d) = isoformat d"
  proof -
    obtain c cs where c: "isoformat d = c # cs" by (cases "isoformat d") auto
    then have "c \<noteq> CHR '':''" using iso_char [OF d, of c] by simp
    with c show ?thesis by (simp add: lstrip_chars_def)
  qed
  with iso show "marker_suffix p x = isoformat d" by (simp add: marker_suffix_def x)
  assume "p = AUTO_EXPIRED_PREFIX"
  then show "\<not> startswith (upper x) AUTO_CANCELLED_PREFIX"
    by (simp add: x startswith_def AUTO_CANCELLED_PREFIX_def AUTO_EXPIRED_PREFIX_def upper_def upper_char_def)
qed

lemma iso_not_stamped:
  assumes "valid_date d" and "p = AUTO_CANCELLED_PREFIX \<or> p = AUTO_EXPIRED_PREFIX"
  shows "\<not> startswith (upper (isoformat d)) p"
proof
  assume "startswith (upper (isoformat d)) p"
  moreover have "upper (isoformat d) \<noteq> []" by (simp add: upper_def)
  ultimately have "hd (upper (isoformat d)) = CHR ''A''"
    using assms(2) by (auto simp: startswith_def AUTO_CANCELLED_PREFIX_def AUTO_EXPIRED_PREFIX_def neq_Nil_conv)
  with upper_hd_digit [of "isoformat d"] isoformat_hd [OF assms(1)] have "is_digit (CHR ''A'')" by simp
  then show False by (simp add: is_digit_def)
qed

lemma stamp_iso: "valid_date today \<Longrightarrow> \<exists>d. valid_date d \<and> stamp p suffix today = p @ '':'' @ isoformat d"
  by (auto simp: stamp_def split: option.splits dest: normalize_date_text_iso)

lemma normalize_stamped:
  assumes "valid_date d" and "p = AUTO_CANCELLED_PREFIX \<or> p = AUTO_EXPIRED_PREFIX" and "s = p @ '':'' @ isoformat d"
  shows "normalize_done_date (PyStr s) today' = Some s
    \<and> done_state (PyStr s) = (if p = AUTO_CANCELLED_PREFIX then DoneCancelled else DoneExpired, Some (isoformat d))"
proof -
  note st = stamped_text [OF assms]
  have "stamp p (isoformat d) today' = s"
    using normalize_iso_text [OF assms(1)] by (simp add: stamp_def assms(3))
  moreover have "AUTO_CANCELLED_PREFIX \<noteq> AUTO_EXPIRED_PREFIX"
    by (simp add: AUTO_CANCELLED_PREFIX_def AUTO_EXPIRED_PREFIX_def)
  ultimately show ?thesis
    using assms(2) st normalize_iso_text [OF assms(1)] by (auto simp: Let_def)
qed

lemma normalize_done_iso:
  assumes "valid_date d"
  shows "normalize_done_date (PyStr (isoformat d)) today' = Some (isoformat d)
    \<and> done_state (PyStr (isoformat d)) = (DoneDone, Some (isoformat d))"
proof -
  have "strip (isoformat d) = isoformat d" using iso_char [OF assms] by (intro strip_id_all) auto
  with iso_not_stamped [OF assms] normalize_iso_text [OF assms] show ?thesis by (simp add: Let_def)
qed

text \<open>Normalising a done date keeps its meaning: the result has the state of the original value
  (done, cancelled or expired), now with a date, and normalising it again on any later day changes
  nothing; a value that normalises to nothing was pending.\<close>

theorem normalize_done_date_keeps_state:
  assumes "valid_val v" and "valid_date today"
  shows "case normalize_done_date v today of
      None \<Rightarrow> fst (done_state v) = DonePending
    | Some s \<Rightarrow> fst (done_state (PyStr s)) = fst (done_state v) \<and> is_done (PyStr s)
        \<and> (\<forall>today'. normalize_done_date (PyStr s) today' = Some s) \<and> snd (done_state (PyStr s)) \<noteq> None"
proof (cases v)
  case (PyStr x)
  let ?s = "strip x"
  consider "?s = []" | "?s \<noteq> []" "startswith (upper ?s) AUTO_CANCELLED_PREFIX"
    | "?s \<noteq> []" "\<not> startswith (upper ?s) AUTO_CANCELLED_PREFIX" "startswith (upper ?s) AUTO_EXPIRED_PREFIX"
    | "?s \<noteq> []" "\<not> startswith (upper ?s) AUTO_CANCELLED_PREFIX" "\<not> startswith (upper ?s) AUTO_EXPIRED_PREFIX" by blast
  then show ?thesis
  proof cases
    case 1
    with PyStr show ?thesis by simp
  next
    case 2
    obtain d where "valid_date d" "stamp AUTO_CANCELLED_PREFIX (marker_suffix AUTO_CANCELLED_PREFIX ?s) today = AUTO_CANCELLED_PREFIX @ '':'' @ isoformat d"
      using stamp_iso [OF assms(2)] by blast
    moreover have "normalize_done_date v today = Some (stamp AUTO_CANCELLED_PREFIX (marker_suffix AUTO_CANCELLED_PREFIX ?s) today)"
      and "fst (done_state v) = DoneCancelled" using 2 PyStr by (simp_all add: Let_def)
    ultimately show ?thesis
      using normalize_stamped [of d AUTO_CANCELLED_PREFIX]
      by (simp add: is_done_def del: normalize_done_date.simps(4) done_state.simps(4))
  next
    case 3
    obtain d where "valid_date d" "stamp AUTO_EXPIRED_PREFIX (marker_suffix AUTO_EXPIRED_PREFIX ?s) today = AUTO_EXPIRED_PREFIX @ '':'' @ isoformat d"
      using stamp_iso [OF assms(2)] by blast
    moreover have "AUTO_EXPIRED_PREFIX \<noteq> AUTO_CANCELLED_PREFIX"
      by (simp add: AUTO_CANCELLED_PREFIX_def AUTO_EXPIRED_PREFIX_def)
    moreover have "normalize_done_date v today = Some (stamp AUTO_EXPIRED_PREFIX (marker_suffix AUTO_EXPIRED_PREFIX ?s) today)"
      and "fst (done_state v) = DoneExpired" using 3 PyStr by (simp_all add: Let_def)
    ultimately show ?thesis
      using normalize_stamped [of d AUTO_EXPIRED_PREFIX]
      by (simp add: is_done_def del: normalize_done_date.simps(4) done_state.simps(4))
  next
    case 4
    show ?thesis
    proof (cases "normalize_date_text ?s")
      case None
      with 4 PyStr show ?thesis by simp
    next
      case (Some n)
      then obtain d where "valid_date d" "n = isoformat d" using normalize_date_text_iso by blast
      moreover from this have "normalize_done_date v today = Some n" and "fst (done_state v) = DoneDone"
        using 4 PyStr Some by (simp_all add: Let_def)
      ultimately show ?thesis
        using normalize_done_iso [of d] by (simp add: is_done_def del: normalize_done_date.simps(4) done_state.simps(4))
    qed
  qed
qed (use assms normalize_done_iso in \<open>simp_all add: is_done_def del: normalize_done_date.simps(4) done_state.simps(4)\<close>)

theorem normalize_done_date_keeps_state_witness:
  "normalize_done_date (PyStr '' auto_cancelled '') (Date 2025 1 31) = Some ''AUTO_CANCELLED:2025-01-31''
   \<and> fst (done_state (PyStr ''AUTO_CANCELLED:2025-01-31'')) = fst (done_state (PyStr '' auto_cancelled ''))
   \<and> (\<forall>today'. normalize_done_date (PyStr ''AUTO_CANCELLED:2025-01-31'') today' = Some ''AUTO_CANCELLED:2025-01-31'')"
proof -
  have n: "normalize_done_date (PyStr '' auto_cancelled '') (Date 2025 1 31) = Some ''AUTO_CANCELLED:2025-01-31''" by code_simp
  have v: "valid_date (Date 2025 1 31)" by (simp add: valid_date_def days_in_month_def)
  from normalize_done_date_keeps_state [of "PyStr '' auto_cancelled ''", OF _ v]
  show ?thesis unfolding n by (simp del: normalize_done_date.simps(4) done_state.simps(4))
qed

text \<open>How the two date columns of a docket row are split: the work-planning due date is the
  internal one when there is one and the final legal one otherwise; an internal date is always
  earlier than the final legal date; the final legal date is never earlier than the legal due date,
  and exists exactly when that does; an extension without a legal due date counts as internal.\<close>

theorem due_dates_split:
  "effective_due_for_work due ext =
     (case internal_due_for_docket due ext of Some i \<Rightarrow> Some i | None \<Rightarrow> adjusted_legal_due_for_docket due ext)
   \<and> (\<forall>i l. internal_due_for_docket due ext = Some i \<and> adjusted_legal_due_for_docket due ext = Some l \<longrightarrow> i < l)
   \<and> (\<forall>d. parse_date due = Some d \<longrightarrow> (\<exists>l. adjusted_legal_due_for_docket due ext = Some l \<and> d \<le> l
        \<and> effective_due_for_legal due ext = Some l))
   \<and> (parse_date due = None \<longrightarrow> adjusted_legal_due_for_docket due ext = None
        \<and> internal_due_for_docket due ext = parse_date ext)"
  by (auto simp: effective_due_for_work_def parse_date_fallback_def internal_due_for_docket_def
      adjusted_legal_due_for_docket_def effective_due_for_legal_def split: option.splits)

theorem due_dates_split_witness:
  "\<exists>l. adjusted_legal_due_for_docket (PyDate (Date 2025 3 10)) (PyStr ''2025/04/10'') = Some l \<and> Date 2025 3 10 \<le> l"
proof -
  have "valid_date (Date 2025 3 10)" by (simp add: valid_date_def days_in_month_def)
  then have "parse_date (PyDate (Date 2025 3 10)) = Some (Date 2025 3 10)" by (simp add: parse_date_def fromisoformat_isoformat)
  with due_dates_split [of "PyDate (Date 2025 3 10)" "PyStr ''2025/04/10''"] show ?thesis by blast
qed

end
