(* ===== verification/Annuity_Policy.thy ===== *)
theory Annuity_Policy
  imports Docket_Dates
begin

text \<open>
  The status and due-date policy of annuities (\<open>app/services/annuity/annuity_policy.py\<close>). Its
  date reader is its own: it accepts runs of separators, blanks included, and does not go through
  the docket normalisation.
\<close>

record annuity =
  annuity_status :: "string option"
  paid_date :: pyval
  annuity_due_date :: pyval
  annuity_extended_due_date :: pyval
  internal_due_date :: pyval
  cycle_no :: "int option"

record matter_ref =
  right_group :: "string option"
  our_ref :: "string option"
  right_name :: "string option"

section \<open>Dates\<close>

definition annuity_regex :: date_regex where
  "annuity_regex = \<lparr>rx_sep = (\<lambda>c. c = CHR ''-'' \<or> c = CHR ''.'' \<or> c = CHR ''/'' \<or> is_space c),
     rx_many = True, rx_bounded = True\<rparr>"

fun ap_parse_date :: "pyval \<Rightarrow> date option" where
  "ap_parse_date PyNone = None"
| "ap_parse_date (PyDate d) = Some d"
| "ap_parse_date (PyDatetime d t) = Some d"
| "ap_parse_date (PyStr v) =
     (let s = strip v in
      if s = [] then None
      else case search_date annuity_regex False s of None \<Rightarrow> None | Some (y, m, d) \<Rightarrow> mk_date y m d)"

text \<open>\<open>strftime("%Y-%m-%d")\<close>: the year is not padded.\<close>

definition strftime_ymd :: "date \<Rightarrow> string" where
  "strftime_ymd d = dropWhile (\<lambda>c. c = CHR ''0'') (pad4 (year d)) @ ''-'' @ pad2 (month d) @ ''-'' @ pad2 (day d)"

definition legal_due :: "annuity \<Rightarrow> date option" where
  "legal_due a =
     (case ap_parse_date (annuity_due_date a) of Some d \<Rightarrow> Some d
      | None \<Rightarrow> ap_parse_date (annuity_extended_due_date a))"

definition effective_due_date_str :: "annuity \<Rightarrow> string option" where
  "effective_due_date_str a =
     (case (ap_parse_date (internal_due_date a), legal_due a) of
        (Some i, Some l) \<Rightarrow> Some (strftime_ymd (min i l))
      | (Some i, None) \<Rightarrow> Some (strftime_ymd i)
      | (None, Some l) \<Rightarrow> Some (strftime_ymd l)
      | (None, None) \<Rightarrow> None)"

section \<open>Status\<close>

definition normalize_status :: "string option \<Rightarrow> string" where
  "normalize_status raw =
     (let text = strip (or_empty raw); v = lower text in
      if text = [] then ''pending''
      else if v \<in> set [''giveup'', ''give_up'', ''give-up'', ''abandoned'', ''waived'', ''forfeit''] then ''giveup''
      else if str_contains ''Abandoned'' text \<or> str_contains ''Withdrawn'' text then ''giveup''
      else if v \<in> set [''paid'', ''payed'', ''done'', ''complete'', ''completed''] then ''paid''
      else if str_contains ''Done'' text \<or> str_contains '' Done'' text then ''pending''
      else if str_contains ''Receipt'' text then ''paid''
      else if str_contains ''Payment'' text \<and> str_contains ''Done'' text then ''paid''
      else if v = ''overdue'' then ''pending''
      else if v \<in> set [''pending'', ''open'', ''unpaid''] then ''pending''
      else if str_contains ''overdue'' text \<or> str_contains ''In Progress'' text then ''pending''
      else ''pending'')"

definition compute_status :: "annuity \<Rightarrow> date \<Rightarrow> string" where
  "compute_status a today =
     (let st = normalize_status (annuity_status a) in
      if st = ''paid'' \<or> st = ''giveup'' then st
      else if ap_parse_date (paid_date a) \<noteq> None then ''paid''
      else case (case effective_due_date_str a of None \<Rightarrow> None | Some s \<Rightarrow> ap_parse_date (PyStr s)) of
        Some eff \<Rightarrow> if eff < today then ''overdue'' else ''pending''
      | None \<Rightarrow> ''pending'')"

definition is_domestic_case :: "matter_ref option \<Rightarrow> bool" where
  "is_domestic_case matter =
     (case matter of None \<Rightarrow> False
      | Some m \<Rightarrow>
          let rg = upper (strip (or_empty (right_group m))) in
          if rg = ''DOM'' then True
          else if rg = ''OUT'' \<or> rg = ''INC'' then False
          else if endswith (upper (strip (or_empty (our_ref m)))) ''US'' then True
          else str_contains ''Domestic'' (strip (or_empty (right_name m))))"

definition is_registration_prepaid_cycle :: "annuity \<Rightarrow> matter_ref option \<Rightarrow> int \<Rightarrow> bool" where
  "is_registration_prepaid_cycle a matter prepaid_years =
     (if \<not> is_domestic_case matter then False
      else let c = (case cycle_no a of None \<Rightarrow> 0 | Some n \<Rightarrow> n) in 0 < c \<and> c \<le> prepaid_years)"

section \<open>Properties\<close>

lemma pad4_hd:
  assumes "1000 \<le> n" and "n < 10000"
  shows "hd (pad4 n) \<noteq> CHR ''0''"
proof
  have range: "0 \<le> n div 1000" "n div 1000 < 10" and pos: "1 \<le> n div 1000" using assms by auto
  assume "hd (pad4 n) = CHR ''0''"
  then have "digit_val (digit_char (n div 1000)) = digit_val (CHR ''0'')" by (simp add: pad4_def)
  with digit_char_props(2) [OF range] pos show False by (simp add: digit_val_def)
qed

lemma strftime_iso: "valid_date d \<Longrightarrow> 1000 \<le> year d \<Longrightarrow> strftime_ymd d = isoformat d"
  using pad4_hd [of "year d"] by (auto simp: strftime_ymd_def isoformat_def valid_date_def pad4_def)

lemma ap_parse_strftime:
  assumes "valid_date d" and "1000 \<le> year d"
  shows "ap_parse_date (PyStr (strftime_ymd d)) = Some d"
proof -
  have "strip (isoformat d) = isoformat d" using iso_char [OF assms(1)] by (intro strip_id_all) auto
  moreover have "search_date annuity_regex False (isoformat d) = Some (year d, month d, day d)"
    by (rule search_isoformat [OF assms(1)]) (auto simp: annuity_regex_def is_digit_not_space, auto simp: is_digit_def)
  ultimately show ?thesis using mk_date_valid [OF assms(1)] by (simp add: strftime_iso [OF assms])
qed

definition due_columns_ok :: "annuity \<Rightarrow> bool" where
  "due_columns_ok a \<longleftrightarrow>
     (\<forall>v \<in> {annuity_due_date a, annuity_extended_due_date a, internal_due_date a}.
        \<forall>d. ap_parse_date v = Some d \<longrightarrow> valid_date d \<and> 1000 \<le> year d)"

text \<open>The due date the policy means: the earlier of the internal and the legal one.\<close>

definition effective_due :: "annuity \<Rightarrow> date option" where
  "effective_due a =
     (case (ap_parse_date (internal_due_date a), legal_due a) of
        (Some i, Some l) \<Rightarrow> Some (min i l) | (Some i, None) \<Rightarrow> Some i | (None, l) \<Rightarrow> l)"

lemma legal_due_ok: "due_columns_ok a \<Longrightarrow> legal_due a = Some d \<Longrightarrow> valid_date d \<and> 1000 \<le> year d"
  by (auto simp: due_columns_ok_def legal_due_def split: option.splits)

lemma effective_due_read:
  assumes "due_columns_ok a"
  shows "(case effective_due_date_str a of None \<Rightarrow> None | Some s \<Rightarrow> ap_parse_date (PyStr s)) = effective_due a"
proof -
  have i: "valid_date d \<and> 1000 \<le> year d" if "ap_parse_date (internal_due_date a) = Some d" for d
    using assms that by (simp add: due_columns_ok_def)
  have l: "valid_date d \<and> 1000 \<le> year d" if "legal_due a = Some d" for d
    using legal_due_ok [OF assms that] .
  have "valid_date (min x y) \<and> 1000 \<le> year (min x y)" if "ap_parse_date (internal_due_date a) = Some x" "legal_due a = Some y" for x y
    using i [OF that(1)] l [OF that(2)] by (simp add: min_def)
  with i l show ?thesis
    by (auto simp: effective_due_date_str_def effective_due_def ap_parse_strftime
        simp del: ap_parse_date.simps(4) split: option.splits)
qed

text \<open>The computed status of an annuity with readable dates: the stored paid or give-up status
  wins, then a payment date, and otherwise the annuity is overdue exactly when its effective due
  date, the earlier of the internal and the legal one, has passed; so an overdue annuity stays
  overdue on every later day.\<close>

theorem compute_status_policy:
  assumes "due_columns_ok a"
  shows "compute_status a today =
      (if normalize_status (annuity_status a) \<in> {''paid'', ''giveup''} then normalize_status (annuity_status a)
       else if ap_parse_date (paid_date a) \<noteq> None then ''paid''
       else if \<exists>d. effective_due a = Some d \<and> d < today then ''overdue'' else ''pending'')
    \<and> (\<forall>later \<ge> today. compute_status a today = ''overdue'' \<longrightarrow> compute_status a later = ''overdue'')"
proof -
  have c: "compute_status a t =
      (if normalize_status (annuity_status a) \<in> {''paid'', ''giveup''} then normalize_status (annuity_status a)
       else if ap_parse_date (paid_date a) \<noteq> None then ''paid''
       else if \<exists>d. effective_due a = Some d \<and> d < t then ''overdue'' else ''pending'')" for t
    by (auto simp: compute_status_def Let_def effective_due_read [OF assms] simp del: ap_parse_date.simps(4) split: option.splits)
  have "compute_status a later = ''overdue''" if "today \<le> later" "compute_status a today = ''overdue''" for later
    using that unfolding c by (auto split: if_splits)
  with c [of today] show ?thesis by blast
qed

definition annuity_example :: annuity where
  "annuity_example = \<lparr>annuity_status = Some ''open'', paid_date = PyNone, annuity_due_date = PyDate (Date 2025 3 10),
     annuity_extended_due_date = PyNone, internal_due_date = PyDate (Date 2025 2 10), cycle_no = Some 4\<rparr>"

theorem compute_status_policy_witness:
  "compute_status annuity_example (Date 2025 2 11) = ''overdue'' \<and> compute_status annuity_example (Date 2026 1 1) = ''overdue''"
proof -
  have ok: "due_columns_ok annuity_example"
    by (simp add: due_columns_ok_def annuity_example_def valid_date_def days_in_month_def is_leap_def)
  have "normalize_status (annuity_status annuity_example) = ''pending''" by code_simp
  moreover have "effective_due annuity_example = Some (Date 2025 2 10)"
    by (simp add: effective_due_def legal_due_def annuity_example_def min_def less_eq_date_def)
  moreover have "ap_parse_date (paid_date annuity_example) = None" by (simp add: annuity_example_def)
  ultimately show ?thesis
    using compute_status_policy [OF ok] by (simp add: less_date_def less_eq_date_def)
qed

text \<open>Normalising a status is idempotent and gives one of the three stored values; the rule that
  a text with both \<open>Payment\<close> and \<open>Done\<close> is paid never applies, because the rule that a text with
  \<open>Done\<close> is pending comes first.\<close>

theorem normalize_status_stable:
  "normalize_status raw \<in> {''pending'', ''paid'', ''giveup''}
   \<and> normalize_status (Some (normalize_status raw)) = normalize_status raw
   \<and> normalize_status (Some ''Payment Done'') = ''pending''"
proof -
  have mem: "normalize_status raw \<in> {''pending'', ''paid'', ''giveup''}"
    by (simp add: normalize_status_def Let_def)
  moreover have "normalize_status (Some ''pending'') = ''pending''" "normalize_status (Some ''paid'') = ''paid''"
    "normalize_status (Some ''giveup'') = ''giveup''" "normalize_status (Some ''Payment Done'') = ''pending''"
    by code_simp+
  ultimately show ?thesis by auto
qed

end
