(* ===== verification/Deadline_Rules.thy ===== *)
theory Deadline_Rules
  imports Calendar
begin

text \<open>
  Response deadlines for foreign office actions
  (\<open>app/services/deadlines/foreign_deadline_rules.py\<close>): the first matching rule of the rules
  file, or else the period written in the document, is added to the mailing date. The rules file
  (its parsed list of rules) is an argument; day arithmetic is Python's \<open>date + timedelta\<close>,
  modelled day by day and related to the ordinal number of a date.
\<close>

section \<open>Day arithmetic\<close>

definition next_day :: "date \<Rightarrow> date" where
  "next_day d =
     (if day d < days_in_month (year d) (month d) then Date (year d) (month d) (day d + 1)
      else if month d < 12 then Date (year d) (month d + 1) 1
      else Date (year d + 1) 1 1)"

definition prev_day :: "date \<Rightarrow> date" where
  "prev_day d =
     (if 1 < day d then Date (year d) (month d) (day d - 1)
      else if 1 < month d then Date (year d) (month d - 1) (days_in_month (year d) (month d - 1))
      else Date (year d - 1) 12 31)"

text \<open>\<open>None\<close> where Python raises \<open>OverflowError\<close>.\<close>

definition add_days :: "date \<Rightarrow> int \<Rightarrow> date option" where
  "add_days d n =
     (let x = (if 0 \<le> n then (next_day ^^ nat n) d else (prev_day ^^ nat (- n)) d)
      in if 1 \<le> year x \<and> year x \<le> 9999 then Some x else None)"

section \<open>Rules\<close>

text \<open>A number in a rule: absent, an integer, or another value with what \<open>int(value or 0)\<close> makes of
  it (an error, or a number).\<close>

datatype rule_num = NumMissing | NumInt int | NumOther "string + int"

record deadline_rule =
  rule_jurisdiction :: "string option"
  rule_doc_type :: "string option"
  response_period_months :: rule_num
  response_period_days :: rule_num
  response_period_years :: rule_num

definition is_int :: "rule_num \<Rightarrow> bool" where
  "is_int v = (case v of NumInt n \<Rightarrow> True | _ \<Rightarrow> False)"

definition int_or_zero :: "rule_num \<Rightarrow> string + int" where
  "int_or_zero v = (case v of NumMissing \<Rightarrow> Inr 0 | NumInt n \<Rightarrow> Inr n | NumOther r \<Rightarrow> r)"

datatype offset = Months int int | Days int

definition foreign_regex :: date_regex where
  "foreign_regex = \<lparr>rx_sep = (\<lambda>c. c = CHR ''-''), rx_many = False, rx_bounded = False\<rparr>"

definition fr_parse_date :: "string option \<Rightarrow> date option" where
  "fr_parse_date value =
     (let raw = strip (or_empty value) in
      if raw = [] then None
      else let raw1 = hd (split_on (CHR '' '') (hd (split_on (CHR ''T'') raw)));
               raw2 = replace_char (CHR ''.'') (CHR ''-'') (replace_char (CHR ''/'') (CHR ''-'') raw1)
           in case search_date foreign_regex False raw2 of None \<Rightarrow> None | Some (y, m, d) \<Rightarrow> mk_date y m d)"

definition parse_period_to_delta :: "string option \<Rightarrow> offset option" where
  "parse_period_to_delta value =
     (let raw = lower (strip (or_empty value));
          run = takeWhile is_digit (dropWhile (\<lambda>c. \<not> is_digit c) raw) in
      if raw = [] then None
      else if run = [] then None
      else let amount = digits_val run in
        if str_contains ''month'' raw \<or> str_contains ''months'' raw then Some (Months amount 0)
        else if str_contains ''year'' raw \<or> str_contains ''years'' raw then Some (Months 0 amount)
        else if str_contains ''week'' raw \<or> str_contains ''weeks'' raw then Some (Days (7 * amount))
        else if str_contains ''day'' raw \<or> str_contains ''days'' raw then Some (Days amount)
        else None)"

definition month_lengths :: "int \<Rightarrow> int list" where
  "month_lengths y =
     [31, if y mod 4 = 0 \<and> (y mod 100 \<noteq> 0 \<or> y mod 400 = 0) then 29 else 28, 31, 30, 31, 30, 31, 31, 30, 31, 30, 31]"

text \<open>\<open>None\<close> where the constructor raises \<open>ValueError\<close> (a year outside 1 to 9999).\<close>

definition add_months :: "date \<Rightarrow> int \<Rightarrow> int \<Rightarrow> date option" where
  "add_months base months years =
     (let total_months = month base - 1 + months + years * 12;
          y = year base + total_months div 12;
          m = total_months mod 12 + 1;
          d = min (day base) (month_lengths y ! nat (m - 1))
      in mk_date y m d)"

definition rule_matches :: "string \<Rightarrow> string \<Rightarrow> deadline_rule \<Rightarrow> bool" where
  "rule_matches jur dtype r \<longleftrightarrow>
     (let rj = upper (strip (or_empty (rule_jurisdiction r)));
          rd = upper (strip (or_empty (rule_doc_type r))) in
      (rj = [] \<or> rj = jur) \<and> (rd = [] \<or> rd = ''*'' \<or> rd = dtype))"

text \<open>The offset of a rule: an error of \<open>int\<close>, or \<open>None\<close> when the rule has no usable number.\<close>

definition rule_offset :: "deadline_rule \<Rightarrow> string + offset option" where
  "rule_offset r =
     (if is_int (response_period_months r) \<or> is_int (response_period_years r)
      then (case (int_or_zero (response_period_months r), int_or_zero (response_period_years r)) of
              (Inr m, Inr y) \<Rightarrow> Inr (Some (Months m y))
            | (Inl e, _) \<Rightarrow> Inl e
            | (_, Inl e) \<Rightarrow> Inl e)
      else (case response_period_days r of NumInt n \<Rightarrow> Inr (Some (Days n)) | _ \<Rightarrow> Inr None))"

definition apply_offset :: "date \<Rightarrow> offset \<Rightarrow> string + (string \<times> string)" where
  "apply_offset base delta =
     (case delta of
        Months m y \<Rightarrow> (case add_months base m y of Some d \<Rightarrow> Inr (isoformat d, ''rule_months'') | None \<Rightarrow> Inl ''ValueError'')
      | Days n \<Rightarrow> (case add_days base n of Some d \<Rightarrow> Inr (isoformat d, ''rule_days'') | None \<Rightarrow> Inl ''OverflowError''))"

definition compute_response_deadline ::
  "deadline_rule option list \<Rightarrow> string option \<Rightarrow> string option \<Rightarrow> string option \<Rightarrow> string option \<Rightarrow> string option
    \<Rightarrow> string + (string \<times> string) option"
where
  "compute_response_deadline rule_list jurisdiction doc_type mailing_date oa_date response_period =
     (case (case fr_parse_date mailing_date of Some d \<Rightarrow> Some d | None \<Rightarrow> fr_parse_date oa_date) of
        None \<Rightarrow> Inr None
      | Some base \<Rightarrow>
          let jur = upper (strip (or_empty jurisdiction));
              dtype = upper (strip (or_empty doc_type));
              chosen = find (rule_matches jur dtype) (concat (map (\<lambda>r. case r of None \<Rightarrow> [] | Some x \<Rightarrow> [x]) rule_list))
          in case (case chosen of None \<Rightarrow> Inr None | Some r \<Rightarrow> rule_offset r) of
               Inl e \<Rightarrow> Inl e
             | Inr (Some delta) \<Rightarrow> map_sum id Some (apply_offset base delta)
             | Inr None \<Rightarrow>
                 (case (if or_empty response_period = [] then None else parse_period_to_delta response_period) of
                    None \<Rightarrow> Inr None
                  | Some delta \<Rightarrow> map_sum id Some (apply_offset base delta)))"

section \<open>Months\<close>

lemma month_cases:
  assumes "1 \<le> m" and "m \<le> (12::int)"
  shows "m = 1 \<or> m = 2 \<or> m = 3 \<or> m = 4 \<or> m = 5 \<or> m = 6 \<or> m = 7 \<or> m = 8 \<or> m = 9 \<or> m = 10 \<or> m = 11 \<or> m = 12"
  using assms by presburger

lemma month_lengths_nth:
  assumes "1 \<le> m" and "m \<le> 12"
  shows "month_lengths y ! nat (m - 1) = days_in_month y m"
  using month_cases [OF assms] by (elim disjE) (simp_all add: month_lengths_def days_in_month_def is_leap_def)

lemma days_in_month_bounds: "28 \<le> days_in_month y m" "days_in_month y m \<le> 31"
  by (simp_all add: days_in_month_def)

text \<open>Adding months and years lands in exactly the month that many months later, on the same day
  or, when that month is shorter, on its last day; the result is a valid date whenever its year is
  in Python's range, and otherwise the call raises.\<close>

theorem add_months_lands_in_month:
  assumes "valid_date base"
  shows "case add_months base m y of
      Some d \<Rightarrow> valid_date d \<and> 12 * year d + month d = 12 * year base + month base + m + 12 * y
        \<and> day d = min (day base) (days_in_month (year d) (month d))
    | None \<Rightarrow> \<not> (1 \<le> (12 * year base + month base - 1 + m + 12 * y) div 12
        \<and> (12 * year base + month base - 1 + m + 12 * y) div 12 \<le> 9999)"
proof -
  define total where "total = month base - 1 + m + y * 12"
  define yy where "yy = year base + total div 12"
  define mm where "mm = total mod 12 + 1"
  define dd where "dd = min (day base) (days_in_month yy mm)"
  have mm: "1 \<le> mm" "mm \<le> 12" by (auto simp: mm_def)
  have eq: "add_months base m y = mk_date yy mm dd"
    using month_lengths_nth [OF mm, of yy] by (simp add: add_months_def Let_def total_def yy_def mm_def dd_def)
  have idx: "12 * yy + mm = 12 * year base + month base + m + 12 * y"
    unfolding yy_def mm_def using div_mult_mod_eq [of total 12] by (simp add: total_def)
  have yr: "(12 * year base + month base - 1 + m + 12 * y) div 12 = yy"
    using idx mm by presburger
  have dd: "1 \<le> dd" "dd \<le> days_in_month yy mm"
    using assms days_in_month_bounds(1) [of yy mm] by (auto simp: dd_def valid_date_def)
  show ?thesis
  proof (cases "1 \<le> yy \<and> yy \<le> 9999")
    case True
    then have "mk_date yy mm dd = Some (Date yy mm dd)" "valid_date (Date yy mm dd)"
      using mm dd by (simp_all add: mk_date_def valid_date_def)
    with eq idx show ?thesis by (simp add: dd_def)
  next
    case False
    then have "mk_date yy mm dd = None" by (auto simp: mk_date_def valid_date_def)
    with eq yr False show ?thesis by simp
  qed
qed

theorem add_months_lands_in_month_witness:
  "valid_date (Date 2024 1 31) \<and> add_months (Date 2024 1 31) 1 0 = Some (Date 2024 2 29)"
proof -
  have v: "valid_date (Date 2024 1 31)" by (simp add: valid_date_def days_in_month_def)
  have "add_months (Date 2024 1 31) 1 0 \<noteq> None" by code_simp
  then obtain d where d: "add_months (Date 2024 1 31) 1 0 = Some d" by blast
  with add_months_lands_in_month [OF v, of 1 0]
  have *: "valid_date d" "12 * year d + month d = 24290" "day d = min 31 (days_in_month (year d) (month d))" by simp_all
  then have "year d = 2024 \<and> month d = 2" unfolding valid_date_def by presburger
  with * d v show ?thesis by (cases d) (simp add: days_in_month_def is_leap_def)
qed

section \<open>Days\<close>

definition days_before_month :: "int \<Rightarrow> int \<Rightarrow> int" where
  "days_before_month y m = sum_list (take (nat (m - 1)) (month_lengths y))"

definition days_before_year :: "int \<Rightarrow> int" where
  "days_before_year y = (y - 1) * 365 + (y - 1) div 4 - (y - 1) div 100 + (y - 1) div 400"

text \<open>The proleptic Gregorian ordinal, as \<open>date.toordinal\<close>.\<close>

definition toordinal :: "date \<Rightarrow> int" where
  "toordinal d = days_before_year (year d) + days_before_month (year d) (month d) + day d"

lemma days_before_next_month:
  assumes "1 \<le> m" and "m < 12"
  shows "days_before_month y (m + 1) = days_before_month y m + days_in_month y m"
proof -
  have "m \<le> 12" using assms by simp
  from month_cases [OF assms(1) this] assms(2) show ?thesis
    by (elim disjE) (simp_all add: days_before_month_def month_lengths_def days_in_month_def is_leap_def eval_nat_numeral)
qed

lemma div_step:
  assumes "0 < (k::int)"
  shows "y div k - (y - 1) div k = (if y mod k = 0 then 1 else 0)"
proof -
  have r: "0 \<le> y mod k" "y mod k < k" using assms by auto
  have y: "y = k * (y div k) + y mod k" by simp
  have "(y - 1) div k = (if y mod k = 0 then y div k - 1 else y div k)"
  proof (cases "y mod k = 0")
    case True
    then have "y - 1 = k * (y div k - 1) + (k - 1)" using y by (simp add: algebra_simps)
    with assms True show ?thesis by (simp add: int_div_pos_eq [of _ _ _ "k - 1"])
  next
    case False
    have "y - 1 = k * (y div k) + (y mod k - 1)" using y by linarith
    moreover have "0 \<le> y mod k - 1" "y mod k - 1 < k" using r False by linarith+
    ultimately have "(y - 1) div k = y div k" by (rule int_div_pos_eq)
    with False show ?thesis by simp
  qed
  then show ?thesis by simp
qed

lemma leap_mod: "y mod 400 = 0 \<Longrightarrow> y mod 100 = 0" "y mod 100 = 0 \<Longrightarrow> y mod 4 = (0::int)"
  by presburger+

lemma days_before_next_year: "days_before_year (y + 1) = days_before_year y + (if is_leap y then 366 else 365)"
proof -
  have "days_before_year (y + 1) - days_before_year y
      = 365 + (y div 4 - (y - 1) div 4) - (y div 100 - (y - 1) div 100) + (y div 400 - (y - 1) div 400)"
    by (simp add: days_before_year_def)
  then show ?thesis using leap_mod [of y] by (auto simp: div_step is_leap_def split: if_splits)
qed

lemma next_day_valid:
  assumes "valid_date d" and "year (next_day d) \<le> 9999"
  shows "valid_date (next_day d)"
  using assms days_in_month_bounds(1) [of "year d" "month d + 1"] days_in_month_bounds(1) [of "year d + 1" 1]
  by (auto simp: next_day_def valid_date_def)

lemma toordinal_next_day:
  assumes "valid_date d"
  shows "toordinal (next_day d) = toordinal d + 1"
proof -
  have m: "1 \<le> month d" "month d \<le> 12" and dd: "day d \<le> days_in_month (year d) (month d)"
    using assms by (auto simp: valid_date_def)
  consider "day d < days_in_month (year d) (month d)"
    | "day d = days_in_month (year d) (month d)" "month d < 12"
    | "day d = days_in_month (year d) (month d)" "month d = 12" using m dd by linarith
  then show ?thesis
  proof cases
    case 2
    then show ?thesis using days_before_next_month [OF m(1) 2(2), of "year d"] by (simp add: next_day_def toordinal_def)
  next
    case 3
    have "days_before_month y 12 = (if is_leap y then 335 else 334)" "days_before_month y 1 = 0" for y
      by (simp_all add: days_before_month_def month_lengths_def is_leap_def eval_nat_numeral)
    with 3 days_before_next_year [of "year d"] show ?thesis
      by (simp add: next_day_def toordinal_def days_in_month_def)
  qed (simp add: next_day_def toordinal_def)
qed

lemma year_next_day: "year d \<le> year (next_day d)"
  by (simp add: next_day_def)

lemma next_days:
  assumes "valid_date d" and "year ((next_day ^^ n) d) \<le> 9999"
  shows "valid_date ((next_day ^^ n) d) \<and> toordinal ((next_day ^^ n) d) = toordinal d + int n"
  using assms(2)
proof (induction n)
  case 0
  with assms(1) show ?case by simp
next
  case (Suc n)
  have "year ((next_day ^^ n) d) \<le> 9999" using year_next_day [of "(next_day ^^ n) d"] Suc.prems by simp
  from Suc.IH [OF this] have "valid_date ((next_day ^^ n) d)" "toordinal ((next_day ^^ n) d) = toordinal d + int n" by simp_all
  with Suc.prems next_day_valid toordinal_next_day show ?case by simp
qed

text \<open>Adding a number of days moves the ordinal of a date by exactly that number and gives a
  valid date, over month ends, leap days and year ends.\<close>

theorem add_days_moves_ordinal:
  assumes "valid_date d" and "0 \<le> n" and "add_days d n = Some x"
  shows "valid_date x \<and> toordinal x = toordinal d + n"
proof -
  have x: "x = (next_day ^^ nat n) d" and "year x \<le> 9999"
    using assms(2,3) by (auto simp: add_days_def Let_def split: if_splits)
  with next_days [OF assms(1), of "nat n"] assms(2) show ?thesis by simp
qed

theorem add_days_moves_ordinal_witness:
  "toordinal (Date 2024 2 28) = 738944 \<and> (\<exists>x. add_days (Date 2024 2 28) 2 = Some x \<and> toordinal x = 738946)"
proof -
  have v: "valid_date (Date 2024 2 28)" by (simp add: valid_date_def days_in_month_def is_leap_def)
  have o: "toordinal (Date 2024 2 28) = 738944" by code_simp
  have "add_days (Date 2024 2 28) 2 \<noteq> None" by code_simp
  then obtain x where "add_days (Date 2024 2 28) 2 = Some x" by blast
  with add_days_moves_ordinal [OF v, of 2 x] o show ?thesis by simp
qed

end
