(* ===== verification/Workflow_Status.thy ===== *)
theory Workflow_Status
  imports Docket_Dates
begin

text \<open>
  Workflow status transitions and their effect on the linked docket item
  (\<open>app/services/workflow/status_transition.py\<close>, \<open>app/services/workflow/status_sync.py\<close>,
  \<open>app/services/docket_manual_state.py\<close>, and the validators of \<open>app/models/workflow.py\<close> and
  \<open>app/models/docket.py\<close>).

  The state is a workflow and the docket table. Column assignments go through the validators, as
  SQLAlchemy runs them. The work log synchronisation is an argument (whether it produced an entry),
  and so is today's date. A memo is kept as the value of its text, so the key order of its JSON is not
  modelled, and the text of a legacy memo is taken not to be a JSON object itself.
\<close>

section \<open>Data\<close>

definition STATUS_PENDING :: string where "STATUS_PENDING = ''Pending''"
definition STATUS_IN_PROGRESS :: string where "STATUS_IN_PROGRESS = ''In Progress''"
definition STATUS_COMPLETED :: string where "STATUS_COMPLETED = ''Completed''"
definition STATUS_ABANDONED :: string where "STATUS_ABANDONED = ''Abandoned''"

lemmas status_defs = STATUS_PENDING_def STATUS_IN_PROGRESS_def STATUS_COMPLETED_def STATUS_ABANDONED_def

definition STATUSES :: "string list" where
  "STATUSES = [STATUS_PENDING, STATUS_IN_PROGRESS, STATUS_COMPLETED, STATUS_ABANDONED]"

definition TERMINAL_STATUSES :: "string list" where
  "TERMINAL_STATUSES = [STATUS_COMPLETED, STATUS_ABANDONED]"

record workflow =
  wf_id :: "int option"
  case_id :: "string option"
  business_code :: "string option"
  status :: "string option"
  wf_due_date :: "date option"
  legal_due_date :: "date option"
  source_docket_due_date :: "date option"
  source_docket_legal_due_date :: "date option"
  completed_date :: "date option"
  completed_by_id :: "int option"

text \<open>JSON values as the memo holds them; other values keep their text.\<close>

datatype json = JNull | JBool bool | JText string | JOther string

type_synonym memo_payload = "(string \<times> json) list"

text \<open>The memo column: empty, the text of a JSON object, or other text.\<close>

datatype memo = MemoNull | MemoJson memo_payload | MemoText string

record docket_item =
  docket_id :: string
  docket_matter_id :: string
  docket_is_deleted :: bool
  docket_due_date :: pyval
  docket_extended_due_date :: pyval
  docket_done_date :: "string option"
  docket_memo :: memo

section \<open>The manual abandonment mark\<close>

definition is_truthy :: "json option \<Rightarrow> bool" where
  "is_truthy v =
     (case v of None \<Rightarrow> False | Some JNull \<Rightarrow> False | Some (JBool b) \<Rightarrow> b
      | Some (JText s) \<Rightarrow> upper (strip s) \<in> set [''1'', ''T'', ''TRUE'', ''Y'', ''YES'', ''ON'']
      | Some (JOther s) \<Rightarrow> upper (strip s) \<in> set [''1'', ''T'', ''TRUE'', ''Y'', ''YES'', ''ON''])"

definition payload_pop :: "string \<Rightarrow> memo_payload \<Rightarrow> memo_payload" where
  "payload_pop k p = filter (\<lambda>(k', v). k' \<noteq> k) p"

definition payload_put :: "string \<Rightarrow> json \<Rightarrow> memo_payload \<Rightarrow> memo_payload" where
  "payload_put k v p =
     (if k \<in> fst ` set p then map (\<lambda>(k', w). if k' = k then (k', v) else (k', w)) p else p @ [(k, v)])"

definition legacy_key :: string where "legacy_key = ''_legacy_text''"

fun parse_docket_memo_payload :: "memo \<Rightarrow> memo_payload" where
  "parse_docket_memo_payload MemoNull = []"
| "parse_docket_memo_payload (MemoJson p) = p"
| "parse_docket_memo_payload (MemoText s) =
     (let raw = strip s in if raw = [] then [] else [(legacy_key, JText raw)])"

definition blank_json :: "json \<Rightarrow> bool" where
  "blank_json v = (case v of JNull \<Rightarrow> True | JText s \<Rightarrow> strip s = [] | _ \<Rightarrow> False)"

definition json_text :: "json \<Rightarrow> string" where
  "json_text v = (case v of JNull \<Rightarrow> [] | JBool b \<Rightarrow> (if b then ''True'' else []) | JText s \<Rightarrow> s | JOther s \<Rightarrow> s)"

definition serialize_docket_memo_payload :: "memo_payload \<Rightarrow> memo" where
  "serialize_docket_memo_payload p =
     (let data = filter (\<lambda>(k, v). \<not> blank_json v) p in
      case data of [] \<Rightarrow> MemoNull
      | (k, v) # rest \<Rightarrow>
          if \<forall>x \<in> set data. fst x = legacy_key
          then (let raw = strip (json_text v) in if raw = [] then MemoNull else MemoText raw)
          else MemoJson data)"

definition reason_is_manual :: "memo_payload \<Rightarrow> bool" where
  "reason_is_manual p \<longleftrightarrow>
     lower (strip (case map_of p ''lock_reason'' of None \<Rightarrow> [] | Some v \<Rightarrow> json_text v)) = ''manual_abandon''"

definition memo_has_manual_abandon_lock :: "memo \<Rightarrow> bool" where
  "memo_has_manual_abandon_lock m =
     (let p = parse_docket_memo_payload m in
      if is_truthy (map_of p ''manual_abandoned'') then True
      else if \<not> reason_is_manual p then False
      else is_truthy (map_of p ''locked''))"

definition mark_docket_manual_abandoned :: "string option \<Rightarrow> date option \<Rightarrow> date \<Rightarrow> docket_item \<Rightarrow> docket_item" where
  "mark_docket_manual_abandoned reason when_done today di =
     (let p1 = payload_put ''manual_abandoned'' (JBool True) (parse_docket_memo_payload (docket_memo di));
          p2 = payload_put ''manual_abandoned_at''
                 (JText (isoformat (case when_done of None \<Rightarrow> today | Some d \<Rightarrow> d))) p1;
          p3 = (if or_empty reason \<noteq> [] then payload_put ''manual_abandon_reason'' (JText (strip (or_empty reason))) p2
                else payload_pop ''manual_abandon_reason'' p2);
          p4 = payload_put ''lock_reason'' (JText ''manual_abandon'') (payload_put ''locked'' (JBool True) p3)
      in di\<lparr>docket_memo := serialize_docket_memo_payload p4\<rparr>)"

definition clear_docket_manual_abandoned :: "docket_item \<Rightarrow> docket_item" where
  "clear_docket_manual_abandoned di =
     (let p = payload_pop ''manual_abandon_reason'' (payload_pop ''manual_abandoned_at''
                (payload_pop ''manual_abandoned'' (parse_docket_memo_payload (docket_memo di))));
          p' = (if reason_is_manual p then payload_pop ''locked'' (payload_pop ''lock_reason'' p) else p)
      in di\<lparr>docket_memo := serialize_docket_memo_payload p'\<rparr>)"

section \<open>Statuses\<close>

definition spaces_for_marks :: "string \<Rightarrow> string" where
  "spaces_for_marks s = replace_char (CHR ''-'') (CHR '' '') (replace_char (CHR ''_'') (CHR '' '') s)"

definition normalize_workflow_status :: "string option \<Rightarrow> string" where
  "normalize_workflow_status value =
     (let raw = strip (or_empty value); n = spaces_for_marks (lower raw) in
      if raw = [] then STATUS_PENDING
      else if n = ''pending'' then STATUS_PENDING
      else if n \<in> set [''in progress'', ''progress'', ''started''] then STATUS_IN_PROGRESS
      else if n \<in> set [''completed'', ''complete'', ''done''] then STATUS_COMPLETED
      else if n \<in> set [''abandoned'', ''cancelled'', ''canceled'', ''excluded'', ''Task '', ''Task'',
                        ''Task Abandoned'', ''TaskAbandoned'', ''Abandoned''] then STATUS_ABANDONED
      else raw)"

text \<open>The validator of the status column.\<close>

definition validate_status :: "string \<Rightarrow> string" where
  "validate_status value =
     (let raw = strip value; n = spaces_for_marks (lower raw) in
      if raw = [] then STATUS_PENDING
      else if n = ''pending'' then STATUS_PENDING
      else if n = ''in progress'' then STATUS_IN_PROGRESS
      else if n \<in> set [''completed'', ''complete'', ''done''] then STATUS_COMPLETED
      else if n \<in> set [''abandoned'', ''cancelled'', ''canceled''] then STATUS_ABANDONED
      else raw)"

section \<open>The linked docket item\<close>

text \<open>\<open>^DOCKET:([^:]+)\<close>, ignoring case.\<close>

definition docket_code :: "string \<Rightarrow> string option" where
  "docket_code bc =
     (if startswith (upper bc) ''DOCKET:'' \<and> takeWhile (\<lambda>c. c \<noteq> CHR '':'') (drop 7 bc) \<noteq> []
      then Some (takeWhile (\<lambda>c. c \<noteq> CHR '':'') (drop 7 bc)) else None)"

definition is_valid_linked_docket_item :: "workflow \<Rightarrow> docket_item \<Rightarrow> bool" where
  "is_valid_linked_docket_item w di \<longleftrightarrow>
     strip (docket_id di) \<noteq> [] \<and> \<not> docket_is_deleted di
     \<and> docket_matter_id di = (case case_id w of None \<Rightarrow> ''None'' | Some c \<Rightarrow> c)"

definition linked_docket_item_for_workflow :: "workflow \<Rightarrow> docket_item list \<Rightarrow> docket_item option" where
  "linked_docket_item_for_workflow w dockets =
     (case docket_code (strip (or_empty (business_code w))) of None \<Rightarrow> None
      | Some g \<Rightarrow>
          let did = strip g in
          if did = [] then None
          else case sql_first (\<lambda>di. docket_id di = did) dockets of None \<Rightarrow> None
            | Some di \<Rightarrow> if is_valid_linked_docket_item w di then Some di else None)"

definition compute_synced_done_date :: "string option \<Rightarrow> string option \<Rightarrow> date option \<Rightarrow> date \<Rightarrow> string option" where
  "compute_synced_done_date st current_done_date completed_on today =
     (let status_now = strip (or_empty st);
          current_done = strip (or_empty current_done_date);
          completed_ymd = isoformat (case completed_on of None \<Rightarrow> today | Some d \<Rightarrow> d) in
      if status_now = ''Completed''
      then (if current_done \<noteq> [] \<and> \<not> startswith (upper current_done) ''AUTO_'' then Some current_done else Some completed_ymd)
      else if status_now = ''Abandoned''
      then (if startswith current_done ''AUTO_CANCELLED:'' then Some current_done else Some (''AUTO_CANCELLED:'' @ completed_ymd))
      else None)"

text \<open>Assignments to a docket row of the table, by its id; the done date goes through its validator.\<close>

definition update_docket :: "string \<Rightarrow> (docket_item \<Rightarrow> docket_item) \<Rightarrow> docket_item list \<Rightarrow> docket_item list" where
  "update_docket did f = sql_update (\<lambda>di. docket_id di = did) f"

definition set_done_date :: "string option \<Rightarrow> date \<Rightarrow> docket_item \<Rightarrow> docket_item" where
  "set_done_date v today di =
     di\<lparr>docket_done_date := normalize_done_date (case v of None \<Rightarrow> PyNone | Some s \<Rightarrow> PyStr s) today\<rparr>"

definition sync_linked_docket_done_date_from_workflow :: "workflow \<Rightarrow> date \<Rightarrow> docket_item list \<Rightarrow> docket_item list" where
  "sync_linked_docket_done_date_from_workflow w today dockets =
     (case linked_docket_item_for_workflow w dockets of None \<Rightarrow> dockets
      | Some di \<Rightarrow>
          update_docket (docket_id di)
            (\<lambda>x. set_done_date (compute_synced_done_date (status w) (docket_done_date x) (completed_date w) today) today x)
            dockets)"

section \<open>Transitions\<close>

record transition_result =
  old_status :: string
  new_status :: string
  status_changed :: bool
  completed_date_changed :: bool
  linked_docket_id :: "string option"
  linked_docket_done_date :: "string option"
  worklog_synced :: bool

text \<open>
  \<open>linked\<close> is the docket item the caller passed, by its id; \<open>completed_on\<close> the date argument as
  \<open>_coerce_date\<close> reads it.
\<close>

definition apply_workflow_status_transition ::
  "date \<Rightarrow> int option \<Rightarrow> string option \<Rightarrow> date option \<Rightarrow> string option \<Rightarrow> bool \<Rightarrow> bool \<Rightarrow> bool \<Rightarrow> string option
    \<Rightarrow> workflow \<times> docket_item list \<Rightarrow> string + transition_result \<times> workflow \<times> docket_item list"
where
  "apply_workflow_status_transition today actor_id note completed_on linked sync_worklog worklog_made strict requested s =
     (case s of (w, dockets) \<Rightarrow>
        let old = strip (if or_empty (status w) = [] then STATUS_PENDING else or_empty (status w));
            st = normalize_workflow_status requested in
        if strict \<and> st \<notin> set STATUSES then Inl (''unsupported workflow status: '' @ or_empty requested)
        else
          let wf1 = w\<lparr>status := Some (validate_status st)\<rparr>;
              wf2 = (if st \<in> set TERMINAL_STATUSES
                     then (let resolved = (case completed_on of Some d \<Rightarrow> Some d
                                           | None \<Rightarrow> if old = st then completed_date w else None)
                           in wf1\<lparr>completed_date := Some (case resolved of None \<Rightarrow> today | Some d \<Rightarrow> d),
                                  completed_by_id := (if actor_id \<noteq> None \<and> actor_id \<noteq> Some 0 then actor_id else completed_by_id wf1)\<rparr>)
                     else wf1\<lparr>completed_date := None, completed_by_id := None\<rparr>);
              linked_id = (case linked of Some l \<Rightarrow> Some l
                           | None \<Rightarrow> map_option docket_id (linked_docket_item_for_workflow wf2 dockets));
              dockets1 = (case linked_id of None \<Rightarrow> dockets
                          | Some l \<Rightarrow>
                              sync_linked_docket_done_date_from_workflow wf2 today
                                (update_docket l
                                   (if st = STATUS_ABANDONED then mark_docket_manual_abandoned note (completed_date wf2) today
                                    else clear_docket_manual_abandoned) dockets))
          in Inr (\<lparr>old_status = old, new_status = st, status_changed = (old \<noteq> st),
                   completed_date_changed = (completed_date w \<noteq> completed_date wf2),
                   linked_docket_id = linked_id,
                   linked_docket_done_date =
                     (case linked_id of None \<Rightarrow> None
                      | Some l \<Rightarrow> (case sql_first (\<lambda>di. docket_id di = l) dockets1 of None \<Rightarrow> None
                                   | Some di \<Rightarrow> docket_done_date di)),
                   worklog_synced = (linked_id \<noteq> None \<and> sync_worklog \<and> worklog_made)\<rparr>,
                  wf2, dockets1))"

section \<open>Due dates from the docket\<close>

definition docket_due_values_for_workflow_sync :: "docket_item option \<Rightarrow> date option \<times> date option" where
  "docket_due_values_for_workflow_sync di =
     (case di of None \<Rightarrow> (None, None)
      | Some d \<Rightarrow> (effective_due_for_work (docket_due_date d) (docket_extended_due_date d),
                   adjusted_legal_due_for_docket (docket_due_date d) (docket_extended_due_date d)))"

definition sync_workflow_due_dates_from_docket_source ::
  "date option \<Rightarrow> date option \<Rightarrow> workflow \<Rightarrow> bool \<times> workflow"
where
  "sync_workflow_due_dates_from_docket_source due legal w =
     (let has_source_snapshot = (source_docket_due_date w \<noteq> None \<or> source_docket_legal_due_date w \<noteq> None);
          should_apply =
            (if wf_id w = None \<and> \<not> has_source_snapshot then True
             else if has_source_snapshot
             then source_docket_due_date w \<noteq> due \<or> source_docket_legal_due_date w \<noteq> legal
             else if due = None \<and> legal = None then True
             else wf_due_date w = None \<and> legal_due_date w = None);
          wf1 = (if should_apply then w\<lparr>wf_due_date := due, legal_due_date := legal\<rparr> else w);
          wf2 = wf1\<lparr>source_docket_due_date := due, source_docket_legal_due_date := legal\<rparr>
      in (wf2 \<noteq> w, wf2))"

definition reconcile_linked_docket_workflow_fields ::
  "docket_item option \<Rightarrow> docket_item list \<Rightarrow> workflow \<Rightarrow> bool \<times> workflow"
where
  "reconcile_linked_docket_workflow_fields linked dockets w =
     (case (if (case linked of None \<Rightarrow> False | Some di \<Rightarrow> is_valid_linked_docket_item w di) then linked
            else linked_docket_item_for_workflow w dockets) of None \<Rightarrow> (False, w)
      | Some di \<Rightarrow>
          (case docket_due_values_for_workflow_sync (Some di) of
             (due, legal) \<Rightarrow> sync_workflow_due_dates_from_docket_source due legal w))"

section \<open>Memo payloads as maps\<close>

named_theorems memo_simps

lemma map_of_put [memo_simps]: "map_of (payload_put k v p) = (map_of p)(k \<mapsto> v)"
proof (cases "k \<in> fst ` set p")
  case True
  then have "map_of (map (\<lambda>(k', w). if k' = k then (k', v) else (k', w)) p) = (map_of p)(k \<mapsto> v)"
  proof (induction p)
    case (Cons a p)
    show ?case
    proof (cases "k \<in> fst ` set p")
      case True
      with Cons.IH show ?thesis by (cases a) (auto simp: fun_eq_iff)
    next
      case False
      then have "map (\<lambda>(k', w). if k' = k then (k', v) else (k', w)) p = p" by (intro map_idI) force
      with False Cons.prems show ?thesis by (cases a) auto
    qed
  qed simp
  with True show ?thesis by (simp add: payload_put_def)
next
  case False
  then have none: "map_of p k = None" by (simp add: map_of_eq_None_iff)
  show ?thesis
  proof
    fix x
    from False none show "map_of (payload_put k v p) x = ((map_of p)(k \<mapsto> v)) x"
      by (cases "x = k"; cases "map_of p x") (simp_all add: payload_put_def map_add_def)
  qed
qed

lemma map_of_pop [memo_simps]: "map_of (payload_pop k p) = (map_of p)(k := None)"
  by (induction p) (auto simp: payload_pop_def fun_eq_iff)

lemma keys_put: "map fst (payload_put k v p) = (if k \<in> fst ` set p then map fst p else map fst p @ [k])"
  by (auto simp: payload_put_def)

lemma distinct_put [memo_simps]: "distinct (map fst p) \<Longrightarrow> distinct (map fst (payload_put k v p))"
  by (simp add: keys_put)

lemma distinct_pop [memo_simps]: "distinct (map fst p) \<Longrightarrow> distinct (map fst (payload_pop k p))"
  by (simp add: payload_pop_def distinct_map_filter)

lemma map_of_not_blank:
  "distinct (map fst p) \<Longrightarrow> map_of (filter (\<lambda>(k, v). \<not> blank_json v) p) k =
     (case map_of p k of None \<Rightarrow> None | Some v \<Rightarrow> if blank_json v then None else Some v)"
proof (induction p)
  case (Cons a p)
  have "map_of p (fst a) = None" using Cons.prems by (simp add: map_of_eq_None_iff)
  with Cons show ?case by (cases a) auto
qed simp

definition memo_ok :: "memo \<Rightarrow> bool" where
  "memo_ok m \<longleftrightarrow> distinct (map fst (parse_docket_memo_payload m))"

lemma map_of_serialized:
  assumes "distinct (map fst p)" and "k \<noteq> legacy_key"
  shows "map_of (parse_docket_memo_payload (serialize_docket_memo_payload p)) k =
    (case map_of p k of None \<Rightarrow> None | Some v \<Rightarrow> if blank_json v then None else Some v)"
proof -
  let ?d = "filter (\<lambda>(k, v). \<not> blank_json v) p"
  note d = map_of_not_blank [OF assms(1), of k]
  show ?thesis
  proof (cases ?d)
    case Nil
    then show ?thesis using d by (simp add: serialize_docket_memo_payload_def)
  next
    case (Cons a rest)
    show ?thesis
    proof (cases "\<forall>x \<in> set ?d. fst x = legacy_key")
      case True
      then have "map_of ?d k = None" using assms(2) by (force simp: map_of_eq_None_iff)
      moreover have "map_of (parse_docket_memo_payload (serialize_docket_memo_payload p)) k = None"
        using True Cons assms(2) by (cases a) (auto simp: serialize_docket_memo_payload_def Let_def)
      ultimately show ?thesis using d by simp
    next
      case False
      then have "serialize_docket_memo_payload p = MemoJson ?d"
        using Cons by (cases a) (auto simp: serialize_docket_memo_payload_def Let_def)
      with d show ?thesis by simp
    qed
  qed
qed

lemma distinct_serialized:
  assumes "distinct (map fst p)"
  shows "memo_ok (serialize_docket_memo_payload p)"
proof -
  let ?d = "filter (\<lambda>(k, v). \<not> blank_json v) p"
  have "distinct (map fst ?d)" using assms by (rule distinct_map_filter)
  then show ?thesis
    by (cases ?d) (auto simp: memo_ok_def serialize_docket_memo_payload_def Let_def)
qed

lemma legacy_neq:
  "''manual_abandoned'' \<noteq> legacy_key" "''lock_reason'' \<noteq> legacy_key" "''locked'' \<noteq> legacy_key"
  "''manual_abandoned_at'' \<noteq> legacy_key" "''manual_abandon_reason'' \<noteq> legacy_key"
  by (simp_all add: legacy_key_def)

definition own_keys :: "string list" where
  "own_keys = [''manual_abandoned'', ''manual_abandoned_at'', ''manual_abandon_reason'', ''locked'', ''lock_reason'', legacy_key]"

lemma reason_text: "lower (strip ''manual_abandon'') = ''manual_abandon''"
  by code_simp

lemma reason_parse_serialize:
  assumes "distinct (map fst p)"
  shows "reason_is_manual (parse_docket_memo_payload (serialize_docket_memo_payload p)) \<longleftrightarrow> reason_is_manual p"
proof -
  have "strip (json_text v) = []" if "blank_json v" for v
    using that by (cases v) (auto simp: blank_json_def json_text_def strip_def strip_chars_def lstrip_chars_def rstrip_chars_def)
  moreover have "strip [] = []" by (simp add: strip_def strip_chars_def lstrip_chars_def rstrip_chars_def)
  ultimately show ?thesis
    using map_of_serialized [OF assms legacy_neq(2)] by (auto simp: reason_is_manual_def split: option.splits)
qed

text \<open>The lock that a memo carries, as a function of its payload.\<close>

lemma lock_of_payload:
  assumes "distinct (map fst p)"
  shows "memo_has_manual_abandon_lock (serialize_docket_memo_payload p) \<longleftrightarrow>
    is_truthy (map_of p ''manual_abandoned'') \<or> reason_is_manual p \<and> is_truthy (map_of p ''locked'')"
proof -
  have blank: "\<not> is_truthy (Some v)" if "blank_json v" for v
    using that by (cases v) (auto simp: blank_json_def is_truthy_def upper_def)
  have "is_truthy (case x of None \<Rightarrow> None | Some v \<Rightarrow> if blank_json v then None else Some v) = is_truthy x" for x
    using blank by (cases x) (auto simp: is_truthy_def split: if_splits)
  then show ?thesis
    using map_of_serialized [OF assms legacy_neq(1)] map_of_serialized [OF assms legacy_neq(3)] reason_parse_serialize [OF assms]
    by (simp add: memo_has_manual_abandon_lock_def Let_def)
qed

section \<open>Marking and clearing\<close>

definition mark_payload :: "string option \<Rightarrow> date \<Rightarrow> memo_payload \<Rightarrow> memo_payload" where
  "mark_payload reason d p =
     (let p2 = payload_put ''manual_abandoned_at'' (JText (isoformat d)) (payload_put ''manual_abandoned'' (JBool True) p);
          p3 = (if or_empty reason \<noteq> [] then payload_put ''manual_abandon_reason'' (JText (strip (or_empty reason))) p2
                else payload_pop ''manual_abandon_reason'' p2)
      in payload_put ''lock_reason'' (JText ''manual_abandon'') (payload_put ''locked'' (JBool True) p3))"

definition clear_payload :: "memo_payload \<Rightarrow> memo_payload" where
  "clear_payload p0 =
     (let p = payload_pop ''manual_abandon_reason'' (payload_pop ''manual_abandoned_at'' (payload_pop ''manual_abandoned'' p0))
      in if reason_is_manual p then payload_pop ''locked'' (payload_pop ''lock_reason'' p) else p)"

lemma mark_memo:
  "docket_memo (mark_docket_manual_abandoned reason when_done today di) = serialize_docket_memo_payload
     (mark_payload reason (case when_done of None \<Rightarrow> today | Some d \<Rightarrow> d) (parse_docket_memo_payload (docket_memo di)))"
  by (simp add: mark_docket_manual_abandoned_def mark_payload_def Let_def)

lemma clear_memo:
  "docket_memo (clear_docket_manual_abandoned di)
    = serialize_docket_memo_payload (clear_payload (parse_docket_memo_payload (docket_memo di)))"
  by (simp add: clear_docket_manual_abandoned_def clear_payload_def Let_def)

lemma distinct_mark: "distinct (map fst p) \<Longrightarrow> distinct (map fst (mark_payload r d p))"
  by (simp add: mark_payload_def Let_def memo_simps)

lemma distinct_clear: "distinct (map fst p) \<Longrightarrow> distinct (map fst (clear_payload p))"
  by (simp add: clear_payload_def Let_def memo_simps)

lemma reason_is_manual_cong: "map_of p ''lock_reason'' = map_of q ''lock_reason'' \<Longrightarrow> reason_is_manual p = reason_is_manual q"
  by (simp add: reason_is_manual_def)

lemma reason_absent: "map_of p ''lock_reason'' = None \<Longrightarrow> \<not> reason_is_manual p"
  by (simp add: reason_is_manual_def strip_def strip_chars_def lstrip_chars_def rstrip_chars_def lower_def)

lemma mark_lock: "distinct (map fst p) \<Longrightarrow> memo_has_manual_abandon_lock (serialize_docket_memo_payload (mark_payload r d p))"
  by (subst lock_of_payload [OF distinct_mark]) (simp_all add: mark_payload_def Let_def memo_simps is_truthy_def)

lemma clear_lock: "distinct (map fst p) \<Longrightarrow> \<not> memo_has_manual_abandon_lock (serialize_docket_memo_payload (clear_payload p))"
proof (subst lock_of_payload [OF distinct_clear])
  let ?q = "payload_pop ''manual_abandon_reason'' (payload_pop ''manual_abandoned_at'' (payload_pop ''manual_abandoned'' p))"
  have gone: "\<not> is_truthy None" by (simp add: is_truthy_def)
  show "\<not> (is_truthy (map_of (clear_payload p) ''manual_abandoned'')
      \<or> reason_is_manual (clear_payload p) \<and> is_truthy (map_of (clear_payload p) ''locked''))"
  proof (cases "reason_is_manual ?q")
    case True
    then have "map_of (clear_payload p) ''locked'' = None" "map_of (clear_payload p) ''manual_abandoned'' = None"
      by (simp_all add: clear_payload_def Let_def memo_simps)
    with gone show ?thesis by simp
  next
    case False
    then have "clear_payload p = ?q" by (simp add: clear_payload_def Let_def)
    with False gone show ?thesis by (simp add: memo_simps)
  qed
qed

lemma clear_mark_other:
  assumes "distinct (map fst p)" and "k \<notin> set own_keys"
  shows "map_of (clear_payload (parse_docket_memo_payload (serialize_docket_memo_payload (mark_payload r d p)))) k
    = (case map_of p k of None \<Rightarrow> None | Some v \<Rightarrow> if blank_json v then None else Some v)"
proof -
  have k: "k \<noteq> legacy_key" "k \<noteq> ''manual_abandoned''" "k \<noteq> ''manual_abandoned_at''" "k \<noteq> ''manual_abandon_reason''"
    "k \<noteq> ''locked''" "k \<noteq> ''lock_reason''" using assms(2) by (auto simp: own_keys_def)
  have "map_of (mark_payload r d p) k = map_of p k"
    using k by (simp add: mark_payload_def Let_def memo_simps)
  moreover have "map_of (clear_payload q) k = map_of q k" for q
    using k by (simp add: clear_payload_def Let_def memo_simps)
  ultimately show ?thesis
    using map_of_serialized [OF distinct_mark [OF assms(1)] k(1)] by simp
qed

lemma clear_mark_lock_gone:
  assumes "distinct (map fst p)"
  shows "map_of (clear_payload (parse_docket_memo_payload (serialize_docket_memo_payload (mark_payload r d p)))) ''locked'' = None"
proof -
  let ?q = "parse_docket_memo_payload (serialize_docket_memo_payload (mark_payload r d p))"
  have "reason_is_manual (mark_payload r d p)"
    by (simp add: reason_is_manual_def mark_payload_def Let_def memo_simps json_text_def reason_text)
  then have "reason_is_manual ?q" using reason_parse_serialize [OF distinct_mark [OF assms]] by simp
  moreover have "map_of (payload_pop ''manual_abandon_reason'' (payload_pop ''manual_abandoned_at''
      (payload_pop ''manual_abandoned'' ?q))) ''lock_reason'' = map_of ?q ''lock_reason''" by (simp add: memo_simps)
  ultimately show ?thesis
    using reason_is_manual_cong [of "payload_pop ''manual_abandon_reason'' (payload_pop ''manual_abandoned_at''
      (payload_pop ''manual_abandoned'' ?q))" ?q]
    by (simp add: clear_payload_def Let_def memo_simps)
qed

text \<open>The manual abandonment mark: marking sets the lock, clearing removes it whatever the memo
  held, and marking then clearing keeps every other entry of the memo (blank entries apart); but a
  \<open>locked\<close> entry that was there for another reason before is gone afterwards.\<close>

theorem manual_abandon_mark_and_clear:
  assumes "memo_ok (docket_memo di)"
  shows "memo_has_manual_abandon_lock (docket_memo (mark_docket_manual_abandoned reason when_done today di))
    \<and> \<not> memo_has_manual_abandon_lock (docket_memo (clear_docket_manual_abandoned di))
    \<and> (\<forall>k. k \<notin> set own_keys \<longrightarrow>
        map_of (parse_docket_memo_payload (docket_memo (clear_docket_manual_abandoned (mark_docket_manual_abandoned reason when_done today di)))) k
        = (case map_of (parse_docket_memo_payload (docket_memo di)) k of None \<Rightarrow> None
           | Some v \<Rightarrow> if blank_json v then None else Some v))
    \<and> map_of (parse_docket_memo_payload (docket_memo (clear_docket_manual_abandoned (mark_docket_manual_abandoned reason when_done today di))))
        ''locked'' = None"
proof -
  let ?p = "parse_docket_memo_payload (docket_memo di)"
  let ?q = "mark_payload reason (case when_done of None \<Rightarrow> today | Some d \<Rightarrow> d) ?p"
  let ?m = "serialize_docket_memo_payload ?q"
  have dist: "distinct (map fst ?p)" using assms by (simp add: memo_ok_def)
  have distm: "distinct (map fst (parse_docket_memo_payload ?m))"
    using distinct_serialized [OF distinct_mark [OF dist]] by (simp add: memo_ok_def)
  have again: "map_of (parse_docket_memo_payload (serialize_docket_memo_payload (clear_payload (parse_docket_memo_payload ?m)))) k
      = (case map_of (clear_payload (parse_docket_memo_payload ?m)) k of None \<Rightarrow> None
         | Some v \<Rightarrow> if blank_json v then None else Some v)" if "k \<noteq> legacy_key" for k
    by (rule map_of_serialized [OF distinct_clear [OF distm] that])
  have other: "map_of (parse_docket_memo_payload (serialize_docket_memo_payload (clear_payload (parse_docket_memo_payload ?m)))) k
      = (case map_of ?p k of None \<Rightarrow> None | Some v \<Rightarrow> if blank_json v then None else Some v)" if "k \<notin> set own_keys" for k
  proof -
    have "k \<noteq> legacy_key" using that by (auto simp: own_keys_def)
    from again [OF this] clear_mark_other [OF dist that] show ?thesis by (auto split: option.splits)
  qed
  show ?thesis
    unfolding mark_memo clear_memo
    using mark_lock [OF dist] clear_lock [OF dist] other again [OF legacy_neq(3)] clear_mark_lock_gone [OF dist] by simp
qed

definition docket_example :: docket_item where
  "docket_example = \<lparr>docket_id = ''D1'', docket_matter_id = ''M1'', docket_is_deleted = False,
     docket_due_date = PyStr ''2025-03-10'', docket_extended_due_date = PyNone, docket_done_date = None,
     docket_memo = MemoJson [(''locked'', JBool True), (''lock_reason'', JText ''audit''), (''note'', JText ''x'')]\<rparr>"

theorem manual_abandon_mark_and_clear_witness:
  "map_of (parse_docket_memo_payload (docket_memo docket_example)) ''locked'' = Some (JBool True)
   \<and> map_of (parse_docket_memo_payload (docket_memo (clear_docket_manual_abandoned
        (mark_docket_manual_abandoned None None (Date 2025 1 31) docket_example)))) ''locked'' = None"
  using manual_abandon_mark_and_clear [of docket_example None None "Date 2025 1 31"]
  by (simp add: memo_ok_def docket_example_def)

section \<open>Done dates that follow the status\<close>

definition done_col_ok :: "string option \<Rightarrow> bool" where
  "done_col_ok v \<longleftrightarrow> v = None \<or> (\<exists>d. valid_date d \<and> (v = Some (isoformat d)
     \<or> v = Some (AUTO_CANCELLED_PREFIX @ '':'' @ isoformat d) \<or> v = Some (AUTO_EXPIRED_PREFIX @ '':'' @ isoformat d)))"

definition column :: "string option \<Rightarrow> pyval" where
  "column v = (case v of None \<Rightarrow> PyNone | Some s \<Rightarrow> PyStr s)"

lemma strip_Nil [simp]: "strip [] = []"
  by (simp add: strip_def strip_chars_def lstrip_chars_def rstrip_chars_def)

lemma startswith_append: "startswith (a @ b) p \<Longrightarrow> length p \<le> length a \<Longrightarrow> startswith a p"
  by (simp add: startswith_def)

lemma iso_strip: "valid_date d \<Longrightarrow> strip (isoformat d) = isoformat d"
  using iso_char by (intro strip_id_all) auto

lemma iso_not_auto: "valid_date d \<Longrightarrow> \<not> startswith (upper (isoformat d)) ''AUTO_''"
proof
  assume d: "valid_date d" and "startswith (upper (isoformat d)) ''AUTO_''"
  moreover have "upper (isoformat d) \<noteq> []" by (simp add: upper_def)
  ultimately have "hd (upper (isoformat d)) = CHR ''A''" by (auto simp: startswith_def neq_Nil_conv)
  with upper_hd_digit [of "isoformat d"] isoformat_hd [OF d] have "is_digit (CHR ''A'')" by simp
  then show False by (simp add: is_digit_def)
qed

lemma iso_not_cancelled: "valid_date d \<Longrightarrow> \<not> startswith (isoformat d) ''AUTO_CANCELLED:''"
proof
  assume d: "valid_date d" and "startswith (isoformat d) ''AUTO_CANCELLED:''"
  then have "hd (isoformat d) = CHR ''A''" by (cases "isoformat d") (auto simp: startswith_def)
  with isoformat_hd [OF d] have "is_digit (CHR ''A'')" by simp
  then show False by (simp add: is_digit_def)
qed

lemma auto_texts:
  assumes "valid_date d"
  shows "strip (AUTO_CANCELLED_PREFIX @ '':'' @ isoformat d) = AUTO_CANCELLED_PREFIX @ '':'' @ isoformat d"
    "strip (AUTO_EXPIRED_PREFIX @ '':'' @ isoformat d) = AUTO_EXPIRED_PREFIX @ '':'' @ isoformat d"
    "startswith (upper (AUTO_CANCELLED_PREFIX @ '':'' @ isoformat d)) ''AUTO_''"
    "startswith (upper (AUTO_EXPIRED_PREFIX @ '':'' @ isoformat d)) ''AUTO_''"
    "startswith (AUTO_CANCELLED_PREFIX @ '':'' @ isoformat d) ''AUTO_CANCELLED:''"
    "\<not> startswith (AUTO_EXPIRED_PREFIX @ '':'' @ isoformat d) ''AUTO_CANCELLED:''"
proof -
  show "strip (AUTO_CANCELLED_PREFIX @ '':'' @ isoformat d) = AUTO_CANCELLED_PREFIX @ '':'' @ isoformat d"
    by (rule stamped_text(1) [OF assms, of AUTO_CANCELLED_PREFIX]) simp_all
  show "strip (AUTO_EXPIRED_PREFIX @ '':'' @ isoformat d) = AUTO_EXPIRED_PREFIX @ '':'' @ isoformat d"
    by (rule stamped_text(1) [OF assms, of AUTO_EXPIRED_PREFIX]) simp_all
qed (simp_all add: startswith_def AUTO_CANCELLED_PREFIX_def AUTO_EXPIRED_PREFIX_def upper_def upper_char_def)

lemma done_col_cases:
  assumes "done_col_ok cur"
  obtains (empty) "strip (or_empty cur) = []"
    | (iso) d where "valid_date d" "strip (or_empty cur) = isoformat d"
    | (cancelled) d where "valid_date d" "strip (or_empty cur) = AUTO_CANCELLED_PREFIX @ '':'' @ isoformat d"
    | (expired) d where "valid_date d" "strip (or_empty cur) = AUTO_EXPIRED_PREFIX @ '':'' @ isoformat d"
proof -
  from assms consider "cur = None" | d where "valid_date d" "cur = Some (isoformat d)"
    | d where "valid_date d" "cur = Some (AUTO_CANCELLED_PREFIX @ '':'' @ isoformat d)"
    | d where "valid_date d" "cur = Some (AUTO_EXPIRED_PREFIX @ '':'' @ isoformat d)"
    unfolding done_col_ok_def by blast
  then show ?thesis
  proof cases
    case 1
    then show ?thesis using empty by simp
  next
    case 2
    then show ?thesis using iso [OF 2(1)] iso_strip [OF 2(1)] by simp
  next
    case 3
    then show ?thesis using cancelled [OF 3(1)] auto_texts(1) [OF 3(1)] by simp
  next
    case 4
    then show ?thesis using expired [OF 4(1)] auto_texts(2) [OF 4(1)] by simp
  qed
qed

lemma status_strips:
  "strip STATUS_COMPLETED = ''Completed''" "strip STATUS_ABANDONED = ''Abandoned''"
  "strip STATUS_PENDING = ''Pending''" "strip STATUS_IN_PROGRESS = ''In Progress''"
  by code_simp+

lemma compute_completed:
  "compute_synced_done_date (Some STATUS_COMPLETED) cur (Some cd) today =
     (let c = strip (or_empty cur) in if c \<noteq> [] \<and> \<not> startswith (upper c) ''AUTO_'' then Some c else Some (isoformat cd))"
  by (simp add: compute_synced_done_date_def Let_def status_strips)

lemma compute_abandoned:
  "compute_synced_done_date (Some STATUS_ABANDONED) cur (Some cd) today =
     (let c = strip (or_empty cur) in if startswith c ''AUTO_CANCELLED:'' then Some c
      else Some (AUTO_CANCELLED_PREFIX @ '':'' @ isoformat cd))"
  by (simp add: compute_synced_done_date_def Let_def status_strips AUTO_CANCELLED_PREFIX_def)

lemma compute_open:
  "st = STATUS_PENDING \<or> st = STATUS_IN_PROGRESS \<Longrightarrow> compute_synced_done_date (Some st) cur cd today = None"
  by (elim disjE) (simp_all add: compute_synced_done_date_def Let_def status_strips)

lemma synced_completed:
  assumes "done_col_ok cur" and "valid_date cd"
  shows "\<exists>d. valid_date d \<and> compute_synced_done_date (Some STATUS_COMPLETED) cur (Some cd) today = Some (isoformat d)"
  using assms(1)
proof (cases rule: done_col_cases)
  case (iso d)
  then show ?thesis by (intro exI [of _ d]) (simp add: compute_completed iso_not_auto)
next
  case (cancelled d)
  then show ?thesis
    using assms(2) auto_texts(3) [OF cancelled(1)] by (intro exI [of _ cd]) (simp add: compute_completed Let_def)
next
  case (expired d)
  then show ?thesis
    using assms(2) auto_texts(4) [OF expired(1)] by (intro exI [of _ cd]) (simp add: compute_completed Let_def)
qed (use assms(2) in \<open>auto simp: compute_completed\<close>)

lemma startswith_Nil [simp]: "startswith [] p \<longleftrightarrow> p = []"
  by (auto simp: startswith_def)

lemma synced_abandoned:
  assumes "done_col_ok cur" and "valid_date cd"
  shows "\<exists>d. valid_date d \<and> compute_synced_done_date (Some STATUS_ABANDONED) cur (Some cd) today
    = Some (AUTO_CANCELLED_PREFIX @ '':'' @ isoformat d)"
  using assms(1)
proof (cases rule: done_col_cases)
  case (iso d)
  then show ?thesis using assms(2) by (intro exI [of _ cd]) (simp add: compute_abandoned iso_not_cancelled)
next
  case (cancelled d)
  then show ?thesis
    using auto_texts(5) [OF cancelled(1)] by (intro exI [of _ d]) (simp add: compute_abandoned Let_def)
next
  case (expired d)
  then show ?thesis
    using assms(2) auto_texts(6) [OF expired(1)] by (intro exI [of _ cd]) (simp add: compute_abandoned Let_def)
qed (use assms(2) in \<open>auto simp: compute_abandoned\<close>)

text \<open>The done date a docket row has after the workflow was completed or abandoned on a day: the date that is
  already there when the row has the matching state, else the workflow's day.\<close>

definition synced_done :: "string \<Rightarrow> date option \<Rightarrow> string option \<Rightarrow> string option" where
  "synced_done st completed cur =
     (case completed of
        None \<Rightarrow> None
      | Some d \<Rightarrow>
          if st = STATUS_COMPLETED
          then (if fst (done_state (column cur)) = DoneDone then cur else Some (isoformat d))
          else (if fst (done_state (column cur)) = DoneCancelled then cur else Some (AUTO_CANCELLED_PREFIX @ '':'' @ isoformat d)))"

lemma done_col_state:
  assumes "done_col_ok cur"
  obtains (empty) "cur = None" "fst (done_state (column cur)) = DonePending"
    | (iso) d where "valid_date d" "cur = Some (isoformat d)" "fst (done_state (column cur)) = DoneDone"
    | (cancelled) d where "valid_date d" "cur = Some (AUTO_CANCELLED_PREFIX @ '':'' @ isoformat d)" "fst (done_state (column cur)) = DoneCancelled"
    | (expired) d where "valid_date d" "cur = Some (AUTO_EXPIRED_PREFIX @ '':'' @ isoformat d)" "fst (done_state (column cur)) = DoneExpired"
proof -
  have ne: "AUTO_EXPIRED_PREFIX \<noteq> AUTO_CANCELLED_PREFIX" by (simp add: AUTO_CANCELLED_PREFIX_def AUTO_EXPIRED_PREFIX_def)
  from assms consider "cur = None" | d where "valid_date d" "cur = Some (isoformat d)"
    | d where "valid_date d" "cur = Some (AUTO_CANCELLED_PREFIX @ '':'' @ isoformat d)"
    | d where "valid_date d" "cur = Some (AUTO_EXPIRED_PREFIX @ '':'' @ isoformat d)"
    unfolding done_col_ok_def by blast
  then show ?thesis
  proof cases
    case 1
    then show ?thesis by (intro empty) (simp_all add: column_def)
  next
    case (2 d)
    with normalize_done_iso [OF 2(1)] show ?thesis by (intro iso [of d]) (simp_all add: column_def del: done_state.simps(4))
  next
    case (3 d)
    with normalize_stamped [OF 3(1), of AUTO_CANCELLED_PREFIX] show ?thesis
      by (intro cancelled [of d]) (simp_all add: column_def del: done_state.simps(4))
  next
    case (4 d)
    with ne normalize_stamped [OF 4(1), of AUTO_EXPIRED_PREFIX] show ?thesis
      by (intro expired [of d]) (simp_all add: column_def del: done_state.simps(4))
  qed
qed

lemma compute_synced:
  assumes "done_col_ok cur" and "st \<in> set STATUSES" and "cd \<noteq> None \<longleftrightarrow> st \<in> set TERMINAL_STATUSES"
  shows "compute_synced_done_date (Some st) cur cd today = synced_done st cd cur"
proof (cases cd)
  case None
  with assms(2,3) have "st = STATUS_PENDING \<or> st = STATUS_IN_PROGRESS" by (auto simp: STATUSES_def TERMINAL_STATUSES_def)
  with compute_open None show ?thesis by (simp add: synced_done_def)
next
  case (Some d)
  with assms(3) consider (c) "st = STATUS_COMPLETED" | (a) "st = STATUS_ABANDONED" by (auto simp: TERMINAL_STATUSES_def)
  then show ?thesis
  proof cases
    case c
    from assms(1) show ?thesis unfolding c Some
      by (cases rule: done_col_state)
        (simp_all add: compute_completed synced_done_def Let_def iso_strip iso_not_auto auto_texts [unfolded append_Cons append_Nil])
  next
    case a
    have ne: "STATUS_ABANDONED \<noteq> STATUS_COMPLETED" by (simp add: status_defs)
    from assms(1) show ?thesis unfolding a Some
      by (cases rule: done_col_state)
        (simp_all add: compute_abandoned synced_done_def Let_def iso_strip iso_not_cancelled auto_texts [unfolded append_Cons append_Nil] ne)
  qed
qed

text \<open>What the validator and the state make of the computed done date.\<close>

lemma synced_done_date:
  assumes "done_col_ok cur" and "valid_date cd" and "st \<in> set STATUSES"
    and v: "v = compute_synced_done_date (Some st) cur (Some cd) today"
  shows "normalize_done_date (column v) today' = v \<and> done_col_ok v \<and> fst (done_state (column v)) =
        (if st = STATUS_COMPLETED then DoneDone else if st = STATUS_ABANDONED then DoneCancelled else DonePending)
    \<and> compute_synced_done_date (Some st) v (Some cd) today2 = v"
proof -
  from assms(3) consider "st = STATUS_PENDING \<or> st = STATUS_IN_PROGRESS" | "st = STATUS_COMPLETED" | "st = STATUS_ABANDONED"
    by (auto simp: STATUSES_def)
  then show ?thesis
  proof cases
    case 1
    with compute_open v show ?thesis by (auto simp: column_def done_col_ok_def status_defs)
  next
    case 2
    from synced_completed [OF assms(1,2)] 2 v obtain d where d: "valid_date d" "v = Some (isoformat d)" by auto
    then have "compute_synced_done_date (Some STATUS_COMPLETED) v (Some cd) today2 = v"
      by (simp add: compute_completed iso_strip iso_not_auto)
    moreover have "done_col_ok v" using d unfolding done_col_ok_def by blast
    ultimately show ?thesis
      using 2 d normalize_done_iso [OF d(1)]
      by (simp add: column_def del: normalize_done_date.simps(4) done_state.simps(4))
  next
    case 3
    let ?s = "\<lambda>d. AUTO_CANCELLED_PREFIX @ '':'' @ isoformat d"
    from synced_abandoned [OF assms(1,2)] 3 v obtain d where d: "valid_date d" "v = Some (?s d)" by auto
    have "compute_synced_done_date (Some STATUS_ABANDONED) v (Some cd) today2 = v"
      unfolding d(2) compute_abandoned Let_def or_empty_simps auto_texts(1) [OF d(1)] using auto_texts(5) [OF d(1)] by simp
    moreover have "done_col_ok v" using d unfolding done_col_ok_def by blast
    moreover have "STATUS_ABANDONED \<noteq> STATUS_COMPLETED" by (simp add: status_defs)
    moreover have "normalize_done_date (PyStr (?s d)) today' = Some (?s d)" "fst (done_state (PyStr (?s d))) = DoneCancelled"
      using normalize_stamped [OF d(1), of AUTO_CANCELLED_PREFIX "?s d" today']
      by (simp_all del: normalize_done_date.simps(4) done_state.simps(4))
    ultimately show ?thesis
      unfolding d(2) column_def option.case 3 by simp
  qed
qed

section \<open>Transitions keep workflow and docket together\<close>

lemma status_fixed:
  "st \<in> set STATUSES \<Longrightarrow> validate_status st = st \<and> normalize_workflow_status (Some st) = st \<and> strip st = st \<and> st \<noteq> []"
proof -
  have "\<forall>st \<in> set STATUSES. validate_status st = st \<and> normalize_workflow_status (Some st) = st \<and> strip st = st \<and> st \<noteq> []"
    by code_simp
  then show "st \<in> set STATUSES \<Longrightarrow> validate_status st = st \<and> normalize_workflow_status (Some st) = st \<and> strip st = st \<and> st \<noteq> []" by blast
qed

lemma linked_cong:
  assumes "business_code w' = business_code w" and "case_id w' = case_id w"
  shows "linked_docket_item_for_workflow w' ds = linked_docket_item_for_workflow w ds"
proof -
  have "is_valid_linked_docket_item w' = is_valid_linked_docket_item w"
    using assms(2) by (simp add: is_valid_linked_docket_item_def fun_eq_iff)
  then show ?thesis unfolding linked_docket_item_for_workflow_def assms(1) by (simp only:)
qed

definition keeps_identity :: "(docket_item \<Rightarrow> docket_item) \<Rightarrow> bool" where
  "keeps_identity f \<longleftrightarrow> (\<forall>di. docket_id (f di) = docket_id di \<and> docket_matter_id (f di) = docket_matter_id di
     \<and> docket_is_deleted (f di) = docket_is_deleted di)"

lemma keeps_identity_ops:
  "keeps_identity (mark_docket_manual_abandoned n d t)" "keeps_identity clear_docket_manual_abandoned"
  by (simp_all add: keeps_identity_def mark_docket_manual_abandoned_def clear_docket_manual_abandoned_def Let_def)

lemma first_update:
  assumes "keeps_identity f"
  shows "sql_first (\<lambda>di. docket_id di = i) (update_docket l f ds)
    = map_option (\<lambda>di. if docket_id di = l then f di else di) (sql_first (\<lambda>di. docket_id di = i) ds)"
  using assms by (induction ds) (auto simp: sql_first_def update_docket_def sql_update_def keeps_identity_def)

lemma linked_update:
  assumes "keeps_identity f" and "linked_docket_item_for_workflow w ds = Some di"
  shows "linked_docket_item_for_workflow w (update_docket (docket_id di) f ds) = Some (f di)"
proof -
  from assms(2) obtain g where g: "docket_code (strip (or_empty (business_code w))) = Some g" "strip g \<noteq> []"
    "sql_first (\<lambda>x. docket_id x = strip g) ds = Some di" "is_valid_linked_docket_item w di"
    by (auto simp: linked_docket_item_for_workflow_def Let_def split: option.splits if_splits)
  moreover have "is_valid_linked_docket_item w (f di)"
    using g(4) assms(1) by (simp add: is_valid_linked_docket_item_def keeps_identity_def)
  ultimately show ?thesis
    by (simp add: linked_docket_item_for_workflow_def Let_def first_update [OF assms(1)])
qed

lemma linked_in_table: "linked_docket_item_for_workflow w ds = Some di \<Longrightarrow> di \<in> set ds"
  by (auto simp: linked_docket_item_for_workflow_def Let_def split: option.splits if_splits dest: sql_first_Some)

lemma update_docket_hit: "di \<in> set ds \<Longrightarrow> docket_id di = l \<Longrightarrow> f di \<in> set (update_docket l f ds)"
  unfolding update_docket_def by (rule sql_update_hit) simp_all

text \<open>The workflow after a transition, and the effect on its linked docket item.\<close>

definition transitioned :: "date \<Rightarrow> int option \<Rightarrow> date option \<Rightarrow> string \<Rightarrow> workflow \<Rightarrow> workflow" where
  "transitioned today actor_id completed_on st w =
     (let old = strip (if or_empty (status w) = [] then STATUS_PENDING else or_empty (status w));
          w1 = w\<lparr>status := Some (validate_status st)\<rparr> in
      if st \<in> set TERMINAL_STATUSES
      then w1\<lparr>completed_date := Some (case (case completed_on of Some d \<Rightarrow> Some d
              | None \<Rightarrow> if old = st then completed_date w else None) of None \<Rightarrow> today | Some d \<Rightarrow> d),
              completed_by_id := (if actor_id \<noteq> None \<and> actor_id \<noteq> Some 0 then actor_id else completed_by_id w1)\<rparr>
      else w1\<lparr>completed_date := None, completed_by_id := None\<rparr>)"

definition memo_step :: "string option \<Rightarrow> date \<Rightarrow> string \<Rightarrow> workflow \<Rightarrow> docket_item \<Rightarrow> docket_item" where
  "memo_step note today st w = (if st = STATUS_ABANDONED then mark_docket_manual_abandoned note (completed_date w) today
     else clear_docket_manual_abandoned)"

lemma transitioned_sel:
  "status (transitioned today actor con st w) = Some (validate_status st)"
  "business_code (transitioned today actor con st w) = business_code w"
  "case_id (transitioned today actor con st w) = case_id w"
  "completed_date (transitioned today actor con st w) \<noteq> None \<longleftrightarrow> st \<in> set TERMINAL_STATUSES"
  by (simp_all add: transitioned_def Let_def)

lemma transition_eq:
  assumes "apply_workflow_status_transition today actor note con None sync made True req (w, ds) = Inr (res, w', ds')"
    and "linked_docket_item_for_workflow w ds = Some di"
  shows "normalize_workflow_status req \<in> set STATUSES \<and> w' = transitioned today actor con (normalize_workflow_status req) w
    \<and> ds' = sync_linked_docket_done_date_from_workflow w' today
        (update_docket (docket_id di) (memo_step note today (normalize_workflow_status req) w') ds)"
proof -
  let ?st = "normalize_workflow_status req"
  have st: "?st \<in> set STATUSES"
    using assms(1) by (auto simp: apply_workflow_status_transition_def Let_def split: if_splits)
  have "linked_docket_item_for_workflow (transitioned today actor con ?st w) ds = Some di"
    using assms(2) linked_cong [of "transitioned today actor con ?st w" w] by (simp add: transitioned_sel)
  with assms(1) st show ?thesis
    by (auto simp: apply_workflow_status_transition_def Let_def transitioned_def memo_step_def split: if_splits)
qed

lemma memo_step_effect:
  assumes "memo_ok (docket_memo di)"
  shows "memo_has_manual_abandon_lock (docket_memo (memo_step note today st w di)) \<longleftrightarrow> st = STATUS_ABANDONED"
    and "docket_done_date (memo_step note today st w di) = docket_done_date di"
    and "docket_id (memo_step note today st w di) = docket_id di"
proof -
  have "distinct (map fst (parse_docket_memo_payload (docket_memo di)))" using assms by (simp add: memo_ok_def)
  from mark_lock [OF this] clear_lock [OF this]
  show "memo_has_manual_abandon_lock (docket_memo (memo_step note today st w di)) \<longleftrightarrow> st = STATUS_ABANDONED"
    by (simp add: memo_step_def mark_memo clear_memo)
qed (simp_all add: memo_step_def mark_docket_manual_abandoned_def clear_docket_manual_abandoned_def Let_def)

lemma keeps_identity_memo_step: "keeps_identity (memo_step note today st w)"
  by (simp add: memo_step_def keeps_identity_ops)

definition dates_ok :: "workflow \<Rightarrow> date option \<Rightarrow> bool" where
  "dates_ok w con \<longleftrightarrow> (\<forall>d. con = Some d \<or> completed_date w = Some d \<longrightarrow> valid_date d)"

lemma transitioned_date_valid:
  assumes "dates_ok w con" and "valid_date today" and "completed_date (transitioned today actor con st w) = Some d"
  shows "valid_date d"
  using assms by (auto simp: transitioned_def Let_def dates_ok_def split: if_splits option.splits)

lemma synced_row:
  assumes st: "st \<in> set STATUSES" and col: "done_col_ok (docket_done_date di)"
    and cd: "\<And>d. completed_date w' = Some d \<Longrightarrow> valid_date d" and final: "completed_date w' \<noteq> None \<longleftrightarrow> st \<in> set TERMINAL_STATUSES"
    and v: "v = compute_synced_done_date (Some st) (docket_done_date di) (completed_date w') today"
  shows "normalize_done_date (column v) today' = v \<and> done_col_ok v \<and> fst (done_state (column v)) =
        (if st = STATUS_COMPLETED then DoneDone else if st = STATUS_ABANDONED then DoneCancelled else DonePending)
    \<and> compute_synced_done_date (Some st) v (completed_date w') today2 = v"
proof (cases "completed_date w'")
  case None
  with final st have "st = STATUS_PENDING \<or> st = STATUS_IN_PROGRESS" by (auto simp: STATUSES_def TERMINAL_STATUSES_def)
  with compute_open v show ?thesis by (auto simp: column_def done_col_ok_def status_defs)
next
  case (Some d)
  with synced_done_date [OF col cd [OF Some] st, of v today] v show ?thesis by simp
qed

lemma transitioned_completed:
  assumes "st \<in> set STATUSES"
  shows "completed_date (transitioned today actor con st w) =
    (if st \<in> set TERMINAL_STATUSES
     then Some (case con of Some d \<Rightarrow> d
       | None \<Rightarrow> (case completed_date w of Some d \<Rightarrow> if strip (or_empty (status w)) = st then d else today | None \<Rightarrow> today))
     else None)"
proof -
  have "STATUS_PENDING \<notin> set TERMINAL_STATUSES" "strip STATUS_PENDING = STATUS_PENDING" "strip [] = []" "[] \<notin> set TERMINAL_STATUSES" by code_simp+
  then show ?thesis by (auto simp: transitioned_def Let_def split: option.split)
qed

text \<open>C4: A status transition keeps a workflow and its linked docket item together. The new status is one of the
  four. For the two terminal ones the workflow's completion date is the given date, else the date it had when it was
  in this status already, else today; for the others it is empty. The linked row agrees: completed is done, abandoned
  is cancelled, any other status is pending, with an empty done date. The done date of a completed or abandoned
  workflow's row is the workflow's completion date, with the mark of a cancellation for an abandoned one; only a row
  that was done (respectively cancelled) before keeps the date it had. The manual abandonment lock is on exactly when
  the workflow is abandoned.\<close>

theorem transition_keeps_docket_consistent:
  assumes "apply_workflow_status_transition today actor note con None sync made True req (w, ds) = Inr (res, w', ds')"
    and "linked_docket_item_for_workflow w ds = Some di"
    and "done_col_ok (docket_done_date di)" and "memo_ok (docket_memo di)" and "valid_date today" and "dates_ok w con"
  shows "\<exists>st \<in> set STATUSES. status w' = Some st
    \<and> completed_date w' = (if st \<in> set TERMINAL_STATUSES
        then Some (case con of Some d \<Rightarrow> d
          | None \<Rightarrow> (case completed_date w of Some d \<Rightarrow> if strip (or_empty (status w)) = st then d else today | None \<Rightarrow> today))
        else None)
    \<and> (\<exists>di' \<in> set ds'. docket_id di' = docket_id di \<and> done_col_ok (docket_done_date di')
        \<and> docket_done_date di' = synced_done st (completed_date w') (docket_done_date di)
        \<and> fst (done_state (column (docket_done_date di'))) =
            (if st = STATUS_COMPLETED then DoneDone else if st = STATUS_ABANDONED then DoneCancelled else DonePending)
        \<and> (memo_has_manual_abandon_lock (docket_memo di') \<longleftrightarrow> st = STATUS_ABANDONED))"
proof -
  define st where "st = normalize_workflow_status req"
  let ?f = "memo_step note today st w'"
  let ?ds1 = "update_docket (docket_id di) ?f ds"
  from transition_eq [OF assms(1,2)] have st: "st \<in> set STATUSES" and w': "w' = transitioned today actor con st w"
    and ds': "ds' = sync_linked_docket_done_date_from_workflow w' today ?ds1" by (auto simp: st_def)
  have status: "status w' = Some st" using status_fixed [OF st] by (simp add: w' transitioned_sel)
  have final: "completed_date w' \<noteq> None \<longleftrightarrow> st \<in> set TERMINAL_STATUSES" by (simp only: w' transitioned_sel)
  have linked: "linked_docket_item_for_workflow w' ?ds1 = Some (?f di)"
    using linked_update [OF keeps_identity_memo_step] assms(2) linked_cong [of w' w] by (simp add: w' transitioned_sel)
  note memo = memo_step_effect [OF assms(4), of "note" today st w']
  define v where "v = compute_synced_done_date (Some st) (docket_done_date di) (completed_date w') today"
  have row: "normalize_done_date (column v) today = v \<and> done_col_ok v \<and> fst (done_state (column v)) =
      (if st = STATUS_COMPLETED then DoneDone else if st = STATUS_ABANDONED then DoneCancelled else DonePending)"
    using synced_row [OF st assms(3) _ final v_def, of today] transitioned_date_valid [OF assms(6,5)] w' by blast
  let ?di = "set_done_date v today (?f di)"
  have "set_done_date (compute_synced_done_date (status w') (docket_done_date (?f di)) (completed_date w') today) today (?f di) \<in> set ds'"
    unfolding ds' sync_linked_docket_done_date_from_workflow_def linked option.case
    by (rule update_docket_hit [OF linked_in_table [OF linked]]) simp
  then have "?di \<in> set ds'" by (simp add: status memo(2) v_def)
  moreover have "docket_id ?di = docket_id di" "docket_memo ?di = docket_memo (?f di)" "docket_done_date ?di = v"
    using row memo(3) by (simp_all add: set_done_date_def column_def)
  moreover have "v = synced_done st (completed_date w') (docket_done_date di)" unfolding v_def by (rule compute_synced [OF assms(3) st final])
  moreover note transitioned_completed [OF st, of today actor con w, folded w']
  ultimately show ?thesis using st status row memo(1) by (intro bexI [of _ st] conjI bexI [of _ ?di]) simp_all
qed

definition workflow_example :: workflow where
  "workflow_example = \<lparr>wf_id = Some 1, case_id = Some ''M1'', business_code = Some ''DOCKET:D1'', status = Some ''Pending'',
     wf_due_date = None, legal_due_date = None, source_docket_due_date = None, source_docket_legal_due_date = None,
     completed_date = None, completed_by_id = None\<rparr>"

lemma linked_example: "linked_docket_item_for_workflow workflow_example [docket_example] = Some docket_example"
  by code_simp

theorem transition_keeps_docket_consistent_witness:
  "\<exists>res w' ds'. apply_workflow_status_transition (Date 2025 1 31) (Some 7) None (Some (Date 2025 1 15)) None True True True (Some ''cancelled'')
      (workflow_example, [docket_example]) = Inr (res, w', ds') \<and> completed_date w' = Some (Date 2025 1 15)
      \<and> Some ''AUTO_CANCELLED:2025-01-15'' \<in> docket_done_date ` set ds'"
proof -
  let ?d = "Date 2025 1 15"
  have ok: "\<not> isl (apply_workflow_status_transition (Date 2025 1 31) (Some 7) None (Some ?d) None True True True (Some ''cancelled'')
      (workflow_example, [docket_example]))" by code_simp
  then obtain res w' ds' where r: "apply_workflow_status_transition (Date 2025 1 31) (Some 7) None (Some ?d) None True True True
      (Some ''cancelled'') (workflow_example, [docket_example]) = Inr (res, w', ds')" by (metis isl_def obj_sumE prod.exhaust)
  have v: "valid_date (Date 2025 1 31)" "valid_date ?d" by (simp_all add: valid_date_def days_in_month_def)
  have "normalize_workflow_status (Some ''cancelled'') = STATUS_ABANDONED" by code_simp
  with transition_eq [OF r linked_example] have st: "status w' = Some STATUS_ABANDONED"
    using status_fixed [of STATUS_ABANDONED] by (simp add: transitioned_sel)
  have tm: "STATUS_ABANDONED \<in> set TERMINAL_STATUSES" by (simp add: TERMINAL_STATUSES_def)
  have sy: "synced_done STATUS_ABANDONED (Some ?d) (docket_done_date docket_example) = Some ''AUTO_CANCELLED:2025-01-15''" by code_simp
  have "done_col_ok (docket_done_date docket_example)" "memo_ok (docket_memo docket_example)" "dates_ok workflow_example (Some ?d)"
    using v by (simp_all add: done_col_ok_def memo_ok_def dates_ok_def docket_example_def workflow_example_def)
  from transition_keeps_docket_consistent [OF r linked_example this(1,2) v(1) this(3)] st tm sy
  have "completed_date w' = Some ?d" "Some ''AUTO_CANCELLED:2025-01-15'' \<in> docket_done_date ` set ds'" by (force simp: image_iff)+
  with r show ?thesis by blast
qed

section \<open>Due dates follow the docket, not the other way round\<close>

lemma workflow_same_snapshot:
  "source_docket_due_date v = due \<Longrightarrow> source_docket_legal_due_date v = legal \<Longrightarrow>
    v\<lparr>source_docket_due_date := due, source_docket_legal_due_date := legal\<rparr> = v"
  by (rule workflow.equality) simp_all

text \<open>Synchronising the due dates of a workflow that has a docket snapshot: a docket whose dates
  have not moved since leaves the workflow exactly as it is, hand-edited due dates included, and one
  whose dates moved replaces both due dates. Either way the snapshot then holds the docket's dates, so
  that running the synchronisation again, with whatever due dates were edited in between, changes
  nothing.\<close>

theorem due_date_sync_keeps_edits:
  assumes "source_docket_due_date w \<noteq> None \<or> source_docket_legal_due_date w \<noteq> None"
    and "sync_workflow_due_dates_from_docket_source due legal w = (changed, w')"
    and "due \<noteq> None \<or> legal \<noteq> None"
  shows "(source_docket_due_date w = due \<and> source_docket_legal_due_date w = legal \<longrightarrow> \<not> changed \<and> w' = w)
    \<and> (source_docket_due_date w \<noteq> due \<or> source_docket_legal_due_date w \<noteq> legal \<longrightarrow>
         changed \<and> wf_due_date w' = due \<and> legal_due_date w' = legal)
    \<and> sync_workflow_due_dates_from_docket_source due legal (w'\<lparr>wf_due_date := edited, legal_due_date := edited_legal\<rparr>)
        = (False, w'\<lparr>wf_due_date := edited, legal_due_date := edited_legal\<rparr>)"
proof -
  have still: "sync_workflow_due_dates_from_docket_source due legal v = (False, v)"
    if "source_docket_due_date v = due" "source_docket_legal_due_date v = legal" for v
    using that assms(3) by (simp add: sync_workflow_due_dates_from_docket_source_def Let_def workflow_same_snapshot)
  show ?thesis
  proof (cases "source_docket_due_date w = due \<and> source_docket_legal_due_date w = legal")
    case True
    with still [of w] assms(2) have "\<not> changed" "w' = w" by simp_all
    with True still show ?thesis by simp
  next
    case False
    let ?w' = "w\<lparr>wf_due_date := due, legal_due_date := legal, source_docket_due_date := due, source_docket_legal_due_date := legal\<rparr>"
    have moved: "?w' \<noteq> w" using False by (metis workflow.select_convs(7,8) workflow.surjective workflow.update_convs(7,8))
    have "sync_workflow_due_dates_from_docket_source due legal w = (?w' \<noteq> w, ?w')"
      using False assms(1) by (simp add: sync_workflow_due_dates_from_docket_source_def Let_def)
    with moved have "sync_workflow_due_dates_from_docket_source due legal w = (True, ?w')" by simp
    with assms(2) have "changed" "w' = ?w'" by simp_all
    with False still show ?thesis by simp
  qed
qed

theorem due_date_sync_keeps_edits_witness:
  "sync_workflow_due_dates_from_docket_source (Some (Date 2025 3 1)) None
     (workflow_example\<lparr>source_docket_due_date := Some (Date 2025 3 1), wf_due_date := Some (Date 2025 2 20)\<rparr>)
   = (False, workflow_example\<lparr>source_docket_due_date := Some (Date 2025 3 1), wf_due_date := Some (Date 2025 2 20)\<rparr>)"
proof -
  let ?w = "workflow_example\<lparr>source_docket_due_date := Some (Date 2025 3 1), wf_due_date := Some (Date 2025 2 20)\<rparr>"
  obtain changed w' where r: "sync_workflow_due_dates_from_docket_source (Some (Date 2025 3 1)) None ?w = (changed, w')"
    by fastforce
  have "\<not> changed \<and> w' = ?w"
    using due_date_sync_keeps_edits [OF _ r] by (simp add: workflow_example_def)
  with r show ?thesis by simp
qed

end
