(* ===== verification/Case_Kind.thy ===== *)
theory Case_Kind
  imports Prelude
begin

text \<open>
  The kind of a matter, a division and a type, and how it is normalised, inferred and stored
  (\<open>app/services/case/case_kind.py\<close>).

  The rows the functions look up are arguments: the application number of the matter, the label of
  its raw import, and the custom field payloads by namespace. Keywords outside the character range
  of the model match nothing and are left out.
\<close>

section \<open>Normalisation\<close>

definition normalize_case_division :: "string option \<Rightarrow> string" where
  "normalize_case_division value =
     (let raw = strip (or_empty value); up = upper raw in
      if raw = [] then []
      else if up \<in> set [''DOM'', ''INC'', ''OUT'', ''ETC''] then up
      else if up \<in> set [''INCOMING'', ''INBOUND''] then ''INC''
      else if up \<in> set [''OUTGOING'', ''OUTBOUND'', ''FOREIGN''] then ''OUT''
      else if up \<in> set [''DOMESTIC''] then ''DOM''
      else if up \<in> set [''MISC'', ''OTHER''] then ''ETC''
      else if raw \<in> set [''Domestic'', []] then ''DOM''
      else if raw \<in> set [[], ''Matter'', []] then ''INC''
      else if raw \<in> set [''Foreign'', ''Foreign'', [], []] then ''OUT''
      else if raw \<in> set [''Other'', ''OtherMatter''] then ''ETC''
      else [])"

definition remove_spaces :: "string \<Rightarrow> string" where
  "remove_spaces s = filter (\<lambda>c. \<not> is_space c) s"

definition case_types :: "string list" where
  "case_types = [''PATENT'', ''DESIGN'', ''TRADEMARK'', ''LITIGATION'', ''UTILITY'', ''MISC'', ''PCT'',
     ''MADRID'', ''HAGUE'', ''COPYRIGHT'']"

definition normalize_case_type :: "string option \<Rightarrow> string" where
  "normalize_case_type value =
     (let raw = strip (or_empty value); up = upper raw;
          compact = remove_spaces up; compact_raw = remove_spaces raw in
      if up \<in> set case_types then up
      else if up \<in> set [''OTHER'', ''ETC''] then ''MISC''
      else if compact \<in> set [''UTILITYMODEL'', ''UM''] then ''UTILITY''
      else if str_contains ''PCT'' compact \<or> str_contains ''Filing'' raw then ''PCT''
      else if raw \<in> set [''Patent'', ''Patent''] then ''PATENT''
      else if raw \<in> set [''Utility model'', ''Utility model'', ''Utility modelRegistration''] then ''UTILITY''
      else if raw = ''Design'' then ''DESIGN''
      else if raw \<in> set [''Trademark'', ''Trademark'', ''Servicetable'', ''table'', ''Tasktable'', ''Display table'']
      then ''TRADEMARK''
      else if raw \<in> set [[], ''Litigation'', ''/Litigation''] then ''LITIGATION''
      else if raw \<in> set [[], '' '', [], '' '', []] then ''LITIGATION''
      else if compact_raw \<in> set [''//Litigation''] then ''LITIGATION''
      else if raw \<in> set [''Other'', ''Other'', ''OtherMatter'', ''OtherItem''] then ''MISC''
      else if raw \<in> set [[]] then ''COPYRIGHT''
      else [])"

definition SPECIAL_ETC_TYPES :: "string list" where
  "SPECIAL_ETC_TYPES = [''PCT'', ''MADRID'', ''HAGUE'', ''COPYRIGHT'', ''LITIGATION'', ''MISC'']"

definition USPTO_MANAGED_SPECIAL_TYPES :: "string list" where
  "USPTO_MANAGED_SPECIAL_TYPES = [''PCT'', ''MADRID'', ''HAGUE'']"

definition resolve_profile_case_kind :: "string option \<Rightarrow> string option \<Rightarrow> string \<times> string" where
  "resolve_profile_case_kind division case_type =
     (let dv = normalize_case_division division; typ = normalize_case_type case_type in
      if typ = ''MADRID'' then (''OUT'', ''TRADEMARK'')
      else if typ = ''HAGUE'' then (''OUT'', ''DESIGN'')
      else if typ = ''COPYRIGHT'' then ([], ''MISC'')
      else if typ = ''LITIGATION'' then ([], ''LITIGATION'')
      else if typ = ''MISC'' then ([], ''MISC'')
      else if dv = ''ETC'' \<and> typ = ''PCT'' then (''OUT'', ''PCT'')
      else (dv, typ))"

definition public_case_type_label :: "string option \<Rightarrow> string" where
  "public_case_type_label case_type =
     (let typ = upper (strip (or_empty case_type)) in
      if typ = ''PATENT'' then ''Patent''
      else if typ = ''UTILITY'' then ''Utility''
      else if typ = ''DESIGN'' then ''Design''
      else if typ = ''TRADEMARK'' then ''Trademark''
      else if typ = ''PCT'' then ''PCT''
      else if typ = ''MADRID'' then ''Madrid''
      else if typ = ''HAGUE'' then ''Hague''
      else if typ = ''COPYRIGHT'' then ''Copyright''
      else if typ = ''LITIGATION'' then ''Proceedings / Litigation''
      else if typ = ''MISC'' then ''Other''
      else typ)"

record kind_markers =
  is_madrid :: bool
  is_hague :: bool
  is_copyright :: bool

definition resolve_public_case_kind ::
  "string option \<Rightarrow> string option \<Rightarrow> kind_markers \<Rightarrow> string \<times> string"
where
  "resolve_public_case_kind division case_type m =
     (let dv = normalize_case_division division; typ = normalize_case_type case_type;
          misc = (if is_copyright m then ''COPYRIGHT'' else ''MISC'') in
      if dv = ''ETC'' \<and> typ \<in> set SPECIAL_ETC_TYPES
      then (if typ = ''MISC'' then (''ETC'', misc) else (''ETC'', typ))
      else if typ \<in> set [''MADRID'', ''HAGUE'', ''COPYRIGHT'', ''LITIGATION''] then (''ETC'', typ)
      else if typ = ''PCT'' then (''ETC'', ''PCT'')
      else if typ = ''LITIGATION'' then (''ETC'', ''LITIGATION'')
      else if typ = ''MISC'' then (''ETC'', misc)
      else if dv = ''OUT'' \<and> typ = ''TRADEMARK'' \<and> is_madrid m then (''ETC'', ''MADRID'')
      else if dv = ''OUT'' \<and> typ = ''DESIGN'' \<and> is_hague m then (''ETC'', ''HAGUE'')
      else (dv, typ))"

definition is_uspto_managed_case_kind :: "string option \<Rightarrow> string option \<Rightarrow> kind_markers \<Rightarrow> bool" where
  "is_uspto_managed_case_kind division case_type m =
     (case resolve_public_case_kind division case_type m of
        (d, t) \<Rightarrow> d \<in> set [''DOM'', ''INC''] \<or> t \<in> set USPTO_MANAGED_SPECIAL_TYPES)"

definition format_public_case_kind_label :: "string option \<Rightarrow> string option \<Rightarrow> kind_markers \<Rightarrow> string" where
  "format_public_case_kind_label division case_type m =
     (case resolve_public_case_kind division case_type m of
        (d, t) \<Rightarrow>
          let label = public_case_type_label (Some t) in
          if d = ''DOM'' then ''US - '' @ label
          else if d = ''INC'' then ''Inbound US - '' @ label
          else if d = ''OUT'' then ''Foreign - '' @ label
          else if d = ''ETC'' then ''Other Matter - '' @ label
          else strip (upper (strip (or_empty division)) @ '' '' @ upper (strip (or_empty case_type))))"

section \<open>Inference\<close>

text \<open>Two of the source's keywords are empty texts, and its two expressions match everywhere.\<close>

definition has_litigation_keyword :: "string option \<Rightarrow> bool" where
  "has_litigation_keyword value =
     (let raw = strip (or_empty value) in
      if raw = [] then False
      else if str_contains [] raw \<or> str_contains ''Litigation'' raw then True
      else if True then True
      else str_contains ''litigation'' (lower raw))"

definition infer_case_kind_from_right_name :: "string option \<Rightarrow> string \<times> string" where
  "infer_case_kind_from_right_name right_name =
     (let raw = strip (or_empty right_name); low = lower raw in
      if raw = [] then ([], [])
      else if has_litigation_keyword (Some raw) then ([], ''LITIGATION'')
      else
        ((if str_contains ''incoming'' low \<or> str_contains [] raw \<or> str_contains ''inbound'' low \<or> str_contains [] raw
          then ''INC''
          else if str_contains ''outgoing'' low \<or> str_contains ''Foreign'' raw \<or> str_contains ''foreign'' low then ''OUT''
          else if str_contains ''Domestic'' raw \<or> str_contains ''domestic'' low then ''DOM''
          else []),
         (if str_contains ''Utility model'' raw \<or> str_contains ''Utility modelRegistration'' raw then ''UTILITY''
          else if str_contains ''utility'' low \<or> str_contains ''utilitymodel'' low then ''UTILITY''
          else if str_contains ''PCT'' (upper raw) \<or> str_contains ''Filing'' raw then ''PCT''
          else if str_contains ''Patent'' raw \<or> str_contains ''patent'' low then ''PATENT''
          else if str_contains ''Design'' raw \<or> str_contains ''design'' low then ''DESIGN''
          else if (\<exists>k \<in> set [''Trademark'', ''Servicetable'', ''table'', ''Tasktable'']. str_contains k raw)
            \<or> str_contains ''trademark'' low then ''TRADEMARK''
          else [])))"

text \<open>\<open>(?i)(?:US)?(\d{2})\<close>, followed by a dash or not: the two digits of a match at the start.\<close>

definition two_digits :: "bool \<Rightarrow> string \<Rightarrow> string option" where
  "two_digits dash s =
     (case s of a # b # rest \<Rightarrow>
        if is_digit a \<and> is_digit b \<and> (dash \<longrightarrow> rest \<noteq> [] \<and> hd rest = CHR ''-'') then Some [a, b] else None
      | _ \<Rightarrow> None)"

definition match_app_prefix :: "bool \<Rightarrow> string \<Rightarrow> string option" where
  "match_app_prefix dash s =
     (case (if startswith (upper (take 2 s)) ''US'' then two_digits dash (drop 2 s) else None) of
        Some g \<Rightarrow> Some g | None \<Rightarrow> two_digits dash s)"

fun search_app_prefix :: "string \<Rightarrow> string option" where
  "search_app_prefix [] = None"
| "search_app_prefix (c # cs) =
     (case match_app_prefix True (c # cs) of Some g \<Rightarrow> Some g | None \<Rightarrow> search_app_prefix cs)"

definition infer_case_kind_from_app_no :: "string option \<Rightarrow> string \<times> string" where
  "infer_case_kind_from_app_no app_no =
     (let raw = remove_char (CHR '' '') (strip (or_empty app_no)) in
      if raw = [] then ([], [])
      else case (case search_app_prefix raw of Some g \<Rightarrow> Some g | None \<Rightarrow> match_app_prefix False raw) of
        None \<Rightarrow> ([], [])
      | Some p \<Rightarrow>
          if p = ''10'' then (''DOM'', ''PATENT'')
          else if p = ''20'' then (''DOM'', ''UTILITY'')
          else if p = ''30'' then (''DOM'', ''DESIGN'')
          else if p = ''40'' then (''DOM'', ''TRADEMARK'')
          else ([], []))"

record matter =
  m_matter_type :: "string option"
  m_right_group :: "string option"
  m_right_name :: "string option"

record matter_env =
  overview :: "matter option"
  app_no :: string
  raw_right_label :: string
  custom_payloads :: "(string \<times> (string \<times> string) list) list"

definition first_nonempty :: "string \<Rightarrow> string \<Rightarrow> string" where
  "first_nonempty a b = (if a \<noteq> [] then a else b)"

definition overview_of :: "(matter \<Rightarrow> string option) \<Rightarrow> matter_env \<Rightarrow> string option" where
  "overview_of f e = (case overview e of None \<Rightarrow> Some [] | Some v \<Rightarrow> f v)"

definition raw_type :: "matter \<Rightarrow> matter_env \<Rightarrow> string" where
  "raw_type m e =
     first_nonempty (normalize_case_type (m_matter_type m)) (normalize_case_type (overview_of m_matter_type e))"

definition raw_division :: "matter \<Rightarrow> matter_env \<Rightarrow> string" where
  "raw_division m e =
     first_nonempty (normalize_case_division (m_right_group m)) (normalize_case_division (overview_of m_right_group e))"

definition infer_case_kind :: "matter \<Rightarrow> matter_env \<Rightarrow> string \<times> string" where
  "infer_case_kind m e =
     (case resolve_profile_case_kind (Some (raw_division m e)) (Some (raw_type m e)) of
        (div0, typ0) \<Rightarrow>
          if typ0 \<in> set [''LITIGATION'', ''MISC''] then ([], typ0)
          else
            let (app_div, app_typ) = infer_case_kind_from_app_no (Some (app_no e));
                unknown = (typ0 = [] \<or> div0 = []);
                typ1 = (if unknown \<and> typ0 = [] \<and> app_typ \<noteq> [] then app_typ else typ0);
                div1 = (if unknown \<and> div0 = [] \<and> app_div \<noteq> [] then app_div else div0);
                seeded = ((typ1 = [] \<or> div1 = []) \<and> raw_right_label e \<noteq> []);
                (label_div, label_typ) = infer_case_kind_from_right_name (Some (raw_right_label e)) in
            if seeded \<and> typ1 = [] \<and> label_typ = ''LITIGATION'' then ([], ''LITIGATION'')
            else
              let typ2 = (if seeded \<and> typ1 = [] \<and> label_typ \<noteq> [] then label_typ else typ1);
                  div2 = (if seeded \<and> div1 = [] \<and> label_div \<noteq> [] then label_div else div1);
                  div3 = (if typ2 \<noteq> [] \<and> div2 = []
                          then (if typ2 = ''PCT'' then ''OUT'' else if typ2 = ''MISC'' then [] else ''DOM'') else div2)
              in (div3, typ2))"

section \<open>The public kind of a matter\<close>

definition contains_case_keyword :: "string option \<Rightarrow> string list \<Rightarrow> bool" where
  "contains_case_keyword value keywords =
     (let raw = strip (or_empty value) in
      raw \<noteq> [] \<and> (\<exists>k \<in> set keywords. k \<noteq> [] \<and> str_contains (lower k) (lower raw)))"

definition payloads_in :: "string list \<Rightarrow> matter_env \<Rightarrow> (string \<times> string) list list" where
  "payloads_in namespaces e = map snd (filter (\<lambda>(ns, p). ns \<in> set namespaces) (custom_payloads e))"

definition right_names :: "matter \<Rightarrow> matter_env \<Rightarrow> string option list" where
  "right_names m e = [m_right_name m, (case overview e of None \<Rightarrow> None | Some v \<Rightarrow> m_right_name v)]"

definition has_markers ::
  "string list \<Rightarrow> (string \<times> string list) list \<Rightarrow> string list \<Rightarrow> string list \<Rightarrow> matter \<Rightarrow> matter_env \<Rightarrow> bool"
where
  "has_markers namespaces keyword_fields filled_fields name_keywords m e =
     ((\<exists>p \<in> set (payloads_in namespaces e).
         (\<exists>(f, ks) \<in> set keyword_fields. contains_case_keyword (map_of p f) ks)
         \<or> (\<exists>f \<in> set filled_fields. strip (or_empty (map_of p f)) \<noteq> []))
      \<or> (\<exists>v \<in> set (right_names m e). contains_case_keyword v name_keywords))"

definition matter_has_madrid_markers :: "matter \<Rightarrow> matter_env \<Rightarrow> bool" where
  "matter_has_madrid_markers =
     has_markers [''outgoing_trademark'', ''out_trademark''] [(''app_route'', [''madrid''])]
       [''madrid_application_no'', ''madrid_application_date''] [''madrid'']"

definition matter_has_hague_markers :: "matter \<Rightarrow> matter_env \<Rightarrow> bool" where
  "matter_has_hague_markers =
     has_markers [''outgoing_design'', ''out_design''] [(''app_route'', [''hague''])]
       [''hague_application_no'', ''hague_application_date''] [''hague'']"

definition matter_is_copyright_misc :: "matter \<Rightarrow> matter_env \<Rightarrow> bool" where
  "matter_is_copyright_misc =
     has_markers [''misc''] [(''right_type'', [''copyright'']), (''case_kind'', [''copyright''])] [] [''copyright'']"

definition resolve_public_case_kind_for_matter :: "matter option \<Rightarrow> matter_env \<Rightarrow> string \<times> string" where
  "resolve_public_case_kind_for_matter mo e =
     (case mo of None \<Rightarrow> ([], [])
      | Some m \<Rightarrow>
          let raw_div = raw_division m e; raw_typ = raw_type m e;
              has_copyright = (raw_typ \<in> set [''MISC'', ''COPYRIGHT''] \<and> matter_is_copyright_misc m e) in
          if raw_div = ''ETC'' \<and> raw_typ \<in> set SPECIAL_ETC_TYPES
          then (if raw_typ = ''MISC'' then (''ETC'', if has_copyright then ''COPYRIGHT'' else ''MISC'')
                else (''ETC'', raw_typ))
          else
            case infer_case_kind m e of (dv, typ) \<Rightarrow>
              resolve_public_case_kind (Some dv) (Some typ)
                \<lparr>is_madrid = (dv = ''OUT'' \<and> typ = ''TRADEMARK'' \<and> matter_has_madrid_markers m e),
                 is_hague = (dv = ''OUT'' \<and> typ = ''DESIGN'' \<and> matter_has_hague_markers m e),
                 is_copyright = (typ = ''MISC'' \<and> has_copyright)\<rparr>)"

definition is_uspto_managed_matter :: "matter option \<Rightarrow> matter_env \<Rightarrow> bool" where
  "is_uspto_managed_matter mo e =
     (case resolve_public_case_kind_for_matter mo e of
        (d, t) \<Rightarrow> d \<in> set [''DOM'', ''INC''] \<or> t \<in> set USPTO_MANAGED_SPECIAL_TYPES)"

definition NON_USPTO_TRIAL_KEYWORDS :: "string list" where
  "NON_USPTO_TRIAL_KEYWORDS = [''Patent'', [], [], [], [], ''Litigation'', ''lawsuit'', ''court'']"

definition USPTO_TRIAL_KEYWORDS :: "string list" where
  "USPTO_TRIAL_KEYWORDS = [''Patent'', [], [], ''Billing'', ''Void'', ''Confirm'', ''Cancel'', [], []]"

definition trial_fields :: "string list" where
  "trial_fields = [''proposal_title'', ''case_name'', ''title'', ''court'', ''court_other'', ''department'', ''stand_reason'']"

definition trial_text :: "matter \<Rightarrow> matter_env \<Rightarrow> string" where
  "trial_text m e =
     (let names = [m_right_name m, (case overview e of None \<Rightarrow> None | Some v \<Rightarrow> m_right_name v), m_right_group m,
                   Some (fst (resolve_public_case_kind_for_matter (Some m) e))];
          fields = concat (map (\<lambda>p. map (map_of p) trial_fields) (payloads_in [''litigation''] e)) in
      join [CHR 0x0A] (filter (\<lambda>v. v \<noteq> []) (map (\<lambda>v. strip (or_empty v)) (names @ fields))))"

definition matter_is_uspto_trial :: "matter \<Rightarrow> matter_env \<Rightarrow> bool" where
  "matter_is_uspto_trial m e =
     (if raw_type m e \<noteq> ''LITIGATION'' \<and> snd (resolve_public_case_kind_for_matter (Some m) e) \<noteq> ''LITIGATION'' then False
      else
        let merged = trial_text m e in
        if merged = [] then False
        else if str_contains ''Patent'' merged then True
        else if \<exists>k \<in> set NON_USPTO_TRIAL_KEYWORDS. str_contains k merged then False
        else \<exists>k \<in> set USPTO_TRIAL_KEYWORDS. str_contains k merged)"

definition is_uspto_response_upload_matter :: "matter option \<Rightarrow> matter_env \<Rightarrow> bool" where
  "is_uspto_response_upload_matter mo e =
     (case mo of None \<Rightarrow> False
      | Some m \<Rightarrow> if is_uspto_managed_matter (Some m) e then True else matter_is_uspto_trial m e)"

section \<open>Storing a kind\<close>

definition apply_case_kind_to_matter :: "matter \<Rightarrow> string option \<Rightarrow> string option \<Rightarrow> bool \<times> matter" where
  "apply_case_kind_to_matter m division matter_type =
     (let typ = normalize_case_type matter_type;
          dv = (if typ = ''PCT'' then ''ETC''
                 else if typ \<in> set [''MADRID'', ''HAGUE'', ''COPYRIGHT'', ''LITIGATION'', ''MISC''] then ''ETC''
                 else normalize_case_division division) in
      if typ \<in> set SPECIAL_ETC_TYPES
      then (strip (or_empty (m_matter_type m)) \<noteq> typ \<or> strip (or_empty (m_right_group m)) \<noteq> dv,
            m\<lparr>m_matter_type := (if strip (or_empty (m_matter_type m)) \<noteq> typ then Some typ else m_matter_type m),
              m_right_group := (if strip (or_empty (m_right_group m)) \<noteq> dv then Some dv else m_right_group m)\<rparr>)
      else
        let set_div = (dv \<noteq> [] \<and> strip (or_empty (m_right_group m)) \<noteq> dv);
            set_typ = (typ \<noteq> [] \<and> strip (or_empty (m_matter_type m)) \<noteq> typ) in
        (set_div \<or> set_typ,
         m\<lparr>m_right_group := (if set_div then Some dv else m_right_group m),
           m_matter_type := (if set_typ then Some typ else m_matter_type m)\<rparr>))"

section \<open>Normalisation is stable\<close>

lemma normalize_case_type_strip:
  "strip (or_empty v) = strip (or_empty w) \<Longrightarrow> normalize_case_type v = normalize_case_type w"
  by (simp only: normalize_case_type_def)

lemma normalize_case_division_strip:
  "strip (or_empty v) = strip (or_empty w) \<Longrightarrow> normalize_case_division v = normalize_case_division w"
  by (simp only: normalize_case_division_def)

lemma case_type_fixed: "\<forall>t \<in> set case_types. normalize_case_type (Some t) = t \<and> strip t = t"
  by code_simp

lemma case_type_empty: "normalize_case_type (Some []) = ''LITIGATION'' \<and> normalize_case_type None = ''LITIGATION''"
  by code_simp

lemma case_division_fixed:
  "\<forall>d \<in> set [[], ''DOM'', ''INC'', ''OUT'', ''ETC'']. normalize_case_division (Some d) = d \<and> strip d = d"
  by code_simp

lemma normalize_case_type_range: "normalize_case_type v \<in> insert [] (set case_types)"
  by (auto simp: normalize_case_type_def Let_def case_types_def)

lemma normalize_case_division_range: "normalize_case_division v \<in> set [[], ''DOM'', ''INC'', ''OUT'', ''ETC'']"
  by (auto simp: normalize_case_division_def Let_def)

lemma special_types_subset: "set SPECIAL_ETC_TYPES \<subseteq> set case_types"
  by (auto simp: SPECIAL_ETC_TYPES_def case_types_def)

section \<open>Storing a kind and reading it back\<close>

lemma stored_division:
  "(if typ = ''PCT'' then ''ETC''
    else if typ \<in> set [''MADRID'', ''HAGUE'', ''COPYRIGHT'', ''LITIGATION'', ''MISC''] then ''ETC'' else d)
   = (if typ \<in> set SPECIAL_ETC_TYPES then ''ETC'' else d)"
  by (simp add: SPECIAL_ETC_TYPES_def)

lemma apply_kind_columns:
  assumes "apply_case_kind_to_matter m division mt = (changed, m')"
    and "typ = normalize_case_type mt" and "typ \<noteq> []"
    and "dv = (if typ \<in> set SPECIAL_ETC_TYPES then ''ETC'' else normalize_case_division division)" and "dv \<noteq> []"
  shows "strip (or_empty (m_matter_type m')) = typ" and "strip (or_empty (m_right_group m')) = dv"
    and "m_right_name m' = m_right_name m" and "changed \<longleftrightarrow> m' \<noteq> m"
    and "changed \<longleftrightarrow> strip (or_empty (m_matter_type m)) \<noteq> typ \<or> strip (or_empty (m_right_group m)) \<noteq> dv"
proof -
  have fixed: "strip typ = typ" "strip dv = dv"
    using case_type_fixed normalize_case_type_range [of mt] case_division_fixed normalize_case_division_range [of division] assms(2-5)
    by (auto split: if_splits)
  let ?m = "m\<lparr>m_matter_type := (if strip (or_empty (m_matter_type m)) \<noteq> typ then Some typ else m_matter_type m),
      m_right_group := (if strip (or_empty (m_right_group m)) \<noteq> dv then Some dv else m_right_group m)\<rparr>"
  have "apply_case_kind_to_matter m division mt =
      (strip (or_empty (m_matter_type m)) \<noteq> typ \<or> strip (or_empty (m_right_group m)) \<noteq> dv, ?m)"
  proof (cases "typ \<in> set SPECIAL_ETC_TYPES")
    case True
    with assms(4) show ?thesis
      unfolding apply_case_kind_to_matter_def Let_def assms(2) [symmetric] stored_division if_P [OF True] by simp
  next
    case False
    with assms(4,5) have "dv = normalize_case_division division" "normalize_case_division division \<noteq> []" by simp_all
    with assms(3) show ?thesis
      unfolding apply_case_kind_to_matter_def Let_def assms(2) [symmetric] stored_division if_not_P [OF False]
      by (simp add: disj_commute)
  qed
  with assms(1) have m': "m' = ?m"
    and ch: "changed \<longleftrightarrow> strip (or_empty (m_matter_type m)) \<noteq> typ \<or> strip (or_empty (m_right_group m)) \<noteq> dv"
    by simp_all
  show cols: "strip (or_empty (m_matter_type m')) = typ" "strip (or_empty (m_right_group m')) = dv"
    using m' fixed by simp_all
  show "m_right_name m' = m_right_name m" using m' by simp
  show "changed \<longleftrightarrow> m' \<noteq> m"
  proof
    assume changed
    with ch cols show "m' \<noteq> m" by metis
  next
    assume "m' \<noteq> m"
    then show changed using ch m' by (cases changed) simp_all
  qed
  show "changed \<longleftrightarrow> strip (or_empty (m_matter_type m)) \<noteq> typ \<or> strip (or_empty (m_right_group m)) \<noteq> dv"
    by (rule ch)
qed

lemma has_markers_cong: "m_right_name m' = m_right_name m \<Longrightarrow> has_markers ns kf ff nk m' e = has_markers ns kf ff nk m e"
  by (simp add: has_markers_def right_names_def)

lemma ordinary_kinds:
  "\<forall>d \<in> set [''DOM'', ''INC'', ''OUT'', ''ETC'']. \<forall>t \<in> set [''PATENT'', ''DESIGN'', ''TRADEMARK'', ''UTILITY''].
     resolve_profile_case_kind (Some d) (Some t) = (d, t) \<and> t \<notin> set [''LITIGATION'', ''MISC'']
     \<and> resolve_public_case_kind (Some d) (Some t) \<lparr>is_madrid = False, is_hague = False, is_copyright = False\<rparr> = (d, t)"
  by code_simp

lemma infer_known:
  "resolve_profile_case_kind (Some (raw_division m e)) (Some (raw_type m e)) = (d, t) \<Longrightarrow> d \<noteq> [] \<Longrightarrow> t \<noteq> []
    \<Longrightarrow> t \<notin> set [''LITIGATION'', ''MISC''] \<Longrightarrow> infer_case_kind m e = (d, t)"
  by (simp add: infer_case_kind_def Let_def split: prod.splits)

text \<open>A kind that is stored is read back. After a recognised type is stored, with a recognised
  division when the type needs one, storing it again changes nothing, and the public kind of the
  matter (one without contrary markers) is that type under that division, or under \<open>ETC\<close> for the
  special types, whatever its application number and raw labels say.\<close>

theorem stored_kind_is_read_back:
  assumes "apply_case_kind_to_matter m division mt = (changed, m')"
    and "typ = normalize_case_type mt" and "typ \<noteq> []"
    and "dv = (if typ \<in> set SPECIAL_ETC_TYPES then ''ETC'' else normalize_case_division division)" and "dv \<noteq> []"
    and "\<not> matter_has_madrid_markers m e" and "\<not> matter_has_hague_markers m e" and "\<not> matter_is_copyright_misc m e"
  shows "apply_case_kind_to_matter m' division mt = (False, m') \<and> resolve_public_case_kind_for_matter (Some m') e = (dv, typ)"
proof
  note cols = apply_kind_columns [OF assms(1-5)]
  obtain c2 m2 where again: "apply_case_kind_to_matter m' division mt = (c2, m2)" by fastforce
  from apply_kind_columns(4,5) [OF again assms(2-5)] cols(1,2) have "\<not> c2" "m2 = m'" by simp_all
  with again show "apply_case_kind_to_matter m' division mt = (False, m')" by simp
  have ty: "typ \<in> set case_types" using normalize_case_type_range [of mt] assms(2,3) by blast
  have dv: "dv \<in> set [''DOM'', ''INC'', ''OUT'', ''ETC'']"
    using normalize_case_division_range [of division] assms(4,5) by (auto split: if_splits)
  have "normalize_case_type (m_matter_type m') = typ"
    using normalize_case_type_strip [of "m_matter_type m'" "Some typ"] cols(1) ty case_type_fixed by auto
  then have rt: "raw_type m' e = typ" by (simp add: raw_type_def first_nonempty_def assms(3))
  have "normalize_case_division (m_right_group m') = dv"
    using normalize_case_division_strip [of "m_right_group m'" "Some dv"] cols(2) dv case_division_fixed by auto
  then have rd: "raw_division m' e = dv" by (simp add: raw_division_def first_nonempty_def assms(5))
  have marks: "\<not> matter_has_madrid_markers m' e" "\<not> matter_has_hague_markers m' e" "\<not> matter_is_copyright_misc m' e"
    using assms(6-8) has_markers_cong [OF cols(3)]
    by (simp_all add: matter_has_madrid_markers_def matter_has_hague_markers_def matter_is_copyright_misc_def)
  show "resolve_public_case_kind_for_matter (Some m') e = (dv, typ)"
  proof (cases "typ \<in> set SPECIAL_ETC_TYPES")
    case True
    with assms(4) marks show ?thesis
      by (simp add: resolve_public_case_kind_for_matter_def rt rd Let_def)
  next
    case False
    then have t4: "typ \<in> set [''PATENT'', ''DESIGN'', ''TRADEMARK'', ''UTILITY'']"
      using ty by (auto simp: case_types_def SPECIAL_ETC_TYPES_def)
    note k = ordinary_kinds [rule_format, OF dv t4]
    have "infer_case_kind m' e = (dv, typ)" by (rule infer_known) (use k assms(3,5) in \<open>simp_all add: rt rd\<close>)
    moreover have "typ \<noteq> ''MISC''" using k by auto
    ultimately show ?thesis using k marks False
      by (simp add: resolve_public_case_kind_for_matter_def rt rd Let_def)
  qed
qed

theorem stored_kind_is_read_back_witness:
  "resolve_public_case_kind_for_matter
     (Some (snd (apply_case_kind_to_matter \<lparr>m_matter_type = None, m_right_group = Some ''DOM'', m_right_name = None\<rparr>
        (Some ''incoming'') (Some ''utility model''))))
     \<lparr>overview = None, app_no = ''10-2020-1'', raw_right_label = [], custom_payloads = []\<rparr> = (''INC'', ''UTILITY'')"
proof -
  let ?m = "\<lparr>m_matter_type = None, m_right_group = Some ''DOM'', m_right_name = None\<rparr>"
  let ?e = "\<lparr>overview = None, app_no = ''10-2020-1'', raw_right_label = [], custom_payloads = []\<rparr>"
  obtain c m' where a: "apply_case_kind_to_matter ?m (Some ''incoming'') (Some ''utility model'') = (c, m')" by fastforce
  have t: "''UTILITY'' = normalize_case_type (Some ''utility model'')" by code_simp
  have d: "''INC'' = (if ''UTILITY'' \<in> set SPECIAL_ETC_TYPES then ''ETC'' else normalize_case_division (Some ''incoming''))" by code_simp
  have "resolve_public_case_kind_for_matter (Some m') ?e = (''INC'', ''UTILITY'')"
    by (rule conjunct2 [OF stored_kind_is_read_back [OF a t _ d]]) code_simp+
  with a show ?thesis by simp
qed

section \<open>Defaults\<close>

lemma str_contains_empty [simp]: "str_contains [] s"
  by (cases s) (auto simp: startswith_def)

text \<open>A matter without a recognised type is a litigation. When neither the matter nor an overview
  gives a type, the inference answers \<open>LITIGATION\<close> without looking at the application number or at
  the raw label; the empty text itself normalises to \<open>LITIGATION\<close>, every non-empty right name counts
  as a litigation keyword, and a litigation is a USPTO trial only when \<open>Patent\<close> occurs in its text.\<close>

theorem untyped_matter_is_litigation:
  assumes "normalize_case_type (m_matter_type m) \<in> {[], ''LITIGATION''}" and "overview e = None" and "strip name \<noteq> []"
  shows "infer_case_kind m e = ([], ''LITIGATION'') \<and> resolve_public_case_kind_for_matter (Some m) e = (''ETC'', ''LITIGATION'')
    \<and> infer_case_kind_from_right_name (Some name) = ([], ''LITIGATION'')
    \<and> (matter_is_uspto_trial m e \<longleftrightarrow> str_contains ''Patent'' (trial_text m e))"
proof -
  have rt: "raw_type m e = ''LITIGATION''"
    using assms(1,2) case_type_empty by (auto simp: raw_type_def first_nonempty_def overview_of_def)
  have prof: "resolve_profile_case_kind (Some d) (Some ''LITIGATION'') = ([], ''LITIGATION'')" for d
    using case_type_fixed by (simp add: resolve_profile_case_kind_def Let_def case_types_def)
  have inf: "infer_case_kind m e = ([], ''LITIGATION'')" by (simp add: infer_case_kind_def rt prof)
  have pub: "resolve_public_case_kind_for_matter (Some m) e = (''ETC'', ''LITIGATION'')"
    using case_type_fixed inf
    by (simp add: resolve_public_case_kind_for_matter_def resolve_public_case_kind_def rt Let_def SPECIAL_ETC_TYPES_def case_types_def)
  have "infer_case_kind_from_right_name (Some name) = ([], ''LITIGATION'')"
    using assms(3) by (simp add: infer_case_kind_from_right_name_def has_litigation_keyword_def Let_def)
  moreover have "matter_is_uspto_trial m e \<longleftrightarrow> str_contains ''Patent'' (trial_text m e)"
    by (auto simp: matter_is_uspto_trial_def rt Let_def NON_USPTO_TRIAL_KEYWORDS_def)
  ultimately show ?thesis using inf pub by simp
qed

theorem untyped_matter_is_litigation_witness:
  "infer_case_kind \<lparr>m_matter_type = None, m_right_group = Some ''DOM'', m_right_name = Some ''Domestic patent''\<rparr>
     \<lparr>overview = None, app_no = ''10-2020-1234567'', raw_right_label = [], custom_payloads = []\<rparr> = ([], ''LITIGATION'')"
  using untyped_matter_is_litigation [of "\<lparr>m_matter_type = None, m_right_group = Some ''DOM'', m_right_name = Some ''Domestic patent''\<rparr>"
      "\<lparr>overview = None, app_no = ''10-2020-1234567'', raw_right_label = [], custom_payloads = []\<rparr>" "''x''"] case_type_empty
  by (simp add: strip_def strip_chars_def lstrip_chars_def rstrip_chars_def is_space_def)

end
