(* ===== verification/Numerals.thy ===== *)
theory Numerals
  imports Calendar
begin

text \<open>
  Integers as text: \<open>str\<close> and \<open>int\<close> of Python, \<open>str.zfill\<close> and the width part of a number format,
  with the facts that reading a printed number gives it back.
\<close>

section \<open>Printing and reading\<close>

fun str_nat :: "nat \<Rightarrow> string" where
  "str_nat n = (if n < 10 then [digit_char (int n)] else str_nat (n div 10) @ [digit_char (int (n mod 10))])"

declare str_nat.simps [simp del]

definition str_int :: "int \<Rightarrow> string" where
  "str_int n = (if n < 0 then CHR ''-'' # str_nat (nat (- n)) else str_nat (nat n))"

definition zfill :: "nat \<Rightarrow> string \<Rightarrow> string" where
  "zfill w s = replicate (w - length s) (CHR ''0'') @ s"

definition rjust :: "nat \<Rightarrow> string \<Rightarrow> string" where
  "rjust w s = replicate (w - length s) (CHR '' '') @ s"

text \<open>\<open>int(text)\<close>: surrounding blanks, a sign, and digits with single underscores between them.\<close>

fun digit_groups :: "string \<Rightarrow> bool" where
  "digit_groups [] = False"
| "digit_groups [c] = is_digit c"
| "digit_groups (c # d # cs) = (is_digit c \<and> (if d = CHR ''_'' then digit_groups cs else digit_groups (d # cs)))"

definition py_int :: "string \<Rightarrow> int option" where
  "py_int text =
     (let s = strip text;
          (neg, ds) = (case s of [] \<Rightarrow> (False, []) | c # cs \<Rightarrow>
             if c = CHR ''-'' then (True, cs) else if c = CHR ''+'' then (False, cs) else (False, s)) in
      if digit_groups ds
      then Some ((if neg then - 1 else 1) * digits_val (filter (\<lambda>c. c \<noteq> CHR ''_'') ds)) else None)"

section \<open>Facts\<close>

lemma digits_val_acc_eq: "digits_val_acc a s = a * 10 ^ length s + digits_val s"
proof (induction s arbitrary: a)
  case (Cons c s)
  have "digits_val_acc a (c # s) = (10 * a + digit_val c) * 10 ^ length s + digits_val s"
    by (simp add: Cons [of "10 * a + digit_val c"])
  moreover have "digits_val (c # s) = digit_val c * 10 ^ length s + digits_val s"
    using Cons [of "digit_val c"] by (simp add: digits_val_def)
  ultimately show ?case by (simp add: distrib_right)
qed (simp add: digits_val_def)

lemma digits_val_append: "digits_val (s @ t) = digits_val s * 10 ^ length t + digits_val t"
proof -
  have "digits_val_acc a (s @ t) = digits_val_acc (digits_val_acc a s) t" for a by (induction s arbitrary: a) auto
  then show ?thesis by (metis digits_val_acc_eq digits_val_def)
qed

lemma digits_val_single: "digits_val [c] = digit_val c"
  by (simp add: digits_val_def)

lemma digit_val_0 [simp]: "digit_val (CHR ''0'') = 0"
  by (simp add: digit_val_def)

lemma digits_val_zeros [simp]: "digits_val (replicate n (CHR ''0'') @ s) = digits_val s"
proof (induction n)
  case (Suc n)
  have "digits_val (CHR ''0'' # t) = digits_val t" for t by (simp add: digits_val_def)
  with Suc show ?case by simp
qed simp

lemma str_nat_not_Nil [simp]: "str_nat n \<noteq> []"
  by (subst str_nat.simps) simp

lemma str_nat_digits: "c \<in> set (str_nat n) \<Longrightarrow> is_digit c"
proof (induction n arbitrary: c rule: str_nat.induct)
  case (1 n)
  show ?case
  proof (cases "n < 10")
    case True
    with 1(2) show ?thesis by (subst (asm) str_nat.simps) (simp add: digit_char_props)
  next
    case False
    with 1(2) have "c \<in> set (str_nat (n div 10)) \<or> c = digit_char (int (n mod 10))" by (subst (asm) str_nat.simps) auto
    with 1(1) False show ?thesis by (auto simp: digit_char_props)
  qed
qed

lemma digits_val_str_nat [simp]: "digits_val (str_nat n) = int n"
proof (induction n rule: str_nat.induct)
  case (1 n)
  show ?case
  proof (cases "n < 10")
    case True
    then show ?thesis by (subst str_nat.simps) (simp add: digits_val_single digit_char_props)
  next
    case False
    with 1 have "digits_val (str_nat n) = int (n div 10) * 10 + int (n mod 10)"
      by (subst str_nat.simps) (simp add: digits_val_append digits_val_single digit_char_props)
    moreover have "int (n div 10) * 10 + int (n mod 10) = int n" by presburger
    ultimately show ?thesis by simp
  qed
qed

lemma str_nat_inject [simp]: "str_nat m = str_nat n \<longleftrightarrow> m = n"
  by (metis digits_val_str_nat of_nat_eq_iff)

lemma digit_groups_all: "s \<noteq> [] \<Longrightarrow> \<forall>c \<in> set s. is_digit c \<Longrightarrow> digit_groups s"
  by (induction s rule: digit_groups.induct) (auto simp: is_digit_def)

lemma py_int_digits:
  assumes "s \<noteq> []" and "\<forall>c \<in> set s. is_digit c"
  shows "py_int s = Some (digits_val s)"
proof -
  have st: "strip s = s" using assms(2) by (intro strip_id_all) (auto dest: is_digit_not_space)
  obtain c cs where s: "s = c # cs" using assms(1) by (cases s) auto
  with assms(2) have "c \<noteq> CHR ''-''" "c \<noteq> CHR ''+''" by (auto simp: is_digit_def)
  moreover have "filter (\<lambda>c. c \<noteq> CHR ''_'') s = s" using assms(2) by (intro filter_True) (auto simp: is_digit_def)
  ultimately show ?thesis using digit_groups_all [OF assms] by (simp add: py_int_def st [unfolded s] s Let_def)
qed

lemma py_int_str_nat [simp]: "py_int (str_nat n) = Some (int n)"
  by (simp add: py_int_digits str_nat_digits)

lemma py_int_str_int: "0 \<le> n \<Longrightarrow> py_int (str_int n) = Some n"
  by (simp add: str_int_def)

lemma str_int_inject: "0 \<le> m \<Longrightarrow> 0 \<le> n \<Longrightarrow> str_int m = str_int n \<longleftrightarrow> m = n"
  by (simp add: str_int_def nat_eq_iff)

lemma zfill_digits: "\<forall>c \<in> set s. is_digit c \<Longrightarrow> \<forall>c \<in> set (zfill w s). is_digit c"
  by (auto simp: zfill_def is_digit_def)

lemma digits_val_zfill [simp]: "digits_val (zfill w s) = digits_val s"
  by (simp add: zfill_def)

lemma zfill_not_Nil [simp]: "s \<noteq> [] \<Longrightarrow> zfill w s \<noteq> []"
  by (simp add: zfill_def)

end
