(* ===== verification/Case_Numbering.thy ===== *)
theory Case_Numbering
  imports Case_Kind Numerals
begin

text \<open>
  Our-reference numbering (\<open>app/services/case/case_numbering.py\<close>): reference templates, the
  expressions that read the sequence number back out of stored references, and the reservation of
  the next number by compare-and-swap on \<open>system_config\<close>.

  The configuration is a record of texts, as its validator asks for; the table of references, the
  configuration table and today's date are arguments. Other sessions may write the counter between
  the \<open>SELECT\<close> and the \<open>UPDATE\<close> of a try: \<open>others\<close> is what they did, one function per try.
\<close>

section \<open>Templates\<close>

datatype part = Literal string | Token string "string option"

datatype numbering_error =
  TemplateRequired | InvalidBrace | UnknownToken string | SeqFormat | NoFormatSpec string | SeqCount
| Unsupported

definition is_ident_start :: "char \<Rightarrow> bool" where
  "is_ident_start c \<longleftrightarrow> (let n = (of_char c :: nat) in 65 \<le> n \<and> n \<le> 90 \<or> 97 \<le> n \<and> n \<le> 122 \<or> c = CHR ''_'')"

definition is_ident_char :: "char \<Rightarrow> bool" where
  "is_ident_char c \<longleftrightarrow> is_ident_start c \<or> is_digit c"

text \<open>\<open>_BRACED_TOKEN_RE\<close> at the start of a text: the name, the format, and the text after it.\<close>

definition match_braced :: "string \<Rightarrow> (string \<times> string option \<times> string) option" where
  "match_braced s =
     (case s of [] \<Rightarrow> None
      | c # cs \<Rightarrow>
          let name = takeWhile is_ident_char cs; rest = dropWhile is_ident_char cs in
          if c \<noteq> CHR ''{'' \<or> name = [] \<or> \<not> is_ident_start (hd name) then None
          else (case rest of [] \<Rightarrow> None
                | x # xs \<Rightarrow>
                    if x = CHR ''}'' then Some (name, None, xs)
                    else if x = CHR '':''
                    then (let fmt = takeWhile (\<lambda>d. d \<noteq> CHR ''}'') xs; after = dropWhile (\<lambda>d. d \<noteq> CHR ''}'') xs in
                          if fmt = [] \<or> after = [] then None else Some (name, Some fmt, tl after))
                    else None))"

lemma match_braced_shorter: "match_braced s = Some (n, f, r) \<Longrightarrow> length r < length s"
proof -
  have drop: "length (dropWhile p xs) \<le> length xs" for p :: "char \<Rightarrow> bool" and xs by (rule length_dropWhile_le)
  assume "match_braced s = Some (n, f, r)"
  then obtain c cs x xs where s: "s = c # cs" and rest: "dropWhile is_ident_char cs = x # xs"
    and r: "r = xs \<or> r = tl (dropWhile (\<lambda>d. d \<noteq> CHR ''}'') xs)"
    by (auto simp: match_braced_def Let_def split: list.splits if_splits)
  have "length r \<le> length xs" using r drop [of "\<lambda>d. d \<noteq> CHR ''}''" xs] by auto
  moreover have "Suc (length xs) \<le> length cs" using drop [of is_ident_char cs] by (simp add: rest)
  ultimately show ?thesis by (simp add: s)
qed

text \<open>\<open>finditer\<close>: the tokens with the literal before each, and the tail.\<close>

function braced_tokens :: "string \<Rightarrow> string \<Rightarrow> (string \<times> string \<times> string option) list \<times> string" where
  "braced_tokens lit s =
     (case s of [] \<Rightarrow> ([], rev lit)
      | c # cs \<Rightarrow>
          (case match_braced s of
             Some (n, f, r) \<Rightarrow> (case braced_tokens [] r of (ts, tail) \<Rightarrow> ((rev lit, n, f) # ts, tail))
           | None \<Rightarrow> braced_tokens (c # lit) cs))"
  by pat_completeness auto
termination
  by (relation "measure (\<lambda>(lit, s). length s)") (auto dest: match_braced_shorter)

declare braced_tokens.simps [simp del]

text \<open>Bare date tokens in a literal: \<open>YYYY|YY|MM|DD\<close>, ignoring case.\<close>

function literal_parts :: "string \<Rightarrow> string \<Rightarrow> part list" where
  "literal_parts lit s =
     (let flush = (if lit = [] then [] else [Literal (rev lit)]) in
      case s of [] \<Rightarrow> flush
      | c # cs \<Rightarrow>
          if upper (take 4 s) = ''YYYY'' then flush @ Token (lower (take 4 s)) None # literal_parts [] (drop 4 s)
          else if upper (take 2 s) \<in> set [''YY'', ''MM'', ''DD'']
          then flush @ Token (lower (take 2 s)) None # literal_parts [] (drop 2 s)
          else literal_parts (c # lit) cs)"
  by pat_completeness auto
termination
  by (relation "measure (\<lambda>(lit, s). length s)") auto

declare literal_parts.simps [simp del]

definition ALLOWED_BRACED_TOKENS :: "string list" where
  "ALLOWED_BRACED_TOKENS = [''code'', ''country'', ''seq'', ''yyyy'', ''yy'', ''mm'', ''dd'']"

definition all_digits :: "string \<Rightarrow> bool" where
  "all_digits s \<longleftrightarrow> (\<forall>c \<in> set s. is_digit c)"

text \<open>\<open>^(?:0+\d*|0?\d{1,2}d|d)$\<close>.\<close>

definition seq_format_ok :: "string \<Rightarrow> bool" where
  "seq_format_ok f \<longleftrightarrow>
     (f \<noteq> [] \<and> hd f = CHR ''0'' \<and> all_digits f)
     \<or> (f \<noteq> [] \<and> last f = CHR ''d'' \<and> all_digits (butlast f)
        \<and> (length (butlast f) \<le> 2 \<or> length (butlast f) = 3 \<and> hd f = CHR ''0''))"

definition has_brace :: "string \<Rightarrow> bool" where
  "has_brace s \<longleftrightarrow> CHR ''{'' \<in> set s \<or> CHR ''}'' \<in> set s"

definition clean_format :: "string option \<Rightarrow> string option" where
  "clean_format f = or_none (strip (or_empty f))"

text \<open>The loop over the tokens, with the parts and the number of \<open>seq\<close> tokens so far.\<close>

fun template_parts ::
  "(string \<times> string \<times> string option) list \<Rightarrow> part list \<Rightarrow> nat \<Rightarrow> numbering_error + part list \<times> nat"
where
  "template_parts [] ps k = Inr (ps, k)"
| "template_parts ((lit, name, f) # ts) ps k =
     (if has_brace lit then Inl InvalidBrace
      else
        let ps1 = ps @ (if lit = [] then [] else literal_parts [] lit);
            tok = lower (strip name); spec = clean_format f in
        if tok \<notin> set ALLOWED_BRACED_TOKENS then Inl (UnknownToken tok)
        else if tok = ''seq''
        then (if (case spec of None \<Rightarrow> False | Some x \<Rightarrow> \<not> seq_format_ok x) then Inl SeqFormat
              else template_parts ts (ps1 @ [Token tok spec]) (Suc k))
        else if spec \<noteq> None then Inl (NoFormatSpec tok)
        else template_parts ts (ps1 @ [Token tok spec]) k)"

definition parse_ref_template :: "string option \<Rightarrow> numbering_error + part list" where
  "parse_ref_template template =
     (let raw = strip (or_empty template) in
      if raw = [] then Inl TemplateRequired
      else case braced_tokens [] raw of (ts, tail) \<Rightarrow>
        (case template_parts ts [] 0 of
           Inl err \<Rightarrow> Inl err
         | Inr (ps, k) \<Rightarrow>
             if has_brace tail then Inl InvalidBrace
             else if k \<noteq> 1 then Inl SeqCount
             else Inr (ps @ (if tail = [] then [] else literal_parts [] tail))))"

section \<open>Rendering\<close>

type_synonym token_values = "(string \<times> string) list"

definition format_seq :: "nat \<Rightarrow> string option \<Rightarrow> string" where
  "format_seq n spec =
     (case spec of None \<Rightarrow> zfill 4 (str_nat n)
      | Some f \<Rightarrow>
          if f \<noteq> [] \<and> (\<forall>c \<in> set f. c = CHR ''0'') then zfill (length f) (str_nat n)
          else let w = (if last f = CHR ''d'' then butlast f else f) in
            if w \<noteq> [] \<and> hd w = CHR ''0'' then zfill (nat (digits_val w)) (str_nat n)
            else rjust (nat (digits_val w)) (str_nat n))"

definition token_value :: "string \<Rightarrow> token_values \<Rightarrow> string" where
  "token_value tok vs = or_empty (map_of vs tok)"

fun render_part :: "token_values \<Rightarrow> nat \<Rightarrow> part \<Rightarrow> string" where
  "render_part vs n (Literal s) = s"
| "render_part vs n (Token tok spec) = (if tok = ''seq'' then format_seq n spec else token_value tok vs)"

definition render_template :: "part list \<Rightarrow> token_values \<Rightarrow> nat \<Rightarrow> string" where
  "render_template ps vs n = upper (concat (map (render_part vs n) ps))"

section \<open>Reading references back\<close>

datatype pat = PText string | PNum | PCountry

fun compile_part :: "token_values \<Rightarrow> bool \<Rightarrow> part \<Rightarrow> pat" where
  "compile_part vs wild (Literal s) = PText s"
| "compile_part vs wild (Token tok spec) =
     (if tok = ''seq'' then PNum else if tok = ''country'' \<and> wild then PCountry else PText (token_value tok vs))"

text \<open>The literal prefix: everything before the number, up to a wildcard.\<close>

fun literal_prefix :: "pat list \<Rightarrow> string" where
  "literal_prefix [] = []"
| "literal_prefix (PText s # ps) = s @ literal_prefix ps"
| "literal_prefix (p # ps) = []"

definition compile_template_pattern :: "part list \<Rightarrow> token_values \<Rightarrow> bool \<Rightarrow> string \<times> pat list" where
  "compile_template_pattern ps vs wild =
     (let pats = map (compile_part vs wild) ps in (upper (literal_prefix pats), pats))"

text \<open>Greedy matching with backtracking: the longest candidate length first.\<close>

primrec first_match :: "(nat \<Rightarrow> 'a option) \<Rightarrow> nat \<Rightarrow> 'a option" where
  "first_match f 0 = None"
| "first_match f (Suc n) = (case f (Suc n) of Some x \<Rightarrow> Some x | None \<Rightarrow> first_match f n)"

definition is_alnum :: "char \<Rightarrow> bool" where
  "is_alnum c \<longleftrightarrow> is_digit c \<or> (let n = (of_char (upper_char c) :: nat) in 65 \<le> n \<and> n \<le> 90)"

text \<open>The text of the group \<open>num\<close> when the whole text matches, ignoring case.\<close>

primrec pmatch :: "pat list \<Rightarrow> string \<Rightarrow> string \<Rightarrow> string option" where
  "pmatch [] s num = (if s = [] then Some num else None)"
| "pmatch (p # ps) s num =
     (case p of
        PText t \<Rightarrow> if length t \<le> length s \<and> upper (take (length t) s) = upper t then pmatch ps (drop (length t) s) num else None
      | PNum \<Rightarrow> first_match (\<lambda>k. pmatch ps (drop k s) (take k s)) (length (takeWhile is_digit s))
      | PCountry \<Rightarrow> first_match (\<lambda>k. pmatch ps (drop k s) num) (min 8 (length (takeWhile is_alnum s))))"

definition ref_number :: "pat list \<Rightarrow> string \<Rightarrow> int option" where
  "ref_number pats ref = (case pmatch pats (strip ref) [] of None \<Rightarrow> None | Some num \<Rightarrow> py_int num)"

definition compute_max_our_ref_seq_from_refs :: "string option list \<Rightarrow> pat list \<Rightarrow> int" where
  "compute_max_our_ref_seq_from_refs refs pats =
     fold (\<lambda>r m. case r of None \<Rightarrow> m
        | Some s \<Rightarrow> if s = [] then m else (case ref_number pats s of None \<Rightarrow> m | Some n \<Rightarrow> max m n)) refs 0"

definition compute_max_our_ref_seq :: "string \<Rightarrow> pat list \<Rightarrow> string option list \<Rightarrow> int" where
  "compute_max_our_ref_seq pre pats refs =
     compute_max_our_ref_seq_from_refs
       (if pre = [] then refs
        else filter (\<lambda>r. case r of None \<Rightarrow> False | Some s \<Rightarrow> sql_like (pre @ ''%'') s) refs) pats"

section \<open>Reserving a number\<close>

type_synonym config_table = "string \<Rightarrow> string option"

text \<open>\<open>while exists_fn(next_seq): next_seq += 1\<close>, with the number of further steps it may take.\<close>

fun next_free :: "nat \<Rightarrow> (int \<Rightarrow> bool) \<Rightarrow> int \<Rightarrow> int option" where
  "next_free 0 taken n = (if taken n then None else Some n)"
| "next_free (Suc k) taken n = (if taken n then next_free k taken (n + 1) else Some n)"

definition counter_value :: "string option \<Rightarrow> int" where
  "counter_value row =
     (case row of None \<Rightarrow> 0 | Some v \<Rightarrow> if v = [] then 0 else (case py_int v of None \<Rightarrow> 0 | Some n \<Rightarrow> n))"

definition counter_text :: "string option \<Rightarrow> string" where
  "counter_text row = (case row of None \<Rightarrow> ''0'' | Some v \<Rightarrow> if v = [] then ''0'' else v)"

text \<open>The statements of a reservation: the INSERT that leaves an existing counter alone; the SELECT with the search
  for a free number from the value it read; the UPDATE, which writes only when the counter still has the value that
  was read, and says whether it did.\<close>

definition reserve_insert :: "string \<Rightarrow> int \<Rightarrow> config_table \<Rightarrow> config_table" where
  "reserve_insert key max_seq c = (case c key of None \<Rightarrow> c(key \<mapsto> str_int max_seq) | Some v \<Rightarrow> c)"

definition reserve_read :: "nat \<Rightarrow> int \<Rightarrow> (int \<Rightarrow> bool) \<Rightarrow> string option \<Rightarrow> int option" where
  "reserve_read fuel max_seq taken row =
     (let current = counter_value row in next_free fuel taken ((if current < max_seq then max_seq else current) + 1))"

definition reserve_update :: "string \<Rightarrow> string option \<Rightarrow> int \<Rightarrow> config_table \<Rightarrow> bool \<times> config_table" where
  "reserve_update key row n c = (if c key = Some (counter_text row) then (True, c(key \<mapsto> str_int n)) else (False, c))"

text \<open>One try per element of \<open>others\<close>, which is what the other sessions write between the SELECT and the UPDATE
  of the try; \<open>None\<close> is a search that does not end.\<close>

fun reserve_tries ::
  "nat \<Rightarrow> string \<Rightarrow> int \<Rightarrow> (int \<Rightarrow> bool) \<Rightarrow> (config_table \<Rightarrow> config_table) list \<Rightarrow> config_table
    \<Rightarrow> (int option \<times> config_table) option"
where
  "reserve_tries fuel key max_seq taken [] c = Some (None, c)"
| "reserve_tries fuel key max_seq taken (w # ws) c =
     (case reserve_read fuel max_seq taken (c key) of None \<Rightarrow> None
      | Some n \<Rightarrow>
          (case reserve_update key (c key) n (w c) of (updated, c1) \<Rightarrow>
             if updated then Some (Some n, c1) else reserve_tries fuel key max_seq taken ws c1))"

definition reserve_next_seq ::
  "nat \<Rightarrow> string \<Rightarrow> int \<Rightarrow> (int \<Rightarrow> bool) \<Rightarrow> (config_table \<Rightarrow> config_table) list \<Rightarrow> bool \<Rightarrow> config_table
    \<Rightarrow> (int option \<times> config_table) option"
where
  "reserve_next_seq fuel key max_seq taken others db_fails c =
     (if db_fails then Some (None, c)
      else reserve_tries fuel key max_seq taken (take 6 others) (reserve_insert key max_seq c))"

section \<open>Schemes\<close>

record our_ref_scheme =
  scheme_prefix :: string
  scheme_pattern :: "pat list"
  counter_key :: string
  build :: "nat \<Rightarrow> string"
  sequence_pattern :: "pat list option"

definition date_values :: "date \<Rightarrow> token_values" where
  "date_values d = [(''yyyy'', pad4 (year d)), (''yy'', pad2 (year d mod 100)), (''mm'', pad2 (month d)), (''dd'', pad2 (day d))]"

definition build_template_our_ref_scheme ::
  "date \<Rightarrow> string \<Rightarrow> string \<Rightarrow> string \<Rightarrow> string \<Rightarrow> bool \<Rightarrow> numbering_error + our_ref_scheme"
where
  "build_template_our_ref_scheme today template code country scope wild =
     (let vs = date_values today @ [(''code'', code), (''country'', country)] in
      case parse_ref_template (Some template) of
        Inl err \<Rightarrow> Inl err
      | Inr ps \<Rightarrow>
          let (exact_prefix, exact) = compile_template_pattern ps vs False;
              (seq_prefix, seq) = compile_template_pattern ps vs wild;
              pre = (if seq_prefix \<noteq> [] then seq_prefix else exact_prefix);
              key0 = ''our_ref_counter:'' @ (if pre \<noteq> [] then pre else ''global'');
              key = (if scope = ''country'' \<and> country \<noteq> [] then key0 @ '':'' @ country else key0)
          in Inr \<lparr>scheme_prefix = pre, scheme_pattern = exact, counter_key = key, build = render_template ps vs,
                  sequence_pattern = (if wild then Some seq else None)\<rparr>)"

record our_ref_rule =
  rule_code :: string
  rule_country :: string
  rule_template :: string
  rule_scope :: string
  rule_wildcard :: bool

definition US_DEFAULT_CODE_MAP :: "((string \<times> string) \<times> string) list" where
  "US_DEFAULT_CODE_MAP =
     [((''DOM'', ''PATENT''), ''P''), ((''DOM'', ''UTILITY''), ''U''), ((''DOM'', ''DESIGN''), ''D''),
      ((''DOM'', ''TRADEMARK''), ''T''), ((''INC'', ''PATENT''), ''IP''), ((''INC'', ''UTILITY''), ''IU''),
      ((''INC'', ''DESIGN''), ''ID''), ((''INC'', ''TRADEMARK''), ''IT''), ((''OUT'', ''PATENT''), ''FP''),
      ((''OUT'', ''UTILITY''), ''FU''), ((''OUT'', ''DESIGN''), ''FD''), ((''OUT'', ''TRADEMARK''), ''FT'')]"

definition normal_rule_config :: "string \<Rightarrow> string \<Rightarrow> string \<Rightarrow> numbering_error + our_ref_rule" where
  "normal_rule_config dv ty country =
     (case map_of US_DEFAULT_CODE_MAP (resolve_profile_case_kind (Some dv) (Some ty)) of
        None \<Rightarrow> Inl Unsupported
      | Some code \<Rightarrow>
          Inr \<lparr>rule_code = code, rule_country = (if country \<noteq> [] then country else ''US''),
               rule_template = ''{country}{code}YY{seq:0000}'', rule_scope = ''country'', rule_wildcard = False\<rparr>)"

definition special_rule :: "string \<Rightarrow> string \<Rightarrow> string \<Rightarrow> our_ref_rule" where
  "special_rule code country scope =
     \<lparr>rule_code = code, rule_country = country, rule_template = ''{code}YY{seq:0000}'', rule_scope = scope, rule_wildcard = False\<rparr>"

definition default_rule_config ::
  "string \<Rightarrow> string \<Rightarrow> string \<Rightarrow> numbering_error + string \<times> string \<times> our_ref_rule"
where
  "default_rule_config dv ty country =
     (if ty = ''PCT'' then Inr (dv, ty, special_rule ''PCT'' ''PCT'' ''country'')
      else if ty = ''MADRID'' then Inr (dv, ty, special_rule ''MAD'' [] ''prefix'')
      else if ty = ''HAGUE'' then Inr (dv, ty, special_rule ''HAG'' [] ''prefix'')
      else if ty = ''LITIGATION'' then Inr (dv, ty, special_rule ''L'' [] ''prefix'')
      else if ty = ''COPYRIGHT'' then Inr (dv, ty, special_rule ''CR'' [] ''prefix'')
      else if ty = ''MISC'' then Inr (dv, ty, special_rule ''M'' [] ''prefix'')
      else case resolve_profile_case_kind (Some dv) (Some ty) of
        (d, t) \<Rightarrow> (case normal_rule_config d t country of Inl err \<Rightarrow> Inl err | Inr r \<Rightarrow> Inr (d, t, r)))"

section \<open>The configuration\<close>

datatype flag = FlagBool bool | FlagText string

record rule_cfg =
  cfg_code :: "string option"
  cfg_country :: "string option"
  cfg_template :: "string option"
  cfg_scope :: "string option"
  cfg_wildcard :: "flag option"

record numbering_cfg =
  top_template :: "string option"
  top_codes :: "(string \<times> string) list"
  top_rules :: "(string \<times> rule_cfg) list"
  top_scope :: "string option"
  top_wildcard :: "flag option"

definition no_rule :: rule_cfg where
  "no_rule = \<lparr>cfg_code = None, cfg_country = None, cfg_template = None, cfg_scope = None, cfg_wildcard = None\<rparr>"

definition coerce_bool :: "flag \<Rightarrow> bool \<Rightarrow> bool" where
  "coerce_bool v dflt =
     (case v of FlagBool b \<Rightarrow> b
      | FlagText s \<Rightarrow>
          let raw = lower (strip s) in
          if raw \<in> set [''1'', ''true'', ''yes'', ''y'', ''on''] then True
          else if raw \<in> set [''0'', ''false'', ''no'', ''n'', ''off''] then False else dflt)"

definition is_code_char :: "char \<Rightarrow> bool" where
  "is_code_char c \<longleftrightarrow> is_digit c \<or> (let n = (of_char c :: nat) in 65 \<le> n \<and> n \<le> 90)"

definition clean_code :: "string option \<Rightarrow> string" where
  "clean_code value =
     (let raw = upper (strip (or_empty value)) in
      if raw \<noteq> [] \<and> length raw \<le> 12 \<and> (\<forall>c \<in> set raw. is_code_char c) then raw else [])"

definition clean_country :: "string option \<Rightarrow> string \<Rightarrow> string" where
  "clean_country value dflt =
     (let raw = upper (strip (or_empty value)) in
      if raw \<noteq> [] \<and> length raw \<le> 8 \<and> (\<forall>c \<in> set raw. is_code_char c) then raw else dflt)"

definition normalize_counter_scope :: "string option \<Rightarrow> string \<Rightarrow> string" where
  "normalize_counter_scope value dflt =
     (let raw = lower (strip (or_empty value)) in if raw \<in> set [''prefix'', ''country''] then raw else dflt)"

definition rule_candidates :: "string \<Rightarrow> string \<Rightarrow> string list" where
  "rule_candidates dv ty =
     (if dv \<noteq> [] \<and> ty \<noteq> [] then [dv @ '':'' @ ty] else []) @ (if ty \<noteq> [] then [ty] else []) @ [''*'']"

definition select_rule_config :: "numbering_cfg \<Rightarrow> string \<Rightarrow> string \<Rightarrow> rule_cfg" where
  "select_rule_config cfg dv ty =
     (case List.map_filter (map_of (top_rules cfg)) (rule_candidates dv ty) of [] \<Rightarrow> no_rule | r # rs \<Rightarrow> r)"

definition configured_code :: "numbering_cfg \<Rightarrow> rule_cfg \<Rightarrow> string \<Rightarrow> string \<Rightarrow> string \<Rightarrow> string" where
  "configured_code cfg rule dv ty dflt =
     (if clean_code (cfg_code rule) \<noteq> [] then clean_code (cfg_code rule)
      else case filter (\<lambda>c. c \<noteq> []) (map (\<lambda>k. clean_code (map_of (top_codes cfg) k)) (rule_candidates dv ty)) of
        [] \<Rightarrow> dflt | c # cs \<Rightarrow> c)"

definition SPECIAL_OUR_REF_TYPES :: "string list" where
  "SPECIAL_OUR_REF_TYPES = [''PCT'', ''MADRID'', ''HAGUE'', ''COPYRIGHT'', ''LITIGATION'', ''MISC'']"

definition first_text :: "string option list \<Rightarrow> string" where
  "first_text vs = (case filter (\<lambda>s. s \<noteq> []) (map or_empty vs) of [] \<Rightarrow> [] | s # ss \<Rightarrow> s)"

definition build_our_ref_scheme ::
  "date \<Rightarrow> numbering_cfg \<Rightarrow> string option \<Rightarrow> string option \<Rightarrow> string option \<Rightarrow> numbering_error + our_ref_scheme"
where
  "build_our_ref_scheme today cfg division matter_type country =
     (let ctry = clean_country country [] in
      case default_rule_config (upper (strip (or_empty division))) (upper (strip (or_empty matter_type))) ctry of
        Inl err \<Rightarrow> Inl err
      | Inr (dv, ty, dflt) \<Rightarrow>
          let rule = select_rule_config cfg dv ty;
              code = configured_code cfg rule dv ty (rule_code dflt);
              country_value = (if ctry \<noteq> [] then ctry else clean_country (cfg_country rule) (rule_country dflt));
              template = strip (if ty \<in> set SPECIAL_OUR_REF_TYPES
                                then first_text [cfg_template rule, Some (rule_template dflt)]
                                else first_text [cfg_template rule, top_template cfg, Some (rule_template dflt)]);
              scope = normalize_counter_scope (case cfg_scope rule of Some v \<Rightarrow> Some v | None \<Rightarrow> top_scope cfg) (rule_scope dflt);
              wild1 = (case top_wildcard cfg of None \<Rightarrow> rule_wildcard dflt | Some v \<Rightarrow> coerce_bool v (rule_wildcard dflt));
              wild2 = (case cfg_wildcard rule of None \<Rightarrow> wild1 | Some v \<Rightarrow> coerce_bool v wild1)
          in build_template_our_ref_scheme today template code country_value scope wild2)"

definition generate_next_our_ref ::
  "date \<Rightarrow> numbering_cfg \<Rightarrow> string option \<Rightarrow> string option \<Rightarrow> string option \<Rightarrow> bool \<Rightarrow> string option list
    \<Rightarrow> (config_table \<Rightarrow> config_table) list \<Rightarrow> bool \<Rightarrow> config_table \<Rightarrow> (numbering_error + string \<times> config_table) option"
where
  "generate_next_our_ref today cfg division matter_type country reserve refs others db_fails c =
     (case build_our_ref_scheme today cfg division matter_type country of
        Inl err \<Rightarrow> Some (Inl err)
      | Inr sch \<Rightarrow>
          let pats = (case sequence_pattern sch of Some p \<Rightarrow> p | None \<Rightarrow> scheme_pattern sch);
              max_num = compute_max_our_ref_seq (scheme_prefix sch) pats refs;
              plain = build sch (nat (max_num + 1)) in
          if \<not> reserve then Some (Inr (plain, c))
          else case reserve_next_seq (length refs) (counter_key sch) max_num
                      (\<lambda>n. Some (build sch (nat n)) \<in> set refs) others db_fails c of
            None \<Rightarrow> None
          | Some (Some n, c') \<Rightarrow> Some (Inr (build sch (nat n), c'))
          | Some (None, c') \<Rightarrow> Some (Inr (plain, c')))"

section \<open>Validation of a configuration\<close>

datatype config_issue = BadTemplate string numbering_error | BadCode string | BadCountry string | BadScope string

definition scope_ok :: "string \<Rightarrow> bool" where
  "scope_ok v \<longleftrightarrow> lower (strip v) \<in> set [''prefix'', ''country'']"

definition template_issue :: "string \<Rightarrow> string option \<Rightarrow> config_issue list" where
  "template_issue path v =
     (case v of None \<Rightarrow> [] | Some t \<Rightarrow> (case parse_ref_template (Some t) of Inl err \<Rightarrow> [BadTemplate path err] | Inr ps \<Rightarrow> []))"

definition rule_issues :: "string \<times> rule_cfg \<Rightarrow> config_issue list" where
  "rule_issues kr =
     (case kr of (k, r) \<Rightarrow>
        template_issue (''rules.'' @ k @ ''.template'') (cfg_template r)
        @ (if cfg_code r \<noteq> None \<and> clean_code (cfg_code r) = [] then [BadCode (''rules.'' @ k @ ''.code'')] else [])
        @ (if cfg_country r \<noteq> None \<and> clean_country (cfg_country r) [] = [] then [BadCountry (''rules.'' @ k @ ''.country'')] else [])
        @ (case cfg_scope r of None \<Rightarrow> [] | Some v \<Rightarrow> if scope_ok v then [] else [BadScope (''rules.'' @ k @ ''.counter_scope'')]))"

definition validate_our_ref_numbering_config :: "numbering_cfg \<Rightarrow> config_issue list" where
  "validate_our_ref_numbering_config cfg =
     template_issue ''template'' (top_template cfg)
     @ concat (map (\<lambda>(k, c). if clean_code (Some c) = [] then [BadCode (''codes.'' @ k)] else []) (top_codes cfg))
     @ (case top_scope cfg of None \<Rightarrow> [] | Some v \<Rightarrow> if scope_ok v then [] else [BadScope ''counter_scope''])
     @ concat (map rule_issues (top_rules cfg))"

section \<open>Parsed templates\<close>

lemma of_upper_char: "(of_char (upper_char c) :: nat) =
    (if 97 \<le> (of_char c :: nat) \<and> (of_char c :: nat) \<le> 122 then of_char c - 32 else of_char c)"
proof -
  have "(of_char c :: nat) - 32 < 256" using nat_of_char_less_256 [of c] by linarith
  then show ?thesis by (simp add: upper_char_def Let_def)
qed

lemma upper_char_idem [simp]: "upper_char (upper_char c) = upper_char c"
  by (subst (1) upper_char_def) (auto simp: of_upper_char Let_def)

lemma lower_upper_char: "lower_char (upper_char c) = lower_char c"
  by (auto simp: lower_char_def of_upper_char Let_def) (simp_all add: upper_char_def Let_def)

lemma upper_idem [simp]: "upper (upper s) = upper s"
  by (simp add: upper_def)

lemma lower_upper: "lower (upper s) = lower s"
  by (simp add: lower_def upper_def lower_upper_char)

lemma length_upper [simp]: "length (upper s) = length s"
  by (simp add: upper_def)

lemma upper_append: "upper (a @ b) = upper a @ upper b"
  by (simp add: upper_def)

lemma upper_digits: "\<forall>c \<in> set s. is_digit c \<or> c = CHR '' '' \<Longrightarrow> upper s = s"
  by (auto simp: upper_def upper_char_def is_digit_def Let_def intro!: map_idI)

fun part_ok :: "part \<Rightarrow> bool" where
  "part_ok (Literal s) = (s \<noteq> [] \<and> \<not> has_brace s)"
| "part_ok (Token t spec) = (t \<in> set ALLOWED_BRACED_TOKENS
     \<and> (case spec of None \<Rightarrow> True | Some f \<Rightarrow> t = ''seq'' \<and> seq_format_ok f))"

fun is_seq :: "part \<Rightarrow> bool" where
  "is_seq (Literal s) = False"
| "is_seq (Token t spec) = (t = ''seq'')"

lemma date_token_names:
  "upper s \<in> set [''YYYY'', ''YY'', ''MM'', ''DD''] \<Longrightarrow> lower s \<in> set [''yyyy'', ''yy'', ''mm'', ''dd'']"
proof -
  assume "upper s \<in> set [''YYYY'', ''YY'', ''MM'', ''DD'']"
  then have "lower (upper s) \<in> lower ` set [''YYYY'', ''YY'', ''MM'', ''DD'']" by (rule imageI)
  moreover have "lower ` set [''YYYY'', ''YY'', ''MM'', ''DD''] = set [''yyyy'', ''yy'', ''mm'', ''dd'']"
    by code_simp
  ultimately show ?thesis unfolding lower_upper by (rule subst [rotated])
qed

lemma literal_parts_ok:
  "\<not> has_brace lit \<Longrightarrow> \<not> has_brace s \<Longrightarrow> p \<in> set (literal_parts lit s) \<Longrightarrow> part_ok p \<and> \<not> is_seq p"
proof (induction lit s arbitrary: p rule: literal_parts.induct)
  case (1 lit s)
  show ?case
  proof (cases s)
    case Nil
    with 1(4,5,6) show ?thesis by (auto simp: literal_parts.simps [of lit] has_brace_def split: if_splits)
  next
    case (Cons c cs)
    have braces: "\<not> has_brace (drop 4 s)" "\<not> has_brace (drop 2 s)" "\<not> has_brace (c # lit)" "\<not> has_brace cs" "\<not> has_brace []"
      using 1(4,5) Cons by (auto simp: has_brace_def dest: in_set_dropD)
    have lit_ok: "part_ok (Literal (rev lit))" if "lit \<noteq> []" using that 1(4) by (simp add: has_brace_def)
    have tok_ok: "part_ok (Token (lower u) None) \<and> \<not> is_seq (Token (lower u) None)"
      if "upper u \<in> set [''YYYY'', ''YY'', ''MM'', ''DD'']" for u
      using date_token_names [OF that] by (auto simp: ALLOWED_BRACED_TOKENS_def)
    consider (y) "upper (take 4 s) = ''YYYY''" | (d) "upper (take 4 s) \<noteq> ''YYYY''" "upper (take 2 s) \<in> set [''YY'', ''MM'', ''DD'']"
      | (n) "upper (take 4 s) \<noteq> ''YYYY''" "upper (take 2 s) \<notin> set [''YY'', ''MM'', ''DD'']" by blast
    then show ?thesis
    proof cases
      case y
      have IH: "p \<in> set (literal_parts [] (drop 4 s)) \<Longrightarrow> part_ok p \<and> \<not> is_seq p"
        using "1.IH"(1) [OF refl Cons y] braces by blast
      have "p \<in> set (if lit = [] then [] else [Literal (rev lit)]) \<or> p = Token (lower (take 4 s)) None
          \<or> p \<in> set (literal_parts [] (drop 4 s))"
        using 1(6) y by (subst (asm) literal_parts.simps) (auto simp: Cons Let_def)
      then show ?thesis using IH lit_ok tok_ok [of "take 4 s"] y by (auto split: if_splits)
    next
      case d
      have IH: "p \<in> set (literal_parts [] (drop 2 s)) \<Longrightarrow> part_ok p \<and> \<not> is_seq p"
        using "1.IH"(2) [OF refl Cons d] braces by blast
      have "p \<in> set (if lit = [] then [] else [Literal (rev lit)]) \<or> p = Token (lower (take 2 s)) None
          \<or> p \<in> set (literal_parts [] (drop 2 s))"
        using 1(6) d by (subst (asm) literal_parts.simps) (auto simp: Cons Let_def)
      then show ?thesis using IH lit_ok tok_ok [of "take 2 s"] d by (auto split: if_splits)
    next
      case n
      have "p \<in> set (literal_parts (c # lit) cs)"
        using 1(6) n by (subst (asm) literal_parts.simps) (simp add: Cons Let_def)
      with "1.IH"(3) [OF refl Cons n] braces show ?thesis by blast
    qed
  qed
qed

lemma template_parts_ok:
  "template_parts ts ps k = Inr (ps', k') \<Longrightarrow> list_all part_ok ps \<Longrightarrow> length (filter is_seq ps) = k
    \<Longrightarrow> list_all part_ok ps' \<and> length (filter is_seq ps') = k'"
proof (induction ts ps k arbitrary: ps' k' rule: template_parts.induct)
  case (2 lit name f ts ps k)
  let ?new = "if lit = [] then [] else literal_parts [] lit"
  let ?tok = "lower (strip name)"
  from 2(3) have nb: "\<not> has_brace lit" by (auto split: if_splits)
  then have new: "list_all part_ok ?new" "filter is_seq ?new = []"
    using literal_parts_ok [of "[]" lit] by (auto simp: has_brace_def list_all_iff filter_empty_conv)
  from 2(3) nb have tok: "?tok \<in> set ALLOWED_BRACED_TOKENS" by (auto simp: Let_def split: if_splits)
  show ?case
  proof (cases "?tok = ''seq''")
    case True
    with 2(3) nb tok have rec: "template_parts ts ((ps @ ?new) @ [Token ?tok (clean_format f)]) (Suc k) = Inr (ps', k')"
      and spec: "case clean_format f of None \<Rightarrow> True | Some x \<Rightarrow> seq_format_ok x"
      by (auto simp: Let_def split: if_splits option.splits)
    have "list_all part_ok ((ps @ ?new) @ [Token ?tok (clean_format f)])"
      using 2(4) new tok True spec by (auto split: option.splits)
    moreover have "length (filter is_seq ((ps @ ?new) @ [Token ?tok (clean_format f)])) = Suc k" using 2(5) new True by simp
    moreover have "\<not> (case clean_format f of None \<Rightarrow> False | Some x \<Rightarrow> \<not> seq_format_ok x)" using spec by (auto split: option.splits)
    ultimately show ?thesis using 2(1) [OF nb refl refl refl _ True] rec tok by simp
  next
    case False
    with 2(3) nb tok have rec: "template_parts ts ((ps @ ?new) @ [Token ?tok (clean_format f)]) k = Inr (ps', k')"
      and spec: "clean_format f = None" by (auto simp: Let_def split: if_splits)
    have "list_all part_ok ((ps @ ?new) @ [Token ?tok (clean_format f)])" using 2(4) new tok spec by simp
    moreover have "length (filter is_seq ((ps @ ?new) @ [Token ?tok (clean_format f)])) = k" using 2(5) new False by simp
    ultimately show ?thesis using 2(2) [OF nb refl refl refl _ False] rec tok spec by simp
  qed
qed simp

lemma parsed_parts_ok:
  assumes "parse_ref_template t = Inr ps"
  shows "list_all part_ok ps" and "length (filter is_seq ps) = 1"
proof -
  from assms obtain ts tail ps0 where p: "template_parts ts [] 0 = Inr (ps0, 1)" "\<not> has_brace tail"
    and ps: "ps = ps0 @ (if tail = [] then [] else literal_parts [] tail)"
    by (auto simp: parse_ref_template_def Let_def split: if_splits sum.splits prod.splits)
  have new: "list_all part_ok (literal_parts [] tail)" "filter is_seq (literal_parts [] tail) = []"
    using literal_parts_ok [of "[]" tail] p(2) by (auto simp: has_brace_def list_all_iff filter_empty_conv)
  with template_parts_ok [OF p(1)] show "list_all part_ok ps" "length (filter is_seq ps) = 1" by (auto simp: ps)
qed

section \<open>Sequence numbers in references\<close>

text \<open>Formats that pad with zeros or not at all; \<open>4d\<close> and its like pad with blanks.\<close>

definition pads_with_zeros :: "string option \<Rightarrow> bool" where
  "pads_with_zeros spec = (case spec of None \<Rightarrow> True | Some f \<Rightarrow> f = ''d'' \<or> f \<noteq> [] \<and> hd f = CHR ''0'')"

lemma is_digit_0 [simp]: "is_digit (CHR ''0'')"
  by (simp add: is_digit_def)

lemma zfill_shape:
  "\<exists>z b. zfill w (str_nat n) = replicate b (CHR '' '') @ replicate z (CHR ''0'') @ str_nat n \<and> (P \<longrightarrow> b = 0)"
  unfolding zfill_def by (intro exI [of _ "w - length (str_nat n)"] exI [of _ "0 :: nat"]) simp

lemma dropWhile_replicate: "p x \<Longrightarrow> dropWhile p (replicate b x @ s) = dropWhile p s"
  by (induction b) auto

lemma format_seq_shape:
  "\<exists>z b. format_seq n spec = replicate b (CHR '' '') @ replicate z (CHR ''0'') @ str_nat n \<and> (pads_with_zeros spec \<longrightarrow> b = 0)"
proof (cases spec)
  case None
  then show ?thesis by (simp add: format_seq_def zfill_shape)
next
  case (Some f)
  let ?w = "if last f = CHR ''d'' then butlast f else f"
  consider (zeros) "f \<noteq> [] \<and> (\<forall>c \<in> set f. c = CHR ''0'')"
    | (zpad) "\<not> (f \<noteq> [] \<and> (\<forall>c \<in> set f. c = CHR ''0''))" "?w \<noteq> [] \<and> hd ?w = CHR ''0''"
    | (spad) "\<not> (f \<noteq> [] \<and> (\<forall>c \<in> set f. c = CHR ''0''))" "\<not> (?w \<noteq> [] \<and> hd ?w = CHR ''0'')" by blast
  then show ?thesis
  proof cases
    case zeros
    show ?thesis unfolding Some format_seq_def option.case if_P [OF zeros] by (rule zfill_shape)
  next
    case zpad
    show ?thesis
      unfolding Some format_seq_def option.case if_not_P [OF zpad(1)] Let_def if_P [OF zpad(2)] by (rule zfill_shape)
  next
    case spad
    have eq: "format_seq n spec = rjust (nat (digits_val ?w)) (str_nat n)"
      unfolding Some format_seq_def option.case if_not_P [OF spad(1)] Let_def if_not_P [OF spad(2)] ..
    have "nat (digits_val ?w) = 0" if "pads_with_zeros spec"
    proof -
      have "f = ''d''"
      proof (rule ccontr)
        assume nd: "f \<noteq> ''d''"
        with that have f: "f \<noteq> []" "hd f = CHR ''0''" by (auto simp: Some pads_with_zeros_def)
        with spad(2) have last: "last f = CHR ''d''" and e: "butlast f = [] \<or> hd (butlast f) \<noteq> CHR ''0''" by (auto split: if_splits)
        from f obtain cs where fc: "f = CHR ''0'' # cs" by (cases f) auto
        with last have "cs \<noteq> []" by auto
        with e fc show False by simp
      qed
      then show ?thesis by (simp add: digits_val_def)
    qed
    then show ?thesis unfolding eq rjust_def
      by (intro exI [of _ "0 :: nat"] exI [of _ "nat (digits_val ?w) - length (str_nat n)"]) simp
  qed
qed

lemma format_seq_upper [simp]: "upper (format_seq n spec) = format_seq n spec"
proof -
  obtain z b where "format_seq n spec = replicate b (CHR '' '') @ replicate z (CHR ''0'') @ str_nat n"
    using format_seq_shape by blast
  then show ?thesis by (intro upper_digits) (auto dest: str_nat_digits)
qed

lemma format_seq_number:
  "digits_val (dropWhile (\<lambda>c. c = CHR '' '') (format_seq n spec)) = int n"
proof -
  obtain z b where f: "format_seq n spec = replicate b (CHR '' '') @ replicate z (CHR ''0'') @ str_nat n"
    using format_seq_shape by blast
  let ?d = "replicate z (CHR ''0'') @ str_nat n"
  have "\<forall>c \<in> set ?d. c \<noteq> CHR '' ''" by (auto dest: str_nat_digits simp: is_digit_def)
  moreover have "?d \<noteq> []" by simp
  ultimately have "dropWhile (\<lambda>c. c = CHR '' '') ?d = ?d" by (cases ?d) auto
  then have "dropWhile (\<lambda>c. c = CHR '' '') (format_seq n spec) = ?d" by (simp add: f dropWhile_replicate)
  then show ?thesis by simp
qed

lemma format_seq_digits:
  assumes "pads_with_zeros spec"
  shows "format_seq n spec \<noteq> []" and "\<forall>c \<in> set (format_seq n spec). is_digit c" and "digits_val (format_seq n spec) = int n"
proof -
  obtain z where f: "format_seq n spec = replicate z (CHR ''0'') @ str_nat n"
    using format_seq_shape [of n spec] assms by force
  then show "format_seq n spec \<noteq> []" "digits_val (format_seq n spec) = int n" by simp_all
  show "\<forall>c \<in> set (format_seq n spec). is_digit c" by (auto simp: f dest: str_nat_digits)
qed

text \<open>A template with one \<open>seq\<close> token, around it.\<close>

lemma one_seq_split:
  assumes "length (filter is_seq ps) = 1"
  obtains a spec b where "ps = a @ Token ''seq'' spec # b" and "filter is_seq a = []" and "filter is_seq b = []"
proof -
  obtain x where x: "filter is_seq ps = [x]" using assms by (metis One_nat_def length_0_conv length_Suc_conv)
  from filter_eq_ConsD [OF x] obtain a b where ps: "ps = a @ x # b" "filter is_seq a = []" "filter is_seq b = []" "is_seq x"
    by (metis (no_types, lifting) filter_False)
  then obtain spec where "x = Token ''seq'' spec" by (cases x) auto
  with ps show thesis using that by simp
qed

lemma render_no_seq: "filter is_seq a = [] \<Longrightarrow> render_template a vs n = render_template a vs 0"
proof -
  assume "filter is_seq a = []"
  have same: "render_part vs n p = render_part vs 0 p" if "\<not> is_seq p" for p using that by (cases p) auto
  then have "\<forall>p \<in> set a. render_part vs n p = render_part vs 0 p"
    using \<open>filter is_seq a = []\<close> by (auto simp: filter_empty_conv)
  then show ?thesis by (simp add: render_template_def cong: map_cong)
qed

lemma render_append: "render_template (a @ b) vs n = render_template a vs n @ render_template b vs n"
  by (simp add: render_template_def upper_append)

lemma render_seq: "render_template (Token ''seq'' spec # b) vs n = format_seq n spec @ render_template b vs n"
  by (simp add: render_template_def upper_append)

lemma build_inject:
  assumes "length (filter is_seq ps) = 1"
  shows "render_template ps vs m = render_template ps vs n \<longleftrightarrow> m = n"
proof
  obtain a spec b where ps: "ps = a @ Token ''seq'' spec # b" "filter is_seq a = []" "filter is_seq b = []"
    using one_seq_split [OF assms] .
  have "render_template a vs m = render_template a vs n" "render_template b vs m = render_template b vs n"
    using ps(2,3) by (metis render_no_seq)+
  moreover assume "render_template ps vs m = render_template ps vs n"
  ultimately have "format_seq m spec = format_seq n spec" by (simp add: ps(1) render_append render_seq)
  then have "int m = int n" by (metis format_seq_number)
  then show "m = n" by simp
qed simp

section \<open>Reading a reference back\<close>

lemma pmatch_texts:
  assumes "filter is_seq a = []"
  shows "pmatch (map (compile_part vs False) a @ rest) (render_template a vs n @ s) num = pmatch rest s num"
  using assms
proof (induction a arbitrary: s)
  case (Cons p a)
  then have compile: "compile_part vs False p = PText (render_part vs n p)" by (cases p) auto
  have render: "render_template (p # a) vs n = upper (render_part vs n p) @ render_template a vs n"
    by (simp add: render_template_def upper_append)
  with Cons compile show ?case by (auto split: if_splits)
qed (simp add: render_template_def upper_def)

lemma pmatch_texts_length:
  assumes "filter is_seq a = []" and "pmatch (map (compile_part vs False) a) s num = Some x"
  shows "length s = length (render_template a vs n) \<and> x = num"
  using assms
proof (induction a arbitrary: s)
  case (Cons p a)
  then have compile: "compile_part vs False p = PText (render_part vs n p)" by (cases p) auto
  have "length (render_template (p # a) vs n) = length (render_part vs n p) + length (render_template a vs n)"
    by (simp add: render_template_def)
  moreover from Cons.prems compile have "length (render_part vs n p) \<le> length s"
      "pmatch (map (compile_part vs False) a) (drop (length (render_part vs n p)) s) num = Some x" by (auto split: if_splits)
  moreover have "filter is_seq a = []" using Cons.prems(1) by (auto split: if_splits)
  ultimately show ?case using Cons.IH [of "drop (length (render_part vs n p)) s"] by auto
qed (auto simp: render_template_def split: if_splits)

lemma first_match_unique:
  assumes "f k = Some x" and "1 \<le> k" and "k \<le> n" and "\<And>j y. j \<le> n \<Longrightarrow> f j = Some y \<Longrightarrow> j = k"
  shows "first_match f n = Some x"
  using assms(3,4)
proof (induction n)
  case (Suc n)
  show ?case
  proof (cases "k = Suc n")
    case False
    then have "f (Suc n) = None" using Suc.prems(2) [of "Suc n"] by (cases "f (Suc n)") auto
    with Suc False show ?thesis by simp
  next
    case True
    with assms(1) show ?thesis by simp
  qed
qed (use assms(2) in simp)

lemma pmatch_reference:
  assumes "length (filter is_seq ps) = 1" and "\<And>spec. Token ''seq'' spec \<in> set ps \<Longrightarrow> pads_with_zeros spec"
  shows "\<exists>d. pmatch (map (compile_part vs False) ps) (render_template ps vs n) [] = Some d
    \<and> d \<noteq> [] \<and> (\<forall>c \<in> set d. is_digit c) \<and> digits_val d = int n"
proof -
  obtain a spec b where ps: "ps = a @ Token ''seq'' spec # b" "filter is_seq a = []" "filter is_seq b = []"
    using one_seq_split [OF assms(1)] .
  let ?d = "format_seq n spec" and ?t = "render_template b vs n"
  let ?f = "\<lambda>k. pmatch (map (compile_part vs False) b) (drop k (?d @ ?t)) (take k (?d @ ?t))"
  note d = format_seq_digits [OF assms(2) [of spec], of n]
  have dd: "?d \<noteq> []" "\<forall>c \<in> set ?d. is_digit c" "digits_val ?d = int n" using d by (simp_all add: ps(1))
  have hit: "?f (length ?d) = Some ?d"
    using pmatch_texts [OF ps(3), of vs "[]" n "[]"] by simp
  have unique: "j = length ?d" if "?f j = Some y" and "j \<le> length (takeWhile is_digit (?d @ ?t))" for j y
  proof -
    have "j \<le> length (?d @ ?t)" using that(2) length_takeWhile_le le_trans by blast
    moreover have "length (drop j (?d @ ?t)) = length ?t" using pmatch_texts_length [OF ps(3) that(1)] by blast
    ultimately show ?thesis by simp
  qed
  have "length ?d \<le> length (takeWhile is_digit (?d @ ?t))" using dd(2) by (simp add: takeWhile_append2)
  moreover have "1 \<le> length ?d" using dd(1) by (cases ?d) auto
  ultimately have "first_match ?f (length (takeWhile is_digit (?d @ ?t))) = Some ?d"
    using hit unique by (intro first_match_unique [where f = ?f and k = "length ?d"]) blast+
  then have "pmatch (map (compile_part vs False) ps) (render_template ps vs n) [] = Some ?d"
    using pmatch_texts [OF ps(2), of vs "PNum # map (compile_part vs False) b" n "?d @ ?t" "[]"]
    by (simp add: ps(1) render_append render_seq)
  with dd show ?thesis by blast
qed

lemma scheme_shape:
  assumes "build_template_our_ref_scheme today template code country scope wild = Inr sch"
  obtains ps vs where "parse_ref_template (Some template) = Inr ps" and "length (filter is_seq ps) = 1"
    and "build sch = render_template ps vs" and "scheme_pattern sch = map (compile_part vs False) ps"
    and "sequence_pattern sch = None \<Longrightarrow> scheme_prefix sch = upper (literal_prefix (map (compile_part vs False) ps))"
proof -
  let ?vs = "date_values today @ [(''code'', code), (''country'', country)]"
  from assms obtain ps where ps: "parse_ref_template (Some template) = Inr ps"
    by (auto simp: build_template_our_ref_scheme_def Let_def split: sum.splits)
  show thesis
    by (rule that [OF ps parsed_parts_ok(2) [OF ps], of ?vs])
      (use assms ps in \<open>auto simp: build_template_our_ref_scheme_def compile_template_pattern_def Let_def split: if_splits\<close>)
qed

text \<open>C28: A generated reference is read back: under a template whose sequence number is padded with
  zeros or not at all, the expression compiled from the template matches the reference of every
  number and finds that number in it, whatever literals, codes and dates surround it.\<close>

theorem reference_reads_back:
  assumes "build_template_our_ref_scheme today template code country scope wild = Inr sch"
    and "parse_ref_template (Some template) = Inr ps" and "\<forall>spec. Token ''seq'' spec \<in> set ps \<longrightarrow> pads_with_zeros spec"
    and "strip (build sch n) = build sch n"
  shows "ref_number (scheme_pattern sch) (build sch n) = Some (int n)"
proof -
  obtain vs where sch: "build sch = render_template ps vs" "scheme_pattern sch = map (compile_part vs False) ps"
    and one: "length (filter is_seq ps) = 1"
    by (rule scheme_shape [OF assms(1)]) (use assms(2) in simp)
  from pmatch_reference [OF one, of vs n] assms(3) obtain d
    where "pmatch (scheme_pattern sch) (build sch n) [] = Some d" "d \<noteq> []" "\<forall>c \<in> set d. is_digit c" "digits_val d = int n"
    unfolding sch by blast
  then show ?thesis by (simp add: ref_number_def assms(4) py_int_digits)
qed

definition scheme_example :: "numbering_error + our_ref_scheme" where
  "scheme_example = build_template_our_ref_scheme (Date 2025 6 1) ''{country}{code}-YY{seq:0000}'' ''P'' ''US'' ''country'' False"

lemma scheme_example_parts:
  "parse_ref_template (Some ''{country}{code}-YY{seq:0000}'') =
     Inr [Token ''country'' None, Token ''code'' None, Literal ''-'', Token ''yy'' None, Token ''seq'' (Some ''0000'')]"
  by code_simp

theorem reference_reads_back_witness:
  "\<exists>sch. scheme_example = Inr sch \<and> build sch 42 = ''USP-250042'' \<and> ref_number (scheme_pattern sch) ''USP-250042'' = Some 42"
proof -
  have "\<not> isl scheme_example" by code_simp
  then obtain sch where sch: "scheme_example = Inr sch" by (metis isl_def obj_sumE)
  have "case scheme_example of Inl x \<Rightarrow> False | Inr s \<Rightarrow> build s 42 = ''USP-250042''" by code_simp
  then have b: "build sch 42 = ''USP-250042''" unfolding sch sum.case .
  have st: "strip ''USP-250042'' = ''USP-250042''" by code_simp
  have "ref_number (scheme_pattern sch) (build sch 42) = Some (int 42)"
    by (rule reference_reads_back [OF sch [unfolded scheme_example_def] scheme_example_parts])
      (auto simp: pads_with_zeros_def b st)
  then have r: "ref_number (scheme_pattern sch) ''USP-250042'' = Some 42" unfolding b of_nat_numeral .
  show ?thesis by (intro exI conjI) (rule sch b r)+
qed

section \<open>The search for a free number ends\<close>

lemma next_free_None: "next_free k taken n = None \<Longrightarrow> i \<le> k \<Longrightarrow> taken (n + int i)"
proof (induction k arbitrary: n i)
  case (Suc k)
  then have t: "taken n" "next_free k taken (n + 1) = None" by (auto split: if_splits)
  show ?case
  proof (cases i)
    case (Suc j)
    with Suc.IH [OF t(2), of j] Suc.prems(2) show ?thesis by (simp add: algebra_simps)
  qed (simp add: t)
qed (auto split: if_splits)

lemma next_free_Some: "next_free k taken n = Some m \<Longrightarrow> n \<le> m \<and> \<not> taken m"
  by (induction k taken n rule: next_free.induct) (force split: if_splits)+

lemma next_free_enough:
  assumes "0 \<le> start" and "\<And>m n. f m = f n \<Longrightarrow> m = (n :: nat)"
  shows "next_free (length refs) (\<lambda>n. Some (f (nat n)) \<in> set refs) start \<noteq> None"
proof
  assume none: "next_free (length refs) (\<lambda>n. Some (f (nat n)) \<in> set refs) start = None"
  let ?g = "\<lambda>i. Some (f (nat (start + int i)))"
  have "?g ` {..length refs} \<subseteq> set refs" using next_free_None [OF none] by auto
  moreover have "inj_on ?g {..length refs}" using assms by (auto intro!: inj_onI dest!: assms(2))
  ultimately have "card {..length refs} \<le> card (set refs)" by (metis List.finite_set card_inj_on_le)
  with card_length [of refs] show False by simp
qed

lemma reserve_tries_Some:
  assumes "\<And>start. 0 \<le> start \<Longrightarrow> next_free fuel taken start \<noteq> None" and "0 \<le> max_seq"
  shows "reserve_tries fuel key max_seq taken ws c \<noteq> None"
proof (induction ws arbitrary: c)
  case (Cons w ws)
  have "0 \<le> (if counter_value (c key) < max_seq then max_seq else counter_value (c key)) + 1" using assms(2) by auto
  then obtain n where "reserve_read fuel max_seq taken (c key) = Some n" using assms(1) unfolding reserve_read_def Let_def by blast
  with Cons show ?case by (simp split: prod.split)
qed simp

lemma max_seq_nonneg: "0 \<le> compute_max_our_ref_seq_from_refs refs pats"
proof -
  have "0 \<le> m \<Longrightarrow> 0 \<le> fold (\<lambda>r m. case r of None \<Rightarrow> m
        | Some s \<Rightarrow> if s = [] then m else (case ref_number pats s of None \<Rightarrow> m | Some n \<Rightarrow> max m n)) refs m" for m
    by (induction refs arbitrary: m) (auto split: option.splits)
  then show ?thesis by (simp add: compute_max_our_ref_seq_from_refs_def)
qed

lemma scheme_of_kind:
  assumes "build_our_ref_scheme today cfg division matter_type country = Inr sch"
  obtains template code ctry scope wild where "build_template_our_ref_scheme today template code ctry scope wild = Inr sch"
  using assms by (auto simp: build_our_ref_scheme_def Let_def split: sum.splits)

text \<open>C27: Generating the next reference always returns: the search for a number whose reference is
  not in use passes at most as many numbers as there are references, for every template, because
  different numbers give different references.\<close>

theorem numbering_terminates:
  "\<exists>r. generate_next_our_ref today cfg division matter_type country reserve refs others db_fails c = Some r"
proof (cases "build_our_ref_scheme today cfg division matter_type country")
  case (Inr sch)
  then obtain template code ctry scope wild where "build_template_our_ref_scheme today template code ctry scope wild = Inr sch"
    by (rule scheme_of_kind)
  then obtain ps vs where "length (filter is_seq ps) = 1" "build sch = render_template ps vs" by (rule scheme_shape)
  then have inj: "build sch m = build sch n \<Longrightarrow> m = n" for m n by (simp add: build_inject)
  let ?max = "compute_max_our_ref_seq (scheme_prefix sch)
      (case sequence_pattern sch of Some p \<Rightarrow> p | None \<Rightarrow> scheme_pattern sch) refs"
  have "0 \<le> ?max" by (simp add: compute_max_our_ref_seq_def max_seq_nonneg)
  then have "reserve_next_seq (length refs) (counter_key sch) ?max (\<lambda>n. Some (build sch (nat n)) \<in> set refs) others db_fails c \<noteq> None"
    using reserve_tries_Some next_free_enough [where f = "build sch", OF _ inj] by (simp add: reserve_next_seq_def)
  then show ?thesis by (auto simp: generate_next_our_ref_def Inr Let_def split: option.splits)
qed (simp add: generate_next_our_ref_def)

section \<open>Generated references are new\<close>

lemma sql_like_percent [simp]: "sql_like ''%'' s"
  by (induction s) auto

lemma sql_like_prefix: "CHR 0x5C \<notin> set p \<Longrightarrow> sql_like (p @ ''%'') (p @ s)"
proof (induction p)
  case (Cons c p)
  have "sql_like (CHR ''%'' # ps) t" if "sql_like ps t" for ps t using that by (cases t) auto
  with Cons show ?case by (cases "c = CHR ''%''") auto
qed simp

lemma render_has_prefix:
  "\<exists>rest. render_template ps vs n = upper (literal_prefix (map (compile_part vs False) ps)) @ rest"
proof (induction ps)
  case (Cons p ps)
  then obtain rest where IH: "render_template ps vs n = upper (literal_prefix (map (compile_part vs False) ps)) @ rest" by blast
  have split: "render_template (p # ps) vs n = upper (render_part vs n p) @ render_template ps vs n"
    by (simp add: render_template_def upper_append)
  consider "compile_part vs False p = PNum" | "compile_part vs False p = PText (render_part vs n p)" 
    by (metis compile_part.simps render_part.simps part.exhaust)
  then show ?case by cases (auto simp: split IH upper_append, simp add: upper_def)
qed (simp add: upper_def render_template_def)

lemma ref_in_max:
  assumes "Some s \<in> set refs" and "s \<noteq> []" and "ref_number pats s = Some n"
  shows "n \<le> compute_max_our_ref_seq_from_refs refs pats"
proof -
  let ?step = "\<lambda>r m. case r of None \<Rightarrow> m
        | Some s \<Rightarrow> if s = [] then m else (case ref_number pats s of None \<Rightarrow> m | Some n \<Rightarrow> max m n)"
  have mono: "m \<le> fold ?step refs m" for refs and m :: int
    by (induction refs arbitrary: m) (auto split: option.splits intro: order_trans [OF max.cobounded1])
  have "n \<le> fold ?step refs m" for m
    using assms
  proof (induction refs arbitrary: m)
    case (Cons r refs)
    show ?case
    proof (cases "r = Some s")
      case True
      with assms(2,3) have "?step r m = max m n" by simp
      with mono [of "max m n" refs] show ?thesis by simp
    next
      case False
      with Cons show ?thesis by auto
    qed
  qed simp
  then show ?thesis by (simp add: compute_max_our_ref_seq_from_refs_def)
qed

lemma plain_reference_free:
  assumes "build_our_ref_scheme today cfg division matter_type country = Inr sch" and "sequence_pattern sch = None"
    and "\<And>n. ref_number (scheme_pattern sch) (build sch n) = Some (int n)" and "CHR 0x5C \<notin> set (scheme_prefix sch)"
    and "m = compute_max_our_ref_seq (scheme_prefix sch) (scheme_pattern sch) refs"
  shows "Some (build sch (nat (m + 1))) \<notin> set refs"
proof
  let ?r = "build sch (nat (m + 1))"
  assume used: "Some ?r \<in> set refs"
  obtain template code ctry scope wild where "build_template_our_ref_scheme today template code ctry scope wild = Inr sch"
    using assms(1) by (rule scheme_of_kind)
  then obtain ps vs where b: "build sch = render_template ps vs" and one: "length (filter is_seq ps) = 1"
    and pre: "scheme_prefix sch = upper (literal_prefix (map (compile_part vs False) ps))"
    by (rule scheme_shape) (use assms(2) in blast)
  have like: "sql_like (scheme_prefix sch @ ''%'') ?r"
    using render_has_prefix [of ps vs "nat (m + 1)"] sql_like_prefix [OF assms(4)] by (auto simp: b pre)
  have num: "ref_number (scheme_pattern sch) ?r = Some (int (nat (m + 1)))" by (rule assms(3))
  have "0 \<le> m" by (simp add: assms(5) compute_max_our_ref_seq_def max_seq_nonneg)
  have ne: "?r \<noteq> []"
  proof
    obtain a spec b' where ps: "ps = a @ Token ''seq'' spec # b'" using one_seq_split [OF one] .
    assume "?r = []"
    then have "format_seq (nat (m + 1)) spec = []" by (simp add: b ps render_append render_seq)
    with format_seq_number [of "nat (m + 1)" spec] \<open>0 \<le> m\<close> show False by (simp add: digits_val_def)
  qed
  have "Some ?r \<in> set (if scheme_prefix sch = [] then refs
      else filter (\<lambda>r. case r of None \<Rightarrow> False | Some s \<Rightarrow> sql_like (scheme_prefix sch @ ''%'') s) refs)"
    using used like by simp
  then have "int (nat (m + 1)) \<le> m"
    by (subst (2) assms(5), unfold compute_max_our_ref_seq_def) (rule ref_in_max [OF _ ne num])
  with \<open>0 \<le> m\<close> show False by arith
qed

lemma reserve_tries_not_taken:
  "reserve_tries fuel key max_seq taken ws c = Some (Some n, c') \<Longrightarrow> \<not> taken n"
  by (induction ws arbitrary: c) (auto simp: reserve_read_def Let_def dest: next_free_Some split: option.splits if_splits prod.splits)


definition no_cfg :: numbering_cfg where
  "no_cfg = \<lparr>top_template = None, top_codes = [], top_rules = [], top_scope = None, top_wildcard = None\<rparr>"

abbreviation default_template :: string where
  "default_template \<equiv> ''{country}{code}YY{seq:0000}''"

lemma default_template_parts:
  "parse_ref_template (Some default_template) =
     Inr [Token ''country'' None, Token ''code'' None, Token ''yy'' None, Token ''seq'' (Some ''0000'')]"
  by code_simp

lemma default_scheme:
  "build_our_ref_scheme today no_cfg (Some ''DOM'') (Some ''PATENT'') (Some ''US'')
     = build_template_our_ref_scheme today default_template ''P'' ''US'' ''country'' False"
proof -
  have d: "default_rule_config (upper (strip (or_empty (Some ''DOM'')))) (upper (strip (or_empty (Some ''PATENT'')))) ''US''
      = Inr (''DOM'', ''PATENT'', \<lparr>rule_code = ''P'', rule_country = ''US'', rule_template = default_template, rule_scope = ''country'', rule_wildcard = False\<rparr>)"
    by code_simp
  have c: "clean_country (Some ''US'') [] = ''US''" by code_simp
  have s: "select_rule_config no_cfg ''DOM'' ''PATENT'' = no_rule" by code_simp
  have k: "configured_code no_cfg no_rule ''DOM'' ''PATENT'' ''P'' = ''P''" by code_simp
  have t: "strip (if ''PATENT'' \<in> set SPECIAL_OUR_REF_TYPES then first_text [cfg_template no_rule, Some default_template]
      else first_text [cfg_template no_rule, top_template no_cfg, Some default_template]) = default_template" by code_simp
  have n: "normalize_counter_scope (case cfg_scope no_rule of Some v \<Rightarrow> Some v | None \<Rightarrow> top_scope no_cfg) ''country'' = ''country''" by code_simp
  have w: "top_wildcard no_cfg = None" "cfg_wildcard no_rule = None" by (simp_all add: no_cfg_def no_rule_def)
  show ?thesis
    unfolding build_our_ref_scheme_def Let_def c d sum.case prod.case our_ref_rule.simps s k t n w option.case
    by simp
qed

lemma default_scheme_reads_back:
  assumes "build_our_ref_scheme (Date 2025 6 1) no_cfg (Some ''DOM'') (Some ''PATENT'') (Some ''US'') = Inr sch"
  shows "ref_number (scheme_pattern sch) (build sch n) = Some (int n)"
proof -
  let ?ps = "[Token ''country'' None, Token ''code'' None, Token ''yy'' None, Token ''seq'' (Some ''0000'')]"
  define vs where "vs = date_values (Date 2025 6 1) @ [(''code'', ''P''), (''country'', ''US'')]"
  have b: "build sch = render_template ?ps vs" "scheme_pattern sch = map (compile_part vs False) ?ps"
    using assms unfolding default_scheme
    by (auto simp: build_template_our_ref_scheme_def default_template_parts compile_template_pattern_def Let_def vs_def)
  have texts: "render_template [Token ''country'' None, Token ''code'' None, Token ''yy'' None] vs n = ''USP25''"
    unfolding vs_def by code_simp
  have r: "build sch n = ''USP25'' @ format_seq n (Some ''0000'')"
    unfolding b using render_append [of "[Token ''country'' None, Token ''code'' None, Token ''yy'' None]" _ vs n]
    by (simp add: texts render_seq) (simp add: render_template_def upper_def)
  have d: "format_seq n (Some ''0000'') \<noteq> []" "\<forall>c \<in> set (format_seq n (Some ''0000'')). is_digit c"
    by (rule format_seq_digits, simp add: pads_with_zeros_def)+
  then have "is_digit (last (format_seq n (Some ''0000'')))" by simp
  then have "\<not> is_space (last (format_seq n (Some ''0000'')))" by (rule is_digit_not_space)
  moreover have "\<not> is_space (CHR ''U'')" by code_simp
  ultimately have st: "strip (build sch n) = build sch n"
    unfolding strip_def r using d(1) by (intro strip_chars_id) simp
  have one: "length (filter is_seq ?ps) = 1" by simp
  have pads: "pads_with_zeros spec" if "Token ''seq'' spec \<in> set ?ps" for spec using that by (simp add: pads_with_zeros_def)
  obtain ds where "pmatch (scheme_pattern sch) (build sch n) [] = Some ds" "ds \<noteq> []" "\<forall>c \<in> set ds. is_digit c" "digits_val ds = int n"
    unfolding b using pmatch_reference [OF one pads, of vs n] by blast
  then show ?thesis by (simp add: ref_number_def st py_int_digits)
qed

definition fresh_refs :: "string option list" where
  "fresh_refs = [Some ''USP250007'', None, Some ''EP-9'', Some ''USP250009'']"


section \<open>Reservations by several sessions\<close>

text \<open>Any number of sessions that reserve under one counter, each statement one step: \<open>rv_read\<close> is what a session
  has read and chosen and not yet tried to write, \<open>rv_issued\<close> the numbers handed out so far, the latest first. An
  UPDATE that has to wait for the row lock of another transaction takes effect after that transaction ended, so a
  reservation that commits takes effect as a whole.\<close>

record reservations =
  rv_table :: config_table
  rv_read :: "nat \<Rightarrow> (string option \<times> int) option"
  rv_issued :: "int list"

inductive reserve_step :: "string \<Rightarrow> nat \<Rightarrow> reservations \<Rightarrow> reservations \<Rightarrow> bool" for key where
  insert: "0 \<le> m \<Longrightarrow> reserve_step key s st (st\<lparr>rv_table := reserve_insert key m (rv_table st)\<rparr>)"
| read: "0 \<le> m \<Longrightarrow> reserve_read fuel m taken (rv_table st key) = Some n
    \<Longrightarrow> reserve_step key s st (st\<lparr>rv_read := (rv_read st)(s \<mapsto> (rv_table st key, n))\<rparr>)"
| won: "rv_read st s = Some (row, n) \<Longrightarrow> reserve_update key row n (rv_table st) = (True, c)
    \<Longrightarrow> reserve_step key s st \<lparr>rv_table = c, rv_read = (rv_read st)(s := None), rv_issued = n # rv_issued st\<rparr>"
| lost: "rv_read st s = Some (row, n) \<Longrightarrow> reserve_update key row n (rv_table st) = (False, c)
    \<Longrightarrow> reserve_step key s st (st\<lparr>rv_table := c, rv_read := (rv_read st)(s := None)\<rparr>)"
| elsewhere: "c key = rv_table st key \<Longrightarrow> reserve_step key s st (st\<lparr>rv_table := c\<rparr>)"

inductive_cases reserve_stepE: "reserve_step key s st st'"

text \<open>The steps of the sessions in \<open>S\<close>, in any order.\<close>

definition reserve_runs :: "string \<Rightarrow> nat set \<Rightarrow> reservations \<Rightarrow> reservations \<Rightarrow> bool" where
  "reserve_runs key S = (\<lambda>st st'. \<exists>s \<in> S. reserve_step key s st st')\<^sup>*\<^sup>*"

lemma runs_trans: "reserve_runs key S a b \<Longrightarrow> reserve_runs key S b c \<Longrightarrow> reserve_runs key S a c"
  unfolding reserve_runs_def by (rule rtranclp_trans)

lemma runs_step: "reserve_step key s a b \<Longrightarrow> s \<in> S \<Longrightarrow> reserve_runs key S a b"
  unfolding reserve_runs_def by (blast intro: r_into_rtranclp)

lemma runs_mono: "reserve_runs key S a b \<Longrightarrow> S \<subseteq> T \<Longrightarrow> reserve_runs key T a b"
  unfolding reserve_runs_def by (erule rtranclp_mono [THEN predicate2D, rotated]) blast

lemma runs_other_read:
  assumes "reserve_runs key (- {s}) a b"
  shows "rv_read b s = rv_read a s"
  using assms unfolding reserve_runs_def
proof (induction rule: rtranclp_induct)
  case (step b c)
  then show ?case by (auto elim!: reserve_stepE split: if_splits)
qed simp

lemma counter_value_str_int: "0 \<le> n \<Longrightarrow> counter_value (Some (str_int n)) = n"
  by (simp add: counter_value_def py_int_str_int) (simp add: str_int_def)

lemma counter_value_text: "counter_value (Some (counter_text row)) = counter_value row"
proof -
  have "counter_value (Some ''0'') = 0" by code_simp
  then show ?thesis by (cases row) (simp_all add: counter_text_def counter_value_def)
qed

definition reservations_ok :: "string \<Rightarrow> int \<Rightarrow> reservations \<Rightarrow> bool" where
  "reservations_ok key low st \<longleftrightarrow>
     low \<le> counter_value (rv_table st key)
     \<and> sorted_wrt (>) (rv_issued st) \<and> (\<forall>n \<in> set (rv_issued st). low < n \<and> n \<le> counter_value (rv_table st key))
     \<and> (\<forall>s row n. rv_read st s = Some (row, n) \<longrightarrow> counter_value row < n \<and> 0 \<le> n)"

lemma step_ok:
  assumes "reserve_step key s st st'" and "reservations_ok key low st"
  shows "reservations_ok key low st'"
  using assms(1)
proof cases
  case (insert m)
  have "counter_value (rv_table st key) \<le> counter_value (reserve_insert key m (rv_table st) key)"
    using insert(2) by (auto simp: reserve_insert_def counter_value_str_int split: option.split) (simp add: counter_value_def)
  with assms(2) insert(1) show ?thesis unfolding reservations_ok_def by (force intro: order_trans)
next
  case (read m fuel taken n)
  from read(3) have "(if counter_value (rv_table st key) < m then m else counter_value (rv_table st key)) + 1 \<le> n"
    by (auto simp: reserve_read_def Let_def dest: next_free_Some)
  then have "counter_value (rv_table st key) < n \<and> 0 \<le> n" using read(2) by (auto split: if_splits)
  with assms(2) read(1) show ?thesis by (auto simp: reservations_ok_def)
next
  case (won row n c)
  then have at: "rv_table st key = Some (counter_text row)" "c = (rv_table st)(key \<mapsto> str_int n)"
    by (auto simp: reserve_update_def split: if_splits)
  from assms(2) won(2) have n: "counter_value row < n" "0 \<le> n" by (auto simp: reservations_ok_def)
  have c: "counter_value (c key) = n" by (simp add: at(2) counter_value_str_int [OF n(2)])
  have below: "counter_value (rv_table st key) < n" using n(1) by (simp add: at(1) counter_value_text)
  show ?thesis
    using assms(2) below unfolding reservations_ok_def won(1) by (auto simp: c split: if_splits)
next
  case (lost row n c)
  then have "c = rv_table st" by (auto simp: reserve_update_def split: if_splits)
  with assms(2) lost(1) show ?thesis by (auto simp: reservations_ok_def split: if_splits)
next
  case (elsewhere c)
  with assms(2) show ?thesis by (auto simp: reservations_ok_def)
qed

lemma runs_ok: "reserve_runs key S st st' \<Longrightarrow> reservations_ok key low st \<Longrightarrow> reservations_ok key low st'"
  unfolding reserve_runs_def by (induction rule: rtranclp_induct) (auto intro: step_ok)

text \<open>What may happen between the statements of a session: steps of the other sessions.\<close>

definition written_by_others :: "string \<Rightarrow> nat \<Rightarrow> (config_table \<Rightarrow> config_table) \<Rightarrow> bool" where
  "written_by_others key s w \<longleftrightarrow> (\<forall>st. \<exists>st'. reserve_runs key (- {s}) st st' \<and> rv_table st' = w (rv_table st))"

lemma tries_run:
  assumes "\<forall>w \<in> set ws. written_by_others key s w" and "0 \<le> m" and "reserve_tries fuel key m taken ws (rv_table st) = Some (r, c')"
  shows "\<exists>st'. reserve_runs key UNIV st st' \<and> rv_table st' = c' \<and> (\<forall>n. r = Some n \<longrightarrow> (\<exists>ns. rv_issued st' = n # ns))"
  using assms(1,3)
proof (induction ws arbitrary: st)
  case Nil
  then show ?case by (intro exI [of _ st]) (simp add: reserve_runs_def)
next
  case (Cons w ws)
  from Cons.prems(2) obtain n where n: "reserve_read fuel m taken (rv_table st key) = Some n" by (auto split: option.splits)
  let ?st1 = "st\<lparr>rv_read := (rv_read st)(s \<mapsto> (rv_table st key, n))\<rparr>"
  have s1: "reserve_runs key UNIV st ?st1" by (rule runs_step [OF reserve_step.read [OF assms(2) n]]) simp
  obtain st2 where s2: "reserve_runs key (- {s}) ?st1 st2" "rv_table st2 = w (rv_table st)"
    using Cons.prems(1) by (force simp: written_by_others_def)
  have r2: "rv_read st2 s = Some (rv_table st key, n)" using runs_other_read [OF s2(1)] by simp
  have to2: "reserve_runs key UNIV st st2" by (rule runs_trans [OF s1 runs_mono [OF s2(1)]]) simp
  obtain ok c1 where u: "reserve_update key (rv_table st key) n (rv_table st2) = (ok, c1)" by force
  show ?case
  proof (cases ok)
    case True
    let ?st3 = "\<lparr>rv_table = c1, rv_read = (rv_read st2)(s := None), rv_issued = n # rv_issued st2\<rparr>"
    have "reserve_runs key UNIV st2 ?st3" by (rule runs_step [OF reserve_step.won [OF r2]]) (use u True in simp_all)
    moreover have "r = Some n" "c' = c1" using Cons.prems(2) n u True s2(2) by simp_all
    ultimately show ?thesis using runs_trans [OF to2] by (intro exI [of _ ?st3]) simp
  next
    case False
    let ?st3 = "st2\<lparr>rv_table := c1, rv_read := (rv_read st2)(s := None)\<rparr>"
    have s3: "reserve_runs key UNIV st ?st3"
      by (rule runs_trans [OF to2 runs_step [OF reserve_step.lost [OF r2]]]) (use u False in simp_all)
    have "reserve_tries fuel key m taken ws (rv_table ?st3) = Some (r, c')" using Cons.prems(2) n u False s2(2) by simp
    from Cons.IH [OF _ this] Cons.prems(1) obtain st' where "reserve_runs key UNIV ?st3 st'" "rv_table st' = c'"
      "\<forall>n. r = Some n \<longrightarrow> (\<exists>ns. rv_issued st' = n # ns)" by auto
    with runs_trans [OF s3] show ?thesis by blast
  qed
qed

text \<open>C24: Sessions that reserve numbers under one counter get different numbers in increasing order, whatever the
  order of their statements. From any state that the statements of any sessions reached, let one session reserve a
  number while other sessions run their own statements between each of its reads and the update that follows: the
  session's reservation is itself a sequence of such steps, the number it returns is the latest one handed out, and
  every number is above all numbers that were handed out before it, to whichever session, and above the value the
  counter had at the start.\<close>

theorem reserved_numbers_increase:
  assumes "reserve_runs key UNIV \<lparr>rv_table = c0, rv_read = (\<lambda>s. None), rv_issued = []\<rparr> st"
    and "list_all (written_by_others key s) others" and "0 \<le> max_seq"
    and "reserve_next_seq fuel key max_seq taken others db_fails (rv_table st) = Some (r, c')"
  shows "\<exists>st'. reserve_runs key UNIV st st' \<and> rv_table st' = c'
    \<and> sorted_wrt (>) (rv_issued st') \<and> distinct (rv_issued st') \<and> list_all (\<lambda>n. counter_value (c0 key) < n) (rv_issued st')
    \<and> (case r of None \<Rightarrow> True | Some n \<Rightarrow> \<exists>ns. rv_issued st' = n # ns)"
proof -
  have "reservations_ok key (counter_value (c0 key)) \<lparr>rv_table = c0, rv_read = (\<lambda>s. None), rv_issued = []\<rparr>"
    by (simp add: reservations_ok_def)
  with assms(1) have ok: "reservations_ok key (counter_value (c0 key)) st" by (rule runs_ok)
  obtain st' where st': "reserve_runs key UNIV st st'" "rv_table st' = c'" "\<forall>n. r = Some n \<longrightarrow> (\<exists>ns. rv_issued st' = n # ns)"
  proof (cases db_fails)
    case True
    with assms(4) that [of st] show ?thesis by (simp add: reserve_next_seq_def reserve_runs_def)
  next
    case False
    let ?st = "st\<lparr>rv_table := reserve_insert key max_seq (rv_table st)\<rparr>"
    have s: "reserve_runs key UNIV st ?st" by (rule runs_step [OF reserve_step.insert [OF assms(3)]]) simp
    have "reserve_tries fuel key max_seq taken (take 6 others) (rv_table ?st) = Some (r, c')" "\<forall>w \<in> set (take 6 others). written_by_others key s w"
      using assms(2,4) False by (auto simp: reserve_next_seq_def list_all_iff dest: in_set_takeD)
    from tries_run [OF this(2) assms(3) this(1)] runs_trans [OF s] that show ?thesis by blast
  qed
  have "distinct xs" if "sorted_wrt (>) xs" for xs :: "int list" using that by (induction xs) auto
  with runs_ok [OF st'(1) ok] have "sorted_wrt (>) (rv_issued st') \<and> distinct (rv_issued st') \<and> list_all (\<lambda>n. counter_value (c0 key) < n) (rv_issued st')"
    by (simp add: reservations_ok_def list_all_iff)
  with st' show ?thesis by (intro exI [of _ st']) (simp split: option.split)
qed

text \<open>A second session reserves a number between the read and the update of the first one, which then tries again.\<close>

definition second_session :: "config_table \<Rightarrow> config_table" where
  "second_session c = (case reserve_next_seq 0 ''k'' 4 (\<lambda>n. False) [\<lambda>c. c] False c of Some (r, c') \<Rightarrow> c')"

lemma second_session_steps: "written_by_others ''k'' 0 second_session"
  unfolding written_by_others_def
proof
  fix st :: reservations
  let ?m = "if counter_value (reserve_insert ''k'' 4 (rv_table st) ''k'') < 4 then 4 else counter_value (reserve_insert ''k'' 4 (rv_table st) ''k'')"
  let ?t = "reserve_insert ''k'' 4 (rv_table st)"
  let ?st1 = "st\<lparr>rv_table := ?t\<rparr>"
  let ?st2 = "?st1\<lparr>rv_read := (rv_read ?st1)(1 \<mapsto> (rv_table ?st1 ''k'', ?m + 1))\<rparr>"
  have r: "reserve_read 0 4 (\<lambda>n. False) (?t ''k'') = Some (?m + 1)" by (simp add: reserve_read_def Let_def)
  have s1: "reserve_runs ''k'' (- {0}) st ?st1" by (rule runs_step [OF reserve_step.insert [of 4 _ 1]]) simp_all
  have s2: "reserve_runs ''k'' (- {0}) ?st1 ?st2" by (rule runs_step [OF reserve_step.read [of 4 0 "\<lambda>n. False" _ _ _ 1]]) (use r in simp_all)
  obtain ok c1 where u: "reserve_update ''k'' (?t ''k'') (?m + 1) (rv_table ?st2) = (ok, c1)" by force
  have w: "second_session (rv_table st) = c1" using r u by (auto simp: second_session_def reserve_next_seq_def)
  have rd: "rv_read ?st2 1 = Some (?t ''k'', ?m + 1)" by simp
  have "\<exists>st3. reserve_runs ''k'' (- {0}) ?st2 st3 \<and> rv_table st3 = c1"
  proof (cases ok)
    case True
    have "reserve_runs ''k'' (- {0}) ?st2 \<lparr>rv_table = c1, rv_read = (rv_read ?st2)(1 := None), rv_issued = (?m + 1) # rv_issued ?st2\<rparr>"
      by (rule runs_step [OF reserve_step.won [OF rd]]) (use u True in simp_all)
    then show ?thesis by (intro exI [of _ "\<lparr>rv_table = c1, rv_read = (rv_read ?st2)(1 := None), rv_issued = (?m + 1) # rv_issued ?st2\<rparr>"]) simp
  next
    case False
    have "reserve_runs ''k'' (- {0}) ?st2 (?st2\<lparr>rv_table := c1, rv_read := (rv_read ?st2)(1 := None)\<rparr>)"
      by (rule runs_step [OF reserve_step.lost [OF rd]]) (use u False in simp_all)
    then show ?thesis by (intro exI [of _ "?st2\<lparr>rv_table := c1, rv_read := (rv_read ?st2)(1 := None)\<rparr>"]) simp
  qed
  with runs_trans [OF runs_trans [OF s1 s2]] w show "\<exists>st'. reserve_runs ''k'' (- {0}) st st' \<and> rv_table st' = second_session (rv_table st)" by blast
qed

theorem reserved_numbers_increase_witness:
  "\<exists>st' ns. reserve_runs ''k'' UNIV \<lparr>rv_table = (\<lambda>k. None), rv_read = (\<lambda>s. None), rv_issued = []\<rparr> st'
    \<and> rv_issued st' = 6 # ns \<and> sorted_wrt (>) (6 # ns) \<and> rv_table st' ''k'' = Some ''6''"
proof -
  let ?c0 = "\<lambda>k. None :: string option"
  let ?st = "\<lparr>rv_table = ?c0, rv_read = (\<lambda>s. None), rv_issued = []\<rparr>"
  let ?r = "reserve_next_seq 3 ''k'' 4 (\<lambda>n. False) [second_session, \<lambda>c. c] False (rv_table ?st)"
  have "(case ?r of None \<Rightarrow> False | Some (x, c) \<Rightarrow> x = Some 6 \<and> c ''k'' = Some ''6'')" by code_simp
  then obtain c' where r: "?r = Some (Some 6, c')" and c': "c' ''k'' = Some ''6''" by (cases ?r) auto
  have idle: "written_by_others ''k'' 0 (\<lambda>c. c)" by (force simp: written_by_others_def reserve_runs_def)
  have run: "reserve_runs ''k'' UNIV ?st ?st" by (simp add: reserve_runs_def)
  have others: "list_all (written_by_others ''k'' 0) [second_session, \<lambda>c. c]" using second_session_steps idle by simp
  have "0 \<le> (4 :: int)" by simp
  from reserved_numbers_increase [OF run others this r] obtain st' :: reservations and ns where
    "reserve_runs ''k'' UNIV ?st st'" "rv_table st' = c'" "sorted_wrt (>) (rv_issued st')" "rv_issued st' = 6 # ns" unfolding option.case by blast
  with c' show ?thesis by (intro exI [of _ st'] exI [of _ ns]) simp
qed

end
