(* ===== verification/IP_Address.thy ===== *)
theory IP_Address
  imports Numerals "HOL-Library.Word"
begin

text \<open>
  Addresses and networks of Python's \<open>ipaddress\<close> as the access checks use them: the texts that
  \<open>ip_address\<close> and \<open>ip_network(..., strict=False)\<close> accept, membership, and the first and last
  address of a network. An address is a 32-bit or 128-bit word; the scope of an IPv6 address plays no
  part in membership and is dropped.
\<close>

unbundle bit_operations_syntax

section \<open>Addresses\<close>

datatype ip = IPv4 "32 word" | IPv6 "128 word"

definition all_digit :: "string \<Rightarrow> bool" where
  "all_digit s \<longleftrightarrow> s \<noteq> [] \<and> list_all is_digit s"

definition parse_octet :: "string \<Rightarrow> int option" where
  "parse_octet s =
     (if \<not> all_digit s \<or> 3 < length s \<or> (s \<noteq> ''0'' \<and> hd s = CHR ''0'') \<or> 255 < digits_val s then None else Some (digits_val s))"

definition ipv4_of_string :: "string \<Rightarrow> 32 word option" where
  "ipv4_of_string s =
     (case map parse_octet (split_on (CHR ''.'') s) of
        [Some a, Some b, Some c, Some d] \<Rightarrow> Some (word_of_int (((a * 256 + b) * 256 + c) * 256 + d))
      | _ \<Rightarrow> None)"

definition hex_val :: "char \<Rightarrow> int option" where
  "hex_val c =
     (let n = (of_char c :: int) in
      if 48 \<le> n \<and> n \<le> 57 then Some (n - 48)
      else if 97 \<le> n \<and> n \<le> 102 then Some (n - 87)
      else if 65 \<le> n \<and> n \<le> 70 then Some (n - 55) else None)"

definition parse_hextet :: "string \<Rightarrow> int option" where
  "parse_hextet s =
     (if s = [] \<or> 4 < length s then None
      else fold (\<lambda>c acc. case acc of None \<Rightarrow> None | Some n \<Rightarrow> map_option (\<lambda>d. 16 * n + d) (hex_val c)) s (Some 0))"

text \<open>The parts of an IPv6 text: hextets, or two numbers from a dotted quad at the end.\<close>

datatype ip6_part = Hextet string | Quad int

fun part_text :: "ip6_part \<Rightarrow> string" where
  "part_text (Hextet s) = s"
| "part_text (Quad n) = ''q''"

fun part_val :: "ip6_part \<Rightarrow> int option" where
  "part_val (Hextet s) = parse_hextet s"
| "part_val (Quad n) = Some n"

fun part_vals :: "ip6_part list \<Rightarrow> int \<Rightarrow> int option" where
  "part_vals [] n = Some n"
| "part_vals (p # ps) n = (case part_val p of None \<Rightarrow> None | Some h \<Rightarrow> part_vals ps (65536 * n + h))"

definition ip6_parts :: "string \<Rightarrow> ip6_part list option" where
  "ip6_parts s =
     (let ps = split_on (CHR '':'') s in
      if length ps < 3 then None
      else if CHR ''.'' \<in> set (last ps)
      then map_option (\<lambda>w. map Hextet (butlast ps) @ [Quad (uint (drop_bit 16 w)), Quad (uint (take_bit 16 w))]) (ipv4_of_string (last ps))
      else Some (map Hextet ps))"

definition ipv6_of_parts :: "ip6_part list \<Rightarrow> int option" where
  "ipv6_of_parts ps =
     (let blank = (\<lambda>i. part_text (ps ! i) = []);
          skips = filter blank [1..<length ps - 1] in
      if 9 < length ps then None
      else case skips of
        [] \<Rightarrow> if length ps \<noteq> 8 \<or> blank 0 \<or> blank (length ps - 1) then None else part_vals ps 0
      | [k] \<Rightarrow>
          let hi0 = k; lo0 = length ps - k - 1;
              hi = (if blank 0 then hi0 - 1 else hi0); lo = (if blank (length ps - 1) then lo0 - 1 else lo0) in
          if blank 0 \<and> hi \<noteq> 0 \<or> blank (length ps - 1) \<and> lo \<noteq> 0 \<or> 8 \<le> hi + lo then None
          else (case part_vals (take hi ps) 0 of
                  None \<Rightarrow> None
                | Some n \<Rightarrow> part_vals (drop (length ps - lo) ps) (n * 65536 ^ (8 - (hi + lo))))
      | _ \<Rightarrow> None)"

definition drop_scope :: "string \<Rightarrow> string option" where
  "drop_scope s =
     (case dropWhile (\<lambda>c. c \<noteq> CHR ''%'') s of
        [] \<Rightarrow> Some s
      | _ # scope \<Rightarrow> if scope = [] \<or> CHR ''%'' \<in> set scope then None else Some (takeWhile (\<lambda>c. c \<noteq> CHR ''%'') s))"

definition ipv6_of_string :: "string \<Rightarrow> 128 word option" where
  "ipv6_of_string s =
     (case drop_scope s of
        None \<Rightarrow> None
      | Some a \<Rightarrow> (case ip6_parts a of None \<Rightarrow> None | Some ps \<Rightarrow> map_option word_of_int (ipv6_of_parts ps)))"

definition ip_address :: "string \<Rightarrow> ip option" where
  "ip_address s =
     (if CHR ''/'' \<in> set s then None
      else case ipv4_of_string s of Some a \<Rightarrow> Some (IPv4 a) | None \<Rightarrow> map_option IPv6 (ipv6_of_string s))"

section \<open>Networks\<close>

text \<open>The address and the mask.\<close>

datatype network = Net4 "32 word" "32 word" | Net6 "128 word" "128 word"

definition prefix_mask :: "nat \<Rightarrow> 'a::len word" where
  "prefix_mask p = (- 1) XOR drop_bit p (- 1)"

definition prefix_from_string :: "nat \<Rightarrow> string \<Rightarrow> nat option" where
  "prefix_from_string w s = (if all_digit s \<and> digits_val s \<le> int w then Some (nat (digits_val s)) else None)"

text \<open>A dotted mask is a prefix mask or the complement of one.\<close>

definition prefix_from_mask :: "32 word \<Rightarrow> nat option" where
  "prefix_from_mask m = (case filter (\<lambda>p. prefix_mask p = m) [0..<33] of [] \<Rightarrow> None | p # _ \<Rightarrow> Some p)"

definition prefix_from_ip_string :: "string \<Rightarrow> nat option" where
  "prefix_from_ip_string s =
     (case ipv4_of_string s of
        None \<Rightarrow> None
      | Some m \<Rightarrow> (case prefix_from_mask m of Some p \<Rightarrow> Some p | None \<Rightarrow> prefix_from_mask (m XOR (- 1))))"

definition ip_network :: "string \<Rightarrow> network option" where
  "ip_network s =
     (case split_on (CHR ''/'') s of
        a # rest \<Rightarrow>
          if 1 < length rest then None
          else
            let net4 = (case (ipv4_of_string a,
                   case rest of [] \<Rightarrow> Some 32
                   | m # _ \<Rightarrow> (case prefix_from_string 32 m of Some p \<Rightarrow> Some p | None \<Rightarrow> prefix_from_ip_string m)) of
                 (Some x, Some p) \<Rightarrow> Some (Net4 (x AND prefix_mask p) (prefix_mask p)) | _ \<Rightarrow> None);
                net6 = (case (ipv6_of_string a, case rest of [] \<Rightarrow> Some 128 | m # _ \<Rightarrow> prefix_from_string 128 m) of
                 (Some x, Some p) \<Rightarrow> Some (Net6 (x AND prefix_mask p) (prefix_mask p)) | _ \<Rightarrow> None)
            in (case net4 of Some n \<Rightarrow> Some n | None \<Rightarrow> net6)
      | [] \<Rightarrow> None)"

text \<open>\<open>ip in net\<close>.\<close>

fun ip_in :: "ip \<Rightarrow> network \<Rightarrow> bool" where
  "ip_in (IPv4 a) (Net4 n m) = (a AND m = n)"
| "ip_in (IPv6 a) (Net6 n m) = (a AND m = n)"
| "ip_in _ _ = False"

text \<open>\<open>broadcast_address\<close>: the last address.\<close>

definition broadcast_address :: "'a::len word \<Rightarrow> 'a word \<Rightarrow> 'a word" where
  "broadcast_address n m = n OR (m XOR (- 1))"

section \<open>A network is an interval\<close>

lemma prefix_mask_not_mask: "p \<le> LENGTH('a) \<Longrightarrow> prefix_mask p = NOT (mask (LENGTH('a) - p) :: 'a::len word)"
  by (rule bit_word_eqI) (auto simp: prefix_mask_def bit_simps)

lemma drop_bit_mono: "a \<le> b \<Longrightarrow> drop_bit k a \<le> drop_bit k (b :: 'a::len word)"
  unfolding word_le_def unsigned_drop_bit_eq by (simp add: drop_bit_eq_div [where 'a = int] zdiv_mono1 take_bit_int_eq_self)

lemma and_not_mask_push: "a AND NOT (mask k) = push_bit k (drop_bit k (a :: 'a::len word))"
  by (rule bit_word_eqI) (auto simp: bit_simps dest: bit_imp_le_length)

lemma prefix_interval:
  fixes a x :: "'a::len word"
  assumes "p \<le> LENGTH('a)" and "n = x AND prefix_mask p"
  shows "a AND prefix_mask p = n \<longleftrightarrow> n \<le> a \<and> a \<le> broadcast_address n (prefix_mask p)"
proof -
  define k where "k = LENGTH('a) - p"
  have M: "prefix_mask p = NOT (mask k :: 'a word)" using assms(1) by (simp add: prefix_mask_not_mask k_def)
  have B: "broadcast_address n (prefix_mask p) = n OR mask k" by (simp add: broadcast_address_def M)
  have fix_n: "n AND NOT (mask k) = n" by (simp add: assms(2) M and.assoc)
  show ?thesis
  proof
    assume eq: "a AND prefix_mask p = n"
    then have "n \<le> a" using word_and_le2 [of a "prefix_mask p"] by simp
    moreover have "n OR mask k = a OR mask k" unfolding eq [symmetric] M by (rule bit_word_eqI) (auto simp: bit_simps)
    ultimately show "n \<le> a \<and> a \<le> broadcast_address n (prefix_mask p)" using le_word_or2 [of a "mask k"] by (simp add: B)
  next
    assume between: "n \<le> a \<and> a \<le> broadcast_address n (prefix_mask p)"
    have "drop_bit k (mask k :: 'a word) = 0" by (rule bit_word_eqI) (auto simp: bit_simps)
    then have "drop_bit k (n OR mask k) = drop_bit k n" by simp
    with between have "drop_bit k a = drop_bit k n"
      unfolding B by (metis drop_bit_mono order_antisym)
    then have "a AND NOT (mask k) = n AND NOT (mask k)" by (simp only: and_not_mask_push)
    then show "a AND prefix_mask p = n" by (simp add: M fix_n)
  qed
qed

definition net_ok :: "network \<Rightarrow> bool" where
  "net_ok net = (case net of
     Net4 n m \<Rightarrow> (\<exists>p\<le>32. \<exists>x. m = prefix_mask p \<and> n = x AND prefix_mask p)
   | Net6 n m \<Rightarrow> (\<exists>p\<le>128. \<exists>x. m = prefix_mask p \<and> n = x AND prefix_mask p))"

lemma prefix_from_string_le: "prefix_from_string w s = Some p \<Longrightarrow> p \<le> w"
  by (auto simp: prefix_from_string_def split: if_splits)

lemma prefix_from_mask_le: "prefix_from_mask m = Some p \<Longrightarrow> p \<le> 32"
proof -
  assume "prefix_from_mask m = Some p"
  then obtain rest where "filter (\<lambda>p. prefix_mask p = m) [0..<33] = p # rest"
    by (auto simp: prefix_from_mask_def split: list.splits)
  then have "p \<in> set (filter (\<lambda>p. prefix_mask p = m) [0..<33])" by simp
  then show ?thesis by auto
qed

lemma ip_network_ok: "ip_network s = Some net \<Longrightarrow> net_ok net"
proof -
  assume "ip_network s = Some net"
  then obtain a rest where "split_on (CHR ''/'') s = a # rest" and
    net: "(\<exists>x p. p \<le> 32 \<and> net = Net4 (x AND prefix_mask p) (prefix_mask p))
       \<or> (\<exists>x p. p \<le> 128 \<and> net = Net6 (x AND prefix_mask p) (prefix_mask p))"
    unfolding ip_network_def prefix_from_ip_string_def
    by (auto split: list.splits if_splits option.splits dest!: prefix_from_string_le prefix_from_mask_le simp: Let_def)
  then show ?thesis unfolding net_ok_def by (auto split: network.split)
qed

lemma ip4_in_interval:
  assumes "net_ok (Net4 n m)"
  shows "ip_in (IPv4 a) (Net4 n m) \<longleftrightarrow> uint n \<le> uint a \<and> uint a \<le> uint (broadcast_address n m)"
proof -
  from assms obtain p x where "p \<le> 32" "m = prefix_mask p" "n = x AND prefix_mask p" by (auto simp: net_ok_def)
  with prefix_interval [of p n x a] show ?thesis by (simp add: word_le_def)
qed

lemma broadcast_ge: "n \<le> broadcast_address n m"
  by (simp add: broadcast_address_def le_word_or2)

end
