(* ===== verification/Config_Service.thy ===== *)
theory Config_Service
  imports Complex_Main Numerals "HOL-Library.AList"
begin

text \<open>
  The configuration service (\<open>app/services/core/config_service.py\<close>): the in-process cache of
  \<open>system_config\<close> rows, the read of a row with the recovery of a failed session, the three sources of
  a setting in their order of precedence and the typed getters.

  A setting is a text, a boolean or an integer; the JSON getters are not modelled. The cache is the
  dictionary in insertion order. What the database answers to the reads of one call is an argument.
\<close>

section \<open>Settings\<close>

datatype cfg_value = CText string | CBool bool | CInt int

fun cfg_str :: "cfg_value \<Rightarrow> string" where
  "cfg_str (CText s) = s"
| "cfg_str (CBool b) = (if b then ''True'' else ''False'')"
| "cfg_str (CInt n) = str_int n"

fun cfg_truthy :: "cfg_value \<Rightarrow> bool" where
  "cfg_truthy (CText s) = (s \<noteq> [])"
| "cfg_truthy (CBool b) = b"
| "cfg_truthy (CInt n) = (n \<noteq> 0)"

fun cfg_int :: "cfg_value \<Rightarrow> int option" where
  "cfg_int (CText s) = py_int s"
| "cfg_int (CBool b) = Some (if b then 1 else 0)"
| "cfg_int (CInt n) = Some n"

text \<open>\<open>int(value or fallback)\<close>.\<close>

definition int_or :: "cfg_value option \<Rightarrow> int \<Rightarrow> int option" where
  "int_or v fallback =
     (case v of None \<Rightarrow> Some fallback | Some x \<Rightarrow> if cfg_truthy x then cfg_int x else Some fallback)"

text \<open>The application's configuration maps a key to a value or to Python's \<open>None\<close>.\<close>

record config_env =
  in_context :: bool
  app_config :: "string \<Rightarrow> cfg_value option option"
  environ :: "string \<Rightarrow> string option"

definition app_get :: "config_env \<Rightarrow> string \<Rightarrow> cfg_value option \<Rightarrow> cfg_value option" where
  "app_get env key dflt = (case app_config env key of None \<Rightarrow> dflt | Some v \<Rightarrow> v)"

section \<open>The cache\<close>

type_synonym monotonic = rat
type_synonym config_cache = "(string \<times> monotonic \<times> string option) list"

definition cache_ttl_seconds :: "config_env \<Rightarrow> int" where
  "cache_ttl_seconds env =
     (if \<not> in_context env then 0
      else if (case app_get env ''TESTING'' None of None \<Rightarrow> False | Some v \<Rightarrow> cfg_truthy v) \<or> environ env ''TESTING'' = Some ''1'' then 0
      else let ttl = (case int_or (app_get env ''CONFIG_SERVICE_CACHE_TTL_SECONDS'' (Some (CInt 30))) 0 of None \<Rightarrow> 30 | Some n \<Rightarrow> n) in
        if ttl \<le> 0 then 0 else min 3600 ttl)"

text \<open>\<open>Some v\<close> is a hit.\<close>

definition cache_get :: "config_env \<Rightarrow> monotonic \<Rightarrow> string \<Rightarrow> config_cache \<Rightarrow> string option option \<times> config_cache" where
  "cache_get env now key c =
     (if cache_ttl_seconds env \<le> 0 then (None, c)
      else case map_of c key of
        None \<Rightarrow> (None, c)
      | Some (expires_at, v) \<Rightarrow> if expires_at \<le> now then (None, AList.delete key c) else (Some v, c))"

definition cache_max_keys :: "config_env \<Rightarrow> nat" where
  "cache_max_keys env =
     (let n = (case int_or (app_get env ''CONFIG_SERVICE_CACHE_MAX_KEYS'' (Some (CInt 2048))) 2048 of None \<Rightarrow> 2048 | Some n \<Rightarrow> n)
      in nat (max 64 (min 20000 n)))"

definition cache_set :: "config_env \<Rightarrow> monotonic \<Rightarrow> string \<Rightarrow> string option \<Rightarrow> config_cache \<Rightarrow> config_cache" where
  "cache_set env now key v c =
     (let ttl = cache_ttl_seconds env in
      if ttl \<le> 0 then c
      else let c1 = AList.update key (now + of_int ttl, v) c in
        if length c1 \<le> cache_max_keys env then c1
        else let live = filter (\<lambda>(k, e, x). \<not> e \<le> now) c1 in drop (length live - cache_max_keys env) live)"

section \<open>Reading a row\<close>

datatype db_exc =
  PendingRollbackError string
| InvalidRequestError string
| DBAPIError "string option" bool string
| OtherExc string

fun exc_text :: "db_exc \<Rightarrow> string" where
  "exc_text (PendingRollbackError m) = m"
| "exc_text (InvalidRequestError m) = m"
| "exc_text (DBAPIError pgcode invalidated m) = m"
| "exc_text (OtherExc m) = m"

definition any_marker :: "string list \<Rightarrow> string \<Rightarrow> bool" where
  "any_marker ms s = list_ex (\<lambda>m. str_contains m s) ms"

definition SESSION_MARKERS :: "string list" where
  "SESSION_MARKERS =
     [''session is in '' @ [CHR 0x27] @ ''committed'' @ [CHR 0x27] @ '' state'',
      ''session is in '' @ [CHR 0x27] @ ''prepared'' @ [CHR 0x27] @ '' state'',
      ''no further sql can be emitted within this transaction'']"

definition is_failed_transaction_error :: "db_exc \<Rightarrow> bool" where
  "is_failed_transaction_error exc =
     (let msg = lower (exc_text exc);
          aborted = any_marker [''infailedsqltransaction'', ''current transaction is aborted''] msg in
      case exc of
        PendingRollbackError m \<Rightarrow> True
      | InvalidRequestError m \<Rightarrow> any_marker SESSION_MARKERS msg
      | DBAPIError pgcode gone m \<Rightarrow> pgcode = Some ''25P02'' \<or> aborted
      | OtherExc m \<Rightarrow> aborted)"

definition CONNECTION_MARKERS :: "string list" where
  "CONNECTION_MARKERS =
     [''server closed the connection unexpectedly'', ''connection reset by peer'', ''connection refused'',
      ''could not connect to server'', ''terminating connection'']"

definition is_connection_invalidated_error :: "db_exc \<Rightarrow> bool" where
  "is_connection_invalidated_error exc \<longleftrightarrow>
     (case exc of DBAPIError pgcode gone m \<Rightarrow> gone | _ \<Rightarrow> False)
     \<or> any_marker CONNECTION_MARKERS (lower (exc_text exc))"

text \<open>The session: active or not, what is staged in it, and the answers to the reads of one call.\<close>

datatype db_reply = Scalar "string option" | Raises db_exc

record config_session =
  sess_active :: bool
  sess_flushing :: bool
  sess_pending :: bool
  sess_nested :: bool
  rollback_works :: bool
  first_read :: db_reply
  second_read :: db_reply
  out_of_band :: db_reply

definition best_effort_session_rollback :: "config_session \<Rightarrow> bool" where
  "best_effort_session_rollback s \<longleftrightarrow> \<not> sess_flushing s \<and> \<not> sess_pending s \<and> \<not> sess_nested s \<and> rollback_works s"

text \<open>The value of the row, \<open>None\<close> when no read could answer.\<close>

definition read_out_of_band :: "config_session \<Rightarrow> string option option" where
  "read_out_of_band s = (case out_of_band s of Scalar v \<Rightarrow> Some v | Raises e \<Rightarrow> None)"

definition read_row :: "config_session \<Rightarrow> string option option" where
  "read_row s =
     (if \<not> sess_active s \<and> \<not> best_effort_session_rollback s then read_out_of_band s
      else case first_read s of
        Scalar v \<Rightarrow> Some v
      | Raises exc \<Rightarrow>
          if is_failed_transaction_error exc \<or> is_connection_invalidated_error exc
          then (if best_effort_session_rollback s
                then (case second_read s of Scalar v \<Rightarrow> Some v | Raises exc2 \<Rightarrow> read_out_of_band s)
                else read_out_of_band s)
          else None)"

definition normalize_blank :: "cfg_value option \<Rightarrow> bool \<Rightarrow> cfg_value option" where
  "normalize_blank v allow_blank =
     (case v of Some (CText s) \<Rightarrow> if strip s = [] \<and> \<not> allow_blank then None else v | _ \<Rightarrow> v)"

text \<open>The clock is read once for the lookup and once for the store.\<close>

definition read_system_config ::
  "config_env \<Rightarrow> monotonic \<Rightarrow> monotonic \<Rightarrow> config_session \<Rightarrow> string \<Rightarrow> bool \<Rightarrow> config_cache \<Rightarrow> cfg_value option \<times> config_cache"
where
  "read_system_config env now later s key0 allow_blank c =
     (let key = strip key0 in
      if \<not> in_context env \<or> key = [] then (None, c)
      else case cache_get env now key c of
        (Some v, c1) \<Rightarrow> (normalize_blank (map_option CText v) allow_blank, c1)
      | (None, c1) \<Rightarrow>
          (case read_row s of
             None \<Rightarrow> (None, c1)
           | Some v \<Rightarrow> (normalize_blank (map_option CText v) allow_blank, cache_set env later key v c1)))"

definition read_app_config :: "config_env \<Rightarrow> string \<Rightarrow> bool \<Rightarrow> cfg_value option" where
  "read_app_config env key allow_blank =
     (if \<not> in_context env then None else normalize_blank (app_get env key None) allow_blank)"

definition read_env :: "config_env \<Rightarrow> string \<Rightarrow> bool \<Rightarrow> cfg_value option" where
  "read_env env key allow_blank = normalize_blank (map_option CText (environ env key)) allow_blank"

section \<open>Getters\<close>

text \<open>What one call sees: the environment, the clock and the session.\<close>

record config_call =
  c_env :: config_env
  c_now :: monotonic
  c_later :: monotonic
  c_session :: config_session

definition get_raw ::
  "config_call \<Rightarrow> string \<Rightarrow> cfg_value option \<Rightarrow> bool \<Rightarrow> bool \<Rightarrow> config_cache \<Rightarrow> cfg_value option \<times> config_cache"
where
  "get_raw w key dflt allow_blank prefer_env c =
     (let env = c_env w;
          system = read_system_config env (c_now w) (c_later w) (c_session w) key allow_blank;
          first = (\<lambda>a b. case a of Some v \<Rightarrow> Some v | None \<Rightarrow> b) in
      if prefer_env
      then (case read_env env key allow_blank of
              Some v \<Rightarrow> (Some v, c)
            | None \<Rightarrow> (case system c of (v, c1) \<Rightarrow> (first v (first (read_app_config env key allow_blank) dflt), c1)))
      else (case system c of (v, c1) \<Rightarrow>
              (first v (first (read_app_config env key allow_blank) (first (read_env env key allow_blank) dflt)), c1)))"

definition get_str ::
  "config_call \<Rightarrow> string \<Rightarrow> string option \<Rightarrow> bool \<Rightarrow> bool \<Rightarrow> bool \<Rightarrow> config_cache \<Rightarrow> string option \<times> config_cache"
where
  "get_str w key dflt do_strip allow_blank prefer_env c =
     (case get_raw w key (map_option CText dflt) allow_blank prefer_env c of
        (None, c1) \<Rightarrow> (dflt, c1)
      | (Some raw, c1) \<Rightarrow>
          let v = (if do_strip then strip (cfg_str raw) else cfg_str raw) in
          if v = [] \<and> \<not> allow_blank then (dflt, c1) else (Some v, c1))"

definition TRUE_SET :: "string list" where
  "TRUE_SET = [''1'', ''true'', ''yes'', ''on'']"

definition FALSE_SET :: "string list" where
  "FALSE_SET = [''0'', ''false'', ''no'', ''off'', []]"

definition parse_bool :: "bool \<Rightarrow> cfg_value option \<Rightarrow> bool" where
  "parse_bool dflt raw =
     (case raw of
        None \<Rightarrow> dflt
      | Some (CBool b) \<Rightarrow> b
      | Some (CInt n) \<Rightarrow> n \<noteq> 0
      | Some (CText s) \<Rightarrow>
          let v = lower (strip s) in
          if v \<in> set TRUE_SET then True else if v \<in> set FALSE_SET then False else dflt)"

definition get_bool :: "config_call \<Rightarrow> string \<Rightarrow> bool \<Rightarrow> bool \<Rightarrow> config_cache \<Rightarrow> bool \<times> config_cache" where
  "get_bool w key dflt prefer_env c =
     (case get_raw w key (Some (CBool dflt)) True prefer_env c of (raw, c1) \<Rightarrow> (parse_bool dflt raw, c1))"

definition parse_int :: "int option \<Rightarrow> int option \<Rightarrow> int option \<Rightarrow> cfg_value option \<Rightarrow> int option" where
  "parse_int dflt min_value max_value raw =
     (case raw of
        None \<Rightarrow> dflt
      | Some v \<Rightarrow>
          if v = CText [] then dflt
          else case py_int (strip (cfg_str v)) of
            None \<Rightarrow> dflt
          | Some n \<Rightarrow>
              if (case min_value of None \<Rightarrow> False | Some m \<Rightarrow> n < m) then dflt
              else if (case max_value of None \<Rightarrow> False | Some m \<Rightarrow> m < n) then dflt
              else Some n)"

definition get_int ::
  "config_call \<Rightarrow> string \<Rightarrow> int option \<Rightarrow> int option \<Rightarrow> int option \<Rightarrow> bool \<Rightarrow> config_cache \<Rightarrow> int option \<times> config_cache"
where
  "get_int w key dflt min_value max_value prefer_env c =
     (case get_raw w key (map_option CInt dflt) False prefer_env c of
        (raw, c1) \<Rightarrow> (parse_int dflt min_value max_value raw, c1))"

section \<open>The cache is bounded and returns what was stored\<close>

definition cache_ok :: "config_env \<Rightarrow> config_cache \<Rightarrow> bool" where
  "cache_ok env c \<longleftrightarrow> distinct (map fst c) \<and> length c \<le> cache_max_keys env"

lemma cache_max_keys_bounds: "64 \<le> cache_max_keys env \<and> cache_max_keys env \<le> 20000"
  unfolding cache_max_keys_def Let_def by (simp only: le_nat_iff nat_le_iff) linarith

lemma cache_ttl_le: "cache_ttl_seconds env \<le> 3600"
  by (simp add: cache_ttl_seconds_def Let_def)

lemma cache_set_ok: "cache_ok env c \<Longrightarrow> cache_ok env (cache_set env now key v c)"
  by (auto simp: cache_ok_def cache_set_def Let_def distinct_update distinct_map_filter
      intro!: distinct_drop simp flip: drop_map)

lemma cache_get_ok: "cache_ok env c \<Longrightarrow> cache_ok env (snd (cache_get env now key c))"
  by (auto simp: cache_ok_def cache_get_def distinct_delete split: option.splits intro: order_trans [OF length_delete_le])

lemma read_system_config_ok:
  "cache_ok env c \<Longrightarrow> cache_ok env (snd (read_system_config env now later s key b c))"
proof -
  assume ok: "cache_ok env c"
  obtain r c1 where g: "cache_get env now (strip key) c = (r, c1)" by force
  with cache_get_ok [OF ok, of now "strip key"] have "cache_ok env c1" by simp
  then show ?thesis
    using ok by (auto simp: read_system_config_def Let_def g cache_set_ok split: option.splits)
qed

text \<open>An application with a cache of 60 seconds and a database that answers.\<close>

definition example_env :: config_env where
  "example_env = \<lparr>in_context = True, app_config = map_of [(''CONFIG_SERVICE_CACHE_TTL_SECONDS'', Some (CText ''60''))], environ = (\<lambda>k. None)\<rparr>"

definition answering :: "string \<Rightarrow> config_session" where
  "answering v = \<lparr>sess_active = True, sess_flushing = False, sess_pending = False, sess_nested = False, rollback_works = True,
     first_read = Scalar (Some v), second_read = Scalar (Some v), out_of_band = Scalar (Some v)\<rparr>"

definition failing :: config_session where
  "failing = \<lparr>sess_active = True, sess_flushing = False, sess_pending = False, sess_nested = False, rollback_works = True,
     first_read = Raises (OtherExc ''boom''), second_read = Raises (OtherExc ''boom''), out_of_band = Raises (OtherExc ''boom'')\<rparr>"

definition example_call :: config_call where
  "example_call = \<lparr>c_env = example_env, c_now = 5, c_later = 6, c_session = answering ''42''\<rparr>"

text \<open>Every typed read of a setting keeps the cache a dictionary with at most as many entries as
  \<open>CONFIG_SERVICE_CACHE_MAX_KEYS\<close> allows, a limit between 64 and 20000.\<close>

theorem settings_cache_bounded:
  assumes "cache_ok (c_env w) c"
  shows "cache_ok (c_env w) (snd (get_raw w key dflt b prefer_env c))
    \<and> length (snd (get_raw w key dflt b prefer_env c)) \<le> 20000"
proof -
  have "cache_ok (c_env w) (snd (get_raw w key dflt b prefer_env c))"
    using assms read_system_config_ok [OF assms, of "c_now w" "c_later w" "c_session w" key b]
    by (auto simp: get_raw_def Let_def split: option.splits prod.splits)
  with cache_max_keys_bounds [of "c_env w"] show ?thesis by (auto simp: cache_ok_def)
qed

theorem settings_cache_bounded_witness:
  "get_raw example_call ''MAX_AGE'' None False False [] = (Some (CText ''42''), [(''MAX_AGE'', 66, Some ''42'')])
    \<and> cache_ok example_env (snd (get_raw example_call ''MAX_AGE'' None False False []))"
proof -
  have "c_env example_call = example_env" by (simp add: example_call_def)
  moreover have "cache_ok example_env []" by (simp add: cache_ok_def)
  ultimately have "cache_ok example_env (snd (get_raw example_call ''MAX_AGE'' None False False []))"
    using settings_cache_bounded [of example_call "[]" "''MAX_AGE''" None False False] by simp
  moreover have "get_raw example_call ''MAX_AGE'' None False False [] = (Some (CText ''42''), [(''MAX_AGE'', 66, Some ''42'')])"
    by code_simp
  ultimately show ?thesis by blast
qed

lemma map_of_update_last:
  "distinct (map fst c) \<Longrightarrow> map_of c k = None \<Longrightarrow> AList.update k x c = c @ [(k, x)]"
  by (induction c) (auto split: if_splits)

lemma length_update: "length (AList.update k x c) = (if k \<in> fst ` set c then length c else Suc (length c))"
  by (induction c) auto

text \<open>A setting stored in the cache is served from it until its time to live has passed, even when
  the store makes the cache drop other entries.\<close>

theorem cached_setting_is_served:
  assumes "cache_ok env c" and "0 < cache_ttl_seconds env" and "t < now + of_int (cache_ttl_seconds env)"
  shows "fst (cache_get env t key (cache_set env now key v c)) = Some v"
proof -
  let ?ttl = "cache_ttl_seconds env" and ?max = "cache_max_keys env"
  let ?x = "(now + of_int ?ttl, v)"
  let ?c1 = "AList.update key ?x c"
  let ?live = "filter (\<lambda>(k, e, x). \<not> e \<le> now) ?c1"
  have "map_of (cache_set env now key v c) key = Some ?x"
  proof (cases "length ?c1 \<le> ?max")
    case True
    then show ?thesis using assms(2) by (simp add: cache_set_def Let_def update_conv)
  next
    case False
    with assms(1) have new: "key \<notin> fst ` set c" unfolding length_update cache_ok_def by presburger
    then have c1: "?c1 = c @ [(key, ?x)]" using assms(1) by (intro map_of_update_last) (auto simp: cache_ok_def map_of_eq_None_iff)
    have live: "?live = filter (\<lambda>(k, e, x). \<not> e \<le> now) c @ [(key, ?x)]" using assms(2) by (simp add: c1)
    obtain d where d: "drop (length ?live - ?max) ?live = d @ [(key, ?x)]" and sub: "set d \<subseteq> set c"
    proof
      have "length ?live - ?max \<le> length (filter (\<lambda>(k, e, x). \<not> e \<le> now) c)"
        using cache_max_keys_bounds [of env] by (simp add: live del: filter.simps) linarith
      then show "drop (length ?live - ?max) ?live = drop (length ?live - ?max) (filter (\<lambda>(k, e, x). \<not> e \<le> now) c) @ [(key, ?x)]"
        by (subst (2) live) simp
      show "set (drop (length ?live - ?max) (filter (\<lambda>(k, e, x). \<not> e \<le> now) c)) \<subseteq> set c"
        by (meson filter_is_subset order_trans set_drop_subset)
    qed
    have "map_of d key = None" using new sub by (auto simp: map_of_eq_None_iff)
    then show ?thesis using False assms(2) by (simp add: cache_set_def Let_def d map_add_def)
  qed
  then show ?thesis using assms(2,3) by (simp add: cache_get_def)
qed

theorem cached_setting_is_served_witness:
  "fst (cache_get example_env 64 ''A'' (cache_set example_env 5 ''A'' (Some ''x'') [(''B'', 9, None)])) = Some (Some ''x'')"
proof -
  have ttl: "cache_ttl_seconds example_env = 60" by code_simp
  have "cache_ok example_env [(''B'', 9, None)]" using cache_max_keys_bounds [of example_env] by (simp add: cache_ok_def)
  then show ?thesis by (rule cached_setting_is_served) (simp_all add: ttl)
qed

section \<open>A setting is never older than an hour\<close>

text \<open>The reads of the database so far, with their time.\<close>

type_synonym read_log = "(monotonic \<times> string \<times> string option) list"

definition log_read :: "config_env \<Rightarrow> monotonic \<Rightarrow> monotonic \<Rightarrow> config_session \<Rightarrow> string \<Rightarrow> config_cache \<Rightarrow> read_log" where
  "log_read env now later s key c =
     (if in_context env \<and> strip key \<noteq> [] \<and> fst (cache_get env now (strip key) c) = None
      then (case read_row s of None \<Rightarrow> [] | Some v \<Rightarrow> [(later, strip key, v)]) else [])"

inductive settings_reachable :: "config_cache \<Rightarrow> read_log \<Rightarrow> bool" where
  start: "settings_reachable [] []"
| read: "settings_reachable c lg \<Longrightarrow>
    settings_reachable (snd (read_system_config env now later s key b c)) (lg @ log_read env now later s key c)"
| clear_cache: "settings_reachable c lg \<Longrightarrow> settings_reachable [] lg"

definition cache_logged :: "config_cache \<Rightarrow> read_log \<Rightarrow> bool" where
  "cache_logged c lg \<longleftrightarrow> (\<forall>(k, e, v) \<in> set c. \<exists>t. (t, k, v) \<in> set lg \<and> e \<le> t + 3600)"

lemma cache_logged_mono:
  "cache_logged c lg \<Longrightarrow> set c' \<subseteq> set c \<Longrightarrow> set lg \<subseteq> set lg' \<Longrightarrow> cache_logged c' lg'"
  unfolding cache_logged_def by blast

lemma cache_get_subset: "set (snd (cache_get env now key c)) \<subseteq> set c"
  by (auto simp: cache_get_def AList.delete_eq split: option.splits if_splits)

lemma cache_set_subset:
  "set (cache_set env now key v c) \<subseteq> insert (key, now + of_int (cache_ttl_seconds env), v) (set c)"
proof -
  let ?c1 = "AList.update key (now + of_int (cache_ttl_seconds env), v) c"
  have up: "set ?c1 \<subseteq> insert (key, now + of_int (cache_ttl_seconds env), v) (set c)" by (induction c) auto
  have "set (cache_set env now key v c) \<subseteq> set c \<union> set ?c1"
    by (auto simp: cache_set_def Let_def dest: in_set_dropD)
  with up show ?thesis by blast
qed

lemma settings_reachable_logged: "settings_reachable c lg \<Longrightarrow> cache_logged c lg"
proof (induction rule: settings_reachable.induct)
  case (read c lg env now later s key b)
  let ?k = "strip key"
  obtain r c1 where g: "cache_get env now ?k c = (r, c1)" by force
  with cache_get_subset [of env now ?k c] have sub: "set c1 \<subseteq> set c" by simp
  have keep: "cache_logged c1 (lg @ l)" "cache_logged c (lg @ l)" for l
    using read.IH sub by (auto intro: cache_logged_mono)
  show ?case
  proof (cases "in_context env \<and> ?k \<noteq> [] \<and> r = None \<and> read_row s \<noteq> None")
    case True
    then obtain v where v: "read_row s = Some v" by auto
    let ?new = "(?k, later + of_int (cache_ttl_seconds env), v)"
    have "later + rat_of_int (cache_ttl_seconds env) \<le> later + 3600"
      using of_int_le_iff [of "cache_ttl_seconds env" 3600, where 'a = rat] cache_ttl_le [of env] by simp
    then have "cache_logged [?new] (lg @ [(later, ?k, v)])" by (auto simp: cache_logged_def)
    with keep(1) [of "[(later, ?k, v)]"] have "cache_logged (?new # c1) (lg @ [(later, ?k, v)])" by (simp add: cache_logged_def)
    then have "cache_logged (cache_set env later ?k v c1) (lg @ [(later, ?k, v)])"
      by (rule cache_logged_mono) (use cache_set_subset [of env later ?k v c1] in auto)
    with True v show ?thesis by (simp add: read_system_config_def log_read_def g)
  next
    case False
    then have "snd (read_system_config env now later s key b c) \<in> {c, c1}"
      by (auto simp: read_system_config_def Let_def g split: option.splits)
    with keep show ?thesis by auto
  qed
qed (simp_all add: cache_logged_def)

text \<open>A setting read from \<open>system_config\<close> is at most an hour old: whatever was read, stored, dropped
  and cleared before, a value comes from the database in this call or from an earlier read of the
  same key less than 3600 seconds ago.\<close>

theorem settings_not_stale:
  assumes "settings_reachable c lg" and "read_system_config env now later s key b c = (Some v, c')"
  shows "\<exists>row. Some v = normalize_blank (map_option CText row) b
    \<and> (read_row s = Some row \<or> (\<exists>t. (t, strip key, row) \<in> set lg \<and> now < t + 3600))"
proof -
  obtain r c1 where g: "cache_get env now (strip key) c = (r, c1)" by force
  show ?thesis
  proof (cases r)
    case None
    with assms(2) g obtain row where "read_row s = Some row" "Some v = normalize_blank (map_option CText row) b"
      by (auto simp: read_system_config_def Let_def split: if_splits option.splits)
    then show ?thesis by blast
  next
    case (Some row)
    with g obtain e where e: "map_of c (strip key) = Some (e, row)" "now < e"
      by (auto simp: cache_get_def split: if_splits option.splits)
    from settings_reachable_logged [OF assms(1)] map_of_SomeD [OF e(1)]
    obtain t where "(t, strip key, row) \<in> set lg" "e \<le> t + 3600" by (auto simp: cache_logged_def)
    moreover have "Some v = normalize_blank (map_option CText row) b"
      using assms(2) g Some by (auto simp: read_system_config_def Let_def split: if_splits)
    ultimately show ?thesis using e(2) by force
  qed
qed

theorem settings_not_stale_witness:
  "\<exists>row. Some (CText ''42'') = normalize_blank (map_option CText row) False
    \<and> (read_row failing = Some row
       \<or> (\<exists>t. (t, strip ''K'', row) \<in> set (log_read example_env 5 6 (answering ''42'') ''K'' []) \<and> 65 < t + 3600))"
proof -
  have "settings_reachable (snd (read_system_config example_env 5 6 (answering ''42'') ''K'' False []))
      ([] @ log_read example_env 5 6 (answering ''42'') ''K'' [])"
    by (intro settings_reachable.intros)
  moreover have "snd (read_system_config example_env 5 6 (answering ''42'') ''K'' False []) = [(''K'', 66, Some ''42'')]"
    by code_simp
  ultimately have r: "settings_reachable [(''K'', 66, Some ''42'')] (log_read example_env 5 6 (answering ''42'') ''K'' [])" by simp
  have g: "read_system_config example_env 65 65 failing ''K'' False [(''K'', 66, Some ''42'')]
      = (Some (CText ''42''), [(''K'', 66, Some ''42'')])" by code_simp
  show ?thesis by (rule settings_not_stale [OF r g])
qed

section \<open>Typed getters\<close>

text \<open>An integer setting is the default or a number within the limits, whatever text, flag or
  number the environment, the database or the application's configuration holds and whether or not
  the database answers.\<close>

theorem get_int_within_limits:
  assumes "fst (get_int w key dflt lo hi prefer_env c) = Some n"
  shows "dflt = Some n \<or> (\<forall>m. lo = Some m \<longrightarrow> m \<le> n) \<and> (\<forall>m. hi = Some m \<longrightarrow> n \<le> m)"
proof -
  from assms obtain raw where "parse_int dflt lo hi raw = Some n" by (auto simp: get_int_def split: prod.splits)
  then show ?thesis by (auto simp: parse_int_def split: option.splits if_splits)
qed

theorem get_int_within_limits_witness:
  "fst (get_int example_call ''MAX_AGE'' (Some 7) (Some 10) (Some 50) False []) = Some 42 \<and> (10 :: int) \<le> 42 \<and> (42 :: int) \<le> 50"
proof -
  have "fst (get_int example_call ''MAX_AGE'' (Some 7) (Some 10) (Some 50) False []) = Some 42" by code_simp
  from get_int_within_limits [OF this] this show ?thesis by simp
qed

end
