(* ===== verification/Network_Access.thy ===== *)
theory Network_Access
  imports IP_Address Config_Service
begin

text \<open>
  Who may reach the service: the internal-network and country checks
  (\<open>app/utils/network_access.py\<close>), the CIDR guard with its proxy filter (\<open>app/security/cidr.py\<close>) and
  the country guard (\<open>app/security/country_block.py\<close>).

  Settings come from the configuration service, whose cache is threaded through. The GeoIP reader
  and the WSGI applications behind the proxy filter (the application and werkzeug's \<open>ProxyFix\<close>) are
  arguments, and so are the country files: a path has a modification time and, if it can be read,
  its lines.
\<close>

section \<open>Requests and settings\<close>

record http_request =
  remote_addr :: "string option"
  header :: "string \<Rightarrow> string option"
  url_path :: string
  user_role :: "string option option"

definition to_bool :: "cfg_value option \<Rightarrow> bool" where
  "to_bool v =
     (case v of None \<Rightarrow> False | Some (CBool b) \<Rightarrow> b
      | Some x \<Rightarrow> lower (strip (cfg_str x)) \<in> set [''1'', ''true'', ''yes'', ''on''])"

text \<open>\<open>re.split(r"[,\s]+", raw)\<close> without the empty pieces.\<close>

fun split_tokens_acc :: "string \<Rightarrow> string \<Rightarrow> string list" where
  "split_tokens_acc tok [] = (if tok = [] then [] else [rev tok])"
| "split_tokens_acc tok (c # cs) =
     (if c = CHR '','' \<or> is_space c
      then (if tok = [] then split_tokens_acc [] cs else rev tok # split_tokens_acc [] cs)
      else split_tokens_acc (c # tok) cs)"

definition split_tokens :: "string \<Rightarrow> string list" where
  "split_tokens raw = split_tokens_acc [] raw"

definition parse_networks :: "string list \<Rightarrow> network list" where
  "parse_networks tokens = List.map_filter ip_network tokens"

definition strip_zone :: "string \<Rightarrow> string" where
  "strip_zone s = takeWhile (\<lambda>c. c \<noteq> CHR ''%'') s"

definition get_client_ip :: "http_request \<Rightarrow> string option" where
  "get_client_ip req = (let s = strip (or_empty (remote_addr req)) in if s = [] then None else Some (strip_zone s))"

definition DEFAULT_INTERNAL_CIDRS :: "string list" where
  "DEFAULT_INTERNAL_CIDRS = [''127.0.0.0/8'', ''::1/128'', ''10.0.0.0/8'', ''172.16.0.0/12'', ''192.168.0.0/16'']"

definition internal_networks :: "string \<Rightarrow> network list" where
  "internal_networks raw = parse_networks (DEFAULT_INTERNAL_CIDRS @ split_tokens raw)"

definition forwarded :: "http_request \<Rightarrow> bool" where
  "forwarded req \<longleftrightarrow> or_empty (header req ''X-Forwarded-For'') \<noteq> [] \<or> or_empty (header req ''X-Real-IP'') \<noteq> []"

definition get_setting :: "config_call \<Rightarrow> string \<Rightarrow> cfg_value option \<Rightarrow> config_cache \<Rightarrow> cfg_value option \<times> config_cache" where
  "get_setting w key dflt c = get_raw w key dflt False False c"

definition is_internal_request :: "config_call \<Rightarrow> http_request \<Rightarrow> config_cache \<Rightarrow> bool \<times> config_cache" where
  "is_internal_request w req c =
     (case get_setting w ''SECURITY_TRUST_PROXY_HEADERS'' (Some (CBool False)) c of (trust, c1) \<Rightarrow>
        if \<not> to_bool trust \<and> forwarded req then (False, c1)
        else case get_client_ip req of
          None \<Rightarrow> (False, c1)
        | Some s \<Rightarrow>
            if s = [] then (False, c1)
            else case ip_address s of
              None \<Rightarrow> (False, c1)
            | Some a \<Rightarrow>
                (case get_setting w ''SECURITY_INTERNAL_CIDRS'' (Some (CText [])) c1 of (raw, c2) \<Rightarrow>
                   (list_ex (ip_in a) (internal_networks (case raw of None \<Rightarrow> [] | Some v \<Rightarrow> cfg_str v)), c2)))"

section \<open>Countries\<close>

definition blocked_country_codes :: "config_call \<Rightarrow> config_cache \<Rightarrow> string list \<times> config_cache" where
  "blocked_country_codes w c =
     (case get_setting w ''SECURITY_BLOCKED_COUNTRY_CODES'' (Some (CText [])) c of (raw, c1) \<Rightarrow>
        (map upper (case raw of None \<Rightarrow> [] | Some v \<Rightarrow> if cfg_truthy v then split_tokens (cfg_str v) else []), c1))"

text \<open>\<open>geoip path ip\<close>: the ISO code the database at \<open>path\<close> has, \<open>None\<close> when it has none or fails.\<close>

definition lookup_country_code ::
  "config_call \<Rightarrow> (string \<Rightarrow> string \<Rightarrow> string option) \<Rightarrow> string \<Rightarrow> config_cache \<Rightarrow> string option \<times> config_cache"
where
  "lookup_country_code w geoip s c =
     (case get_setting w ''SECURITY_GEOIP_COUNTRY_DB'' (Some (CText [])) c of (path, c1) \<Rightarrow>
        (case path of
           None \<Rightarrow> None
         | Some v \<Rightarrow> if \<not> cfg_truthy v then None
                     else (case geoip (cfg_str v) s of None \<Rightarrow> None | Some code \<Rightarrow> if code = [] then None else Some (upper code)), c1))"

definition country_cidr_dir :: "config_call \<Rightarrow> config_cache \<Rightarrow> string \<times> config_cache" where
  "country_cidr_dir w c =
     (case get_setting w ''SECURITY_COUNTRY_CIDR_DIR'' (Some (CText [])) c of (raw, c1) \<Rightarrow>
        (let d = strip (case raw of None \<Rightarrow> [] | Some v \<Rightarrow> if cfg_truthy v then cfg_str v else []) in
         if d = [] then ''/app/data/country_cidrs'' else d, c1))"

definition path_join :: "string \<Rightarrow> string \<Rightarrow> string" where
  "path_join a b = (if startswith b ''/'' then b else if a = [] \<or> endswith a ''/'' then a @ b else a @ ''/'' @ b)"

definition zone_file_path :: "config_call \<Rightarrow> string \<Rightarrow> config_cache \<Rightarrow> string \<times> config_cache" where
  "zone_file_path w code c =
     (case country_cidr_dir w c of (d, c1) \<Rightarrow> (path_join d (lower (strip code) @ ''.zone''), c1))"

text \<open>A country file: its modification time and its lines.\<close>

type_synonym zone_files = "string \<Rightarrow> int \<times> string list option"

fun net4_range :: "network \<Rightarrow> (int \<times> int) option" where
  "net4_range (Net4 n m) = Some (uint n, uint (broadcast_address n m))"
| "net4_range (Net6 n m) = None"

definition zone_line :: "string \<Rightarrow> (int \<times> int) option" where
  "zone_line raw =
     (let line = strip raw in
      if line = [] \<or> startswith line ''#'' then None
      else case ip_network line of None \<Rightarrow> None | Some net \<Rightarrow> net4_range net)"

text \<open>The loop that merges sorted ranges; the last range is the head of the accumulator.\<close>

definition merge_range :: "int \<times> int \<Rightarrow> (int \<times> int) list \<Rightarrow> (int \<times> int) list" where
  "merge_range r acc =
     (case acc of
        [] \<Rightarrow> [r]
      | (ms, me) # rest \<Rightarrow> if me + 1 < fst r then r # acc else (ms, max me (snd r)) # rest)"

definition load_ipv4_range_index :: "string list option \<Rightarrow> int list \<times> int list" where
  "load_ipv4_range_index content =
     (case content of
        None \<Rightarrow> ([], [])
      | Some ls \<Rightarrow>
          let ranges = List.map_filter zone_line ls;
              merged = rev (fold merge_range (sort_key fst ranges) []) in
          if ranges = [] then ([], []) else (map fst merged, map snd merged))"

text \<open>\<open>bisect.bisect_right\<close>.\<close>

function bisect_right :: "int list \<Rightarrow> int \<Rightarrow> nat \<Rightarrow> nat \<Rightarrow> nat" where
  "bisect_right a x lo hi =
     (if lo < hi
      then let mid = (lo + hi) div 2 in
        if x < a ! mid then bisect_right a x lo mid else bisect_right a x (mid + 1) hi
      else lo)"
  by pat_completeness auto
termination
  by (relation "measure (\<lambda>(a, x, lo, hi). hi - lo)") auto

declare bisect_right.simps [simp del]

definition ipv4_in_index :: "int \<Rightarrow> int list \<times> int list \<Rightarrow> bool" where
  "ipv4_in_index n index =
     (case index of (starts, ends) \<Rightarrow>
        if starts = [] then False
        else let i = int (bisect_right starts n 0 (length starts)) - 1 in
          if i < 0 then False else n \<le> ends ! nat i)"

fun any_zone :: "config_call \<Rightarrow> zone_files \<Rightarrow> int \<Rightarrow> string list \<Rightarrow> config_cache \<Rightarrow> bool \<times> config_cache" where
  "any_zone w zones n [] c = (False, c)"
| "any_zone w zones n (code # codes) c =
     (case zone_file_path w code c of (path, c1) \<Rightarrow>
        if fst (zones path) \<le> 0 then any_zone w zones n codes c1
        else if ipv4_in_index n (load_ipv4_range_index (snd (zones path))) then (True, c1)
        else any_zone w zones n codes c1)"

definition is_blocked_by_country_cidrs ::
  "config_call \<Rightarrow> zone_files \<Rightarrow> string \<Rightarrow> string list \<Rightarrow> config_cache \<Rightarrow> bool \<times> config_cache"
where
  "is_blocked_by_country_cidrs w zones s codes c =
     (if codes = [] then (False, c)
      else case ip_address s of
        Some (IPv4 a) \<Rightarrow> any_zone w zones (uint a) codes c
      | _ \<Rightarrow> (False, c))"

definition is_blocked_country ::
  "config_call \<Rightarrow> (string \<Rightarrow> string \<Rightarrow> string option) \<Rightarrow> zone_files \<Rightarrow> http_request \<Rightarrow> config_cache \<Rightarrow> bool \<times> config_cache"
where
  "is_blocked_country w geoip zones req c =
     (case is_internal_request w req c of (internal, c1) \<Rightarrow>
        if internal then (False, c1)
        else case blocked_country_codes w c1 of (codes, c2) \<Rightarrow>
          if codes = [] then (False, c2)
          else case get_client_ip req of
            None \<Rightarrow> (False, c2)
          | Some s \<Rightarrow>
              if s = [] then (False, c2)
              else case lookup_country_code w geoip s c2 of
                (Some code, c3) \<Rightarrow> (code \<in> set codes, c3)
              | (None, c3) \<Rightarrow> is_blocked_by_country_cidrs w zones s codes c3)"

definition is_admin_or_internal :: "config_call \<Rightarrow> http_request \<Rightarrow> config_cache \<Rightarrow> bool \<times> config_cache" where
  "is_admin_or_internal w req c =
     (case user_role req of
        Some role \<Rightarrow> if strip (or_empty role) = ''admin'' then (True, c) else is_internal_request w req c
      | None \<Rightarrow> is_internal_request w req c)"

definition check_admin_or_internal_access ::
  "config_call \<Rightarrow> (string \<Rightarrow> string \<Rightarrow> string option) \<Rightarrow> zone_files \<Rightarrow> http_request \<Rightarrow> config_cache
    \<Rightarrow> (bool \<times> string) \<times> config_cache"
where
  "check_admin_or_internal_access w geoip zones req c =
     (case is_blocked_country w geoip zones req c of (blocked, c1) \<Rightarrow>
        if blocked then ((False, ''blocked_country''), c1)
        else case is_admin_or_internal w req c1 of (ok, c2) \<Rightarrow>
          if ok then ((True, []), c2) else ((False, ''forbidden''), c2))"

section \<open>The country guard\<close>

definition wants_json_response :: "http_request \<Rightarrow> bool" where
  "wants_json_response req \<longleftrightarrow>
     str_contains ''application/json'' (lower (or_empty (header req ''Accept'')))
     \<or> startswith (lower (url_path req)) ''/api/'' \<or> startswith (lower (url_path req)) ''/admin/api/''"

datatype guard_result = Continue | BlockedJson | BlockedPage | Forbidden string

definition country_block_guard ::
  "config_call \<Rightarrow> (string \<Rightarrow> string \<Rightarrow> string option) \<Rightarrow> zone_files \<Rightarrow> http_request \<Rightarrow> config_cache \<Rightarrow> guard_result \<times> config_cache"
where
  "country_block_guard w geoip zones req c =
     (case is_blocked_country w geoip zones req c of (blocked, c1) \<Rightarrow>
        (if \<not> blocked then Continue else if wants_json_response req then BlockedJson else BlockedPage, c1))"

section \<open>The CIDR guard\<close>

definition PRIVATE_DEFAULTS :: "string list" where
  "PRIVATE_DEFAULTS = [''127.0.0.1/32'', ''::1/128'', ''10.0.0.0/8'', ''172.16.0.0/12'', ''192.168.0.0/16'', ''fc00::/7'']"

definition TRUSTED_PROXY_DEFAULTS :: "string list" where
  "TRUSTED_PROXY_DEFAULTS = [''127.0.0.1/32'', ''::1/128'']"

definition guard_client_ip :: "bool \<Rightarrow> http_request \<Rightarrow> string" where
  "guard_client_ip trust_proxy req = (if \<not> trust_proxy \<and> forwarded req then [] else or_empty (remote_addr req))"

definition parse_cidrs :: "string \<Rightarrow> network list" where
  "parse_cidrs raw0 =
     (let raw = strip raw0 in
      if raw = [] then []
      else List.map_filter (\<lambda>part. let p = strip part in if p = [] then None else ip_network p)
             (split_on (CHR '','') (replace_char (CHR 0x0A) (CHR '','') (replace_char (CHR 0x0D) (CHR 0x0A) raw))))"

definition is_production :: "string \<Rightarrow> bool" where
  "is_production env_name \<longleftrightarrow> lower env_name \<in> set [''prod'', ''production'']"

definition compiled_allowlist :: "string \<Rightarrow> string \<Rightarrow> network list" where
  "compiled_allowlist raw env_name =
     (let allow = parse_cidrs raw in
      if allow \<noteq> [] then allow
      else if is_production env_name then parse_cidrs (join '','' PRIVATE_DEFAULTS) else [])"

definition is_allowed :: "string \<Rightarrow> network list \<Rightarrow> bool" where
  "is_allowed s allowlist =
     (if s = [] then False
      else case ip_address s of None \<Rightarrow> False | Some a \<Rightarrow> allowlist = [] \<or> list_ex (ip_in a) allowlist)"

definition ip_in_networks :: "string \<Rightarrow> network list \<Rightarrow> bool" where
  "ip_in_networks s nets =
     (if s = [] then False else case ip_address s of None \<Rightarrow> False | Some a \<Rightarrow> list_ex (ip_in a) nets)"

definition compiled_trusted_proxy_allowlist :: "string \<Rightarrow> network list" where
  "compiled_trusted_proxy_allowlist raw =
     parse_cidrs (if strip raw \<noteq> [] then strip raw else join '','' TRUSTED_PROXY_DEFAULTS)"

text \<open>The proxy filter: the WSGI environment, the two applications behind it and the trusted peers.\<close>

type_synonym wsgi_environ = "string \<Rightarrow> string option"

definition FORWARDED_KEYS :: "string list" where
  "FORWARDED_KEYS =
     [''HTTP_X_FORWARDED_FOR'', ''HTTP_X_REAL_IP'', ''HTTP_X_FORWARDED_PROTO'', ''HTTP_X_FORWARDED_HOST'',
      ''HTTP_X_FORWARDED_PORT'', ''HTTP_X_FORWARDED_PREFIX'']"

definition trusted_proxy_fix ::
  "(wsgi_environ \<Rightarrow> 'r) \<Rightarrow> (wsgi_environ \<Rightarrow> 'r) \<Rightarrow> network list \<Rightarrow> wsgi_environ \<Rightarrow> 'r"
where
  "trusted_proxy_fix app proxy_fix trusted env =
     (if ip_in_networks (or_empty (env ''REMOTE_ADDR'')) trusted then proxy_fix env
      else app (\<lambda>k. if k \<in> set FORWARDED_KEYS then None else env k))"

text \<open>\<open>init_cidr_guards\<close>: the filter is installed when the boot configuration trusts proxy headers.\<close>

definition trust_proxy_boot :: "config_env \<Rightarrow> cfg_value option" where
  "trust_proxy_boot env =
     app_get env ''SECURITY_TRUST_PROXY_HEADERS'' (app_get env ''TRUST_PROXY_HEADERS'' (Some (CBool False)))"

definition value_true :: "cfg_value option \<Rightarrow> bool" where
  "value_true v = (case v of None \<Rightarrow> False | Some x \<Rightarrow> cfg_truthy x)"

definition value_text :: "cfg_value option \<Rightarrow> string" where
  "value_text v = (case v of None \<Rightarrow> [] | Some x \<Rightarrow> if cfg_truthy x then cfg_str x else [])"

definition install_proxy_filter ::
  "config_env \<Rightarrow> (wsgi_environ \<Rightarrow> 'r) \<Rightarrow> (wsgi_environ \<Rightarrow> 'r) \<Rightarrow> wsgi_environ \<Rightarrow> 'r"
where
  "install_proxy_filter env app proxy_fix =
     (if value_true (trust_proxy_boot env)
      then trusted_proxy_fix app proxy_fix
             (compiled_trusted_proxy_allowlist (value_text (app_get env ''SECURITY_TRUSTED_PROXY_CIDRS'' (Some (CText [])))))
      else app)"

definition guard_exempt :: "string \<Rightarrow> bool" where
  "guard_exempt path \<longleftrightarrow> startswith path ''/static/'' \<or> path \<in> set [''/favicon.ico'', ''/health'', ''/ready'']"

text \<open>One scope of the guard: the allowlist setting and the check of the client's address.\<close>

definition guard_scope ::
  "config_call \<Rightarrow> string \<Rightarrow> string \<Rightarrow> string \<Rightarrow> bool \<Rightarrow> http_request \<Rightarrow> config_cache \<Rightarrow> guard_result \<times> config_cache"
where
  "guard_scope w setting scope env_name trust_proxy req c =
     (case get_str w setting (map_option cfg_str (app_get (c_env w) setting (Some (CText [])))) True True True c of (raw, c1) \<Rightarrow>
        (if is_allowed (guard_client_ip trust_proxy req) (compiled_allowlist (or_empty raw) env_name)
         then Continue else Forbidden scope, c1))"

definition guard_env_name :: "config_env \<Rightarrow> string" where
  "guard_env_name env =
     (let e = app_get env ''ENV'' (Some (CText [])) in
      case (if value_true e then e else app_get env ''FLASK_ENV'' (Some (CText []))) of None \<Rightarrow> ''None'' | Some v \<Rightarrow> cfg_str v)"

definition cidr_guard :: "config_call \<Rightarrow> http_request \<Rightarrow> config_cache \<Rightarrow> guard_result \<times> config_cache" where
  "cidr_guard w req c =
     (let env = c_env w; path = url_path req; env_name = guard_env_name env in
      if guard_exempt path then (Continue, c)
      else
        case get_bool w ''CIDR_GUARD_ENABLED'' (value_true (app_get env ''CIDR_GUARD_ENABLED'' (Some (CBool True)))) True c of
          (enabled, c1) \<Rightarrow>
            (case get_bool w ''SECURITY_TRUST_PROXY_HEADERS'' (value_true (trust_proxy_boot env)) True c1 of
               (trust, c2) \<Rightarrow>
                 if \<not> enabled then (Continue, c2)
                 else
                   case (if startswith path ''/admin''
                         then guard_scope w ''ADMIN_CIDR_ALLOWLIST'' ''admin'' env_name trust req c2 else (Continue, c2)) of
                     (Forbidden s, c3) \<Rightarrow> (Forbidden s, c3)
                   | (r, c3) \<Rightarrow>
                       if startswith path ''/internal'' \<or> startswith path ''/api/internal''
                       then guard_scope w ''INTERNAL_API_CIDR_ALLOWLIST'' ''internal'' env_name trust req c3
                       else (r, c3)))"

section \<open>The range index answers like the list of networks\<close>

definition in_ranges :: "int \<Rightarrow> (int \<times> int) list \<Rightarrow> bool" where
  "in_ranges x rs \<longleftrightarrow> (\<exists>(s, e) \<in> set rs. s \<le> x \<and> x \<le> e)"

definition gapped :: "(int \<times> int) list \<Rightarrow> bool" where
  "gapped rs \<longleftrightarrow> sorted_wrt (\<lambda>(s, e) (s', e'). e < s') rs \<and> (\<forall>(s, e) \<in> set rs. s \<le> e)"

lemma merge_range_gapped:
  assumes "gapped (rev acc)" and "s \<le> e" and "\<forall>(ms, me) \<in> set acc. ms \<le> s"
  shows "gapped (rev (merge_range (s, e) acc)) \<and> (\<forall>(ms, me) \<in> set (merge_range (s, e) acc). ms \<le> s)
    \<and> (\<forall>x. in_ranges x (merge_range (s, e) acc) \<longleftrightarrow> in_ranges x acc \<or> s \<le> x \<and> x \<le> e)"
proof (cases acc)
  case Nil
  then show ?thesis using assms by (auto simp: merge_range_def gapped_def in_ranges_def)
next
  case (Cons r rest)
  obtain ms me where r: "r = (ms, me)" by force
  have old: "gapped (rev rest)" "ms \<le> me" "\<forall>(s', e') \<in> set rest. e' < ms" "\<forall>(s', e') \<in> set rest. s' \<le> e'"
    using assms(1) by (auto simp: Cons r gapped_def sorted_wrt_append)
  have ms: "ms \<le> s" using assms(3) by (auto simp: Cons r)
  show ?thesis
  proof (cases "me + 1 < s")
    case True
    then show ?thesis using assms old
      by (fastforce simp: merge_range_def Cons r gapped_def sorted_wrt_append in_ranges_def)
  next
    case False
    then have m: "merge_range (s, e) acc = (ms, max me e) # rest" by (simp add: merge_range_def Cons r)
    have g: "gapped (rev ((ms, max me e) # rest))"
      using old by (auto simp: gapped_def sorted_wrt_append)
    have "in_ranges x ((ms, max me e) # rest) \<longleftrightarrow> in_ranges x (r # rest) \<or> s \<le> x \<and> x \<le> e" for x
      using False ms old(2) assms(2) by (auto simp: in_ranges_def r)
    with g m show ?thesis using assms(3) by (auto simp: Cons r)
  qed
qed

lemma merge_ranges:
  assumes "sorted (map fst rs)" and "\<forall>(s, e) \<in> set rs. s \<le> e" and "gapped (rev acc)"
    and "\<forall>(ms, me) \<in> set acc. \<forall>(s, e) \<in> set rs. ms \<le> s"
  shows "gapped (rev (fold merge_range rs acc))
    \<and> (\<forall>x. in_ranges x (fold merge_range rs acc) \<longleftrightarrow> in_ranges x acc \<or> in_ranges x rs)"
  using assms
proof (induction rs arbitrary: acc)
  case (Cons r rs)
  obtain s e where r: "r = (s, e)" by force
  have "s \<le> e" "\<forall>(ms, me) \<in> set acc. ms \<le> s" using Cons.prems(2,4) by (auto simp: r)
  note step = merge_range_gapped [OF Cons.prems(3) this]
  have "\<forall>(ms, me) \<in> set (merge_range (s, e) acc). \<forall>(s', e') \<in> set rs. ms \<le> s'"
    using step Cons.prems(1) by (fastforce simp: r)
  with Cons.IH [of "merge_range (s, e) acc"] step Cons.prems(1,2)
  have "gapped (rev (fold merge_range rs (merge_range (s, e) acc)))
    \<and> (\<forall>x. in_ranges x (fold merge_range rs (merge_range (s, e) acc)) \<longleftrightarrow> in_ranges x (merge_range (s, e) acc) \<or> in_ranges x rs)"
    by simp
  with step show ?case by (auto simp: r in_ranges_def)
qed (simp add: in_ranges_def)

lemma bisect_right_spec:
  assumes "sorted a" and "lo \<le> hi" and "hi \<le> length a"
    and "\<forall>i < lo. a ! i \<le> x" and "\<forall>i. hi \<le> i \<and> i < length a \<longrightarrow> x < a ! i"
  shows "bisect_right a x lo hi \<le> length a \<and> (\<forall>i < bisect_right a x lo hi. a ! i \<le> x)
    \<and> (\<forall>i. bisect_right a x lo hi \<le> i \<and> i < length a \<longrightarrow> x < a ! i)"
  using assms
proof (induction a x lo hi rule: bisect_right.induct)
  case (1 a x lo hi)
  show ?case
  proof (cases "lo < hi")
    case True
    let ?mid = "(lo + hi) div 2"
    have mid: "lo \<le> ?mid" "?mid < hi" using True by auto
    show ?thesis
    proof (cases "x < a ! ?mid")
      case less: True
      have "\<forall>i. ?mid \<le> i \<and> i < length a \<longrightarrow> x < a ! i"
        using less 1(3) by (meson le_less_trans less_le_trans sorted_nth_mono)
      moreover have "bisect_right a x lo hi = bisect_right a x lo ?mid" using True less by (subst bisect_right.simps) (simp add: Let_def)
      ultimately show ?thesis using "1.IH"(1) [OF True refl less 1(3) mid(1) _ 1(6)] mid 1(5) by simp
    next
      case False
      have "\<forall>i < ?mid + 1. a ! i \<le> x"
        using False 1(3,5) mid by (metis Suc_eq_plus1 le_less_trans less_Suc_eq_le less_le_trans not_le sorted_nth_mono order_trans)
      moreover have "bisect_right a x lo hi = bisect_right a x (?mid + 1) hi" using True False by (subst bisect_right.simps) (simp add: Let_def)
      ultimately show ?thesis using "1.IH"(2) [OF True refl False 1(3) _ 1(5) _ 1(7)] mid by simp
    qed
  next
    case False
    then have "bisect_right a x lo hi = lo" by (subst bisect_right.simps) simp
    moreover have "lo = hi" using False 1(4) by simp
    ultimately show ?thesis using 1(5,6,7) by simp
  qed
qed

lemma ipv4_in_index_gapped:
  assumes "gapped ms"
  shows "ipv4_in_index x (map fst ms, map snd ms) \<longleftrightarrow> in_ranges x ms"
proof (cases "ms = []")
  case False
  define b where "b = bisect_right (map fst ms) x 0 (length ms)"
  have lt: "fst (ms ! i) < fst (ms ! j) \<and> snd (ms ! i) < fst (ms ! j)" if "i < j" "j < length ms" for i j
  proof -
    have "snd (ms ! i) < fst (ms ! j)" using assms that by (auto simp: gapped_def sorted_wrt_iff_nth_less split_beta)
    moreover have "fst (ms ! i) \<le> snd (ms ! i)" using assms that by (auto simp: gapped_def split_beta)
    ultimately show ?thesis by simp
  qed
  then have "sorted (map fst ms)" by (auto simp: sorted_iff_nth_mono_less intro: less_imp_le)
  then have b: "b \<le> length ms" "\<forall>i < b. fst (ms ! i) \<le> x" "\<forall>i. b \<le> i \<and> i < length ms \<longrightarrow> x < fst (ms ! i)"
    using bisect_right_spec [of "map fst ms" 0 "length ms" x] by (auto simp: b_def)
  have idx: "ipv4_in_index x (map fst ms, map snd ms) \<longleftrightarrow> 0 < b \<and> x \<le> snd (ms ! (b - 1))"
  proof -
    have "nat (int b - 1) = b - 1" by simp
    moreover have "0 < b \<Longrightarrow> b - 1 < length ms" using b(1) by simp
    ultimately show ?thesis using False by (auto simp: ipv4_in_index_def Let_def b_def [symmetric])
  qed
  show ?thesis
  proof
    assume "ipv4_in_index x (map fst ms, map snd ms)"
    with idx b have "b - 1 < length ms" "fst (ms ! (b - 1)) \<le> x" "x \<le> snd (ms ! (b - 1))" by auto
    then show "in_ranges x ms" unfolding in_ranges_def by (metis nth_mem prod.collapse case_prodI)
  next
    assume "in_ranges x ms"
    then obtain i where i: "i < length ms" "fst (ms ! i) \<le> x" "x \<le> snd (ms ! i)"
      by (auto simp: in_ranges_def in_set_conv_nth)
    with b(3) have "i < b" by (meson not_le)
    moreover have "b \<le> Suc i"
    proof (rule ccontr)
      assume "\<not> b \<le> Suc i"
      then have "Suc i < b" by simp
      then show False using b(1,2) lt [of i "Suc i"] i by fastforce
    qed
    ultimately have "b = Suc i" by simp
    with i idx show "ipv4_in_index x (map fst ms, map snd ms)" by simp
  qed
qed (simp add: ipv4_in_index_def in_ranges_def)

lemma zone_line_le: "zone_line l = Some (s, e) \<Longrightarrow> s \<le> e"
proof -
  assume "zone_line l = Some (s, e)"
  then obtain net where "net4_range net = Some (s, e)" by (auto simp: zone_line_def Let_def split: if_splits option.splits)
  then show ?thesis using broadcast_ge by (cases net) (auto simp: word_le_def)
qed

lemma index_in_ranges:
  "ipv4_in_index x (load_ipv4_range_index (Some ls)) \<longleftrightarrow> in_ranges x (List.map_filter zone_line ls)"
proof -
  let ?rs = "List.map_filter zone_line ls"
  let ?ms = "rev (fold merge_range (sort_key fst ?rs) [])"
  have le: "\<forall>(s, e) \<in> set (sort_key fst ?rs). s \<le> e"
    using zone_line_le by (fastforce simp: map_filter_def)
  have "gapped ?ms \<and> (\<forall>x. in_ranges x (fold merge_range (sort_key fst ?rs) []) \<longleftrightarrow> in_ranges x [] \<or> in_ranges x (sort_key fst ?rs))"
    by (rule merge_ranges [OF sorted_sort_key le]) (auto simp: gapped_def)
  then have "gapped ?ms" "in_ranges x ?ms \<longleftrightarrow> in_ranges x ?rs" by (auto simp: in_ranges_def)
  then have "?rs \<noteq> [] \<Longrightarrow> ?thesis"
    using ipv4_in_index_gapped [of ?ms x] by (simp add: load_ipv4_range_index_def Let_def)
  moreover have "?rs = [] \<Longrightarrow> ?thesis" by (simp add: load_ipv4_range_index_def ipv4_in_index_def in_ranges_def)
  ultimately show ?thesis by blast
qed

text \<open>The network on a line, if it holds one.\<close>

definition line_network :: "string \<Rightarrow> network option" where
  "line_network l = (if strip l = [] \<or> startswith (strip l) ''#'' then None else ip_network (strip l))"

definition line_contains :: "ip \<Rightarrow> string \<Rightarrow> bool" where
  "line_contains a l = (case line_network l of None \<Rightarrow> False | Some net \<Rightarrow> ip_in a net)"

lemma zone_line_contains:
  "(\<exists>s e. zone_line l = Some (s, e) \<and> s \<le> uint a \<and> uint a \<le> e) \<longleftrightarrow> line_contains (IPv4 a) l"
proof (cases "line_network l")
  case (Some net)
  then have n: "ip_network (strip l) = Some net" and z: "zone_line l = net4_range net"
    by (auto simp: line_network_def zone_line_def Let_def split: if_splits)
  have ok: "net_ok net" by (rule ip_network_ok [OF n])
  show ?thesis
  proof (cases net)
    case (Net4 x m)
    with ip4_in_interval [of x m a] ok show ?thesis unfolding z line_contains_def Some option.case by (simp del: ip_in.simps)
  qed (simp add: z line_contains_def Some)
qed (auto simp: line_contains_def line_network_def zone_line_def Let_def split: if_splits option.splits)

text \<open>C7: The merged, binary-searched index of a country file answers like its list of networks: an
  IPv4 address is found in the index exactly when one of the lines that are neither blank nor
  comments is an IPv4 network that contains it, however the networks overlap, touch or repeat.\<close>

theorem country_index_equals_networks:
  "ipv4_in_index (uint a) (load_ipv4_range_index (Some ls)) \<longleftrightarrow> list_ex (line_contains (IPv4 a)) ls"
proof -
  have "in_ranges (uint a) (List.map_filter zone_line ls) \<longleftrightarrow>
      (\<exists>l \<in> set ls. \<exists>s e. zone_line l = Some (s, e) \<and> s \<le> uint a \<and> uint a \<le> e)"
    by (force simp: in_ranges_def map_filter_def)
  then show ?thesis by (simp only: index_in_ranges zone_line_contains list_ex_iff)
qed

section \<open>The guards let in whom they should\<close>

lemma private_defaults_parse: "parse_cidrs (join '','' PRIVATE_DEFAULTS) \<noteq> []"
  by code_simp

lemma production_allowlist: "is_production env_name \<Longrightarrow> compiled_allowlist raw env_name \<noteq> []"
  using private_defaults_parse by (simp add: compiled_allowlist_def Let_def)

lemma admin_not_exempt: "startswith path ''/admin'' \<Longrightarrow> \<not> guard_exempt path"
proof
  assume admin: "startswith path ''/admin''" and ex: "guard_exempt path"
  have "\<not> startswith p ''/admin''" if "p \<in> set [''/favicon.ico'', ''/health'', ''/ready'']" for p
  proof -
    have "list_all (\<lambda>p. \<not> startswith p ''/admin'') [''/favicon.ico'', ''/health'', ''/ready'']" by code_simp
    with that show ?thesis unfolding list_all_iff by blast
  qed
  with admin ex have "startswith path ''/static/''" unfolding guard_exempt_def by blast
  then have "path ! 1 = ''/static/'' ! 1" by (rule startswith_nth) simp
  moreover have "path ! 1 = ''/admin'' ! 1" using admin by (rule startswith_nth) simp
  ultimately show False by simp
qed

lemma guard_scope_continue:
  assumes "fst (guard_scope w setting scope env_name trust req c) = Continue" and "is_production env_name"
  defines "allow \<equiv> compiled_allowlist (or_empty (fst (get_str w setting
      (map_option cfg_str (app_get (c_env w) setting (Some (CText [])))) True True True c))) env_name"
  shows "ip_in_networks (or_empty (remote_addr req)) allow \<and> (trust \<or> \<not> forwarded req)"
proof -
  from assms(1) have ok: "is_allowed (guard_client_ip trust req) allow"
    by (auto simp: guard_scope_def allow_def split: prod.splits if_splits)
  then have "guard_client_ip trust req \<noteq> []" by (auto simp: is_allowed_def)
  then have "guard_client_ip trust req = or_empty (remote_addr req)" "trust \<or> \<not> forwarded req"
    by (auto simp: guard_client_ip_def split: if_splits)
  with ok production_allowlist [OF assms(2)] show ?thesis
    by (auto simp: is_allowed_def ip_in_networks_def allow_def split: if_splits option.splits)
qed

text \<open>C23: In production the CIDR guard is closed by default: with the guard enabled, a request to an
  administration path goes on only when the peer's address is in the configured allowlist, or in
  the private ranges when none is configured, and forwarding headers are absent unless the proxy is
  trusted.\<close>

theorem production_admin_needs_listed_peer:
  assumes "startswith (url_path req) ''/admin''" and "is_production (guard_env_name (c_env w))"
    and "get_bool w ''CIDR_GUARD_ENABLED'' (value_true (app_get (c_env w) ''CIDR_GUARD_ENABLED'' (Some (CBool True)))) True c = (True, c1)"
    and "get_bool w ''SECURITY_TRUST_PROXY_HEADERS'' (value_true (trust_proxy_boot (c_env w))) True c1 = (trust, c2)"
    and "get_str w ''ADMIN_CIDR_ALLOWLIST'' (map_option cfg_str (app_get (c_env w) ''ADMIN_CIDR_ALLOWLIST'' (Some (CText [])))) True True True c2 = (raw, c3)"
    and "fst (cidr_guard w req c) = Continue"
  shows "ip_in_networks (or_empty (remote_addr req)) (compiled_allowlist (or_empty raw) (guard_env_name (c_env w)))
    \<and> (trust \<or> \<not> forwarded req)"
proof -
  have "fst (guard_scope w ''ADMIN_CIDR_ALLOWLIST'' ''admin'' (guard_env_name (c_env w)) trust req c2) = Continue"
  proof (rule ccontr)
    let ?g = "guard_scope w ''ADMIN_CIDR_ALLOWLIST'' ''admin'' (guard_env_name (c_env w)) trust req c2"
    assume no: "fst ?g \<noteq> Continue"
    then obtain s c4 where g: "?g = (Forbidden s, c4)" by (auto simp: guard_scope_def split: prod.splits if_splits)
    have "cidr_guard w req c = (Forbidden s, c4)"
      unfolding cidr_guard_def Let_def if_not_P [OF admin_not_exempt [OF assms(1)]] assms(3,4) prod.case if_P [OF assms(1)] g
      by simp
    with assms(6) show False by simp
  qed
  from guard_scope_continue [OF this assms(2)] show ?thesis by (simp add: assms(5))
qed

text \<open>Forwarding headers count only from a trusted proxy: for a peer outside the trusted
  networks the application runs without any of the six headers, so that what a client writes in
  them changes nothing.\<close>

theorem untrusted_peer_cannot_forward:
  assumes "value_true (trust_proxy_boot env)"
    and "\<not> ip_in_networks (or_empty (e ''REMOTE_ADDR''))
      (compiled_trusted_proxy_allowlist (value_text (app_get env ''SECURITY_TRUSTED_PROXY_CIDRS'' (Some (CText [])))))"
    and "\<forall>k. k \<notin> set FORWARDED_KEYS \<longrightarrow> e' k = e k"
  shows "install_proxy_filter env app proxy_fix e' = install_proxy_filter env app proxy_fix e
    \<and> install_proxy_filter env app proxy_fix e = app (\<lambda>k. if k \<in> set FORWARDED_KEYS then None else e k)"
proof -
  have "''REMOTE_ADDR'' \<notin> set FORWARDED_KEYS" by code_simp
  with assms(3) have "e' ''REMOTE_ADDR'' = e ''REMOTE_ADDR''" by blast
  moreover have "(\<lambda>k. if k \<in> set FORWARDED_KEYS then None else e' k) = (\<lambda>k. if k \<in> set FORWARDED_KEYS then None else e k)"
    using assms(3) by auto
  ultimately show ?thesis using assms(1,2) by (simp add: install_proxy_filter_def trusted_proxy_fix_def)
qed
text \<open>A production deployment with no setting but the environment's name, and a database that fails.\<close>

definition prod_call :: config_call where
  "prod_call =
     \<lparr>c_env = \<lparr>in_context = True, app_config = map_of [(''ENV'', Some (CText ''production''))], environ = (\<lambda>k. None)\<rparr>,
      c_now = 5, c_later = 6, c_session = failing\<rparr>"

definition admin_request :: "string \<Rightarrow> http_request" where
  "admin_request peer = \<lparr>remote_addr = Some peer, header = (\<lambda>h. None), url_path = ''/admin/users'', user_role = None\<rparr>"

theorem production_admin_needs_listed_peer_witness:
  "ip_in_networks ''10.1.2.3'' (compiled_allowlist [] ''production'')
    \<and> fst (cidr_guard prod_call (admin_request ''8.8.8.8'') []) = Forbidden ''admin''"
proof -
  have e: "guard_env_name (c_env prod_call) = ''production''" by code_simp
  have b: "get_bool prod_call ''CIDR_GUARD_ENABLED'' (value_true (app_get (c_env prod_call) ''CIDR_GUARD_ENABLED'' (Some (CBool True)))) True [] = (True, [])"
    by code_simp
  have t: "get_bool prod_call ''SECURITY_TRUST_PROXY_HEADERS'' (value_true (trust_proxy_boot (c_env prod_call))) True [] = (False, [])"
    by code_simp
  have r: "get_str prod_call ''ADMIN_CIDR_ALLOWLIST'' (map_option cfg_str (app_get (c_env prod_call) ''ADMIN_CIDR_ALLOWLIST'' (Some (CText [])))) True True True []
      = (Some [], [])" by code_simp
  have g: "fst (cidr_guard prod_call (admin_request ''10.1.2.3'') []) = Continue" by code_simp
  have p: "startswith (url_path (admin_request ''10.1.2.3'')) ''/admin''" by code_simp
  have "ip_in_networks (or_empty (remote_addr (admin_request ''10.1.2.3''))) (compiled_allowlist (or_empty (Some [])) (guard_env_name (c_env prod_call)))"
    using production_admin_needs_listed_peer [OF p _ b t r g] unfolding e by (simp add: is_production_def lower_def) code_simp
  moreover have "or_empty (remote_addr (admin_request ''10.1.2.3'')) = ''10.1.2.3''" "or_empty (Some []) = []" by code_simp+
  moreover have "fst (cidr_guard prod_call (admin_request ''8.8.8.8'') []) = Forbidden ''admin''" by code_simp
  ultimately show ?thesis unfolding e by metis
qed

theorem untrusted_peer_cannot_forward_witness:
  "let env = \<lparr>in_context = True, app_config = map_of [(''SECURITY_TRUST_PROXY_HEADERS'', Some (CBool True))], environ = (\<lambda>k. None)\<rparr>;
       e = (\<lambda>k. if k = ''REMOTE_ADDR'' then Some ''8.8.8.8'' else None) in
   install_proxy_filter env (\<lambda>x. x ''HTTP_X_FORWARDED_FOR'') (\<lambda>x. Some ''proxied'') (e(''HTTP_X_FORWARDED_FOR'' \<mapsto> ''10.0.0.1'')) = None"
proof -
  define env where "env = \<lparr>in_context = True, app_config = map_of [(''SECURITY_TRUST_PROXY_HEADERS'', Some (CBool True))], environ = (\<lambda>k. None)\<rparr>"
  define e where "e = (\<lambda>k. if k = ''REMOTE_ADDR'' then Some ''8.8.8.8'' else None)"
  have a: "value_true (trust_proxy_boot env)" unfolding env_def by code_simp
  have b: "\<not> ip_in_networks (or_empty (e ''REMOTE_ADDR''))
      (compiled_trusted_proxy_allowlist (value_text (app_get env ''SECURITY_TRUSTED_PROXY_CIDRS'' (Some (CText [])))))"
    unfolding env_def e_def by code_simp
  have f: "''HTTP_X_FORWARDED_FOR'' \<in> set FORWARDED_KEYS" by code_simp
  then have c: "\<forall>k. k \<notin> set FORWARDED_KEYS \<longrightarrow> (e(''HTTP_X_FORWARDED_FOR'' \<mapsto> ''10.0.0.1'')) k = e k"
    unfolding fun_upd_def by metis
  have "install_proxy_filter env (\<lambda>x. x ''HTTP_X_FORWARDED_FOR'') (\<lambda>x. Some ''proxied'') (e(''HTTP_X_FORWARDED_FOR'' \<mapsto> ''10.0.0.1'')) = None"
    using untrusted_peer_cannot_forward [OF a b c, of "\<lambda>x. x ''HTTP_X_FORWARDED_FOR''" "\<lambda>x. Some ''proxied''"] f by metis
  then show ?thesis unfolding Let_def env_def e_def .
qed

end
