(* ===== verification/Task_Distribution.thy ===== *)
theory Task_Distribution
  imports Numerals
begin

text \<open>
  The rules that say who gets a task (\<open>app/utils/task_distribution_rules.py\<close>): reading the rule
  file into normalised rules, its cache, and the decision for a task.

  The file is JSON of the expected shape: rules are objects, or values that are skipped; their
  \<open>match\<close> and \<open>action\<close> are objects; a leaf is null, a boolean, an integer, a text or a list of these.
  \<open>re.compile(pattern, re.IGNORECASE).search\<close> is the argument \<open>re_compile\<close>: \<open>None\<close> is an invalid
  pattern.
\<close>

section \<open>The rule file\<close>

datatype scalar = SNull | SBool bool | SNum int | SStr string
datatype leaf = One scalar | Many "scalar list"

fun scalar_str :: "scalar \<Rightarrow> string" where
  "scalar_str SNull = ''None''"
| "scalar_str (SBool b) = (if b then ''True'' else ''False'')"
| "scalar_str (SNum n) = str_int n"
| "scalar_str (SStr s) = s"

fun scalar_truthy :: "scalar \<Rightarrow> bool" where
  "scalar_truthy SNull = False"
| "scalar_truthy (SBool b) = b"
| "scalar_truthy (SNum n) = (n \<noteq> 0)"
| "scalar_truthy (SStr s) = (s \<noteq> [])"

record raw_rule =
  raw_id :: scalar
  raw_enabled :: scalar
  raw_priority :: scalar
  raw_match :: "(string \<times> leaf) list"
  raw_distribute_to :: scalar
  raw_roles :: leaf

record rule_data =
  data_rules :: "raw_rule option list"
  data_distribute_to :: scalar
  data_roles :: leaf

text \<open>What is at a path: nothing, a file that cannot be read as JSON, JSON that is no object, or rules;
  with its modification time.\<close>

datatype rules_file = NoFile | Broken int | NotObject int | Parsed int rule_data

fun mtime_ns :: "rules_file \<Rightarrow> int option" where
  "mtime_ns NoFile = None"
| "mtime_ns (Broken t) = Some t"
| "mtime_ns (NotObject t) = Some t"
| "mtime_ns (Parsed t d) = Some t"

section \<open>Normalised rules\<close>

record rule_action =
  distribute_to :: string
  action_roles :: "string list"

record 'p rule_match =
  m_category :: "string list"
  m_source :: "string list"
  m_ref_exact :: "string list"
  m_ref_prefix :: "string list"
  m_ref_contains :: "string list"
  m_ref_regex :: "'p list"
  m_free_contains :: "string list"
  m_free_regex :: "'p list"

record distribution_rule =
  rule_id :: string
  enabled :: bool
  priority :: int
  action :: rule_action
  match :: "(string \<Rightarrow> bool) rule_match"

definition ALLOWED_DISTRIBUTE_TO :: "string list" where
  "ALLOWED_DISTRIBUTE_TO = [''owner'', ''role_set'', ''all_staff'', ''none'']"

definition ALLOWED_MATCH_FIELDS :: "string list" where
  "ALLOWED_MATCH_FIELDS =
     [''category'', ''source'', ''name_ref_exact'', ''name_ref_prefix'', ''name_ref_contains'', ''name_ref_regex'',
      ''name_free_contains'', ''name_free_regex'']"

fun as_list :: "leaf option \<Rightarrow> string list" where
  "as_list None = []"
| "as_list (Some (One SNull)) = []"
| "as_list (Some (One v)) = [scalar_str v]"
| "as_list (Some (Many vs)) = map scalar_str (filter (\<lambda>v. v \<noteq> SNull) vs)"

definition as_bool :: "scalar \<Rightarrow> bool \<Rightarrow> bool" where
  "as_bool v dflt =
     (case v of SNull \<Rightarrow> dflt | SBool b \<Rightarrow> b | SNum n \<Rightarrow> n \<noteq> 0
      | SStr s \<Rightarrow>
          let t = lower (strip s) in
          if t \<in> set [''1'', ''true'', ''yes'', ''y'', ''on''] then True
          else if t \<in> set [''0'', ''false'', ''no'', ''n'', ''off''] then False else dflt)"

definition normalize_list :: "(string \<Rightarrow> string) \<Rightarrow> leaf option \<Rightarrow> string list" where
  "normalize_list f v = map f (filter (\<lambda>s. s \<noteq> []) (map strip (as_list v)))"

text \<open>\<open>None\<close> when a pattern is invalid.\<close>

definition compile_regex_list :: "(string \<Rightarrow> 'p option) \<Rightarrow> leaf option \<Rightarrow> 'p list option" where
  "compile_regex_list re_compile v =
     those (map re_compile (filter (\<lambda>s. s \<noteq> []) (map strip (as_list v))))"

definition compact_text :: "string \<Rightarrow> string" where
  "compact_text s = filter (\<lambda>c. \<not> is_space c) s"

definition normalize_action :: "scalar \<Rightarrow> leaf option \<Rightarrow> rule_action" where
  "normalize_action to roles =
     \<lparr>distribute_to = lower (strip (if scalar_truthy to then scalar_str to else ''owner'')),
      action_roles = normalize_list lower roles\<rparr>"

definition validate_action :: "rule_action \<Rightarrow> bool" where
  "validate_action a \<longleftrightarrow>
     distribute_to a \<in> set ALLOWED_DISTRIBUTE_TO \<and> \<not> (distribute_to a = ''role_set'' \<and> action_roles a = [])"

definition parse_priority :: "scalar \<Rightarrow> int" where
  "parse_priority v =
     (if \<not> scalar_truthy v then 0
      else case v of SNum n \<Rightarrow> n | SBool b \<Rightarrow> 1 | SStr s \<Rightarrow> (case py_int s of None \<Rightarrow> 0 | Some n \<Rightarrow> n) | SNull \<Rightarrow> 0)"

definition normalize_rule :: "(string \<Rightarrow> (string \<Rightarrow> bool) option) \<Rightarrow> raw_rule option \<Rightarrow> distribution_rule option" where
  "normalize_rule re_compile raw0 =
     (case raw0 of
        None \<Rightarrow> None
      | Some raw \<Rightarrow>
          let rid = strip (if scalar_truthy (raw_id raw) then scalar_str (raw_id raw) else []);
              m = map_of (raw_match raw);
              act = normalize_action (raw_distribute_to raw) (Some (raw_roles raw)) in
          if rid = [] \<or> \<not> set (map fst (raw_match raw)) \<subseteq> set ALLOWED_MATCH_FIELDS \<or> \<not> validate_action act then None
          else case (compile_regex_list re_compile (m ''name_ref_regex''), compile_regex_list re_compile (m ''name_free_regex'')) of
            (Some ref_regex, Some free_regex) \<Rightarrow>
              Some \<lparr>rule_id = rid, enabled = as_bool (raw_enabled raw) True, priority = parse_priority (raw_priority raw), action = act,
                    match = \<lparr>m_category = normalize_list upper (m ''category''), m_source = normalize_list lower (m ''source''),
                             m_ref_exact = normalize_list upper (m ''name_ref_exact''), m_ref_prefix = normalize_list upper (m ''name_ref_prefix''),
                             m_ref_contains = normalize_list upper (m ''name_ref_contains''), m_ref_regex = ref_regex,
                             m_free_contains = normalize_list upper (m ''name_free_contains''), m_free_regex = free_regex\<rparr>\<rparr>
          | _ \<Rightarrow> None)"

section \<open>Loading\<close>

text \<open>The loop over the rules: disabled rules and later rules with an id already seen are skipped.\<close>

fun collect_rules :: "string list \<Rightarrow> distribution_rule option list \<Rightarrow> distribution_rule list" where
  "collect_rules seen [] = []"
| "collect_rules seen (None # rs) = collect_rules seen rs"
| "collect_rules seen (Some r # rs) =
     (if \<not> enabled r then collect_rules seen rs
      else let rid = strip (rule_id r) in
        if rid \<noteq> [] \<and> rid \<in> set seen then collect_rules seen rs
        else r # collect_rules (if rid \<noteq> [] then rid # seen else seen) rs)"

definition read_rules ::
  "(string \<Rightarrow> (string \<Rightarrow> bool) option) \<Rightarrow> rules_file \<Rightarrow> distribution_rule list \<times> rule_action"
where
  "read_rules re_compile f =
     (case f of
        Parsed t d \<Rightarrow>
          let rules = sort_key (\<lambda>r. - priority r) (collect_rules [] (map (normalize_rule re_compile) (data_rules d)));
              dflt = normalize_action (data_distribute_to d) (Some (data_roles d)) in
          (rules, if validate_action dflt then dflt else normalize_action SNull None)
      | _ \<Rightarrow> ([], normalize_action SNull None))"

type_synonym rules_cache = "string \<Rightarrow> (int option \<times> distribution_rule list \<times> rule_action) option"

definition load_distribution_rules ::
  "(string \<Rightarrow> (string \<Rightarrow> bool) option) \<Rightarrow> (string \<Rightarrow> rules_file) \<Rightarrow> string \<Rightarrow> rules_cache
    \<Rightarrow> (distribution_rule list \<times> rule_action) \<times> rules_cache"
where
  "load_distribution_rules re_compile fs path cache =
     (let mtime = mtime_ns (fs path) in
      case cache path of
        Some (t, loaded) \<Rightarrow>
          if t = mtime then (loaded, cache)
          else (read_rules re_compile (fs path), cache(path \<mapsto> (mtime, read_rules re_compile (fs path))))
      | None \<Rightarrow> (read_rules re_compile (fs path), cache(path \<mapsto> (mtime, read_rules re_compile (fs path)))))"

section \<open>Decisions\<close>

record distribution_decision =
  d_distribute_to :: string
  d_role_codes :: "string list"
  d_rule_id :: "string option"
  d_priority :: "int option"

record task =
  t_category :: "string option"
  t_name_ref :: "string option"
  t_name_free :: "string option"
  t_source :: "string option"

definition task_matches :: "task \<Rightarrow> distribution_rule \<Rightarrow> bool" where
  "task_matches t r =
     (let m = match r; cat = upper (strip (or_empty (t_category t)));
          ref = strip (or_empty (t_name_ref t)); ref_upper = upper ref; ref_compact = compact_text ref_upper;
          free = strip (or_empty (t_name_free t)); free_upper = upper free; free_compact = compact_text free_upper;
          src = lower (strip (or_empty (t_source t))) in
      (m_category m = [] \<or> cat \<in> set (m_category m))
      \<and> (m_source m = [] \<or> src \<in> set (m_source m))
      \<and> (m_ref_exact m = [] \<or> ref_upper \<in> set (m_ref_exact m))
      \<and> (m_ref_prefix m = []
         \<or> list_ex (\<lambda>p. startswith ref_upper p \<or> startswith ref_compact (compact_text p)) (m_ref_prefix m))
      \<and> (m_ref_contains m = []
         \<or> list_ex (\<lambda>k. str_contains k ref_upper \<or> str_contains (compact_text k) ref_compact) (m_ref_contains m))
      \<and> (m_ref_regex m = [] \<or> list_ex (\<lambda>p. p ref) (m_ref_regex m))
      \<and> (m_free_contains m = []
         \<or> list_ex (\<lambda>k. str_contains k free_upper \<or> str_contains (compact_text k) free_compact) (m_free_contains m))
      \<and> (m_free_regex m = [] \<or> list_ex (\<lambda>p. p free) (m_free_regex m)))"

fun decide :: "task \<Rightarrow> distribution_rule list \<Rightarrow> rule_action \<Rightarrow> distribution_decision" where
  "decide t [] dflt = \<lparr>d_distribute_to = distribute_to dflt, d_role_codes = action_roles dflt, d_rule_id = None, d_priority = None\<rparr>"
| "decide t (r # rs) dflt =
     (if task_matches t r
      then \<lparr>d_distribute_to = distribute_to (action r), d_role_codes = action_roles (action r),
            d_rule_id = Some (rule_id r), d_priority = Some (priority r)\<rparr>
      else decide t rs dflt)"

definition resolve_distribution_decision ::
  "(string \<Rightarrow> (string \<Rightarrow> bool) option) \<Rightarrow> (string \<Rightarrow> rules_file) \<Rightarrow> string \<Rightarrow> task \<Rightarrow> rules_cache
    \<Rightarrow> distribution_decision \<times> rules_cache"
where
  "resolve_distribution_decision re_compile fs path t cache =
     (case load_distribution_rules re_compile fs path cache of ((rules, dflt), cache') \<Rightarrow> (decide t rules dflt, cache'))"

section \<open>Loaded rules are valid\<close>

lemma normalize_rule_valid:
  assumes "normalize_rule re_compile raw = Some r"
  shows "rule_id r \<noteq> [] \<and> strip (rule_id r) = rule_id r \<and> validate_action (action r)"
proof -
  from assms obtain x rid where "raw = Some x" "rid = strip (if scalar_truthy (raw_id x) then scalar_str (raw_id x) else [])"
    "rule_id r = rid" "rid \<noteq> []" "validate_action (action r)"
    by (auto simp: normalize_rule_def Let_def split: option.splits if_splits)
  then show ?thesis by (simp add: strip_idem)
qed

lemma collect_rules_subset: "r \<in> set (collect_rules seen rs) \<Longrightarrow> Some r \<in> set rs \<and> enabled r"
  by (induction seen rs rule: collect_rules.induct) (auto simp: Let_def split: if_splits)

lemma collect_rules_ids:
  assumes "\<forall>r. Some r \<in> set rs \<longrightarrow> strip (rule_id r) = rule_id r \<and> rule_id r \<noteq> []"
  shows "distinct (map rule_id (collect_rules seen rs)) \<and> set (map rule_id (collect_rules seen rs)) \<inter> set seen = {}"
  using assms
proof (induction seen rs rule: collect_rules.induct)
  case (3 seen r rs)
  have hyp: "\<forall>r. Some r \<in> set rs \<longrightarrow> strip (rule_id r) = rule_id r \<and> rule_id r \<noteq> []" using 3(4) by simp
  have r: "strip (rule_id r) = rule_id r" "rule_id r \<noteq> []" using 3(4) by simp_all
  show ?case
  proof (cases "enabled r \<and> rule_id r \<notin> set seen")
    case True
    have "distinct (map rule_id (collect_rules (rule_id r # seen) rs))
      \<and> set (map rule_id (collect_rules (rule_id r # seen) rs)) \<inter> set (rule_id r # seen) = {}"
      using 3(3) [OF _ refl _ hyp] True r by simp
    with True r show ?thesis by auto
  next
    case False
    with 3(1) [OF _ hyp] 3(2) [OF _ refl _ hyp] r show ?thesis by auto
  qed
qed auto

lemma default_action_valid: "validate_action (normalize_action SNull None)"
  by code_simp

definition loaded_ok :: "distribution_rule list \<times> rule_action \<Rightarrow> bool" where
  "loaded_ok l \<longleftrightarrow>
     list_all (\<lambda>r. enabled r \<and> rule_id r \<noteq> [] \<and> validate_action (action r)) (fst l)
     \<and> distinct (map rule_id (fst l)) \<and> sorted_wrt (\<lambda>a b. priority b \<le> priority a) (fst l) \<and> validate_action (snd l)"

lemma sort_key_desc: "sorted_wrt (\<lambda>a b. f b \<le> f a) (sort_key (\<lambda>x. - f x :: int) xs)"
proof -
  have "sorted (map (\<lambda>x. - f x) (sort_key (\<lambda>x. - f x) xs))" by (rule sorted_sort_key)
  then show ?thesis by (simp add: sorted_map)
qed

lemma read_rules_ok: "loaded_ok (read_rules re_compile f)"
proof (cases f)
  case (Parsed t d)
  let ?c = "collect_rules [] (map (normalize_rule re_compile) (data_rules d))"
  have valid: "\<forall>r. Some r \<in> set (map (normalize_rule re_compile) (data_rules d)) \<longrightarrow>
      strip (rule_id r) = rule_id r \<and> rule_id r \<noteq> [] \<and> validate_action (action r)"
    by (auto dest: normalize_rule_valid sym)
  have "list_all (\<lambda>r. enabled r \<and> rule_id r \<noteq> [] \<and> validate_action (action r)) ?c"
    using valid by (auto simp: list_all_iff dest!: collect_rules_subset)
  moreover have "distinct (map rule_id ?c)" using collect_rules_ids [of _ "[]"] valid by blast
  then have "distinct (map rule_id (sort_key (\<lambda>r. - priority r) ?c))"
    by (simp add: distinct_map)
  ultimately show ?thesis
    by (simp add: Parsed read_rules_def Let_def loaded_ok_def sort_key_desc default_action_valid list_all_iff)
qed (simp_all add: read_rules_def loaded_ok_def default_action_valid)

text \<open>A cache filled from the file systems \<open>fss\<close> seen so far.\<close>

definition cache_from :: "(string \<Rightarrow> (string \<Rightarrow> bool) option) \<Rightarrow> (string \<Rightarrow> rules_file) list \<Rightarrow> rules_cache \<Rightarrow> bool" where
  "cache_from re_compile fss cache \<longleftrightarrow>
     (\<forall>path t l. cache path = Some (t, l) \<longrightarrow> (\<exists>fs \<in> set fss. mtime_ns (fs path) = t \<and> l = read_rules re_compile (fs path)))"

text \<open>A modification time stands for one content.\<close>

definition mtimes_identify :: "(string \<Rightarrow> rules_file) list \<Rightarrow> bool" where
  "mtimes_identify fss \<longleftrightarrow>
     (\<forall>f \<in> set fss. \<forall>g \<in> set fss. \<forall>path. mtime_ns (f path) = mtime_ns (g path) \<longrightarrow> f path = g path)"

lemma load_current:
  assumes "cache_from re_compile fss cache" and "mtimes_identify (fs # fss)"
  shows "fst (load_distribution_rules re_compile fs path cache) = read_rules re_compile (fs path)"
proof (cases "cache path")
  case (Some e)
  obtain t l where e: "e = (t, l)" by (rule prod.exhaust)
  with Some assms(1) obtain g where "g \<in> set fss" "mtime_ns (g path) = t" "l = read_rules re_compile (g path)"
    unfolding cache_from_def by blast
  moreover from this assms(2) have "t = mtime_ns (fs path) \<Longrightarrow> g path = fs path" unfolding mtimes_identify_def by auto
  ultimately show ?thesis by (auto simp: load_distribution_rules_def Let_def Some e)
qed (simp add: load_distribution_rules_def Let_def)

lemma load_cache_from:
  assumes "cache_from re_compile fss cache"
  shows "cache_from re_compile (fs # fss) (snd (load_distribution_rules re_compile fs path cache))"
proof -
  have "cache_from re_compile (fs # fss) cache" using assms unfolding cache_from_def by (meson list.set_intros(2))
  then show ?thesis by (auto simp: load_distribution_rules_def Let_def cache_from_def split: option.splits if_splits)
qed

text \<open>The cache of the rule file is transparent: after any loads, with modification times that
  identify the contents, a load gives exactly the rules of the file as it is now, which are enabled,
  named, pairwise different, ordered by falling priority and valid, and leaves a cache of which the
  same holds.\<close>

theorem cached_rules_are_current:
  assumes "cache_from re_compile fss cache" and "mtimes_identify (fs # fss)"
  shows "fst (load_distribution_rules re_compile fs path cache) = read_rules re_compile (fs path)
    \<and> loaded_ok (fst (load_distribution_rules re_compile fs path cache))
    \<and> cache_from re_compile (fs # fss) (snd (load_distribution_rules re_compile fs path cache))"
  using load_current [OF assms] load_cache_from [OF assms(1)] read_rules_ok by simp

text \<open>A file with two rules, of which the second has the higher priority, and a disabled one.\<close>

definition rule_example :: "string \<Rightarrow> int \<Rightarrow> string \<Rightarrow> string \<Rightarrow> raw_rule option" where
  "rule_example rid prio pre to =
     Some \<lparr>raw_id = SStr rid, raw_enabled = SBool (prio > 0), raw_priority = SNum prio, raw_match = [(''name_ref_prefix'', One (SStr pre))],
           raw_distribute_to = SStr to, raw_roles = Many [SStr '' Manager '']\<rparr>"

definition file_example :: rules_file where
  "file_example = Parsed 7 \<lparr>data_rules = [rule_example ''a'' 1 ''uspto'' ''owner'', rule_example ''b'' 5 ''uspto:'' ''role_set'',
       None, rule_example ''c'' 0 [] ''none''], data_distribute_to = SNull, data_roles = One SNull\<rparr>"

theorem cached_rules_are_current_witness:
  "let fs = (\<lambda>p. file_example); l = load_distribution_rules (\<lambda>p. None) fs ''rules.json'' (\<lambda>p. None) in
   map rule_id (fst (fst l)) = [''b'', ''a''] \<and> loaded_ok (fst l)"
proof -
  let ?fs = "\<lambda>p. file_example" and ?l = "load_distribution_rules (\<lambda>p. None) (\<lambda>p. file_example) ''rules.json'' (\<lambda>p. None)"
  have "cache_from (\<lambda>p. None) [] (\<lambda>p. None)" by (simp add: cache_from_def)
  moreover have "mtimes_identify [?fs]" by (simp add: mtimes_identify_def)
  ultimately have "loaded_ok (fst ?l)" using cached_rules_are_current by blast
  moreover have "map rule_id (fst (fst ?l)) = [''b'', ''a'']" by code_simp
  ultimately show ?thesis unfolding Let_def by blast
qed

section \<open>Decisions\<close>

lemma decide_first:
  "decide t rs dflt = (case filter (task_matches t) rs of
      [] \<Rightarrow> \<lparr>d_distribute_to = distribute_to dflt, d_role_codes = action_roles dflt, d_rule_id = None, d_priority = None\<rparr>
    | r # _ \<Rightarrow> \<lparr>d_distribute_to = distribute_to (action r), d_role_codes = action_roles (action r),
                d_rule_id = Some (rule_id r), d_priority = Some (priority r)\<rparr>)"
  by (induction rs) (auto split: list.splits)

text \<open>What a decision promises of the rules it is taken from.\<close>

definition decision_ok :: "task \<Rightarrow> distribution_rule list \<Rightarrow> distribution_decision \<Rightarrow> bool" where
  "decision_ok t rules d \<longleftrightarrow>
     d_distribute_to d \<in> set ALLOWED_DISTRIBUTE_TO
     \<and> (d_distribute_to d = ''role_set'' \<longrightarrow> d_role_codes d \<noteq> [])
     \<and> (case d_rule_id d of
          None \<Rightarrow> list_all (\<lambda>r. \<not> task_matches t r) rules
        | Some rid \<Rightarrow> list_ex (\<lambda>r. rule_id r = rid \<and> task_matches t r
                        \<and> list_all (\<lambda>r'. task_matches t r' \<longrightarrow> priority r' \<le> priority r) rules) rules)"

lemma decide_ok:
  assumes "loaded_ok (rules, dflt)"
  shows "decision_ok t rules (decide t rules dflt)"
proof (cases "filter (task_matches t) rules")
  case Nil
  with assms show ?thesis
    by (auto simp: decision_ok_def decide_first filter_empty_conv list_all_iff loaded_ok_def validate_action_def)
next
  case (Cons r rest)
  have r: "r \<in> set rules" "task_matches t r" using filter_eq_ConsD [OF Cons] by auto
  have "sorted_wrt (\<lambda>a b. priority b \<le> priority a) (filter (task_matches t) rules)"
    using assms by (simp add: loaded_ok_def sorted_wrt_filter)
  then have "\<forall>r' \<in> set (filter (task_matches t) rules). priority r' \<le> priority r" by (auto simp: Cons)
  then have best: "list_all (\<lambda>r'. task_matches t r' \<longrightarrow> priority r' \<le> priority r) rules" by (simp add: list_all_iff)
  have "list_ex (\<lambda>x. rule_id x = rule_id r \<and> task_matches t x
      \<and> list_all (\<lambda>r'. task_matches t r' \<longrightarrow> priority r' \<le> priority x) rules) rules"
    unfolding list_ex_iff using r best by blast
  moreover have "validate_action (action r)" using assms r(1) by (auto simp: loaded_ok_def list_all_iff)
  ultimately show ?thesis by (auto simp: decision_ok_def decide_first Cons validate_action_def)
qed

text \<open>The decision for a task is that of a matching rule of the highest priority, or the default
  when no rule matches, and it always names one of the four audiences: the branches of the
  assignment code for an unknown audience are never reached.\<close>

theorem decision_is_best_match:
  assumes "cache_from re_compile fss cache" and "mtimes_identify (fs # fss)"
  shows "decision_ok t (fst (read_rules re_compile (fs path))) (fst (resolve_distribution_decision re_compile fs path t cache))"
proof -
  obtain rules dflt where r: "read_rules re_compile (fs path) = (rules, dflt)" by force
  with read_rules_ok [of re_compile "fs path"] have ok: "loaded_ok (rules, dflt)" by simp
  obtain c where "load_distribution_rules re_compile fs path cache = ((rules, dflt), c)"
    using load_current [OF assms, of path] r by (metis surjective_pairing)
  then have "fst (resolve_distribution_decision re_compile fs path t cache) = decide t rules dflt"
    by (simp add: resolve_distribution_decision_def)
  with decide_ok [OF ok, of t] r show ?thesis by simp
qed

definition task_example :: task where
  "task_example = \<lparr>t_category = None, t_name_ref = Some ''USPTO:Notice'', t_name_free = None, t_source = None\<rparr>"

theorem decision_is_best_match_witness:
  "let d = fst (resolve_distribution_decision (\<lambda>p. None) (\<lambda>p. file_example) ''rules.json'' task_example (\<lambda>p. None)) in
   d_rule_id d = Some ''b'' \<and> decision_ok task_example (fst (read_rules (\<lambda>p. None) file_example)) d"
proof -
  have "cache_from (\<lambda>p. None) [] (\<lambda>p. None)" by (simp add: cache_from_def)
  moreover have "mtimes_identify [\<lambda>p. file_example]" by (simp add: mtimes_identify_def)
  ultimately have "decision_ok task_example (fst (read_rules (\<lambda>p. None) file_example))
      (fst (resolve_distribution_decision (\<lambda>p. None) (\<lambda>p. file_example) ''rules.json'' task_example (\<lambda>p. None)))"
    by (rule decision_is_best_match)
  moreover have "d_rule_id (fst (resolve_distribution_decision (\<lambda>p. None) (\<lambda>p. file_example) ''rules.json'' task_example (\<lambda>p. None))) = Some ''b''"
    by code_simp
  ultimately show ?thesis unfolding Let_def by blast
qed

end
