(* ===== verification/Task_Assignment.thy ===== *)
theory Task_Assignment
  imports Task_Distribution "HOL-Library.List_Lexorder" "HOL-Library.Char_ord"
begin

text \<open>
  Who works on a task and under which category: the MGMT/WORK classification
  (\<open>app/utils/task_classification.py\<close>), the category and the owner of a workflow
  (\<open>app/utils/workflow_semantics.py\<close>) and the assignees of a task
  (\<open>app/utils/task_assignment_rules.py\<close>).

  The tables of users, staff assignments and the flat index are one record, in the order the queries
  return their rows; a failing query is \<open>staff_query_fails\<close>.
\<close>

section \<open>Tables\<close>

record staff_user =
  u_id :: int
  u_staff_party :: "string option"
  u_active :: bool
  u_role :: "string option"

record staff_assignment =
  sa_matter :: string
  sa_party :: string
  sa_role :: "string option"
  sa_name :: "string option"

record flat_index =
  fi_manager :: "int option"
  fi_attorney :: "int option"
  fi_handler :: "int option"

record staff_db =
  users :: "staff_user list"
  assignments :: "staff_assignment list"
  flat_rows :: "string \<Rightarrow> flat_index option"
  staff_query_fails :: bool

definition user_by_id :: "staff_db \<Rightarrow> int \<Rightarrow> staff_user option" where
  "user_by_id db uid = sql_first (\<lambda>u. u_id u = uid) (users db)"

section \<open>Classification\<close>

definition MGMT_STAFF_ROLES :: "string list" where
  "MGMT_STAFF_ROLES = [''manager'', ''mgmt'']"

definition WORK_STAFF_ROLES :: "string list" where
  "WORK_STAFF_ROLES = [''attorney'', ''retainer'', ''staff'', ''draftsman'', ''handler'']"

definition MGMT_CATEGORIES :: "string list" where
  "MGMT_CATEGORIES = [''MGMT'', ''MGMT_WORK'', ''WORK_MGMT'', ''MANAGEMENT'', ''NOTICE'', ''SLA'', ''ADMIN'',
     ''mgmt'', ''mgmt_work'', ''work_mgmt'', ''management'', ''notice'', ''sla'', ''admin'']"

record class_hint =
  h_category :: "string option"
  h_name_ref :: "string option"
  h_name_free :: "string option"

definition has_mgmt_hint :: "class_hint \<Rightarrow> bool" where
  "has_mgmt_hint h \<longleftrightarrow>
     (let cat = upper (strip (or_empty (h_category h))) in cat \<noteq> [] \<and> cat \<in> set (map upper MGMT_CATEGORIES))
     \<or> startswith (upper (strip (or_empty (h_name_ref h)))) ''MGMT:''
     \<or> startswith (upper (strip (or_empty (h_name_free h)))) ''MGMT:''"

definition get_staff_role_for_matter :: "staff_db \<Rightarrow> string \<Rightarrow> string \<Rightarrow> string option" where
  "get_staff_role_for_matter db mid party =
     (if mid = [] \<or> party = [] \<or> staff_query_fails db then None
      else case sql_first (\<lambda>a. sa_matter a = mid \<and> sa_party a = party) (assignments db) of
        None \<Rightarrow> None | Some a \<Rightarrow> sa_role a)"

definition get_staff_role_for_matter_by_user_id :: "staff_db \<Rightarrow> string \<Rightarrow> int \<Rightarrow> string option" where
  "get_staff_role_for_matter_by_user_id db mid uid =
     (if mid = [] \<or> uid = 0 then None
      else case user_by_id db uid of
        None \<Rightarrow> None
      | Some u \<Rightarrow> if or_empty (u_staff_party u) = [] then None else get_staff_role_for_matter db mid (or_empty (u_staff_party u)))"

text \<open>\<open>"mgmt"\<close> or \<open>"work"\<close> for a role that says so.\<close>

definition role_class :: "string option \<Rightarrow> bool option" where
  "role_class role =
     (let r = strip (lower (or_empty role)) in
      if or_empty role = [] then None
      else if r \<in> set MGMT_STAFF_ROLES then Some True else if r \<in> set WORK_STAFF_ROLES then Some False else None)"

definition classify_task_type ::
  "staff_db \<Rightarrow> string option \<Rightarrow> int option \<Rightarrow> string option \<Rightarrow> string option \<Rightarrow> class_hint \<Rightarrow> string"
where
  "classify_task_type db matter_id assignee_id owner_party staff_role h =
     (let text = (\<lambda>b. if b then ''mgmt'' else ''work''); mid = or_empty matter_id;
          by_party = (if mid \<noteq> [] \<and> or_empty owner_party \<noteq> []
                      then role_class (get_staff_role_for_matter db mid (or_empty owner_party)) else None);
          by_user = (case assignee_id of
                       Some uid \<Rightarrow> if mid \<noteq> [] \<and> uid \<noteq> 0 then role_class (get_staff_role_for_matter_by_user_id db mid uid) else None
                     | None \<Rightarrow> None) in
      case role_class staff_role of
        Some b \<Rightarrow> text b
      | None \<Rightarrow>
          (case by_party of
             Some b \<Rightarrow> text b
           | None \<Rightarrow> (case by_user of Some b \<Rightarrow> text b | None \<Rightarrow> text (has_mgmt_hint h))))"

text \<open>Here a role that is found but unknown means work.\<close>

definition role_category :: "string option \<Rightarrow> string option" where
  "role_category role =
     (if or_empty role = [] then None
      else Some (if strip (lower (or_empty role)) \<in> set MGMT_STAFF_ROLES then ''MGMT'' else ''WORK''))"

definition determine_category_by_staff_role ::
  "staff_db \<Rightarrow> string option \<Rightarrow> int option \<Rightarrow> string option \<Rightarrow> string option \<Rightarrow> class_hint \<Rightarrow> string"
where
  "determine_category_by_staff_role db matter_id assignee_id staff_party staff_role h =
     (let hinted = (if has_mgmt_hint h then ''MGMT'' else ''WORK''); mid = or_empty matter_id in
      case role_class staff_role of
        Some b \<Rightarrow> if b then ''MGMT'' else ''WORK''
      | None \<Rightarrow>
          if mid = [] then hinted
          else
            let by_party = (if or_empty staff_party = [] then None
                            else role_category (get_staff_role_for_matter db mid (or_empty staff_party)));
                by_user = (case assignee_id of
                             Some uid \<Rightarrow> if uid = 0 then None else role_category (get_staff_role_for_matter_by_user_id db mid uid)
                           | None \<Rightarrow> None) in
            (case by_party of
               Some c \<Rightarrow> c
             | None \<Rightarrow> (case by_user of Some c \<Rightarrow> c | None \<Rightarrow> hinted)))"

definition get_user_role :: "staff_db \<Rightarrow> int \<Rightarrow> string option" where
  "get_user_role db uid = (if uid = 0 then None else case user_by_id db uid of None \<Rightarrow> None | Some u \<Rightarrow> u_role u)"

section \<open>The category and the owner of a workflow\<close>

definition normalize_workflow_category :: "string option \<Rightarrow> string option" where
  "normalize_workflow_category category =
     (let n = upper (strip (or_empty category)) in
      if n = ''WORK'' then Some ''WORK''
      else if n \<in> set [''MGMT'', ''MANAGEMENT''] then Some ''MGMT''
      else if n \<in> set [''HYBRID'', ''MIXED'', ''MGMT_WORK'', ''WORK_MGMT''] then Some ''MGMT_WORK''
      else None)"

definition coerce_positive_user_id :: "int option \<Rightarrow> int option" where
  "coerce_positive_user_id v = (case v of Some n \<Rightarrow> if 0 < n then Some n else None | None \<Rightarrow> None)"

record staff_ids =
  handler_id :: "int option"
  attorney_id :: "int option"
  manager_id :: "int option"

definition infer_workflow_category_from_assignments :: "staff_ids \<Rightarrow> string" where
  "infer_workflow_category_from_assignments s =
     (let has_mgmt = coerce_positive_user_id (manager_id s) \<noteq> None;
          has_work = list_ex (\<lambda>v. coerce_positive_user_id v \<noteq> None) [handler_id s, attorney_id s] in
      if has_mgmt \<and> has_work then ''MGMT_WORK'' else if has_mgmt then ''MGMT'' else ''WORK'')"

definition MANAGER_ROLE_CODES :: "string list" where
  "MANAGER_ROLE_CODES = [''manager'', ''mgmt'']"

text \<open>The loaded rules are an argument here: the rules and the default action.\<close>

type_synonym loaded_rules = "distribution_rule list \<times> rule_action"

definition hint_task :: "class_hint \<Rightarrow> string option \<Rightarrow> task" where
  "hint_task h source = \<lparr>t_category = h_category h, t_name_ref = h_name_ref h, t_name_free = h_name_free h, t_source = source\<rparr>"

definition is_manager_only_notice :: "loaded_rules \<Rightarrow> task \<Rightarrow> bool" where
  "is_manager_only_notice loaded t =
     (let d = decide t (fst loaded) (snd loaded) in
      d_distribute_to d = ''role_set'' \<and> d_role_codes d \<noteq> []
      \<and> list_all (\<lambda>r. lower r \<in> set MANAGER_ROLE_CODES) (d_role_codes d))"

definition derive_workflow_category ::
  "staff_db \<Rightarrow> loaded_rules \<Rightarrow> string option \<Rightarrow> staff_ids \<Rightarrow> string option \<Rightarrow> class_hint \<Rightarrow> string option \<Rightarrow> string"
where
  "derive_workflow_category db loaded case_id s manual h source =
     (case normalize_workflow_category manual of
        Some c \<Rightarrow> c
      | None \<Rightarrow>
          let resolved = infer_workflow_category_from_assignments s;
              has_mgmt = resolved \<in> set [''MGMT'', ''MGMT_WORK''];
              target = (if has_mgmt then coerce_positive_user_id (manager_id s)
                        else (case coerce_positive_user_id (handler_id s) of
                                Some u \<Rightarrow> Some u | None \<Rightarrow> coerce_positive_user_id (attorney_id s))) in
          if has_mgmt \<and> is_manager_only_notice loaded (hint_task h source) then ''MGMT''
          else if resolved = ''MGMT_WORK'' then ''MGMT_WORK''
          else determine_category_by_staff_role db (if or_empty case_id = [] then None else case_id) target None None h)"

definition owner_category :: "string option \<Rightarrow> staff_ids \<Rightarrow> string" where
  "owner_category category s =
     (case normalize_workflow_category category of Some c \<Rightarrow> c | None \<Rightarrow> infer_workflow_category_from_assignments s)"

definition workflow_owner_role_codes :: "string option \<Rightarrow> staff_ids \<Rightarrow> string list" where
  "workflow_owner_role_codes category s =
     (let n = owner_category category s;
          candidates = (if n = ''MGMT'' then [(''manager'', manager_id s)]
                        else if n = ''MGMT_WORK''
                        then [(''attorney'', attorney_id s), (''handler'', handler_id s), (''manager'', manager_id s)]
                        else [(''attorney'', attorney_id s), (''handler'', handler_id s)]) in
      map fst (filter (\<lambda>(r, v). coerce_positive_user_id v \<noteq> None) candidates))"

definition first_user :: "int option list \<Rightarrow> int option" where
  "first_user vs = (case List.map_filter coerce_positive_user_id vs of [] \<Rightarrow> None | u # us \<Rightarrow> Some u)"

definition workflow_primary_owner_user_id :: "string option \<Rightarrow> staff_ids \<Rightarrow> int option" where
  "workflow_primary_owner_user_id category s =
     (let n = owner_category category s;
          candidates = (if n = ''MGMT'' then [manager_id s]
                        else if n = ''MGMT_WORK'' then [handler_id s, attorney_id s, manager_id s]
                        else [handler_id s, attorney_id s]) in
      case first_user candidates of
        Some u \<Rightarrow> Some u
      | None \<Rightarrow> first_user [handler_id s, attorney_id s, manager_id s])"

definition workflow_sync_category_types :: "string option \<Rightarrow> bool \<Rightarrow> string list option" where
  "workflow_sync_category_types category hybrid =
     (case normalize_workflow_category category of
        Some c \<Rightarrow>
          if c = ''MGMT_WORK'' then Some [''WORK'', ''MGMT''] else if c = ''MGMT'' then Some [''MGMT''] else Some [''WORK'']
      | None \<Rightarrow> if hybrid then Some [''WORK'', ''MGMT''] else None)"

definition workflow_badge_values :: "string option \<Rightarrow> string \<times> string" where
  "workflow_badge_values category =
     (let n = normalize_workflow_category category in
      if n = Some ''MGMT_WORK'' then (''hybrid'', ''HYBRID'') else if n = Some ''MGMT'' then (''mgmt'', []) else (''work'', []))"

section \<open>The assignees of a task\<close>

record assignee =
  a_user :: int
  a_role :: "string option"
  a_name :: "string option"

definition ALL_STAFF_ROLE_CODES :: "string list" where
  "ALL_STAFF_ROLE_CODES = [''attorney'', ''retainer'', ''handler'', ''manager'', ''mgmt'', ''staff'', ''draftsman'']"

definition normalize_assignee_role_code :: "string option \<Rightarrow> string option" where
  "normalize_assignee_role_code role0 =
     (let role = lower (strip (or_empty role0)) in
      if role \<in> set [''manager'', ''mgmt''] then Some ''manager''
      else if role \<in> set [''attorney'', ''retainer''] then Some ''attorney''
      else if role \<in> set [''handler'', ''staff'', ''draftsman''] then Some ''handler''
      else or_none role)"

fun collapse_role_set ::
  "(int \<times> string) list \<Rightarrow> string list \<Rightarrow> assignee list \<Rightarrow> assignee list"
where
  "collapse_role_set seen_pairs seen_roles [] = []"
| "collapse_role_set seen_pairs seen_roles (a # as) =
     (let role = normalize_assignee_role_code (a_role a); key = (a_user a, or_empty role) in
      if key \<in> set seen_pairs \<or> (case role of None \<Rightarrow> False | Some r \<Rightarrow> r \<in> set seen_roles)
      then collapse_role_set seen_pairs seen_roles as
      else a # collapse_role_set (key # seen_pairs) (case role of None \<Rightarrow> seen_roles | Some r \<Rightarrow> r # seen_roles) as)"

definition collapse_role_set_assignees :: "assignee list \<Rightarrow> assignee list" where
  "collapse_role_set_assignees rows = collapse_role_set [] [] rows"

text \<open>The two loops that keep the first row for each key.\<close>

fun first_per_key :: "('a \<Rightarrow> 'k) \<Rightarrow> 'k list \<Rightarrow> 'a list \<Rightarrow> 'a list" where
  "first_per_key f seen [] = []"
| "first_per_key f seen (a # as) =
     (if f a \<in> set seen then first_per_key f seen as else a # first_per_key f (f a # seen) as)"

definition dedupe_assignees :: "assignee list \<Rightarrow> assignee list" where
  "dedupe_assignees rows = first_per_key a_user [] rows"

definition dedupe_assignees_by_user_role :: "assignee list \<Rightarrow> assignee list" where
  "dedupe_assignees_by_user_role rows =
     first_per_key (\<lambda>a. (a_user a, or_empty (normalize_assignee_role_code (a_role a)))) [] rows"

definition fetch_assignees_from_assignment :: "staff_db \<Rightarrow> string \<Rightarrow> string list \<Rightarrow> assignee list" where
  "fetch_assignees_from_assignment db mid role_codes =
     (let clean = map (\<lambda>r. lower (strip r)) (filter (\<lambda>r. r \<noteq> []) role_codes) in
      if clean = [] \<or> staff_query_fails db then []
      else concat (map (\<lambda>sa.
        if sa_matter sa = mid \<and> (case sa_role sa of None \<Rightarrow> False | Some r \<Rightarrow> lower (sql_trim r) \<in> set clean)
        then map (\<lambda>u. \<lparr>a_user = u_id u, a_role = (if or_empty (sa_role sa) = [] then None else Some (strip (or_empty (sa_role sa)))),
                       a_name = sa_name sa\<rparr>)
               (sort_key u_id (filter (\<lambda>u. u_staff_party u = Some (sa_party sa) \<and> u_active u) (users db)))
        else []) (assignments db)))"

definition flat_row :: "staff_db \<Rightarrow> int option \<times> string \<Rightarrow> assignee option" where
  "flat_row db p =
     (case fst p of
        None \<Rightarrow> None
      | Some n \<Rightarrow> if n = 0 then None
                  else (case user_by_id db n of
                          None \<Rightarrow> None
                        | Some u \<Rightarrow> if u_active u then Some \<lparr>a_user = u_id u, a_role = Some (snd p), a_name = None\<rparr> else None))"

definition fetch_assignees_from_flat_index :: "staff_db \<Rightarrow> string \<Rightarrow> assignee list" where
  "fetch_assignees_from_flat_index db mid =
     (case flat_rows db mid of
        None \<Rightarrow> []
      | Some fi \<Rightarrow>
          List.map_filter (flat_row db) [(fi_manager fi, ''manager''), (fi_attorney fi, ''attorney''), (fi_handler fi, ''handler'')])"

text \<open>The roles that count for the rows of the flat index.\<close>

definition target_roles :: "string list \<Rightarrow> string list" where
  "target_roles role_codes =
     (let rs = map (\<lambda>r. lower (strip r)) (filter (\<lambda>r. strip r \<noteq> []) role_codes) in
      rs @ (if ''mgmt'' \<in> set rs then [''manager''] else []) @ (if ''retainer'' \<in> set rs then [''attorney''] else [])
         @ (if ''staff'' \<in> set rs \<or> ''draftsman'' \<in> set rs then [''handler''] else []))"

definition fetch_assignees :: "staff_db \<Rightarrow> string \<Rightarrow> string list \<Rightarrow> assignee list" where
  "fetch_assignees db mid role_codes =
     (let rows = fetch_assignees_from_assignment db mid role_codes in
      dedupe_assignees_by_user_role
        (if rows \<noteq> [] then rows
         else filter (\<lambda>a. lower (or_empty (a_role a)) \<in> set (target_roles role_codes)) (fetch_assignees_from_flat_index db mid)))"

text \<open>The caches kept on the session.\<close>

record assignment_cache =
  user_by_party :: "string \<Rightarrow> int option"
  assignees_by_role :: "string \<times> string list \<Rightarrow> assignee list option"

definition lookup_party :: "staff_db \<Rightarrow> string \<Rightarrow> int option" where
  "lookup_party db party =
     (case filter (\<lambda>u. u_staff_party u = Some party \<and> u_active u) (users db) of
        [] \<Rightarrow> None | u # us \<Rightarrow> Some (Max (set (map u_id (u # us)))))"

definition resolve_user_id_by_staff_party_id ::
  "staff_db \<Rightarrow> string option \<Rightarrow> assignment_cache \<Rightarrow> int option \<times> assignment_cache"
where
  "resolve_user_id_by_staff_party_id db party0 c =
     (let party = or_empty party0 in
      if party = [] then (None, c)
      else case user_by_party c party of
        Some u \<Rightarrow> (Some u, c)
      | None \<Rightarrow> (lookup_party db party, c\<lparr>user_by_party := (user_by_party c)(party := lookup_party db party)\<rparr>))"

definition resolve_assignees_for_matter ::
  "staff_db \<Rightarrow> string \<Rightarrow> string list \<Rightarrow> assignment_cache \<Rightarrow> assignee list \<times> assignment_cache"
where
  "resolve_assignees_for_matter db mid role_codes0 c =
     (let role_codes = (if role_codes0 = [] then ALL_STAFF_ROLE_CODES else role_codes0);
          key = (mid, sort (map lower role_codes)) in
      case assignees_by_role c key of
        Some as \<Rightarrow> (as, c)
      | None \<Rightarrow> (let as = fetch_assignees db mid role_codes in
                 (as, c\<lparr>assignees_by_role := (assignees_by_role c)(key \<mapsto> as)\<rparr>)))"

definition fallback_assignee :: "int option \<Rightarrow> assignee list" where
  "fallback_assignee fallback =
     (case fallback of Some u \<Rightarrow> if u = 0 then [] else [\<lparr>a_user = u, a_role = Some ''fallback'', a_name = None\<rparr>] | None \<Rightarrow> [])"

definition owner_assignee :: "int option \<Rightarrow> assignee list" where
  "owner_assignee owner =
     (case owner of Some u \<Rightarrow> if u = 0 then [] else [\<lparr>a_user = u, a_role = Some ''owner'', a_name = None\<rparr>] | None \<Rightarrow> [])"

definition resolve_assignees_for_task ::
  "staff_db \<Rightarrow> loaded_rules \<Rightarrow> string \<Rightarrow> task \<Rightarrow> string option \<Rightarrow> int option \<Rightarrow> bool \<Rightarrow> assignment_cache
    \<Rightarrow> (assignee list \<times> distribution_decision) \<times> assignment_cache"
where
  "resolve_assignees_for_task db loaded mid t owner_party fallback fallback_to_all c =
     (case resolve_user_id_by_staff_party_id db owner_party c of (owner, c1) \<Rightarrow>
        let d = decide t (fst loaded) (snd loaded);
            fallback_or = (\<lambda>as. if as \<noteq> [] then as else fallback_assignee fallback) in
        if d_distribute_to d = ''role_set''
        then (case resolve_assignees_for_matter db mid (if d_role_codes d \<noteq> [] then d_role_codes d else MANAGER_ROLE_CODES) c1 of
                (as, c2) \<Rightarrow> ((fallback_or (collapse_role_set_assignees as), d), c2))
        else if d_distribute_to d = ''all_staff''
        then (case resolve_assignees_for_matter db mid [] c1 of
                (as, c2) \<Rightarrow> ((fallback_or (dedupe_assignees (owner_assignee owner @ as)), d), c2))
        else if d_distribute_to d = ''owner''
        then (if owner_assignee owner \<noteq> [] then ((owner_assignee owner, d), c1)
              else if fallback_assignee fallback \<noteq> [] then ((fallback_assignee fallback, d), c1)
              else if fallback_to_all
              then (case resolve_assignees_for_matter db mid [] c1 of (as, c2) \<Rightarrow> ((as, d), c2))
              else (([], d), c1))
        else (([], d), c1))"

section \<open>The cache on the session is transparent\<close>

lemma dropWhile_map_lower: "dropWhile is_space (map lower_char s) = map lower_char (dropWhile is_space s)"
  by (simp add: dropWhile_map comp_def)

lemma lower_strip: "lower (strip s) = strip (lower s)"
  by (simp add: lower_def strip_def strip_chars_def rstrip_chars_def lstrip_chars_def dropWhile_map_lower rev_map)

lemma strip_lower_not_Nil: "strip r \<noteq> [] \<longleftrightarrow> strip (lower r) \<noteq> []"
  by (metis lower_def lower_strip map_is_Nil_conv)

definition cleaned :: "string list \<Rightarrow> string set" where
  "cleaned rs = strip ` set (map lower rs)"

lemma clean_roles_set: "set (map (\<lambda>r. lower (strip r)) (filter (\<lambda>r. r \<noteq> []) rs)) = strip ` {r \<in> set (map lower rs). r \<noteq> []}"
proof -
  have "(\<lambda>r. lower (strip r)) ` {r \<in> set rs. r \<noteq> []} = strip ` (lower ` {r \<in> set rs. r \<noteq> []})"
    by (simp add: lower_strip image_image)
  moreover have "lower ` {r \<in> set rs. r \<noteq> []} = {r \<in> set (map lower rs). r \<noteq> []}" by (auto simp: lower_def)
  ultimately show ?thesis by simp
qed

lemma target_roles_set:
  "set (target_roles rs) =
     (let t = {s \<in> strip ` set (map lower rs). s \<noteq> []} in
      t \<union> (if ''mgmt'' \<in> t then {''manager''} else {}) \<union> (if ''retainer'' \<in> t then {''attorney''} else {})
        \<union> (if ''staff'' \<in> t \<or> ''draftsman'' \<in> t then {''handler''} else {}))"
proof -
  have "set (map (\<lambda>r. lower (strip r)) (filter (\<lambda>r. strip r \<noteq> []) rs)) = {s \<in> strip ` set (map lower rs). s \<noteq> []}"
    using strip_lower_not_Nil by (auto simp: lower_strip)
  then show ?thesis unfolding target_roles_def Let_def set_append by (simp only: set_append) auto
qed

lemma fetch_assignees_cong:
  assumes "sort (map lower rs) = sort (map lower rs')"
  shows "fetch_assignees db mid rs = fetch_assignees db mid rs'"
proof -
  have s: "set (map lower rs) = set (map lower rs')" by (metis assms set_sort)
  have clean: "set (map (\<lambda>r. lower (strip r)) (filter (\<lambda>r. r \<noteq> []) rs)) = set (map (\<lambda>r. lower (strip r)) (filter (\<lambda>r. r \<noteq> []) rs'))"
    unfolding clean_roles_set s ..
  have target: "set (target_roles rs) = set (target_roles rs')" unfolding target_roles_set s ..
  have empty: "map (\<lambda>r. lower (strip r)) (filter (\<lambda>r. r \<noteq> []) rs) = [] \<longleftrightarrow> map (\<lambda>r. lower (strip r)) (filter (\<lambda>r. r \<noteq> []) rs') = []"
    using clean by (metis set_empty)
  have "fetch_assignees_from_assignment db mid rs = fetch_assignees_from_assignment db mid rs'"
    unfolding fetch_assignees_from_assignment_def Let_def empty clean ..
  then show ?thesis unfolding fetch_assignees_def Let_def target by simp
qed

text \<open>A cache whose entries were read from these tables.\<close>

definition cache_fresh :: "staff_db \<Rightarrow> assignment_cache \<Rightarrow> bool" where
  "cache_fresh db c \<longleftrightarrow>
     (\<forall>party u. user_by_party c party = Some u \<longrightarrow> lookup_party db party = Some u)
     \<and> (\<forall>mid key as. assignees_by_role c (mid, key) = Some as \<longrightarrow>
          (\<exists>rs. key = sort (map lower rs) \<and> as = fetch_assignees db mid rs))"

lemma resolve_user_fresh:
  assumes "cache_fresh db c"
  shows "fst (resolve_user_id_by_staff_party_id db party c) = (if or_empty party = [] then None else lookup_party db (or_empty party))"
    and "cache_fresh db (snd (resolve_user_id_by_staff_party_id db party c))"
  using assms by (auto simp: resolve_user_id_by_staff_party_id_def Let_def cache_fresh_def split: option.splits)

lemma resolve_matter_fresh:
  assumes "cache_fresh db c"
  shows "fst (resolve_assignees_for_matter db mid rs c) = fetch_assignees db mid (if rs = [] then ALL_STAFF_ROLE_CODES else rs)"
    and "cache_fresh db (snd (resolve_assignees_for_matter db mid rs c))"
proof -
  let ?rs = "if rs = [] then ALL_STAFF_ROLE_CODES else rs"
  have r: "resolve_assignees_for_matter db mid rs c =
      (case assignees_by_role c (mid, sort (map lower ?rs)) of Some as \<Rightarrow> (as, c)
       | None \<Rightarrow> (fetch_assignees db mid ?rs, c\<lparr>assignees_by_role := (assignees_by_role c)((mid, sort (map lower ?rs)) \<mapsto> fetch_assignees db mid ?rs)\<rparr>))"
    unfolding resolve_assignees_for_matter_def Let_def ..
  show "fst (resolve_assignees_for_matter db mid rs c) = fetch_assignees db mid ?rs"
  proof (cases "assignees_by_role c (mid, sort (map lower ?rs))")
    case (Some as)
    with assms obtain rs' where "sort (map lower ?rs) = sort (map lower rs')" "as = fetch_assignees db mid rs'"
      unfolding cache_fresh_def by blast
    with fetch_assignees_cong show ?thesis unfolding r Some option.case fst_conv by metis
  qed (simp add: r)
  show "cache_fresh db (snd (resolve_assignees_for_matter db mid rs c))"
    using assms unfolding r cache_fresh_def by (auto split: option.splits if_splits)
qed

text \<open>The assignees of a task do not depend on what the session has cached: from a cache whose
  entries were read from the same tables, the answer is the one an empty cache gives, and the cache
  stays of that kind.\<close>

theorem assignees_ignore_session_cache:
  assumes "cache_fresh db c" and "cache_fresh db c'"
  shows "fst (resolve_assignees_for_task db loaded mid t owner_party fallback to_all c) =
      fst (resolve_assignees_for_task db loaded mid t owner_party fallback to_all c')
    \<and> cache_fresh db (snd (resolve_assignees_for_task db loaded mid t owner_party fallback to_all c))"
proof -
  obtain o1 c1 where u: "resolve_user_id_by_staff_party_id db owner_party c = (o1, c1)" by force
  obtain o2 c2 where u': "resolve_user_id_by_staff_party_id db owner_party c' = (o2, c2)" by force
  have o: "o1 = o2" and f: "cache_fresh db c1" "cache_fresh db c2"
    using resolve_user_fresh [OF assms(1), of owner_party] resolve_user_fresh [OF assms(2), of owner_party] u u' by simp_all
  have m: "fst (resolve_assignees_for_matter db mid rs c1) = fst (resolve_assignees_for_matter db mid rs c2)"
    "cache_fresh db (snd (resolve_assignees_for_matter db mid rs c1))" for rs
    using resolve_matter_fresh [OF f(1)] resolve_matter_fresh [OF f(2)] by simp_all
  show ?thesis
    unfolding resolve_assignees_for_task_def Let_def u u' prod.case o using m f by (simp add: split_beta)
qed

section \<open>Manager-only tasks stay with managers\<close>

definition mgr_names :: "string set" where
  "mgr_names = {''manager'', ''mgmt''}"

lemma mgr_names_set: "set MANAGER_ROLE_CODES = mgr_names"
  by (simp add: MANAGER_ROLE_CODES_def mgr_names_def)

lemma mgr_strip: "s \<in> mgr_names \<Longrightarrow> strip s = s"
proof -
  have "list_all (\<lambda>s. strip s = s) [''manager'', ''mgmt'']" by code_simp
  then show "s \<in> mgr_names \<Longrightarrow> strip s = s" by (auto simp: mgr_names_def)
qed

lemma mgr_clean: "lower r \<in> mgr_names \<Longrightarrow> lower (strip r) \<in> mgr_names"
  by (simp add: lower_strip mgr_strip)

lemma first_per_key_subset: "set (first_per_key f seen xs) \<subseteq> set xs"
  by (induction f seen xs rule: first_per_key.induct) auto

lemma collapse_subset: "set (collapse_role_set sp sr xs) \<subseteq> set xs"
  by (induction xs arbitrary: sp sr) (simp_all add: Let_def, blast)

text \<open>The managers of a matter. A user is assigned as manager when the matter has a staff assignment with one of
  the given role names and the user is active and belongs to its party; he is the manager of the flat index when the
  row of the matter names him as such and he is active.\<close>

definition assigned_manager :: "staff_db \<Rightarrow> string \<Rightarrow> string set \<Rightarrow> int \<Rightarrow> bool" where
  "assigned_manager db mid roles uid \<longleftrightarrow>
     list_ex (\<lambda>sa. sa_matter sa = mid \<and> lower (sql_trim (or_empty (sa_role sa))) \<in> roles
       \<and> list_ex (\<lambda>u. u_id u = uid \<and> u_active u \<and> u_staff_party u = Some (sa_party sa)) (users db)) (assignments db)"

definition flat_manager :: "staff_db \<Rightarrow> string \<Rightarrow> int \<Rightarrow> bool" where
  "flat_manager db mid uid \<longleftrightarrow>
     (case flat_rows db mid of None \<Rightarrow> False
      | Some fi \<Rightarrow> uid \<noteq> 0 \<and> fi_manager fi = Some uid \<and> (case user_by_id db uid of None \<Rightarrow> False | Some u \<Rightarrow> u_active u))"

definition manager_of_matter :: "staff_db \<Rightarrow> string \<Rightarrow> int \<Rightarrow> bool" where
  "manager_of_matter db mid uid \<longleftrightarrow> assigned_manager db mid mgr_names uid \<or> flat_manager db mid uid"

text \<open>The staff assignments of a matter list exactly the users assigned with one of the roles.\<close>

lemma assignment_users:
  assumes "\<forall>r \<in> set rs. lower r \<in> mgr_names"
  shows "a_user ` set (fetch_assignees_from_assignment db mid rs) =
    (if staff_query_fails db then {} else {uid. assigned_manager db mid (lower ` set rs) uid})"
proof -
  define clean where "clean = map (\<lambda>r. lower (strip r)) (filter (\<lambda>r. r \<noteq> []) rs)"
  have ne: "r \<noteq> [] \<and> lower (strip r) = lower r" if "r \<in> set rs" for r
  proof
    have m: "lower r \<in> mgr_names" using assms that by blast
    then show "r \<noteq> []" by (auto simp: mgr_names_def lower_def)
    show "lower (strip r) = lower r" unfolding lower_strip by (rule mgr_strip [OF m])
  qed
  then have clean: "set clean = lower ` set rs" unfolding clean_def set_map set_filter by (auto simp: image_iff)
  have role: "(case sa_role sa of None \<Rightarrow> False | Some r \<Rightarrow> lower (sql_trim r) \<in> set clean)
      \<longleftrightarrow> lower (sql_trim (or_empty (sa_role sa))) \<in> lower ` set rs" for sa :: staff_assignment
  proof -
    have "lower (sql_trim []) = []" by (simp add: lower_def sql_trim_def strip_chars_def rstrip_chars_def lstrip_chars_def)
    moreover have "[] \<notin> lower ` set rs" using assms by (auto simp: mgr_names_def)
    ultimately show ?thesis by (cases "sa_role sa") (simp_all add: clean)
  qed
  have "clean = [] \<Longrightarrow> \<not> assigned_manager db mid (lower ` set rs) uid" for uid
    using clean by (auto simp: assigned_manager_def list_ex_iff)
  note empty = this
  define hit where "hit sa \<longleftrightarrow> sa_matter sa = mid \<and> lower (sql_trim (or_empty (sa_role sa))) \<in> lower ` set rs" for sa :: staff_assignment
  define of_party where "of_party sa = filter (\<lambda>u. u_staff_party u = Some (sa_party sa) \<and> u_active u) (users db)" for sa :: staff_assignment
  define row where "row sa u = \<lparr>a_user = u_id u, a_role = (if or_empty (sa_role sa) = [] then None else Some (strip (or_empty (sa_role sa)))),
      a_name = sa_name sa\<rparr>" for sa :: staff_assignment and u :: staff_user
  have rows: "fetch_assignees_from_assignment db mid rs = (if clean = [] \<or> staff_query_fails db then []
      else concat (map (\<lambda>sa. if hit sa then map (row sa) (sort_key u_id (of_party sa)) else []) (assignments db)))"
    unfolding fetch_assignees_from_assignment_def Let_def clean_def [symmetric] role hit_def [symmetric] of_party_def [symmetric] row_def [symmetric] ..
  have "a_user ` set (concat (map (\<lambda>sa. if hit sa then map (row sa) (sort_key u_id (of_party sa)) else []) (assignments db)))
      = (\<Union>sa \<in> {sa \<in> set (assignments db). hit sa}. u_id ` set (of_party sa))"
    by (auto simp: row_def image_iff split: if_splits) (force simp: row_def)+
  also have "\<dots> = {uid. assigned_manager db mid (lower ` set rs) uid}"
    by (auto simp: assigned_manager_def list_ex_iff hit_def of_party_def image_iff)
  finally show ?thesis using empty by (auto simp: rows)
qed

text \<open>Of the flat index only the manager is left.\<close>

lemma flat_users:
  assumes "\<forall>r \<in> set rs. lower r \<in> mgr_names" and "rs \<noteq> []"
  shows "a_user ` set (filter (\<lambda>a. lower (or_empty (a_role a)) \<in> set (target_roles rs)) (fetch_assignees_from_flat_index db mid))
    = {uid. flat_manager db mid uid}"
proof -
  have "set (map (\<lambda>r. lower (strip r)) (filter (\<lambda>r. strip r \<noteq> []) rs)) \<subseteq> mgr_names" using assms(1) mgr_clean by auto
  then have sub: "set (target_roles rs) \<subseteq> mgr_names" unfolding target_roles_def Let_def by (auto simp: mgr_names_def)
  have mgr: "''manager'' \<in> set (target_roles rs)"
  proof -
    obtain r where r: "r \<in> set rs" using assms(2) by (cases rs) auto
    with assms(1) have m: "lower (strip r) \<in> mgr_names" using mgr_clean by blast
    have "strip r \<noteq> []" using m by (auto simp: mgr_names_def lower_def)
    with r m show ?thesis unfolding target_roles_def Let_def mgr_names_def by (auto simp: image_iff)
  qed
  have low: "lower ''manager'' = ''manager''" "lower ''attorney'' \<notin> mgr_names" "lower ''handler'' \<notin> mgr_names"
    by (simp_all add: mgr_names_def) code_simp+
  have key: "flat_row db p = Some a \<Longrightarrow> a_role a = Some (snd p) \<and> (\<exists>u. fst p = Some (a_user a) \<and> a_user a \<noteq> 0
      \<and> user_by_id db (a_user a) = Some u \<and> u_active u)" for p a
  proof -
    assume fr: "flat_row db p = Some a"
    then obtain n u where n: "fst p = Some n" "n \<noteq> 0" "user_by_id db n = Some u" "u_active u"
      "a = \<lparr>a_user = u_id u, a_role = Some (snd p), a_name = None\<rparr>"
      by (auto simp: flat_row_def split: option.splits if_splits)
    moreover have "u_id u = n" using n(3) by (auto simp: user_by_id_def dest: sql_first_Some)
    ultimately show ?thesis by simp
  qed
  show ?thesis
  proof (cases "flat_rows db mid")
    case None
    then show ?thesis by (simp add: fetch_assignees_from_flat_index_def flat_manager_def)
  next
    case (Some fi)
    let ?ps = "[(fi_manager fi, ''manager''), (fi_attorney fi, ''attorney''), (fi_handler fi, ''handler'')]"
    have f: "set (fetch_assignees_from_flat_index db mid) = {a. \<exists>p \<in> set ?ps. flat_row db p = Some a}"
      by (auto simp: fetch_assignees_from_flat_index_def Some map_filter_def image_iff)
    show ?thesis
    proof (intro set_eqI iffI)
      fix uid assume "uid \<in> a_user ` set (filter (\<lambda>a. lower (or_empty (a_role a)) \<in> set (target_roles rs)) (fetch_assignees_from_flat_index db mid))"
      then obtain a p where a: "uid = a_user a" "lower (or_empty (a_role a)) \<in> set (target_roles rs)" "p \<in> set ?ps" "flat_row db p = Some a"
        unfolding set_filter f by blast
      from key [OF a(4)] a(2) sub have "lower (snd p) \<in> mgr_names" by auto
      with a(3) low have p: "p = (fi_manager fi, ''manager'')" by auto
      from key [OF a(4)] show "uid \<in> {uid. flat_manager db mid uid}" by (auto simp: flat_manager_def Some a(1) p)
    next
      fix uid assume "uid \<in> {uid. flat_manager db mid uid}"
      then obtain u where u: "uid \<noteq> 0" "fi_manager fi = Some uid" "user_by_id db uid = Some u" "u_active u"
        by (auto simp: flat_manager_def Some split: option.splits)
      have "u_id u = uid" using u(3) by (auto simp: user_by_id_def dest: sql_first_Some)
      with u have "flat_row db (fi_manager fi, ''manager'') = Some \<lparr>a_user = uid, a_role = Some ''manager'', a_name = None\<rparr>"
        by (simp add: flat_row_def)
      then have "\<lparr>a_user = uid, a_role = Some ''manager'', a_name = None\<rparr> \<in> set (fetch_assignees_from_flat_index db mid)" unfolding f by auto
      moreover have "lower (or_empty (a_role \<lparr>a_user = uid, a_role = Some ''manager'', a_name = None\<rparr>)) \<in> set (target_roles rs)"
        using mgr low by simp
      ultimately show "uid \<in> a_user ` set (filter (\<lambda>a. lower (or_empty (a_role a)) \<in> set (target_roles rs)) (fetch_assignees_from_flat_index db mid))"
        by (force simp: image_iff)
    qed
  qed
qed

lemma first_per_key_Nil: "first_per_key f [] xs = [] \<longleftrightarrow> xs = []"
  by (cases xs) simp_all

lemma collapse_Nil: "collapse_role_set [] [] xs = [] \<longleftrightarrow> xs = []"
  by (cases xs) (simp_all add: Let_def split: option.split)

lemma fetch_managers:
  assumes "\<forall>r \<in> set rs. lower r \<in> mgr_names" and "rs \<noteq> []"
  shows "a \<in> set (fetch_assignees db mid rs) \<Longrightarrow> manager_of_matter db mid (a_user a)"
    and "fetch_assignees db mid rs = [] \<Longrightarrow>
      \<not> flat_manager db mid uid \<and> (staff_query_fails db \<or> \<not> assigned_manager db mid (lower ` set rs) uid)"
proof -
  let ?as = "fetch_assignees_from_assignment db mid rs"
  let ?fl = "filter (\<lambda>a. lower (or_empty (a_role a)) \<in> set (target_roles rs)) (fetch_assignees_from_flat_index db mid)"
  have f: "fetch_assignees db mid rs = dedupe_assignees_by_user_role (if ?as \<noteq> [] then ?as else ?fl)"
    by (simp add: fetch_assignees_def Let_def)
  note au = assignment_users [OF assms(1), of db mid] and fu = flat_users [OF assms, of db mid]
  have mono: "assigned_manager db mid mgr_names u" if "assigned_manager db mid (lower ` set rs) u" for u
    using that assms(1) by (auto simp: assigned_manager_def list_ex_iff)
  {
    assume "a \<in> set (fetch_assignees db mid rs)"
    then have "a \<in> set ?as \<or> a \<in> set ?fl"
      using first_per_key_subset unfolding f dedupe_assignees_by_user_role_def by (fastforce split: if_splits)
    then have "a_user a \<in> a_user ` set ?as \<or> a_user a \<in> a_user ` set ?fl" by blast
    then show "manager_of_matter db mid (a_user a)" unfolding au fu manager_of_matter_def using mono by (auto split: if_splits)
  }
  {
    assume "fetch_assignees db mid rs = []"
    then have e: "?as = []" "?fl = []"
      unfolding f dedupe_assignees_by_user_role_def first_per_key_Nil by (cases "?as = []"; simp)+
    from e(2) fu have "\<not> flat_manager db mid uid" by auto
    moreover from e(1) au have "staff_query_fails db \<or> \<not> assigned_manager db mid (lower ` set rs) uid" by (auto split: if_splits)
    ultimately show "\<not> flat_manager db mid uid \<and> (staff_query_fails db \<or> \<not> assigned_manager db mid (lower ` set rs) uid)" ..
  }
qed

text \<open>C26: A task that the rules reserve to managers goes to managers of its matter: every assignee is an active
  user with a manager role in the staff assignments of this matter, or the manager of the row of this matter in the
  flat index. Only when there is neither (with a role the rule names, and as far as the staff assignments can be
  read) it goes to the fallback user that the caller named. Being the owner of the task gives nobody a share.\<close>

theorem manager_only_task_goes_to_managers:
  assumes "cache_fresh db c" and "is_manager_only_notice loaded t"
    and "resolve_assignees_for_task db loaded mid t owner_party fallback to_all c = ((as, d), c')"
  shows "(as \<noteq> [] \<and> list_all (\<lambda>a. manager_of_matter db mid (a_user a)) as)
    \<or> (as = fallback_assignee fallback \<and> (\<forall>uid. \<not> flat_manager db mid uid
        \<and> (staff_query_fails db \<or> \<not> assigned_manager db mid (lower ` set (d_role_codes d)) uid)))"
proof -
  let ?d = "decide t (fst loaded) (snd loaded)"
  have d: "d_distribute_to ?d = ''role_set''" "d_role_codes ?d \<noteq> []" "\<forall>r \<in> set (d_role_codes ?d). lower r \<in> mgr_names"
    using assms(2) by (auto simp: is_manager_only_notice_def Let_def list_all_iff mgr_names_set)
  obtain o1 c1 where u: "resolve_user_id_by_staff_party_id db owner_party c = (o1, c1)" by force
  have f: "cache_fresh db c1" using resolve_user_fresh(2) [OF assms(1), of owner_party] u by simp
  let ?as = "fst (resolve_assignees_for_matter db mid (d_role_codes ?d) c1)"
  have as: "?as = fetch_assignees db mid (d_role_codes ?d)" using resolve_matter_fresh(1) [OF f, of mid "d_role_codes ?d"] d(2) by simp
  have r: "as = (if collapse_role_set_assignees ?as \<noteq> [] then collapse_role_set_assignees ?as else fallback_assignee fallback) \<and> d = ?d"
    using assms(3) unfolding resolve_assignees_for_task_def Let_def u prod.case if_P [OF d(1)] if_P [OF d(2)] by (auto simp: split_beta)
  show ?thesis
  proof (cases "?as = []")
    case True
    then have "as = fallback_assignee fallback" using r by (simp add: collapse_role_set_assignees_def)
    moreover from True as have e: "fetch_assignees db mid (d_role_codes ?d) = []" by simp
    ultimately show ?thesis using fetch_managers(2) [OF d(3,2) e] r by blast
  next
    case False
    then have "as = collapse_role_set_assignees ?as" "as \<noteq> []" using r by (simp_all add: collapse_role_set_assignees_def collapse_Nil)
    moreover have "set (collapse_role_set_assignees ?as) \<subseteq> set ?as" unfolding collapse_role_set_assignees_def by (rule collapse_subset)
    ultimately show ?thesis using fetch_managers(1) [OF d(3,2)] as unfolding list_all_iff by (metis subsetD)
  qed
qed

definition staff_example :: staff_db where
  "staff_example =
     \<lparr>users = [\<lparr>u_id = 7, u_staff_party = Some ''P7'', u_active = True, u_role = None\<rparr>, \<lparr>u_id = 9, u_staff_party = Some ''P9'', u_active = True, u_role = None\<rparr>],
      assignments = [\<lparr>sa_matter = ''M1'', sa_party = ''P9'', sa_role = Some ''attorney'', sa_name = None\<rparr>,
                     \<lparr>sa_matter = ''M1'', sa_party = ''P7'', sa_role = Some '' MANAGER '', sa_name = Some ''Kim''\<rparr>],
      flat_rows = (\<lambda>m. None), staff_query_fails = False\<rparr>"

definition no_assignment_cache :: assignment_cache where
  "no_assignment_cache = \<lparr>user_by_party = (\<lambda>p. None), assignees_by_role = (\<lambda>k. None)\<rparr>"

lemma no_assignment_cache_fresh: "cache_fresh db no_assignment_cache"
  by (simp add: cache_fresh_def no_assignment_cache_def)

theorem manager_only_task_goes_to_managers_witness:
  "\<exists>d c'. resolve_assignees_for_task staff_example (read_rules (\<lambda>p. None) file_example) ''M1'' task_example (Some ''P9'') None False no_assignment_cache
      = (([\<lparr>a_user = 7, a_role = Some ''MANAGER'', a_name = Some ''Kim''\<rparr>], d), c')
    \<and> manager_of_matter staff_example ''M1'' 7"
proof -
  let ?r = "resolve_assignees_for_task staff_example (read_rules (\<lambda>p. None) file_example) ''M1'' task_example (Some ''P9'') None False no_assignment_cache"
  have "fst (fst ?r) = [\<lparr>a_user = 7, a_role = Some ''MANAGER'', a_name = Some ''Kim''\<rparr>]" by code_simp
  then obtain d c' where r: "?r = (([\<lparr>a_user = 7, a_role = Some ''MANAGER'', a_name = Some ''Kim''\<rparr>], d), c')"
    by (metis prod.collapse)
  have "is_manager_only_notice (read_rules (\<lambda>p. None) file_example) task_example" by code_simp
  from manager_only_task_goes_to_managers [OF no_assignment_cache_fresh this r] have "manager_of_matter staff_example ''M1'' 7"
    by (simp add: fallback_assignee_def)
  with r show ?thesis by blast
qed

theorem assignees_ignore_session_cache_witness:
  "let t = task_example; l = read_rules (\<lambda>p. None) file_example;
       c = snd (resolve_assignees_for_task staff_example l ''M1'' t (Some ''P9'') None False no_assignment_cache) in
   fst (resolve_assignees_for_task staff_example l ''M1'' t (Some ''P9'') None False c)
     = fst (resolve_assignees_for_task staff_example l ''M1'' t (Some ''P9'') None False no_assignment_cache)"
  unfolding Let_def
  by (rule assignees_ignore_session_cache [THEN conjunct1, OF
      assignees_ignore_session_cache [THEN conjunct2, OF no_assignment_cache_fresh no_assignment_cache_fresh] no_assignment_cache_fresh])

section \<open>The owner of a workflow\<close>

lemma first_user_spec:
  "first_user vs = None \<longleftrightarrow> list_all (\<lambda>v. coerce_positive_user_id v = None) vs"
  "first_user vs = Some u \<Longrightarrow> Some u \<in> set vs \<and> 0 < u"
  by (induction vs) (auto simp: first_user_def map_filter_simps coerce_positive_user_id_def split: option.splits if_splits list.splits)

text \<open>A workflow has a primary owner exactly when one of its three roles is filled, whatever category
  text it carries, and the owner is one of the users in these roles.\<close>

theorem primary_owner_exists:
  "(case workflow_primary_owner_user_id category s of
      None \<Rightarrow> list_all (\<lambda>v. coerce_positive_user_id v = None) [handler_id s, attorney_id s, manager_id s]
    | Some u \<Rightarrow> 0 < u \<and> Some u \<in> set [handler_id s, attorney_id s, manager_id s])"
proof -
  let ?n = "owner_category category s"
  let ?c = "if ?n = ''MGMT'' then [manager_id s] else if ?n = ''MGMT_WORK'' then [handler_id s, attorney_id s, manager_id s]
      else [handler_id s, attorney_id s]"
  have w: "workflow_primary_owner_user_id category s =
      (case first_user ?c of Some u \<Rightarrow> Some u | None \<Rightarrow> first_user [handler_id s, attorney_id s, manager_id s])"
    unfolding workflow_primary_owner_user_id_def Let_def ..
  have sub: "set ?c \<subseteq> set [handler_id s, attorney_id s, manager_id s]" by (simp only: split: if_split) auto
  show ?thesis
  proof (cases "first_user ?c")
    case (Some u)
    with first_user_spec(2) [OF Some] sub show ?thesis unfolding w by auto
  next
    case None
    show ?thesis
    proof (cases "first_user [handler_id s, attorney_id s, manager_id s]")
      case (Some u)
      with first_user_spec(2) [OF Some] show ?thesis unfolding w None by simp
    next
      case n: None
      then have "list_all (\<lambda>v. coerce_positive_user_id v = None) [handler_id s, attorney_id s, manager_id s]"
        by (rule first_user_spec(1) [THEN iffD1])
      then show ?thesis unfolding w None option.case n .
    qed
  qed
qed

end
