(* ===== verification/Assignment_Requests.thy ===== *)
theory Assignment_Requests
  imports Task_Assignment
begin

text \<open>
  Requests to confirm a workflow assignment (\<open>app/services/workflow/assignment_requests.py\<close>,
  \<open>app/models/workflow_assignment_request.py\<close>) and the session hook that closes requests a workflow
  has outgrown (\<open>app/models/workflow.py\<close>).

  The state is the table of requests, the workflows, the workflows changed since the last flush, and
  what manual overrides were written to docket items. A query flushes first, as the session does.
  The link from a workflow to its docket item, the staff party of a user and the access check for
  privileged users are arguments.
\<close>

section \<open>Tables\<close>

datatype req_status = ReqPending | ReqAccepted | ReqRejected | ReqCancelled
datatype req_role = RoleHandler | RoleAttorney | RoleManager

record assignment_request =
  ar_id :: int
  ar_workflow :: int
  ar_role :: req_role
  ar_previous :: "int option"
  ar_target :: int
  ar_requested_by :: "int option"
  ar_status :: req_status
  ar_source :: "string option"
  ar_requested_at :: datetime
  ar_responded_at :: "datetime option"
  ar_note :: "string option"

record assigned_workflow =
  aw_case :: string
  aw_name :: "string option"
  aw_business_code :: "string option"
  aw_status :: string
  aw_category :: "string option"
  aw_staff :: staff_ids

record manual_override =
  mo_workflow :: int
  mo_staff :: staff_ids
  mo_category :: "string option"
  mo_actor :: "int option"

record request_db =
  req_rows :: "assignment_request list"
  req_workflows :: "int \<Rightarrow> assigned_workflow option"
  req_dirty :: "int list"
  req_next_id :: int
  overrides :: "string \<Rightarrow> manual_override option"
  docket_owners :: "string \<Rightarrow> string option"

datatype request_error =
  UnsupportedRole | WorkflowNotFlushed | RequestNotFound | RequestForbidden | RequestInvalidAction | PendingRoleTaken

definition ROLE_FIELDS :: "req_role list" where
  "ROLE_FIELDS = [RoleHandler, RoleAttorney, RoleManager]"

definition role_of_code :: "string \<Rightarrow> req_role option" where
  "role_of_code code = map_of [(''handler'', RoleHandler), (''attorney'', RoleAttorney), (''manager'', RoleManager)] (strip code)"

fun get_role :: "req_role \<Rightarrow> staff_ids \<Rightarrow> int option" where
  "get_role RoleHandler s = handler_id s"
| "get_role RoleAttorney s = attorney_id s"
| "get_role RoleManager s = manager_id s"

fun set_role :: "req_role \<Rightarrow> int option \<Rightarrow> staff_ids \<Rightarrow> staff_ids" where
  "set_role RoleHandler v s = s\<lparr>handler_id := v\<rparr>"
| "set_role RoleAttorney v s = s\<lparr>attorney_id := v\<rparr>"
| "set_role RoleManager v s = s\<lparr>manager_id := v\<rparr>"

section \<open>The session hook\<close>

definition terminal_resolution :: "string \<Rightarrow> (req_status \<times> string) option" where
  "terminal_resolution st =
     (if strip st = ''Completed'' then Some (ReqAccepted, ''workflow-completed'')
      else if strip st = ''Abandoned'' then Some (ReqCancelled, ''workflow-abandoned'') else None)"

definition close_pending :: "req_status \<Rightarrow> string \<Rightarrow> datetime \<Rightarrow> assignment_request \<Rightarrow> assignment_request" where
  "close_pending st txt now r =
     (if ar_status r \<noteq> ReqPending then r
      else r\<lparr>ar_status := st, ar_responded_at := Some now, ar_note := Some txt\<rparr>)"

definition matches_workflow :: "assignment_request \<Rightarrow> assigned_workflow \<Rightarrow> bool" where
  "matches_workflow r w \<longleftrightarrow>
     coerce_positive_user_id (get_role (ar_role r) (aw_staff w)) = coerce_positive_user_id (Some (ar_target r))"

definition finalize_for_workflow :: "datetime \<Rightarrow> assigned_workflow \<Rightarrow> assignment_request \<Rightarrow> assignment_request" where
  "finalize_for_workflow now w r =
     (case terminal_resolution (aw_status w) of
        Some (st, txt) \<Rightarrow> close_pending st txt now r
      | None \<Rightarrow> if \<not> matches_workflow r w then close_pending ReqCancelled ''workflow-assignment-changed'' now r else r)"

definition finalize_row :: "datetime \<Rightarrow> request_db \<Rightarrow> assignment_request \<Rightarrow> assignment_request" where
  "finalize_row now db r =
     (case req_workflows db (ar_workflow r) of None \<Rightarrow> r | Some w \<Rightarrow> finalize_for_workflow now w r)"

text \<open>A flush runs the hook on the new requests and on the pending ones of changed workflows, then
  inserts. The unique index refuses a second pending request for a workflow and role. The new rows are
  compared with the rows before the hook's updates, whatever the order of the statements in the flush; every
  caller that inserts has flushed and cancelled the pending requests of the same workflow and role before.\<close>

definition same_slot :: "assignment_request \<Rightarrow> assignment_request \<Rightarrow> bool" where
  "same_slot a b \<longleftrightarrow> ar_workflow a = ar_workflow b \<and> ar_role a = ar_role b"

definition is_pending :: "assignment_request \<Rightarrow> bool" where
  "is_pending r \<longleftrightarrow> ar_status r = ReqPending"

definition flush :: "datetime \<Rightarrow> assignment_request list \<Rightarrow> request_db \<Rightarrow> request_error + request_db" where
  "flush now new db =
     (let new1 = map (finalize_row now db) new;
          rows1 = map (\<lambda>r. if is_pending r \<and> ar_workflow r \<in> set (req_dirty db) then finalize_row now db r else r) (req_rows db) in
      if list_ex (\<lambda>n. is_pending n \<and> list_ex (\<lambda>r. is_pending r \<and> same_slot r n) (req_rows db)) new1 then Inl PendingRoleTaken
      else Inr (db\<lparr>req_rows := rows1 @ new1, req_dirty := []\<rparr>))"

section \<open>Requesting confirmation\<close>

definition flush_updates :: "datetime \<Rightarrow> request_db \<Rightarrow> request_db" where
  "flush_updates now db = (case flush now [] db of Inl err \<Rightarrow> db | Inr db' \<Rightarrow> db')"

definition cancel_pending_assignment_requests ::
  "datetime \<Rightarrow> int \<Rightarrow> req_role \<Rightarrow> string \<Rightarrow> request_db \<Rightarrow> request_db"
where
  "cancel_pending_assignment_requests now wid role reason db =
     (let db1 = flush_updates now db in
      db1\<lparr>req_rows := map (\<lambda>r. if ar_workflow r = wid \<and> ar_role r = role \<and> is_pending r
                               then r\<lparr>ar_status := ReqCancelled, ar_responded_at := Some now, ar_note := Some reason\<rparr> else r) (req_rows db1)\<rparr>)"

text \<open>The request for a target: pending, or answered at once when the workflow is over or the user
  asks for himself.\<close>

definition new_request ::
  "datetime \<Rightarrow> int \<Rightarrow> assigned_workflow \<Rightarrow> req_role \<Rightarrow> int option \<Rightarrow> int \<Rightarrow> int option \<Rightarrow> string option \<Rightarrow> int \<Rightarrow> assignment_request"
where
  "new_request now wid w role prev tid requester source rid =
     (let (st, answer) =
            (if strip (aw_status w) = ''Completed'' then (ReqAccepted, Some ''workflow-completed'')
             else if strip (aw_status w) = ''Abandoned'' then (ReqCancelled, Some ''workflow-abandoned'')
             else if requester = Some tid then (ReqAccepted, Some ''self-assignment'')
             else (ReqPending, None)) in
      \<lparr>ar_id = rid, ar_workflow = wid, ar_role = role, ar_previous = prev, ar_target = tid,
       ar_requested_by = requester, ar_status = st, ar_source = or_none (strip (or_empty source)),
       ar_requested_at = now, ar_responded_at = (if st = ReqPending then None else Some now), ar_note = answer\<rparr>)"

text \<open>\<open>previous\<close> is \<open>None\<close> when the argument is missing.\<close>

definition request_assignment_confirmation ::
  "datetime \<Rightarrow> int \<Rightarrow> string \<Rightarrow> int option \<Rightarrow> int option \<Rightarrow> string option \<Rightarrow> int option option \<Rightarrow> request_db
    \<Rightarrow> request_error + assignment_request option \<times> request_db"
where
  "request_assignment_confirmation now wid role_code target requested_by source previous db =
     (case role_of_code role_code of
        None \<Rightarrow> Inl UnsupportedRole
      | Some role \<Rightarrow>
          (case req_workflows db wid of
             None \<Rightarrow> Inl WorkflowNotFlushed
           | Some w \<Rightarrow>
               let requester = coerce_positive_user_id requested_by;
                   prev = (case previous of None \<Rightarrow> coerce_positive_user_id (get_role role (aw_staff w)) | Some p \<Rightarrow> coerce_positive_user_id p);
                   db1 = cancel_pending_assignment_requests now wid role ''reassigned'' db in
               if wid \<le> 0 then Inl WorkflowNotFlushed
               else case coerce_positive_user_id target of
                 None \<Rightarrow> Inr (None, db1)
               | Some tid \<Rightarrow>
                   let r = new_request now wid w role prev tid requester source (req_next_id db1) in
                   (case flush now [r] (db1\<lparr>req_next_id := req_next_id db1 + 1\<rparr>) of
                      Inl err \<Rightarrow> Inl err
                    | Inr db2 \<Rightarrow> Inr (Some (finalize_row now db1 r), db2))))"

definition code_of_role :: "req_role \<Rightarrow> string" where
  "code_of_role role = (case role of RoleHandler \<Rightarrow> ''handler'' | RoleAttorney \<Rightarrow> ''attorney'' | RoleManager \<Rightarrow> ''manager'')"

text \<open>The loop over the roles; \<open>before\<close> is the normalised state before the change.\<close>

fun sync_roles ::
  "datetime \<Rightarrow> int \<Rightarrow> staff_ids \<Rightarrow> staff_ids \<Rightarrow> int option \<Rightarrow> string option \<Rightarrow> req_role list \<Rightarrow> request_db
    \<Rightarrow> request_error + assignment_request list \<times> request_db"
where
  "sync_roles now wid before after by source [] db = Inr ([], db)"
| "sync_roles now wid before after by source (role # roles) db =
     (let old_id = coerce_positive_user_id (get_role role before); new_id = coerce_positive_user_id (get_role role after) in
      if old_id = new_id then sync_roles now wid before after by source roles db
      else case request_assignment_confirmation now wid (code_of_role role) new_id by source (Some old_id) db of
        Inl err \<Rightarrow> Inl err
      | Inr (r, db1) \<Rightarrow>
          (case sync_roles now wid before after by source roles db1 of
             Inl err \<Rightarrow> Inl err
           | Inr (rs, db2) \<Rightarrow> Inr ((case r of None \<Rightarrow> rs | Some x \<Rightarrow> x # rs), db2)))"

definition sync_assignment_requests_for_changed_roles ::
  "datetime \<Rightarrow> int \<Rightarrow> staff_ids \<Rightarrow> int option \<Rightarrow> string option \<Rightarrow> request_db
    \<Rightarrow> request_error + assignment_request list \<times> request_db"
where
  "sync_assignment_requests_for_changed_roles now wid before by source db =
     (case req_workflows db wid of
        None \<Rightarrow> sync_roles now wid before \<lparr>handler_id = None, attorney_id = None, manager_id = None\<rparr> by source ROLE_FIELDS db
      | Some w \<Rightarrow> sync_roles now wid before (aw_staff w) by source ROLE_FIELDS db)"

section \<open>Responding\<close>

text \<open>What a response needs from the rest of the system.\<close>

record respond_env =
  re_staff :: staff_db
  re_rules :: loaded_rules
  user_ok :: "int \<Rightarrow> bool"
  can_assign_staff :: "int \<Rightarrow> string \<Rightarrow> bool"
  linked_docket :: "int \<Rightarrow> string option"

definition staff_party_id_for_user_id :: "staff_db \<Rightarrow> int option \<Rightarrow> string option" where
  "staff_party_id_for_user_id db uid =
     (case coerce_positive_user_id uid of
        None \<Rightarrow> None
      | Some n \<Rightarrow> (case user_by_id db n of
                     None \<Rightarrow> None | Some u \<Rightarrow> if u_active u then or_none (strip (or_empty (u_staff_party u))) else None))"

definition ACCEPT_ACTIONS :: "string list" where "ACCEPT_ACTIONS = [''accept'', ''accepted'']"
definition REJECT_ACTIONS :: "string list" where "REJECT_ACTIONS = [''reject'', ''rejected'']"

definition actor_can_respond ::
  "respond_env \<Rightarrow> request_db \<Rightarrow> assignment_request \<Rightarrow> int option \<Rightarrow> string \<Rightarrow> bool \<Rightarrow> bool"
where
  "actor_can_respond env db r actor_id act privileged =
     (case coerce_positive_user_id actor_id of
        None \<Rightarrow> False
      | Some actor \<Rightarrow>
          if actor = ar_target r then True
          else if \<not> privileged \<or> lower (strip act) \<notin> set ACCEPT_ACTIONS then False
          else
            let mid = (case req_workflows db (ar_workflow r) of None \<Rightarrow> [] | Some w \<Rightarrow> strip (aw_case w)) in
            mid \<noteq> [] \<and> user_ok env actor \<and> can_assign_staff env actor mid)"

definition set_category_after_change :: "respond_env \<Rightarrow> assigned_workflow \<Rightarrow> assigned_workflow" where
  "set_category_after_change env w =
     w\<lparr>aw_category := Some (derive_workflow_category (re_staff env) (re_rules env) (Some (aw_case w)) (aw_staff w) None
         \<lparr>h_category = aw_category w, h_name_ref = aw_business_code w, h_name_free = aw_name w\<rparr> None)\<rparr>"

definition positive_staff :: "staff_ids \<Rightarrow> staff_ids" where
  "positive_staff s = \<lparr>handler_id = coerce_positive_user_id (handler_id s), attorney_id = coerce_positive_user_id (attorney_id s),
     manager_id = coerce_positive_user_id (manager_id s)\<rparr>"

text \<open>The entry written to the memo of the linked docket item, and its owner.\<close>

definition persist_manual_workflow_assignment_override ::
  "respond_env \<Rightarrow> int \<Rightarrow> assigned_workflow \<Rightarrow> int option \<Rightarrow> request_db \<Rightarrow> request_db"
where
  "persist_manual_workflow_assignment_override env wid w actor db =
     (case linked_docket env wid of
        None \<Rightarrow> db
      | Some did \<Rightarrow>
          let s = positive_staff (aw_staff w);
              owner = workflow_primary_owner_user_id (aw_category w) s;
              party = staff_party_id_for_user_id (re_staff env) owner;
              db1 = db\<lparr>overrides := (overrides db)(did \<mapsto> \<lparr>mo_workflow = wid, mo_staff = s,
                        mo_category = or_none (strip (or_empty (aw_category w))), mo_actor = coerce_positive_user_id actor\<rparr>)\<rparr> in
          if or_empty party = [] then db1 else db1\<lparr>docket_owners := (docket_owners db)(did := party)\<rparr>)"

definition put_row :: "assignment_request \<Rightarrow> request_db \<Rightarrow> request_db" where
  "put_row r db = db\<lparr>req_rows := map (\<lambda>x. if ar_id x = ar_id r then r else x) (req_rows db)\<rparr>"

record response =
  rs_request :: assignment_request
  rs_changed :: bool
  rs_final :: bool

definition reject_request ::
  "respond_env \<Rightarrow> datetime \<Rightarrow> int option \<Rightarrow> string option \<Rightarrow> assignment_request \<Rightarrow> request_db \<Rightarrow> response \<times> request_db"
where
  "reject_request env now actor reason r db =
     (let r1 = r\<lparr>ar_status := ReqRejected, ar_responded_at := Some now, ar_note := or_none (strip (or_empty reason))\<rparr>;
          db1 = put_row r1 db; wid = ar_workflow r in
      case req_workflows db wid of
        None \<Rightarrow> (\<lparr>rs_request = r1, rs_changed = False, rs_final = False\<rparr>, db1)
      | Some w \<Rightarrow>
          if coerce_positive_user_id (get_role (ar_role r) (aw_staff w)) = coerce_positive_user_id (Some (ar_target r))
          then
            let w1 = set_category_after_change env
                       (w\<lparr>aw_staff := set_role (ar_role r) (case ar_previous r of None \<Rightarrow> None | Some p \<Rightarrow> coerce_positive_user_id (Some p)) (aw_staff w)\<rparr>)
            in (\<lparr>rs_request = r1, rs_changed = True, rs_final = False\<rparr>,
                persist_manual_workflow_assignment_override env wid w1 actor
                  (db1\<lparr>req_workflows := (req_workflows db1)(wid \<mapsto> w1), req_dirty := wid # req_dirty db1\<rparr>))
          else (\<lparr>rs_request = r1, rs_changed = False, rs_final = False\<rparr>, db1))"

definition respond_assignment_request ::
  "respond_env \<Rightarrow> datetime \<Rightarrow> int \<Rightarrow> int option \<Rightarrow> string \<Rightarrow> string option \<Rightarrow> bool \<Rightarrow> request_db
    \<Rightarrow> request_error + response \<times> request_db"
where
  "respond_assignment_request env now rid actor_id act0 reason privileged db0 =
     (let db = flush_updates now db0; act = lower (strip act0); actor = coerce_positive_user_id actor_id in
      case sql_first (\<lambda>r. ar_id r = rid) (req_rows db) of
        None \<Rightarrow> Inl RequestNotFound
      | Some r \<Rightarrow>
          if \<not> actor_can_respond env db r actor act privileged then Inl RequestForbidden
          else if ar_status r \<noteq> ReqPending then Inr (\<lparr>rs_request = r, rs_changed = False, rs_final = True\<rparr>, db)
          else if act \<in> set ACCEPT_ACTIONS
          then (let r1 = r\<lparr>ar_status := ReqAccepted, ar_responded_at := Some now, ar_note := or_none (strip (or_empty reason))\<rparr>
                in Inr (\<lparr>rs_request = r1, rs_changed = False, rs_final = False\<rparr>, put_row r1 db))
          else if act \<notin> set REJECT_ACTIONS then Inl RequestInvalidAction
          else Inr (reject_request env now actor reason r db))"

section \<open>Interleavings\<close>

text \<open>A caller changes a workflow, asks for confirmations, somebody responds, a session commits.\<close>

inductive request_step :: "request_db \<Rightarrow> request_db \<Rightarrow> bool" where
  edit: "request_step db (db\<lparr>req_workflows := (req_workflows db)(wid \<mapsto> w), req_dirty := wid # req_dirty db\<rparr>)"
| confirm: "request_assignment_confirmation now wid code target by source previous db = Inr (r, db') \<Longrightarrow> request_step db db'"
| sync: "sync_assignment_requests_for_changed_roles now wid before by source db = Inr (rs, db') \<Longrightarrow> request_step db db'"
| respond: "respond_assignment_request env now rid actor act reason privileged db = Inr (res, db') \<Longrightarrow> request_step db db'"
| commit: "request_step db (flush_updates now db)"

inductive request_reachable :: "request_db \<Rightarrow> bool" where
  empty: "req_rows db = [] \<Longrightarrow> request_reachable db"
| step: "request_reachable db \<Longrightarrow> request_step db db' \<Longrightarrow> request_reachable db'"

text \<open>The invariant: ids are unique and below the next one, at most one pending request per workflow
  and role, and a pending request of a workflow without unflushed changes asks the user in that role
  of a workflow that is still open.\<close>

definition slot :: "assignment_request \<Rightarrow> int \<times> req_role" where
  "slot r = (ar_workflow r, ar_role r)"

definition current :: "request_db \<Rightarrow> assignment_request \<Rightarrow> bool" where
  "current db r = (case req_workflows db (ar_workflow r) of None \<Rightarrow> True
     | Some w \<Rightarrow> terminal_resolution (aw_status w) = None \<and> matches_workflow r w)"

definition requests_ok :: "request_db \<Rightarrow> bool" where
  "requests_ok db \<longleftrightarrow>
     distinct (map ar_id (req_rows db)) \<and> list_all (\<lambda>r. ar_id r < req_next_id db) (req_rows db)
     \<and> distinct (map slot (filter is_pending (req_rows db)))
     \<and> list_all (\<lambda>r. is_pending r \<longrightarrow> ar_workflow r \<in> set (req_dirty db) \<or> current db r) (req_rows db)"

section \<open>Closing requests\<close>

text \<open>A change of the rows that leaves each row as it is or ends a pending one.\<close>

definition closes :: "assignment_request list \<Rightarrow> (assignment_request \<Rightarrow> assignment_request) \<Rightarrow> bool" where
  "closes rows f \<longleftrightarrow>
     (\<forall>r \<in> set rows. f r = r \<or> is_pending r \<and> \<not> is_pending (f r) \<and> ar_id (f r) = ar_id r)"

lemma closes_ids: "closes rows f \<Longrightarrow> map ar_id (map f rows) = map ar_id rows"
  by (auto simp: closes_def)

lemma closes_pending: "closes rows f \<Longrightarrow> filter is_pending (map f rows) = filter (\<lambda>r. is_pending (f r)) rows"
  by (induction rows) (auto simp: closes_def)

lemma closes_pending_same: "closes rows f \<Longrightarrow> r \<in> set rows \<Longrightarrow> is_pending (f r) \<Longrightarrow> f r = r \<and> is_pending r"
  by (auto simp: closes_def)

lemma requests_ok_closes:
  assumes "requests_ok db" and "closes (req_rows db) f"
  shows "requests_ok (db\<lparr>req_rows := map f (req_rows db)\<rparr>)"
proof -
  let ?rows = "req_rows db"
  note pend = closes_pending_same [OF assms(2)]
  have "filter (\<lambda>r. is_pending (f r)) ?rows = filter (\<lambda>r. is_pending (f r)) (filter is_pending ?rows)"
    using pend by (induction ?rows rule: rev_induct) (auto intro!: filter_cong)
  then have "distinct (map slot (filter (\<lambda>r. is_pending (f r)) ?rows))"
    using assms(1) by (metis distinct_map_filter requests_ok_def)
  then have "distinct (map slot (filter is_pending (map f ?rows)))" unfolding closes_pending [OF assms(2)] .
  moreover have "distinct (map ar_id (map f ?rows))" unfolding closes_ids [OF assms(2)] using assms(1) by (simp add: requests_ok_def)
  moreover have "\<forall>r \<in> set ?rows. ar_id (f r) < req_next_id db"
    using assms by (auto simp: closes_def requests_ok_def list_all_iff)
  moreover have "\<forall>r \<in> set ?rows. is_pending (f r) \<longrightarrow> ar_workflow (f r) \<in> set (req_dirty db) \<or> current db (f r)"
    using assms(1) pend by (auto simp: requests_ok_def list_all_iff) metis
  ultimately show ?thesis by (auto simp: requests_ok_def list_all_iff current_def)
qed

lemma close_pending_closes: "st \<noteq> ReqPending \<Longrightarrow> closes rows (close_pending st txt now)"
  by (auto simp: closes_def close_pending_def is_pending_def)

lemma terminal_not_pending: "terminal_resolution s = Some (st, txt) \<Longrightarrow> st \<noteq> ReqPending"
  by (auto simp: terminal_resolution_def split: if_splits)

lemma finalize_row_closes: "closes rows (finalize_row now db)"
proof -
  have "finalize_row now db r = r \<or> is_pending r \<and> \<not> is_pending (finalize_row now db r) \<and> ar_id (finalize_row now db r) = ar_id r" for r
    using terminal_not_pending
    by (auto simp: finalize_row_def finalize_for_workflow_def close_pending_def is_pending_def split: option.splits)
  then show ?thesis by (simp add: closes_def)
qed

lemma finalize_row_current: "is_pending (finalize_row now db r) \<Longrightarrow> finalize_row now db r = r \<and> current db r"
proof -
  assume p: "is_pending (finalize_row now db r)"
  show ?thesis
  proof (cases "req_workflows db (ar_workflow r)")
    case None
    then show ?thesis by (simp add: finalize_row_def current_def)
  next
    case (Some w)
    show ?thesis
    proof (cases "terminal_resolution (aw_status w)")
      case n: None
      with Some p show ?thesis
        by (auto simp: finalize_row_def finalize_for_workflow_def current_def close_pending_def is_pending_def split: if_splits)
    next
      case t: (Some x)
      obtain st nt where x: "x = (st, nt)" by force
      then have "st \<noteq> ReqPending" using t terminal_not_pending by blast
      with Some t x p show ?thesis
        by (auto simp: finalize_row_def finalize_for_workflow_def close_pending_def is_pending_def split: if_splits)
    qed
  qed
qed

definition flush_row :: "datetime \<Rightarrow> request_db \<Rightarrow> assignment_request \<Rightarrow> assignment_request" where
  "flush_row now db r = (if is_pending r \<and> ar_workflow r \<in> set (req_dirty db) then finalize_row now db r else r)"

lemma flush_row_closes: "closes rows (flush_row now db)"
  using finalize_row_closes [of rows now db] by (auto simp: closes_def flush_row_def)

lemma flush_updates_eq: "flush_updates now db = db\<lparr>req_rows := map (flush_row now db) (req_rows db), req_dirty := []\<rparr>"
  by (simp add: flush_updates_def flush_def Let_def flush_row_def [abs_def])

lemma flush_updates_ok: "requests_ok db \<Longrightarrow> requests_ok (flush_updates now db)"
proof -
  assume ok: "requests_ok db"
  let ?db = "db\<lparr>req_rows := map (flush_row now db) (req_rows db)\<rparr>"
  have ok1: "requests_ok ?db" by (rule requests_ok_closes [OF ok flush_row_closes])
  have "current db (flush_row now db r)" if "r \<in> set (req_rows db)" "is_pending (flush_row now db r)" for r
  proof -
    have same: "flush_row now db r = r" "is_pending r" using closes_pending_same [OF flush_row_closes that(1) that(2)] by auto
    show ?thesis
    proof (cases "ar_workflow r \<in> set (req_dirty db)")
      case True
      then have "flush_row now db r = finalize_row now db r" using same by (simp add: flush_row_def)
      with finalize_row_current [of now db r] that(2) show ?thesis by simp
    next
      case False
      with ok same that(1) show ?thesis by (auto simp: requests_ok_def list_all_iff)
    qed
  qed
  with ok1 show ?thesis by (auto simp: flush_updates_eq requests_ok_def list_all_iff current_def)
qed

section \<open>Every step keeps the invariant\<close>

text \<open>Requests that were answered or closed stay as they are.\<close>

definition keeps_final :: "request_db \<Rightarrow> request_db \<Rightarrow> bool" where
  "keeps_final db db' \<longleftrightarrow> (\<forall>r \<in> set (req_rows db). \<not> is_pending r \<longrightarrow> r \<in> set (req_rows db'))"

lemma keeps_final_refl: "req_rows db' = req_rows db \<Longrightarrow> keeps_final db db'"
  by (simp add: keeps_final_def)

lemma keeps_final_trans: "keeps_final a b \<Longrightarrow> keeps_final b c \<Longrightarrow> keeps_final a c"
  by (auto simp: keeps_final_def)

lemma keeps_final_closes: "closes (req_rows db) f \<Longrightarrow> req_rows db' = map f (req_rows db) @ new \<Longrightarrow> keeps_final db db'"
  by (force simp: keeps_final_def closes_def)

lemma flush_updates_final: "keeps_final db (flush_updates now db)"
  by (rule keeps_final_closes [where f = "flush_row now db" and new = "[]"]) (simp_all add: flush_updates_eq flush_row_closes)

lemma cancel_spec:
  assumes "requests_ok db" and db1_def: "db1 = cancel_pending_assignment_requests now wid role reason db"
  shows "requests_ok db1" and "keeps_final db db1" and "req_dirty db1 = []" and "req_workflows db1 = req_workflows db"
    and "\<forall>x \<in> set (req_rows db1). is_pending x \<longrightarrow> slot x \<noteq> (wid, role)"
proof -
  define f where "f r = (if ar_workflow r = wid \<and> ar_role r = role \<and> is_pending r
      then r\<lparr>ar_status := ReqCancelled, ar_responded_at := Some now, ar_note := Some reason\<rparr> else r)" for r
  let ?m = "flush_updates now db"
  have db1: "db1 = ?m\<lparr>req_rows := map f (req_rows ?m)\<rparr>"
    by (simp add: db1_def cancel_pending_assignment_requests_def Let_def f_def [abs_def])
  have c: "closes (req_rows ?m) f" by (auto simp: closes_def f_def is_pending_def)
  show "requests_ok db1" unfolding db1 by (rule requests_ok_closes [OF flush_updates_ok [OF assms(1)] c])
  have "keeps_final ?m db1" by (rule keeps_final_closes [OF c, where new = "[]"]) (simp add: db1)
  with flush_updates_final show "keeps_final db db1" by (rule keeps_final_trans)
  show "req_dirty db1 = []" "req_workflows db1 = req_workflows db" by (simp_all add: db1 flush_updates_eq)
  have "is_pending (f y) \<longrightarrow> slot (f y) \<noteq> (wid, role)" for y by (auto simp: f_def slot_def is_pending_def)
  then show "\<forall>x \<in> set (req_rows db1). is_pending x \<longrightarrow> slot x \<noteq> (wid, role)" unfolding db1 by simp
qed

lemma finalize_row_fields [simp]:
  "ar_id (finalize_row now db r) = ar_id r" "slot (finalize_row now db r) = slot r" "ar_workflow (finalize_row now db r) = ar_workflow r"
  by (auto simp: finalize_row_def finalize_for_workflow_def close_pending_def slot_def split: option.splits)

lemma insert_request:
  assumes "requests_ok db" and "req_dirty db = []" and "\<forall>x \<in> set (req_rows db). is_pending x \<longrightarrow> slot x \<noteq> slot r"
    and "ar_id r = req_next_id db"
  obtains db' where "flush now [r] (db\<lparr>req_next_id := req_next_id db + 1\<rparr>) = Inr db'" and "requests_ok db'"
    and "req_rows db' = req_rows db @ [finalize_row now db r]"
proof
  let ?r = "finalize_row now db r"
  let ?db = "db\<lparr>req_next_id := req_next_id db + 1\<rparr>"
  let ?db' = "?db\<lparr>req_rows := req_rows db @ [?r], req_dirty := []\<rparr>"
  have f: "finalize_row now ?db = finalize_row now db" by (simp add: finalize_row_def fun_eq_iff)
  have "\<not> list_ex (\<lambda>x. is_pending x \<and> same_slot x ?r) (req_rows db)"
    using assms(3) finalize_row_fields(2) [of now db r] by (auto simp: list_ex_iff same_slot_def slot_def)
  then show "flush now [r] ?db = Inr ?db'" using assms(2) by (simp add: flush_def Let_def f)
  have "distinct (map slot (filter is_pending (req_rows db @ [?r])))"
    using assms(1,3) by (auto simp: requests_ok_def image_iff)
  moreover have "is_pending ?r \<Longrightarrow> current ?db' ?r" using finalize_row_current [of now db r] by (auto simp: current_def)
  moreover have "\<forall>x \<in> set (req_rows db). ar_id x < req_next_id db" using assms(1) by (simp add: requests_ok_def list_all_iff)
  then have "distinct (map ar_id (req_rows db @ [?r]))" "\<forall>x \<in> set (req_rows db @ [?r]). ar_id x < req_next_id db + 1"
    using assms(1,4) by (auto simp: requests_ok_def)
  moreover have "\<forall>x \<in> set (req_rows db). is_pending x \<longrightarrow> current ?db' x"
    using assms(1,2) by (auto simp: requests_ok_def list_all_iff current_def)
  ultimately show "requests_ok ?db'" unfolding requests_ok_def list_all_iff by simp
  show "req_rows ?db' = req_rows db @ [?r]" by simp
qed

lemma new_request_fields [simp]:
  "ar_id (new_request now wid w role prev tid requester source rid) = rid"
  "slot (new_request now wid w role prev tid requester source rid) = (wid, role)"
  by (simp_all add: new_request_def slot_def split_beta Let_def)

lemma confirm_spec:
  assumes "requests_ok db"
  shows "case request_assignment_confirmation now wid code target by source previous db of
      Inl err \<Rightarrow> err \<in> {UnsupportedRole, WorkflowNotFlushed}
    | Inr (r, db') \<Rightarrow> requests_ok db' \<and> keeps_final db db'"
proof (cases "role_of_code code")
  case (Some role)
  define db1 where "db1 = cancel_pending_assignment_requests now wid role ''reassigned'' db"
  note c = cancel_spec [OF assms db1_def]
  show ?thesis
  proof (cases "req_workflows db wid")
    case w: (Some w)
    show ?thesis
    proof (cases "0 < wid")
      case True
      show ?thesis
      proof (cases "coerce_positive_user_id target")
        case None
        with Some w True c show ?thesis
          by (simp add: request_assignment_confirmation_def Let_def db1_def [symmetric])
      next
        case (Some tid)
        define r where "r = new_request now wid w role
            (case previous of None \<Rightarrow> coerce_positive_user_id (get_role role (aw_staff w)) | Some p \<Rightarrow> coerce_positive_user_id p)
            tid (coerce_positive_user_id by) source (req_next_id db1)"
        have slot: "slot r = (wid, role)" and i: "ar_id r = req_next_id db1" by (simp_all add: r_def)
        have res: "request_assignment_confirmation now wid code target by source previous db =
            (case flush now [r] (db1\<lparr>req_next_id := req_next_id db1 + 1\<rparr>) of Inl err \<Rightarrow> Inl err
              | Inr db2 \<Rightarrow> Inr (Some (finalize_row now db1 r), db2))"
          unfolding request_assignment_confirmation_def Let_def \<open>role_of_code code = Some role\<close> w option.case db1_def [symmetric] Some
            r_def [symmetric] using True by simp
        obtain db' where "flush now [r] (db1\<lparr>req_next_id := req_next_id db1 + 1\<rparr>) = Inr db'" "requests_ok db'"
          "req_rows db' = req_rows db1 @ [finalize_row now db1 r]"
          by (rule insert_request [OF c(1,3) _ i]) (use c(5) slot in auto)
        moreover from this(3) have "keeps_final db1 db'" by (simp add: keeps_final_def)
        ultimately show ?thesis using res keeps_final_trans [OF c(2)] by simp
      qed
    qed (simp add: request_assignment_confirmation_def Some w Let_def)
  qed (simp add: request_assignment_confirmation_def Some)
qed (simp add: request_assignment_confirmation_def)

lemma sync_roles_spec:
  "requests_ok db \<Longrightarrow> sync_roles now wid before after by source roles db = Inr (rs, db') \<Longrightarrow> requests_ok db' \<and> keeps_final db db'"
proof (induction roles arbitrary: db rs)
  case (Cons role roles)
  let ?old = "coerce_positive_user_id (get_role role before)" and ?new = "coerce_positive_user_id (get_role role after)"
  show ?case
  proof (cases "?old = ?new")
    case True
    with Cons show ?thesis by simp
  next
    case False
    let ?c = "request_assignment_confirmation now wid (code_of_role role) ?new by source (Some ?old) db"
    from Cons.prems(2) False obtain r db1 rs1 where c: "?c = Inr (r, db1)"
      and s: "sync_roles now wid before after by source roles db1 = Inr (rs1, db')"
      by (auto simp: Let_def split: sum.splits)
    from confirm_spec [OF Cons.prems(1), of now wid "code_of_role role" ?new "by" source "Some ?old"] c
    have "requests_ok db1" "keeps_final db db1" by simp_all
    with Cons.IH [OF _ s] keeps_final_trans show ?thesis by blast
  qed
qed (simp add: keeps_final_def)

lemma put_row_closes:
  assumes "requests_ok db" and "r \<in> set (req_rows db)" and "is_pending r" and "\<not> is_pending r1" and "ar_id r1 = ar_id r"
  shows "closes (req_rows db) (\<lambda>x. if ar_id x = ar_id r1 then r1 else x)"
proof -
  have "x = r" if "x \<in> set (req_rows db)" "ar_id x = ar_id r" for x
    using assms(1,2) that by (simp add: requests_ok_def distinct_map) (meson inj_onD)
  with assms show ?thesis by (auto simp: closes_def)
qed

lemma requests_ok_edit:
  assumes "requests_ok db"
  shows "requests_ok (db\<lparr>req_workflows := (req_workflows db)(wid \<mapsto> w), req_dirty := wid # req_dirty db\<rparr>)"
  using assms by (auto simp: requests_ok_def list_all_iff current_def split: if_splits)

lemma persist_frame:
  "req_rows (persist_manual_workflow_assignment_override env wid w actor db) = req_rows db"
  "req_workflows (persist_manual_workflow_assignment_override env wid w actor db) = req_workflows db"
  "req_dirty (persist_manual_workflow_assignment_override env wid w actor db) = req_dirty db"
  "req_next_id (persist_manual_workflow_assignment_override env wid w actor db) = req_next_id db"
  by (simp_all add: persist_manual_workflow_assignment_override_def Let_def split: option.split)

lemma requests_ok_frame:
  "requests_ok db \<Longrightarrow> req_rows db' = req_rows db \<Longrightarrow> req_workflows db' = req_workflows db \<Longrightarrow> req_dirty db' = req_dirty db
    \<Longrightarrow> req_next_id db' = req_next_id db \<Longrightarrow> requests_ok db'"
  by (simp add: requests_ok_def current_def)

lemma answer_ok:
  assumes "requests_ok db" and "r \<in> set (req_rows db)" and "is_pending r" and "\<not> is_pending r1" and "ar_id r1 = ar_id r"
  shows "requests_ok (put_row r1 db)" and "keeps_final db (put_row r1 db)"
proof -
  note c = put_row_closes [OF assms]
  show "requests_ok (put_row r1 db)" unfolding put_row_def by (rule requests_ok_closes [OF assms(1) c])
  show "keeps_final db (put_row r1 db)" by (rule keeps_final_closes [OF c, where new = "[]"]) (simp add: put_row_def)
qed

lemma reject_spec:
  assumes "requests_ok db" and "r \<in> set (req_rows db)" and "is_pending r" and "reject_request env now actor reason r db = (res, db')"
  shows "requests_ok db' \<and> keeps_final db db'"
proof -
  define r1 where "r1 = r\<lparr>ar_status := ReqRejected, ar_responded_at := Some now, ar_note := or_none (strip (or_empty reason))\<rparr>"
  have p: "\<not> is_pending r1" "ar_id r1 = ar_id r" by (simp_all add: r1_def is_pending_def)
  note a = answer_ok [OF assms(1-3) p]
  consider "db' = put_row r1 db"
    | w1 where "db' = persist_manual_workflow_assignment_override env (ar_workflow r) w1 actor
        ((put_row r1 db)\<lparr>req_workflows := (req_workflows (put_row r1 db))(ar_workflow r \<mapsto> w1), req_dirty := ar_workflow r # req_dirty (put_row r1 db)\<rparr>)"
    using assms(4) by (auto simp: reject_request_def Let_def r1_def [symmetric] split: option.splits if_splits)
  then show ?thesis
  proof cases
    case 1
    with a show ?thesis by simp
  next
    case 2
    have "requests_ok db'" unfolding 2
      by (rule requests_ok_frame [OF requests_ok_edit [OF a(1)]]) (rule persist_frame)+
    moreover have "keeps_final (put_row r1 db) db'" by (rule keeps_final_refl) (simp add: 2 persist_frame)
    ultimately show ?thesis using keeps_final_trans [OF a(2)] by blast
  qed
qed

lemma respond_spec:
  assumes "requests_ok db" and "respond_assignment_request env now rid actor act reason privileged db = Inr (res, db')"
  shows "requests_ok db' \<and> keeps_final db db'"
proof -
  let ?m = "flush_updates now db"
  have ok: "requests_ok ?m" by (rule flush_updates_ok [OF assms(1)])
  have "sql_first (\<lambda>r. ar_id r = rid) (req_rows ?m) \<noteq> None"
  proof
    assume n: "sql_first (\<lambda>r. ar_id r = rid) (req_rows ?m) = None"
    show False using assms(2) unfolding respond_assignment_request_def Let_def n option.case by simp
  qed
  then obtain r where r: "sql_first (\<lambda>r. ar_id r = rid) (req_rows ?m) = Some r" unfolding not_None_eq by (elim exE)
  then have mem: "r \<in> set (req_rows ?m)" by (rule sql_first_Some [THEN conjunct1])
  let ?r1 = "r\<lparr>ar_status := ReqAccepted, ar_responded_at := Some now, ar_note := or_none (strip (or_empty reason))\<rparr>"
  have "(\<not> is_pending r \<and> db' = ?m) \<or> (is_pending r \<and> db' = put_row ?r1 ?m)
      \<or> (is_pending r \<and> reject_request env now (coerce_positive_user_id actor) reason r ?m = (res, db'))"
    using assms(2) unfolding respond_assignment_request_def Let_def r option.case is_pending_def
    by (simp only: split: if_splits) (simp_all del: not_None_eq)
  then have "requests_ok db' \<and> keeps_final ?m db'"
  proof (elim disjE conjE)
    assume "is_pending r" "db' = put_row ?r1 ?m"
    with answer_ok [OF ok mem \<open>is_pending r\<close>, of ?r1] show ?thesis by (simp add: is_pending_def)
  next
    assume "is_pending r" "reject_request env now (coerce_positive_user_id actor) reason r ?m = (res, db')"
    with reject_spec [OF ok mem] show ?thesis by blast
  qed (use ok in \<open>simp add: keeps_final_refl\<close>)
  with flush_updates_final keeps_final_trans show ?thesis by blast
qed

lemma step_spec: "request_step db db' \<Longrightarrow> requests_ok db \<Longrightarrow> requests_ok db' \<and> keeps_final db db'"
proof (induction rule: request_step.induct)
  case (confirm now wid code target bu source previous db r db')
  then show ?case using confirm_spec [of db now wid code target bu source previous] by simp
next
  case (sync now wid before bu source db rs db')
  then show ?case
    by (auto simp: sync_assignment_requests_for_changed_roles_def split: option.splits dest: sync_roles_spec)
qed (auto intro: requests_ok_edit keeps_final_refl flush_updates_ok flush_updates_final dest: respond_spec)

lemma reachable_requests_ok: "request_reachable db \<Longrightarrow> requests_ok db"
proof (induction rule: request_reachable.induct)
  case (step db db')
  then show ?case using step_spec by blast
qed (simp add: requests_ok_def)

text \<open>C3: In every state that edits of workflows, requests for confirmation, responses and commits
  reach, request ids are unique, a workflow has at most one pending request per role, and a pending
  request of a workflow without unflushed changes asks the user who holds the role now in a workflow
  that is still open.\<close>

theorem requests_stay_consistent:
  assumes "request_reachable db"
  shows "requests_ok db"
  using assms by (rule reachable_requests_ok)

text \<open>A request that was accepted, rejected or cancelled stays exactly as it is through any further
  steps.\<close>

theorem answered_requests_are_final:
  assumes "request_reachable db" and "request_step\<^sup>*\<^sup>* db db'" and "r \<in> set (req_rows db)" and "ar_status r \<noteq> ReqPending"
  shows "r \<in> set (req_rows db')"
proof -
  have ok: "requests_ok db"
    using assms(1) by (rule reachable_requests_ok)
  from assms(2) have "requests_ok db' \<and> keeps_final db db'"
    by (induction rule: rtranclp_induct) (auto simp: ok keeps_final_refl dest: step_spec intro: keeps_final_trans)
  with assms(3,4) show ?thesis by (auto simp: keeps_final_def is_pending_def)
qed

section \<open>The table as a map of awaited answers\<close>

text \<open>The specification: for each workflow and role, the user whose answer is awaited.\<close>

definition awaited :: "request_db \<Rightarrow> int \<times> req_role \<Rightarrow> int option" where
  "awaited db s = map_option ar_target (find (\<lambda>r. is_pending r \<and> slot r = s) (req_rows db))"

lemma find_pending:
  assumes "distinct (map slot (filter is_pending rows))" and "r \<in> set rows" and "is_pending r"
  shows "find (\<lambda>x. is_pending x \<and> slot x = slot r) rows = Some r"
  using assms
proof (induction rows)
  case (Cons x rows)
  show ?case
  proof (cases "x = r")
    case False
    with Cons.prems have "r \<in> set rows" by simp
    moreover have "\<not> (is_pending x \<and> slot x = slot r)"
      using Cons.prems(1,3) \<open>r \<in> set rows\<close> by (auto simp: image_iff)
    moreover have "distinct (map slot (filter is_pending rows))" using Cons.prems(1) by (auto split: if_splits)
    ultimately show ?thesis using Cons.IH Cons.prems(3) by auto
  qed (use Cons.prems(3) in simp)
qed simp

lemma find_None_pending: "\<forall>x \<in> set rows. is_pending x \<longrightarrow> slot x \<noteq> s \<Longrightarrow> find (\<lambda>x. is_pending x \<and> slot x = s) rows = None"
  by (auto simp: find_None_iff)

lemma awaited_iff:
  assumes "requests_ok db"
  shows "awaited db s = Some u \<longleftrightarrow> (\<exists>r \<in> set (req_rows db). is_pending r \<and> slot r = s \<and> ar_target r = u)"
proof
  assume "awaited db s = Some u"
  then show "\<exists>r \<in> set (req_rows db). is_pending r \<and> slot r = s \<and> ar_target r = u"
    by (auto simp: awaited_def find_Some_iff)
next
  assume "\<exists>r \<in> set (req_rows db). is_pending r \<and> slot r = s \<and> ar_target r = u"
  then show "awaited db s = Some u"
    using find_pending [of "req_rows db"] assms by (auto simp: awaited_def requests_ok_def)
qed

lemma awaited_eqI:
  assumes "requests_ok db" and "requests_ok db'"
    and "\<And>u. (\<exists>r \<in> set (req_rows db'). is_pending r \<and> slot r = s \<and> ar_target r = u)
        \<longleftrightarrow> (\<exists>r \<in> set (req_rows db). is_pending r \<and> slot r = s \<and> ar_target r = u)"
  shows "awaited db' s = awaited db s"
proof (rule option.expand)
  show "(awaited db' s = None) = (awaited db s = None)"
    using awaited_iff [OF assms(1)] awaited_iff [OF assms(2)] assms(3) by (metis not_None_eq)
next
  assume "awaited db' s \<noteq> None" "awaited db s \<noteq> None"
  then show "the (awaited db' s) = the (awaited db s)"
    using awaited_iff [OF assms(1)] awaited_iff [OF assms(2)] assms(3) by (metis option.sel not_None_eq)
qed

lemma flush_updates_clean: "req_dirty db = [] \<Longrightarrow> flush_updates now db = db"
  by (simp add: flush_updates_eq flush_row_def [abs_def])

lemma cancel_awaited:
  assumes "requests_ok db" and "req_dirty db = []"
  shows "awaited (cancel_pending_assignment_requests now wid role reason db) = (awaited db)((wid, role) := None)"
proof
  fix s
  let ?db1 = "cancel_pending_assignment_requests now wid role reason db"
  define f where "f r = (if ar_workflow r = wid \<and> ar_role r = role \<and> is_pending r
      then r\<lparr>ar_status := ReqCancelled, ar_responded_at := Some now, ar_note := Some reason\<rparr> else r)" for r
  have rows: "req_rows ?db1 = map f (req_rows db)"
    by (simp add: cancel_pending_assignment_requests_def flush_updates_clean [OF assms(2)] f_def [abs_def])
  have f: "is_pending (f r) \<longleftrightarrow> is_pending r \<and> slot r \<noteq> (wid, role)" "is_pending (f r) \<Longrightarrow> f r = r" "slot (f r) = slot r" "ar_target (f r) = ar_target r" for r
    by (auto simp: f_def is_pending_def slot_def)
  show "awaited ?db1 s = ((awaited db)((wid, role) := None)) s"
  proof (cases "s = (wid, role)")
    case True
    then show ?thesis by (auto simp: awaited_def rows find_None_iff f(1,3))
  next
    case False
    have "awaited ?db1 s = awaited db s"
      by (rule awaited_eqI [OF assms(1) cancel_spec(1) [OF assms(1) refl]]) (use False in \<open>auto simp: rows f(1,3,4)\<close>)
    with False show ?thesis by simp
  qed
qed

lemma confirm_rows:
  assumes "request_assignment_confirmation now wid code target by source previous db = Inr (r, db')" and "role_of_code code = Some role"
  defines "db1 \<equiv> cancel_pending_assignment_requests now wid role ''reassigned'' db"
  assumes "req_dirty db1 = []"
  obtains (nobody) "coerce_positive_user_id target = None" "r = None" "req_rows db' = req_rows db1"
  | (somebody) tid w prev where "coerce_positive_user_id target = Some tid" "req_workflows db wid = Some w"
      "r = Some (finalize_row now db1 (new_request now wid w role prev tid (coerce_positive_user_id by) source (req_next_id db1)))"
      "req_rows db' = req_rows db1 @ [finalize_row now db1 (new_request now wid w role prev tid (coerce_positive_user_id by) source (req_next_id db1))]"
proof -
  obtain w where w: "req_workflows db wid = Some w"
    using assms(1,2) by (cases "req_workflows db wid") (simp_all add: request_assignment_confirmation_def)
  have pos: "0 < wid" using assms(1,2) w by (auto simp: request_assignment_confirmation_def Let_def split: if_splits)
  show ?thesis
  proof (cases "coerce_positive_user_id target")
    case None
    with assms(1,2) w pos have "r = None" "req_rows db' = req_rows db1"
      by (auto simp: request_assignment_confirmation_def Let_def db1_def)
    with None show ?thesis by (rule nobody)
  next
    case (Some tid)
    define x where "x = new_request now wid w role
        (case previous of None \<Rightarrow> coerce_positive_user_id (get_role role (aw_staff w)) | Some p \<Rightarrow> coerce_positive_user_id p)
        tid (coerce_positive_user_id by) source (req_next_id db1)"
    have "(case flush now [x] (db1\<lparr>req_next_id := req_next_id db1 + 1\<rparr>) of Inl err \<Rightarrow> Inl err
        | Inr db2 \<Rightarrow> Inr (Some (finalize_row now db1 x), db2)) = Inr (r, db')"
      using assms(1) unfolding request_assignment_confirmation_def Let_def assms(2) w option.case db1_def [symmetric] Some x_def [symmetric]
      using pos by simp
    then have f: "flush now [x] (db1\<lparr>req_next_id := req_next_id db1 + 1\<rparr>) = Inr db'" and r: "r = Some (finalize_row now db1 x)"
      by (auto split: sum.splits)
    have fin: "finalize_row now (db1\<lparr>req_next_id := req_next_id db1 + 1\<rparr>) = finalize_row now db1" by (simp add: finalize_row_def fun_eq_iff)
    have "req_rows db' = req_rows db1 @ [finalize_row now db1 x]"
      using f assms(4) by (auto simp: flush_def Let_def fin split: if_splits)
    with Some w r show ?thesis unfolding x_def by (rule somebody)
  qed
qed

text \<open>The user whose answer is awaited after a request for \<open>target\<close>: the target, unless nobody was named, the
  workflow is over, the user asks for himself, or the workflow does not have the target in this role.\<close>

definition asked_user :: "assigned_workflow \<Rightarrow> req_role \<Rightarrow> int option \<Rightarrow> int option \<Rightarrow> int option" where
  "asked_user w role target requested_by =
     (case coerce_positive_user_id target of
        None \<Rightarrow> None
      | Some tid \<Rightarrow>
          if strip (aw_status w) \<in> {''Completed'', ''Abandoned''} \<or> coerce_positive_user_id requested_by = Some tid
             \<or> coerce_positive_user_id (get_role role (aw_staff w)) \<noteq> Some tid
          then None else Some tid)"

lemma new_request_awaits:
  fixes now role prev asker source rid
  assumes "coerce_positive_user_id target = Some tid" and "req_workflows db wid = Some w"
  defines "x \<equiv> finalize_row now db (new_request now wid w role prev tid (coerce_positive_user_id asker) source rid)"
  shows "ar_target x = tid" and "slot x = (wid, role)" and "(if is_pending x then Some (ar_target x) else None) = asked_user w role target asker"
proof -
  have wf: "ar_workflow (new_request now wid w role prev tid q source rid) = wid" "ar_role (new_request now wid w role prev tid q source rid) = role"
    "ar_target (new_request now wid w role prev tid q source rid) = tid"
    "is_pending (new_request now wid w role prev tid q source rid) \<longleftrightarrow> strip (aw_status w) \<notin> {''Completed'', ''Abandoned''} \<and> q \<noteq> Some tid" for q
    by (auto simp: new_request_def is_pending_def Let_def split: prod.splits if_splits)
  have fin: "x = finalize_for_workflow now w (new_request now wid w role prev tid (coerce_positive_user_id asker) source rid)"
    by (simp add: x_def finalize_row_def wf assms(2))
  have keep: "ar_target (finalize_for_workflow now w r) = ar_target r" "slot (finalize_for_workflow now w r) = slot r" for r
    by (auto simp: finalize_for_workflow_def close_pending_def slot_def split: option.splits)
  show t: "ar_target x = tid" and "slot x = (wid, role)" by (simp_all add: fin keep wf)
  have tid: "coerce_positive_user_id (Some tid) = Some tid"
    using assms(1) by (auto simp: coerce_positive_user_id_def split: option.splits if_splits)
  show "(if is_pending x then Some (ar_target x) else None) = asked_user w role target asker"
    unfolding t fin asked_user_def assms(1) option.case
    by (auto simp: finalize_for_workflow_def close_pending_def terminal_resolution_def matches_workflow_def wf tid is_pending_def [symmetric]
        split: option.splits if_splits) (auto simp: is_pending_def wf)
qed

lemma find_append: "find P (xs @ ys) = (case find P xs of None \<Rightarrow> find P ys | Some x \<Rightarrow> Some x)"
  by (induction xs) auto

text \<open>C8: The table of requests refines a map from workflow and role to the user whose answer is awaited: a request
  for confirmation on a consistent table sets the entry of its workflow and role to the user that was passed as the
  target, or clears it when nobody was named, the workflow is over, the user asks for himself or the workflow does not
  have the target in this role, and it changes no other entry. The request that is returned names the target.\<close>

theorem confirmation_refines_awaited_map:
  assumes "request_reachable db" and "req_dirty db = []" and "role_of_code code = Some role" and "req_workflows db wid = Some w"
    and "request_assignment_confirmation now wid code target by source previous db = Inr (r, db')"
  shows "awaited db' = (awaited db)((wid, role) := asked_user w role target by)
    \<and> map_option ar_target r = coerce_positive_user_id target"
proof -
  let ?db1 = "cancel_pending_assignment_requests now wid role ''reassigned'' db"
  have ok: "requests_ok db" by (rule reachable_requests_ok [OF assms(1)])
  note c = cancel_spec [OF ok refl, of now wid role "''reassigned''"]
  have a: "awaited ?db1 = (awaited db)((wid, role) := None)" by (rule cancel_awaited [OF ok assms(2)])
  have w1: "req_workflows ?db1 wid = Some w"
    using assms(4) by (simp add: cancel_pending_assignment_requests_def flush_updates_clean [OF assms(2)])
  from assms(5,3) c(3) show ?thesis
  proof (cases rule: confirm_rows)
    case nobody
    then have "awaited db' = awaited ?db1" by (simp add: awaited_def fun_eq_iff)
    with a nobody show ?thesis by (simp add: asked_user_def)
  next
    case (somebody tid w' prev)
    let ?x = "finalize_row now ?db1 (new_request now wid w role prev tid (coerce_positive_user_id by) source (req_next_id ?db1))"
    have w': "w' = w" using somebody(2) assms(4) by simp
    note n = new_request_awaits [OF somebody(1) w1, of now role prev "by" source "req_next_id ?db1"]
    have rows: "req_rows db' = req_rows ?db1 @ [?x]" using somebody(4) by (simp only: w')
    have "awaited db' s = ((awaited db)((wid, role) := asked_user w role target by)) s" for s
    proof -
      have "awaited db' s = (case awaited ?db1 s of None \<Rightarrow> if is_pending ?x \<and> slot ?x = s then Some (ar_target ?x) else None | Some u \<Rightarrow> Some u)"
        unfolding awaited_def rows find_append by (simp split: option.split)
      with a n show ?thesis by (auto split: option.splits)
    qed
    moreover have "map_option ar_target r = coerce_positive_user_id target" using somebody(1,3) n(1) by (simp only: w' option.map)
    ultimately show ?thesis by blast
  qed
qed

section \<open>Answers\<close>

lemma first_by_id:
  assumes "requests_ok db" and "r \<in> set (req_rows db)"
  shows "sql_first (\<lambda>x. ar_id x = ar_id r) (req_rows db) = Some r"
proof -
  have "distinct (map ar_id rows) \<Longrightarrow> r \<in> set rows \<Longrightarrow> find (\<lambda>x. ar_id x = ar_id r) rows = Some r" for rows
    by (induction rows) (auto simp: image_iff)
  then show ?thesis using assms by (simp add: sql_first_def requests_ok_def)
qed

lemma respond_found:
  assumes "requests_ok db" and "req_dirty db = []" and "r \<in> set (req_rows db)"
  shows "respond_assignment_request env now (ar_id r) actor_id act0 reason privileged db =
     (let act = lower (strip act0); actor = coerce_positive_user_id actor_id in
      if \<not> actor_can_respond env db r actor act privileged then Inl RequestForbidden
      else if ar_status r \<noteq> ReqPending then Inr (\<lparr>rs_request = r, rs_changed = False, rs_final = True\<rparr>, db)
      else if act \<in> set ACCEPT_ACTIONS
      then (let r1 = r\<lparr>ar_status := ReqAccepted, ar_responded_at := Some now, ar_note := or_none (strip (or_empty reason))\<rparr>
            in Inr (\<lparr>rs_request = r1, rs_changed = False, rs_final = False\<rparr>, put_row r1 db))
      else if act \<notin> set REJECT_ACTIONS then Inl RequestInvalidAction
      else Inr (reject_request env now actor reason r db))"
  unfolding respond_assignment_request_def flush_updates_clean [OF assms(2)] Let_def first_by_id [OF assms(1,3)] option.case ..

lemma actions_disjoint: "act \<in> set REJECT_ACTIONS \<Longrightarrow> act \<notin> set ACCEPT_ACTIONS"
  by (auto simp: ACCEPT_ACTIONS_def REJECT_ACTIONS_def)

text \<open>Only the user who was asked can reject: a rejection by anybody else, also one with the
  privilege to accept for others, is refused and changes nothing.\<close>

theorem only_the_target_may_reject:
  assumes "request_reachable db" and "req_dirty db = []" and "r \<in> set (req_rows db)"
    and "coerce_positive_user_id actor \<noteq> Some (ar_target r)" and "lower (strip act) \<in> set REJECT_ACTIONS"
  shows "respond_assignment_request env now (ar_id r) actor act reason privileged db = Inl RequestForbidden"
proof -
  have "strip (lower (strip act)) = lower (strip act)" by (simp add: lower_strip)
  moreover have "lower (lower (strip act)) = lower (strip act)" using assms(5) by (auto simp: REJECT_ACTIONS_def lower_def lower_char_def)
  ultimately have "lower (strip (lower (strip act))) \<notin> set ACCEPT_ACTIONS" using actions_disjoint [OF assms(5)] by simp
  then have "\<not> actor_can_respond env db r (coerce_positive_user_id actor) (lower (strip act)) privileged"
    using assms(4) by (auto simp: actor_can_respond_def coerce_positive_user_id_def split: option.splits if_splits)
  then show ?thesis
    unfolding respond_found [OF reachable_requests_ok [OF assms(1)] assms(2,3)] Let_def by simp
qed

text \<open>C25: When the user who was asked rejects a pending request, the assignment is undone: the request
  is stored as rejected, the role goes back to the previous user while the other roles stay, and the
  docket item linked to the workflow gets the manual override with the restored staff.\<close>

theorem rejected_assignment_is_undone:
  assumes "request_reachable db" and "req_dirty db = []" and "r \<in> set (req_rows db)" and "ar_status r = ReqPending"
    and "0 < ar_target r" and "req_workflows db (ar_workflow r) = Some w" and "lower (strip act) \<in> set REJECT_ACTIONS"
    and "linked_docket env (ar_workflow r) = Some did"
  shows "\<exists>res db' w' mo. respond_assignment_request env now (ar_id r) (Some (ar_target r)) act reason privileged db = Inr (res, db')
    \<and> rs_changed res \<and> ar_status (rs_request res) = ReqRejected \<and> rs_request res \<in> set (req_rows db')
    \<and> req_workflows db' (ar_workflow r) = Some w'
    \<and> aw_staff w' = set_role (ar_role r) (case ar_previous r of None \<Rightarrow> None | Some p \<Rightarrow> coerce_positive_user_id (Some p)) (aw_staff w)
    \<and> overrides db' did = Some mo \<and> mo_staff mo = positive_staff (aw_staff w')"
proof -
  have ok: "requests_ok db" by (rule reachable_requests_ok [OF assms(1)])
  have "is_pending r" using assms(4) by (simp add: is_pending_def)
  then have "current db r" using ok assms(2,3) by (auto simp: requests_ok_def list_all_iff)
  then have m: "coerce_positive_user_id (get_role (ar_role r) (aw_staff w)) = coerce_positive_user_id (Some (ar_target r))"
    using assms(6) by (simp add: current_def matches_workflow_def)
  have actor: "coerce_positive_user_id (Some (ar_target r)) = Some (ar_target r)" using assms(5) by (simp add: coerce_positive_user_id_def)
  have can: "actor_can_respond env db r (Some (ar_target r)) (lower (strip act)) privileged"
    by (simp add: actor_can_respond_def actor)
  have res: "respond_assignment_request env now (ar_id r) (Some (ar_target r)) act reason privileged db
      = Inr (reject_request env now (Some (ar_target r)) reason r db)"
    unfolding respond_found [OF ok assms(2,3)] Let_def actor using can assms(4,7) actions_disjoint [OF assms(7)] by simp
  show ?thesis
    unfolding res using m assms(3)
    by (auto simp: reject_request_def Let_def assms(6,8) put_row_def set_category_after_change_def
        persist_manual_workflow_assignment_override_def)
qed

text \<open>A workflow handed from user 5 to user 7, who is asked to confirm.\<close>

definition handed_over :: assigned_workflow where
  "handed_over = \<lparr>aw_case = ''M1'', aw_name = None, aw_business_code = None, aw_status = ''Pending'', aw_category = Some ''WORK'',
     aw_staff = \<lparr>handler_id = Some 7, attorney_id = Some 9, manager_id = None\<rparr>\<rparr>"

definition start_db :: request_db where
  "start_db = \<lparr>req_rows = [], req_workflows = (\<lambda>i. if i = 1 then Some handed_over else None), req_dirty = [], req_next_id = 1,
     overrides = (\<lambda>d. None), docket_owners = (\<lambda>d. None)\<rparr>"

definition asked :: assignment_request where
  "asked = \<lparr>ar_id = 1, ar_workflow = 1, ar_role = RoleHandler, ar_previous = Some 5, ar_target = 7, ar_requested_by = Some 5,
     ar_status = ReqPending, ar_source = Some ''api'', ar_requested_at = 100, ar_responded_at = None, ar_note = None\<rparr>"

definition asked_db :: request_db where
  "asked_db = start_db\<lparr>req_rows := [asked], req_next_id := 2\<rparr>"

lemma asked_confirm:
  "request_assignment_confirmation 100 1 ''handler'' (Some 7) (Some 5) (Some ''api'') (Some (Some 5)) start_db = Inr (Some asked, asked_db)"
proof -
  have c: "coerce_positive_user_id (Some 7) = Some 7" "coerce_positive_user_id (Some 5) = Some 5" by code_simp+
  have r: "role_of_code ''handler'' = Some RoleHandler" by code_simp
  have can: "cancel_pending_assignment_requests 100 1 RoleHandler ''reassigned'' start_db = start_db"
    by (simp add: cancel_pending_assignment_requests_def flush_updates_clean start_db_def)
  have n: "new_request 100 1 handed_over RoleHandler (Some 5) 7 (Some 5) (Some ''api'') (req_next_id start_db) = asked" by code_simp
  have w: "req_workflows start_db 1 = Some handed_over" by (simp add: start_db_def)
  have fin: "finalize_row 100 (start_db\<lparr>req_next_id := req_next_id start_db + 1\<rparr>) asked = asked" "finalize_row 100 start_db asked = asked" by code_simp+
  have fl: "flush 100 [asked] (start_db\<lparr>req_next_id := req_next_id start_db + 1\<rparr>) = Inr asked_db"
    unfolding flush_def Let_def list.map fin by (simp add: start_db_def asked_db_def)
  show ?thesis
    unfolding request_assignment_confirmation_def r option.case w Let_def can c n fl sum.case fin by simp
qed

lemma asked_reachable: "request_reachable asked_db"
proof -
  have "request_reachable start_db" by (rule request_reachable.empty) (simp add: start_db_def)
  then show ?thesis using request_step.confirm [OF asked_confirm] by (rule request_reachable.step)
qed

lemma asked_facts: "asked \<in> set (req_rows asked_db)" "req_dirty asked_db = []" "req_dirty start_db = []"
  by (simp_all add: asked_db_def start_db_def)

theorem requests_stay_consistent_witness: "requests_ok asked_db \<and> req_rows asked_db = [asked]"
  using requests_stay_consistent [OF asked_reachable] by (simp add: asked_db_def)

definition quiet_env :: respond_env where
  "quiet_env = \<lparr>re_staff = staff_example, re_rules = read_rules (\<lambda>p. None) file_example, user_ok = (\<lambda>u. True),
     can_assign_staff = (\<lambda>u m. True), linked_docket = (\<lambda>i. Some ''D1'')\<rparr>"

theorem confirmation_refines_awaited_map_witness:
  "awaited asked_db = (awaited start_db)((1, RoleHandler) := Some 7)"
proof -
  have s: "request_reachable start_db" by (rule request_reachable.empty) (simp add: start_db_def)
  have r: "role_of_code ''handler'' = Some RoleHandler" by code_simp
  have w: "req_workflows start_db 1 = Some handed_over" by (simp add: start_db_def)
  have u: "asked_user handed_over RoleHandler (Some 7) (Some 5) = Some 7" by code_simp
  show ?thesis
    using confirmation_refines_awaited_map [OF s asked_facts(3) r w asked_confirm] u by simp
qed

theorem only_the_target_may_reject_witness:
  "respond_assignment_request quiet_env 200 1 (Some 8) ''reject'' None True asked_db = Inl RequestForbidden"
proof -
  have i: "ar_id asked = 1" by (simp add: asked_def)
  have c: "coerce_positive_user_id (Some 8) \<noteq> Some (ar_target asked)" by code_simp
  have l: "lower (strip ''reject'') \<in> set REJECT_ACTIONS" by code_simp
  show ?thesis
    by (rule only_the_target_may_reject [OF asked_reachable asked_facts(2,1) c l, unfolded i])
qed

theorem rejected_assignment_is_undone_witness:
  "\<exists>res db' w'. respond_assignment_request quiet_env 200 1 (Some 7) ''reject'' None False asked_db = Inr (res, db')
    \<and> req_workflows db' 1 = Some w' \<and> aw_staff w' = \<lparr>handler_id = Some 5, attorney_id = Some 9, manager_id = None\<rparr>"
proof -
  have f: "ar_id asked = 1" "ar_target asked = 7" "ar_workflow asked = 1" "ar_status asked = ReqPending" "0 < ar_target asked"
    "ar_role asked = RoleHandler" "ar_previous asked = Some 5" by (simp_all add: asked_def)
  have l: "lower (strip ''reject'') \<in> set REJECT_ACTIONS" by code_simp
  have w: "req_workflows asked_db (ar_workflow asked) = Some handed_over" by (simp add: asked_db_def start_db_def asked_def)
  have d: "linked_docket quiet_env (ar_workflow asked) = Some ''D1''" by (simp add: quiet_env_def)
  have s: "set_role RoleHandler (coerce_positive_user_id (Some 5)) (aw_staff handed_over) = \<lparr>handler_id = Some 5, attorney_id = Some 9, manager_id = None\<rparr>"
    by code_simp
  from rejected_assignment_is_undone [OF asked_reachable asked_facts(2,1) f(4,5) w l d, of 200 None False]
  show ?thesis unfolding f option.case s by blast
qed

theorem answered_requests_are_final_witness:
  "asked\<lparr>ar_status := ReqAccepted, ar_responded_at := Some 200, ar_note := None\<rparr>
     \<in> set (req_rows (flush_updates 300 (asked_db\<lparr>req_rows := [asked\<lparr>ar_status := ReqAccepted, ar_responded_at := Some 200, ar_note := None\<rparr>]\<rparr>)))"
proof -
  let ?r = "asked\<lparr>ar_status := ReqAccepted, ar_responded_at := Some 200, ar_note := None\<rparr>"
  let ?db = "asked_db\<lparr>req_rows := [?r]\<rparr>"
  have can: "actor_can_respond quiet_env asked_db asked (coerce_positive_user_id (Some 7)) (lower (strip ''accept'')) False" by code_simp
  have a: "lower (strip ''accept'') \<in> set ACCEPT_ACTIONS" by code_simp
  have n: "or_none (strip (or_empty None)) = None" by code_simp
  have p: "put_row ?r asked_db = ?db" by (simp add: put_row_def asked_db_def)
  have i: "ar_id asked = 1" and st: "ar_status asked = ReqPending" by (simp_all add: asked_def)
  have "respond_assignment_request quiet_env 200 (ar_id asked) (Some 7) ''accept'' None False asked_db
      = Inr (\<lparr>rs_request = ?r, rs_changed = False, rs_final = False\<rparr>, ?db)"
    unfolding respond_found [OF reachable_requests_ok [OF asked_reachable] asked_facts(2,1)] Let_def n p using can a st by simp
  then have "request_reachable ?db" using asked_reachable request_step.respond by (blast intro: request_reachable.step)
  moreover have "request_step\<^sup>*\<^sup>* ?db (flush_updates 300 ?db)" by (intro r_into_rtranclp request_step.commit)
  ultimately show ?thesis by (rule answered_requests_are_final) simp_all
qed

end
