(* ===== verification/User_Roles.thy ===== *)
theory User_Roles
  imports Config_Service "HOL-Library.List_Lexorder" "HOL-Library.Char_ord"
begin

text \<open>
  Users, their roles and their permissions: the models \<open>User\<close> and \<open>Role\<close>
  (\<open>app/models/user.py\<close>, \<open>app/models/role.py\<close>) and the role half of
  \<open>app/utils/permissions.py\<close>.

  A user is an instance of \<open>User\<close>; an absent or anonymous user is \<open>None\<close>. Python's sets of role
  names are lists read as sets. \<open>is_authenticated\<close> is answered by the login library and is a field.
  The role settings are read through the configuration service, whose call and cache are part of the
  environment \<open>perm_env\<close>; a failing query is named by its context in \<open>query_fails\<close>.
\<close>

section \<open>Users and roles\<close>

record role =
  role_name :: string
  role_permissions :: "string list"

record user =
  user_id :: int
  user_authenticated :: bool
  user_active :: "bool option"
  user_role :: "string option"
  user_roles :: "role list"
  user_staff_party :: "string option"
  user_dept :: "string option"

text \<open>What a check reads besides the user: settings, the table of roles and which queries fail.\<close>

record perm_env =
  pe_call :: config_call
  pe_cache :: config_cache
  role_table :: "role list"
  query_fails :: "string \<Rightarrow> bool"

definition normalize_role :: "string option \<Rightarrow> string" where
  "normalize_role r = lower (strip (or_empty r))"

definition parse_role_csv :: "string option \<Rightarrow> string list" where
  "parse_role_csv raw =
     (let v = strip (or_empty raw) in
      if v = [] then [] else filter (\<lambda>s. s \<noteq> []) (map (\<lambda>p. normalize_role (Some p)) (split_on (CHR '','') v)))"

definition normalize_role_codes :: "string list \<Rightarrow> string list" where
  "normalize_role_codes codes =
     sort (remdups (filter (\<lambda>s. s \<noteq> []) (map (\<lambda>c. normalize_role (Some c)) codes)))"

text \<open>The property \<open>User.role_names\<close>, and the names as the checks read them.\<close>

definition role_names :: "user \<Rightarrow> string list" where
  "role_names u =
     filter (\<lambda>s. s \<noteq> []) (map (\<lambda>r. normalize_role (Some (role_name r))) (user_roles u)) @ parse_role_csv (user_role u)"

definition get_user_role_names :: "user option \<Rightarrow> string list" where
  "get_user_role_names u =
     (case u of None \<Rightarrow> [] | Some u \<Rightarrow> filter (\<lambda>s. s \<noteq> []) (map (\<lambda>n. normalize_role (Some n)) (role_names u)))"

definition has_role :: "user \<Rightarrow> string \<Rightarrow> bool" where
  "has_role u name = (let target = normalize_role (Some name) in target \<noteq> [] \<and> target \<in> set (role_names u))"

section \<open>Permissions\<close>

definition role_has_permission :: "role \<Rightarrow> string \<Rightarrow> bool" where
  "role_has_permission r perm \<longleftrightarrow> perm \<in> set (role_permissions r)"

definition STAFF_MENUS :: "string list" where
  "STAFF_MENUS = [''menu.cases'', ''menu.deadlines'', ''menu.notices'', ''menu.renewal'', ''menu.crm'', ''menu.accounting'']"

definition LEAD_MENUS :: "string list" where
  "LEAD_MENUS = STAFF_MENUS @ [''menu.statistics'', ''menu.mgmt'']"

definition LEGACY_ROLE_MENU_PERMISSION_FALLBACKS :: "(string \<times> string list) list" where
  "LEGACY_ROLE_MENU_PERMISSION_FALLBACKS =
     [(''admin'', LEAD_MENUS @ [''menu.admin'']), (''mgmt_director'', LEAD_MENUS), (''mgmt_staff'', STAFF_MENUS),
      (''lead_attorney'', LEAD_MENUS), (''partner_attorney'', LEAD_MENUS), (''patent_staff'', STAFF_MENUS), (''user'', [])]"

definition legacy_role_has_menu_permission :: "string list \<Rightarrow> string \<Rightarrow> bool" where
  "legacy_role_has_menu_permission names perm \<longleftrightarrow>
     list_ex (\<lambda>n. case map_of LEGACY_ROLE_MENU_PERMISSION_FALLBACKS n of None \<Rightarrow> False | Some ps \<Rightarrow> perm \<in> set ps) names"

text \<open>\<open>User.has_permission\<close>: administrators have every permission; a user without mapped roles is
  looked up in the table of roles by name, and the menus of the old roles keep working.\<close>

definition has_permission :: "perm_env \<Rightarrow> user \<Rightarrow> string \<Rightarrow> bool" where
  "has_permission e u perm \<longleftrightarrow>
     has_role u ''admin''
     \<or> (let p = strip perm; names = role_names u in
        p \<noteq> []
        \<and> (list_ex (\<lambda>r. role_has_permission r p) (user_roles u)
            \<or> (names \<noteq> [] \<and> user_roles u = [] \<and> \<not> query_fails e ''user.has_permission''
                \<and> list_ex (\<lambda>r. role_name r \<in> set names \<and> role_has_permission r p) (role_table e))
            \<or> legacy_role_has_menu_permission names p))"

definition user_has_permission_key :: "perm_env \<Rightarrow> user option \<Rightarrow> string \<Rightarrow> bool" where
  "user_has_permission_key e u perm =
     (case u of None \<Rightarrow> False | Some u \<Rightarrow> user_authenticated u \<and> has_permission e u perm)"

definition user_permission_keys :: "user option \<Rightarrow> string list" where
  "user_permission_keys u =
     (case u of None \<Rightarrow> []
      | Some u \<Rightarrow> filter (\<lambda>k. k \<noteq> []) (map strip (concat (map role_permissions (user_roles u)))))"

definition EXPLICIT_CASE_POLICY_PERMISSION_KEYS :: "string list" where
  "EXPLICIT_CASE_POLICY_PERMISSION_KEYS =
     [''case.view.assigned'', ''case.view.team'', ''case.view.all'', ''case.edit.assigned'', ''case.edit.team'',
      ''case.edit.all'', ''case.assign.team'', ''case.assign.all'', ''case.delete'', ''invoice.manage'']"

definition uses_explicit_case_policy :: "user option \<Rightarrow> bool" where
  "uses_explicit_case_policy u =
     (let keys = user_permission_keys u in
      if keys = [] then False
      else list_ex (\<lambda>k. k \<in> set EXPLICIT_CASE_POLICY_PERMISSION_KEYS) keys \<or> list_ex (\<lambda>k. startswith k ''case.'') keys)"

section \<open>Role settings\<close>

definition setting :: "perm_env \<Rightarrow> string \<Rightarrow> string \<Rightarrow> string" where
  "setting e key dflt = or_empty (fst (get_str (pe_call e) key (Some dflt) True False False (pe_cache e)))"

definition get_management_roles :: "perm_env \<Rightarrow> string list" where
  "get_management_roles e = parse_role_csv (Some (setting e ''STAFF_MANAGEMENT_ROLES'' ''admin,mgmt_director,mgmt_staff,manager''))"

definition ALWAYS_INVOICE_ROLES :: "string list" where
  "ALWAYS_INVOICE_ROLES = [''mgmt_director'', ''lead_attorney'']"

definition get_invoice_roles :: "perm_env \<Rightarrow> string list" where
  "get_invoice_roles e =
     parse_role_csv (Some (setting e ''STAFF_INVOICE_ROLES'' ''admin,mgmt_director,lead_attorney,mgmt_staff,manager,accounting''))
     @ ALWAYS_INVOICE_ROLES"

definition DEFAULT_SELF_ASSIGNED_ROLE_CODES :: "string list" where
  "DEFAULT_SELF_ASSIGNED_ROLE_CODES = [''manager'', ''attorney'', ''handler'', ''work'']"

definition get_self_assigned_role_codes :: "perm_env \<Rightarrow> string list" where
  "get_self_assigned_role_codes e =
     (let raw = setting e ''CASE_SELF_ASSIGNED_ROLE_CODES'' (join '','' DEFAULT_SELF_ASSIGNED_ROLE_CODES);
          parsed = sort (remdups (map (\<lambda>p. lower (strip p)) (filter (\<lambda>p. strip p \<noteq> []) (split_on (CHR '','') raw)))) in
      if parsed \<noteq> [] then parsed else DEFAULT_SELF_ASSIGNED_ROLE_CODES)"

text \<open>The invoice roles, with \<open>manager\<close> standing for every management role.\<close>

definition extended_invoice_roles :: "perm_env \<Rightarrow> string list" where
  "extended_invoice_roles e =
     (let roles = get_invoice_roles e in if ''manager'' \<in> set roles then roles @ get_management_roles e else roles)"

section \<open>Role checks\<close>

definition authenticated :: "user option \<Rightarrow> bool" where
  "authenticated u = (case u of None \<Rightarrow> False | Some u \<Rightarrow> user_authenticated u)"

definition authenticated_active :: "user option \<Rightarrow> bool" where
  "authenticated_active u = (case u of None \<Rightarrow> False | Some u \<Rightarrow> user_authenticated u \<and> user_active u \<noteq> Some False)"

definition intersects :: "string list \<Rightarrow> string list \<Rightarrow> bool" where
  "intersects a b \<longleftrightarrow> list_ex (\<lambda>x. x \<in> set b) a"

definition is_admin :: "user option \<Rightarrow> bool" where
  "is_admin u = (case u of None \<Rightarrow> False
     | Some v \<Rightarrow> user_authenticated v \<and> (has_role v ''admin'' \<or> ''admin'' \<in> set (get_user_role_names u)))"

definition is_manager :: "perm_env \<Rightarrow> user option \<Rightarrow> bool" where
  "is_manager e u \<longleftrightarrow> authenticated u
     \<and> (''admin'' \<in> set (get_user_role_names u) \<or> intersects (get_user_role_names u) (get_management_roles e))"

definition is_invoice_manager :: "perm_env \<Rightarrow> user option \<Rightarrow> bool" where
  "is_invoice_manager e u \<longleftrightarrow> authenticated u
     \<and> (''admin'' \<in> set (get_user_role_names u) \<or> intersects (get_user_role_names u) (extended_invoice_roles e))"

definition ROLE_PRIORITY :: "string list" where
  "ROLE_PRIORITY = [''admin'', ''mgmt_director'', ''lead_attorney'', ''partner_attorney'', ''mgmt_staff'', ''patent_staff'',
     ''manager'', ''accounting'', ''staff'', ''user'']"

definition pick_primary_role_name :: "string list \<Rightarrow> string \<Rightarrow> string" where
  "pick_primary_role_name given dflt =
     (let names = filter (\<lambda>s. s \<noteq> []) (map (\<lambda>n. normalize_role (Some n)) given) in
      if names = [] then dflt
      else case find (\<lambda>p. p \<in> set names) ROLE_PRIORITY of Some p \<Rightarrow> p | None \<Rightarrow> hd (sort names))"

definition get_primary_role_name :: "user option \<Rightarrow> string \<Rightarrow> string" where
  "get_primary_role_name u dflt = pick_primary_role_name (get_user_role_names u) dflt"

definition ROLE_MGMT_ALIASES :: "string list" where
  "ROLE_MGMT_ALIASES = [''mgmt_director'', ''mgmt_staff'', ''manager'', ''accounting'']"

definition ROLE_WORK_ALIASES :: "string list" where
  "ROLE_WORK_ALIASES = [''lead_attorney'', ''partner_attorney'', ''patent_staff'', ''attorney'', ''patent_engineer'', ''paralegal'', ''staff'']"

definition is_mgmt_role :: "user \<Rightarrow> bool" where
  "is_mgmt_role u = intersects (role_names u) ROLE_MGMT_ALIASES"

definition is_work_role :: "user \<Rightarrow> bool" where
  "is_work_role u = intersects (role_names u) ROLE_WORK_ALIASES"

definition can_view_all_mgmt_deadlines :: "user \<Rightarrow> bool" where
  "can_view_all_mgmt_deadlines u \<longleftrightarrow> has_role u ''admin'' \<or> has_role u ''mgmt_director''"

definition can_view_all_work_deadlines :: "user \<Rightarrow> bool" where
  "can_view_all_work_deadlines u \<longleftrightarrow> has_role u ''admin'' \<or> has_role u ''lead_attorney'' \<or> has_role u ''partner_attorney''"

definition ROLE_BUSINESS_SUPER :: "string list" where
  "ROLE_BUSINESS_SUPER = [''admin'', ''lead_attorney'', ''partner_attorney'', ''mgmt_director'']"

record role_scope =
  show_all_mgmt :: bool
  show_all_work :: bool
  show_own_mgmt :: bool
  show_own_work :: bool

definition resolve_role_scope :: "string option \<Rightarrow> role_scope" where
  "resolve_role_scope raw =
     (let role = normalize_role raw;
          sup = role \<in> set ROLE_BUSINESS_SUPER;
          own_mgmt = role = ''mgmt_staff'' \<or> (role \<in> set ROLE_MGMT_ALIASES \<and> \<not> sup);
          own_work = role = ''patent_staff'' \<or> (role \<in> set ROLE_WORK_ALIASES \<and> \<not> sup) in
      if \<not> (sup \<or> own_mgmt \<or> own_work)
      then \<lparr>show_all_mgmt = sup, show_all_work = sup, show_own_mgmt = True, show_own_work = True\<rparr>
      else \<lparr>show_all_mgmt = sup, show_all_work = sup, show_own_mgmt = own_mgmt, show_own_work = own_work\<rparr>)"

definition has_global_case_worklog_view :: "perm_env \<Rightarrow> user option \<Rightarrow> bool" where
  "has_global_case_worklog_view e u =
     (case u of None \<Rightarrow> False
      | Some v \<Rightarrow> user_authenticated v \<and> (has_permission e v ''case.view.all'' \<or> has_permission e v ''case.edit.all''))"

definition worklog_role_scope_flags :: "perm_env \<Rightarrow> user option \<Rightarrow> role_scope" where
  "worklog_role_scope_flags e u =
     (let flags = resolve_role_scope (case u of None \<Rightarrow> None | Some v \<Rightarrow> user_role v) in
      if has_global_case_worklog_view e u
      then \<lparr>show_all_mgmt = True, show_all_work = True, show_own_mgmt = False, show_own_work = False\<rparr>
      else flags)"

text \<open>Access to the upload pages; the setting \<open>UPLOADS_ALLOWED_ROLES\<close> of the application is an argument.\<close>

definition can_access_uploads :: "perm_env \<Rightarrow> string \<Rightarrow> user option \<Rightarrow> bool" where
  "can_access_uploads e uploads_allowed u =
     (case u of None \<Rightarrow> False
      | Some v \<Rightarrow>
          if \<not> authenticated_active u then False
          else if is_admin u \<or> is_manager e u \<or> is_invoice_manager e u then True
          else if is_mgmt_role v \<or> is_work_role v then True
          else let allowed = parse_role_csv (Some uploads_allowed) in
               allowed \<noteq> [] \<and> intersects (get_user_role_names u) allowed)"

section \<open>Route decorators\<close>

datatype verdict = Proceed | Abort401 | Abort403

definition permission_required :: "perm_env \<Rightarrow> string \<Rightarrow> user option \<Rightarrow> verdict" where
  "permission_required e perm u =
     (case u of None \<Rightarrow> Abort401
      | Some v \<Rightarrow> if \<not> user_authenticated v then Abort401
                else if is_admin u then Proceed
                else if has_permission e v perm then Proceed else Abort403)"

definition role_required :: "perm_env \<Rightarrow> string list \<Rightarrow> user option \<Rightarrow> verdict" where
  "role_required e allowed u =
     (if \<not> authenticated u then Abort401
      else let names = get_user_role_names u in
           if ''admin'' \<in> set names then Proceed
           else
             let base = filter (\<lambda>s. s \<noteq> []) (map (\<lambda>r. normalize_role (Some r)) allowed);
                 with_mgmt = (if ''manager'' \<in> set base then base @ get_management_roles e else base);
                 extended = (if ''staff'' \<in> set with_mgmt then with_mgmt @ map (\<lambda>r. normalize_role (Some r)) ROLE_WORK_ALIASES
                             else with_mgmt) in
             if intersects names extended then Proceed else Abort403)"

section \<open>Facts about roles\<close>

lemma lower_char_idem [simp]: "lower_char (lower_char c) = lower_char c"
  by (auto simp: lower_char_def Let_def)

lemma lower_idem [simp]: "lower (lower s) = lower s"
  by (simp add: lower_def)

lemma strip_lower: "strip (lower s) = lower (strip s)"
proof -
  have d: "dropWhile is_space (map lower_char s) = map lower_char (dropWhile is_space s)" for s
    by (induction s) auto
  show ?thesis
    by (simp add: strip_def strip_chars_def lstrip_chars_def rstrip_chars_def lower_def d rev_map)
qed

lemma normalize_role_idem [simp]: "normalize_role (Some (normalize_role r)) = normalize_role r"
  by (simp add: normalize_role_def strip_lower)

lemma role_names_normalized: "n \<in> set (role_names u) \<Longrightarrow> normalize_role (Some n) = n \<and> n \<noteq> []"
  by (auto simp: role_names_def parse_role_csv_def Let_def split: if_splits)

lemma get_user_role_names_Some [simp]: "set (get_user_role_names (Some u)) = set (role_names u)"
proof -
  have "map (\<lambda>n. normalize_role (Some n)) (role_names u) = role_names u"
    by (rule map_idI) (simp add: role_names_normalized)
  then show ?thesis using role_names_normalized [of _ u] by (auto simp: get_user_role_names_def)
qed

lemma get_user_role_names_None [simp]: "get_user_role_names None = []"
  by (simp add: get_user_role_names_def)

end
