(* ===== verification/Matter_Access.thy ===== *)
theory Matter_Access
  imports User_Roles
begin

text \<open>
  Access to matters: the matter half of \<open>app/utils/permissions.py\<close> (the list filter, the check of one
  matter, its fallbacks over families and identifiers), the adapter for legacy cases
  (\<open>app/services/case/legacy_case_adapter.py\<close>) and the request guard of the matter blueprints.

  The tables the queries read are the record \<open>matter_db\<close>. A check is a function of the environment,
  the tables and the user; its queries are evaluated where the code needs them, and a query that fails
  answers as the code's exception handler does.
\<close>

section \<open>Tables\<close>

record staff_row =
  st_matter :: string
  st_party :: "string option"
  st_role :: string

record matter_row =
  mr_id :: string
  mr_deleted :: "bool option"
  mr_our_ref :: "string option"
  mr_old_our_ref :: "string option"
  mr_your_ref :: "string option"

record identifier_row =
  ir_matter :: string
  ir_type :: string
  ir_value :: string

text \<open>A value of a custom field: a scalar (by its text, empty when it counts as false) or a list,
  whose dictionaries are given by the text of their \<open>number\<close>, with the text of the whole list.\<close>

datatype custom_value = CfText string | CfList "string option list" string

record matter_db =
  staff_rows :: "staff_row list"
  party_staff :: "(string \<times> string option) list"
  matters :: "matter_row list"
  matter_family :: "(string \<times> string) list"
  identifiers :: "identifier_row list"
  custom_fields :: "(string \<times> (string \<times> custom_value) list) list"
  on_postgresql :: bool

definition live_matter :: "matter_db \<Rightarrow> string \<Rightarrow> bool" where
  "live_matter db m \<longleftrightarrow> list_ex (\<lambda>r. mr_id r = m \<and> mr_deleted r \<noteq> Some True) (matters db)"

definition direct_row :: "string list \<Rightarrow> string \<Rightarrow> staff_row \<Rightarrow> bool" where
  "direct_row codes pid r \<longleftrightarrow> st_party r = Some pid \<and> lower (sql_trim (st_role r)) \<in> set codes"

definition dept_row :: "matter_db \<Rightarrow> string \<Rightarrow> staff_row \<Rightarrow> bool" where
  "dept_row db dept r \<longleftrightarrow> list_ex (\<lambda>(p, d). st_party r = Some p \<and> d = Some dept) (party_staff db)"

section \<open>The filter of lists\<close>

definition ROLE_CASE_TEAM :: "string list" where
  "ROLE_CASE_TEAM = [''partner_attorney'', ''patent_staff'', ''mgmt_director'', ''mgmt_staff'', ''manager'', ''attorney'', ''handler'',
     ''staff'', ''draftsman'', ''patent_engineer'', ''paralegal'', ''accounting'']"

definition staff_party_of :: "user option \<Rightarrow> string option" where
  "staff_party_of u = or_none (strip (or_empty (case u of None \<Rightarrow> None | Some v \<Rightarrow> user_staff_party v)))"

definition department_of :: "user option \<Rightarrow> string option" where
  "department_of u = or_none (strip (or_empty (case u of None \<Rightarrow> None | Some v \<Rightarrow> user_dept v)))"

definition can_manage_case_globally :: "perm_env \<Rightarrow> user option \<Rightarrow> bool" where
  "can_manage_case_globally e u =
     (if \<not> authenticated u then False
      else if uses_explicit_case_policy u
      then user_has_permission_key e u ''case.view.all'' \<or> user_has_permission_key e u ''case.edit.all''
           \<or> user_has_permission_key e u ''case.assign.all''
      else intersects (get_user_role_names u) ROLE_BUSINESS_SUPER)"

text \<open>The matters a list may show, as the rows of the sub-select.\<close>

definition policy_accessible_matter_ids :: "perm_env \<Rightarrow> matter_db \<Rightarrow> user option \<Rightarrow> string list" where
  "policy_accessible_matter_ids e db u =
     (if \<not> authenticated u then []
      else if can_manage_case_globally e u then map mr_id (matters db)
      else
        let expl = uses_explicit_case_policy u; codes = get_self_assigned_role_codes e;
            direct = (case staff_party_of u of
                        None \<Rightarrow> []
                      | Some pid \<Rightarrow> if \<not> expl \<or> user_has_permission_key e u ''case.view.assigned''
                                  then map st_matter (filter (direct_row codes pid) (staff_rows db)) else []);
            team = (case department_of u of
                      None \<Rightarrow> []
                    | Some dept \<Rightarrow> if (if expl then user_has_permission_key e u ''case.view.team''
                                     else intersects (get_user_role_names u) ROLE_CASE_TEAM)
                                 then map st_matter (filter (dept_row db dept) (staff_rows db)) else []) in
        remdups (direct @ team))"

definition managed_matter_ids :: "matter_db \<Rightarrow> string list \<Rightarrow> user option \<Rightarrow> string list" where
  "managed_matter_ids db role_codes u =
     (if \<not> authenticated u then []
      else case staff_party_of u of
        None \<Rightarrow> []
      | Some pid \<Rightarrow>
          let codes = normalize_role_codes role_codes in
          if codes = [] then [] else remdups (map st_matter (filter (direct_row codes pid) (staff_rows db))))"

definition is_manager_assigned_to_matter :: "perm_env \<Rightarrow> matter_db \<Rightarrow> string list \<Rightarrow> user option \<Rightarrow> string \<Rightarrow> bool" where
  "is_manager_assigned_to_matter e db role_codes u matter_id =
     (let mid = strip matter_id in
      if \<not> authenticated u \<or> mid = [] then False
      else case staff_party_of u of
        None \<Rightarrow> False
      | Some pid \<Rightarrow>
          let codes = normalize_role_codes role_codes in
          if codes = [] \<or> query_fails e ''permissions.is_manager_assigned_to_matter'' then False
          else list_ex (\<lambda>r. st_matter r = mid \<and> direct_row codes pid r) (staff_rows db))"

section \<open>Assignments of one matter\<close>

definition has_direct_assignment :: "perm_env \<Rightarrow> matter_db \<Rightarrow> string option \<Rightarrow> string \<Rightarrow> bool" where
  "has_direct_assignment e db pid mid =
     (case pid of
        None \<Rightarrow> False
      | Some p \<Rightarrow>
          let codes = get_self_assigned_role_codes e in
          if codes = [] \<or> query_fails e ''permissions._has_direct_assignment'' then False
          else list_ex (\<lambda>r. st_matter r = mid \<and> direct_row codes p r) (staff_rows db))"

definition has_team_assignment :: "perm_env \<Rightarrow> matter_db \<Rightarrow> string option \<Rightarrow> string \<Rightarrow> bool" where
  "has_team_assignment e db dept mid =
     (case dept of
        None \<Rightarrow> False
      | Some d \<Rightarrow>
          if query_fails e ''permissions._has_team_assignment'' then False
          else list_ex (\<lambda>r. st_matter r = mid \<and> dept_row db d r) (staff_rows db))"

definition family_ids_of :: "matter_db \<Rightarrow> string \<Rightarrow> string list" where
  "family_ids_of db mid =
     filter (\<lambda>f. f \<noteq> []) (map (\<lambda>(f, m). strip f) (filter (\<lambda>(f, m). m = mid) (matter_family db)))"

definition family_siblings :: "matter_db \<Rightarrow> string \<Rightarrow> string list" where
  "family_siblings db mid =
     map snd (filter (\<lambda>(f, m). f \<in> set (family_ids_of db mid) \<and> m \<noteq> mid \<and> live_matter db m) (matter_family db))"

definition has_family_related_assignment ::
  "perm_env \<Rightarrow> matter_db \<Rightarrow> string option \<Rightarrow> string option \<Rightarrow> string \<Rightarrow> bool \<times> bool"
where
  "has_family_related_assignment e db pid dept matter_id =
     (let mid = strip matter_id in
      if mid = [] \<or> query_fails e ''permissions._has_family_related_assignment.family_ids'' then (False, False)
      else if family_ids_of db mid = [] then (False, False)
      else
        let sib = family_siblings db mid; codes = get_self_assigned_role_codes e;
            rows = filter (\<lambda>r. st_matter r \<in> set sib \<and> live_matter db (st_matter r)) (staff_rows db) in
        (case pid of
           None \<Rightarrow> False
         | Some p \<Rightarrow> codes \<noteq> [] \<and> \<not> query_fails e ''permissions._has_family_related_assignment.direct''
                     \<and> list_ex (direct_row codes p) rows,
         case dept of
           None \<Rightarrow> False
         | Some d \<Rightarrow> \<not> query_fails e ''permissions._has_family_related_assignment.team'' \<and> list_ex (dept_row db d) rows))"

section \<open>Matters related by their identifiers\<close>

definition APP_IDENTIFIER_TYPES :: "string list" where
  "APP_IDENTIFIER_TYPES = [''Application No.'', ''APP_NO'', ''application_no'', ''app_no'', ''PCT Application No.'',
     ''PCTApplication No.'', ''pct_application_no'', ''EP Application No.'', ''EPApplication No.'', ''ep_application_no'']"

definition PRIORITY_IDENTIFIER_TYPES :: "string list" where
  "PRIORITY_IDENTIFIER_TYPES = [''Priority'', ''priority_no'']"

definition ORIGIN_IDENTIFIER_TYPES :: "string list" where
  "ORIGIN_IDENTIFIER_TYPES = [''Parent application No.'', ''parent_application_no'']"

definition REFERENCE_IDENTIFIER_TYPES :: "string list" where
  "REFERENCE_IDENTIFIER_TYPES = ORIGIN_IDENTIFIER_TYPES @ [''PCT Application No.'', ''PCTApplication No.'', ''pct_application_no'',
     ''EP Application No.'', ''EPApplication No.'', ''ep_application_no'']"

definition ascii_alnum :: "char \<Rightarrow> bool" where
  "ascii_alnum c \<longleftrightarrow> (let n = (of_char c :: nat) in is_digit c \<or> (65 \<le> n \<and> n \<le> 90) \<or> (97 \<le> n \<and> n \<le> 122))"

definition normalize_identifier :: "string \<Rightarrow> string" where
  "normalize_identifier s = upper (filter py_alnum s)"

fun unify_newlines :: "string \<Rightarrow> string" where
  "unify_newlines (a # b # cs) =
     (if a = CHR 0x0D \<and> b = CHR 0x0A then CHR 0x0A # unify_newlines cs else a # unify_newlines (b # cs))"
| "unify_newlines cs = cs"

definition separators_to_commas :: "string \<Rightarrow> string" where
  "separators_to_commas s =
     replace_char (CHR 0x0A) (CHR '','') (replace_char (CHR ''|'') (CHR '','') (replace_char (CHR '';'') (CHR '','')
       (replace_char (CHR 0x0D) (CHR 0x0A) (unify_newlines s))))"

definition split_identifier_values :: "string list \<Rightarrow> string list" where
  "split_identifier_values raws =
     rev (remdups (rev (concat (map (\<lambda>raw.
       if strip raw = [] then []
       else filter (\<lambda>t. t \<noteq> []) (map strip (split_on (CHR '','') (separators_to_commas (strip raw))))) raws))))"

definition collect_identifier_values :: "matter_db \<Rightarrow> string \<Rightarrow> string list \<Rightarrow> string list" where
  "collect_identifier_values db mid types =
     concat (map (\<lambda>t. map (\<lambda>r. strip (ir_value r))
       (filter (\<lambda>r. ir_matter r = mid \<and> strip (ir_type r) \<noteq> [] \<and> strip (ir_value r) \<noteq> []
                  \<and> lower (strip (ir_type r)) = lower (strip t)) (identifiers db))) types)"

definition custom_texts :: "string \<Rightarrow> custom_value \<Rightarrow> string list" where
  "custom_texts key v =
     (case v of
        CfText s \<Rightarrow> if s = [] then [] else [s]
      | CfList items txt \<Rightarrow>
          if key = ''related_applications''
          then filter (\<lambda>n. n \<noteq> []) (map (\<lambda>i. strip (or_empty i)) items)
          else if items = [] then [] else [txt])"

definition collect_custom_field_values :: "matter_db \<Rightarrow> string \<Rightarrow> string list \<Rightarrow> string list" where
  "collect_custom_field_values db mid keys =
     concat (map (\<lambda>(m, data). concat (map (\<lambda>key.
         case map_of data key of None \<Rightarrow> [] | Some v \<Rightarrow> custom_texts key v) keys))
       (filter (\<lambda>(m, data). m = mid) (custom_fields db)))"

definition identifier_matches :: "matter_db \<Rightarrow> string list \<Rightarrow> string \<Rightarrow> bool" where
  "identifier_matches db candidates v \<longleftrightarrow>
     (let norms = filter (\<lambda>n. n \<noteq> []) (map normalize_identifier candidates) in
      if on_postgresql db
      then v \<in> set candidates \<or> upper (filter ascii_alnum v) \<in> set norms
      else v \<in> set candidates \<or> (normalize_identifier v \<noteq> [] \<and> normalize_identifier v \<in> set norms))"

definition extend_related_ids :: "perm_env \<Rightarrow> matter_db \<Rightarrow> string \<Rightarrow> string list \<Rightarrow> string list \<Rightarrow> string list" where
  "extend_related_ids e db mid types raw_candidates =
     (let candidates = filter (\<lambda>c. c \<noteq> []) (map strip raw_candidates) in
      if candidates = [] \<or> query_fails e ''permissions._load_identifier_related_matter_ids.query'' then []
      else filter (\<lambda>m. \<not> on_postgresql db \<or> m \<noteq> []) (map ir_matter (filter (\<lambda>r.
        ir_matter r \<noteq> mid \<and> ir_type r \<in> set types \<and> live_matter db (ir_matter r)
        \<and> identifier_matches db candidates (ir_value r)) (identifiers db))))"

definition load_identifier_related_matter_ids :: "perm_env \<Rightarrow> matter_db \<Rightarrow> string \<Rightarrow> string list" where
  "load_identifier_related_matter_ids e db matter_id =
     (let mid = strip matter_id in
      if mid = [] \<or> query_fails e ''permissions._load_identifier_related_matter_ids.load'' then []
      else
        let prio = split_identifier_values (collect_identifier_values db mid PRIORITY_IDENTIFIER_TYPES
                     @ collect_custom_field_values db mid [''priority_no'']);
            origin = split_identifier_values (collect_identifier_values db mid ORIGIN_IDENTIFIER_TYPES
                     @ collect_custom_field_values db mid [''parent_application_no'', ''related_applications'']);
            app = split_identifier_values (collect_identifier_values db mid APP_IDENTIFIER_TYPES
                     @ collect_custom_field_values db mid [''application_no'', ''pct_application_no'', ''ep_application_no'']) in
        remdups (extend_related_ids e db mid APP_IDENTIFIER_TYPES (prio @ origin)
          @ extend_related_ids e db mid PRIORITY_IDENTIFIER_TYPES (app @ prio)
          @ extend_related_ids e db mid REFERENCE_IDENTIFIER_TYPES (app @ origin)))"

definition has_identifier_related_assignment ::
  "perm_env \<Rightarrow> matter_db \<Rightarrow> string option \<Rightarrow> string option \<Rightarrow> string \<Rightarrow> bool \<times> bool"
where
  "has_identifier_related_assignment e db pid dept matter_id =
     (let related = sort (load_identifier_related_matter_ids e db matter_id); codes = get_self_assigned_role_codes e;
          rows = filter (\<lambda>r. st_matter r \<in> set related) (staff_rows db) in
      if related = [] then (False, False)
      else
        (case pid of
           None \<Rightarrow> False
         | Some p \<Rightarrow> codes \<noteq> [] \<and> \<not> query_fails e ''permissions._has_identifier_related_assignment.direct''
                     \<and> list_ex (direct_row codes p) rows,
         case dept of
           None \<Rightarrow> False
         | Some d \<Rightarrow> \<not> query_fails e ''permissions._has_identifier_related_assignment.team'' \<and> list_ex (dept_row db d) rows))"

section \<open>The check of one matter\<close>

definition legacy_has_view_access :: "string list \<Rightarrow> bool \<Rightarrow> bool \<Rightarrow> bool" where
  "legacy_has_view_access names direct team \<longleftrightarrow>
     intersects names ROLE_BUSINESS_SUPER \<or> direct \<or> (intersects names ROLE_CASE_TEAM \<and> team)"

definition explicit_has_view_access :: "perm_env \<Rightarrow> user option \<Rightarrow> bool \<Rightarrow> bool \<Rightarrow> bool" where
  "explicit_has_view_access e u direct team \<longleftrightarrow>
     user_has_permission_key e u ''case.view.all'' \<or> user_has_permission_key e u ''case.edit.all''
     \<or> (direct \<and> (user_has_permission_key e u ''case.view.assigned'' \<or> user_has_permission_key e u ''case.edit.assigned''))
     \<or> (team \<and> (user_has_permission_key e u ''case.view.team'' \<or> user_has_permission_key e u ''case.edit.team''))"

definition view_access :: "perm_env \<Rightarrow> user option \<Rightarrow> bool \<Rightarrow> bool \<Rightarrow> bool" where
  "view_access e u direct team =
     (if uses_explicit_case_policy u then explicit_has_view_access e u direct team
      else legacy_has_view_access (get_user_role_names u) direct team)"

definition can_view :: "perm_env \<Rightarrow> matter_db \<Rightarrow> user option \<Rightarrow> string \<Rightarrow> bool" where
  "can_view e db u mid =
     (let pid = staff_party_of u; dept = department_of u;
          fam = has_family_related_assignment e db pid dept mid;
          idt = has_identifier_related_assignment e db pid dept mid in
      if view_access e u (has_direct_assignment e db pid mid) (has_team_assignment e db dept mid) then True
      else if view_access e u (fst fam) (snd fam) then True
      else view_access e u (fst idt) (snd idt))"

definition can_edit_case :: "perm_env \<Rightarrow> matter_db \<Rightarrow> user option \<Rightarrow> string \<Rightarrow> bool" where
  "can_edit_case e db u mid =
     (let names = get_user_role_names u;
          direct = has_direct_assignment e db (staff_party_of u) mid;
          team = has_team_assignment e db (department_of u) mid in
      if uses_explicit_case_policy u
      then user_has_permission_key e u ''case.edit.all''
           \<or> (user_has_permission_key e u ''case.edit.assigned'' \<and> direct)
           \<or> (user_has_permission_key e u ''case.edit.team'' \<and> team)
      else intersects names ROLE_BUSINESS_SUPER
           \<or> (filter (\<lambda>n. n \<noteq> ''user'') names \<noteq> [] \<and> direct)
           \<or> (''partner_attorney'' \<in> set names \<and> team))"

definition ROLE_CASE_ASSIGN :: "string list" where
  "ROLE_CASE_ASSIGN = [''admin'', ''lead_attorney'', ''partner_attorney'']"

definition can_assign_staff :: "perm_env \<Rightarrow> matter_db \<Rightarrow> user option \<Rightarrow> string \<Rightarrow> bool" where
  "can_assign_staff e db u mid =
     (let names = get_user_role_names u; team = has_team_assignment e db (department_of u) mid in
      if uses_explicit_case_policy u
      then user_has_permission_key e u ''case.assign.all''
           \<or> (user_has_permission_key e u ''case.assign.team'' \<and> team)
      else intersects names ROLE_BUSINESS_SUPER \<or> (intersects names ROLE_CASE_ASSIGN \<and> team))"

definition can_invoice :: "perm_env \<Rightarrow> matter_db \<Rightarrow> user option \<Rightarrow> string \<Rightarrow> bool" where
  "can_invoice e db u mid =
     (let names = get_user_role_names u;
          direct = has_direct_assignment e db (staff_party_of u) mid;
          team = has_team_assignment e db (department_of u) mid in
      if uses_explicit_case_policy u
      then (if \<not> (user_has_permission_key e u ''invoice.manage'' \<or> user_has_permission_key e u ''case.edit.all'' \<or> is_admin u)
            then False else explicit_has_view_access e u direct team)
      else if ''admin'' \<in> set names then True
      else if \<not> intersects names (extended_invoice_roles e @ [''partner_attorney'']) then False
      else legacy_has_view_access names direct team)"

definition can_access_matter :: "perm_env \<Rightarrow> matter_db \<Rightarrow> user option \<Rightarrow> string \<Rightarrow> string \<Rightarrow> bool" where
  "can_access_matter e db u mid action_text =
     (let act = lower (strip (if action_text = [] then ''view'' else action_text)) in
      if \<not> authenticated_active u \<or> mid = [] then False
      else if act = ''view'' then can_view e db u mid
      else if act = ''edit_case'' then can_edit_case e db u mid
      else if act = ''assign_staff'' then can_assign_staff e db u mid
      else if act = ''delete_case''
      then (if uses_explicit_case_policy u then user_has_permission_key e u ''case.delete''
            else intersects (get_user_role_names u) ROLE_BUSINESS_SUPER)
      else if act \<in> {''invoice'', ''mgmt_deadline'', ''finance''} then can_invoice e db u mid
      else False)"

definition require_matter_access :: "perm_env \<Rightarrow> matter_db \<Rightarrow> user option \<Rightarrow> user option \<Rightarrow> string \<Rightarrow> string \<Rightarrow> verdict" where
  "require_matter_access e db current u mid act =
     (if can_access_matter e db (case u of None \<Rightarrow> current | Some v \<Rightarrow> Some v) mid act then Proceed else Abort403)"

section \<open>The guard of the matter blueprints\<close>

definition SAFE_METHODS :: "string list" where
  "SAFE_METHODS = [''GET'', ''HEAD'', ''OPTIONS'']"

definition resolve_matter_action :: "string option \<Rightarrow> string" where
  "resolve_matter_action http_method =
     (let m = upper (case http_method of None \<Rightarrow> ''GET'' | Some s \<Rightarrow> if s = [] then ''GET'' else s) in
      if m \<in> set SAFE_METHODS then ''view'' else ''edit_case'')"

definition extract_matter_id :: "(string \<times> string option) list \<Rightarrow> string option" where
  "extract_matter_id args =
     (let value = (\<lambda>k. case map_of args k of None \<Rightarrow> None | Some v \<Rightarrow> v) in
      case value ''matter_id'' of Some v \<Rightarrow> Some v
      | None \<Rightarrow> (case value ''case_id'' of Some v \<Rightarrow> Some v | None \<Rightarrow> value ''mid''))"

text \<open>\<open>_guard_matter_access\<close>: the action is the one the route was marked with, or follows from the
  method of the request. A request that is not about an existing matter goes on to its view.\<close>

definition guard_matter_access ::
  "perm_env \<Rightarrow> matter_db \<Rightarrow> user option \<Rightarrow> (string \<times> string option) list \<Rightarrow> string option \<Rightarrow> string option \<Rightarrow> verdict"
where
  "guard_matter_access e db u args route_action http_method =
     (case u of
        None \<Rightarrow> Proceed
      | Some v \<Rightarrow>
          case extract_matter_id args of
            None \<Rightarrow> Proceed
          | Some mid \<Rightarrow>
              if mid = [] \<or> \<not> list_ex (\<lambda>r. mr_id r = mid) (matters db) then Proceed
              else
                let act = (case route_action of Some a \<Rightarrow> if a = [] then resolve_matter_action http_method else a
                           | None \<Rightarrow> resolve_matter_action http_method) in
                if can_access_matter e db u mid act then Proceed else Abort403)"

section \<open>Legacy cases\<close>

record legacy_case =
  lc_ref_no :: "string option"
  lc_manager :: "int option"
  lc_attorney :: "int option"

definition resolve_matter_id_for_case_ref :: "matter_db \<Rightarrow> string option \<Rightarrow> string option" where
  "resolve_matter_id_for_case_ref db case_ref =
     (let ref = strip (or_empty case_ref) in
      if ref = [] then None
      else map_option mr_id (sql_first (\<lambda>r. mr_deleted r \<noteq> Some True
             \<and> Some ref \<in> {mr_our_ref r, mr_old_our_ref r, mr_your_ref r}) (matters db)))"

definition can_access_unmapped_case :: "perm_env \<Rightarrow> user option \<Rightarrow> legacy_case \<Rightarrow> string \<Rightarrow> bool" where
  "can_access_unmapped_case e u c act =
     (case u of
        None \<Rightarrow> False
      | Some v \<Rightarrow>
          if \<not> authenticated_active u then False
          else if act = ''delete_case'' then can_manage_case_globally e u
          else if can_manage_case_globally e u then True
          else if user_id v = 0 then False
          else Some (user_id v) = lc_manager c \<or> Some (user_id v) = lc_attorney c)"

definition can_access_legacy_case :: "perm_env \<Rightarrow> matter_db \<Rightarrow> user option \<Rightarrow> legacy_case option \<Rightarrow> string \<Rightarrow> bool" where
  "can_access_legacy_case e db u c act =
     (case c of
        None \<Rightarrow> False
      | Some c \<Rightarrow>
          (case resolve_matter_id_for_case_ref db (lc_ref_no c) of
             Some mid \<Rightarrow> if mid = [] then can_access_unmapped_case e u c act else can_access_matter e db u mid act
           | None \<Rightarrow> can_access_unmapped_case e u c act))"

definition check_permission :: "perm_env \<Rightarrow> bool \<Rightarrow> string \<Rightarrow> user option \<Rightarrow> bool" where
  "check_permission e login_disabled_test kind u =
     (if login_disabled_test then True
      else if kind = ''admin'' then is_admin u
      else if kind \<in> {''manage_case'', ''delete_file''} then can_manage_case_globally e u
      else if kind = ''manage_invoice'' then is_invoice_manager e u \<or> user_has_permission_key e u ''invoice.manage''
      else False)"

definition require_permission :: "perm_env \<Rightarrow> bool \<Rightarrow> string \<Rightarrow> user option \<Rightarrow> verdict" where
  "require_permission e login_disabled_test kind u =
     (if login_disabled_test then Proceed
      else if \<not> authenticated u then Abort401
      else if check_permission e login_disabled_test kind u then Proceed else Abort403)"

section \<open>Lists and single checks agree\<close>

lemma intersects_iff [simp]: "intersects a b \<longleftrightarrow> (\<exists>x \<in> set a. x \<in> set b)"
  by (simp add: intersects_def list_ex_iff)

lemma intersects_subset: "intersects a b \<Longrightarrow> set b \<subseteq> set c \<Longrightarrow> intersects a c"
  by auto

lemma case_assign_super: "set ROLE_CASE_ASSIGN \<subseteq> set ROLE_BUSINESS_SUPER"
  by (simp add: ROLE_CASE_ASSIGN_def ROLE_BUSINESS_SUPER_def)

lemma admin_super: "''admin'' \<in> set ROLE_BUSINESS_SUPER"
  and partner_super: "''partner_attorney'' \<in> set ROLE_BUSINESS_SUPER"
  by (simp_all add: ROLE_BUSINESS_SUPER_def)

lemma self_assigned_not_Nil [simp]: "get_self_assigned_role_codes e \<noteq> []"
  by (simp add: get_self_assigned_role_codes_def DEFAULT_SELF_ASSIGNED_ROLE_CODES_def Let_def)

lemma authenticated_activeD: "authenticated_active u \<Longrightarrow> authenticated u"
  by (auto simp: authenticated_active_def authenticated_def split: option.splits)

text \<open>The assignments of one matter are the rows that the list filter selects for it.\<close>

lemma direct_assignment_iff:
  assumes "\<not> query_fails e ''permissions._has_direct_assignment''"
  shows "has_direct_assignment e db pid m \<longleftrightarrow>
    (\<exists>p. pid = Some p \<and> m \<in> set (map st_matter (filter (direct_row (get_self_assigned_role_codes e) p) (staff_rows db))))"
  using assms by (auto simp: has_direct_assignment_def list_ex_iff Let_def split: option.splits)

lemma team_assignment_iff:
  assumes "\<not> query_fails e ''permissions._has_team_assignment''"
  shows "has_team_assignment e db dept m \<longleftrightarrow>
    (\<exists>d. dept = Some d \<and> m \<in> set (map st_matter (filter (dept_row db d) (staff_rows db))))"
  using assms by (auto simp: has_team_assignment_def list_ex_iff split: option.splits)

text \<open>A user's keys are coherent when every right to edit or assign comes with the right to view.\<close>

definition coherent_keys :: "perm_env \<Rightarrow> user option \<Rightarrow> bool" where
  "coherent_keys e u \<longleftrightarrow>
     (user_has_permission_key e u ''case.edit.assigned'' \<longrightarrow> user_has_permission_key e u ''case.view.assigned'')
     \<and> (user_has_permission_key e u ''case.edit.team'' \<longrightarrow> user_has_permission_key e u ''case.view.team'')
     \<and> (user_has_permission_key e u ''case.assign.all'' \<longrightarrow>
          user_has_permission_key e u ''case.view.all'' \<or> user_has_permission_key e u ''case.edit.all'')"

lemma listed_local:
  assumes "authenticated u" and "\<not> can_manage_case_globally e u"
    and "\<not> query_fails e ''permissions._has_direct_assignment''" and "\<not> query_fails e ''permissions._has_team_assignment''"
  shows "m \<in> set (policy_accessible_matter_ids e db u) \<longleftrightarrow>
     (has_direct_assignment e db (staff_party_of u) m
       \<and> (uses_explicit_case_policy u \<longrightarrow> user_has_permission_key e u ''case.view.assigned''))
     \<or> (has_team_assignment e db (department_of u) m
       \<and> (if uses_explicit_case_policy u then user_has_permission_key e u ''case.view.team''
          else intersects (get_user_role_names u) ROLE_CASE_TEAM))"
  unfolding policy_accessible_matter_ids_def Let_def direct_assignment_iff [OF assms(3)] team_assignment_iff [OF assms(4)]
  using assms(1,2) by (cases "staff_party_of u"; cases "department_of u"; cases "uses_explicit_case_policy u") auto

lemma global_view_access:
  assumes "can_manage_case_globally e u" and "uses_explicit_case_policy u \<Longrightarrow> coherent_keys e u"
  shows "view_access e u direct team"
  using assms
  by (auto simp: can_manage_case_globally_def view_access_def explicit_has_view_access_def legacy_has_view_access_def
      coherent_keys_def split: if_splits)

lemma local_view_access:
  assumes "authenticated u" and "\<not> can_manage_case_globally e u" and "uses_explicit_case_policy u \<Longrightarrow> coherent_keys e u"
  shows "view_access e u direct team \<longleftrightarrow>
     (direct \<and> (uses_explicit_case_policy u \<longrightarrow> user_has_permission_key e u ''case.view.assigned''))
     \<or> (team \<and> (if uses_explicit_case_policy u then user_has_permission_key e u ''case.view.team''
                else intersects (get_user_role_names u) ROLE_CASE_TEAM))"
proof (cases "uses_explicit_case_policy u")
  case True
  with assms show ?thesis
    unfolding can_manage_case_globally_def view_access_def explicit_has_view_access_def coherent_keys_def by auto
next
  case False
  with assms(1,2) show ?thesis unfolding can_manage_case_globally_def view_access_def legacy_has_view_access_def by auto
qed

lemma view_access_can_view:
  assumes "view_access e u (has_direct_assignment e db (staff_party_of u) m) (has_team_assignment e db (department_of u) m)"
  shows "can_view e db u m"
  using assms by (simp add: can_view_def Let_def)

lemma strip_view [simp]: "lower (strip ''view'') = ''view''"
  by code_simp

lemma can_access_view: "can_access_matter e db u m ''view'' \<longleftrightarrow> authenticated_active u \<and> m \<noteq> [] \<and> can_view e db u m"
  by (auto simp: can_access_matter_def)

lemma list_filter_exact:
  assumes "authenticated_active u" and "uses_explicit_case_policy u \<Longrightarrow> coherent_keys e u"
    and "\<not> query_fails e ''permissions._has_direct_assignment''" and "\<not> query_fails e ''permissions._has_team_assignment''"
    and "m \<in> set (map mr_id (matters db))" and "m \<noteq> []"
  shows "(m \<in> set (policy_accessible_matter_ids e db u) \<longleftrightarrow>
      view_access e u (has_direct_assignment e db (staff_party_of u) m) (has_team_assignment e db (department_of u) m))
    \<and> (m \<in> set (policy_accessible_matter_ids e db u) \<longrightarrow> can_access_matter e db u m ''view'')"
proof -
  note auth = authenticated_activeD [OF assms(1)]
  have "m \<in> set (policy_accessible_matter_ids e db u) \<longleftrightarrow>
      view_access e u (has_direct_assignment e db (staff_party_of u) m) (has_team_assignment e db (department_of u) m)"
  proof (cases "can_manage_case_globally e u")
    case True
    with assms(5) auth global_view_access [OF True assms(2)] show ?thesis by (simp add: policy_accessible_matter_ids_def)
  next
    case False
    from assms(2) show ?thesis by (simp only: listed_local [OF auth False assms(3,4)] local_view_access [OF auth False])
  qed
  with assms(1,6) view_access_can_view show ?thesis by (auto simp: can_access_view)
qed

lemma listed_can_be_opened:
  assumes "authenticated_active u" and "uses_explicit_case_policy u \<Longrightarrow> coherent_keys e u"
    and "\<not> query_fails e ''permissions._has_direct_assignment''" and "\<not> query_fails e ''permissions._has_team_assignment''"
    and "m \<in> set (map mr_id (matters db))" and "m \<noteq> []" and "m \<in> set (policy_accessible_matter_ids e db u)"
  shows "can_access_matter e db u m ''view''"
  using list_filter_exact [OF assms(1-6)] assms(7) by blast

text \<open>C10: The filter of lists agrees with the check of one matter. For an active user whose rights to
  edit or assign come with the right to view, a stored matter is in the list exactly when the user's
  role, assignment or department gives access to it, and every matter of the list can be opened. A
  user of the old roles needs no condition on permission keys.\<close>

theorem list_filter_agrees_with_check:
  assumes "authenticated_active u" and "uses_explicit_case_policy u \<Longrightarrow> coherent_keys e u"
    and "\<not> query_fails e ''permissions._has_direct_assignment''" and "\<not> query_fails e ''permissions._has_team_assignment''"
    and "m \<in> set (map mr_id (matters db))" and "m \<noteq> []"
  shows "(m \<in> set (policy_accessible_matter_ids e db u) \<longleftrightarrow>
      view_access e u (has_direct_assignment e db (staff_party_of u) m) (has_team_assignment e db (department_of u) m))
    \<and> (m \<in> set (policy_accessible_matter_ids e db u) \<longrightarrow> can_access_matter e db u m ''view'')"
  using assms by (rule list_filter_exact)

definition quiet_perm_env :: perm_env where
  "quiet_perm_env = \<lparr>pe_call = example_call\<lparr>c_session := (answering [])\<lparr>first_read := Scalar None\<rparr>\<rparr>, pe_cache = [], role_table = [], query_fails = (\<lambda>_. False)\<rparr>"

definition staff_member :: user where
  "staff_member = \<lparr>user_id = 7, user_authenticated = True, user_active = Some True, user_role = Some ''patent_staff'', user_roles = [],
     user_staff_party = Some '' P7 '', user_dept = Some ''Patents''\<rparr>"

definition small_db :: matter_db where
  "small_db = \<lparr>staff_rows = [\<lparr>st_matter = ''M1'', st_party = Some ''P7'', st_role = '' Attorney''\<rparr>,
       \<lparr>st_matter = ''M2'', st_party = Some ''P9'', st_role = ''viewer''\<rparr>],
     party_staff = [(''P9'', Some ''Patents'')],
     matters = map (\<lambda>m. \<lparr>mr_id = m, mr_deleted = None, mr_our_ref = None, mr_old_our_ref = None, mr_your_ref = None\<rparr>) [''M1'', ''M2'', ''M3''],
     matter_family = [(''F1'', ''M1''), (''F1'', ''M3'')], identifiers = [], custom_fields = [], on_postgresql = True\<rparr>"

theorem list_filter_agrees_with_check_witness:
  "policy_accessible_matter_ids quiet_perm_env small_db (Some staff_member) = [''M1'', ''M2'']
   \<and> can_access_matter quiet_perm_env small_db (Some staff_member) ''M2'' ''view''"
proof -
  have l: "policy_accessible_matter_ids quiet_perm_env small_db (Some staff_member) = [''M1'', ''M2'']" by code_simp
  have "authenticated_active (Some staff_member)" "\<not> uses_explicit_case_policy (Some staff_member)" by code_simp+
  then have "can_access_matter quiet_perm_env small_db (Some staff_member) ''M2'' ''view''"
    using list_filter_agrees_with_check [of "Some staff_member" quiet_perm_env "''M2''" small_db] l
    by (simp add: quiet_perm_env_def small_db_def)
  with l show ?thesis by simp
qed

section \<open>Rights include viewing, relations give viewing only\<close>

text \<open>The action a check decides about.\<close>

definition action_of :: "string \<Rightarrow> string" where
  "action_of a = lower (strip (if a = [] then ''view'' else a))"

lemma can_access_cases:
  assumes "can_access_matter e db u m a"
  obtains (view) "action_of a = ''view''" "can_view e db u m"
  | (edit) "action_of a = ''edit_case''" "can_edit_case e db u m"
  | (assign) "action_of a = ''assign_staff''" "can_assign_staff e db u m"
  | (delete) "action_of a = ''delete_case''" "if uses_explicit_case_policy u then user_has_permission_key e u ''case.delete''
            else intersects (get_user_role_names u) ROLE_BUSINESS_SUPER"
  | (invoice) "action_of a \<in> {''invoice'', ''mgmt_deadline'', ''finance''}" "can_invoice e db u m"
  using assms unfolding can_access_matter_def action_of_def Let_def by meson

lemma can_access_active: "can_access_matter e db u m a \<Longrightarrow> authenticated_active u \<and> m \<noteq> []"
  by (auto simp: can_access_matter_def Let_def split: if_splits)

lemma super_view: "\<not> uses_explicit_case_policy u \<Longrightarrow> intersects (get_user_role_names u) ROLE_BUSINESS_SUPER \<Longrightarrow> can_view e db u m"
  by (rule view_access_can_view) (auto simp: view_access_def legacy_has_view_access_def)

lemma edit_view:
  assumes "can_edit_case e db u m"
  shows "can_view e db u m"
proof (rule view_access_can_view, cases "uses_explicit_case_policy u")
  case True
  with assms show "view_access e u (has_direct_assignment e db (staff_party_of u) m) (has_team_assignment e db (department_of u) m)"
    unfolding can_edit_case_def view_access_def explicit_has_view_access_def Let_def by auto
next
  case False
  with assms partner_super show "view_access e u (has_direct_assignment e db (staff_party_of u) m) (has_team_assignment e db (department_of u) m)"
    unfolding can_edit_case_def view_access_def legacy_has_view_access_def Let_def intersects_iff by auto
qed

lemma invoice_view:
  assumes "can_invoice e db u m"
  shows "can_view e db u m"
proof (rule view_access_can_view, cases "uses_explicit_case_policy u")
  case True
  with assms show "view_access e u (has_direct_assignment e db (staff_party_of u) m) (has_team_assignment e db (department_of u) m)"
    unfolding can_invoice_def view_access_def Let_def by (auto split: if_splits)
next
  case False
  with assms admin_super show "view_access e u (has_direct_assignment e db (staff_party_of u) m) (has_team_assignment e db (department_of u) m)"
    unfolding can_invoice_def view_access_def legacy_has_view_access_def Let_def by (auto split: if_splits)
qed

lemma right_to_view:
  assumes "can_access_matter e db u m a"
    and "uses_explicit_case_policy u \<Longrightarrow> action_of a \<notin> {''assign_staff'', ''delete_case''}"
  shows "can_access_matter e db u m ''view'' \<and> authenticated_active u"
proof -
  note act = can_access_active [OF assms(1)]
  have "can_view e db u m"
    using assms(1)
  proof (cases rule: can_access_cases)
    case assign
    then have "\<not> uses_explicit_case_policy u" using assms(2) by auto
    moreover from assign this have "intersects (get_user_role_names u) ROLE_BUSINESS_SUPER"
      unfolding can_assign_staff_def Let_def using case_assign_super by (auto split: if_splits)
    ultimately show ?thesis by (rule super_view)
  next
    case delete
    then have "\<not> uses_explicit_case_policy u" using assms(2) by auto
    with delete(2) show ?thesis by (auto intro!: super_view)
  qed (auto intro: edit_view invoice_view)
  with act show ?thesis by (simp add: can_access_view)
qed

text \<open>Every right includes the right to view. Who may edit a matter or handle its invoices may also
  view it, whichever policy applies; with the old roles this holds for assigning staff and deleting
  as well. Only active, authenticated users have any right at all.\<close>

theorem rights_include_viewing:
  assumes "can_access_matter e db u m a"
    and "uses_explicit_case_policy u \<Longrightarrow> action_of a \<notin> {''assign_staff'', ''delete_case''}"
  shows "can_access_matter e db u m ''view'' \<and> authenticated_active u"
  using assms by (rule right_to_view)

theorem rights_include_viewing_witness:
  "can_access_matter quiet_perm_env small_db (Some staff_member) ''M1'' ''view''"
proof -
  have "can_access_matter quiet_perm_env small_db (Some staff_member) ''M1'' '' Edit_Case''"
    "\<not> uses_explicit_case_policy (Some staff_member)" by code_simp+
  with rights_include_viewing [of quiet_perm_env small_db "Some staff_member" "''M1''" "'' Edit_Case''"] show ?thesis by simp
qed

text \<open>Relations between matters widen viewing only. For every action but viewing the answer depends
  on the assignments and the staff directory alone: changing families, identifiers, custom fields or
  the table of matters changes nothing.\<close>

theorem relations_grant_viewing_only:
  assumes "action_of a \<noteq> ''view''" and "staff_rows db' = staff_rows db" and "party_staff db' = party_staff db"
  shows "can_access_matter e db' u m a = can_access_matter e db u m a"
proof -
  have d: "has_direct_assignment e db' pid m = has_direct_assignment e db pid m" for pid
    by (simp add: has_direct_assignment_def Let_def assms(2) split: option.splits)
  have t: "has_team_assignment e db' dept m = has_team_assignment e db dept m" for dept
    by (simp add: has_team_assignment_def dept_row_def assms(2,3) split: option.splits)
  show ?thesis
    unfolding can_access_matter_def can_edit_case_def can_assign_staff_def can_invoice_def d t
    using assms(1) by (simp only: action_of_def Let_def if_False)
qed

theorem relations_grant_viewing_only_witness:
  "\<not> can_access_matter quiet_perm_env small_db (Some staff_member) ''M3'' ''edit_case''
   \<and> can_access_matter quiet_perm_env small_db (Some staff_member) ''M3'' ''view''
   \<and> \<not> can_access_matter quiet_perm_env (small_db\<lparr>matter_family := []\<rparr>) (Some staff_member) ''M3'' ''view''"
proof -
  have "\<not> can_access_matter quiet_perm_env (small_db\<lparr>matter_family := []\<rparr>) (Some staff_member) ''M3'' ''edit_case''"
    "can_access_matter quiet_perm_env small_db (Some staff_member) ''M3'' ''view''"
    "\<not> can_access_matter quiet_perm_env (small_db\<lparr>matter_family := []\<rparr>) (Some staff_member) ''M3'' ''view''"
    "action_of ''edit_case'' \<noteq> ''view''"
    by code_simp+
  with relations_grant_viewing_only [of "''edit_case''" "small_db\<lparr>matter_family := []\<rparr>" small_db quiet_perm_env "Some staff_member" "''M3''"]
  show ?thesis by simp
qed

section \<open>Granting a role\<close>

definition grant :: "role \<Rightarrow> user \<Rightarrow> user" where
  "grant r v = v\<lparr>user_roles := user_roles v @ [r]\<rparr>"

lemma role_names_grant: "set (role_names v) \<subseteq> set (role_names (grant r v))"
  by (auto simp: role_names_def grant_def)

lemma has_role_grant: "has_role v n \<Longrightarrow> has_role (grant r v) n"
  using role_names_grant by (auto simp: has_role_def Let_def)

lemma menu_grant: "legacy_role_has_menu_permission (role_names v) p \<Longrightarrow> legacy_role_has_menu_permission (role_names (grant r v)) p"
  using role_names_grant unfolding legacy_role_has_menu_permission_def list_ex_iff by blast

lemma explicit_has_roles: "uses_explicit_case_policy (Some v) \<Longrightarrow> user_roles v \<noteq> []"
  by (auto simp: uses_explicit_case_policy_def user_permission_keys_def Let_def)

lemma explicit_grant: "uses_explicit_case_policy (Some v) \<Longrightarrow> uses_explicit_case_policy (Some (grant r v))"
  by (auto simp: uses_explicit_case_policy_def user_permission_keys_def grant_def Let_def split: if_splits)

lemma key_grant:
  assumes "uses_explicit_case_policy (Some v)" and "user_has_permission_key e (Some v) k"
  shows "user_has_permission_key e (Some (grant r v)) k"
proof -
  have "has_permission e v k \<and> user_authenticated v" using assms(2) by (simp add: user_has_permission_key_def)
  moreover note explicit_has_roles [OF assms(1)]
  ultimately have "has_permission e (grant r v) k"
    unfolding has_permission_def Let_def using has_role_grant [of v "''admin''" r] menu_grant [of v "strip k" r]
    by (auto simp: grant_def)
  with assms(2) show ?thesis by (simp add: user_has_permission_key_def grant_def)
qed

lemma admin_grant: "is_admin (Some v) \<Longrightarrow> is_admin (Some (grant r v))"
  using has_role_grant [of v "''admin''" r] role_names_grant [of v r] by (auto simp: is_admin_def grant_def)

lemma grant_keeps [simp]:
  "authenticated_active (Some (grant r v)) = authenticated_active (Some v)"
  "staff_party_of (Some (grant r v)) = staff_party_of (Some v)"
  "department_of (Some (grant r v)) = department_of (Some v)"
  by (simp_all add: grant_def authenticated_active_def staff_party_of_def department_of_def)

lemma view_access_grant:
  assumes "uses_explicit_case_policy (Some v)" and "view_access e (Some v) d t"
  shows "view_access e (Some (grant r v)) d t"
  using assms explicit_grant [OF assms(1), of r] key_grant [OF assms(1), of e _ r]
  unfolding view_access_def explicit_has_view_access_def by auto

text \<open>Under explicit permissions granting another role never takes access away: whatever action a
  user may perform on a matter stays allowed when a role is added to the user, and the list of matters
  of the user does not shrink either.\<close>

theorem granting_a_role_keeps_access:
  assumes "uses_explicit_case_policy (Some v)"
  shows "(can_access_matter e db (Some v) m a \<longrightarrow> can_access_matter e db (Some (grant r v)) m a)
    \<and> (set (policy_accessible_matter_ids e db (Some v)) \<subseteq> set (map mr_id (matters db)) \<longrightarrow>
       set (policy_accessible_matter_ids e db (Some v)) \<subseteq> set (policy_accessible_matter_ids e db (Some (grant r v))))"
proof (intro conjI impI)
  note key = key_grant [OF assms, of e _ r] and expl = explicit_grant [OF assms, of r]
  assume acc: "can_access_matter e db (Some v) m a"
  have "authenticated_active (Some v) \<and> m \<noteq> []" by (rule can_access_active [OF acc])
  moreover have "can_view e db (Some v) m \<Longrightarrow> can_view e db (Some (grant r v)) m"
    using view_access_grant [OF assms, of e _ _ r] unfolding can_view_def Let_def grant_keeps by (auto split: if_splits)
  moreover have "can_edit_case e db (Some v) m \<Longrightarrow> can_edit_case e db (Some (grant r v)) m"
    using key expl assms unfolding can_edit_case_def Let_def grant_keeps by auto
  moreover have "can_assign_staff e db (Some v) m \<Longrightarrow> can_assign_staff e db (Some (grant r v)) m"
    using key expl assms unfolding can_assign_staff_def Let_def grant_keeps by auto
  moreover have "can_invoice e db (Some v) m \<Longrightarrow> can_invoice e db (Some (grant r v)) m"
    using key expl assms admin_grant [of v r] view_access_grant [OF assms, of e _ _ r]
    unfolding can_invoice_def Let_def grant_keeps view_access_def by (auto split: if_splits)
  ultimately show "can_access_matter e db (Some (grant r v)) m a"
    using acc expl key assms unfolding can_access_matter_def Let_def grant_keeps by (auto split: if_splits)
next
  note key = key_grant [OF assms, of e _ r] and expl = explicit_grant [OF assms, of r]
  assume stored: "set (policy_accessible_matter_ids e db (Some v)) \<subseteq> set (map mr_id (matters db))"
  have auth: "authenticated (Some (grant r v)) = authenticated (Some v)" by (simp add: authenticated_def grant_def)
  show "set (policy_accessible_matter_ids e db (Some v)) \<subseteq> set (policy_accessible_matter_ids e db (Some (grant r v)))"
  proof (cases "can_manage_case_globally e (Some (grant r v))")
    case True
    with stored auth show ?thesis by (auto simp: policy_accessible_matter_ids_def)
  next
    case False
    with key expl assms auth have "\<not> can_manage_case_globally e (Some v)" by (auto simp: can_manage_case_globally_def split: if_splits)
    with False key expl assms auth show ?thesis
      unfolding policy_accessible_matter_ids_def Let_def grant_keeps by (auto split: option.splits)
  qed
qed

definition editor_role :: role where
  "editor_role = \<lparr>role_name = ''editor'', role_permissions = [''case.edit.assigned'']\<rparr>"

definition menu_role :: role where
  "menu_role = \<lparr>role_name = ''reader'', role_permissions = [''menu.cases'']\<rparr>"

theorem granting_a_role_keeps_access_witness:
  "can_access_matter quiet_perm_env small_db (Some (grant menu_role (grant editor_role staff_member))) ''M1'' ''edit_case''"
proof -
  have "uses_explicit_case_policy (Some (grant editor_role staff_member))"
    "can_access_matter quiet_perm_env small_db (Some (grant editor_role staff_member)) ''M1'' ''edit_case''" by code_simp+
  with granting_a_role_keeps_access [of "grant editor_role staff_member" quiet_perm_env small_db "''M1''" "''edit_case''" menu_role]
  show ?thesis by blast
qed

text \<open>The two policies that the keys of a user can make disagree: a user who may only edit assigned
  matters can open them but finds none in the lists, and a user who may only assign staff anywhere
  finds every matter in the lists and can open none.\<close>

lemma incoherent_keys_disagree:
  "policy_accessible_matter_ids quiet_perm_env small_db (Some (grant editor_role staff_member)) = []
   \<and> can_access_matter quiet_perm_env small_db (Some (grant editor_role staff_member)) ''M1'' ''view''
   \<and> policy_accessible_matter_ids quiet_perm_env small_db
       (Some (grant \<lparr>role_name = ''assigner'', role_permissions = [''case.assign.all'']\<rparr> staff_member)) = [''M1'', ''M2'', ''M3'']
   \<and> \<not> can_access_matter quiet_perm_env small_db
       (Some (grant \<lparr>role_name = ''assigner'', role_permissions = [''case.assign.all'']\<rparr> staff_member)) ''M3'' ''view''"
proof (intro conjI)
  show "policy_accessible_matter_ids quiet_perm_env small_db (Some (grant editor_role staff_member)) = []" by code_simp
  show "can_access_matter quiet_perm_env small_db (Some (grant editor_role staff_member)) ''M1'' ''view''" by code_simp
  show "policy_accessible_matter_ids quiet_perm_env small_db
       (Some (grant \<lparr>role_name = ''assigner'', role_permissions = [''case.assign.all'']\<rparr> staff_member)) = [''M1'', ''M2'', ''M3'']"
    by code_simp
  show "\<not> can_access_matter quiet_perm_env small_db
       (Some (grant \<lparr>role_name = ''assigner'', role_permissions = [''case.assign.all'']\<rparr> staff_member)) ''M3'' ''view''"
    by code_simp
qed



end
