(* ===== verification/Policy_Engine.thy ===== *)
theory Policy_Engine
  imports Matter_Access
begin

text \<open>
  The policy engine: the detector and the helpers for raw SQL (\<open>app/utils/policy_sql.py\<close>), the guard that
  runs before every statement and the filter of ORM queries (\<open>app/security/policy_engine.py\<close>).

  The regular expressions are written out as matchers with the choices in the order in which the
  expression tries them. The per-request object \<open>g\<close> of the web framework is the record \<open>request_g\<close>;
  the sub-select it keeps is a function of the tables, evaluated when a statement runs.
\<close>

section \<open>Detecting restricted tables in raw SQL\<close>

definition RAW_SQL_GUARD_TABLE_TOKENS :: "string list" where
  "RAW_SQL_GUARD_TABLE_TOKENS = [''matter'', ''docket'', ''workflow'', ''file_asset'', ''communication'', ''office_action'']"

text \<open>\<open>_SQL_BLOCK_COMMENT_RE\<close> as it is written: a slash, any number of backslashes, anything, any number of
  backslashes and the next slash.\<close>

function strip_block_comments :: "string \<Rightarrow> string" where
  "strip_block_comments [] = []"
| "strip_block_comments (c # cs) =
     (if c = CHR ''/'' \<and> CHR ''/'' \<in> set cs
      then CHR '' '' # strip_block_comments (tl (dropWhile (\<lambda>x. x \<noteq> CHR ''/'') cs))
      else c # strip_block_comments cs)"
  by pat_completeness auto

termination
proof (relation "measure length", goal_cases)
  case (2 c cs)
  have "length (dropWhile (\<lambda>x. x \<noteq> CHR ''/'') cs) \<le> length cs" by (rule length_dropWhile_le)
  then have "length (tl (dropWhile (\<lambda>x. x \<noteq> CHR ''/'') cs)) \<le> length cs" by simp
  then show ?case by (simp del: length_tl)
qed simp_all

function (sequential) strip_line_comments :: "string \<Rightarrow> string" where
  "strip_line_comments (a # b # cs) =
     (if a = CHR ''-'' \<and> b = CHR ''-'' then CHR '' '' # strip_line_comments (dropWhile (\<lambda>x. x \<noteq> CHR 0x0A) cs)
      else a # strip_line_comments (b # cs))"
| "strip_line_comments cs = cs"
  by pat_completeness auto

termination
  by (relation "measure length") (auto simp: less_Suc_eq_le intro: le_SucI length_dropWhile_le)

definition word_char :: "char \<Rightarrow> bool" where
  "word_char c \<longleftrightarrow> py_alnum c \<or> c = CHR ''_''"

definition ident_char :: "char \<Rightarrow> bool" where
  "ident_char c \<longleftrightarrow> ascii_alnum c \<or> c \<in> {CHR ''_'', CHR ''.'', CHR 0x22, CHR 0x60, CHR ''['', CHR '']''}"

definition take_word :: "string \<Rightarrow> string \<Rightarrow> string option" where
  "take_word w s = (if lower (take (length w) s) = w then Some (drop (length w) s) else None)"

text \<open>\<open>\s+\<close>.\<close>

definition take_spaces :: "string \<Rightarrow> string option" where
  "take_spaces s = (case s of [] \<Rightarrow> None | c # cs \<Rightarrow> if is_space c then Some (dropWhile is_space cs) else None)"

text \<open>A keyword of one or two words and the white space after it; the boundary \<open>\b\<close> before the white space
  always holds.\<close>

definition take_keyword :: "string list \<Rightarrow> string \<Rightarrow> string option" where
  "take_keyword ws s = fold (\<lambda>w r. Option.bind r (\<lambda>t. Option.bind (take_word w t) take_spaces)) ws (Some s)"

definition TABLE_KEYWORDS :: "string list list" where
  "TABLE_KEYWORDS = [[''insert'', ''into''], [''merge'', ''into''], [''update''], [''delete'', ''from''], [''from''], [''join''], [''using'']]"

definition skip_word :: "string \<Rightarrow> string \<Rightarrow> string list" where
  "skip_word w s = (case take_keyword [w] s of Some t \<Rightarrow> [t, s] | None \<Rightarrow> [s])"

definition take_ident :: "string \<Rightarrow> (string \<times> string) option" where
  "take_ident s = (let i = takeWhile ident_char s in if i = [] then None else Some (i, drop (length i) s))"

definition first_some :: "('a \<Rightarrow> 'b option) \<Rightarrow> 'a list \<Rightarrow> 'b option" where
  "first_some f xs = (case List.map_filter f xs of [] \<Rightarrow> None | y # ys \<Rightarrow> Some y)"

text \<open>One match of \<open>_SQL_TABLE_REF_RE\<close> at the start of a text whose previous character is given: the
  identifier and the text after it.\<close>

definition match_table_ref :: "char option \<Rightarrow> string \<Rightarrow> (string \<times> string) option" where
  "match_table_ref prev s =
     (if (case prev of None \<Rightarrow> False | Some c \<Rightarrow> word_char c) then None
      else first_some (\<lambda>kw. case take_keyword kw s of
             None \<Rightarrow> None
           | Some t \<Rightarrow> first_some take_ident (concat (map (skip_word ''lateral'') (skip_word ''only'' t)))) TABLE_KEYWORDS)"

lemma first_some_Some: "first_some f xs = Some y \<Longrightarrow> \<exists>x \<in> set xs. f x = Some y"
proof -
  assume "first_some f xs = Some y"
  then have "y \<in> set (List.map_filter f xs)" by (auto simp: first_some_def split: list.splits)
  then show ?thesis by (auto simp: List.map_filter_def)
qed

lemma take_word_length: "take_word w s = Some t \<Longrightarrow> length t \<le> length s"
  by (auto simp: take_word_def split: if_splits)

lemma take_spaces_length: "take_spaces s = Some t \<Longrightarrow> length t < length s"
  by (auto simp: take_spaces_def less_Suc_eq_le length_dropWhile_le split: list.splits if_splits)

lemma take_keyword_None: "fold (\<lambda>w r. Option.bind r (\<lambda>t. Option.bind (take_word w t) take_spaces)) ws None = None"
  by (induction ws) simp_all

lemma take_keyword_length: "ws \<noteq> [] \<Longrightarrow> take_keyword ws s = Some t \<Longrightarrow> length t < length s"
proof (induction ws arbitrary: s)
  case (Cons w ws)
  from Cons.prems obtain a b where ab: "take_word w s = Some a" "take_spaces a = Some b" and rest: "take_keyword ws b = Some t"
    by (cases "take_word w s"; cases "take_spaces (the (take_word w s))") (auto simp: take_keyword_def take_keyword_None)
  have b: "length b < length s" using take_word_length [OF ab(1)] take_spaces_length [OF ab(2)] by simp
  show ?case
  proof (cases "ws = []")
    case True
    with rest b show ?thesis by (simp add: take_keyword_def)
  next
    case False
    from Cons.IH [OF False rest] b show ?thesis by simp
  qed
qed simp

lemma skip_word_length: "t \<in> set (skip_word w s) \<Longrightarrow> length t \<le> length s"
  by (auto simp: skip_word_def less_imp_le dest: take_keyword_length [rotated] split: option.splits)

lemma match_table_ref_length: "match_table_ref prev s = Some (i, t) \<Longrightarrow> length t < length s"
proof -
  assume m: "match_table_ref prev s = Some (i, t)"
  then obtain kw a where kw: "kw \<in> set TABLE_KEYWORDS" "take_keyword kw s = Some a"
    and id: "first_some take_ident (concat (map (skip_word ''lateral'') (skip_word ''only'' a))) = Some (i, t)"
    by (auto simp: match_table_ref_def split: if_splits option.splits dest!: first_some_Some)
  from id obtain b c where "b \<in> set (skip_word ''only'' a)" "c \<in> set (skip_word ''lateral'' b)" "take_ident c = Some (i, t)"
    by (auto dest!: first_some_Some)
  then have "length t \<le> length a" using skip_word_length [of b] skip_word_length [of c]
    by (fastforce simp: take_ident_def Let_def split: if_splits)
  moreover have "kw \<noteq> []" using kw(1) by (auto simp: TABLE_KEYWORDS_def)
  ultimately show ?thesis using take_keyword_length [OF _ kw(2)] by simp
qed

text \<open>\<open>finditer\<close>: the identifiers of all matches, from left to right without overlap.\<close>

function table_idents :: "char option \<Rightarrow> string \<Rightarrow> string list" where
  "table_idents prev s =
     (case match_table_ref prev s of
        Some (i, t) \<Rightarrow> i # table_idents (Some (last i)) t
      | None \<Rightarrow> (case s of [] \<Rightarrow> [] | c # cs \<Rightarrow> table_idents (Some c) cs))"
  by pat_completeness auto

termination
  by (relation "measure (\<lambda>(_, s). length s)") (auto dest: match_table_ref_length)

declare table_idents.simps [simp del]

definition restricted_ident :: "string \<Rightarrow> bool" where
  "restricted_ident ident \<longleftrightarrow>
     (let i = strip ident;
          tail = lower (remove_char (CHR '']'') (remove_char (CHR ''['') (remove_char (CHR 0x60) (remove_char (CHR 0x22)
                   (strip (last (split_on (CHR ''.'') i))))))) in
      i \<noteq> [] \<and> list_ex (\<lambda>tok. str_contains tok tail) RAW_SQL_GUARD_TABLE_TOKENS)"

definition sql_restricted :: "string \<Rightarrow> bool" where
  "sql_restricted sql \<longleftrightarrow> list_ex restricted_ident (table_idents None (strip_line_comments (strip_block_comments sql)))"

section \<open>Statements and the raw SQL guard\<close>

text \<open>The options of a statement or of a connection that the guard reads.\<close>

record exec_options =
  policy_bypass :: bool
  bypass_reason :: "string option"
  bypass_scope :: "string option"

definition no_options :: exec_options where
  "no_options = \<lparr>policy_bypass = False, bypass_reason = None, bypass_scope = None\<rparr>"

text \<open>A statement: raw text, or an expression of the query builder.\<close>

record statement =
  raw_text :: "string option"
  stmt_options :: exec_options

definition looks_like_restricted_raw_sql :: "statement \<Rightarrow> bool" where
  "looks_like_restricted_raw_sql st =
     (case raw_text st of None \<Rightarrow> False | Some sql \<Rightarrow> sql \<noteq> [] \<and> sql_restricted sql)"

definition sa_text :: "string \<Rightarrow> statement" where
  "sa_text sql = \<lparr>raw_text = Some sql, stmt_options = no_options\<rparr>"

definition policy_text :: "string \<Rightarrow> statement" where
  "policy_text sql =
     (let clause = sa_text sql in
      if looks_like_restricted_raw_sql clause
      then clause\<lparr>stmt_options := \<lparr>policy_bypass = True, bypass_reason = Some ''legacy_policy_text_auto_bypass'',
             bypass_scope = Some ''restricted_table_auto_detected''\<rparr>\<rparr>
      else clause)"

datatype bypass_error = ReasonRequired | ScopeRequired

definition policy_bypass_text :: "string \<Rightarrow> string option \<Rightarrow> string option \<Rightarrow> bypass_error + statement" where
  "policy_bypass_text sql reason scope =
     (let r = strip (or_empty reason); s = strip (or_empty scope) in
      if r = [] then Inl ReasonRequired
      else if s = [] then Inl ScopeRequired
      else Inr ((sa_text sql)\<lparr>stmt_options := \<lparr>policy_bypass = True, bypass_reason = Some r, bypass_scope = Some s\<rparr>\<rparr>))"

datatype guard_mode = Report | Enforce | Off

text \<open>The mode is read once, when the guard is installed; another value stops the start-up.\<close>

definition install_raw_sql_guard :: "string option \<Rightarrow> guard_mode option" where
  "install_raw_sql_guard cfg =
     (let mode = lower (strip (case cfg of None \<Rightarrow> ''report'' | Some s \<Rightarrow> if s = [] then ''report'' else s)) in
      if mode = ''report'' then Some Report else if mode = ''enforce'' then Some Enforce
      else if mode = ''off'' then Some Off else None)"

datatype guard_outcome = Executes | BypassWithoutReason | RestrictedRefused

definition either :: "string option \<Rightarrow> string option \<Rightarrow> string" where
  "either a b = (if or_empty a \<noteq> [] then or_empty a else or_empty b)"

text \<open>\<open>_before_execute\<close>, with the number of bypasses counted so far.\<close>

definition before_execute :: "guard_mode \<Rightarrow> bool \<Rightarrow> exec_options \<Rightarrow> statement \<Rightarrow> int \<Rightarrow> guard_outcome \<times> int" where
  "before_execute mode reason_required opts st bypasses =
     (if mode = Off then (Executes, bypasses)
      else if policy_bypass opts \<or> policy_bypass (stmt_options st)
      then
        let reason = either (bypass_reason opts) (bypass_reason (stmt_options st));
            scope = either (bypass_scope opts) (bypass_scope (stmt_options st)) in
        if reason_required \<and> (reason = [] \<or> scope = []) then (BypassWithoutReason, bypasses + 1)
        else (Executes, bypasses + 1)
      else if looks_like_restricted_raw_sql st then (if mode = Enforce then RestrictedRefused else Executes, bypasses)
      else (Executes, bypasses))"

section \<open>The filter of ORM queries\<close>

type_synonym matter_filter = "matter_db \<Rightarrow> string list"

record request_g =
  g_applying :: bool
  g_allowed :: "matter_filter option"
  g_opts :: "matter_filter option"

definition fresh_g :: request_g where
  "fresh_g = \<lparr>g_applying = False, g_allowed = None, g_opts = None\<rparr>"

record request_ctx =
  rc_present :: bool
  rc_policy_enabled :: bool
  rc_session_user :: "string option"
  rc_users :: "int \<Rightarrow> user option"

text \<open>The user of the session, when the filter applies to them.\<close>

definition filtered_user :: "perm_env \<Rightarrow> request_ctx \<Rightarrow> user option" where
  "filtered_user e ctx =
     (case Option.bind (rc_session_user ctx) py_int of
        None \<Rightarrow> None
      | Some uid \<Rightarrow>
          (case rc_users ctx uid of
             None \<Rightarrow> None
           | Some v \<Rightarrow> if user_active v \<noteq> Some True then None
                     else if can_manage_case_globally e (Some v) then None else Some v))"

text \<open>\<open>_apply_policy\<close>: the restriction added to the statement, if any, and the request object after it.
  Queries that the hook runs itself find \<open>g_applying\<close> set and pass unchanged.\<close>

definition apply_policy :: "perm_env \<Rightarrow> request_ctx \<Rightarrow> bool \<Rightarrow> bool \<Rightarrow> request_g \<Rightarrow> matter_filter option \<times> request_g" where
  "apply_policy e ctx is_select is_orm g =
     (if \<not> is_select \<or> \<not> is_orm \<or> \<not> rc_present ctx \<or> \<not> rc_policy_enabled ctx \<or> g_applying g then (None, g)
      else case filtered_user e ctx of
        None \<Rightarrow> (None, g\<lparr>g_applying := False\<rparr>)
      | Some v \<Rightarrow>
          let allowed = (case g_allowed g of Some a \<Rightarrow> a | None \<Rightarrow> \<lambda>db. policy_accessible_matter_ids e db (Some v));
              opts = (case g_opts g of Some f \<Rightarrow> f | None \<Rightarrow> allowed) in
          (Some opts, g\<lparr>g_allowed := Some allowed, g_opts := Some opts, g_applying := False\<rparr>))"

text \<open>The rows of a matter-scoped model that the statement returns.\<close>

definition visible_rows :: "('r \<Rightarrow> string option) \<Rightarrow> matter_filter option \<Rightarrow> matter_db \<Rightarrow> 'r list \<Rightarrow> 'r list" where
  "visible_rows matter_of crit db rows =
     (case crit of None \<Rightarrow> rows
      | Some f \<Rightarrow> filter (\<lambda>r. case matter_of r of None \<Rightarrow> False | Some m \<Rightarrow> m \<in> set (f db)) rows)"

text \<open>The ORM statements of one request: each runs against the tables of its moment.\<close>

fun run_selects ::
  "perm_env \<Rightarrow> request_ctx \<Rightarrow> ('r \<Rightarrow> string option) \<Rightarrow> (matter_db \<times> 'r list) list \<Rightarrow> request_g \<Rightarrow> 'r list list \<times> request_g"
where
  "run_selects e ctx matter_of [] g = ([], g)"
| "run_selects e ctx matter_of ((db, rows) # qs) g =
     (case apply_policy e ctx True True g of (crit, g1) \<Rightarrow>
        case run_selects e ctx matter_of qs g1 of (results, g2) \<Rightarrow> (visible_rows matter_of crit db rows # results, g2))"

section \<open>The guard and its helpers\<close>

text \<open>The detector on some statements. The last one reads a division as a comment, so the table in
  between is not seen.\<close>

lemma detects_qualified_table: "sql_restricted ''SELECT * FROM ipm.Matter m''"
  by code_simp

lemma detects_quoted_table: "sql_restricted ''delete  from only [Docket]''"
  by code_simp

lemma ignores_line_comment: "\<not> sql_restricted ''SELECT 1 -- FROM matter''"
  by code_simp

lemma division_hides_table: "\<not> sql_restricted ''SELECT a/b FROM matter WHERE c/d > 1''"
  by code_simp

text \<open>The raw SQL guard. In the enforcing mode a raw statement about a restricted table runs only as a
  declared bypass, and every bypass is counted; the helpers \<open>policy_text\<close> and \<open>policy_bypass_text\<close> build
  statements that the guard accepts in every mode, with or without required reasons, and a bypass
  without a reason or a scope cannot be built.\<close>

theorem raw_sql_guard:
  "(looks_like_restricted_raw_sql st \<and> fst (before_execute Enforce req opts st n) = Executes \<longrightarrow>
      (policy_bypass opts \<or> policy_bypass (stmt_options st)) \<and> snd (before_execute Enforce req opts st n) = n + 1)
   \<and> fst (before_execute mode req no_options (policy_text sql) n) = Executes
   \<and> (case policy_bypass_text sql reason scope of
        Inr st' \<Rightarrow> fst (before_execute mode req no_options st' n) = Executes
      | Inl err \<Rightarrow> strip (or_empty reason) = [] \<or> strip (or_empty scope) = [])"
  by (auto simp: before_execute_def policy_text_def policy_bypass_text_def no_options_def either_def sa_text_def Let_def
      split: if_splits sum.splits)

theorem raw_sql_guard_witness:
  "looks_like_restricted_raw_sql (sa_text ''update matter'')
   \<and> snd (before_execute Enforce True \<lparr>policy_bypass = True, bypass_reason = Some ''r'', bypass_scope = Some ''s''\<rparr> (sa_text ''update matter'') 4) = 5"
proof -
  let ?o = "\<lparr>policy_bypass = True, bypass_reason = Some ''r'', bypass_scope = Some ''s''\<rparr>"
  have "looks_like_restricted_raw_sql (sa_text ''update matter'')"
    "fst (before_execute Enforce True ?o (sa_text ''update matter'') 4) = Executes" by code_simp+
  with raw_sql_guard [of "sa_text ''update matter''" True ?o 4] show ?thesis by simp
qed

section \<open>The filter shows only matters that can be opened\<close>

definition g_filters_for :: "perm_env \<Rightarrow> user \<Rightarrow> request_g \<Rightarrow> bool" where
  "g_filters_for e v g \<longleftrightarrow> \<not> g_applying g
     \<and> g_allowed g \<in> {None, Some (\<lambda>db. policy_accessible_matter_ids e db (Some v))}
     \<and> g_opts g \<in> {None, Some (\<lambda>db. policy_accessible_matter_ids e db (Some v))}"

lemma apply_policy_filters:
  assumes "rc_present ctx" and "rc_policy_enabled ctx" and "filtered_user e ctx = Some v" and "g_filters_for e v g"
  obtains g' where "apply_policy e ctx True True g = (Some (\<lambda>db. policy_accessible_matter_ids e db (Some v)), g')"
    and "g_filters_for e v g'"
proof -
  from assms(4) have "(case g_allowed g of Some a \<Rightarrow> a | None \<Rightarrow> \<lambda>db. policy_accessible_matter_ids e db (Some v))
      = (\<lambda>db. policy_accessible_matter_ids e db (Some v))"
    and "(case g_opts g of Some f \<Rightarrow> f | None \<Rightarrow> \<lambda>db. policy_accessible_matter_ids e db (Some v))
      = (\<lambda>db. policy_accessible_matter_ids e db (Some v))"
    by (auto simp: g_filters_for_def)
  with assms that show ?thesis by (simp add: apply_policy_def g_filters_for_def Let_def)
qed

lemma run_selects_filter:
  assumes "rc_present ctx" and "rc_policy_enabled ctx" and "filtered_user e ctx = Some v"
  shows "g_filters_for e v g \<Longrightarrow> fst (run_selects e ctx matter_of qs g) =
     map (\<lambda>(db, rows). visible_rows matter_of (Some (\<lambda>db. policy_accessible_matter_ids e db (Some v))) db rows) qs
     \<and> g_filters_for e v (snd (run_selects e ctx matter_of qs g))"
proof (induction qs arbitrary: g)
  case (Cons q qs)
  obtain db rows where q: "q = (db, rows)" by fastforce
  obtain g' where g': "apply_policy e ctx True True g = (Some (\<lambda>db. policy_accessible_matter_ids e db (Some v)), g')"
    "g_filters_for e v g'" by (rule apply_policy_filters [OF assms Cons.prems])
  show ?case using Cons.IH [OF g'(2)] by (simp add: q g'(1) case_prod_beta)
qed simp

lemma filtered_user_active:
  assumes "filtered_user e ctx = Some v" and "user_authenticated v"
  shows "authenticated_active (Some v)"
  using assms by (auto simp: filtered_user_def authenticated_active_def split: option.splits if_splits)

text \<open>C11: ORM queries show only matters that can be opened. In a request with the policy engine on, for a
  logged-in active user who does not manage all cases, every ORM query of the request over a
  matter-scoped table returns only rows of the table, and the stored matter of each returned row passes the check for
  viewing at that moment (when edit and assignment rights come with view rights and the
  assignment queries work), and the marker against recursion is off again afterwards.\<close>

theorem orm_queries_show_openable_matters:
  assumes "rc_present ctx" and "rc_policy_enabled ctx" and "filtered_user e ctx = Some v" and "user_authenticated v"
    and "uses_explicit_case_policy (Some v) \<Longrightarrow> coherent_keys e (Some v)"
    and "\<not> query_fails e ''permissions._has_direct_assignment''" and "\<not> query_fails e ''permissions._has_team_assignment''"
    and "run_selects e ctx matter_of qs fresh_g = (results, g')"
    and "i < length qs" and "qs ! i = (db, rows)" and "r \<in> set (results ! i)"
    and "matter_of r = Some m" and "m \<noteq> []" and "m \<in> set (map mr_id (matters db))"
  shows "r \<in> set rows \<and> can_access_matter e db (Some v) m ''view'' \<and> \<not> g_applying g'"
proof -
  have g: "g_filters_for e v fresh_g" by (simp add: g_filters_for_def fresh_g_def)
  note run = run_selects_filter [OF assms(1-3) g, of matter_of qs]
  from run assms(8) have "results = map (\<lambda>(db, rows). visible_rows matter_of (Some (\<lambda>db. policy_accessible_matter_ids e db (Some v))) db rows) qs"
    by simp
  with assms(9,10) have "results ! i = visible_rows matter_of (Some (\<lambda>db. policy_accessible_matter_ids e db (Some v))) db rows"
    by simp
  with assms(11,12) have "r \<in> set rows" "m \<in> set (policy_accessible_matter_ids e db (Some v))"
    by (auto simp: visible_rows_def)
  moreover have "\<not> g_applying g'" using run assms(8) by (simp add: g_filters_for_def)
  ultimately show ?thesis
    using listed_can_be_opened [OF filtered_user_active [OF assms(3,4)] assms(5-7,14,13)] by simp
qed

definition staff_request :: request_ctx where
  "staff_request = \<lparr>rc_present = True, rc_policy_enabled = True, rc_session_user = Some ''7'',
     rc_users = (\<lambda>i. if i = 7 then Some staff_member else None)\<rparr>"

theorem orm_queries_show_openable_matters_witness:
  "fst (run_selects quiet_perm_env staff_request Some [(small_db, [''M1'', ''M3'']), (small_db, [''M3'', ''M2''])] fresh_g) = [[''M1''], [''M2'']]
   \<and> can_access_matter quiet_perm_env small_db (Some staff_member) ''M2'' ''view''"
proof -
  let ?qs = "[(small_db, [''M1'', ''M3'']), (small_db, [''M3'', ''M2''])]"
  obtain g' where r: "run_selects quiet_perm_env staff_request Some ?qs fresh_g = ([[''M1''], [''M2'']], g')"
  proof -
    have "fst (run_selects quiet_perm_env staff_request Some ?qs fresh_g) = [[''M1''], [''M2'']]" by code_simp
    then show ?thesis using that by (metis prod.collapse)
  qed
  have u: "filtered_user quiet_perm_env staff_request = Some staff_member" "\<not> uses_explicit_case_policy (Some staff_member)"
    "user_authenticated staff_member" "rc_present staff_request" "rc_policy_enabled staff_request"
    "''M2'' \<in> set (map mr_id (matters small_db))" by code_simp+
  have q: "\<not> query_fails quiet_perm_env k" for k by (simp add: quiet_perm_env_def)
  have "can_access_matter quiet_perm_env small_db (Some staff_member) ''M2'' ''view''"
    using orm_queries_show_openable_matters [OF u(4,5,1,3) _ q q r, of 1 small_db "[''M3'', ''M2'']" "''M2''" "''M2''"] u(2,6)
    by simp
  with r show ?thesis by simp
qed

end
