(* ===== verification/Zip_Safety.thy ===== *)
theory Zip_Safety
  imports Complex_Main Config_Service
begin

text \<open>
  Limits on the extraction of ZIP archives (\<open>app/services/uploads/zip_safety.py\<close>).

  An archive is the list of the entries of its directory in their order, or \<open>None\<close> when the data is not
  an archive. An entry has its declared sizes, the stream its data decompresses to and whether its
  checksum agrees; as in the standard library, reading returns at most the declared size, and a name
  that occurs twice stands for its last entry. Ratios are rational numbers; how Python reads a
  floating-point number from a text is an argument.
\<close>

section \<open>Archives\<close>

record zip_entry =
  ze_name :: string
  ze_size :: nat
  ze_compressed :: nat
  ze_stream :: string
  ze_checksum_ok :: bool

type_synonym archive = "zip_entry list option"

datatype zip_error = TooManyEntries nat | TotalTooLarge nat | SuspiciousRatio string | FileTooLarge nat | InvalidZip
  | BadZipFile | NoSuchName string

text \<open>\<open>ZipFile.getinfo\<close> and \<open>ZipFile.read\<close>.\<close>

definition getinfo :: "zip_entry list \<Rightarrow> string \<Rightarrow> zip_entry option" where
  "getinfo es name = find (\<lambda>z. ze_name z = name) (rev es)"

definition zip_read :: "zip_entry list \<Rightarrow> string \<Rightarrow> zip_error + string" where
  "zip_read es name =
     (case getinfo es name of
        None \<Rightarrow> Inl (NoSuchName name)
      | Some z \<Rightarrow> if ze_checksum_ok z then Inr (take (ze_size z) (ze_stream z)) else Inl BadZipFile)"

section \<open>Limits\<close>

record zip_limits =
  max_entries :: int
  max_total_size :: int
  max_single_file :: int
  max_compression_ratio :: rat

definition default_limits :: zip_limits where
  "default_limits = \<lparr>max_entries = 50, max_total_size = 100 * 1024 * 1024, max_single_file = 20 * 1024 * 1024, max_compression_ratio = 100\<rparr>"

text \<open>The value of a key in the application's configuration or else in the environment.\<close>

definition cfg_lookup :: "config_env \<Rightarrow> string \<Rightarrow> cfg_value option" where
  "cfg_lookup env k =
     (let set_value = (\<lambda>v. v \<noteq> None \<and> v \<noteq> Some (CText []));
          v = (case app_config env k of None \<Rightarrow> None | Some x \<Rightarrow> x);
          w = (if set_value v then v else map_option CText (environ env k)) in
      if set_value w then w else None)"

fun cfg_number :: "(cfg_value \<Rightarrow> 'n option) \<Rightarrow> config_env \<Rightarrow> string list \<Rightarrow> 'n \<Rightarrow> 'n" where
  "cfg_number conv env [] dflt = dflt"
| "cfg_number conv env (k # ks) dflt =
     (case Option.bind (cfg_lookup env k) conv of Some n \<Rightarrow> n | None \<Rightarrow> cfg_number conv env ks dflt)"

definition get_limits :: "(cfg_value \<Rightarrow> rat option) \<Rightarrow> config_env \<Rightarrow> zip_limits option \<Rightarrow> zip_limits" where
  "get_limits py_float env given =
     (case given of
        Some l \<Rightarrow> l
      | None \<Rightarrow>
          if in_context env
          then \<lparr>max_entries = cfg_number cfg_int env [''ZIP_MAX_ENTRIES''] 50,
                max_total_size = cfg_number cfg_int env [''ZIP_MAX_TOTAL_SIZE'', ''ZIP_MAX_TOTAL_UNCOMPRESSED''] (100 * 1024 * 1024),
                max_single_file = cfg_number cfg_int env [''ZIP_MAX_SINGLE_FILE'', ''ZIP_MAX_SINGLE_UNCOMPRESSED''] (20 * 1024 * 1024),
                max_compression_ratio = cfg_number py_float env [''ZIP_MAX_COMPRESSION_RATIO''] 100\<rparr>
          else default_limits)"

section \<open>Validation and extraction\<close>

definition too_dense :: "rat \<Rightarrow> zip_entry \<Rightarrow> bool" where
  "too_dense max_ratio z \<longleftrightarrow> ze_size z \<noteq> 0 \<and> 0 < ze_compressed z \<and> max_ratio < of_nat (ze_size z) / of_nat (ze_compressed z)"

definition validate_zip :: "zip_limits \<Rightarrow> zip_entry list \<Rightarrow> zip_error + zip_entry list" where
  "validate_zip l es =
     (let total = sum_list (map ze_size es) in
      if max_entries l < int (length es) then Inl (TooManyEntries (length es))
      else if max_total_size l < int total then Inl (TotalTooLarge total)
      else if 0 < max_compression_ratio l
      then (case find (too_dense (max_compression_ratio l)) es of Some z \<Rightarrow> Inl (SuspiciousRatio (ze_name z)) | None \<Rightarrow> Inr es)
      else Inr es)"

definition safe_list :: "zip_limits \<Rightarrow> archive \<Rightarrow> zip_error + string list" where
  "safe_list l data =
     (case data of
        None \<Rightarrow> Inl BadZipFile
      | Some es \<Rightarrow> (case validate_zip l es of Inl err \<Rightarrow> Inl err | Inr _ \<Rightarrow> Inr (map ze_name es)))"

definition safe_extract_bytes :: "zip_limits \<Rightarrow> archive \<Rightarrow> string \<Rightarrow> zip_error + string" where
  "safe_extract_bytes l data filename =
     (case data of
        None \<Rightarrow> Inl BadZipFile
      | Some es \<Rightarrow>
          (case validate_zip l es of
             Inl err \<Rightarrow> Inl err
           | Inr _ \<Rightarrow>
               (case getinfo es filename of
                  None \<Rightarrow> Inl (NoSuchName filename)
                | Some z \<Rightarrow> if max_single_file l < int (ze_size z) then Inl (FileTooLarge (ze_size z)) else zip_read es filename)))"

definition has_ext :: "string \<Rightarrow> string \<Rightarrow> bool" where
  "has_ext ext name \<longleftrightarrow> endswith (lower name) (lower ext)"

definition find_file_by_ext :: "zip_limits \<Rightarrow> archive \<Rightarrow> string \<Rightarrow> zip_error + (string \<times> string) option" where
  "find_file_by_ext l data ext =
     (case safe_list l data of
        Inl err \<Rightarrow> Inl err
      | Inr names \<Rightarrow>
          (case find (has_ext ext) names of
             None \<Rightarrow> Inr None
           | Some name \<Rightarrow> map_sum id (\<lambda>c. Some (name, c)) (safe_extract_bytes l data name)))"

fun extract_all :: "zip_limits \<Rightarrow> archive \<Rightarrow> string list \<Rightarrow> zip_error + (string \<times> string) list" where
  "extract_all l data [] = Inr []"
| "extract_all l data (name # names) =
     (case safe_extract_bytes l data name of
        Inl err \<Rightarrow> Inl err
      | Inr c \<Rightarrow> map_sum id (\<lambda>rs. (name, c) # rs) (extract_all l data names))"

definition find_files_by_ext :: "zip_limits \<Rightarrow> archive \<Rightarrow> string \<Rightarrow> zip_error + (string \<times> string) list" where
  "find_files_by_ext l data ext =
     (case safe_list l data of
        Inl err \<Rightarrow> Inl err
      | Inr names \<Rightarrow> extract_all l data (filter (has_ext ext) names))"

definition find_file_by_ext_path :: "zip_limits \<Rightarrow> archive \<Rightarrow> string \<Rightarrow> zip_error + (string \<times> string) option" where
  "find_file_by_ext_path l data ext =
     (case data of
        None \<Rightarrow> Inl InvalidZip
      | Some es \<Rightarrow>
          (case validate_zip l es of
             Inl err \<Rightarrow> Inl err
           | Inr infos \<Rightarrow>
               (case find (\<lambda>z. ze_name z \<noteq> [] \<and> \<not> endswith (ze_name z) ''/'' \<and> has_ext ext (ze_name z)) infos of
                  None \<Rightarrow> Inr None
                | Some z \<Rightarrow>
                    if max_single_file l < int (ze_size z) then Inl (FileTooLarge (ze_size z))
                    else case zip_read es (ze_name z) of
                      Inr c \<Rightarrow> Inr (Some (ze_name z, c))
                    | Inl BadZipFile \<Rightarrow> Inl InvalidZip
                    | Inl err \<Rightarrow> Inl err)))"

definition is_valid_zip :: "archive \<Rightarrow> bool" where
  "is_valid_zip data \<longleftrightarrow> data \<noteq> None"

section \<open>What is extracted stays within the limits\<close>

lemma getinfo_Some: "getinfo es n = Some z \<Longrightarrow> z \<in> set es \<and> ze_name z = n"
  by (auto simp: getinfo_def find_Some_iff) (metis nth_mem set_rev length_rev)

lemma getinfo_distinct:
  assumes "distinct (map ze_name es)" and "z \<in> set es"
  shows "getinfo es (ze_name z) = Some z"
proof (cases "getinfo es (ze_name z)")
  case None
  with assms(2) show ?thesis by (auto simp: getinfo_def find_None_iff)
next
  case (Some x)
  with getinfo_Some [OF Some] assms same_key_same_row show ?thesis by metis
qed

lemma zip_read_length: "zip_read es n = Inr c \<Longrightarrow> \<exists>z \<in> set es. ze_name z = n \<and> getinfo es n = Some z \<and> length c \<le> ze_size z"
  by (auto simp: zip_read_def dest: getinfo_Some split: option.splits if_splits)

lemma validated:
  assumes "validate_zip l es = Inr infos"
  shows "infos = es \<and> int (length es) \<le> max_entries l \<and> int (sum_list (map ze_size es)) \<le> max_total_size l"
  using assms by (auto simp: validate_zip_def Let_def split: if_splits option.splits)

lemma safe_extract_length:
  assumes "safe_extract_bytes l (Some es) n = Inr c"
  shows "int (length c) \<le> max_single_file l \<and> (\<exists>z \<in> set es. ze_name z = n \<and> getinfo es n = Some z \<and> length c \<le> ze_size z)"
proof -
  from assms obtain z where z: "getinfo es n = Some z" "int (ze_size z) \<le> max_single_file l" "zip_read es n = Inr c"
    by (auto simp: safe_extract_bytes_def split: sum.splits option.splits if_splits)
  from zip_read_length [OF z(3)] z show ?thesis by fastforce
qed

lemma extract_all_bounds:
  assumes "extract_all l (Some es) names = Inr rs"
  shows "map fst rs = names \<and> (\<forall>(n, c) \<in> set rs. safe_extract_bytes l (Some es) n = Inr c)"
  using assms
proof (induction names arbitrary: rs)
  case (Cons n ns)
  then obtain c rs' where "safe_extract_bytes l (Some es) n = Inr c" "extract_all l (Some es) ns = Inr rs'" "rs = (n, c) # rs'"
    by (cases "extract_all l (Some es) ns") (auto split: sum.splits)
  with Cons.IH [of rs'] show ?case by auto
qed simp

text \<open>The content under a name is at most as long as the entry of that name, so with distinct names the
  contents of some names are together at most as long as all entries.\<close>

lemma sum_sizes:
  assumes "distinct (map ze_name es)" and "set names \<subseteq> set (map ze_name es)" and "distinct names"
    and "\<And>n z. n \<in> set names \<Longrightarrow> getinfo es n = Some z \<Longrightarrow> len n \<le> ze_size z"
  shows "sum_list (map len names) \<le> sum_list (map ze_size es)"
proof -
  have "sum_list (map len names) = sum len (set names)" using assms(3) by (rule sum_list_distinct_conv_sum_set)
  also have "\<dots> \<le> sum (\<lambda>n. ze_size (the (getinfo es n))) (set names)"
  proof (rule sum_mono)
    fix n assume n: "n \<in> set names"
    with assms(2) obtain z where "z \<in> set es" "ze_name z = n" by auto
    with getinfo_distinct [OF assms(1)] assms(4) [OF n] show "len n \<le> ze_size (the (getinfo es n))" by auto
  qed
  also have "\<dots> \<le> sum (\<lambda>n. ze_size (the (getinfo es n))) (set (map ze_name es))"
    by (rule sum_mono2) (use assms(2) in auto)
  also have "\<dots> = sum_list (map (\<lambda>n. ze_size (the (getinfo es n))) (map ze_name es))"
    using assms(1) by (simp only: sum_list_distinct_conv_sum_set)
  also have "\<dots> = sum_list (map ze_size es)"
    using getinfo_distinct [OF assms(1)] by (simp add: o_def cong: map_cong)
  finally show ?thesis .
qed

lemma safe_list_names: "safe_list l (Some es) = Inr names \<Longrightarrow> names = map ze_name es \<and> validate_zip l es = Inr es"
  by (auto simp: safe_list_def dest: validated split: sum.splits)

lemma find_files_bounds:
  assumes "find_files_by_ext l (Some es) ext = Inr rs"
  shows "int (length rs) \<le> max_entries l \<and> (\<forall>(n, c) \<in> set rs. int (length c) \<le> max_single_file l)"
    and "distinct (map ze_name es) \<Longrightarrow> int (sum_list (map (length \<circ> snd) rs)) \<le> max_total_size l"
proof -
  from assms obtain names where names: "safe_list l (Some es) = Inr names"
    and all: "extract_all l (Some es) (filter (has_ext ext) names) = Inr rs"
    by (auto simp: find_files_by_ext_def split: sum.splits)
  note v = safe_list_names [OF names] and b = extract_all_bounds [OF all]
  note lim = validated [OF conjunct2 [OF v]]
  have "length rs = length (filter (has_ext ext) names)" using b by (metis length_map)
  then have "length rs \<le> length es" using v by (metis length_filter_le length_map)
  with lim b safe_extract_length
  show "int (length rs) \<le> max_entries l \<and> (\<forall>(n, c) \<in> set rs. int (length c) \<le> max_single_file l)" by fastforce
  show "int (sum_list (map (length \<circ> snd) rs)) \<le> max_total_size l" if d: "distinct (map ze_name es)"
  proof -
    let ?names = "filter (has_ext ext) (map ze_name es)"
    have rs: "map fst rs = ?names" using b v by simp
    define len where "len n = length (the (map_of rs n))" for n
    have dn: "distinct (map fst rs)" using d unfolding rs by simp
    have "map (length \<circ> snd) rs = map len (map fst rs)"
      using dn by (auto simp: len_def)
    also have "\<dots> = map len ?names" by (simp only: rs)
    finally have eq: "map (length \<circ> snd) rs = map len ?names" .
    have "sum_list (map len ?names) \<le> sum_list (map ze_size es)"
    proof (rule sum_sizes [OF d])
      fix n z assume "n \<in> set ?names" and z: "getinfo es n = Some z"
      then obtain c where c: "(n, c) \<in> set rs" unfolding rs [symmetric] by force
      with b have "safe_extract_bytes l (Some es) n = Inr c" by auto
      with z have "length c \<le> ze_size z" using safe_extract_length by fastforce
      with c dn show "len n \<le> ze_size z" by (simp add: len_def)
    qed (use d in auto)
    with lim show ?thesis unfolding eq by simp
  qed
qed

lemma find_path_bounds:
  assumes "find_file_by_ext_path l (Some es) ext = Inr (Some (n, c))"
  shows "int (length c) \<le> max_total_size l" and "distinct (map ze_name es) \<Longrightarrow> int (length c) \<le> max_single_file l"
proof -
  from assms obtain z where v: "validate_zip l es = Inr es" and z: "find (\<lambda>z. ze_name z \<noteq> [] \<and> \<not> endswith (ze_name z) ''/'' \<and> has_ext ext (ze_name z)) es = Some z"
    and small: "int (ze_size z) \<le> max_single_file l" and n: "n = ze_name z" and rd: "zip_read es n = Inr c"
    using validated by (fastforce simp: find_file_by_ext_path_def split: sum.splits option.splits if_splits zip_error.splits)
  from zip_read_length [OF rd] obtain y where y: "y \<in> set es" "getinfo es n = Some y" "length c \<le> ze_size y" by auto
  have "ze_size y \<le> sum_list (map ze_size es)" using y(1) by (auto intro: member_le_sum_list)
  with y(3) validated [OF v] show "int (length c) \<le> max_total_size l" by linarith
  assume d: "distinct (map ze_name es)"
  have "z \<in> set es" using z by (auto simp: find_Some_iff)
  with getinfo_distinct [OF d] n y(2) have "y = z" by simp
  with y(3) small show "int (length c) \<le> max_single_file l" by simp
qed

text \<open>C36: Extraction stays within the limits. Whatever the declared sizes and the data of an archive, a
  search for files of a type that succeeds returns at most \<open>max_entries\<close> files of at most
  \<open>max_single_file\<close> bytes each, also when the search in the stored archive fails; and a search in a stored
  archive that succeeds returns at most \<open>max_total_size\<close> bytes, also when the other search fails. When the
  names of the archive are distinct, the files of a search together stay below \<open>max_total_size\<close> and the
  stored archive's file below \<open>max_single_file\<close>.\<close>

theorem extraction_stays_within_limits:
  shows "(find_files_by_ext l data ext = Inr rs \<longrightarrow>
      int (length rs) \<le> max_entries l \<and> (\<forall>x. x \<in> set rs \<longrightarrow> int (length (snd x)) \<le> max_single_file l)
      \<and> (distinct (map ze_name (the data)) \<longrightarrow> int (sum_list (map (length \<circ> snd) rs)) \<le> max_total_size l))
    \<and> (find_file_by_ext_path l data ext = Inr (Some (n, c)) \<longrightarrow>
      int (length c) \<le> max_total_size l \<and> (distinct (map ze_name (the data)) \<longrightarrow> int (length c) \<le> max_single_file l))"
proof (cases data)
  case None
  then show ?thesis by (auto simp: find_files_by_ext_def find_file_by_ext_path_def safe_list_def)
next
  case (Some es)
  then show ?thesis using find_files_bounds [of l es ext rs] find_path_bounds [of l es ext n c] by auto
qed

definition two_files :: archive where
  "two_files = Some [\<lparr>ze_name = ''a.pdf'', ze_size = 3, ze_compressed = 2, ze_stream = ''abcdef'', ze_checksum_ok = True\<rparr>,
     \<lparr>ze_name = ''b.PDF'', ze_size = 2, ze_compressed = 2, ze_stream = ''xy'', ze_checksum_ok = True\<rparr>]"

theorem extraction_stays_within_limits_witness:
  "find_files_by_ext default_limits two_files ''.pdf'' = Inr [(''a.pdf'', ''abc''), (''b.PDF'', ''xy'')]
   \<and> find_file_by_ext_path default_limits two_files ''.pdf'' = Inr (Some (''a.pdf'', ''abc''))
   \<and> int (sum_list (map (length \<circ> snd) [(''a.pdf'', ''abc''), (''b.PDF'', ''xy'')])) \<le> max_total_size default_limits
   \<and> int (length ''abc'') \<le> max_single_file default_limits"
proof -
  have "find_files_by_ext default_limits two_files ''.pdf'' = Inr [(''a.pdf'', ''abc''), (''b.PDF'', ''xy'')]"
    "find_file_by_ext_path default_limits two_files ''.pdf'' = Inr (Some (''a.pdf'', ''abc''))"
    "distinct (map ze_name (the two_files))" by code_simp+
  with extraction_stays_within_limits [of default_limits two_files "''.pdf''" "[(''a.pdf'', ''abc''), (''b.PDF'', ''xy'')]" "''a.pdf''" "''abc''"]
  show ?thesis by blast
qed

text \<open>With a repeated name the check of the stored archive looks at the first entry and reads the last
  one, and a search reads the last entry once for every occurrence.\<close>

definition repeated_name :: archive where
  "repeated_name = Some [\<lparr>ze_name = ''a.pdf'', ze_size = 1, ze_compressed = 1, ze_stream = ''x'', ze_checksum_ok = True\<rparr>,
     \<lparr>ze_name = ''a.pdf'', ze_size = 5, ze_compressed = 5, ze_stream = ''abcde'', ze_checksum_ok = True\<rparr>]"

lemma repeated_name_exceeds_limits:
  "find_file_by_ext_path \<lparr>max_entries = 2, max_total_size = 6, max_single_file = 2, max_compression_ratio = 100\<rparr> repeated_name ''.pdf''
     = Inr (Some (''a.pdf'', ''abcde''))
   \<and> find_files_by_ext \<lparr>max_entries = 2, max_total_size = 6, max_single_file = 5, max_compression_ratio = 100\<rparr> repeated_name ''.pdf''
     = Inr [(''a.pdf'', ''abcde''), (''a.pdf'', ''abcde'')]"
  by code_simp

end
