(* ===== verification/Upload_Sessions.thy ===== *)
theory Upload_Sessions
  imports Storage "HOL-Library.AList"
begin

text \<open>
  Upload sessions, which carry a staged upload from one request to the next
  (\<open>app/services/uploads/upload_session_service.py\<close>).

  The table is a list of rows. A payload is the decoded JSON text (\<open>None\<close> when it does not decode) with
  the staged files by their asset id, the form fields and the two results; values are texts. A new
  session id, the clock and the two deletions of the clean-up (purging an orphaned file, removing a
  directory) are arguments or effects that are recorded in their order.
\<close>

section \<open>Sessions\<close>

record upload_data =
  staged_files :: "string option list"
  form_data :: "(string \<times> string) list"
  analysis_result :: "string option"
  validation_result :: "string option"
  purpose :: string

record upload_row =
  up_id :: string
  up_user :: string
  up_payload :: "upload_data option"
  up_expires :: "datetime option"

text \<open>Outside a request every session may be used by its id; in a request only by its user.\<close>

datatype request_scope = NoRequest | InRequest "string option"

fun request_user_scope :: "request_scope \<Rightarrow> bool \<times> string option" where
  "request_user_scope NoRequest = (False, None)"
| "request_user_scope (InRequest uid) = (True, uid)"

definition forbidden :: "request_scope \<Rightarrow> bool" where
  "forbidden scope \<longleftrightarrow> fst (request_user_scope scope) \<and> or_empty (snd (request_user_scope scope)) = []"

definition own_row :: "request_scope \<Rightarrow> string \<Rightarrow> upload_row \<Rightarrow> bool" where
  "own_row scope sid r \<longleftrightarrow> up_id r = sid
     \<and> (fst (request_user_scope scope) \<longrightarrow> snd (request_user_scope scope) = Some (up_user r))"

definition hours :: "int \<Rightarrow> datetime" where
  "hours n = seconds (3600 * n)"

definition create ::
  "request_scope \<Rightarrow> string \<Rightarrow> datetime \<Rightarrow> upload_data \<Rightarrow> int option \<Rightarrow> upload_row list \<Rightarrow> string \<times> upload_row list"
where
  "create scope sid now payload ttl_hours t =
     (let ttl = (case ttl_hours of None \<Rightarrow> 24 | Some n \<Rightarrow> if n = 0 then 24 else n);
          uid = (case scope of InRequest (Some u) \<Rightarrow> u | _ \<Rightarrow> ''anonymous'') in
      (sid, t @ [\<lparr>up_id = sid, up_user = uid, up_payload = Some payload, up_expires = Some (now + hours ttl)\<rparr>]))"

definition live_row :: "request_scope \<Rightarrow> string \<Rightarrow> datetime \<Rightarrow> upload_row \<Rightarrow> bool" where
  "live_row scope sid now r \<longleftrightarrow> own_row scope sid r \<and> (case up_expires r of None \<Rightarrow> False | Some x \<Rightarrow> now < x)"

definition retrieve :: "request_scope \<Rightarrow> string \<Rightarrow> datetime \<Rightarrow> upload_row list \<Rightarrow> upload_data option" where
  "retrieve scope sid now t =
     (if sid = [] \<or> forbidden scope then None
      else case sql_first (live_row scope sid now) t of
        Some r \<Rightarrow> up_payload r
      | None \<Rightarrow>
          (case sql_first (own_row scope sid) t of
             None \<Rightarrow> None
           | Some r \<Rightarrow> (case up_expires r of
                        Some x \<Rightarrow> if x \<le> now then None else up_payload r
                      | None \<Rightarrow> up_payload r)))"

text \<open>\<open>dict.update\<close>.\<close>

definition dict_update :: "(string \<times> string) list \<Rightarrow> (string \<times> string) list \<Rightarrow> (string \<times> string) list" where
  "dict_update new old = fold (\<lambda>(k, v) d. AList.update k v d) new old"

definition update ::
  "request_scope \<Rightarrow> string \<Rightarrow> datetime \<Rightarrow> (string \<times> string) list option \<Rightarrow> string option \<Rightarrow> string option \<Rightarrow> upload_row list
     \<Rightarrow> bool \<times> upload_row list"
where
  "update scope sid now form analysis validation t =
     (case retrieve scope sid now t of
        None \<Rightarrow> (False, t)
      | Some existing \<Rightarrow>
          let merged = existing
                \<lparr>form_data := (case form of None \<Rightarrow> form_data existing | Some f \<Rightarrow> dict_update f (form_data existing)),
                 analysis_result := (case analysis of None \<Rightarrow> analysis_result existing | Some a \<Rightarrow> Some a),
                 validation_result := (case validation of None \<Rightarrow> validation_result existing | Some v \<Rightarrow> Some v)\<rparr> in
          if forbidden scope then (False, t)
          else (True, sql_update (own_row scope sid) (\<lambda>r. r\<lparr>up_payload := Some merged\<rparr>) t))"

definition delete :: "request_scope \<Rightarrow> string \<Rightarrow> upload_row list \<Rightarrow> upload_row list" where
  "delete scope sid t = (if forbidden scope then t else sql_delete (own_row scope sid) t)"

definition get_staged_file_ids :: "request_scope \<Rightarrow> string \<Rightarrow> datetime \<Rightarrow> upload_row list \<Rightarrow> string list" where
  "get_staged_file_ids scope sid now t =
     (case retrieve scope sid now t of
        None \<Rightarrow> []
      | Some d \<Rightarrow> filter (\<lambda>f. f \<noteq> []) (map (\<lambda>f. strip (or_empty f)) (staged_files d)))"

section \<open>Clean-up\<close>

datatype cleanup_effect = PurgeFile string | RemoveTree "string list"

text \<open>The segments of \<open>os.path.abspath\<close>: a relative path starts at the working directory.\<close>

fun norm_segments :: "string list \<Rightarrow> string list \<Rightarrow> string list" where
  "norm_segments acc [] = rev acc"
| "norm_segments acc (s # ss) =
     (if s = [] \<or> s = ''.'' then norm_segments acc ss
      else if s = ''..'' then norm_segments (tl acc) ss
      else norm_segments (s # acc) ss)"

definition abspath :: "string list \<Rightarrow> string \<Rightarrow> string list" where
  "abspath cwd p =
     norm_segments [] (if startswith p ''/'' then split_on (CHR ''/'') p else cwd @ split_on (CHR ''/'') p)"

fun commonpath :: "string list \<Rightarrow> string list \<Rightarrow> string list" where
  "commonpath (a # as) (b # bs) = (if a = b then a # commonpath as bs else [])"
| "commonpath _ _ = []"

definition path_join3 :: "string \<Rightarrow> string \<Rightarrow> string \<Rightarrow> string" where
  "path_join3 a b c = (let slash = (\<lambda>p. if p = [] \<or> endswith p ''/'' then p else p @ ''/'') in slash (slash a @ b) @ c)"

record cleanup_env =
  ce_cwd :: "string list"
  ce_upload_folder :: string
  ce_is_dir :: "string list \<Rightarrow> bool"
  ce_file_service :: bool

definition temp_base :: "cleanup_env \<Rightarrow> string list" where
  "temp_base e = abspath (ce_cwd e) (path_join3 (strip (ce_upload_folder e)) ''temp'' ''response_upload'')"

definition cleanup_artifacts :: "cleanup_env \<Rightarrow> upload_data list \<Rightarrow> cleanup_effect list" where
  "cleanup_artifacts e payloads =
     concat (map (\<lambda>d.
       (if ce_file_service e
        then map PurgeFile (filter (\<lambda>f. f \<noteq> []) (map (\<lambda>f. strip (or_empty f)) (staged_files d))) else [])
       @ (let temp_dir = strip (or_empty (map_of (form_data d) ''temp_dir'')); target = abspath (ce_cwd e) temp_dir in
          if temp_dir = [] then []
          else if commonpath (temp_base e) target = temp_base e \<and> ce_is_dir e target then [RemoveTree target] else [])) payloads)"

definition expired :: "datetime \<Rightarrow> upload_row \<Rightarrow> bool" where
  "expired now r \<longleftrightarrow> (case up_expires r of None \<Rightarrow> False | Some x \<Rightarrow> x \<le> now)"

text \<open>The clock is read once for the query and again for the deletion; \<open>load_ok\<close> is whether the query works.\<close>

definition cleanup_expired ::
  "cleanup_env \<Rightarrow> bool \<Rightarrow> datetime \<Rightarrow> datetime \<Rightarrow> upload_row list \<Rightarrow> nat \<times> cleanup_effect list \<times> upload_row list"
where
  "cleanup_expired e load_ok now later t =
     (let payloads = (if load_ok then List.map_filter up_payload (filter (expired now) t) else []) in
      (rowcount (expired later) t, cleanup_artifacts e payloads, sql_delete (expired later) t))"

section \<open>A session belongs to its user\<close>

lemma sql_first_append: "sql_first p (t @ u) = (case sql_first p t of Some r \<Rightarrow> Some r | None \<Rightarrow> sql_first p u)"
  by (induction t) (auto simp: sql_first_def)

lemma retrieve_own:
  assumes "retrieve scope sid now t = Some d"
  shows "\<exists>r \<in> set t. own_row scope sid r \<and> up_payload r = Some d \<and> (case up_expires r of None \<Rightarrow> True | Some x \<Rightarrow> now < x)"
proof (cases "sql_first (live_row scope sid now) t")
  case None
  with assms obtain r where r: "sql_first (own_row scope sid) t = Some r" "up_payload r = Some d"
    and "case up_expires r of None \<Rightarrow> True | Some x \<Rightarrow> now < x"
    unfolding retrieve_def None by (auto split: if_splits option.splits)
  with sql_first_Some [OF r(1)] show ?thesis by blast
next
  case (Some r)
  with assms have "up_payload r = Some d" by (simp add: retrieve_def split: if_splits)
  with sql_first_Some [OF Some] show ?thesis by (auto simp: live_row_def split: option.splits)
qed

lemma retrieve_none:
  assumes "\<And>r. r \<in> set t \<Longrightarrow> own_row scope sid r \<Longrightarrow> (case up_expires r of None \<Rightarrow> False | Some x \<Rightarrow> x \<le> now)"
  shows "retrieve scope sid now t = None"
proof (rule ccontr)
  assume "retrieve scope sid now t \<noteq> None"
  then obtain d where "retrieve scope sid now t = Some d" by blast
  from retrieve_own [OF this] assms show False by (fastforce split: option.splits)
qed

definition other_rows :: "string \<Rightarrow> upload_row list \<Rightarrow> upload_row list" where
  "other_rows uid t = filter (\<lambda>r. up_user r \<noteq> uid) t"

text \<open>The operations of one user's requests, in any order and at any time.\<close>

inductive user_step :: "string \<Rightarrow> upload_row list \<Rightarrow> upload_row list \<Rightarrow> bool" for uid where
  created: "user_step uid t (snd (create (InRequest (Some uid)) sid now payload ttl t))"
| updated: "user_step uid t (snd (update (InRequest (Some uid)) sid now form analysis validation t))"
| deleted: "user_step uid t (delete (InRequest (Some uid)) sid t)"

lemma other_rows_update: "other_rows uid (sql_update (own_row (InRequest (Some uid)) sid) (\<lambda>r. r\<lparr>up_payload := p\<rparr>) t) = other_rows uid t"
  by (induction t) (auto simp: other_rows_def sql_update_def own_row_def)

lemma other_rows_delete: "other_rows uid (sql_delete (own_row (InRequest (Some uid)) sid) t) = other_rows uid t"
  by (induction t) (auto simp: other_rows_def sql_delete_def own_row_def)

lemma user_step_others: "user_step uid t t' \<Longrightarrow> other_rows uid t' = other_rows uid t"
proof (induction rule: user_step.induct)
  case (created t sid now payload ttl)
  then show ?case by (simp add: create_def other_rows_def Let_def)
next
  case (updated t sid now form analysis validation)
  then show ?case by (simp add: update_def other_rows_update Let_def split: option.splits)
next
  case (deleted t sid)
  then show ?case by (simp add: delete_def other_rows_delete)
qed

lemma own_row_other: "uid \<noteq> uid' \<Longrightarrow> own_row (InRequest (Some uid')) sid r \<Longrightarrow> up_user r \<noteq> uid"
  by (auto simp: own_row_def)

lemma sql_first_others:
  assumes "\<And>r. p r \<Longrightarrow> up_user r \<noteq> uid"
  shows "sql_first p t = sql_first p (other_rows uid t)"
  using assms by (induction t) (auto simp: sql_first_def other_rows_def)

lemma retrieve_others:
  assumes "uid \<noteq> uid'"
  shows "retrieve (InRequest (Some uid')) sid now t = retrieve (InRequest (Some uid')) sid now (other_rows uid t)"
proof -
  have "sql_first (live_row (InRequest (Some uid')) sid now) t
      = sql_first (live_row (InRequest (Some uid')) sid now) (other_rows uid t)"
    by (rule sql_first_others) (use own_row_other [OF assms] in \<open>auto simp: live_row_def\<close>)
  moreover have "sql_first (own_row (InRequest (Some uid')) sid) t = sql_first (own_row (InRequest (Some uid')) sid) (other_rows uid t)"
    by (rule sql_first_others) (use own_row_other [OF assms] in blast)
  ultimately show ?thesis by (simp only: retrieve_def)
qed

text \<open>C12: Upload sessions of different users do not interfere. Whatever requests one user makes (creating,
  updating and deleting sessions under any session ids, guessed ones included), the rows of all
  other users stay exactly as they are, and what another user retrieves under any id does not change.\<close>

theorem upload_sessions_do_not_interfere:
  assumes "(user_step uid)\<^sup>*\<^sup>* t t'" and "uid' \<noteq> uid"
  shows "filter (\<lambda>r. up_user r \<noteq> uid) t' = filter (\<lambda>r. up_user r \<noteq> uid) t
    \<and> retrieve (InRequest (Some uid')) sid now t' = retrieve (InRequest (Some uid')) sid now t"
proof -
  from assms(1) have "other_rows uid t' = other_rows uid t" by (induction rule: rtranclp_induct) (simp_all add: user_step_others)
  with retrieve_others [of uid uid' sid now] assms(2) show ?thesis by (metis other_rows_def)
qed

text \<open>C37: A session is retrieved until it expires, by its user only. After a session was created in a request
  of a user under a new id, that user gets back exactly the stored data (and with it the staged files) until the time to live has
  passed; a request of another user, or without a user, gets nothing, and after the expiry nobody does.\<close>

theorem upload_session_round_trip:
  assumes "uid \<noteq> []" and "sid \<noteq> []" and "sid \<notin> set (map up_id t)" and "n > 0"
    and "create (InRequest (Some uid)) sid now payload (Some n) t = (sid', t')"
  shows "sid' = sid
    \<and> (later < now + hours n \<longrightarrow> retrieve (InRequest (Some uid)) sid later t' = Some payload
         \<and> get_staged_file_ids (InRequest (Some uid)) sid later t' = filter (\<lambda>f. f \<noteq> []) (map (\<lambda>f. strip (or_empty f)) (staged_files payload)))
    \<and> (uid' \<noteq> uid \<longrightarrow> retrieve (InRequest (Some uid')) sid later t' = None)
    \<and> retrieve (InRequest None) sid later t' = None
    \<and> (now + hours n \<le> later \<longrightarrow> (\<forall>scope. retrieve scope sid later t' = None))"
proof -
  define row where "row = \<lparr>up_id = sid, up_user = uid, up_payload = Some payload, up_expires = Some (now + hours n)\<rparr>"
  have t': "t' = t @ [row]" "sid' = sid" using assms(4,5) by (auto simp: create_def row_def)
  have miss: "sql_first p t = None" if "\<And>r. p r \<Longrightarrow> up_id r = sid" for p using assms(3) that by auto
  have old: "\<not> own_row scope sid r" if "r \<in> set t" for scope r using assms(3) that by (auto simp: own_row_def)
  have get: "retrieve (InRequest (Some uid)) sid later t' = Some payload" if "later < now + hours n"
  proof -
    have "sql_first (live_row (InRequest (Some uid)) sid later) t' = Some row"
      unfolding t' sql_first_append using that by (subst miss) (auto simp: live_row_def own_row_def sql_first_def row_def)
    with assms(1,2) show ?thesis by (simp add: retrieve_def forbidden_def row_def)
  qed
  moreover have "retrieve (InRequest (Some uid')) sid later t' = None" if "uid' \<noteq> uid"
  proof (rule retrieve_none)
    fix r assume r: "r \<in> set t'" "own_row (InRequest (Some uid')) sid r"
    with old have "r = row" by (auto simp: t')
    with r(2) that show "case up_expires r of None \<Rightarrow> False | Some x \<Rightarrow> x \<le> later" by (simp add: own_row_def row_def)
  qed
  moreover have "retrieve (InRequest None) sid later t' = None" by (simp add: retrieve_def forbidden_def)
  moreover have "retrieve scope sid later t' = None" if "now + hours n \<le> later" for scope
    by (rule retrieve_none) (use that old in \<open>auto simp: t' row_def\<close>)
  ultimately show ?thesis using t'(2) by (auto simp: get_staged_file_ids_def)
qed

definition scanned :: upload_data where
  "scanned = \<lparr>staged_files = [Some '' f1 '', None], form_data = [(''temp_dir'', ''/data/temp/response_upload/x'')], analysis_result = None,
     validation_result = Some ''ok'', purpose = ''notice''\<rparr>"

theorem upload_session_round_trip_witness:
  "retrieve (InRequest (Some ''7'')) ''s1'' 5 (snd (create (InRequest (Some ''7'')) ''s1'' 0 scanned (Some 1) [])) = Some scanned
   \<and> retrieve (InRequest (Some ''8'')) ''s1'' 5 (snd (create (InRequest (Some ''7'')) ''s1'' 0 scanned (Some 1) [])) = None"
  using upload_session_round_trip [of "''7''" "''s1''" "[]" 1 0 scanned "fst (create (InRequest (Some ''7'')) ''s1'' 0 scanned (Some 1) [])"
      "snd (create (InRequest (Some ''7'')) ''s1'' 0 scanned (Some 1) [])" 5 "''8''"]
  by (simp add: hours_def seconds_def)

theorem upload_sessions_do_not_interfere_witness:
  "retrieve (InRequest (Some ''7'')) ''s1'' 5
     (delete (InRequest (Some ''8'')) ''s1'' (snd (create (InRequest (Some ''7'')) ''s1'' 0 scanned None []))) = Some scanned"
proof -
  let ?t = "snd (create (InRequest (Some ''7'')) ''s1'' 0 scanned None [])"
  have "(user_step ''8'')\<^sup>*\<^sup>* ?t (delete (InRequest (Some ''8'')) ''s1'' ?t)" by (rule r_into_rtranclp) (rule deleted)
  from upload_sessions_do_not_interfere [OF this, of "''7''" "''s1''" 5]
  have "retrieve (InRequest (Some ''7'')) ''s1'' 5 (delete (InRequest (Some ''8'')) ''s1'' ?t) = retrieve (InRequest (Some ''7'')) ''s1'' 5 ?t"
    by simp
  also have "\<dots> = Some scanned" by code_simp
  finally show ?thesis .
qed

section \<open>Clean-up removes what has expired\<close>

lemma commonpath_prefix: "commonpath base p = base \<Longrightarrow> \<exists>s. p = base @ s"
  by (induction base p rule: commonpath.induct) (auto split: if_splits)

text \<open>The clean-up. It deletes exactly the rows that have expired by the moment of the deletion and
  reports their number; a directory is removed only below the directory for temporary uploads. When
  the clock has not moved between the query and the deletion and the query works, the staged files
  of every deleted row are offered for purging.\<close>

theorem cleanup_removes_expired_sessions:
  assumes "cleanup_expired e load_ok now later t = (k, effects, t')"
  shows "t' = filter (\<lambda>r. \<not> expired later r) t \<and> k + length t' = length t
    \<and> (RemoveTree p \<in> set effects \<longrightarrow> (\<exists>s. p = temp_base e @ s))
    \<and> (load_ok \<and> ce_file_service e \<and> now = later \<and> r \<in> set t \<and> r \<notin> set t' \<and> up_payload r = Some d \<and> Some f \<in> set (staged_files d) \<and> strip f \<noteq> []
        \<longrightarrow> PurgeFile (strip f) \<in> set effects)"
proof -
  from assms have t': "t' = sql_delete (expired later) t" and k: "k = rowcount (expired later) t"
    and eff: "effects = cleanup_artifacts e (if load_ok then List.map_filter up_payload (filter (expired now) t) else [])"
    by (auto simp: cleanup_expired_def)
  have len: "k + length t' = length t"
    by (simp add: k t' rowcount_def sql_delete_def sum_length_filter_compl)
  have tree: "\<exists>s. p = temp_base e @ s" if "RemoveTree p \<in> set effects"
    using that by (auto simp: eff cleanup_artifacts_def Let_def intro: commonpath_prefix split: if_splits)
  have purge: "PurgeFile (strip f) \<in> set effects"
    if "load_ok" "ce_file_service e" "now = later" "r \<in> set t" "r \<notin> set t'" "up_payload r = Some d" "Some f \<in> set (staged_files d)" "strip f \<noteq> []"
  proof -
    from that have "d \<in> set (List.map_filter up_payload (filter (expired now) t))"
      by (force simp: t' sql_delete_def List.map_filter_def)
    with that(1,2,7,8) show ?thesis by (force simp: eff cleanup_artifacts_def)
  qed
  from t' len tree purge show ?thesis by (auto simp: sql_delete_def)
qed

definition data_env :: cleanup_env where
  "data_env = \<lparr>ce_cwd = [''app''], ce_upload_folder = ''/data'', ce_is_dir = (\<lambda>p. True), ce_file_service = True\<rparr>"

theorem cleanup_removes_expired_sessions_witness:
  "fst (snd (cleanup_expired data_env True (hours 30) (hours 30) (snd (create NoRequest ''s1'' 0 scanned None []))))
     = [PurgeFile ''f1'', RemoveTree [''data'', ''temp'', ''response_upload'', ''x'']]
   \<and> fst (cleanup_expired data_env True (hours 30) (hours 30) (snd (create NoRequest ''s1'' 0 scanned None []))) = 1"
proof -
  let ?t = "snd (create NoRequest ''s1'' 0 scanned None [])"
  let ?c = "cleanup_expired data_env True (hours 30) (hours 30) ?t"
  have e: "fst (snd ?c) = [PurgeFile ''f1'', RemoveTree [''data'', ''temp'', ''response_upload'', ''x'']]" "filter (\<lambda>r. \<not> expired (hours 30) r) ?t = []"
    "length ?t = 1" by code_simp+
  have c: "?c = (fst ?c, fst (snd ?c), snd (snd ?c))" by simp
  have "snd (snd ?c) = [] \<and> fst ?c + length (snd (snd ?c)) = length ?t"
    using cleanup_removes_expired_sessions [OF c] unfolding e(2) by blast
  then have "fst ?c = 1" unfolding e(3) by auto
  with e(1) show ?thesis by blast
qed

end
