(* ===== verification/Deferred_Sync.thy ===== *)
theory Deferred_Sync
  imports Durable_Queue Annuity_Sync_Queue Numerals "HOL-Library.AList"
begin

text \<open>
  Work that is deferred until a transaction has committed
  (\<open>app/services/workflow/deferred_task_sync.py\<close>) and its execution
  (\<open>app/services/workflow/deferred_task_executor.py\<close>).

  The queues live in \<open>session.info\<close>, the record \<open>sync_info\<close>; a missing entry is an empty one. After a
  commit the handlers hand the queues to the durable queue and to the background service: what was
  submitted to the background service is recorded in its order, the durable job is inserted with the
  model of the durable queue. The text of a payload (\<open>json.dumps\<close>) and its digest are arguments. The
  synchronisation of one item is an argument that either changes the domain or raises.
\<close>

section \<open>The session's queues\<close>

type_synonym docket_queue = "(string \<times> int option) list"
type_synonym task_queue = "(int \<times> int option) list"

record sync_info =
  si_dockets :: docket_queue
  si_annuities_old :: docket_queue
  si_tasks :: task_queue
  si_annuity_ids :: "string list"
  si_annuity_matters :: "string list"
  si_dedupe :: "string list"
  si_meta :: "(string \<times> string) list"
  si_in_handler :: bool

definition empty_info :: sync_info where
  "empty_info = \<lparr>si_dockets = [], si_annuities_old = [], si_tasks = [], si_annuity_ids = [], si_annuity_matters = [],
     si_dedupe = [], si_meta = [], si_in_handler = False\<rparr>"

definition mark_dedupe_key :: "string \<Rightarrow> sync_info \<Rightarrow> bool \<times> sync_info" where
  "mark_dedupe_key key i =
     (if key \<in> set (si_dedupe i) then (False, i) else (True, i\<lparr>si_dedupe := si_dedupe i @ [key]\<rparr>))"

definition set_deferred_sync_meta :: "(string \<times> string option) list \<Rightarrow> sync_info \<Rightarrow> sync_info" where
  "set_deferred_sync_meta meta i =
     (if meta = [] then i
      else i\<lparr>si_meta := fold (\<lambda>(k, v) m. case v of None \<Rightarrow> m | Some x \<Rightarrow> AList.update k x m) meta (si_meta i)\<rparr>)"

definition enqueue_docket_sync :: "string \<Rightarrow> int option \<Rightarrow> sync_info \<Rightarrow> sync_info" where
  "enqueue_docket_sync did actor i =
     (let j = snd (mark_dedupe_key (''docket:'' @ did) i); q = si_dockets j in
      j\<lparr>si_dockets := (if actor \<noteq> None \<or> did \<notin> set (map fst q) then AList.update did actor q else q)\<rparr>)"

definition enqueue_workflow_task_sync :: "int \<Rightarrow> int option \<Rightarrow> sync_info \<Rightarrow> sync_info" where
  "enqueue_workflow_task_sync wid actor i =
     (let j = snd (mark_dedupe_key (''workflow_task:'' @ str_int wid) i); q = si_tasks j in
      j\<lparr>si_tasks := (case map_of q wid of
                      Some None \<Rightarrow> if actor \<noteq> None then AList.update wid actor q else q
                    | Some (Some a) \<Rightarrow> q
                    | None \<Rightarrow> AList.update wid actor q)\<rparr>)"

text \<open>A docket row that has no id yet is flushed first; \<open>flushed\<close> is the id after the flush, or the failure.\<close>

definition enqueue_docket_sync_for_item :: "string option \<Rightarrow> string option option \<Rightarrow> int option \<Rightarrow> sync_info \<Rightarrow> sync_info" where
  "enqueue_docket_sync_for_item did flushed actor i =
     (let used = (if or_empty did \<noteq> [] then did else case flushed of None \<Rightarrow> None | Some d \<Rightarrow> d) in
      if or_empty used \<noteq> [] then enqueue_docket_sync (or_empty used) actor i else i)"

definition add_to_set :: "string \<Rightarrow> string list \<Rightarrow> string list" where
  "add_to_set x s = (if x \<in> set s then s else s @ [x])"

section \<open>Handing over\<close>

record sync_payload =
  pl_dockets :: docket_queue
  pl_annuities :: docket_queue
  pl_workflows :: "(string \<times> bool) list"
  pl_tasks :: docket_queue
  pl_meta :: "(string \<times> string) list"

record annuity_payload =
  pa_annuity_ids :: "string list"
  pa_matter_ids :: "string list"
  pa_ensure :: bool
  pa_refresh :: bool

datatype background_run =
    BgDeferred docket_queue docket_queue task_queue string
  | BgAnnuity "string list" "string list" bool bool string

text \<open>The application and the moment of a call.\<close>

record sync_env =
  se_app :: bool
  se_testing :: bool
  se_async_in_tests :: bool
  se_durable_enabled :: bool
  se_annuity_durable :: "bool option"
  se_in_transaction :: bool
  se_nested :: bool
  se_enqueue_fails :: "string \<Rightarrow> bool"
  se_now :: datetime

record sync_codec =
  dump_payload :: "sync_payload \<Rightarrow> job_payload"
  dump_annuity :: "annuity_payload \<Rightarrow> job_payload"
  dump_text :: "job_payload \<Rightarrow> string"
  sha256_hex :: "string \<Rightarrow> string"

record sync_state =
  ss_info :: sync_info
  ss_durable :: durable_db
  ss_background :: "background_run list"
  ss_rebuilds :: aq_table

definition run_async :: "sync_env \<Rightarrow> background_run \<Rightarrow> sync_state \<Rightarrow> sync_state" where
  "run_async e r s = (if se_testing e \<and> \<not> se_async_in_tests e then s else s\<lparr>ss_background := ss_background s @ [r]\<rparr>)"

text \<open>\<open>queue.enqueue\<close> of the durable queue: whether it returned, and the state.\<close>

definition durable_enqueue :: "sync_env \<Rightarrow> enqueue_spec \<Rightarrow> sync_state \<Rightarrow> bool \<times> sync_state" where
  "durable_enqueue e spec s =
     (case enqueue spec (se_now e) (se_enqueue_fails e (spec_task spec)) (jobs (ss_durable s)) (ss_durable s) of
        (res, db) \<Rightarrow> ((case res of Existing j \<Rightarrow> True | Created j \<Rightarrow> True | _ \<Rightarrow> False), s\<lparr>ss_durable := db\<rparr>))"

definition annuity_sync_payload :: "string list \<Rightarrow> string list \<Rightarrow> bool \<Rightarrow> bool \<Rightarrow> annuity_payload" where
  "annuity_sync_payload aids mids ensure_rows refresh =
     \<lparr>pa_annuity_ids = clean_ids aids, pa_matter_ids = clean_ids mids, pa_ensure = ensure_rows, pa_refresh = refresh\<rparr>"

definition annuity_spec :: "sync_codec \<Rightarrow> annuity_payload \<Rightarrow> enqueue_spec" where
  "annuity_spec c p =
     (let ids = (if pa_matter_ids p \<noteq> [] then pa_matter_ids p else pa_annuity_ids p) in
      \<lparr>spec_task = ''annuity.workflow_sync'', spec_payload = dump_annuity c p, spec_queue = ''annuity'', spec_run_at = None,
       spec_max_attempts = 5, spec_dedupe_key = Some (''annuity.workflow_sync:'' @ sha256_hex c (dump_text c (dump_annuity c p))),
       spec_payload_version = 1, spec_source_event_id = (case ids of [x] \<Rightarrow> Some x | _ \<Rightarrow> None), spec_provider_request_id = None,
       spec_idempotency_scope = Some ''annuity.workflow_sync''\<rparr>)"

definition enqueue_annuity_sync_durable ::
  "sync_codec \<Rightarrow> sync_env \<Rightarrow> string list \<Rightarrow> string list \<Rightarrow> bool \<Rightarrow> bool \<Rightarrow> bool \<Rightarrow> sync_state \<Rightarrow> bool \<times> sync_state"
where
  "enqueue_annuity_sync_durable c e aids mids ensure_rows refresh allow_testing s =
     (let p = annuity_sync_payload aids mids ensure_rows refresh in
      if pa_annuity_ids p = [] \<and> pa_matter_ids p = [] then (True, s)
      else if se_testing e \<and> \<not> allow_testing then (True, s)
      else if \<not> (case se_annuity_durable e of Some b \<Rightarrow> b | None \<Rightarrow> se_durable_enabled e) then (False, s)
      else durable_enqueue e (annuity_spec c p) s)"

text \<open>Both ids sets of the session, handed over durably or else to the background.\<close>

definition hand_over_annuities :: "sync_codec \<Rightarrow> sync_env \<Rightarrow> sync_state \<Rightarrow> sync_state" where
  "hand_over_annuities c e s =
     (let i = ss_info s; aids = si_annuity_ids i; mids = si_annuity_matters i;
          s1 = s\<lparr>ss_info := i\<lparr>si_annuity_ids := [], si_annuity_matters := []\<rparr>\<rparr> in
      if aids = [] \<and> mids = [] then s1
      else case enqueue_annuity_sync_durable c e aids mids False False False s1 of
        (True, s2) \<Rightarrow> s2
      | (False, s2) \<Rightarrow> run_async e (BgAnnuity aids mids False False ''after_commit.annuity_sync'') s2)"

definition drain_annuity_sync_now :: "sync_codec \<Rightarrow> sync_env \<Rightarrow> sync_state \<Rightarrow> sync_state" where
  "drain_annuity_sync_now c e s = (if \<not> se_app e then s else hand_over_annuities c e s)"

definition enqueue_annuity_sync_for_matter :: "sync_codec \<Rightarrow> sync_env \<Rightarrow> bool \<Rightarrow> string option \<Rightarrow> sync_state \<Rightarrow> sync_state" where
  "enqueue_annuity_sync_for_matter c e rebuild_fails mid s =
     (if or_empty mid = [] then s
      else
        let i = ss_info s;
            s1 = s\<lparr>ss_info := i\<lparr>si_annuity_matters := add_to_set (or_empty mid) (si_annuity_matters i)\<rparr>,
                   ss_rebuilds := enqueue_annuity_matter_rebuild (se_now e) rebuild_fails mid (Some ''annuity_changed'') (ss_rebuilds s)\<rparr> in
        if se_in_transaction e then s1 else drain_annuity_sync_now c e s1)"

text \<open>\<open>matter_of\<close> is the query for the matter of an annuity, \<open>None\<close> when it fails.\<close>

definition enqueue_annuity_sync ::
  "sync_codec \<Rightarrow> sync_env \<Rightarrow> bool \<Rightarrow> (string \<Rightarrow> string option option) \<Rightarrow> string option \<Rightarrow> sync_state \<Rightarrow> sync_state"
where
  "enqueue_annuity_sync c e rebuild_fails matter_of aid s =
     (if or_empty aid = [] then s
      else
        let i = ss_info s;
            s1 = s\<lparr>ss_info := i\<lparr>si_annuity_ids := add_to_set (or_empty aid) (si_annuity_ids i)\<rparr>\<rparr>;
            s2 = (case matter_of (or_empty aid) of
                    None \<Rightarrow> s1
                  | Some mid \<Rightarrow> enqueue_annuity_sync_for_matter c e rebuild_fails mid s1) in
        if se_in_transaction e then s2 else drain_annuity_sync_now c e s2)"

text \<open>Both entry points for handlers that run after a commit; they differ in \<open>ensure_rows\<close>.\<close>

definition schedule_annuities ::
  "sync_codec \<Rightarrow> sync_env \<Rightarrow> bool \<Rightarrow> bool \<Rightarrow> string option list \<Rightarrow> sync_state \<Rightarrow> sync_state"
where
  "schedule_annuities c e ensure_rows allow_testing ids s =
     (let mids = remdups (map strip (filter (\<lambda>m. strip m \<noteq> []) (map or_empty ids))) in
      if mids = [] \<or> \<not> se_app e then s
      else case enqueue_annuity_sync_durable c e [] mids ensure_rows ensure_rows allow_testing s of
        (True, s1) \<Rightarrow> s1
      | (False, s1) \<Rightarrow> run_async e (BgAnnuity [] mids ensure_rows ensure_rows
          (if ensure_rows then ''after_commit.annuity_ensure'' else ''after_commit.annuity_sync'')) s1)"

definition enqueue_annuity_sync_for_matter_ids_after_commit ::
  "sync_codec \<Rightarrow> sync_env \<Rightarrow> bool \<Rightarrow> string option list \<Rightarrow> sync_state \<Rightarrow> sync_state"
where
  "enqueue_annuity_sync_for_matter_ids_after_commit c e allow_testing ids s = schedule_annuities c e False allow_testing ids s"

definition enqueue_annuity_ensure_for_matter_ids_after_commit ::
  "sync_codec \<Rightarrow> sync_env \<Rightarrow> bool \<Rightarrow> string option list \<Rightarrow> sync_state \<Rightarrow> sync_state"
where
  "enqueue_annuity_ensure_for_matter_ids_after_commit c e allow_testing ids s = schedule_annuities c e True allow_testing ids s"

definition enqueue_annuity_sync_for_item ::
  "sync_codec \<Rightarrow> sync_env \<Rightarrow> bool \<Rightarrow> (string \<Rightarrow> string option option) \<Rightarrow> string option \<Rightarrow> string option \<Rightarrow> sync_state \<Rightarrow> sync_state"
where
  "enqueue_annuity_sync_for_item c e rebuild_fails matter_of aid mid s =
     (let s1 = (if or_empty aid \<noteq> [] then enqueue_annuity_sync c e rebuild_fails matter_of aid s else s) in
      if or_empty mid \<noteq> [] then enqueue_annuity_sync_for_matter c e rebuild_fails mid s1 else s1)"

section \<open>After a commit or a rollback\<close>

definition after_commit_annuity :: "sync_codec \<Rightarrow> sync_env \<Rightarrow> sync_state \<Rightarrow> sync_state" where
  "after_commit_annuity c e s = (if se_in_transaction e \<or> \<not> se_app e then s else hand_over_annuities c e s)"

definition run_operational_sync_immediately ::
  "sync_env \<Rightarrow> docket_queue \<Rightarrow> docket_queue \<Rightarrow> task_queue \<Rightarrow> sync_state \<Rightarrow> sync_state"
where
  "run_operational_sync_immediately e dq aq tq s =
     (if dq = [] \<and> aq = [] \<and> tq = [] then s
      else if \<not> se_app e \<or> se_testing e then s
      else run_async e (BgDeferred dq aq tq ''after_commit.operational_docket_workflow_sync'') s)"

definition deferred_payload :: "docket_queue \<Rightarrow> docket_queue \<Rightarrow> task_queue \<Rightarrow> (string \<times> string) list \<Rightarrow> sync_payload" where
  "deferred_payload dq aq tq meta =
     \<lparr>pl_dockets = dq, pl_annuities = aq, pl_workflows = [], pl_tasks = map (\<lambda>(k, v). (str_int k, v)) tq, pl_meta = meta\<rparr>"

definition deferred_spec :: "sync_codec \<Rightarrow> sync_payload \<Rightarrow> enqueue_spec" where
  "deferred_spec c p =
     \<lparr>spec_task = ''deferred.sync'', spec_payload = dump_payload c p, spec_queue = ''deferred'', spec_run_at = None, spec_max_attempts = 5,
      spec_dedupe_key = Some (''deferred.sync:'' @ sha256_hex c (dump_text c (dump_payload c p))), spec_payload_version = 1,
      spec_source_event_id = None, spec_provider_request_id = None, spec_idempotency_scope = Some ''deferred.sync''\<rparr>"

definition enqueue_deferred_sync_durable ::
  "sync_codec \<Rightarrow> sync_env \<Rightarrow> docket_queue \<Rightarrow> docket_queue \<Rightarrow> task_queue \<Rightarrow> (string \<times> string) list \<Rightarrow> sync_state \<Rightarrow> bool \<times> sync_state"
where
  "enqueue_deferred_sync_durable c e dq aq tq meta s =
     (if \<not> se_app e then (False, s)
      else if se_testing e then (True, s)
      else if dq = [] \<and> aq = [] \<and> tq = [] then (True, s)
      else durable_enqueue e (deferred_spec c (deferred_payload dq aq tq meta)) s)"

definition after_commit_docket :: "sync_codec \<Rightarrow> sync_env \<Rightarrow> sync_state \<Rightarrow> sync_state" where
  "after_commit_docket c e s =
     (let i = ss_info s in
      if se_nested e \<or> si_in_handler i then s
      else
        let dq = si_dockets i; aq = si_annuities_old i; tq = si_tasks i;
            s1 = s\<lparr>ss_info := i\<lparr>si_meta := [], si_dockets := [], si_annuities_old := [], si_tasks := [], si_dedupe := []\<rparr>\<rparr> in
        if dq = [] \<and> aq = [] \<and> tq = [] then s1
        else if \<not> se_app e then s1
        else
          let s2 = run_operational_sync_immediately e dq aq tq s1 in
          if \<not> se_durable_enabled e then run_async e (BgDeferred dq aq tq ''after_commit.docket_workflow_sync'') s2
          else case enqueue_deferred_sync_durable c e dq aq tq (si_meta i) s2 of
            (True, s3) \<Rightarrow> s3
          | (False, s3) \<Rightarrow> run_async e (BgDeferred dq aq tq ''after_commit.docket_workflow_sync'') s3)"

text \<open>Both listeners, in the order in which they were registered.\<close>

definition after_commit :: "sync_codec \<Rightarrow> sync_env \<Rightarrow> sync_state \<Rightarrow> sync_state" where
  "after_commit c e s = after_commit_docket c e (after_commit_annuity c e s)"

text \<open>SQLAlchemy fires \<open>after_commit\<close> when a savepoint is released and \<open>after_rollback\<close> when one is rolled back, as
  well as for the outermost transaction. The handler of the latter does not look which of the two it was.\<close>

definition after_rollback_deferred :: "sync_state \<Rightarrow> sync_state" where
  "after_rollback_deferred s = s\<lparr>ss_info := empty_info\<rparr>"

section \<open>Execution\<close>

text \<open>One kind of item: how it is named in a failure, whether it is still stored (\<open>Inl\<close> when the query raises)
  and its synchronisation up to the commit, which raises an exception of the given class or changes
  the domain. A failed synchronisation is rolled back.\<close>

record ('k, 'd) item_sync =
  is_label :: "'k \<Rightarrow> string"
  is_load :: "'k \<Rightarrow> 'd \<Rightarrow> string + bool"
  is_run :: "'k \<Rightarrow> int option \<Rightarrow> 'd \<Rightarrow> string + 'd"

text \<open>The loop over one queue: an exception of a query ends the run, anything else is noted and the loop goes on.\<close>

fun run_items :: "('k, 'd) item_sync \<Rightarrow> ('k \<times> int option) list \<Rightarrow> string list \<times> 'd \<Rightarrow> string option \<times> string list \<times> 'd" where
  "run_items h [] (failures, d) = (None, failures, d)"
| "run_items h ((k, actor) # q) (failures, d) =
     (case is_load h k d of
        Inl exn \<Rightarrow> (Some exn, failures, d)
      | Inr False \<Rightarrow> run_items h q (failures, d)
      | Inr True \<Rightarrow>
          (case is_run h k actor d of
             Inl exn \<Rightarrow> run_items h q (failures @ [is_label h k @ '':'' @ exn], d)
           | Inr d' \<Rightarrow> run_items h q (failures, d')))"

record 'd sync_domain =
  docket_sync :: "(string, 'd) item_sync"
  annuity_sync :: "string \<Rightarrow> 'd \<Rightarrow> string + 'd"
  task_sync :: "(int, 'd) item_sync"

text \<open>The three kinds; annuities are not looked up first.\<close>

definition docket_items :: "'d sync_domain \<Rightarrow> (string, 'd) item_sync" where
  "docket_items D = (docket_sync D)\<lparr>is_label := \<lambda>k. ''docket:'' @ k\<rparr>"

definition annuity_items :: "'d sync_domain \<Rightarrow> (string, 'd) item_sync" where
  "annuity_items D = \<lparr>is_label = (\<lambda>k. ''annuity:'' @ k), is_load = (\<lambda>k d. Inr True), is_run = (\<lambda>k a d. annuity_sync D k d)\<rparr>"

definition task_items :: "'d sync_domain \<Rightarrow> (int, 'd) item_sync" where
  "task_items D = (task_sync D)\<lparr>is_label := \<lambda>k. ''workflow_task:'' @ str_int k\<rparr>"

datatype run_result = RunOk | RunFailed "string list" | RunRaised string

text \<open>\<open>_run_deferred_sync\<close>. The workflow queue of removed jobs is ignored.\<close>

definition run_deferred_sync ::
  "'d sync_domain \<Rightarrow> bool \<Rightarrow> docket_queue \<Rightarrow> docket_queue \<Rightarrow> task_queue \<Rightarrow> 'd \<Rightarrow> run_result \<times> 'd"
where
  "run_deferred_sync D raise_on_error dq aq tq d =
     (let finish = (\<lambda>exn d. (if raise_on_error then RunRaised exn else RunOk, d)) in
      case run_items (docket_items D) dq ([], d) of
        (Some exn, f, d1) \<Rightarrow> finish exn d1
      | (None, f, d1) \<Rightarrow>
          (case run_items (annuity_items D) aq (f, d1) of
             (Some exn, f, d2) \<Rightarrow> finish exn d2
           | (None, f, d2) \<Rightarrow>
               (case run_items (task_items D) tq (f, d2) of
                  (Some exn, f, d3) \<Rightarrow> finish exn d3
                | (None, f, d3) \<Rightarrow> (if f \<noteq> [] \<and> raise_on_error then RunFailed f else RunOk, d3))))"

definition critical_deferred_failures :: "string list \<Rightarrow> string list" where
  "critical_deferred_failures fs = filter (\<lambda>f. \<not> startswith f ''workflow:'') fs"

text \<open>The handler of the durable task \<open>deferred.sync\<close>, with the payload unwrapped; keys of the task queue
  that are not numbers are skipped.\<close>

definition decode_tasks :: "docket_queue \<Rightarrow> task_queue" where
  "decode_tasks q = fold (\<lambda>(k, v) m. case py_int k of None \<Rightarrow> m | Some n \<Rightarrow> AList.update n v m) q []"

definition run_deferred_sync_task :: "'d sync_domain \<Rightarrow> sync_payload \<Rightarrow> 'd \<Rightarrow> run_result \<times> 'd" where
  "run_deferred_sync_task D p d =
     (case run_deferred_sync D True (pl_dockets p) (pl_annuities p) (decode_tasks (pl_tasks p)) d of
        (RunFailed fs, d') \<Rightarrow>
          (if critical_deferred_failures fs \<noteq> [] then RunFailed (critical_deferred_failures fs) else RunOk, d')
      | r \<Rightarrow> r)"

section \<open>Nothing is lost between a commit and the handler\<close>

lemma AList_update_keys: "set (map fst (AList.update k v q)) = insert k (set (map fst q))"
  by (induction q) auto

lemma distinct_AList_update: "distinct (map fst q) \<Longrightarrow> distinct (map fst (AList.update k v q))"
  by (rule distinct_update)

definition info_ok :: "sync_info \<Rightarrow> bool" where
  "info_ok i \<longleftrightarrow> distinct (map fst (si_dockets i)) \<and> distinct (map fst (si_tasks i)) \<and> (\<forall>k \<in> set (map fst (si_tasks i)). 0 \<le> k)"

lemma info_ok_docket: "info_ok i \<Longrightarrow> info_ok (enqueue_docket_sync did actor i)"
  by (simp add: info_ok_def enqueue_docket_sync_def mark_dedupe_key_def Let_def distinct_AList_update)

lemma info_ok_task: "info_ok i \<Longrightarrow> 0 \<le> wid \<Longrightarrow> info_ok (enqueue_workflow_task_sync wid actor i)"
  by (auto simp: info_ok_def enqueue_workflow_task_sync_def mark_dedupe_key_def Let_def distinct_AList_update AList_update_keys
      simp del: set_map split: option.splits)

text \<open>An enqueued item is in the queue, with the actor the code keeps: the latest known one for dockets,
  the first known one for tasks.\<close>

lemma docket_queued:
  "map_of (si_dockets (enqueue_docket_sync did actor i)) k =
     (if k = did then Some (case actor of Some a \<Rightarrow> Some a
        | None \<Rightarrow> (case map_of (si_dockets i) did of None \<Rightarrow> None | Some a \<Rightarrow> a))
      else map_of (si_dockets i) k)"
proof (cases "map_of (si_dockets i) did")
  case None
  then have "did \<notin> fst ` set (si_dockets i)" by (simp add: map_of_eq_None_iff)
  with None show ?thesis
    by (auto simp: enqueue_docket_sync_def mark_dedupe_key_def Let_def update_conv' split: option.splits)
next
  case (Some x)
  then have "did \<in> fst ` set (si_dockets i)" by (force dest: map_of_SomeD)
  with Some show ?thesis
    by (auto simp: enqueue_docket_sync_def mark_dedupe_key_def Let_def update_conv' split: option.splits)
qed

lemma task_queued:
  "map_of (si_tasks (enqueue_workflow_task_sync wid actor i)) k =
     (if k = wid then Some (case map_of (si_tasks i) wid of Some (Some a) \<Rightarrow> Some a | _ \<Rightarrow> actor)
      else map_of (si_tasks i) k)"
  by (auto simp: enqueue_workflow_task_sync_def mark_dedupe_key_def Let_def update_conv' split: option.splits)

lemma decode_tasks_aux:
  fixes q m :: task_queue
  assumes "distinct (map fst q)" and "\<forall>k \<in> set (map fst q). 0 \<le> k" and "set (map fst q) \<inter> set (map fst m) = {}"
  shows "fold (\<lambda>(k, v) m. case py_int k of None \<Rightarrow> m | Some n \<Rightarrow> AList.update n v m) (map (\<lambda>(k, v). (str_int k, v)) q) m = m @ q"
  using assms
proof (induction q arbitrary: m)
  case (Cons x q)
  obtain k v where x: "x = (k, v)" by fastforce
  have new: "AList.update k v m = m @ [(k, v)]" if "k \<notin> set (map fst m)" for m :: task_queue using that by (induction m) auto
  from Cons.prems x have "py_int (str_int k) = Some k" by (simp add: py_int_str_int)
  moreover have "AList.update k v m = m @ [(k, v)]" using Cons.prems x by (intro new) auto
  moreover have "set (map fst q) \<inter> set (map fst (m @ [(k, v)])) = {}" using Cons.prems x by auto
  ultimately show ?case using Cons.IH [of "m @ [(k, v)]"] Cons.prems x by simp
qed simp

lemma decode_tasks_round_trip:
  "distinct (map fst q) \<Longrightarrow> \<forall>k \<in> set (map fst q). 0 \<le> k \<Longrightarrow> decode_tasks (map (\<lambda>(k, v). (str_int k, v)) q) = q"
  unfolding decode_tasks_def by (subst decode_tasks_aux) auto

section \<open>Requests of one transaction\<close>

datatype sync_request = ReqDocket string "int option" | ReqTask int "int option" | ReqMeta "(string \<times> string option) list"

fun apply_request :: "sync_request \<Rightarrow> sync_info \<Rightarrow> sync_info" where
  "apply_request (ReqDocket did actor) i = enqueue_docket_sync did actor i"
| "apply_request (ReqTask wid actor) i = enqueue_workflow_task_sync wid actor i"
| "apply_request (ReqMeta meta) i = set_deferred_sync_meta meta i"

fun valid_request :: "sync_request \<Rightarrow> bool" where
  "valid_request (ReqTask wid actor) = (0 \<le> wid)"
| "valid_request _ = True"

text \<open>What a later request leaves of the queues.\<close>

definition queues_grow :: "sync_info \<Rightarrow> sync_info \<Rightarrow> bool" where
  "queues_grow i j \<longleftrightarrow> set (map fst (si_dockets i)) \<subseteq> set (map fst (si_dockets j)) \<and> set (map fst (si_tasks i)) \<subseteq> set (map fst (si_tasks j))
     \<and> si_in_handler j = si_in_handler i \<and> (info_ok i \<longrightarrow> info_ok j)"

lemma queues_grow_trans: "queues_grow i j \<Longrightarrow> queues_grow j k \<Longrightarrow> queues_grow i k"
  unfolding queues_grow_def by blast

lemma in_keys: "k \<in> set (map fst q) \<longleftrightarrow> map_of q k \<noteq> None"
  by (simp add: map_of_eq_None_iff)

lemma request_grows: "valid_request r \<Longrightarrow> queues_grow i (apply_request r i)"
proof (cases r)
  case (ReqDocket did actor)
  have "set (map fst (si_dockets i)) \<subseteq> set (map fst (si_dockets (enqueue_docket_sync did actor i)))"
    unfolding in_keys subset_iff by (auto simp: docket_queued)
  then show ?thesis using ReqDocket info_ok_docket
    by (simp add: queues_grow_def) (simp add: enqueue_docket_sync_def mark_dedupe_key_def Let_def)
next
  case (ReqTask wid actor)
  assume "valid_request r"
  have "set (map fst (si_tasks i)) \<subseteq> set (map fst (si_tasks (enqueue_workflow_task_sync wid actor i)))"
    unfolding in_keys subset_iff by (auto simp: task_queued split: option.splits)
  with ReqTask \<open>valid_request r\<close> show ?thesis using info_ok_task
    by (simp add: queues_grow_def) (simp add: enqueue_workflow_task_sync_def mark_dedupe_key_def Let_def)
next
  case (ReqMeta meta)
  then show ?thesis by (simp add: queues_grow_def set_deferred_sync_meta_def info_ok_def)
qed

lemma requests_grow: "\<forall>r \<in> set rs. valid_request r \<Longrightarrow> queues_grow i (fold apply_request rs i)"
proof (induction rs arbitrary: i)
  case (Cons r rs)
  then have "queues_grow i (apply_request r i)" "queues_grow (apply_request r i) (fold apply_request rs (apply_request r i))"
    using request_grows by auto
  then show ?case using queues_grow_trans by simp
qed (simp add: queues_grow_def)

definition requested :: "sync_request \<Rightarrow> sync_info \<Rightarrow> bool" where
  "requested r i \<longleftrightarrow> (case r of ReqDocket did actor \<Rightarrow> did \<in> set (map fst (si_dockets i))
     | ReqTask wid actor \<Rightarrow> wid \<in> set (map fst (si_tasks i)) | ReqMeta meta \<Rightarrow> True)"

lemma requested_after: "\<forall>r \<in> set rs. valid_request r \<Longrightarrow> r \<in> set rs \<Longrightarrow> requested r (fold apply_request rs i)"
proof (induction rs arbitrary: i)
  case (Cons x rs)
  show ?case
  proof (cases "r \<in> set rs")
    case True
    with Cons show ?thesis by simp
  next
    case False
    with Cons.prems have r: "r = x" by simp
    have "requested r (apply_request r i)"
      by (cases r) (auto simp: requested_def in_keys docket_queued task_queued simp del: set_map)
    moreover have "queues_grow (apply_request r i) (fold apply_request rs (apply_request r i))"
      using Cons.prems by (intro requests_grow) simp
    ultimately show ?thesis using r by (auto simp: requested_def queues_grow_def split: sync_request.splits)
  qed
qed simp

lemma only_requested:
  "map_of (si_dockets (fold apply_request rs i)) did \<noteq> None \<Longrightarrow> map_of (si_dockets i) did \<noteq> None \<or> (\<exists>a. ReqDocket did a \<in> set rs)"
  "map_of (si_tasks (fold apply_request rs i)) wid \<noteq> None \<Longrightarrow> map_of (si_tasks i) wid \<noteq> None \<or> (\<exists>a. ReqTask wid a \<in> set rs)"
proof (induction rs arbitrary: i)
  case (Cons r rs)
  have d: "si_dockets (enqueue_workflow_task_sync w a i) = si_dockets i" "si_tasks (enqueue_docket_sync k a i) = si_tasks i"
    "si_dockets (set_deferred_sync_meta m i) = si_dockets i" "si_tasks (set_deferred_sync_meta m i) = si_tasks i" for w k a m i
    by (simp_all add: enqueue_workflow_task_sync_def enqueue_docket_sync_def mark_dedupe_key_def set_deferred_sync_meta_def Let_def)
  {
    case 1
    with Cons.IH(1) [of "apply_request r i"] show ?case by (cases r) (auto simp: d docket_queued split: if_splits)
  next
    case 2
    with Cons.IH(2) [of "apply_request r i"] show ?case by (cases r) (auto simp: d task_queued split: if_splits)
  }
qed auto

section \<open>The events of one session\<close>

text \<open>What happens on a session before the end of its outermost transaction: requests, and savepoints that are
  released or rolled back, which fire the handlers.\<close>

datatype session_event = Requested sync_request | SavepointReleased | SavepointRolledBack

fun apply_event :: "sync_codec \<Rightarrow> sync_env \<Rightarrow> session_event \<Rightarrow> sync_state \<Rightarrow> sync_state" where
  "apply_event c e (Requested r) s = s\<lparr>ss_info := apply_request r (ss_info s)\<rparr>"
| "apply_event c e SavepointReleased s = after_commit c (e\<lparr>se_in_transaction := True, se_nested := True\<rparr>) s"
| "apply_event c e SavepointRolledBack s = after_rollback_deferred s"

fun requests_of :: "session_event list \<Rightarrow> sync_request list" where
  "requests_of [] = []"
| "requests_of (Requested r # evs) = r # requests_of evs"
| "requests_of (_ # evs) = requests_of evs"

lemma set_requests_of: "set (requests_of evs) = {r. Requested r \<in> set evs}"
  by (induction evs rule: requests_of.induct) auto

lemma released_keeps: "after_commit c (e\<lparr>se_in_transaction := True, se_nested := True\<rparr>) s = s"
  by (simp add: after_commit_def after_commit_annuity_def after_commit_docket_def)

lemma events_info:
  "SavepointRolledBack \<notin> set evs \<Longrightarrow> fold (apply_event c e) evs s = s\<lparr>ss_info := fold apply_request (requests_of evs) (ss_info s)\<rparr>"
  by (induction evs arbitrary: s rule: requests_of.induct) (simp_all add: released_keeps)

lemma events_keep:
  "ss_background (fold (apply_event c e) evs s) = ss_background s \<and> ss_durable (fold (apply_event c e) evs s) = ss_durable s"
  by (induction evs arbitrary: s rule: requests_of.induct) (simp_all add: released_keeps after_rollback_deferred_def)

lemma rolled_back_info:
  assumes "old \<noteq> []" and "last old = SavepointRolledBack"
  shows "ss_info (fold (apply_event c e) old s) = empty_info"
proof -
  obtain evs where "old = evs @ [SavepointRolledBack]" using assms by (metis append_butlast_last_id)
  then show ?thesis by (simp add: after_rollback_deferred_def)
qed

lemma nothing_after_rollback:
  "ss_background (after_commit c e (after_rollback_deferred s)) = ss_background s"
  "ss_durable (after_commit c e (after_rollback_deferred s)) = ss_durable s"
  by (simp_all add: after_commit_def after_commit_annuity_def hand_over_annuities_def after_commit_docket_def after_rollback_deferred_def
      empty_info_def Let_def)

text \<open>The rollback of a savepoint drops the requests of the whole transaction: whatever was requested before it,
  inside the savepoint or outside, the commit of the transaction then schedules nothing of it.\<close>

lemma savepoint_rollback_drops_requests:
  "ss_background (after_commit c e (fold (apply_event c e) (evs @ [SavepointRolledBack]) s)) = ss_background s
   \<and> ss_durable (after_commit c e (fold (apply_event c e) (evs @ [SavepointRolledBack]) s)) = ss_durable s"
  using events_keep [of c e evs s] by (simp add: nothing_after_rollback)

section \<open>The durable queue as its producers see it\<close>

text \<open>A queue that keeps one active entry per key: what a producer may rely on.\<close>

locale keyed_queue =
  fixes put :: "'spec \<Rightarrow> 'q \<Rightarrow> 'q" and key_of :: "'spec \<Rightarrow> 'k option" and active :: "'k \<Rightarrow> 'q \<Rightarrow> bool" and ok :: "'q \<Rightarrow> bool"
  assumes put_ok: "ok q \<Longrightarrow> ok (put x q)"
    and put_active: "ok q \<Longrightarrow> key_of x = Some k \<Longrightarrow> active k (put x q)"
    and put_keeps: "ok q \<Longrightarrow> active k q \<Longrightarrow> active k (put x q)"
    and put_known: "ok q \<Longrightarrow> key_of x = Some k \<Longrightarrow> active k q \<Longrightarrow> put x q = q"
begin

lemma puts_ok: "ok q \<Longrightarrow> ok (fold put xs q)"
  by (induction xs arbitrary: q) (simp_all add: put_ok)

lemma puts_keep: "ok q \<Longrightarrow> active k q \<Longrightarrow> active k (fold put xs q)"
  by (induction xs arbitrary: q) (simp_all add: put_ok put_keeps)

lemma puts_active: "ok q \<Longrightarrow> x \<in> set xs \<Longrightarrow> key_of x = Some k \<Longrightarrow> active k (fold put xs q)"
proof (induction xs arbitrary: q)
  case (Cons y xs)
  show ?case
  proof (cases "x = y")
    case True
    with Cons.prems have "active k (put y q)" "ok (put y q)" using put_active put_ok by blast+
    then show ?thesis using puts_keep by simp
  next
    case False
    with Cons put_ok show ?thesis by simp
  qed
qed simp

lemma put_twice: "ok q \<Longrightarrow> key_of x = Some k \<Longrightarrow> put x (fold put xs (put x q)) = fold put xs (put x q)"
  by (metis put_active put_known put_ok puts_keep puts_ok)

end

type_synonym job_key = "string \<times> string \<times> string"

definition spec_key :: "enqueue_spec \<Rightarrow> job_key option" where
  "spec_key a = map_option (\<lambda>k. (spec_queue a, spec_task a, k)) (clean_optional (spec_dedupe_key a))"

definition active_job :: "job_key \<Rightarrow> durable_db \<Rightarrow> bool" where
  "active_job k db \<longleftrightarrow> list_ex (dedupe_match (fst k) (fst (snd k)) (snd (snd k))) (jobs db)"

definition put_job :: "datetime \<Rightarrow> enqueue_spec \<Rightarrow> durable_db \<Rightarrow> durable_db" where
  "put_job now a db = snd (enqueue a now False (jobs db) db)"

lemma enqueue_cases:
  assumes "dq_inv db" and "clean_optional (spec_dedupe_key a) = Some k"
  shows "(\<exists>j. enqueue a now False (jobs db) db = (Existing j, db) \<and> j \<in> set (jobs db) \<and> dedupe_match (spec_queue a) (spec_task a) k j)
    \<or> (enqueue a now False (jobs db) db = (Created (new_job a now (next_job_id db)),
          db\<lparr>jobs := jobs db @ [new_job a now (next_job_id db)], next_job_id := next_job_id db + 1\<rparr>)
        \<and> \<not> active_job (spec_queue a, spec_task a, k) db)"
proof (cases "find_existing_deduped_job (spec_queue a) (spec_task a) (Some k) (jobs db)")
  case None
  moreover from None have "\<not> active_job (spec_queue a, spec_task a, k) db"
    using find_existing_None clean_optional_not_empty [OF assms(2)] by (fastforce simp: active_job_def list_ex_iff)
  ultimately show ?thesis using enqueue_insert [OF assms None, of now] by simp
next
  case (Some j)
  with find_existing_Some [OF Some] assms(2) show ?thesis by (auto simp: enqueue_def Let_def)
qed

lemma new_job_matches: "clean_optional (spec_dedupe_key a) = Some k \<Longrightarrow> dedupe_match (spec_queue a) (spec_task a) k (new_job a now i)"
  by (simp add: dedupe_match_def is_active_def)

interpretation dqueue: keyed_queue "put_job now" spec_key active_job dq_inv
proof
  fix q x
  show "dq_inv q \<Longrightarrow> dq_inv (put_job now x q)"
    using dq_keeps_enqueue [of q x now False "jobs q"] by (simp add: put_job_def dq_keeps_def)
next
  fix q x k
  assume inv: "dq_inv q" and "spec_key x = Some k"
  then obtain key where key: "clean_optional (spec_dedupe_key x) = Some key" "k = (spec_queue x, spec_task x, key)"
    by (auto simp: spec_key_def)
  from enqueue_cases [OF inv key(1), of now] new_job_matches [OF key(1)] key(2)
  show "active_job k (put_job now x q)" by (auto simp: put_job_def active_job_def list_ex_iff)
  show "active_job k q \<Longrightarrow> put_job now x q = q"
    using enqueue_cases [OF inv key(1), of now] key(2) by (auto simp: put_job_def)
next
  fix q k x
  assume inv: "dq_inv q" and act: "active_job k q"
  show "active_job k (put_job now x q)"
  proof -
    have "set (jobs q) \<subseteq> set (jobs (put_job now x q))"
      by (auto simp: put_job_def enqueue_def Let_def split: option.splits if_splits)
    with act show ?thesis by (auto simp: active_job_def list_ex_iff)
  qed
qed

section \<open>The hand-over\<close>

lemma durable_enqueue_put:
  assumes "dq_inv (ss_durable s)" and "clean_optional (spec_dedupe_key spec) = Some k" and "\<not> se_enqueue_fails e (spec_task spec)"
  shows "durable_enqueue e spec s = (True, s\<lparr>ss_durable := put_job (se_now e) spec (ss_durable s)\<rparr>)"
  using enqueue_cases [OF assms(1,2), of "se_now e"] assms(3) by (auto simp: durable_enqueue_def put_job_def)

lemma deferred_key: "\<exists>k. clean_optional (spec_dedupe_key (deferred_spec c p)) = Some k"
proof -
  have ns: "\<not> is_space (CHR ''d'')" by code_simp
  have "strip (''deferred.sync:'' @ t) \<noteq> []" for t
    using ns by (auto simp: strip_def strip_chars_def lstrip_chars_def rstrip_chars_def)
  then show ?thesis by (auto simp: deferred_spec_def clean_optional_def or_none_def simp del: append.simps)
qed

definition handed_over :: "sync_codec \<Rightarrow> sync_info \<Rightarrow> sync_state \<Rightarrow> bool" where
  "handed_over c i s \<longleftrightarrow>
     BgDeferred (si_dockets i) (si_annuities_old i) (si_tasks i) ''after_commit.operational_docket_workflow_sync'' \<in> set (ss_background s)
     \<and> (BgDeferred (si_dockets i) (si_annuities_old i) (si_tasks i) ''after_commit.docket_workflow_sync'' \<in> set (ss_background s)
        \<or> (\<exists>k. spec_key (deferred_spec c (deferred_payload (si_dockets i) (si_annuities_old i) (si_tasks i) (si_meta i))) = Some k
              \<and> active_job k (ss_durable s)))"

lemma after_commit_docket_hands_over:
  assumes "se_app e" and "\<not> se_testing e" and "\<not> se_nested e" and "\<not> si_in_handler (ss_info s)" and "dq_inv (ss_durable s)"
    and "si_dockets (ss_info s) \<noteq> [] \<or> si_tasks (ss_info s) \<noteq> []"
  shows "handed_over c (ss_info s) (after_commit_docket c e s)
    \<and> si_dockets (ss_info (after_commit_docket c e s)) = [] \<and> si_tasks (ss_info (after_commit_docket c e s)) = []"
proof -
  let ?i = "ss_info s"
  let ?spec = "deferred_spec c (deferred_payload (si_dockets ?i) (si_annuities_old ?i) (si_tasks ?i) (si_meta ?i))"
  define s1 where "s1 = s\<lparr>ss_info := ?i\<lparr>si_meta := [], si_dockets := [], si_annuities_old := [], si_tasks := [], si_dedupe := []\<rparr>\<rparr>"
  define s2 where "s2 = run_operational_sync_immediately e (si_dockets ?i) (si_annuities_old ?i) (si_tasks ?i) s1"
  have s2: "BgDeferred (si_dockets ?i) (si_annuities_old ?i) (si_tasks ?i) ''after_commit.operational_docket_workflow_sync'' \<in> set (ss_background s2)"
    "si_dockets (ss_info s2) = []" "si_tasks (ss_info s2) = []" "ss_durable s2 = ss_durable s"
    using assms(1,2,6) by (auto simp: s2_def s1_def run_operational_sync_immediately_def run_async_def)
  obtain k where k: "clean_optional (spec_dedupe_key ?spec) = Some k" using deferred_key by blast
  have eq: "after_commit_docket c e s =
      (if \<not> se_durable_enabled e then run_async e (BgDeferred (si_dockets ?i) (si_annuities_old ?i) (si_tasks ?i) ''after_commit.docket_workflow_sync'') s2
       else case durable_enqueue e ?spec s2 of (True, s3) \<Rightarrow> s3
         | (False, s3) \<Rightarrow> run_async e (BgDeferred (si_dockets ?i) (si_annuities_old ?i) (si_tasks ?i) ''after_commit.docket_workflow_sync'') s3)"
    unfolding after_commit_docket_def Let_def s1_def [symmetric] s2_def [symmetric] enqueue_deferred_sync_durable_def using assms(1-4,6) by auto
  have bg: "handed_over c ?i (run_async e (BgDeferred (si_dockets ?i) (si_annuities_old ?i) (si_tasks ?i) ''after_commit.docket_workflow_sync'') t)"
    if "set (ss_background s2) \<subseteq> set (ss_background t)" for t
    using that s2(1) assms(2) by (auto simp: handed_over_def run_async_def)
  have keep: "ss_info (run_async e r t) = ss_info t" for r t by (simp add: run_async_def)
  have de: "ss_info (snd (durable_enqueue e ?spec s2)) = ss_info s2 \<and> ss_background (snd (durable_enqueue e ?spec s2)) = ss_background s2"
    by (simp add: durable_enqueue_def split: prod.splits)
  show ?thesis
  proof (cases "se_durable_enabled e \<and> \<not> se_enqueue_fails e (spec_task ?spec)")
    case True
    then have "after_commit_docket c e s = s2\<lparr>ss_durable := put_job (se_now e) ?spec (ss_durable s)\<rparr>"
      using durable_enqueue_put [OF _ k] assms(5) by (simp add: eq s2(4))
    moreover have "spec_key ?spec = Some (spec_queue ?spec, spec_task ?spec, k)" by (simp add: spec_key_def k)
    ultimately show ?thesis using s2 dqueue.put_active [OF assms(5)] by (auto simp: handed_over_def)
  next
    case False
    consider "\<not> se_durable_enabled e" | (y) s3 where "se_durable_enabled e" "durable_enqueue e ?spec s2 = (True, s3)"
      | (n) s3 where "se_durable_enabled e" "durable_enqueue e ?spec s2 = (False, s3)"
      by (metis (full_types) prod.exhaust_sel)
    then show ?thesis
    proof cases
      case 1
      then show ?thesis using bg [of s2] s2 by (simp add: eq keep)
    next
      case y
      with de have s3: "ss_info s3 = ss_info s2" "ss_background s3 = ss_background s2" by auto
      have "\<exists>j. fst (enqueue ?spec (se_now e) (se_enqueue_fails e (spec_task ?spec)) (jobs (ss_durable s)) (ss_durable s)) = Existing j
          \<and> ss_durable s3 = ss_durable s"
        using False y s2(4) by (auto simp: durable_enqueue_def enqueue_def Let_def split: option.splits if_splits)
      then obtain j where j: "fst (enqueue ?spec (se_now e) (se_enqueue_fails e (spec_task ?spec)) (jobs (ss_durable s)) (ss_durable s)) = Existing j"
        "ss_durable s3 = ss_durable s" by blast
      with False y(1) k have "find_existing_deduped_job (spec_queue ?spec) (spec_task ?spec) (Some k) (jobs (ss_durable s)) = Some j"
        by (auto simp: enqueue_def Let_def split: option.splits if_splits)
      from find_existing_Some [OF this] have "active_job (spec_queue ?spec, spec_task ?spec, k) (ss_durable s3)"
        by (auto simp: active_job_def list_ex_iff j(2))
      with y s2 s3 k show ?thesis by (auto simp: eq handed_over_def spec_key_def)
    next
      case n
      with de have s3: "ss_info s3 = ss_info s2" "ss_background s3 = ss_background s2" by auto
      then show ?thesis using bg [of s3] n s2 by (simp add: eq keep)
    qed
  qed
qed

text \<open>C13: Work requested in a transaction is neither started early nor lost, unless a savepoint is rolled back after
  the request. Take any sequence of requests and of savepoints that are released or rolled back, on a session whose
  outermost transaction is still open, and let \<open>new\<close> be its part after the last rollback of a savepoint. Nothing is
  scheduled meanwhile. A commit of the outermost transaction hands over a queue that contains every docket and workflow
  requested in \<open>new\<close>, to the background service at once and in addition to an active durable job (or, when the durable
  queue is off or fails, to a second background run), and empties the session's queues; an event inside a savepoint
  keeps them, and after a rollback of the outermost transaction nothing at all is scheduled. But what was requested
  before the last rollback of a savepoint, inside or outside the savepoint, is gone: unless it was requested again,
  the commit hands over nothing of it.\<close>

theorem committed_requests_are_handed_over:
  assumes "info_ok (ss_info s)" and "\<not> si_in_handler (ss_info s)" and "\<And>r. Requested r \<in> set new \<Longrightarrow> valid_request r"
    and "dq_inv (ss_durable s)" and "se_app e" and "\<not> se_testing e"
    and "old = [] \<or> last old = SavepointRolledBack" and "SavepointRolledBack \<notin> set new"
    and "s1 = fold (apply_event c e) (old @ new) s" and "Requested r \<in> set new" and "\<And>meta. r \<noteq> ReqMeta meta"
  shows "requested r (ss_info s1) \<and> ss_background s1 = ss_background s \<and> ss_durable s1 = ss_durable s
    \<and> (\<not> se_nested e \<longrightarrow> handed_over c (ss_info s1) (after_commit_docket c e s1) \<and> si_dockets (ss_info (after_commit_docket c e s1)) = []
         \<and> si_tasks (ss_info (after_commit_docket c e s1)) = [])
    \<and> (se_nested e \<longrightarrow> after_commit_docket c e s1 = s1)
    \<and> ss_background (after_commit c e (after_rollback_deferred s1)) = ss_background s
    \<and> ss_durable (after_commit c e (after_rollback_deferred s1)) = ss_durable s
    \<and> (old \<noteq> [] \<longrightarrow> (\<forall>did. did \<in> set (map fst (si_dockets (ss_info s1))) \<longrightarrow> (\<exists>a. Requested (ReqDocket did a) \<in> set new))
         \<and> (\<forall>wid. wid \<in> set (map fst (si_tasks (ss_info s1))) \<longrightarrow> (\<exists>a. Requested (ReqTask wid a) \<in> set new)))"
proof -
  let ?s0 = "fold (apply_event c e) old s" and ?rs = "requests_of new"
  have v: "\<forall>r \<in> set ?rs. valid_request r" using assms(3) by (simp add: set_requests_of)
  have r: "r \<in> set ?rs" using assms(10) by (simp add: set_requests_of)
  have s1: "s1 = ?s0\<lparr>ss_info := fold apply_request ?rs (ss_info ?s0)\<rparr>" using assms(9) events_info [OF assms(8)] by simp
  have i0: "info_ok (ss_info ?s0) \<and> \<not> si_in_handler (ss_info ?s0)"
  proof (cases "old = []")
    case False
    with assms(7) have "ss_info ?s0 = empty_info" by (intro rolled_back_info) auto
    then show ?thesis by (simp add: info_ok_def empty_info_def)
  qed (use assms(1,2) in simp)
  have req: "requested r (ss_info s1)" using requested_after [OF v r] s1 by simp
  have "queues_grow (ss_info ?s0) (ss_info s1)" using requests_grow [OF v] s1 by simp
  then have nh: "\<not> si_in_handler (ss_info s1)" using i0 by (simp add: queues_grow_def)
  have ne: "si_dockets (ss_info s1) \<noteq> [] \<or> si_tasks (ss_info s1) \<noteq> []"
    using req assms(11) by (cases r) (auto simp: requested_def)
  have keep: "ss_background s1 = ss_background s" "ss_durable s1 = ss_durable s" using events_keep [of c e "old @ new" s] assms(9) by simp_all
  then have over: "\<not> se_nested e \<longrightarrow> handed_over c (ss_info s1) (after_commit_docket c e s1) \<and> si_dockets (ss_info (after_commit_docket c e s1)) = []
      \<and> si_tasks (ss_info (after_commit_docket c e s1)) = []"
    using after_commit_docket_hands_over [OF assms(5,6) _ nh _ ne] assms(4) by simp
  have nested: "se_nested e \<longrightarrow> after_commit_docket c e s1 = s1" by (simp add: after_commit_docket_def)
  have gone: "(\<forall>did. did \<in> set (map fst (si_dockets (ss_info s1))) \<longrightarrow> (\<exists>a. Requested (ReqDocket did a) \<in> set new))
      \<and> (\<forall>wid. wid \<in> set (map fst (si_tasks (ss_info s1))) \<longrightarrow> (\<exists>a. Requested (ReqTask wid a) \<in> set new))" if "old \<noteq> []"
  proof -
    have "ss_info ?s0 = empty_info" using that assms(7) by (intro rolled_back_info) auto
    then have i: "ss_info s1 = fold apply_request ?rs empty_info" using s1 by simp
    show ?thesis
      unfolding in_keys i using only_requested [of ?rs empty_info] by (simp add: empty_info_def set_requests_of)
  qed
  show ?thesis using req keep over nested gone nothing_after_rollback [of c e s1] by simp
qed

text \<open>Identical work is queued once. When the same queues are handed over again while the job of the first
  hand-over is still queued or running, no second job is inserted, whatever other jobs were put in between.\<close>

theorem identical_work_is_queued_once:
  assumes "dq_inv db"
  shows "put_job now (deferred_spec c p) (fold (put_job now) others (put_job now (deferred_spec c p) db))
    = fold (put_job now) others (put_job now (deferred_spec c p) db)"
proof -
  obtain k where "spec_key (deferred_spec c p) = Some k" using deferred_key [of c p] by (auto simp: spec_key_def)
  with assms show ?thesis by (rule dqueue.put_twice)
qed

section \<open>The handler runs every item\<close>

text \<open>The reference: items one after the other, a failing one without effect.\<close>

fun sync_each :: "('k, 'd) item_sync \<Rightarrow> ('k \<times> int option) list \<Rightarrow> 'd \<Rightarrow> 'd" where
  "sync_each h [] d = d"
| "sync_each h ((k, actor) # q) d =
     sync_each h q (if is_load h k d = Inr True then (case is_run h k actor d of Inr d' \<Rightarrow> d' | Inl _ \<Rightarrow> d) else d)"

fun failed_items :: "('k, 'd) item_sync \<Rightarrow> ('k \<times> int option) list \<Rightarrow> 'd \<Rightarrow> string list" where
  "failed_items h [] d = []"
| "failed_items h ((k, actor) # q) d =
     (if is_load h k d = Inr True
      then (case is_run h k actor d of Inr d' \<Rightarrow> failed_items h q d' | Inl exn \<Rightarrow> (is_label h k @ '':'' @ exn) # failed_items h q d)
      else failed_items h q d)"

lemma run_items_reference:
  assumes "\<And>k d. \<exists>b. is_load h k d = Inr b"
  shows "run_items h q (f, d) = (None, f @ failed_items h q d, sync_each h q d)"
proof (induction q arbitrary: f d)
  case (Cons x q)
  obtain k a where x: "x = (k, a)" by fastforce
  obtain b where "is_load h k d = Inr b" using assms by blast
  with x Cons.IH show ?case by (cases b) (auto split: sum.splits)
qed simp

lemma failed_items_label:
  assumes "\<And>k. startswith (is_label h k) p"
  shows "x \<in> set (failed_items h q d) \<Longrightarrow> startswith x p"
proof (induction q arbitrary: d)
  case (Cons y q)
  obtain k a where "y = (k, a)" by fastforce
  moreover have "startswith (is_label h k @ t) p" for t
    using startswith_decomp [OF assms [of k]] startswith_refl_append [of p] by (metis append_assoc)
  ultimately show ?case using Cons by (auto split: if_splits sum.splits)
qed simp

lemma not_workflow_prefix:
  "startswith x ''docket:'' \<Longrightarrow> \<not> startswith x ''workflow:''" "startswith x ''annuity:'' \<Longrightarrow> \<not> startswith x ''workflow:''"
  "startswith x ''workflow_task:'' \<Longrightarrow> \<not> startswith x ''workflow:''"
  using startswith_nth [of x "''workflow:''" 0] startswith_nth [of x "''docket:''" 0] startswith_nth [of x "''annuity:''" 0]
    startswith_nth [of x "''workflow:''" 8] startswith_nth [of x "''workflow_task:''" 8] by auto

text \<open>The durable handler runs every item of the hand-over. With the payload that the hand-over builds, and
  queries that do not fail, the handler synchronises the dockets, annuities and workflows of the queues one
  after the other; an item that raises leaves the domain as it was and does not keep the others from being
  run, and the job fails, to be retried, exactly when an item raised, naming all of them.\<close>

theorem handler_runs_every_item:
  assumes "distinct (map fst tq)" and "\<And>k. k \<in> set (map fst tq) \<Longrightarrow> 0 \<le> k"
    and "\<And>k d. \<exists>b. is_load (docket_sync D) k d = Inr b" and "\<And>k d. \<exists>b. is_load (task_sync D) k d = Inr b"
    and "d1 = sync_each (docket_items D) dq d" and "d2 = sync_each (annuity_items D) aq d1"
    and "fs = failed_items (docket_items D) dq d @ failed_items (annuity_items D) aq d1 @ failed_items (task_items D) tq d2"
  shows "run_deferred_sync_task D (deferred_payload dq aq tq meta) d
    = (if fs = [] then RunOk else RunFailed fs, sync_each (task_items D) tq d2)"
proof -
  have load: "\<exists>b. is_load (docket_items D) k d = Inr b" "\<exists>b. is_load (annuity_items D) k d = Inr b"
    "\<exists>b. is_load (task_items D) n d = Inr b" for k n d
    using assms(3,4) by (auto simp: docket_items_def annuity_items_def task_items_def)
  have run: "run_deferred_sync D True dq aq tq d = (if fs = [] then RunOk else RunFailed fs, sync_each (task_items D) tq d2)"
    unfolding run_deferred_sync_def
    by (subst run_items_reference [OF load(1)], simp add: assms(5-7) run_items_reference [OF load(2)] run_items_reference [OF load(3)])
  have "\<not> startswith x ''workflow:''" if "x \<in> set fs" for x
  proof -
    from that consider "x \<in> set (failed_items (docket_items D) dq d)" | "x \<in> set (failed_items (annuity_items D) aq d1)"
      | "x \<in> set (failed_items (task_items D) tq d2)" by (auto simp: assms(7))
    then show ?thesis
    proof cases
      case 1
      then have "startswith x ''docket:''" by (rule failed_items_label [rotated]) (simp add: docket_items_def del: append.simps)
      then show ?thesis by (rule not_workflow_prefix)
    next
      case 2
      then have "startswith x ''annuity:''" by (rule failed_items_label [rotated]) (simp add: annuity_items_def del: append.simps)
      then show ?thesis by (rule not_workflow_prefix)
    next
      case 3
      then have "startswith x ''workflow_task:''" by (rule failed_items_label [rotated]) (simp add: task_items_def del: append.simps)
      then show ?thesis by (rule not_workflow_prefix)
    qed
  qed
  then have "critical_deferred_failures fs = fs" by (simp add: critical_deferred_failures_def)
  moreover have "decode_tasks (map (\<lambda>(k, v). (str_int k, v)) tq) = tq" using assms(1,2) by (intro decode_tasks_round_trip) auto
  ultimately show ?thesis using run by (simp add: run_deferred_sync_task_def deferred_payload_def)
qed

section \<open>Witnesses\<close>

definition plain_codec :: sync_codec where
  "plain_codec = \<lparr>dump_payload = (\<lambda>p. [(''dockets'', concat (map fst (pl_dockets p)))]), dump_annuity = (\<lambda>p. []),
     dump_text = (\<lambda>p. concat (map snd p)), sha256_hex = (\<lambda>t. t)\<rparr>"

definition plain_env :: sync_env where
  "plain_env = \<lparr>se_app = True, se_testing = False, se_async_in_tests = False, se_durable_enabled = True, se_annuity_durable = None,
     se_in_transaction = False, se_nested = False, se_enqueue_fails = (\<lambda>t. False), se_now = 0\<rparr>"

definition idle_state :: sync_state where
  "idle_state = \<lparr>ss_info = empty_info, ss_durable = db_empty, ss_background = [], ss_rebuilds = []\<rparr>"

text \<open>A docket, a savepoint that is rolled back, and a workflow: only the workflow is handed over.\<close>

definition savepoint_run :: "session_event list" where
  "savepoint_run = [Requested (ReqDocket ''D1'' (Some 4)), SavepointRolledBack]"

theorem committed_requests_are_handed_over_witness:
  "let s1 = fold (apply_event plain_codec plain_env) (savepoint_run @ [Requested (ReqTask 7 None), SavepointReleased]) idle_state in
   requested (ReqTask 7 None) (ss_info s1) \<and> handed_over plain_codec (ss_info s1) (after_commit_docket plain_codec plain_env s1)
   \<and> ''D1'' \<notin> set (map fst (si_dockets (ss_info s1)))"
proof -
  let ?new = "[Requested (ReqTask 7 None), SavepointReleased]"
  let ?s1 = "fold (apply_event plain_codec plain_env) (savepoint_run @ ?new) idle_state"
  have i: "info_ok (ss_info idle_state)" "\<not> si_in_handler (ss_info idle_state)" "dq_inv (ss_durable idle_state)"
    by (simp_all add: idle_state_def empty_info_def info_ok_def dq_inv_empty)
  have e: "se_app plain_env" "\<not> se_testing plain_env" "\<not> se_nested plain_env" by (simp_all add: plain_env_def)
  have o: "savepoint_run = [] \<or> last savepoint_run = SavepointRolledBack" "savepoint_run \<noteq> []" by (simp_all add: savepoint_run_def)
  have v: "valid_request r" if "Requested r \<in> set ?new" for r using that by auto
  have "SavepointRolledBack \<notin> set ?new" "Requested (ReqTask 7 None) \<in> set ?new" "ReqTask 7 None \<noteq> ReqMeta meta" for meta by simp_all
  from committed_requests_are_handed_over [OF i(1,2) v i(3) e(1,2) o(1) this(1) refl this(2,3)] e(3) o(2)
  have "requested (ReqTask 7 None) (ss_info ?s1)" "handed_over plain_codec (ss_info ?s1) (after_commit_docket plain_codec plain_env ?s1)"
    "''D1'' \<notin> set (map fst (si_dockets (ss_info ?s1)))" by auto
  then show ?thesis unfolding Let_def by blast
qed

theorem identical_work_is_queued_once_witness:
  "put_job 1 (deferred_spec plain_codec (deferred_payload [(''D1'', None)] [] [] []))
     (put_job 1 (deferred_spec plain_codec (deferred_payload [(''D1'', None)] [] [] [])) db_empty)
   = put_job 1 (deferred_spec plain_codec (deferred_payload [(''D1'', None)] [] [] [])) db_empty"
  using identical_work_is_queued_once [OF dq_inv_empty, of 1 plain_codec "deferred_payload [(''D1'', None)] [] [] []" "[]"] by simp

text \<open>A domain that lists what was synchronised, where one docket always raises.\<close>

definition listing_domain :: "string list sync_domain" where
  "listing_domain = \<lparr>docket_sync = \<lparr>is_label = (\<lambda>k. k), is_load = (\<lambda>k d. Inr True),
       is_run = (\<lambda>k a d. if k = ''D1'' then Inl ''ValueError'' else Inr (d @ [k]))\<rparr>,
     annuity_sync = (\<lambda>k d. Inr (d @ [k])),
     task_sync = \<lparr>is_label = str_int, is_load = (\<lambda>k d. Inr True), is_run = (\<lambda>k a d. Inr (d @ [str_int k]))\<rparr>\<rparr>"

theorem handler_runs_every_item_witness:
  "run_deferred_sync_task listing_domain (deferred_payload [(''D1'', None), (''D2'', Some 4)] [] [(7, None)] []) []
   = (RunFailed [''docket:D1:ValueError''], [''D2'', ''7''])"
proof -
  have e: "failed_items (docket_items listing_domain) [(''D1'', None), (''D2'', Some 4)] [] = [''docket:D1:ValueError'']"
    "sync_each (docket_items listing_domain) [(''D1'', None), (''D2'', Some 4)] [] = [''D2'']"
    "failed_items (task_items listing_domain) [(7, None)] [''D2''] = []" "sync_each (task_items listing_domain) [(7, None)] [''D2''] = [''D2'', ''7'']"
    by code_simp+
  have l: "\<exists>b. is_load (docket_sync listing_domain) k d = Inr b" "\<exists>b. is_load (task_sync listing_domain) n d = Inr b" for k n d
    by (auto simp: listing_domain_def)
  have a: "sync_each (annuity_items listing_domain) [] [''D2''] = [''D2'']" "failed_items (annuity_items listing_domain) [] [''D2''] = []"
    by simp_all
  have "run_deferred_sync_task listing_domain (deferred_payload [(''D1'', None), (''D2'', Some 4)] [] [(7, None)] []) []
      = (if [''docket:D1:ValueError''] = [] then RunOk else RunFailed [''docket:D1:ValueError''],
         sync_each (task_items listing_domain) [(7, None)] [''D2''])"
  proof (rule handler_runs_every_item [OF _ _ l])
    show "[''D2''] = sync_each (docket_items listing_domain) [(''D1'', None), (''D2'', Some 4)] []" by (simp only: e)
    show "[''D2''] = sync_each (annuity_items listing_domain) [] [''D2'']" by (simp only: a)
    show "[''docket:D1:ValueError''] = failed_items (docket_items listing_domain) [(''D1'', None), (''D2'', Some 4)] []
        @ failed_items (annuity_items listing_domain) [] [''D2''] @ failed_items (task_items listing_domain) [(7, None)] [''D2'']"
      by (simp only: e a append_Nil append_Nil2)
  qed simp_all
  then show ?thesis by (simp only: e(4) list.distinct if_False)
qed

end
