(* ===== verification/Status_Normalization.thy ===== *)
theory Status_Normalization
  imports Deadline_Rules Docket_Dates
begin

text \<open>
  Normalising the status texts of a matter (\<open>app/services/matter/status_normalization.py\<close>): white space,
  dates inside a text, the canonical forms of the two status labels and the tests that sort document
  titles. The overrides of the canonical forms, a JSON setting, are an argument; the reports of
  unreadable dates change nothing and are left out. The year of a printed date has four digits.
\<close>

section \<open>White space\<close>

fun collapse_spaces :: "string \<Rightarrow> string" where
  "collapse_spaces [] = []"
| "collapse_spaces (c # cs) =
     (if is_space c then (case cs of d # ds \<Rightarrow> if is_space d then collapse_spaces cs else CHR '' '' # collapse_spaces cs | [] \<Rightarrow> '' '')
      else c # collapse_spaces cs)"

definition normalize_space :: "string option \<Rightarrow> string" where
  "normalize_space v = collapse_spaces (strip (or_empty v))"

section \<open>Dates\<close>

definition loose_regex :: date_regex where
  "loose_regex = \<lparr>rx_sep = (\<lambda>c. c = CHR ''-'' \<or> c = CHR ''.'' \<or> is_space c), rx_many = True, rx_bounded = False\<rparr>"

text \<open>\<open>\b(\d{4})(\d{2})(\d{2})\b\<close>.\<close>

definition is_word :: "char \<Rightarrow> bool" where
  "is_word c \<longleftrightarrow> py_alnum c \<or> c = CHR ''_''"

definition match_compact :: "string \<Rightarrow> (int \<times> int \<times> int) option" where
  "match_compact s =
     (let t = take 8 s in
      if length t = 8 \<and> (\<forall>c \<in> set t. is_digit c) \<and> (case drop 8 s of [] \<Rightarrow> True | c # _ \<Rightarrow> \<not> is_word c)
      then Some (digits_val (take 4 t), digits_val (take 2 (drop 4 t)), digits_val (drop 6 t)) else None)"

fun search_compact :: "bool \<Rightarrow> string \<Rightarrow> (int \<times> int \<times> int) option" where
  "search_compact after_word [] = None"
| "search_compact after_word (c # cs) =
     (case (if after_word then None else match_compact (c # cs)) of Some r \<Rightarrow> Some r | None \<Rightarrow> search_compact (is_word c) cs)"

text \<open>\<open>strftime("%Y-%m-%d")\<close> prints the ISO form for years from 1000 on; whether earlier years are padded depends on the
  C library, and the model prints the ISO form for them too.\<close>

definition date_only_str :: "string option \<Rightarrow> string" where
  "date_only_str v =
     (let s0 = strip (or_empty v); s = replace_char (CHR ''/'') (CHR ''-'') (replace_char (CHR ''.'') (CHR ''-'') s0);
          iso = (\<lambda>(y, m, d). case mk_date y m d of None \<Rightarrow> [] | Some x \<Rightarrow> isoformat x) in
      if s0 = [] then []
      else case search_date loose_regex False s of
        Some r \<Rightarrow> iso r
      | None \<Rightarrow> (case search_compact False s of Some r \<Rightarrow> iso r | None \<Rightarrow> []))"

definition add_years :: "date \<Rightarrow> int \<Rightarrow> date option" where
  "add_years base years =
     (case mk_date (year base + years) (month base) (day base) of
        Some d \<Rightarrow> Some d
      | None \<Rightarrow> mk_date (year base + years) 2 28)"

text \<open>\<open>_add_months\<close>: \<open>None\<close> where it raises \<open>ValueError\<close>.\<close>

definition status_add_months :: "date \<Rightarrow> int \<Rightarrow> date option" where
  "status_add_months base months =
     (let m0 = month base - 1 + months; y = year base + m0 div 12; m = m0 mod 12 + 1 in
      if y < 1 \<or> y > 9999 then None else mk_date y m (min (day base) (days_in_month y m)))"

section \<open>Canonical labels\<close>

type_synonym status_map = "(string \<times> string) list"

definition coerce_status_map :: "(string \<times> string) list \<Rightarrow> status_map" where
  "coerce_status_map raw =
     filter (\<lambda>(k, v). k \<noteq> [] \<and> v \<noteq> []) (map (\<lambda>(k, v). (normalize_space (Some k), normalize_space (Some v))) raw)"

text \<open>Of the keys with more than one blank in a row, none is ever looked up; they are left out.\<close>

definition DEFAULT_BLUE_STATUS_CANONICAL :: status_map where
  "DEFAULT_BLUE_STATUS_CANONICAL =
     [(''OA In Progress'', ''OA  In Progress''), (''Filing In Progress'', ''Filing  In Progress''),
      (''FilingExamination In Progress'', ''Filing Examination In Progress''),
      (''Filing Examination In Progress'', ''Filing Examination In Progress''),
      (''ForeignFiling In Progress'', ''ForeignFiling  In Progress''),
      (''Examination Billing In Progress'', ''Examination  Billing In Progress''),
      (''Registration Done'', ''RegistrationDone''), (''Registration Waiting In Progress'', ''RegistrationWaiting In Progress''),
      (''PublicationIn Progress'', ''Filing Publication In Progress''),
      (''Filing PublicationIn Progress'', ''Filing Publication In Progress''),
      (''Filing Publication In Progress'', ''Filing Publication In Progress'')]"

definition DEFAULT_RED_STATUS_CANONICAL :: status_map where
  "DEFAULT_RED_STATUS_CANONICAL =
     [(''Notice'', ''Notice''), (''Examination request Deadline'', ''Examination requestDeadline''),
      (''Filing Deadline'', ''FilingDeadline''), (''Foreign Filing Deadline'', ''ForeignFilingDeadline'')]"

text \<open>A key of the overrides replaces the default; of two equal keys the later one counts.\<close>

definition canonical :: "status_map \<Rightarrow> status_map \<Rightarrow> string \<Rightarrow> string" where
  "canonical defaults overrides s =
     (case map_of (rev overrides) s of Some v \<Rightarrow> v | None \<Rightarrow> (case map_of defaults s of Some v \<Rightarrow> v | None \<Rightarrow> s))"

definition normalize_blue_status :: "status_map \<Rightarrow> string option \<Rightarrow> string" where
  "normalize_blue_status overrides v =
     (let s = normalize_space v in
      if s = [] \<or> s = ''In Progress'' then [] else canonical DEFAULT_BLUE_STATUS_CANONICAL overrides s)"

definition normalize_red_status :: "status_map \<Rightarrow> string option \<Rightarrow> string" where
  "normalize_red_status overrides v =
     (let s = normalize_space v;
          t = (if startswith (upper s) ''MGMT:STATUS_RED:'' then normalize_space (Some (drop (length ''MGMT:STATUS_RED:'') s)) else s) in
      if s = [] then [] else canonical DEFAULT_RED_STATUS_CANONICAL overrides t)"

section \<open>Document titles\<close>

text \<open>\<open>\[\d{4}[-./]\d{1,2}[-./]\d{1,2}.*\]$\<close> at the start of a text: the date and then anything up to the
  closing bracket at the end.\<close>

definition bracket_regex :: date_regex where
  "bracket_regex = \<lparr>rx_sep = (\<lambda>c. c \<in> {CHR ''-'', CHR ''.'', CHR ''/''}), rx_many = False, rx_bounded = False\<rparr>"

definition embedded_date :: "string \<Rightarrow> bool" where
  "embedded_date s \<longleftrightarrow>
     (case s of [] \<Rightarrow> False
      | c # cs \<Rightarrow> c = CHR ''['' \<and> match_date bracket_regex cs \<noteq> None \<and> last s = CHR '']'' \<and> CHR 0x0A \<notin> set cs)"

fun cut_at :: "(string \<Rightarrow> bool) \<Rightarrow> string \<Rightarrow> string" where
  "cut_at p [] = []"
| "cut_at p (c # cs) = (if p (c # cs) then [] else c # cut_at p cs)"

definition strip_embedded_status_date :: "string \<Rightarrow> string" where
  "strip_embedded_status_date s = strip (cut_at embedded_date s)"

text \<open>\<open>^MGMT:NOTICE_SEND_3D:([^:]+)$\<close> without regard to case.\<close>

definition notice_send_ref :: "string \<Rightarrow> bool" where
  "notice_send_ref s \<longleftrightarrow>
     (let rest = drop (length ''MGMT:NOTICE_SEND_3D:'') s in
      startswith (upper s) ''MGMT:NOTICE_SEND_3D:'' \<and> rest \<noteq> [] \<and> CHR '':'' \<notin> set rest)"

definition is_internal_mgmt_non_status_red_ref :: "string option \<Rightarrow> bool" where
  "is_internal_mgmt_non_status_red_ref v =
     (let raw = strip_embedded_status_date (normalize_space v) in
      raw \<noteq> [] \<and> startswith (upper raw) ''MGMT:'' \<and> \<not> startswith (upper raw) ''MGMT:STATUS_RED:'' \<and> \<not> notice_send_ref raw)"

definition compact :: "string \<Rightarrow> string" where
  "compact s = filter (\<lambda>c. c \<noteq> CHR '' '') s"

definition looks_like_payment_notice_label :: "string option \<Rightarrow> bool" where
  "looks_like_payment_notice_label v =
     (let c = compact (normalize_space v) in
      c \<noteq> [] \<and> (c \<in> set [''Payment'', ''Department''] \<or> str_contains ''Department'' c \<or> str_contains ''RegistrationPayment'' c
        \<or> (str_contains ''SettingsRegistration'' c \<and> (str_contains ''Payment'' c \<or> str_contains ''Guidance'' c))))"

definition looks_like_oa_response_notice :: "string option \<Rightarrow> bool" where
  "looks_like_oa_response_notice v =
     (let doc = normalize_space v in doc \<noteq> [] \<and> (str_contains ''Notice'' doc \<or> str_contains ''Period'' doc))"

definition looks_like_non_response_notice_label :: "string option \<Rightarrow> bool" where
  "looks_like_non_response_notice_label v =
     (let c = compact (normalize_space v) in
      c \<noteq> [] \<and> (list_ex (\<lambda>t. str_contains t c) [''Period'', ''StatutoryPeriod'', ''target'', ''Publicationdecision'', ''PriorityDeadline'']
        \<or> str_contains ''Guidance'' c))"

definition looks_like_trial_pending_notice :: "string option \<Rightarrow> bool" where
  "looks_like_trial_pending_notice v = (let c = compact (normalize_space v) in c \<noteq> [] \<and> str_contains ''Notice'' c)"

definition looks_like_trial_pending_response :: "string option \<Rightarrow> bool" where
  "looks_like_trial_pending_response v =
     (let c = lower (compact (normalize_space v)) in
      c \<noteq> [] \<and> list_ex (\<lambda>t. str_contains t c) [''billing'', ''trialfiled'', ''appealbrief''])"

definition DOC_LIKE_RED_EXACT_NOSPACE :: "string list" where
  "DOC_LIKE_RED_EXACT_NOSPACE = [''Examinationrequest'', ''Examination'', [], [CHR 0xB7, CHR 0xB7],
     ''Examinationrequest'' @ [CHR 0xB7] @ ''Examination'', ''Department'']"

text \<open>\<open>\s*\([^)]*\)\s*$\<close> at the start of a text.\<close>

definition trailing_note :: "string \<Rightarrow> bool" where
  "trailing_note s \<longleftrightarrow>
     (case dropWhile is_space s of
        [] \<Rightarrow> False
      | c # cs \<Rightarrow> c = CHR ''('' \<and> (case dropWhile (\<lambda>x. x \<noteq> CHR '')'') cs of [] \<Rightarrow> False | _ # rest \<Rightarrow> list_all is_space rest))"

definition looks_like_non_red_document_title :: "string option \<Rightarrow> bool" where
  "looks_like_non_red_document_title v =
     (let s0 = normalize_space v;
          s1 = strip (cut_at embedded_date s0);
          s = strip (cut_at trailing_note s1) in
      s0 \<noteq> [] \<and> s \<noteq> []
      \<and> (compact s \<in> set DOC_LIKE_RED_EXACT_NOSPACE \<or> looks_like_payment_notice_label (Some (compact s)) \<or> endswith s ''Filing''))"

definition is_candidate_office_action_doc :: "string option \<Rightarrow> bool" where
  "is_candidate_office_action_doc v =
     (let doc = normalize_space v in
      doc \<noteq> [] \<and> \<not> looks_like_non_red_document_title (Some doc) \<and> \<not> looks_like_payment_notice_label (Some doc)
      \<and> \<not> looks_like_non_response_notice_label (Some doc))"

section \<open>Parsing\<close>

text \<open>\<open>_parse_date\<close>; the text it parses is the one \<open>date_only_str\<close> printed.\<close>

fun status_parse_date :: "pyval \<Rightarrow> date option" where
  "status_parse_date PyNone = None"
| "status_parse_date (PyDate d) = Some d"
| "status_parse_date (PyDatetime d t) = Some d"
| "status_parse_date (PyStr s) = (let t = date_only_str (Some (strip s)) in if t = [] then None else fromisoformat t)"

section \<open>Projections\<close>

lemma collapse_spaces_hd: "s \<noteq> [] \<Longrightarrow> \<not> is_space (hd s) \<Longrightarrow> collapse_spaces s \<noteq> [] \<and> hd (collapse_spaces s) = hd s"
  by (cases s) auto

lemma collapse_spaces_not_Nil: "s \<noteq> [] \<Longrightarrow> collapse_spaces s \<noteq> []"
proof (induction s)
  case (Cons c cs)
  then show ?case by (cases cs) (auto split: if_splits)
qed simp

lemma collapse_spaces_last: "s \<noteq> [] \<Longrightarrow> \<not> is_space (last s) \<Longrightarrow> last (collapse_spaces s) = last s"
proof (induction s)
  case (Cons c cs)
  then show ?case
  proof (cases cs)
    case (Cons d ds)
    then have ne: "collapse_spaces cs \<noteq> []" by (simp add: collapse_spaces_not_Nil del: collapse_spaces.simps)
    have "collapse_spaces (c # cs) \<in> {collapse_spaces cs, CHR '' '' # collapse_spaces cs, c # collapse_spaces cs}"
      by (simp only: collapse_spaces.simps(2) [of c cs] Cons list.case) simp
    then have "last (collapse_spaces (c # cs)) = last (collapse_spaces cs)" using ne by auto
    with Cons.IH Cons.prems Cons show ?thesis by (simp del: collapse_spaces.simps)
  qed simp
qed simp

lemma blank_is_space [simp]: "is_space (CHR '' '')"
  by (simp add: is_space_def)

lemma collapse_spaces_idem: "collapse_spaces (collapse_spaces s) = collapse_spaces s"
proof (induction s rule: collapse_spaces.induct)
  case (2 c cs)
  show ?case
  proof (cases "is_space c")
    case False
    with 2 show ?thesis by simp
  next
    case sp: True
    show ?thesis
    proof (cases cs)
      case Nil
      with sp show ?thesis by simp
    next
      case (Cons d ds)
      show ?thesis
      proof (cases "is_space d")
        case True
        with 2(1,2) sp Cons show ?thesis by simp
      next
        case False
        with 2 sp Cons show ?thesis by simp
      qed
    qed
  qed
qed simp

lemma normalize_space_idem [simp]: "normalize_space (Some (normalize_space v)) = normalize_space v"
proof (cases "strip (or_empty v) = []")
  case True
  then have "normalize_space v = []" by (simp add: normalize_space_def)
  then show ?thesis by (simp add: normalize_space_def or_empty_def strip_def strip_chars_def lstrip_chars_def rstrip_chars_def)
next
  case False
  let ?t = "collapse_spaces (strip (or_empty v))"
  have "\<not> is_space (hd ?t) \<and> \<not> is_space (last ?t)"
    using strip_ends [OF False] collapse_spaces_hd [OF False] collapse_spaces_last [OF False] by simp
  then have "strip ?t = ?t" by (simp add: strip_def strip_chars_id)
  then show ?thesis by (simp add: normalize_space_def or_empty_def collapse_spaces_idem)
qed

lemma date_only_str_iso:
  assumes "valid_date d"
  shows "date_only_str (Some (isoformat d)) = isoformat d"
proof -
  let ?s = "isoformat d"
  note ch = iso_char [OF assms]
  have strip: "strip ?s = ?s" using ch by (intro strip_id_all) auto
  have "replace_char (CHR ''.'') (CHR ''-'') ?s = ?s" using ch by (intro replace_char_absent) auto
  moreover have "replace_char (CHR ''/'') (CHR ''-'') ?s = ?s" using ch by (intro replace_char_absent) auto
  moreover have "search_date loose_regex False ?s = Some (year d, month d, day d)"
    by (rule search_isoformat [OF assms]) (auto simp: loose_regex_def is_digit_def is_space_def)
  ultimately show ?thesis using strip mk_date_valid [OF assms] by (simp add: date_only_str_def or_empty_def)
qed

lemma date_only_str_result: "date_only_str v = [] \<or> (\<exists>d. valid_date d \<and> date_only_str v = isoformat d)"
  by (auto simp: date_only_str_def Let_def dest: mk_date_Some split: option.splits prod.splits)

text \<open>Of a text, \<open>date_only_str\<close> keeps either nothing or the ISO form of a valid date; applied to its
  own result it changes nothing, and \<open>_parse_date\<close> gives exactly the date that was printed.\<close>

theorem date_only_str_projection:
  "(date_only_str v = [] \<and> status_parse_date (PyStr (or_empty v)) = None
    \<or> (\<exists>d. valid_date d \<and> date_only_str v = isoformat d \<and> status_parse_date (PyStr (or_empty v)) = Some d))
   \<and> date_only_str (Some (date_only_str v)) = date_only_str v"
proof -
  have strip: "date_only_str (Some (strip (or_empty v))) = date_only_str v" by (simp add: date_only_str_def or_empty_def)
  show ?thesis
    using date_only_str_result [of v]
  proof
    assume e: "date_only_str v = []"
    then have "date_only_str (Some []) = []" by (simp add: date_only_str_def or_empty_def strip_def strip_chars_def lstrip_chars_def rstrip_chars_def)
    with e strip show ?thesis by simp
  next
    assume "\<exists>d. valid_date d \<and> date_only_str v = isoformat d"
    then obtain d where d: "valid_date d" "date_only_str v = isoformat d" by blast
    with strip fromisoformat_isoformat [OF d(1)] have "status_parse_date (PyStr (or_empty v)) = Some d" by simp
    with d date_only_str_iso [OF d(1)] show ?thesis by auto
  qed
qed

section \<open>Canonical forms\<close>

lemma canonical_cases: "canonical ds [] s = s \<or> (\<exists>k. (k, canonical ds [] s) \<in> set ds)"
  by (auto simp: canonical_def split: option.splits dest: map_of_SomeD)

lemma canonical_values:
  assumes "list_all (\<lambda>(k, v). f v = v) ds" and "(k, v) \<in> set ds"
  shows "f v = v"
  using assms by (auto simp: list_all_iff)

lemma blue_values_fixed: "list_all (\<lambda>(k, v). normalize_blue_status [] (Some v) = v) DEFAULT_BLUE_STATUS_CANONICAL"
  by code_simp

lemma red_values_fixed: "list_all (\<lambda>(k, v). normalize_red_status [] (Some v) = v) DEFAULT_RED_STATUS_CANONICAL"
  by code_simp

lemma normalize_empty: "normalize_blue_status ov (Some []) = []" "normalize_red_status ov (Some []) = []"
  by (simp_all add: normalize_blue_status_def normalize_red_status_def normalize_space_def or_empty_def strip_def
      strip_chars_def lstrip_chars_def rstrip_chars_def)

lemma normalize_blue_idem: "normalize_blue_status [] (Some (normalize_blue_status [] v)) = normalize_blue_status [] v"
proof -
  let ?s = "normalize_space v" and ?c = "canonical DEFAULT_BLUE_STATUS_CANONICAL [] (normalize_space v)"
  consider "normalize_blue_status [] v = []" | "normalize_blue_status [] v = ?c" "?s \<noteq> []" "?s \<noteq> ''In Progress''"
    unfolding normalize_blue_status_def Let_def by (cases "?s = [] \<or> ?s = ''In Progress''") auto
  then show ?thesis
  proof cases
    case 1
    then show ?thesis by (simp add: normalize_empty)
  next
    case 2
    show ?thesis
      using canonical_cases [of DEFAULT_BLUE_STATUS_CANONICAL ?s]
    proof
      assume s: "?c = ?s"
      with 2 have n: "normalize_blue_status [] v = ?s" by simp
      then show ?thesis using 2 s by (simp add: normalize_blue_status_def [of "[]" "Some (normalize_space v)"])
    next
      assume "\<exists>k. (k, ?c) \<in> set DEFAULT_BLUE_STATUS_CANONICAL"
      then show ?thesis using canonical_values [OF blue_values_fixed] 2(1) by auto
    qed
  qed
qed

lemma normalize_red_idem:
  assumes "\<not> startswith (upper (normalize_red_status [] v)) ''MGMT:STATUS_RED:''"
  shows "normalize_red_status [] (Some (normalize_red_status [] v)) = normalize_red_status [] v"
proof (cases "normalize_red_status [] v = []")
  case True
  then show ?thesis by (simp add: normalize_empty)
next
  case False
  then obtain w where c: "normalize_red_status [] v = canonical DEFAULT_RED_STATUS_CANONICAL [] (normalize_space w)"
    by (auto simp: normalize_red_status_def Let_def split: if_splits)
  let ?s = "normalize_space w"
  let ?c = "canonical DEFAULT_RED_STATUS_CANONICAL [] ?s"
  show ?thesis
    using canonical_cases [of DEFAULT_RED_STATUS_CANONICAL ?s]
  proof
    assume s: "?c = ?s"
    with c False assms have "normalize_red_status [] v = ?s" "?s \<noteq> []" "\<not> startswith (upper ?s) ''MGMT:STATUS_RED:''" by auto
    then show ?thesis using s by (simp add: normalize_red_status_def [of "[]" "Some (normalize_space w)"])
  next
    assume "\<exists>k. (k, ?c) \<in> set DEFAULT_RED_STATUS_CANONICAL"
    then show ?thesis using canonical_values [OF red_values_fixed] c by auto
  qed
qed

text \<open>With the built-in canonical forms, normalising a status label is a projection: a second
  application changes nothing. A red label keeps a second internal prefix after the first one was
  removed; such a label is the only exception.\<close>

theorem status_labels_projection:
  assumes "\<not> startswith (upper (normalize_red_status [] r)) ''MGMT:STATUS_RED:''"
  shows "normalize_blue_status [] (Some (normalize_blue_status [] b)) = normalize_blue_status [] b
    \<and> normalize_red_status [] (Some (normalize_red_status [] r)) = normalize_red_status [] r"
  using normalize_blue_idem normalize_red_idem [OF assms] by simp

theorem status_labels_projection_witness:
  "normalize_red_status [] (Some (normalize_red_status [] (Some ''mgmt:status_red: Filing  Deadline''))) = ''FilingDeadline''
    \<and> normalize_blue_status [] (Some (normalize_blue_status [] (Some '' OA   In Progress''))) = ''OA  In Progress''"
proof -
  have r: "normalize_red_status [] (Some ''mgmt:status_red: Filing  Deadline'') = ''FilingDeadline''" by code_simp
  have b: "normalize_blue_status [] (Some '' OA   In Progress'') = ''OA  In Progress''" by code_simp
  have "\<not> startswith (upper ''FilingDeadline'') ''MGMT:STATUS_RED:''" by code_simp
  then show ?thesis
    using status_labels_projection [of "Some ''mgmt:status_red: Filing  Deadline''" "Some '' OA   In Progress''"] r b by simp
qed

lemma doubly_prefixed_label:
  "normalize_red_status [] (Some ''MGMT:STATUS_RED:MGMT:STATUS_RED:Notice'') = ''MGMT:STATUS_RED:Notice''"
  by code_simp

section \<open>Month arithmetic\<close>

text \<open>The month arithmetic of the status computation is that of the deadline rules, range errors
  included: for a valid date and any number of months, negative ones included, both give the same date
  or both fail.\<close>

theorem add_months_agree:
  assumes "valid_date d"
  shows "status_add_months d n = Deadline_Rules.add_months d n 0"
proof -
  let ?m = "(month d - 1 + n) mod 12 + 1"
  have m: "1 \<le> ?m" "?m \<le> 12" by simp_all
  show ?thesis
    using month_lengths_nth [OF m] by (auto simp: status_add_months_def add_months_def Let_def mk_date_def valid_date_def)
qed

theorem add_months_agree_witness:
  "status_add_months (Date 2025 11 30) 3 = Some (Date 2026 2 28) \<and> Deadline_Rules.add_months (Date 2025 11 30) 3 0 = Some (Date 2026 2 28)"
proof -
  have "valid_date (Date 2025 11 30)" "status_add_months (Date 2025 11 30) 3 = Some (Date 2026 2 28)" by code_simp+
  then show ?thesis using add_months_agree [of "Date 2025 11 30" 3] by simp
qed

end
