(* ===== verification/Matter_Status_Cache.thy ===== *)
theory Matter_Status_Cache
  imports Status_Normalization "HOL-Library.List_Lexorder" "HOL-Library.Char_ord"
begin

text \<open>
  The status cache of the matters (\<open>app/services/matter/matter_status_cache.py\<close>): the columns of a
  matter that hold its computed status, their refresh for one matter, the paged reconciliation of all
  matters and the audit that moves a stored cursor through the matter ids. The computation of a status
  (\<open>derive_auto_status\<close>) is an argument that gives the status or raises; the rows of other tables that
  it reads do not change during a run. Ids are compared character by character. A savepoint whose
  release fails is an argument as well; commits succeed.
\<close>

section \<open>Matters and their cached status\<close>

record cached_matter =
  mt_id :: string
  mt_deleted :: "bool option"
  mt_memo :: "string option"
  mt_our_ref :: "string option"
  mt_status_red :: "string option"
  mt_red_date :: "string option"
  mt_red_on :: "date option"
  mt_status_blue :: "string option"

record auto_status =
  as_red :: string
  as_red_date :: string
  as_blue :: string
  as_display_red :: string
  as_display_blue :: string

definition AutoStatus :: auto_status where
  "AutoStatus = \<lparr>as_red = [], as_red_date = [], as_blue = [], as_display_red = [], as_display_blue = []\<rparr>"

text \<open>\<open>derive_auto_status(matter_id, current_red, current_red_date, current_blue, memo)\<close>, \<open>None\<close> when it raises.\<close>

type_synonym derivation = "string \<Rightarrow> string \<Rightarrow> string \<Rightarrow> string \<Rightarrow> string \<Rightarrow> auto_status option"

record sync_result =
  sr_changed :: bool
  sr_fields :: "string list"
  sr_auto :: auto_status

definition empty_or_value :: "bool \<Rightarrow> string \<Rightarrow> string option" where
  "empty_or_value empty_as_none v = (if v \<noteq> [] \<or> \<not> empty_as_none then Some v else None)"

definition given_or :: "string option \<Rightarrow> string option \<Rightarrow> string" where
  "given_or arg stored = (case arg of Some x \<Rightarrow> x | None \<Rightarrow> or_empty stored)"

text \<open>\<open>date.fromisoformat(s) if s else None\<close>; the outer \<open>None\<close> is the \<open>ValueError\<close>.\<close>

definition related_on :: "string \<Rightarrow> date option option" where
  "related_on s = (if s = [] then Some None else map_option Some (fromisoformat s))"

text \<open>The four comparisons and writes, in the order of the code.\<close>

definition write_status :: "bool \<Rightarrow> auto_status \<Rightarrow> date option \<Rightarrow> cached_matter \<Rightarrow> string list \<times> cached_matter" where
  "write_status empty_as_none auto new_red_on m =
     (let new_red = strip (as_red auto); new_red_dt = date_only_str (Some (as_red_date auto)); new_blue = strip (as_blue auto);
          red = normalize_space (mt_status_red m) \<noteq> normalize_space (Some new_red);
          dt = date_only_str (mt_red_date m) \<noteq> new_red_dt;
          on = mt_red_on m \<noteq> new_red_on;
          blue = normalize_space (mt_status_blue m) \<noteq> normalize_space (Some new_blue);
          m1 = (if red then m\<lparr>mt_status_red := empty_or_value empty_as_none new_red\<rparr> else m);
          m2 = (if dt then m1\<lparr>mt_red_date := empty_or_value empty_as_none new_red_dt\<rparr> else m1);
          m3 = (if on then m2\<lparr>mt_red_on := new_red_on\<rparr> else m2);
          m4 = (if blue then m3\<lparr>mt_status_blue := empty_or_value empty_as_none new_blue\<rparr> else m3) in
      ((if red then [''status_red''] else []) @ (if dt then [''status_red_related_date''] else [])
         @ (if on then [''status_red_related_on''] else []) @ (if blue then [''status_blue''] else []), m4))"

definition apply_auto_status_cache_to_matter ::
  "derivation \<Rightarrow> string option \<Rightarrow> string option \<Rightarrow> string option \<Rightarrow> string option \<Rightarrow> bool \<Rightarrow> cached_matter \<Rightarrow> (sync_result \<times> cached_matter) option"
where
  "apply_auto_status_cache_to_matter derive memo current_red current_red_date current_blue empty_as_none m =
     (if mt_id m = [] then Some (\<lparr>sr_changed = False, sr_fields = [], sr_auto = AutoStatus\<rparr>, m)
      else case derive (mt_id m) (strip (given_or current_red (mt_status_red m)))
             (date_only_str (case current_red_date of Some x \<Rightarrow> Some x | None \<Rightarrow> mt_red_date m))
             (strip (given_or current_blue (mt_status_blue m))) (strip (given_or memo (mt_memo m))) of
        None \<Rightarrow> None
      | Some auto \<Rightarrow>
          (case related_on (date_only_str (Some (as_red_date auto))) of
             None \<Rightarrow> None
           | Some on \<Rightarrow>
               (case write_status empty_as_none auto on m of
                  (changed, m') \<Rightarrow> Some (\<lparr>sr_changed = (changed \<noteq> []), sr_fields = changed, sr_auto = auto\<rparr>, m'))))"

section \<open>Pages of matter ids\<close>

definition scope_query :: "cached_matter list \<Rightarrow> string option \<Rightarrow> string list" where
  "scope_query t start =
     (let ids = sort (map mt_id (filter (\<lambda>m. mt_deleted m \<noteq> Some True) t)) in
      case start of
        None \<Rightarrow> ids
      | Some c \<Rightarrow> if c = [] then ids else filter (\<lambda>i. strip c < i) ids)"

definition fetch_window_ids :: "cached_matter list \<Rightarrow> int \<Rightarrow> string option \<Rightarrow> string list" where
  "fetch_window_ids t limit start =
     filter (\<lambda>i. i \<noteq> []) (map strip (take (nat (max 1 limit)) (scope_query t start)))"

text \<open>The generator: the ids it yields until it ends, \<open>None\<close> when it does not. The ids of the table do not
  change while the caller refreshes statuses.\<close>

partial_function (option) iter_pages :: "cached_matter list \<Rightarrow> int \<Rightarrow> int option \<Rightarrow> string option \<Rightarrow> string list option" where
  "iter_pages t fetch_size remaining cursor =
     (if (case remaining of None \<Rightarrow> True | Some r \<Rightarrow> 0 < r) then
        (let ids = fetch_window_ids t (case remaining of None \<Rightarrow> fetch_size | Some r \<Rightarrow> min fetch_size r) cursor in
         if ids = [] then Some []
         else Option.bind (iter_pages t fetch_size (map_option (\<lambda>r. r - int (length ids)) remaining) (Some (last ids)))
                (\<lambda>rest. Some (ids @ rest)))
      else Some [])"

definition RECONCILE_PAGE_SIZE :: int where
  "RECONCILE_PAGE_SIZE = 2000"

definition iter_matter_status_cache_ids :: "cached_matter list \<Rightarrow> string option \<Rightarrow> int option \<Rightarrow> int \<Rightarrow> string list option" where
  "iter_matter_status_cache_ids t start limit page_size =
     (let remaining = map_option (max 0) limit;
          cursor = (let c = strip (or_empty start) in if c = [] then None else Some c);
          fetch_size = max 1 (if page_size = 0 then RECONCILE_PAGE_SIZE else page_size) in
      if remaining = Some 0 then Some [] else iter_pages t fetch_size remaining cursor)"

section \<open>Reconciliation\<close>

record cache_env =
  ce_derive :: derivation
  ce_release_fails :: "string \<Rightarrow> bool"

text \<open>The table in the session and as committed, the counters of the report and the checkpoint.\<close>

record recon =
  rc_session :: "cached_matter list"
  rc_committed :: "cached_matter list"
  rc_processed :: nat
  rc_updated :: nat
  rc_errors :: nat
  rc_changed_fields :: "string \<Rightarrow> nat"
  rc_samples :: "(string \<times> string \<times> string) list"
  rc_checkpoint :: string
  rc_saw_error :: bool

definition recon_start :: "cached_matter list \<Rightarrow> recon" where
  "recon_start t = \<lparr>rc_session = t, rc_committed = t, rc_processed = 0, rc_updated = 0, rc_errors = 0,
     rc_changed_fields = (\<lambda>_. 0), rc_samples = [], rc_checkpoint = [], rc_saw_error = False\<rparr>"

definition recon_count :: "string \<Rightarrow> sync_result \<Rightarrow> cached_matter \<Rightarrow> recon \<Rightarrow> recon" where
  "recon_count mid r m s =
     s\<lparr>rc_updated := rc_updated s + 1,
       rc_changed_fields := (\<lambda>f. rc_changed_fields s f + count_list (sr_fields r) f),
       rc_samples := (if length (rc_samples s) < 20
          then rc_samples s @ [(mid, strip (or_empty (mt_our_ref m)), strip (or_empty (mt_status_blue m)))] else rc_samples s)\<rparr>"

definition recon_error :: "recon \<Rightarrow> recon" where
  "recon_error s = s\<lparr>rc_errors := rc_errors s + 1, rc_saw_error := True\<rparr>"

text \<open>The savepoint is released; the checkpoint moves until the first error.\<close>

definition recon_release :: "cache_env \<Rightarrow> string \<Rightarrow> cached_matter list \<Rightarrow> recon \<Rightarrow> recon" where
  "recon_release e mid t s =
     (if ce_release_fails e mid then recon_error s
      else s\<lparr>rc_session := t, rc_checkpoint := (if rc_saw_error s then rc_checkpoint s else mid)\<rparr>)"

definition recon_try :: "cache_env \<Rightarrow> bool \<Rightarrow> string \<Rightarrow> recon \<Rightarrow> recon" where
  "recon_try e empty_as_none mid s =
     (case sql_first (\<lambda>m. mt_id m = mid) (rc_session s) of
        None \<Rightarrow> recon_release e mid (rc_session s) s
      | Some m \<Rightarrow>
          (case apply_auto_status_cache_to_matter (ce_derive e) None None None None empty_as_none m of
             None \<Rightarrow> recon_error s
           | Some (r, m') \<Rightarrow>
               recon_release e mid (sql_update (\<lambda>x. mt_id x = mid) (\<lambda>_. m') (rc_session s))
                 (if sr_changed r then recon_count mid r m' s else s)))"

definition recon_one :: "cache_env \<Rightarrow> bool \<Rightarrow> nat \<Rightarrow> bool \<Rightarrow> string \<Rightarrow> recon \<Rightarrow> recon" where
  "recon_one e commit commit_every empty_as_none mid s =
     (let s1 = recon_try e empty_as_none mid (s\<lparr>rc_processed := rc_processed s + 1\<rparr>) in
      if commit \<and> rc_processed s1 mod commit_every = 0 then s1\<lparr>rc_committed := rc_session s1\<rparr> else s1)"

definition reconcile_for_ids :: "cache_env \<Rightarrow> bool \<Rightarrow> int \<Rightarrow> bool \<Rightarrow> string list \<Rightarrow> cached_matter list \<Rightarrow> recon" where
  "reconcile_for_ids e commit commit_interval empty_as_none ids t =
     (let every = nat (max 1 (if commit_interval = 0 then 100 else commit_interval));
          s = fold (recon_one e commit every empty_as_none) ids (recon_start t) in
      if commit then s\<lparr>rc_committed := rc_session s\<rparr> else s)"

definition reconcile_matter_status_cache_batch ::
  "cache_env \<Rightarrow> int option \<Rightarrow> bool \<Rightarrow> int \<Rightarrow> bool \<Rightarrow> string option \<Rightarrow> int \<Rightarrow> cached_matter list \<Rightarrow> recon option"
where
  "reconcile_matter_status_cache_batch e limit commit commit_interval empty_as_none start page_size t =
     map_option (\<lambda>ids. reconcile_for_ids e commit commit_interval empty_as_none ids t)
       (iter_matter_status_cache_ids t start limit page_size)"

section \<open>The audit\<close>

record audit_db =
  ad_matters :: "cached_matter list"
  ad_cursor :: "string option"

record audit_report =
  ar_ids :: "string list"
  ar_recon :: recon
  ar_before :: string
  ar_after :: string
  ar_wrapped :: bool

definition audit_window :: "cache_env \<Rightarrow> int \<Rightarrow> bool \<Rightarrow> int \<Rightarrow> bool \<Rightarrow> audit_db \<Rightarrow> audit_report" where
  "audit_window e limit commit commit_interval empty_as_none db =
     (let batch_limit = max 1 (if limit = 0 then 1 else limit);
          cursor = strip (or_empty (ad_cursor db));
          ids0 = fetch_window_ids (ad_matters db) batch_limit (Some cursor);
          wrapped = (ids0 = [] \<and> cursor \<noteq> []);
          ids = (if wrapped then fetch_window_ids (ad_matters db) batch_limit None else ids0);
          s = reconcile_for_ids e commit commit_interval empty_as_none ids (ad_matters db) in
      \<lparr>ar_ids = ids, ar_recon = s, ar_before = cursor,
        ar_after = (if 0 < rc_errors s then strip (rc_checkpoint s) else if ids = [] then [] else last ids),
        ar_wrapped = wrapped\<rparr>)"

text \<open>What the audit leaves behind; \<open>cursor_fails\<close> says that writing the cursor raises.\<close>

definition audit_matter_status_cache_window ::
  "cache_env \<Rightarrow> bool \<Rightarrow> int \<Rightarrow> bool \<Rightarrow> int \<Rightarrow> bool \<Rightarrow> audit_db \<Rightarrow> audit_report \<times> audit_db"
where
  "audit_matter_status_cache_window e cursor_fails limit commit commit_interval empty_as_none db =
     (let r = audit_window e limit commit commit_interval empty_as_none db in
      (r, \<lparr>ad_matters = rc_session (ar_recon r),
           ad_cursor = (if commit \<and> \<not> cursor_fails then Some (ar_after r) else ad_cursor db)\<rparr>))"

section \<open>Pages of a sorted table\<close>

definition live_ids :: "cached_matter list \<Rightarrow> string list" where
  "live_ids t = sort (map mt_id (filter (\<lambda>m. mt_deleted m \<noteq> Some True) t))"

definition after :: "string \<Rightarrow> string list \<Rightarrow> string list" where
  "after c ids = filter (\<lambda>i. c < i) ids"

text \<open>Ids are a primary key without surrounding white space.\<close>

definition clean_table :: "cached_matter list \<Rightarrow> bool" where
  "clean_table t \<longleftrightarrow> distinct (map mt_id t) \<and> (\<forall>m \<in> set t. mt_id m \<noteq> [] \<and> strip (mt_id m) = mt_id m)"

lemma live_ids_clean:
  assumes "clean_table t"
  shows "sorted_wrt (<) (live_ids t)" and "i \<in> set (live_ids t) \<Longrightarrow> i \<noteq> [] \<and> strip i = i"
proof -
  have "distinct (live_ids t)" using assms by (simp add: clean_table_def live_ids_def distinct_map_filter)
  then show "sorted_wrt (<) (live_ids t)" by (simp add: live_ids_def strict_sorted_iff)
  show "i \<in> set (live_ids t) \<Longrightarrow> i \<noteq> [] \<and> strip i = i" using assms by (auto simp: clean_table_def live_ids_def)
qed

lemma strip_empty [simp]: "strip [] = []"
  by (simp add: strip_def strip_chars_def lstrip_chars_def rstrip_chars_def)

lemma after_Nil: "[] \<notin> set ids \<Longrightarrow> after [] ids = ids"
  unfolding after_def by (rule filter_True) (metis Nil_less_Cons neq_Nil_conv)

lemma scope_query_after:
  assumes "clean_table t"
  shows "scope_query t start = after (strip (or_empty start)) (live_ids t)"
proof -
  have "after [] (live_ids t) = live_ids t" by (rule after_Nil) (use live_ids_clean(2) [OF assms] in blast)
  then show ?thesis
    by (auto simp: scope_query_def Let_def live_ids_def [symmetric] after_def or_empty_def split: option.splits)
qed

lemma fetch_window_after:
  assumes "clean_table t"
  shows "fetch_window_ids t limit start = take (nat (max 1 limit)) (after (strip (or_empty start)) (live_ids t))"
proof -
  let ?w = "take (nat (max 1 limit)) (after (strip (or_empty start)) (live_ids t))"
  have w: "i \<noteq> [] \<and> strip i = i" if "i \<in> set ?w" for i
    using live_ids_clean(2) [OF assms, of i] in_set_takeD [OF that] by (auto simp: after_def)
  then have "map strip ?w = ?w" by (intro map_idI) blast
  moreover have "filter (\<lambda>i. i \<noteq> []) ?w = ?w" using w by (intro filter_True) blast
  ultimately show ?thesis unfolding fetch_window_ids_def scope_query_after [OF assms] by simp
qed

lemma after_last_page:
  assumes "sorted_wrt (<) ids" and "p = take b (after c ids)" and "p \<noteq> []"
  shows "after (last p) ids = drop b (after c ids)"
proof -
  let ?m = "after c ids"
  have s: "sorted_wrt (<) ?m" using assms(1) by (simp add: after_def sorted_wrt_filter)
  have m: "?m = butlast p @ last p # drop b ?m" using assms(2,3)
    by (metis append.assoc append_butlast_last_id append_Cons append_Nil append_take_drop_id)
  have "last p \<in> set ?m" using assms(2,3) by (metis in_set_takeD last_in_set)
  then have c: "c < last p" by (simp add: after_def)
  have "after (last p) ids = after (last p) ?m" using c by (auto simp: after_def intro!: filter_cong)
  also have "\<dots> = after (last p) (butlast p @ last p # drop b ?m)" using m by simp
  also have "\<dots> = drop b ?m"
  proof -
    have "sorted_wrt (<) (butlast p @ last p # drop b ?m)" using s m by simp
    then have "\<forall>x \<in> set (butlast p). x < last p" "\<forall>x \<in> set (drop b ?m). last p < x" by (simp_all add: sorted_wrt_append)
    then show ?thesis by (auto simp: after_def filter_empty_conv intro: less_asym)
  qed
  finally show ?thesis .
qed

lemma iter_pages_all:
  assumes "clean_table t" and "0 < sz"
  shows "strip c = c \<Longrightarrow> iter_pages t sz None (Some c) = Some (after c (live_ids t))"
proof (induction "length (after c (live_ids t))" arbitrary: c rule: less_induct)
  case less
  let ?m = "after c (live_ids t)" and ?p = "take (nat sz) (after c (live_ids t))"
  have w: "fetch_window_ids t sz (Some c) = ?p"
    using assms(2) less.prems by (simp add: fetch_window_after [OF assms(1)] or_empty_def max_def)
  show ?case
  proof (cases "?m = []")
    case True
    then show ?thesis by (subst iter_pages.simps) (simp add: w Let_def)
  next
    case False
    then have ne: "?p \<noteq> []" using assms(2) by simp
    have n: "after (last ?p) (live_ids t) = drop (nat sz) ?m"
      by (rule after_last_page [OF live_ids_clean(1) [OF assms(1)] refl ne])
    have "last ?p \<in> set (live_ids t)" using last_in_set [OF ne] by (auto dest!: in_set_takeD simp: after_def)
    then have "strip (last ?p) = last ?p" using live_ids_clean(2) [OF assms(1)] by blast
    moreover have "length (after (last ?p) (live_ids t)) < length ?m" using n False assms(2) by simp
    ultimately have "iter_pages t sz None (Some (last ?p)) = Some (drop (nat sz) ?m)" using less.hyps n by simp
    then show ?thesis using ne by (subst iter_pages.simps) (simp add: w Let_def)
  qed
qed

lemma iter_pages_limited:
  assumes "clean_table t" and "0 < sz"
  shows "strip c = c \<Longrightarrow> iter_pages t sz (Some r) (Some c) = Some (take (nat r) (after c (live_ids t)))"
proof (induction "nat r" arbitrary: c r rule: less_induct)
  case less
  let ?b = "nat (min sz r)"
  let ?m = "after c (live_ids t)" and ?p = "take (nat (min sz r)) (after c (live_ids t))"
  show ?case
  proof (cases "0 < r \<and> ?m \<noteq> []")
    case False
    have w: "0 < r \<Longrightarrow> fetch_window_ids t (min sz r) (Some c) = ?p"
      using assms(2) less.prems by (simp add: fetch_window_after [OF assms(1)] or_empty_def max_def)
    show ?thesis using False by (subst iter_pages.simps) (auto simp: w Let_def)
  next
    case True
    have w: "fetch_window_ids t (min sz r) (Some c) = ?p"
      using assms(2) less.prems True by (simp add: fetch_window_after [OF assms(1)] or_empty_def max_def)
    have ne: "?p \<noteq> []" using assms(2) True by (auto simp: min_def)
    have n: "after (last ?p) (live_ids t) = drop ?b ?m"
      by (rule after_last_page [OF live_ids_clean(1) [OF assms(1)] refl ne])
    have "last ?p \<in> set (live_ids t)" using last_in_set [OF ne] by (auto dest!: in_set_takeD simp: after_def)
    then have "strip (last ?p) = last ?p" using live_ids_clean(2) [OF assms(1)] by blast
    moreover have l: "0 < length ?p" using ne by blast
    then have "nat (r - int (length ?p)) < nat r" using True by (simp add: nat_less_iff)
    ultimately have "iter_pages t sz (Some (r - int (length ?p))) (Some (last ?p))
        = Some (take (nat (r - int (length ?p))) (drop ?b ?m))"
      using less.hyps n by simp
    moreover have "?p @ take (nat (r - int (length ?p))) (drop ?b ?m) = take (nat r) ?m"
    proof (cases "length ?m < ?b")
      case True
      then show ?thesis by simp
    next
      case False
      then have len: "length ?p = ?b" by simp
      have "?b \<le> nat r" by simp
      then have "nat r = ?b + (nat r - ?b)" by simp
      moreover have "nat (r - int ?b) = nat r - ?b" using True assms(2) by simp
      ultimately show ?thesis using len by (metis take_add)
    qed
    ultimately show ?thesis using ne True by (subst iter_pages.simps) (simp add: w Let_def)
  qed
qed

text \<open>The ids of a run: those after the start, at most \<open>limit\<close> of them.\<close>

definition run_ids :: "cached_matter list \<Rightarrow> string option \<Rightarrow> int option \<Rightarrow> string list" where
  "run_ids t start limit =
     (case limit of None \<Rightarrow> \<lambda>xs. xs | Some n \<Rightarrow> take (nat n)) (after (strip (or_empty start)) (live_ids t))"

lemma iter_pages_None: "iter_pages t sz r None = iter_pages t sz r (Some [])"
  by (subst (1 2) iter_pages.simps) (simp add: fetch_window_ids_def scope_query_def)

lemma iter_ids:
  assumes "clean_table t"
  shows "iter_matter_status_cache_ids t start limit page_size = Some (run_ids t start limit)"
proof -
  define sz where "sz = max 1 (if page_size = 0 then RECONCILE_PAGE_SIZE else page_size)"
  have sz: "0 < sz" by (simp add: sz_def)
  define c where "c = strip (or_empty start)"
  have c: "strip c = c" by (simp add: c_def)
  have cur: "iter_pages t sz r (if c = [] then None else Some c) = iter_pages t sz r (Some c)" for r
    by (simp add: iter_pages_None)
  show ?thesis
  proof (cases limit)
    case None
    then show ?thesis using cur iter_pages_all [OF assms sz c]
      by (simp add: iter_matter_status_cache_ids_def run_ids_def Let_def sz_def [symmetric] c_def [symmetric])
  next
    case (Some n)
    have n: "nat (max 0 n) = nat n" by simp
    have "iter_pages t sz (Some (max 0 n)) (if c = [] then None else Some c) = Some (take (nat n) (after c (live_ids t)))"
      unfolding cur iter_pages_limited [OF assms sz c, of "max 0 n"] n ..
    moreover have "max 0 n = 0 \<Longrightarrow> nat n = 0" by simp
    ultimately show ?thesis unfolding iter_matter_status_cache_ids_def run_ids_def Let_def sz_def [symmetric] c_def [symmetric] Some
      by (cases "max 0 n = 0") (auto simp: max_def split: if_splits)
  qed
qed

section \<open>The refresh of one matter\<close>

lemma related_on_date: "related_on (date_only_str v) \<noteq> None"
  using date_only_str_result [of v] fromisoformat_isoformat by (auto simp: related_on_def)

lemma date_only_str_again: "date_only_str (Some (date_only_str v)) = date_only_str v"
proof -
  have "date_only_str (Some []) = []" by (simp add: date_only_str_def or_empty_def)
  with date_only_str_result [of v] date_only_str_iso show ?thesis by auto
qed

lemma normalize_space_empty [simp]: "normalize_space None = []" "normalize_space (Some []) = []"
  by (simp_all add: normalize_space_def or_empty_def)

lemma empty_or_value_reads:
  "normalize_space (empty_or_value b v) = normalize_space (Some v)"
  "date_only_str (empty_or_value b (date_only_str w)) = date_only_str w"
proof -
  show "normalize_space (empty_or_value b v) = normalize_space (Some v)" by (auto simp: empty_or_value_def)
  have "date_only_str None = date_only_str (Some [])" by (simp add: date_only_str_def or_empty_def)
  then show "date_only_str (empty_or_value b (date_only_str w)) = date_only_str w"
    using date_only_str_again [of w] by (auto simp: empty_or_value_def)
qed

text \<open>The columns of a matter agree with a computed status.\<close>

definition agrees :: "auto_status \<Rightarrow> cached_matter \<Rightarrow> bool" where
  "agrees auto m \<longleftrightarrow>
     normalize_space (mt_status_red m) = normalize_space (Some (strip (as_red auto)))
     \<and> date_only_str (mt_red_date m) = date_only_str (Some (as_red_date auto))
     \<and> related_on (date_only_str (Some (as_red_date auto))) = Some (mt_red_on m)
     \<and> normalize_space (mt_status_blue m) = normalize_space (Some (strip (as_blue auto)))"

lemma write_status_agrees:
  assumes "write_status b auto on m = (fs, m')" and "related_on (date_only_str (Some (as_red_date auto))) = Some on"
  shows "agrees auto m'" and "mt_id m' = mt_id m" and "mt_deleted m' = mt_deleted m"
    and "agrees auto m \<Longrightarrow> m' = m \<and> fs = []"
  using assms empty_or_value_reads by (auto simp: write_status_def agrees_def Let_def split: if_splits)

definition derived :: "cache_env \<Rightarrow> cached_matter \<Rightarrow> auto_status option" where
  "derived e m = ce_derive e (mt_id m) (strip (or_empty (mt_status_red m))) (date_only_str (mt_red_date m))
     (strip (or_empty (mt_status_blue m))) (strip (or_empty (mt_memo m)))"

lemma apply_cases:
  assumes "mt_id m \<noteq> []"
  obtains "derived e m = None" "apply_auto_status_cache_to_matter (ce_derive e) None None None None b m = None"
  | auto r m' where "derived e m = Some auto" "apply_auto_status_cache_to_matter (ce_derive e) None None None None b m = Some (r, m')"
      "agrees auto m'" "mt_id m' = mt_id m" "mt_deleted m' = mt_deleted m" "agrees auto m \<Longrightarrow> m' = m \<and> \<not> sr_changed r"
proof (cases "derived e m")
  case None
  then show ?thesis using that(1) assms by (simp add: apply_auto_status_cache_to_matter_def derived_def given_or_def)
next
  case (Some auto)
  from related_on_date obtain on where on: "related_on (date_only_str (Some (as_red_date auto))) = Some on" by blast
  obtain fs m' where w: "write_status b auto on m = (fs, m')" by fastforce
  have "apply_auto_status_cache_to_matter (ce_derive e) None None None None b m
      = Some (\<lparr>sr_changed = (fs \<noteq> []), sr_fields = fs, sr_auto = auto\<rparr>, m')"
    using assms Some on w by (simp add: apply_auto_status_cache_to_matter_def derived_def given_or_def)
  then show ?thesis using that(2) [OF Some] write_status_agrees [OF w on] by simp
qed

section \<open>Reconciliation is a map over the table\<close>

definition cache_fails :: "cache_env \<Rightarrow> cached_matter list \<Rightarrow> string \<Rightarrow> bool" where
  "cache_fails e t mid \<longleftrightarrow> ce_release_fails e mid \<or> (\<exists>m \<in> set t. mt_id m = mid \<and> derived e m = None)"

text \<open>A matter after a run over \<open>ids\<close>.\<close>

definition refreshed :: "cache_env \<Rightarrow> bool \<Rightarrow> string list \<Rightarrow> cached_matter \<Rightarrow> cached_matter" where
  "refreshed e b ids m =
     (if mt_id m \<in> set ids \<and> \<not> ce_release_fails e (mt_id m)
      then (case apply_auto_status_cache_to_matter (ce_derive e) None None None None b m of Some (r, m') \<Rightarrow> m' | None \<Rightarrow> m)
      else m)"

lemma refreshed_keys:
  assumes "mt_id m \<noteq> []"
  shows "mt_id (refreshed e b ids m) = mt_id m" and "mt_deleted (refreshed e b ids m) = mt_deleted m"
  by (cases rule: apply_cases [OF assms, of e b]; simp add: refreshed_def)+

lemma refreshed_agrees:
  assumes "mt_id m \<in> set ids" and "mt_id m \<noteq> []" and "\<not> ce_release_fails e (mt_id m)" and "derived e m = Some auto"
  shows "agrees auto (refreshed e b ids m)"
  using assms by (cases rule: apply_cases [OF assms(2), of e b]) (simp_all add: refreshed_def)

lemma refreshed_unchanged: "mt_id m \<notin> set ids \<Longrightarrow> refreshed e b ids m = m"
  by (simp add: refreshed_def)

lemma clean_map_refreshed:
  assumes "clean_table t"
  shows "clean_table (map (refreshed e b ids) t)" and "live_ids (map (refreshed e b ids) t) = live_ids t"
proof -
  have k: "mt_id (refreshed e b ids m) = mt_id m \<and> mt_deleted (refreshed e b ids m) = mt_deleted m" if "m \<in> set t" for m
    using assms that refreshed_keys by (simp add: clean_table_def)
  then have ids: "map mt_id (map (refreshed e b ids) t) = map mt_id t" by simp
  show "clean_table (map (refreshed e b ids) t)" using assms k unfolding clean_table_def ids by auto
  have "map mt_id (filter (\<lambda>m. mt_deleted m \<noteq> Some True) (map (refreshed e b ids) t)) = map mt_id (filter (\<lambda>m. mt_deleted m \<noteq> Some True) t)"
    using k by (induction t) auto
  then show "live_ids (map (refreshed e b ids) t) = live_ids t" by (simp add: live_ids_def)
qed

lemma row_unique: "clean_table t \<Longrightarrow> m \<in> set t \<Longrightarrow> x \<in> set t \<Longrightarrow> mt_id x = mt_id m \<Longrightarrow> x = m"
  unfolding clean_table_def by (metis distinct_map inj_onD)

lemma cache_fails_row:
  assumes "clean_table t" and "m \<in> set t"
  shows "cache_fails e t (mt_id m) \<longleftrightarrow> ce_release_fails e (mt_id m) \<or> derived e m = None"
proof -
  have "derived e m = None" if "x \<in> set t" "mt_id x = mt_id m" "derived e x = None" for x
    using row_unique [OF assms that(1,2)] that(3) by simp
  then show ?thesis using assms(2) unfolding cache_fails_def by metis
qed

lemma map_refreshed_row:
  assumes "clean_table t" and "m \<in> set t"
  shows "map (refreshed e b [mt_id m]) t = sql_update (\<lambda>x. mt_id x = mt_id m) (\<lambda>_. refreshed e b [mt_id m] m) t"
  unfolding sql_update_def
proof (rule map_cong [OF refl])
  fix x assume x: "x \<in> set t"
  show "refreshed e b [mt_id m] x = (if mt_id x = mt_id m then refreshed e b [mt_id m] m else x)"
  proof (cases "mt_id x = mt_id m")
    case True
    with row_unique [OF assms x] show ?thesis by simp
  qed (simp add: refreshed_def)
qed

lemma sql_update_self:
  assumes "clean_table t" and "m \<in> set t"
  shows "sql_update (\<lambda>x. mt_id x = mt_id m) (\<lambda>_. m) t = t"
  unfolding sql_update_def
proof (rule map_idI)
  fix x assume "x \<in> set t"
  then show "(if mt_id x = mt_id m then m else x) = x" using row_unique [OF assms] by (cases "mt_id x = mt_id m") auto
qed

definition step_ok :: "cache_env \<Rightarrow> bool \<Rightarrow> string \<Rightarrow> recon \<Rightarrow> recon \<Rightarrow> bool" where
  "step_ok e b mid s r \<longleftrightarrow>
     rc_session r = map (refreshed e b [mid]) (rc_session s)
     \<and> rc_errors r = rc_errors s + (if cache_fails e (rc_session s) mid then 1 else 0)
     \<and> rc_processed r = rc_processed s
     \<and> rc_saw_error r = (rc_saw_error s \<or> cache_fails e (rc_session s) mid)
     \<and> rc_checkpoint r = (if rc_saw_error s \<or> cache_fails e (rc_session s) mid then rc_checkpoint s else mid)"

lemma recon_try_effect:
  assumes "clean_table (rc_session s)"
  shows "step_ok e b mid s (recon_try e b mid s)"
proof (cases "sql_first (\<lambda>m. mt_id m = mid) (rc_session s)")
  case None
  then have "cache_fails e (rc_session s) mid = ce_release_fails e mid" by (auto simp: cache_fails_def)
  moreover have "map (refreshed e b [mid]) (rc_session s) = rc_session s"
    using None by (intro map_idI refreshed_unchanged) auto
  ultimately show ?thesis using None
    by (simp add: step_ok_def recon_try_def recon_release_def recon_error_def del: sql_first_None)
next
  case (Some m)
  then have m: "m \<in> set (rc_session s)" "mid = mt_id m" by (auto dest: sql_first_Some)
  then have ne: "mt_id m \<noteq> []" using assms unfolding clean_table_def by blast
  note row = cache_fails_row [OF assms m(1)] map_refreshed_row [OF assms m(1)] and self = sql_update_self [OF assms m(1)]
  show ?thesis
  proof (cases rule: apply_cases [OF ne, of e b])
    case 1
    then have "refreshed e b [mt_id m] m = m" by (simp add: refreshed_def)
    with Some 1 show ?thesis unfolding step_ok_def m(2) row self by (simp add: recon_try_def recon_error_def self)
  next
    case (2 auto r m')
    then have "refreshed e b [mt_id m] m = (if ce_release_fails e (mt_id m) then m else m')" by (simp add: refreshed_def)
    with Some 2 show ?thesis
      unfolding step_ok_def m(2) row by (simp add: recon_try_def recon_release_def recon_error_def recon_count_def self)
  qed
qed

lemma recon_one_effect:
  assumes "clean_table (rc_session s)"
  shows "step_ok e b mid (s\<lparr>rc_processed := rc_processed s + 1\<rparr>) (recon_one e c k b mid s)"
  using recon_try_effect [of "s\<lparr>rc_processed := rc_processed s + 1\<rparr>" e b mid] assms
  by (simp add: recon_one_def Let_def step_ok_def)

lemma cache_fails_other:
  assumes "clean_table t" and "i \<noteq> mid"
  shows "cache_fails e (map (refreshed e b [mid]) t) i = cache_fails e t i"
proof -
  have "refreshed e b [mid] m = m" if "mt_id m = i" for m using that assms(2) by (simp add: refreshed_def)
  moreover have "mt_id (refreshed e b [mid] m) = mt_id m" if "m \<in> set t" for m
    using that assms(1) refreshed_keys(1) by (simp add: clean_table_def)
  ultimately have "(\<exists>m \<in> set (map (refreshed e b [mid]) t). mt_id m = i \<and> derived e m = None)
      \<longleftrightarrow> (\<exists>m \<in> set t. mt_id m = i \<and> derived e m = None)"
    unfolding set_map bex_simps by (metis (no_types, lifting))
  then show ?thesis unfolding cache_fails_def by simp
qed

lemma refreshed_Cons:
  assumes "mid \<notin> set ids" and "mt_id m \<noteq> []"
  shows "refreshed e b ids (refreshed e b [mid] m) = refreshed e b (mid # ids) m"
proof (cases "mt_id m = mid")
  case True
  then have "refreshed e b ids (refreshed e b [mid] m) = refreshed e b [mid] m"
    using refreshed_keys(1) [OF assms(2)] assms(1) by (intro refreshed_unchanged) simp
  with True show ?thesis by (simp add: refreshed_def)
qed (simp add: refreshed_def)

lemma recon_fold:
  assumes "clean_table (rc_session s)" and "distinct ids" and "s' = fold (recon_one e c k b) ids s"
  shows "rc_session s' = map (refreshed e b ids) (rc_session s)
    \<and> rc_errors s' = rc_errors s + length (filter (cache_fails e (rc_session s)) ids)
    \<and> rc_processed s' = rc_processed s + length ids
    \<and> (\<not> rc_saw_error s \<longrightarrow> rc_checkpoint s' = last (rc_checkpoint s # takeWhile (\<lambda>i. \<not> cache_fails e (rc_session s) i) ids))
    \<and> (rc_saw_error s \<longrightarrow> rc_checkpoint s' = rc_checkpoint s)"
  using assms
proof (induction ids arbitrary: s)
  case Nil
  then show ?case by (simp add: refreshed_def)
next
  case (Cons mid ids)
  define s1 where "s1 = recon_one e c k b mid s"
  have st: "step_ok e b mid (s\<lparr>rc_processed := rc_processed s + 1\<rparr>) s1"
    unfolding s1_def by (rule recon_one_effect [OF Cons.prems(1)])
  then have s1: "rc_session s1 = map (refreshed e b [mid]) (rc_session s)" by (simp add: step_ok_def)
  with clean_map_refreshed(1) [OF Cons.prems(1)] have cl: "clean_table (rc_session s1)" by simp
  have mid: "mid \<notin> set ids" using Cons.prems(2) by simp
  have same: "cache_fails e (rc_session s1) i = cache_fails e (rc_session s) i" if "i \<in> set ids" for i
    unfolding s1 by (rule cache_fails_other [OF Cons.prems(1)]) (use mid that in blast)
  have f: "filter (cache_fails e (rc_session s1)) ids = filter (cache_fails e (rc_session s)) ids"
    and w: "takeWhile (\<lambda>i. \<not> cache_fails e (rc_session s1) i) ids = takeWhile (\<lambda>i. \<not> cache_fails e (rc_session s) i) ids"
    using same by (auto intro!: filter_cong takeWhile_cong)
  have m: "map (refreshed e b ids) (rc_session s1) = map (refreshed e b (mid # ids)) (rc_session s)"
    unfolding s1 map_map comp_def using refreshed_Cons [OF mid] Cons.prems(1) by (intro map_cong) (auto simp: clean_table_def)
  have "s' = fold (recon_one e c k b) ids s1" "distinct ids" using Cons.prems by (simp_all add: s1_def)
  note ih = Cons.IH [OF cl this(2,1)]
  show ?case using ih st unfolding f w m by (simp add: step_ok_def)
qed

lemma reconcile_effect:
  assumes "clean_table t" and "distinct ids" and "s = reconcile_for_ids e c k b ids t"
  shows "rc_session s = map (refreshed e b ids) t" and "c \<Longrightarrow> rc_committed s = rc_session s"
    and "rc_errors s = length (filter (cache_fails e t) ids)" and "rc_processed s = length ids"
    and "rc_checkpoint s = last ([] # takeWhile (\<lambda>i. \<not> cache_fails e t i) ids)"
proof -
  define s0 where "s0 = fold (recon_one e c (nat (max 1 (if k = 0 then 100 else k))) b) ids (recon_start t)"
  have s: "s = (if c then s0\<lparr>rc_committed := rc_session s0\<rparr> else s0)" by (simp add: assms(3) reconcile_for_ids_def s0_def Let_def)
  have "clean_table (rc_session (recon_start t))" using assms(1) by (simp add: recon_start_def)
  note f = recon_fold [OF this assms(2) s0_def]
  show "rc_session s = map (refreshed e b ids) t" and "c \<Longrightarrow> rc_committed s = rc_session s"
    and "rc_errors s = length (filter (cache_fails e t) ids)" and "rc_processed s = length ids"
    and "rc_checkpoint s = last ([] # takeWhile (\<lambda>i. \<not> cache_fails e t i) ids)"
    using f by (simp_all add: s recon_start_def)
qed

lemma run_ids_props:
  assumes "clean_table t"
  shows "distinct (run_ids t start limit)" and "set (run_ids t start limit) \<subseteq> set (live_ids t)"
proof -
  have "distinct (after c (live_ids t))" for c
    using live_ids_clean(1) [OF assms] by (simp add: after_def strict_sorted_iff)
  then show "distinct (run_ids t start limit)" by (simp add: run_ids_def split: option.splits)
  show "set (run_ids t start limit) \<subseteq> set (live_ids t)"
    using set_take_subset by (fastforce simp: run_ids_def after_def split: option.splits)
qed

text \<open>C20: A committed reconciliation always ends, and page by page it does what one pass over the table would
  do: it visits the ids of the live matters after the start in order, at most \<open>limit\<close> of them and each
  once, and afterwards every visited matter whose status could be computed and stored agrees with that
  status in all four columns, all other matters are unchanged, and the report counts the visited and the
  failed ones.\<close>

theorem reconciliation_refreshes_matters:
  assumes "clean_table t"
  shows "\<exists>s. reconcile_matter_status_cache_batch e limit True interval b start page_size t = Some s
    \<and> rc_committed s = map (refreshed e b (run_ids t start limit)) t
    \<and> rc_processed s = length (run_ids t start limit)
    \<and> rc_errors s = length (filter (cache_fails e t) (run_ids t start limit))
    \<and> (\<forall>m auto. m \<in> set t \<and> mt_id m \<in> set (run_ids t start limit) \<and> \<not> ce_release_fails e (mt_id m) \<and> derived e m = Some auto
         \<longrightarrow> agrees auto (refreshed e b (run_ids t start limit) m))
    \<and> (\<forall>m. mt_id m \<notin> set (run_ids t start limit) \<longrightarrow> refreshed e b (run_ids t start limit) m = m)"
proof -
  let ?ids = "run_ids t start limit"
  define s where "s = reconcile_for_ids e True interval b ?ids t"
  have "reconcile_matter_status_cache_batch e limit True interval b start page_size t = Some s"
    by (simp add: reconcile_matter_status_cache_batch_def iter_ids [OF assms] s_def)
  moreover note reconcile_effect [OF assms run_ids_props(1) [OF assms] s_def]
  moreover have "agrees auto (refreshed e b ?ids m)"
    if "m \<in> set t \<and> mt_id m \<in> set ?ids \<and> \<not> ce_release_fails e (mt_id m) \<and> derived e m = Some auto" for m auto
    using refreshed_agrees [of m ?ids e auto b] that assms by (simp add: clean_table_def)
  ultimately show ?thesis using refreshed_unchanged by auto
qed

definition row :: "string \<Rightarrow> bool option \<Rightarrow> cached_matter" where
  "row i del = \<lparr>mt_id = i, mt_deleted = del, mt_memo = None, mt_our_ref = Some ''R'', mt_status_red = Some ''Old'',
     mt_red_date = Some ''2024.1.2'', mt_red_on = None, mt_status_blue = None\<rparr>"

definition small_env :: cache_env where
  "small_env = \<lparr>ce_derive = (\<lambda>i r d b memo. if i = ''m2'' then None
       else Some (AutoStatus\<lparr>as_red := ''Notice'', as_red_date := ''2025-03-01''\<rparr>)), ce_release_fails = (\<lambda>i. i = ''m4'')\<rparr>"

definition small_table :: "cached_matter list" where
  "small_table = [row ''m3'' None, row ''m1'' (Some False), row ''m2'' None, row ''m0'' (Some True), row ''m4'' None]"

theorem reconciliation_refreshes_matters_witness:
  "\<exists>s. reconcile_matter_status_cache_batch small_env None True 1 True None 2 small_table = Some s
    \<and> rc_processed s = 4 \<and> rc_errors s = 2 \<and> mt_status_red (rc_committed s ! 0) = Some ''Notice''
    \<and> mt_red_on (rc_committed s ! 1) = Some (Date 2025 3 1) \<and> rc_committed s ! 2 = row ''m2'' None"
proof -
  have "clean_table small_table" by code_simp
  note t = reconciliation_refreshes_matters [OF this, of small_env None 1 True None 2]
  have ids: "run_ids small_table None None = [''m1'', ''m2'', ''m3'', ''m4'']" by code_simp
  define t' where "t' = map (refreshed small_env True [''m1'', ''m2'', ''m3'', ''m4'']) small_table"
  have n: "length [''m1'', ''m2'', ''m3'', ''m4''] = 4" "length (filter (cache_fails small_env small_table) [''m1'', ''m2'', ''m3'', ''m4'']) = 2"
    by code_simp+
  have rows: "mt_status_red (t' ! 0) = Some ''Notice''" "mt_red_on (t' ! 1) = Some (Date 2025 3 1)" "t' ! 2 = row ''m2'' None"
    unfolding t'_def by code_simp+
  obtain s where s: "reconcile_matter_status_cache_batch small_env None True 1 True None 2 small_table = Some s"
    "rc_committed s = t'" "rc_processed s = 4" "rc_errors s = 2"
    using t unfolding ids n t'_def by blast
  show ?thesis by (rule exI [of _ s]) (simp only: s rows simp_thms)
qed

section \<open>The audit visits every matter, unless one fails\<close>

definition audit_step :: "cache_env \<Rightarrow> int \<Rightarrow> int \<Rightarrow> bool \<Rightarrow> audit_db \<Rightarrow> audit_db" where
  "audit_step e limit interval b db = snd (audit_matter_status_cache_window e False limit True interval b db)"

definition audits :: "cache_env \<Rightarrow> int \<Rightarrow> int \<Rightarrow> bool \<Rightarrow> nat \<Rightarrow> audit_db \<Rightarrow> audit_db" where
  "audits e limit interval b n db = (audit_step e limit interval b ^^ n) db"

text \<open>The ids of the next audit.\<close>

definition audited :: "cache_env \<Rightarrow> int \<Rightarrow> int \<Rightarrow> bool \<Rightarrow> audit_db \<Rightarrow> string list" where
  "audited e limit interval b db = ar_ids (fst (audit_matter_status_cache_window e False limit True interval b db))"

definition cursor_of :: "audit_db \<Rightarrow> string" where
  "cursor_of db = strip (or_empty (ad_cursor db))"

definition window :: "int \<Rightarrow> string \<Rightarrow> string list \<Rightarrow> string list" where
  "window limit c ids = take (nat (max 1 limit)) (if after c ids = [] then ids else after c ids)"

lemma audited_window:
  assumes "clean_table (ad_matters db)"
  shows "audited e limit interval b db = window limit (cursor_of db) (live_ids (ad_matters db))"
proof -
  have all: "after [] (live_ids (ad_matters db)) = live_ids (ad_matters db)"
    by (rule after_Nil) (use live_ids_clean(2) [OF assms] in blast)
  have lim: "max 1 (max 1 (if limit = 0 then 1 else limit)) = max 1 limit" by auto
  show ?thesis
    using all unfolding audited_def audit_matter_status_cache_window_def audit_window_def Let_def window_def cursor_of_def
      fetch_window_after [OF assms] lim by (auto simp: or_empty_def)
qed

lemma window_props:
  assumes "clean_table t"
  shows "distinct (window limit c (live_ids t))" and "set (window limit c (live_ids t)) \<subseteq> set (live_ids t)"
proof -
  have "distinct (live_ids t)" using live_ids_clean(1) [OF assms] by (simp add: strict_sorted_iff)
  then show "distinct (window limit c (live_ids t))" by (simp add: window_def after_def)
  show "set (window limit c (live_ids t)) \<subseteq> set (live_ids t)"
    by (auto simp: window_def after_def dest: in_set_takeD)
qed

lemma audit_step_effect:
  assumes "clean_table (ad_matters db)" and "w = audited e limit interval b db"
  shows "ad_matters (audit_step e limit interval b db) = map (refreshed e b w) (ad_matters db)"
    and "cursor_of (audit_step e limit interval b db) =
      (if filter (cache_fails e (ad_matters db)) w = [] then last ([] # w)
       else last ([] # takeWhile (\<lambda>i. \<not> cache_fails e (ad_matters db) i) w))"
proof -
  define s where "s = reconcile_for_ids e True interval b w (ad_matters db)"
  have w: "w = window limit (cursor_of db) (live_ids (ad_matters db))" using assms(2) audited_window [OF assms(1)] by simp
  have d: "distinct w" and sub: "set w \<subseteq> set (live_ids (ad_matters db))" unfolding w by (rule window_props [OF assms(1)])+
  note eff = reconcile_effect [OF assms(1) d s_def]
  have r: "ar_recon (audit_window e limit True interval b db) = s" "ar_ids (audit_window e limit True interval b db) = w"
    unfolding assms(2) s_def by (simp_all add: audited_def audit_matter_status_cache_window_def audit_window_def Let_def)
  have strip: "strip (last ([] # xs)) = last ([] # xs)" if "set xs \<subseteq> set w" for xs
  proof (cases "xs = []")
    case False
    then have "last xs \<in> set (live_ids (ad_matters db))" using sub that last_in_set by blast
    with False live_ids_clean(2) [OF assms(1)] show ?thesis by simp
  qed simp
  have a: "ar_after (audit_window e limit True interval b db)
      = (if 0 < rc_errors (ar_recon (audit_window e limit True interval b db)) then strip (rc_checkpoint (ar_recon (audit_window e limit True interval b db)))
         else last ([] # ar_ids (audit_window e limit True interval b db)))"
    by (simp add: audit_window_def Let_def)
  show "ad_matters (audit_step e limit interval b db) = map (refreshed e b w) (ad_matters db)"
    by (simp add: audit_step_def audit_matter_status_cache_window_def Let_def r eff(1))
  have tw: "set (takeWhile (\<lambda>i. \<not> cache_fails e (ad_matters db) i) w) \<subseteq> set w" by (auto dest: set_takeWhileD)
  have "cursor_of (audit_step e limit interval b db) = strip (ar_after (audit_window e limit True interval b db))"
    by (simp add: cursor_of_def audit_step_def audit_matter_status_cache_window_def Let_def or_empty_def)
  then show "cursor_of (audit_step e limit interval b db) =
      (if filter (cache_fails e (ad_matters db)) w = [] then last ([] # w)
       else last ([] # takeWhile (\<lambda>i. \<not> cache_fails e (ad_matters db) i) w))"
    unfolding a r eff(3) eff(5) using strip [OF tw] strip [OF subset_refl] by (simp del: last.simps)
qed

lemma audit_step_keeps:
  assumes "clean_table (ad_matters db)"
  shows "clean_table (ad_matters (audit_step e limit interval b db))"
    and "live_ids (ad_matters (audit_step e limit interval b db)) = live_ids (ad_matters db)"
  using clean_map_refreshed [OF assms] by (simp_all add: audit_step_effect(1) [OF assms refl])

lemma audits_Suc: "audits e limit interval b (Suc n) db = audits e limit interval b n (audit_step e limit interval b db)"
  by (simp add: audits_def funpow_swap1)

lemma audits_0 [simp]: "audits e limit interval b 0 db = db"
  by (simp add: audits_def)

lemma filter_shorter:
  "(\<And>i. i \<in> set xs \<Longrightarrow> p i \<Longrightarrow> q i) \<Longrightarrow> x \<in> set xs \<Longrightarrow> q x \<Longrightarrow> \<not> p x \<Longrightarrow> length (filter p xs) < length (filter q xs)"
proof -
  assume a: "\<And>i. i \<in> set xs \<Longrightarrow> p i \<Longrightarrow> q i" "x \<in> set xs" "q x" "\<not> p x"
  have "filter p xs = filter p (filter q xs)" using a(1) by (auto simp: filter_filter intro: filter_cong)
  moreover have "length (filter p (filter q xs)) < length (filter q xs)" using a by (intro length_filter_less) auto
  ultimately show ?thesis by simp
qed

text \<open>How many audits may pass, at most, before the window reaches a matter.\<close>

definition audit_rank :: "string list \<Rightarrow> string \<Rightarrow> string \<Rightarrow> nat" where
  "audit_rank ids m c =
     (if c < m then length (filter (\<lambda>i. c < i \<and> i < m) ids) else length ids + length (after c ids))"

lemma prefix_before:
  assumes "sorted_wrt (<) ids" and "(m :: string) \<in> set ids" and "m \<notin> set (take n ids)" and "i \<in> set (take n ids)"
  shows "i < m"
proof -
  have "m \<in> set (drop n ids)" using assms(2,3) by (metis UnE append_take_drop_id set_append)
  moreover have "sorted_wrt (<) (take n ids @ drop n ids)" using assms(1) by simp
  ultimately show ?thesis using assms(4) unfolding sorted_wrt_append by blast
qed

lemma audit_rank_bound:
  assumes "m \<in> set ids"
  shows "audit_rank ids m c < 2 * length ids"
proof -
  have "length (filter (\<lambda>i. c < i \<and> i < m) ids) < length ids" by (rule length_filter_less [OF assms]) simp
  moreover have "\<not> c < m \<Longrightarrow> length (after c ids) < length ids"
    unfolding after_def by (rule length_filter_less [OF assms])
  ultimately show ?thesis by (auto simp: audit_rank_def)
qed

lemma window_progress:
  assumes "sorted_wrt (<) ids" and "m \<in> set ids" and "w = window limit c ids" and "m \<notin> set w"
  shows "w \<noteq> []" and "audit_rank ids m (last w) < audit_rank ids m c"
proof -
  let ?n = "nat (max 1 limit)"
  have n: "0 < ?n" by simp
  have ne: "ids \<noteq> []" using assms(2) by auto
  show w: "w \<noteq> []" using n ne by (auto simp: assms(3) window_def)
  consider "c < m" | "\<not> c < m" "after c ids \<noteq> []" | "\<not> c < m" "after c ids = []" by blast
  then show "audit_rank ids m (last w) < audit_rank ids m c"
  proof cases
    case 1
    then have m: "m \<in> set (after c ids)" using assms(2) by (simp add: after_def)
    then have w': "w = take ?n (after c ids)" by (auto simp: assms(3) window_def)
    have s: "sorted_wrt (<) (after c ids)" using assms(1) by (simp add: after_def sorted_wrt_filter)
    have l: "last w < m" using prefix_before [OF s m] assms(4) last_in_set [OF w] unfolding w' by blast
    have "last w \<in> set (after c ids)" using last_in_set [OF w] unfolding w' by (rule in_set_takeD)
    then have "last w \<in> set ids" "c < last w" by (simp_all add: after_def)
    then have "length (filter (\<lambda>i. last w < i \<and> i < m) ids) < length (filter (\<lambda>i. c < i \<and> i < m) ids)"
      using l by (intro filter_shorter [of ids _ _ "last w"]) auto
    with 1 l show ?thesis by (simp add: audit_rank_def)
  next
    case 2
    then have w': "w = take ?n (after c ids)" by (simp add: assms(3) window_def)
    have "last w \<in> set (after c ids)" using last_in_set [OF w] unfolding w' by (rule in_set_takeD)
    then have l: "last w \<in> set ids" "c < last w" by (simp_all add: after_def)
    then have "length (after (last w) ids) < length (after c ids)"
      unfolding after_def by (intro filter_shorter [of ids _ _ "last w"]) auto
    with 2 l(2) show ?thesis by (simp add: audit_rank_def)
  next
    case 3
    then have "w = take ?n ids" by (simp add: assms(3) window_def)
    then have "last w < m" using prefix_before [OF assms(1,2)] assms(4) last_in_set [OF w] by simp
    moreover have "length (filter (\<lambda>i. last w < i \<and> i < m) ids) < length ids" by (rule length_filter_less [OF assms(2)]) simp
    ultimately show ?thesis using 3 by (simp add: audit_rank_def)
  qed
qed

lemma never_failing:
  assumes "\<And>i r d bl memo. ce_derive e i r d bl memo \<noteq> None" and "\<And>i. \<not> ce_release_fails e i"
  shows "\<not> cache_fails e t i"
  using assms by (auto simp: cache_fails_def derived_def)

lemma audit_reaches:
  assumes "\<And>i r d bl memo. ce_derive e i r d bl memo \<noteq> None" and "\<And>i. \<not> ce_release_fails e i"
    and "clean_table (ad_matters db)" and "mid \<in> set (live_ids (ad_matters db))"
  shows "\<exists>k \<le> audit_rank (live_ids (ad_matters db)) mid (cursor_of db). mid \<in> set (audited e limit interval b (audits e limit interval b k db))"
  using assms(3,4)
proof (induction "audit_rank (live_ids (ad_matters db)) mid (cursor_of db)" arbitrary: db rule: less_induct)
  case less
  let ?ids = "live_ids (ad_matters db)" and ?db = "audit_step e limit interval b db"
  define w where "w = audited e limit interval b db"
  have w: "w = window limit (cursor_of db) ?ids" unfolding w_def by (rule audited_window [OF less.prems(1)])
  show ?case
  proof (cases "mid \<in> set w")
    case True
    then show ?thesis by (intro exI [of _ 0]) (simp add: w_def)
  next
    case False
    note p = window_progress [OF live_ids_clean(1) [OF less.prems(1)] less.prems(2) w False]
    have c: "cursor_of ?db = last w"
      using audit_step_effect(2) [OF less.prems(1) w_def] never_failing [OF assms(1,2)] p(1) by simp
    note keep = audit_step_keeps [OF less.prems(1), of e limit interval b]
    have "audit_rank (live_ids (ad_matters ?db)) mid (cursor_of ?db) < audit_rank ?ids mid (cursor_of db)"
      unfolding keep(2) c by (rule p(2))
    moreover from less.hyps [OF this keep(1)] less.prems(2)
    obtain k where "k \<le> audit_rank (live_ids (ad_matters ?db)) mid (cursor_of ?db)"
      "mid \<in> set (audited e limit interval b (audits e limit interval b k ?db))" unfolding keep(2) by blast
    ultimately show ?thesis by (intro exI [of _ "Suc k"]) (simp add: audits_Suc)
  qed
qed

lemma audits_keep:
  assumes "clean_table (ad_matters db)"
  shows "clean_table (ad_matters (audits e limit interval b n db)) \<and> live_ids (ad_matters (audits e limit interval b n db)) = live_ids (ad_matters db)"
  using assms by (induction n arbitrary: db) (simp_all add: audits_Suc audit_step_keeps)

text \<open>C21: The audit reaches every matter. When no computation fails, then from any stored cursor every live
  matter is in the window of one of the next \<open>2 n\<close> audits, \<open>n\<close> the number of live matters, whatever the
  window size; after that audit the cached columns of the matter agree with the status computed for it.\<close>

theorem audit_covers_every_matter:
  assumes "\<And>i r d bl memo. ce_derive e i r d bl memo \<noteq> None" and "\<And>i. \<not> ce_release_fails e i"
    and "clean_table (ad_matters db)" and "mid \<in> set (live_ids (ad_matters db))"
  shows "\<exists>k m m' auto. k < 2 * length (live_ids (ad_matters db))
    \<and> mid \<in> set (audited e limit interval b (audits e limit interval b k db))
    \<and> m \<in> set (ad_matters (audits e limit interval b k db)) \<and> mt_id m = mid \<and> derived e m = Some auto
    \<and> m' \<in> set (ad_matters (audit_step e limit interval b (audits e limit interval b k db))) \<and> mt_id m' = mid \<and> agrees auto m'"
proof -
  from audit_reaches [OF assms] obtain k where k: "k \<le> audit_rank (live_ids (ad_matters db)) mid (cursor_of db)"
    "mid \<in> set (audited e limit interval b (audits e limit interval b k db))" by blast
  let ?db = "audits e limit interval b k db" and ?w = "audited e limit interval b (audits e limit interval b k db)"
  note keep = audits_keep [OF assms(3), of e limit interval b k]
  then have "mid \<in> set (live_ids (ad_matters ?db))" using assms(4) by simp
  then obtain m where m: "m \<in> set (ad_matters ?db)" "mt_id m = mid" by (auto simp: live_ids_def)
  obtain auto where auto: "derived e m = Some auto" using assms(1) unfolding derived_def by blast
  have ne: "mt_id m \<noteq> []" using keep m(1) unfolding clean_table_def by blast
  have "agrees auto (refreshed e b ?w m)" using refreshed_agrees [OF _ ne _ auto] k(2) m(2) assms(2) by simp
  moreover have "refreshed e b ?w m \<in> set (ad_matters (audit_step e limit interval b ?db))"
    using m(1) audit_step_effect(1) [OF _ refl] keep by simp
  moreover have "mt_id (refreshed e b ?w m) = mid" using refreshed_keys(1) [OF ne] m(2) by simp
  moreover have "k < 2 * length (live_ids (ad_matters db))" using k(1) audit_rank_bound [OF assms(4)] by (rule le_less_trans)
  ultimately show ?thesis using k(2) m auto by blast
qed

definition total_env :: cache_env where
  "total_env = \<lparr>ce_derive = (\<lambda>_ _ _ _ _. Some AutoStatus), ce_release_fails = (\<lambda>_. False)\<rparr>"

definition small_audit :: audit_db where
  "small_audit = \<lparr>ad_matters = small_table, ad_cursor = Some ''m3''\<rparr>"

theorem audit_covers_every_matter_witness:
  "\<exists>k m m' auto. k < 2 * length (live_ids (ad_matters small_audit))
    \<and> ''m2'' \<in> set (audited total_env 1 100 True
         (audits total_env 1 100 True k
            small_audit))
    \<and> m \<in> set (ad_matters (audits total_env 1 100 True k
            small_audit))
    \<and> mt_id m = ''m2'' \<and> derived total_env m = Some auto
    \<and> m' \<in> set (ad_matters (audit_step total_env 1 100 True
         (audits total_env 1 100 True k
            small_audit)))
    \<and> mt_id m' = ''m2'' \<and> agrees auto m'"
proof (rule audit_covers_every_matter)
  show "clean_table (ad_matters small_audit)" by code_simp
  show "''m2'' \<in> set (live_ids (ad_matters small_audit))" by code_simp
qed (simp_all add: total_env_def)

lemma cursor_before_failing:
  assumes "clean_table (ad_matters db)" and "x \<in> set (live_ids (ad_matters db))" and "\<And>r d bl memo. ce_derive e x r d bl memo = None"
    and "cursor_of db < x" and "w = audited e limit interval b db"
  shows "w = take (nat (max 1 limit)) (after (cursor_of db) (live_ids (ad_matters db)))"
    and "cursor_of (audit_step e limit interval b db) < x"
proof -
  let ?t = "ad_matters db" and ?a = "after (cursor_of db) (live_ids (ad_matters db))"
  have x: "x \<in> set ?a" using assms(2,4) by (simp add: after_def)
  then show w: "w = take (nat (max 1 limit)) ?a" using audited_window [OF assms(1)] assms(5) by (auto simp: window_def)
  have s: "sorted_wrt (<) ?a" using live_ids_clean(1) [OF assms(1)] by (simp add: after_def sorted_wrt_filter)
  from assms(2) obtain m where "m \<in> set ?t" "mt_id m = x" by (auto simp: live_ids_def)
  then have fx: "cache_fails e ?t x" using assms(3) by (auto simp: cache_fails_def derived_def)
  have "[] < x" using live_ids_clean(2) [OF assms(1,2)] by (cases x) simp_all
  then have before: "last ([] # xs) < x" if "\<forall>i \<in> set xs. i < x" for xs using that by (cases "xs = []") simp_all
  have tw: "i < x" if "i \<in> set (takeWhile (\<lambda>i. \<not> cache_fails e ?t i) w)" for i
  proof -
    obtain n where n: "takeWhile (\<lambda>i. \<not> cache_fails e ?t i) w = take n ?a" unfolding w
      by (metis append_take_drop_id take_append take_take takeWhile_eq_take)
    have "x \<notin> set (takeWhile (\<lambda>i. \<not> cache_fails e ?t i) w)" using fx by (auto dest: set_takeWhileD)
    then show ?thesis using prefix_before [OF s x] that unfolding n by blast
  qed
  have all: "i < x" if "filter (cache_fails e ?t) w = []" "i \<in> set w" for i
  proof -
    have "x \<notin> set w" using that(1) fx by (auto simp: filter_empty_conv)
    then show ?thesis using prefix_before [OF s x] that(2) unfolding w by blast
  qed
  show "cursor_of (audit_step e limit interval b db) < x"
    unfolding audit_step_effect(2) [OF assms(1,5)] using before tw all by (auto simp del: last.simps)
qed

text \<open>C39: One matter whose status cannot be computed keeps the audit from all matters behind it. When the
  computation for a live matter raises and the cursor stands before it, the cursor never passes it: a
  matter with at least a window of live matters from the failing one up to it is in no later window,
  however many audits run.\<close>

theorem failing_matter_stops_audit:
  assumes "clean_table (ad_matters db)" and "x \<in> set (live_ids (ad_matters db))"
    and "\<And>r d bl memo. ce_derive e x r d bl memo = None" and "cursor_of db < x"
    and "nat (max 1 limit) \<le> length (filter (\<lambda>i. x \<le> i \<and> i < y) (live_ids (ad_matters db)))"
  shows "y \<notin> set (audited e limit interval b (audits e limit interval b n db))"
  using assms(1,2,4,5)
proof (induction n arbitrary: db)
  case 0
  let ?a = "after (cursor_of db) (live_ids (ad_matters db))"
  note w = cursor_before_failing(1) [OF 0(1,2) assms(3) 0(3) refl]
  have s: "sorted_wrt (<) ?a" using live_ids_clean(1) [OF 0(1)] by (simp add: after_def sorted_wrt_filter)
  show ?case
  proof
    assume "y \<in> set (audited e limit interval b (audits e limit interval b 0 db))"
    then have y: "y \<in> set (take (nat (max 1 limit)) ?a)" using w by simp
    define w' where "w' = take (nat (max 1 limit)) ?a"
    have "i \<in> set w'" if "i \<in> set (live_ids (ad_matters db))" "x \<le> i" "i < y" for i
    proof (rule ccontr)
      assume "i \<notin> set w'"
      moreover have "i \<in> set ?a" using that 0(3) by (auto simp: after_def)
      ultimately have "y < i" using prefix_before [OF s] y by (simp add: w'_def)
      with that(3) show False by simp
    qed
    then have "insert y (set (filter (\<lambda>i. x \<le> i \<and> i < y) (live_ids (ad_matters db)))) \<subseteq> set w'" using y by (auto simp: w'_def)
    then have "card (insert y (set (filter (\<lambda>i. x \<le> i \<and> i < y) (live_ids (ad_matters db))))) \<le> length w'"
      by (meson List.finite_set card_length card_mono order_trans)
    moreover have "distinct (filter (\<lambda>i. x \<le> i \<and> i < y) (live_ids (ad_matters db)))"
      using live_ids_clean(1) [OF 0(1)] by (simp add: strict_sorted_iff)
    ultimately have "length (filter (\<lambda>i. x \<le> i \<and> i < y) (live_ids (ad_matters db))) < length w'"
      by (simp add: distinct_card [symmetric])
    with 0(4) show False by (simp add: w'_def)
  qed
next
  case (Suc n)
  note keep = audit_step_keeps [OF Suc.prems(1), of e limit interval b]
  have "cursor_of (audit_step e limit interval b db) < x" by (rule cursor_before_failing(2) [OF Suc.prems(1,2) assms(3) Suc.prems(3) refl])
  then show ?case using Suc.IH [of "audit_step e limit interval b db"] Suc.prems keep by (simp add: audits_Suc)
qed

theorem failing_matter_stops_audit_witness:
  "''m3'' \<notin> set (audited small_env 1 100 True (audits small_env 1 100 True 7 \<lparr>ad_matters = small_table, ad_cursor = None\<rparr>))"
proof (rule failing_matter_stops_audit [of _ "''m2''"])
  show "clean_table (ad_matters \<lparr>ad_matters = small_table, ad_cursor = None\<rparr>)" by code_simp
  show "''m2'' \<in> set (live_ids (ad_matters \<lparr>ad_matters = small_table, ad_cursor = None\<rparr>))" by code_simp
  show "cursor_of \<lparr>ad_matters = small_table, ad_cursor = None\<rparr> < ''m2''" by code_simp
  show "nat (max 1 1) \<le> length (filter (\<lambda>i. ''m2'' \<le> i \<and> i < ''m3'') (live_ids (ad_matters \<lparr>ad_matters = small_table, ad_cursor = None\<rparr>)))"
    by code_simp
qed (simp add: small_env_def)

end
