(* ===== verification/Invoice_Billing.thy ===== *)
theory Invoice_Billing
  imports Calendar Complex_Main "HOL-Library.Multiset"
begin

text \<open>
  Invoices (\<open>app/services/billing/utils.py\<close> and \<open>app/services/billing/invoice_services.py\<close>): amounts in currency
  units and in minor units, the totals of an invoice, what counts as paid, the payment records and the
  links between invoices and matters. Amounts are exact rationals, which is what Python's decimals are
  while a result has at most 28 digits; a value of a form or a row is its text (\<open>None\<close> for a missing
  one), and a text that is no finite number is unreadable. A column whose query fails counts as 0, as in
  the code.
\<close>

section \<open>Decimals\<close>

text \<open>\<open>ROUND_HALF_UP\<close> rounds ties away from zero, the default \<open>ROUND_HALF_EVEN\<close> to the even neighbour.\<close>

definition round_half_up :: "rat \<Rightarrow> int" where
  "round_half_up x = (if 0 \<le> x then \<lfloor>x + 1 / 2\<rfloor> else - \<lfloor>1 / 2 - x\<rfloor>)"

definition round_half_even :: "rat \<Rightarrow> int" where
  "round_half_even x =
     (let f = \<lfloor>x\<rfloor>; r = x - of_int \<lfloor>x\<rfloor> in
      if r < 1 / 2 then f else if 1 / 2 < r then f + 1 else if even f then f else f + 1)"

definition quantize :: "(rat \<Rightarrow> int) \<Rightarrow> nat \<Rightarrow> rat \<Rightarrow> rat" where
  "quantize rnd places x = of_int (rnd (x * 10 ^ places)) / 10 ^ places"

text \<open>\<open>Decimal(text)\<close>: a sign, digits with a point, and an exponent; underscores are ignored.\<close>

definition unsigned_decimal :: "string \<Rightarrow> rat option" where
  "unsigned_decimal s =
     (case split_on (CHR ''.'') s of
        [a] \<Rightarrow> if a \<noteq> [] \<and> list_all is_digit a then Some (of_int (digits_val a)) else None
      | [a, b] \<Rightarrow> if a @ b \<noteq> [] \<and> list_all is_digit (a @ b) then Some (of_int (digits_val (a @ b)) / 10 ^ length b) else None
      | _ \<Rightarrow> None)"

definition signed :: "(string \<Rightarrow> 'a option) \<Rightarrow> ('a \<Rightarrow> 'a) \<Rightarrow> string \<Rightarrow> 'a option" where
  "signed p neg s =
     (case s of [] \<Rightarrow> None
      | c # cs \<Rightarrow> if c = CHR ''-'' then map_option neg (p cs) else if c = CHR ''+'' then p cs else p s)"

definition exponent :: "string \<Rightarrow> rat option" where
  "exponent s =
     signed (\<lambda>t. if t \<noteq> [] \<and> list_all is_digit t then Some (10 ^ nat (digits_val t)) else None) (\<lambda>x. 1 / x) s"

definition Decimal :: "string \<Rightarrow> rat option" where
  "Decimal text =
     (case split_on (CHR ''e'') (lower (filter (\<lambda>c. c \<noteq> CHR ''_'') (strip text))) of
        [m] \<Rightarrow> signed unsigned_decimal uminus m
      | [m, e] \<Rightarrow> Option.bind (signed unsigned_decimal uminus m) (\<lambda>x. map_option ((*) x) (exponent e))
      | _ \<Rightarrow> None)"

text \<open>\<open>Decimal(str(v or 0)).quantize(Decimal("0.01"), ROUND_HALF_UP)\<close>.\<close>

definition d :: "string option \<Rightarrow> rat option" where
  "d v = map_option (quantize round_half_up 2) (case v of None \<Rightarrow> Some 0 | Some t \<Rightarrow> if t = [] then Some 0 else Decimal t)"

section \<open>Minor units\<close>

text \<open>The literal names the dollar twice; the later entry counts.\<close>

definition CURRENCY_SCALE :: "(string \<times> nat) list" where
  "CURRENCY_SCALE = [(''USD'', 2), (''EUR'', 2), (''JPY'', 0), (''CNY'', 2)]"

definition currency_or_usd :: "string option \<Rightarrow> string" where
  "currency_or_usd c = upper (if or_empty c = [] then ''USD'' else or_empty c)"

definition scale_of :: "string option \<Rightarrow> nat" where
  "scale_of c = (case map_of CURRENCY_SCALE (currency_or_usd c) of Some n \<Rightarrow> n | None \<Rightarrow> 2)"

definition to_minor :: "rat \<Rightarrow> string option \<Rightarrow> int" where
  "to_minor amount currency = \<lfloor>quantize round_half_up (scale_of currency) amount * 10 ^ scale_of currency\<rfloor>"

definition from_minor :: "int \<Rightarrow> string option \<Rightarrow> rat" where
  "from_minor n currency = of_int n / 10 ^ scale_of currency"

section \<open>Totals\<close>

text \<open>An integer field: absent, \<open>NULL\<close> (\<open>int(None)\<close> raises) or a number.\<close>

datatype int_field = Absent | Null | Flag int

fun flag_int :: "int \<Rightarrow> int_field \<Rightarrow> int option" where
  "flag_int dflt Absent = Some dflt"
| "flag_int dflt Null = None"
| "flag_int dflt (Flag n) = Some n"

record line_item =
  is_estimated :: int_field
  is_taxable :: int_field
  item_type :: "string option"
  qty :: "string option"
  unit_price :: "string option"
  discount :: "string option"
  fx_rate_used :: "string option"
  fx_fee :: "string option"
  fx_gov :: "string option"
  fx_markup :: "string option"

definition clamp_discount :: "rat \<Rightarrow> rat" where
  "clamp_discount pct = max 0 (min 100 pct)"

definition dec_or_zero :: "string option \<Rightarrow> rat" where
  "dec_or_zero v = (case d v of None \<Rightarrow> 0 | Some x \<Rightarrow> x)"

definition kind_of :: "line_item \<Rightarrow> string" where
  "kind_of it = lower (strip (if or_empty (item_type it) = [] then ''service'' else or_empty (item_type it)))"

definition rate_of :: "line_item \<Rightarrow> rat" where
  "rate_of it = (case fx_rate_used it of None \<Rightarrow> 0 | Some t \<Rightarrow> (case Decimal t of None \<Rightarrow> 0 | Some x \<Rightarrow> x))"

text \<open>The amount of an item and the part of it that is taxed; \<open>None\<close> when the code raises.\<close>

definition foreign_amount :: "line_item \<Rightarrow> rat" where
  "foreign_amount it = (dec_or_zero (fx_fee it) + dec_or_zero (fx_gov it)) * rate_of it * (1 + dec_or_zero (fx_markup it) / 100)"

definition domestic_amount :: "line_item \<Rightarrow> rat option" where
  "domestic_amount it =
     (case (d (qty it), d (unit_price it), d (discount it)) of
        (Some q, Some u, Some disc) \<Rightarrow> Some (q * u - q * u * clamp_discount disc / 100)
      | _ \<Rightarrow> None)"

definition item_amounts :: "line_item \<Rightarrow> (rat \<times> rat) option" where
  "item_amounts it =
     (case flag_int 0 (is_estimated it) of
        None \<Rightarrow> None
      | Some est \<Rightarrow>
          if est = 1 then Some (0, 0)
          else if kind_of it = ''foreign'' \<and> 0 < rate_of it then
            map_option (\<lambda>t. (foreign_amount it, if t \<noteq> 0 then foreign_amount it else 0)) (flag_int 0 (is_taxable it))
          else
            Option.bind (domestic_amount it)
              (\<lambda>a. map_option (\<lambda>t. (a, if t \<noteq> 0 then a else 0)) (flag_int 1 (is_taxable it))))"

fun add_items :: "line_item list \<Rightarrow> rat \<Rightarrow> rat \<Rightarrow> (rat \<times> rat) option" where
  "add_items [] subtotal taxable = Some (subtotal, taxable)"
| "add_items (it # items) subtotal taxable =
     (case item_amounts it of None \<Rightarrow> None | Some (a, t) \<Rightarrow> add_items items (subtotal + a) (taxable + t))"

definition vat_multiplier :: "rat \<Rightarrow> rat" where
  "vat_multiplier vr = (if 1 < vr then vr / 100 else vr)"

definition compute_totals :: "line_item list \<Rightarrow> string option \<Rightarrow> (rat \<times> rat \<times> rat) option" where
  "compute_totals items vat_rate =
     Option.bind (add_items items 0 0) (\<lambda>(subtotal, taxable).
       map_option (\<lambda>vr. let tax = quantize round_half_even 2 (taxable * vat_multiplier vr) in (subtotal, tax, subtotal + tax)) (d vat_rate))"

definition compute_totals_minor :: "line_item list \<Rightarrow> string option \<Rightarrow> string option \<Rightarrow> (int \<times> int \<times> int) option" where
  "compute_totals_minor items vat_rate currency =
     map_option (\<lambda>(s, t, a). (to_minor s currency, to_minor t currency, to_minor a currency)) (compute_totals items vat_rate)"

section \<open>What counts as paid\<close>

text \<open>The parsed payment data of an invoice; entries of the list that are no objects are \<open>None\<close>.\<close>

record deposit_rec =
  dep_amount :: "string option"
  dep_currency :: "string option"
  dep_date :: "string option"

record payment_meta =
  pm_deposits :: "deposit_rec option list option"
  pm_deposit :: "string option"
  pm_currency :: "string option"
  pm_verified_at :: "string option"
  pm_date :: "string option"
  pm_paid_at :: "string option"

record invoice =
  inv_id :: int
  inv_currency :: "string option"
  inv_total_minor :: "int option"
  inv_total :: "string option"
  inv_status :: "string option"
  inv_payment_status :: "string option"
  inv_verified :: "int option"
  inv_meta :: "payment_meta option"
  inv_issue_date :: "string option"

record payment =
  pay_id :: int
  pay_invoice :: int
  pay_paid_at :: string
  pay_amount :: int
  pay_currency :: string
  pay_method :: "string option"
  pay_reference :: "string option"
  pay_verified :: bool
  pay_created_at :: string
  pay_is_deleted :: "string option"

record ledger_entry =
  le_invoice :: int
  le_type :: string
  le_amount :: int

record billing_db =
  bd_invoices :: "invoice list"
  bd_payments :: "payment list"
  bd_ledger :: "ledger_entry list"
  bd_next_payment :: int
  bd_payments_fail :: bool
  bd_ledger_fail :: bool

definition first_text :: "string option \<Rightarrow> string option \<Rightarrow> string option" where
  "first_text a b = (if or_empty a \<noteq> [] then a else b)"

definition not_deleted :: "string option \<Rightarrow> bool" where
  "not_deleted c \<longleftrightarrow> lower (case c of None \<Rightarrow> ''false'' | Some t \<Rightarrow> t) \<notin> set [''1'', ''true'', ''t'', ''yes'', ''y'']"

definition amount_text :: "string \<Rightarrow> string" where
  "amount_text t = strip (filter (\<lambda>c. c \<noteq> CHR '','' \<and> c \<noteq> CHR '' '') t)"

definition currency_code :: "string option \<Rightarrow> string" where
  "currency_code c = (let t = upper (strip (if or_empty c = [] then ''USD'' else or_empty c)) in if t = [] then ''USD'' else t)"

definition amount_to_minor :: "string option \<Rightarrow> string option \<Rightarrow> int" where
  "amount_to_minor v currency =
     (case v of
        None \<Rightarrow> 0
      | Some t \<Rightarrow>
          (case Decimal (amount_text t) of
             None \<Rightarrow> 0
           | Some x \<Rightarrow> if currency_code currency \<in> set [''USD'', ''JPY''] then round_half_even x
                      else to_minor x (Some (currency_code currency))))"

fun sum_deposits :: "payment_meta \<Rightarrow> string option \<Rightarrow> deposit_rec option list \<Rightarrow> int" where
  "sum_deposits m currency [] = 0"
| "sum_deposits m currency (None # rs) = sum_deposits m currency rs"
| "sum_deposits m currency (Some r # rs) =
     amount_to_minor (dep_amount r) (first_text (dep_currency r) (first_text (pm_currency m) currency)) + sum_deposits m currency rs"

definition payment_meta_paid_minor :: "payment_meta option \<Rightarrow> string option \<Rightarrow> int" where
  "payment_meta_paid_minor meta currency =
     (case meta of
        None \<Rightarrow> 0
      | Some m \<Rightarrow>
          let total = (case pm_deposits m of None \<Rightarrow> 0 | Some rs \<Rightarrow> sum_deposits m currency rs) in
          if total \<noteq> 0 then total else amount_to_minor (pm_deposit m) (first_text (pm_currency m) currency))"

definition deposit_date :: "deposit_rec option \<Rightarrow> string option" where
  "deposit_date r = (case r of None \<Rightarrow> None | Some x \<Rightarrow> if or_empty (dep_date x) = [] then None else dep_date x)"

definition payment_meta_paid_at :: "payment_meta option \<Rightarrow> string option \<Rightarrow> string" where
  "payment_meta_paid_at meta fallback =
     (case meta of
        None \<Rightarrow> or_empty fallback
      | Some m \<Rightarrow>
          (case List.map_filter deposit_date (rev (case pm_deposits m of None \<Rightarrow> [] | Some rs \<Rightarrow> rs)) of
             t # _ \<Rightarrow> t
           | [] \<Rightarrow> or_empty (first_text (pm_verified_at m) (first_text (pm_date m) (first_text (pm_paid_at m) fallback)))))"

definition deposit_applied_minor :: "billing_db \<Rightarrow> int \<Rightarrow> int" where
  "deposit_applied_minor db i =
     (if bd_ledger_fail db then 0
      else max 0 (- sum_list (map le_amount (filter (\<lambda>l. le_invoice l = i \<and> le_type l \<in> set [''apply'', ''cancel_apply'']) (bd_ledger db)))))"

definition payments_of :: "billing_db \<Rightarrow> int \<Rightarrow> payment list" where
  "payments_of db i = filter (\<lambda>p. pay_invoice p = i \<and> not_deleted (pay_is_deleted p)) (bd_payments db)"

definition normalized_payment_total_minor :: "billing_db \<Rightarrow> int \<Rightarrow> int" where
  "normalized_payment_total_minor db i = (if bd_payments_fail db then 0 else sum_list (map pay_amount (payments_of db i)))"

definition invoice_total_minor :: "invoice \<Rightarrow> int" where
  "invoice_total_minor bill =
     (let t = (case inv_total_minor bill of None \<Rightarrow> 0 | Some n \<Rightarrow> n) in
      if t \<le> 0 \<and> inv_total bill \<noteq> None then amount_to_minor (inv_total bill) (Some (currency_or_usd (inv_currency bill))) else t)"

definition invoice_marked_paid :: "invoice \<Rightarrow> bool" where
  "invoice_marked_paid bill \<longleftrightarrow>
     inv_verified bill = Some 1 \<or> lower (strip (or_empty (inv_payment_status bill))) \<in> set [''paid'', ''overpaid'']
     \<or> lower (strip (or_empty (inv_status bill))) = ''paid''"

definition effective_paid_minor :: "billing_db \<Rightarrow> invoice \<Rightarrow> int" where
  "effective_paid_minor db bill =
     (if inv_id bill \<le> 0 then 0
      else let paid = max (max (normalized_payment_total_minor db (inv_id bill))
                               (payment_meta_paid_minor (inv_meta bill) (Some (currency_or_usd (inv_currency bill)))))
                          (deposit_applied_minor db (inv_id bill));
               total = invoice_total_minor bill in
           if invoice_marked_paid bill \<and> 0 < total then max paid total else paid)"

record invoice_totals =
  it_total :: int
  it_paid :: int
  it_outstanding :: int
  it_currency :: string
  it_is_paid :: bool

definition calculate_totals :: "billing_db \<Rightarrow> int \<Rightarrow> invoice_totals option" where
  "calculate_totals db i =
     map_option (\<lambda>bill.
       let total = invoice_total_minor bill; paid = effective_paid_minor db bill; outstanding = max 0 (total - paid) in
       \<lparr>it_total = total, it_paid = paid, it_outstanding = outstanding, it_currency = currency_or_usd (inv_currency bill),
         it_is_paid = (outstanding = 0 \<and> 0 < paid)\<rparr>) (sql_first (\<lambda>bill. inv_id bill = i) (bd_invoices db))"

section \<open>Payment records\<close>

text \<open>The list is ordered by date, latest first; \<open>by_date\<close> stands for the order of the database among equal dates.\<close>

definition get_payments :: "(payment list \<Rightarrow> payment list) \<Rightarrow> billing_db \<Rightarrow> int \<Rightarrow> payment list" where
  "get_payments by_date db i =
     (if payments_of db i \<noteq> [] then by_date (payments_of db i)
      else case sql_first (\<lambda>bill. inv_id bill = i) (bd_invoices db) of
        None \<Rightarrow> []
      | Some bill \<Rightarrow>
          let currency = currency_or_usd (inv_currency bill);
              deposit_paid = deposit_applied_minor db i; meta_paid = payment_meta_paid_minor (inv_meta bill) (Some currency);
              total = invoice_total_minor bill;
              amount0 = max deposit_paid meta_paid;
              by_status = (amount0 \<le> 0 \<and> invoice_marked_paid bill \<and> 0 < total);
              amount = (if by_status then total else amount0);
              pay_kind = (if by_status then ''status'' else if meta_paid \<le> deposit_paid \<and> 0 < deposit_paid then ''deposit'' else ''legacy_meta'') in
          if amount \<le> 0 then []
          else [\<lparr>pay_id = - i, pay_invoice = i, pay_paid_at = payment_meta_paid_at (inv_meta bill) (inv_issue_date bill),
                 pay_amount = amount, pay_currency = currency, pay_method = Some pay_kind,
                 pay_reference = Some (if pay_kind = ''status'' then ''payment_status'' else if pay_kind = ''deposit'' then ''client_deposit_ledger'' else ''payment_meta''),
                 pay_verified = invoice_marked_paid bill, pay_created_at = or_empty (inv_issue_date bill), pay_is_deleted = None\<rparr>])"

definition get_total_paid :: "billing_db \<Rightarrow> int \<Rightarrow> int" where
  "get_total_paid db i =
     (case sql_first (\<lambda>bill. inv_id bill = i) (bd_invoices db) of None \<Rightarrow> 0 | Some bill \<Rightarrow> effective_paid_minor db bill)"

definition add_payment ::
  "int \<Rightarrow> int \<Rightarrow> string \<Rightarrow> string \<Rightarrow> string option \<Rightarrow> string option \<Rightarrow> bool \<Rightarrow> string \<Rightarrow> billing_db \<Rightarrow> int \<times> billing_db"
where
  "add_payment i amount paid_at currency pay_kind reference verified now db =
     (bd_next_payment db,
      db\<lparr>bd_payments := bd_payments db @ [\<lparr>pay_id = bd_next_payment db, pay_invoice = i, pay_paid_at = paid_at, pay_amount = amount,
           pay_currency = currency, pay_method = pay_kind, pay_reference = reference, pay_verified = verified,
           pay_created_at = now, pay_is_deleted = Some ''0''\<rparr>],
         bd_next_payment := bd_next_payment db + 1\<rparr>)"

definition delete_payment :: "int \<Rightarrow> billing_db \<Rightarrow> billing_db" where
  "delete_payment pid db = db\<lparr>bd_payments := sql_delete (\<lambda>p. pay_id p = pid) (bd_payments db)\<rparr>"

section \<open>Links to matters\<close>

record case_link =
  cl_id :: int
  cl_invoice :: int
  cl_case :: "int option"
  cl_matter :: "string option"
  cl_our_ref :: "string option"
  cl_role :: string
  cl_is_deleted :: "string option"

record external_link =
  el_id :: int
  el_matter :: string
  el_our_ref :: "string option"
  el_invoice :: int
  el_deleted :: bool

record link_db =
  ld_links :: "case_link list"
  ld_external :: "external_link list"
  ld_next_link :: int
  ld_next_external :: int
  ld_matter_ref :: "string \<Rightarrow> string option"

text \<open>The unique keys: a \<open>NULL\<close> never equals anything.\<close>

definition link_conflict :: "int \<Rightarrow> int option \<Rightarrow> string option \<Rightarrow> case_link \<Rightarrow> bool" where
  "link_conflict i case_id matter_id l \<longleftrightarrow>
     cl_invoice l = i \<and> case_id \<noteq> None \<and> cl_case l = case_id \<and> matter_id \<noteq> None \<and> cl_matter l = matter_id"

definition external_key :: "int \<Rightarrow> string \<Rightarrow> external_link \<Rightarrow> bool" where
  "external_key i m l \<longleftrightarrow> el_invoice l = i \<and> el_matter l = m"

definition insert_external :: "int \<Rightarrow> string \<Rightarrow> string option \<Rightarrow> link_db \<Rightarrow> link_db" where
  "insert_external i m our_ref db =
     (if list_ex (external_key i m) (ld_external db) then db
      else db\<lparr>ld_external := ld_external db @ [\<lparr>el_id = ld_next_external db, el_matter = m, el_our_ref = our_ref, el_invoice = i, el_deleted = False\<rparr>],
             ld_next_external := ld_next_external db + 1\<rparr>)"

text \<open>The new id is \<open>None\<close> when the insert met a conflict.\<close>

definition add_link :: "int \<Rightarrow> int option \<Rightarrow> string option \<Rightarrow> string option \<Rightarrow> string \<Rightarrow> link_db \<Rightarrow> int option \<times> link_db" where
  "add_link i case_id matter_id our_ref role db =
     (let conflict = list_ex (link_conflict i case_id matter_id) (ld_links db);
          db1 = (if conflict then db
                 else db\<lparr>ld_links := ld_links db @ [\<lparr>cl_id = ld_next_link db, cl_invoice = i, cl_case = case_id, cl_matter = matter_id,
                            cl_our_ref = our_ref, cl_role = role, cl_is_deleted = Some ''0''\<rparr>], ld_next_link := ld_next_link db + 1\<rparr>);
          m = or_empty matter_id;
          db2 = (if m = [] then db1
                 else let db' = insert_external i m our_ref db1 in
                   db'\<lparr>ld_external := sql_update (external_key i m) (\<lambda>l. l\<lparr>el_deleted := False\<rparr>) (ld_external db')\<rparr>) in
      (if conflict then None else Some (ld_next_link db), db2))"

definition remove_link :: "int \<Rightarrow> link_db \<Rightarrow> link_db" where
  "remove_link lid db = db\<lparr>ld_links := sql_delete (\<lambda>l. cl_id l = lid) (ld_links db)\<rparr>"

type_synonym link_id = "int option \<times> string \<times> string"

definition link_key :: "case_link \<Rightarrow> link_id" where
  "link_key l = (cl_case l, or_empty (cl_matter l), or_empty (cl_our_ref l))"

definition external_as_link :: "link_db \<Rightarrow> external_link \<Rightarrow> case_link" where
  "external_as_link db l =
     \<lparr>cl_id = el_id l, cl_invoice = el_invoice l, cl_case = None, cl_matter = Some (el_matter l),
       cl_our_ref = (case ld_matter_ref db (el_matter l) of Some r \<Rightarrow> Some r | None \<Rightarrow> el_our_ref l),
       cl_role = ''primary'', cl_is_deleted = None\<rparr>"

fun merge_links :: "link_id list \<Rightarrow> case_link list \<Rightarrow> case_link list" where
  "merge_links seen [] = []"
| "merge_links seen (l # ls) =
     (if link_key l \<in> set seen then merge_links seen ls else l # merge_links (link_key l # seen) ls)"

definition get_links :: "link_db \<Rightarrow> int \<Rightarrow> case_link list" where
  "get_links db i =
     (let own = sort_key cl_id (filter (\<lambda>l. cl_invoice l = i \<and> not_deleted (cl_is_deleted l)) (ld_links db));
          ext = sort_key cl_id (map (external_as_link db) (filter (\<lambda>l. el_invoice l = i \<and> \<not> el_deleted l) (ld_external db))) in
      own @ merge_links (map link_key own) ext)"

definition get_invoices_for_case :: "link_db \<Rightarrow> int option \<Rightarrow> string option \<Rightarrow> int list" where
  "get_invoices_for_case db case_id matter_id =
     (if case_id \<noteq> None \<and> case_id \<noteq> Some 0 then
        map cl_invoice (filter (\<lambda>l. cl_case l = case_id \<and> not_deleted (cl_is_deleted l)) (ld_links db))
      else if or_empty matter_id \<noteq> [] then
        remdups (map cl_invoice (filter (\<lambda>l. cl_matter l = matter_id \<and> not_deleted (cl_is_deleted l)) (ld_links db))
          @ map el_invoice (filter (\<lambda>l. Some (el_matter l) = matter_id \<and> \<not> el_deleted l) (ld_external db)))
      else [])"

section \<open>Rounding\<close>

lemma round_half_up_error: "\<bar>of_int (round_half_up x) - x\<bar> \<le> 1 / 2"
proof -
  have "of_int \<lfloor>x + 1 / 2\<rfloor> \<le> x + 1 / 2" "x + 1 / 2 < of_int \<lfloor>x + 1 / 2\<rfloor> + 1" by linarith+
  moreover have "of_int \<lfloor>1 / 2 - x\<rfloor> \<le> 1 / 2 - x" "1 / 2 - x < of_int \<lfloor>1 / 2 - x\<rfloor> + 1" by linarith+
  ultimately show ?thesis unfolding round_half_up_def by (cases "0 \<le> x") (simp_all only: if_True if_False of_int_minus abs_le_iff, linarith+)
qed

lemma round_half_up_int [simp]: "round_half_up (of_int n) = n"
proof -
  have "\<lfloor>of_int n + 1 / 2 :: rat\<rfloor> = n" "\<lfloor>1 / 2 - of_int n :: rat\<rfloor> = - n" by linarith+
  then show ?thesis by (simp add: round_half_up_def)
qed

lemma round_half_up_add: "0 \<le> x \<Longrightarrow> 0 \<le> n \<Longrightarrow> round_half_up (x + of_int n) = round_half_up x + n"
proof -
  assume a: "0 \<le> x" "0 \<le> n"
  have "\<lfloor>x + of_int n + 1 / 2\<rfloor> = \<lfloor>x + 1 / 2\<rfloor> + n" by linarith
  moreover have "0 \<le> x + of_int n" using a by simp
  ultimately show ?thesis using a(1) by (simp add: round_half_up_def)
qed

lemma to_minor_round: "to_minor a c = round_half_up (a * 10 ^ scale_of c)"
  by (simp add: to_minor_def quantize_def)

text \<open>Minor units are read back exactly, and converting an amount to minor units and back changes it by
  at most half a minor unit, for every currency and for negative amounts too.\<close>

theorem minor_units_round_trip:
  "to_minor (from_minor n c) c = n \<and> \<bar>from_minor (to_minor a c) c - a\<bar> \<le> 1 / (2 * 10 ^ scale_of c)"
proof
  show "to_minor (from_minor n c) c = n" by (simp add: to_minor_round from_minor_def)
  let ?p = "10 ^ scale_of c :: rat"
  have "\<bar>of_int (round_half_up (a * ?p)) - a * ?p\<bar> / ?p \<le> 1 / 2 / ?p" using round_half_up_error by (intro divide_right_mono) auto
  moreover have "from_minor (to_minor a c) c - a = (of_int (round_half_up (a * ?p)) - a * ?p) / ?p"
    by (simp add: from_minor_def to_minor_round field_simps)
  ultimately show "\<bar>from_minor (to_minor a c) c - a\<bar> \<le> 1 / (2 * ?p)" by (simp add: abs_divide)
qed

section \<open>Totals\<close>

definition readable :: "line_item \<Rightarrow> bool" where
  "readable it \<longleftrightarrow> item_amounts it \<noteq> None"

definition amount_of :: "line_item \<Rightarrow> rat" where
  "amount_of it = fst (the (item_amounts it))"

definition taxed_of :: "line_item \<Rightarrow> rat" where
  "taxed_of it = snd (the (item_amounts it))"

lemma add_items_sums:
  "add_items items s t =
     (if list_all readable items then Some (s + sum_list (map amount_of items), t + sum_list (map taxed_of items)) else None)"
  by (induction items arbitrary: s t)
    (auto simp: readable_def amount_of_def taxed_of_def algebra_simps split: option.splits)

definition counted :: "line_item \<Rightarrow> bool" where
  "counted it \<longleftrightarrow> is_estimated it \<noteq> Flag 1"

lemma estimated_amount: "\<not> counted it \<Longrightarrow> readable it \<and> amount_of it = 0 \<and> taxed_of it = 0"
  by (simp add: counted_def readable_def amount_of_def taxed_of_def item_amounts_def)

lemma counted_sums:
  "list_all readable items = list_all readable (filter counted items)"
  "sum_list (map amount_of items) = sum_list (map amount_of (filter counted items))"
  "sum_list (map taxed_of items) = sum_list (map taxed_of (filter counted items))"
  by (induction items) (use estimated_amount in auto)

lemma mset_sums:
  assumes "mset xs = mset ys"
  shows "list_all readable xs = list_all readable ys" and "sum_list (map amount_of xs) = sum_list (map amount_of ys)"
    and "sum_list (map taxed_of xs) = sum_list (map taxed_of ys)"
proof -
  show "list_all readable xs = list_all readable ys" using assms by (metis list_all_iff mset_eq_setD)
  have "mset (map f xs) = mset (map f ys)" for f :: "line_item \<Rightarrow> rat" using assms by simp
  then show "sum_list (map amount_of xs) = sum_list (map amount_of ys)" "sum_list (map taxed_of xs) = sum_list (map taxed_of ys)"
    by (metis sum_mset_sum_list)+
qed

text \<open>The totals of an invoice depend only on which items it has, each as often as it occurs: the order of the
  items does not matter, and estimated items may be added or left out without changing anything, the
  errors for unreadable amounts included.\<close>

theorem totals_ignore_order_and_estimates:
  assumes "mset (filter counted items) = mset (filter counted items')"
  shows "compute_totals items vat_rate = compute_totals items' vat_rate
    \<and> compute_totals_minor items vat_rate c = compute_totals_minor items' vat_rate c"
proof -
  have "add_items items 0 0 = add_items items' 0 0"
    unfolding add_items_sums using mset_sums [OF assms] by (simp add: counted_sums [of items] counted_sums [of items'])
  then show ?thesis by (simp add: compute_totals_def compute_totals_minor_def)
qed

text \<open>C31: The minor amounts of an invoice add up. The total in currency units is the subtotal plus the tax; in
  minor units the total differs from the sum of the two by at most one, and for amounts that are not
  negative, in a currency with two decimal places, not at all.\<close>

theorem minor_totals_add_up:
  assumes "compute_totals items vat_rate = Some (s, t, a)" and "compute_totals_minor items vat_rate c = Some (ms, mt, ma)"
  shows "a = s + t \<and> \<bar>ma - (ms + mt)\<bar> \<le> 1 \<and> (scale_of c = 2 \<and> 0 \<le> s \<and> 0 \<le> t \<longrightarrow> ma = ms + mt)"
proof -
  obtain x where a: "a = s + t" and t: "t = quantize round_half_even 2 x"
    using assms(1) by (auto simp: compute_totals_def Let_def bind_eq_Some_conv)
  let ?p = "10 ^ scale_of c :: rat"
  have m: "ms = round_half_up (s * ?p)" "mt = round_half_up (t * ?p)" "ma = round_half_up (s * ?p + t * ?p)"
    using assms a by (auto simp: compute_totals_minor_def to_minor_round algebra_simps)
  have "\<bar>of_int (ma - (ms + mt)) :: rat\<bar> \<le> 3 / 2"
    using round_half_up_error [of "s * ?p"] round_half_up_error [of "t * ?p"] round_half_up_error [of "s * ?p + t * ?p"]
    unfolding m of_int_diff of_int_add by linarith
  then have "\<bar>ma - (ms + mt)\<bar> \<le> 1" by linarith
  moreover have "ma = ms + mt" if "scale_of c = 2" "0 \<le> s" "0 \<le> t"
  proof -
    obtain n where n: "t * 10 ^ 2 = of_int n" by (simp add: t quantize_def)
    then have "0 \<le> n" using that(3) by (metis mult_nonneg_nonneg of_int_0_le_iff zero_le_numeral zero_le_power)
    then show ?thesis using round_half_up_add [of "s * 10 ^ 2" n] that n by (simp add: m)
  qed
  ultimately show ?thesis using a by blast
qed

definition plain_item :: line_item where
  "plain_item = \<lparr>is_estimated = Absent, is_taxable = Absent, item_type = None, qty = Some ''3'', unit_price = Some ''19.99'',
     discount = Some ''12.5'', fx_rate_used = None, fx_fee = None, fx_gov = None, fx_markup = None\<rparr>"

definition estimate_item :: line_item where
  "estimate_item = plain_item\<lparr>is_estimated := Flag 1, qty := Some ''many''\<rparr>"

definition foreign_item :: line_item where
  "foreign_item = plain_item\<lparr>item_type := Some '' Foreign'', fx_rate_used := Some ''1.1'', fx_fee := Some ''250'', fx_markup := Some ''5''\<rparr>"

theorem totals_ignore_order_and_estimates_witness:
  "compute_totals [estimate_item, foreign_item, plain_item] (Some ''10'') = Some (272979 / 800, 21 / 4, 277179 / 800)"
proof -
  have v: "compute_totals [plain_item, foreign_item] (Some ''10'') = Some (272979 / 800, 21 / 4, 277179 / 800)" by code_simp
  have "mset (filter counted [estimate_item, foreign_item, plain_item]) = mset (filter counted [plain_item, foreign_item])"
    by (simp add: counted_def estimate_item_def foreign_item_def plain_item_def)
  from totals_ignore_order_and_estimates [OF this, of "Some ''10''"] v show ?thesis by simp
qed

theorem minor_totals_add_up_witness:
  "compute_totals_minor [plain_item] (Some ''0.1'') (Some ''EUR'') = Some (5247, 525, 5772) \<and> (5772 :: int) = 5247 + 525"
proof -
  have v1: "compute_totals [plain_item] (Some ''0.1'') = Some (41979 / 800, 21 / 4, 46179 / 800)" by code_simp
  have m: "to_minor (41979 / 800) (Some ''EUR'') = 5247" "to_minor (21 / 4) (Some ''EUR'') = 525" "to_minor (46179 / 800) (Some ''EUR'') = 5772"
    by code_simp+
  have v2: "compute_totals_minor [plain_item] (Some ''0.1'') (Some ''EUR'') = Some (5247, 525, 5772)"
    by (simp only: compute_totals_minor_def v1 option.map prod.case m)
  have v3: "scale_of (Some ''EUR'') = 2" by code_simp
  note v = v1 v2 v3
  have "(5772 :: int) = 5247 + 525" using minor_totals_add_up [OF v(1,2)] v(3) by simp
  with v(2) show ?thesis by (rule conjI)
qed

section \<open>Payments\<close>

lemma paid_at_least:
  assumes "0 < inv_id bill"
  shows "normalized_payment_total_minor db (inv_id bill) \<le> effective_paid_minor db bill"
    and "payment_meta_paid_minor (inv_meta bill) (Some (currency_or_usd (inv_currency bill))) \<le> effective_paid_minor db bill"
    and "deposit_applied_minor db (inv_id bill) \<le> effective_paid_minor db bill"
    and "invoice_marked_paid bill \<Longrightarrow> 0 < invoice_total_minor bill \<Longrightarrow> invoice_total_minor bill \<le> effective_paid_minor db bill"
  using assms by (auto simp: effective_paid_minor_def Let_def le_max_iff_disj)

lemma paid_nonneg: "0 \<le> effective_paid_minor db bill"
  by (auto simp: effective_paid_minor_def deposit_applied_minor_def Let_def)

text \<open>The report of an invoice is coherent. What is outstanding is never negative, an invoice counts as paid
  exactly when something was paid and it covers the total, an invoice that is marked as paid has nothing
  outstanding, and the payments that are listed never add up to more than the amount that counts as paid.\<close>

theorem invoice_report_is_coherent:
  assumes "calculate_totals db i = Some r" and "0 < i" and "\<not> bd_payments_fail db" and "\<And>ps. mset (by_date ps) = mset ps"
  shows "it_paid r = get_total_paid db i \<and> 0 \<le> it_outstanding r
    \<and> (it_is_paid r \<longleftrightarrow> 0 < it_paid r \<and> it_total r \<le> it_paid r)
    \<and> (\<forall>bill. sql_first (\<lambda>b. inv_id b = i) (bd_invoices db) = Some bill \<and> invoice_marked_paid bill \<and> 0 < it_total r \<longrightarrow> it_is_paid r \<and> it_outstanding r = 0)
    \<and> sum_list (map pay_amount (get_payments by_date db i)) \<le> it_paid r"
proof -
  from assms(1) obtain bill where b: "sql_first (\<lambda>b. inv_id b = i) (bd_invoices db) = Some bill"
    and r: "it_paid r = effective_paid_minor db bill" "it_total r = invoice_total_minor bill"
      "it_outstanding r = max 0 (it_total r - it_paid r)" "it_is_paid r = (it_outstanding r = 0 \<and> 0 < it_paid r)"
    by (auto simp: calculate_totals_def Let_def)
  then have i: "inv_id bill = i" by (auto dest: sql_first_Some)
  note least = paid_at_least [of bill db, unfolded i, OF assms(2)]
  have "sum_list (map pay_amount (get_payments by_date db i)) \<le> it_paid r"
  proof (cases "payments_of db i = []")
    case False
    have "mset (map pay_amount (by_date (payments_of db i))) = mset (map pay_amount (payments_of db i))" using assms(4) by simp
    then have "sum_list (map pay_amount (by_date (payments_of db i))) = sum_list (map pay_amount (payments_of db i))"
      by (metis sum_mset_sum_list)
    with False least(1) assms(3) show ?thesis by (simp add: get_payments_def r normalized_payment_total_minor_def)
  next
    case True
    with least(2-4) paid_nonneg [of db bill] show ?thesis by (auto simp: get_payments_def b r(1) Let_def)
  qed
  moreover have "it_is_paid r \<and> it_outstanding r = 0" if "invoice_marked_paid bill" "0 < it_total r"
    using least(4) that r by auto
  ultimately show ?thesis using b r by (auto simp: get_total_paid_def)
qed

definition paid_bill :: invoice where
  "paid_bill = \<lparr>inv_id = 4, inv_currency = Some ''eur'', inv_total_minor = Some 5000, inv_total = None, inv_status = Some ''sent'',
     inv_payment_status = Some ''Paid '', inv_verified = None, inv_meta = None, inv_issue_date = Some ''2025-01-31''\<rparr>"

definition small_billing :: billing_db where
  "small_billing = \<lparr>bd_invoices = [paid_bill], bd_payments = [], bd_ledger = [\<lparr>le_invoice = 4, le_type = ''apply'', le_amount = - 2000\<rparr>],
     bd_next_payment = 1, bd_payments_fail = False, bd_ledger_fail = False\<rparr>"

theorem invoice_report_is_coherent_witness:
  "calculate_totals small_billing 4 = Some \<lparr>it_total = 5000, it_paid = 5000, it_outstanding = 0, it_currency = ''EUR'', it_is_paid = True\<rparr>
   \<and> get_total_paid small_billing 4 = 5000 \<and> sum_list (map pay_amount (get_payments (\<lambda>ps. ps) small_billing 4)) \<le> 5000"
proof -
  let ?r = "\<lparr>it_total = 5000, it_paid = 5000, it_outstanding = 0, it_currency = ''EUR'', it_is_paid = True\<rparr>"
  have r: "calculate_totals small_billing 4 = Some ?r" by code_simp
  have "\<not> bd_payments_fail small_billing" by (simp add: small_billing_def)
  from invoice_report_is_coherent [OF r _ this, of "\<lambda>ps. ps"] r show ?thesis by simp
qed

text \<open>A recorded payment counts once and can be taken back: adding it raises the recorded total of its invoice
  by exactly its amount and leaves all other invoices alone, it is listed under its new id, and deleting
  that id gives back the payments as they were.\<close>

theorem payment_round_trip:
  assumes "\<And>p. p \<in> set (bd_payments db) \<Longrightarrow> pay_id p < bd_next_payment db" and "\<not> bd_payments_fail db"
    and "add_payment i amount paid_at currency pay_kind reference verified now db = (pid, db')"
  shows "normalized_payment_total_minor db' i = normalized_payment_total_minor db i + amount
    \<and> (j \<noteq> i \<longrightarrow> normalized_payment_total_minor db' j = normalized_payment_total_minor db j)
    \<and> pid \<in> set (map pay_id (payments_of db' i))
    \<and> bd_payments (delete_payment pid db') = bd_payments db"
proof -
  have n: "not_deleted (Some ''0'')" by code_simp
  have "filter (\<lambda>p. pay_id p \<noteq> bd_next_payment db) (bd_payments db) = bd_payments db"
    using assms(1) by (intro filter_True) force
  then show ?thesis using assms(2,3) n
    by (force simp: add_payment_def normalized_payment_total_minor_def payments_of_def delete_payment_def sql_delete_def)
qed

theorem payment_round_trip_witness:
  "normalized_payment_total_minor (snd (add_payment 4 700 ''2025-02-01'' ''EUR'' None None True ''now'' small_billing)) 4
     = normalized_payment_total_minor small_billing 4 + 700
   \<and> bd_payments (delete_payment 1 (snd (add_payment 4 700 ''2025-02-01'' ''EUR'' None None True ''now'' small_billing))) = []"
proof -
  obtain pid db' where a: "add_payment 4 700 ''2025-02-01'' ''EUR'' None None True ''now'' small_billing = (pid, db')" by fastforce
  then have "pid = 1" by (simp add: add_payment_def small_billing_def)
  with payment_round_trip [OF _ _ a, of 0] a show ?thesis by (simp add: small_billing_def)
qed

text \<open>C32: A deposit in dollars counts for a hundredth. When an invoice over \<open>n\<close> whole dollars is paid in full by a
  deposit that its payment data records, and there are no other payments, the report still shows
  \<open>99 * n\<close> cents of its \<open>100 * n\<close> as outstanding.\<close>

theorem dollar_deposits_count_a_hundredth:
  assumes "sql_first (\<lambda>b. inv_id b = i) (bd_invoices db) = Some bill" and "0 < i" and "0 < n"
    and "inv_currency bill = Some ''USD''" and "inv_total_minor bill = Some (to_minor (of_int n) (Some ''USD''))"
    and "inv_meta bill = Some m" and "pm_deposits m = None" and "pm_deposit m = Some t" and "pm_currency m = None"
    and "Decimal (amount_text t) = Some (of_int n)" and "\<not> invoice_marked_paid bill" and "payments_of db i = []" and "bd_ledger db = []"
  shows "calculate_totals db i = Some \<lparr>it_total = 100 * n, it_paid = n, it_outstanding = 99 * n, it_currency = ''USD'', it_is_paid = False\<rparr>"
proof -
  have usd: "currency_or_usd (Some ''USD'') = ''USD''" "currency_code (Some ''USD'') = ''USD''" "scale_of (Some ''USD'') = 2" by code_simp+
  have total: "invoice_total_minor bill = 100 * n"
  proof -
    have "to_minor (of_int n) (Some ''USD'') = round_half_up (of_int (100 * n))" by (simp add: to_minor_round usd mult.commute)
    then show ?thesis using assms(3,5) unfolding round_half_up_int by (simp add: invoice_total_minor_def)
  qed
  have "round_half_even (of_int n) = n" by (simp add: round_half_even_def)
  then have meta: "payment_meta_paid_minor (inv_meta bill) (Some ''USD'') = n"
    using assms(6-10) usd by (simp add: payment_meta_paid_minor_def amount_to_minor_def first_text_def or_empty_def)
  have i: "inv_id bill = i" using assms(1) by (auto dest: sql_first_Some)
  have "effective_paid_minor db bill = n"
    using assms(2,3,4,11-13) meta usd i
    by (simp add: effective_paid_minor_def normalized_payment_total_minor_def deposit_applied_minor_def Let_def)
  then show ?thesis using assms(1,3,4) total usd by (simp add: calculate_totals_def Let_def)
qed

definition dollar_bill :: invoice where
  "dollar_bill = paid_bill\<lparr>inv_currency := Some ''USD'', inv_total_minor := Some 125000, inv_payment_status := None,
     inv_meta := Some \<lparr>pm_deposits = None, pm_deposit = Some ''1,250'', pm_currency = None, pm_verified_at = None, pm_date = None, pm_paid_at = None\<rparr>\<rparr>"

theorem dollar_deposits_count_a_hundredth_witness:
  "calculate_totals (small_billing\<lparr>bd_invoices := [dollar_bill], bd_ledger := []\<rparr>) 4
     = Some \<lparr>it_total = 100 * 1250, it_paid = 1250, it_outstanding = 99 * 1250, it_currency = ''USD'', it_is_paid = False\<rparr>"
proof (rule dollar_deposits_count_a_hundredth)
  show "inv_total_minor dollar_bill = Some (to_minor (of_int 1250) (Some ''USD''))" by code_simp
  show "Decimal (amount_text ''1,250'') = Some (of_int 1250)" by code_simp
  show "\<not> invoice_marked_paid dollar_bill" by code_simp
  show "inv_meta dollar_bill = Some \<lparr>pm_deposits = None, pm_deposit = Some ''1,250'', pm_currency = None, pm_verified_at = None, pm_date = None, pm_paid_at = None\<rparr>"
    by (simp add: dollar_bill_def)
qed (simp_all add: small_billing_def dollar_bill_def paid_bill_def sql_first_def payments_of_def)

section \<open>Links\<close>

lemma remove_keeps_external: "ld_external (fold remove_link ls db) = ld_external db"
  by (induction ls arbitrary: db) (simp_all add: remove_link_def)

text \<open>An invoice that was linked to a matter is found under the matter, also when the link had been deleted
  before, and it stays there: no sequence of removals through the link service takes it away, because a
  removal leaves the second table of links alone.\<close>

theorem removed_links_remain:
  assumes "add_link i case_id (Some m) our_ref role db = (r, db')" and "m \<noteq> []"
  shows "i \<in> set (get_invoices_for_case (fold remove_link ls db') None (Some m))"
proof -
  define db1 where "db1 = insert_external i m our_ref
     (if list_ex (link_conflict i case_id (Some m)) (ld_links db) then db
      else db\<lparr>ld_links := ld_links db @ [\<lparr>cl_id = ld_next_link db, cl_invoice = i, cl_case = case_id, cl_matter = Some m,
              cl_our_ref = our_ref, cl_role = role, cl_is_deleted = Some ''0''\<rparr>], ld_next_link := ld_next_link db + 1\<rparr>)"
  have e: "ld_external db' = sql_update (external_key i m) (\<lambda>l. l\<lparr>el_deleted := False\<rparr>) (ld_external db1)"
    using assms by (auto simp: add_link_def Let_def db1_def or_empty_def)
  have "\<exists>l \<in> set (ld_external db1). external_key i m l"
    unfolding db1_def insert_external_def by (auto simp: list_ex_iff external_key_def)
  then obtain l where "l \<in> set (ld_external db1)" "external_key i m l" by blast
  then have "l\<lparr>el_deleted := False\<rparr> \<in> set (ld_external db')" unfolding e by (intro sql_update_hit)
  moreover have "el_invoice l = i" "el_matter l = m" using \<open>external_key i m l\<close> by (simp_all add: external_key_def)
  ultimately have "i \<in> el_invoice ` {x \<in> set (ld_external db'). el_matter x = m \<and> \<not> el_deleted x}"
    by (intro image_eqI [of _ _ "l\<lparr>el_deleted := False\<rparr>"]) simp_all
  then show ?thesis using assms(2) by (simp add: get_invoices_for_case_def remove_keeps_external or_empty_def)
qed

definition no_links :: link_db where
  "no_links = \<lparr>ld_links = [], ld_external = [], ld_next_link = 1, ld_next_external = 1, ld_matter_ref = (\<lambda>_. None)\<rparr>"

theorem removed_links_remain_witness:
  "7 \<in> set (get_invoices_for_case (fold remove_link [1] (snd (add_link 7 None (Some ''M1'') (Some ''R'') ''primary'' no_links))) None (Some ''M1''))"
  by (rule removed_links_remain [of 7 None "''M1''" "Some ''R''" "''primary''" no_links]) (auto intro: prod.collapse [symmetric])

text \<open>A link without a case id never conflicts, so linking twice lists the matter twice.\<close>

lemma repeated_link_listed_twice:
  "map cl_id (get_links (snd (add_link 7 None (Some ''M1'') (Some ''R'') ''primary''
      (snd (add_link 7 None (Some ''M1'') (Some ''R'') ''primary'' no_links)))) 7) = [1, 2]"
  by code_simp

end
