(* ===== verification/File_Scan.thy ===== *)
theory File_Scan
  imports Storage Numerals
begin

text \<open>
  The virus scan of stored files (\<open>app/services/storage/file_asset_scan_service.py\<close>,
  \<open>file_asset_scan_queue.py\<close>, the scanner call of \<open>app/services/uploads/intake_security.py\<close> and the part of
  \<open>file_asset_service.py\<close> that registers an upload). The scanner is a command: what one run of it does
  (\<open>scan_run\<close>) is an argument, and so is whether the file could be opened for it. Every status change is
  committed at once.
\<close>

section \<open>The scanner\<close>

datatype scan_mode = ModeDisabled | ModeSync | ModeAsync

text \<open>\<open>scan_command\<close> is the stripped command, empty in tests, with balanced quotes, so that it splits into at least one
  word; the mode is the configured text or that of the environment.\<close>

record scan_config =
  scan_command :: string
  mode_text :: string
  fail_open :: bool
  timeout_seconds :: int

definition virus_scan_enabled :: "scan_config \<Rightarrow> bool" where
  "virus_scan_enabled c \<longleftrightarrow> scan_command c \<noteq> []"

definition virus_scan_mode :: "scan_config \<Rightarrow> scan_mode" where
  "virus_scan_mode c =
     (let m = lower (strip (mode_text c)) in
      if m \<in> set [''off'', ''false'', ''0'', ''disabled'', ''disable'', ''none''] then ModeDisabled
      else if m \<in> set [''sync'', ''synchronous'', ''inline''] then ModeSync else ModeAsync)"

text \<open>One run of the command: its exit code with what it printed, a timeout, or an exception of the given type.\<close>

datatype scan_run = Exits int string | TimesOut | Crashes string

record scan_result =
  sr_status :: string
  sr_returncode :: "int option"
  sr_timeout :: "int option"
  sr_error :: "string option"
  sr_output :: string
  sr_fail_open :: bool

definition plain_result :: "string \<Rightarrow> scan_result" where
  "plain_result s = \<lparr>sr_status = s, sr_returncode = None, sr_timeout = None, sr_error = None, sr_output = [], sr_fail_open = False\<rparr>"

text \<open>\<open>Inl\<close> is an \<open>UploadSecurityError\<close> with its text.\<close>

fun scan_upload_path :: "scan_config \<Rightarrow> scan_run \<Rightarrow> string + scan_result" where
  "scan_upload_path c (Exits n out) =
     (if \<not> virus_scan_enabled c then Inr (plain_result ''disabled'')
      else if n = 0 then Inr ((plain_result ''ok'')\<lparr>sr_returncode := Some 0, sr_output := out\<rparr>)
      else if n = 1 then Inl ''virus_scan_rejected''
      else if fail_open c then Inr ((plain_result ''error'')\<lparr>sr_returncode := Some n, sr_output := out, sr_fail_open := True\<rparr>)
      else Inl ''virus_scan_failed'')"
| "scan_upload_path c TimesOut =
     (if \<not> virus_scan_enabled c then Inr (plain_result ''disabled'')
      else if fail_open c then Inr ((plain_result ''timeout'')\<lparr>sr_timeout := Some (timeout_seconds c), sr_fail_open := True\<rparr>)
      else Inl ''virus_scan_timeout'')"
| "scan_upload_path c (Crashes exc) =
     (if \<not> virus_scan_enabled c then Inr (plain_result ''disabled'')
      else if fail_open c then Inr ((plain_result ''error'')\<lparr>sr_error := Some exc, sr_fail_open := True\<rparr>)
      else Inl ''virus_scan_failed'')"

section \<open>The status of a file\<close>

definition normalize_file_asset_scan_status :: "string option \<Rightarrow> string" where
  "normalize_file_asset_scan_status s = (let v = lower (strip (or_empty s)) in if v = [] then ''disabled'' else v)"

definition file_asset_scan_allows_read :: "string option \<Rightarrow> bool" where
  "file_asset_scan_allows_read s \<longleftrightarrow> normalize_file_asset_scan_status s \<in> set [''disabled'', ''clean'']"

definition file_asset_scan_status_from_result :: "scan_result \<Rightarrow> string" where
  "file_asset_scan_status_from_result r =
     (let s = lower (strip (sr_status r)) in
      if s = ''ok'' then ''clean'' else if s = ''disabled'' then ''disabled'' else if s = ''rejected'' then ''infected'' else ''scan_error'')"

text \<open>\<open>s[-n:]\<close>.\<close>

definition last_chars :: "nat \<Rightarrow> string \<Rightarrow> string" where
  "last_chars n s = drop (length s - n) s"

definition scan_error_text :: "scan_result \<Rightarrow> string \<Rightarrow> string" where
  "scan_error_text r fallback =
     (let parts = (if sr_status r \<noteq> [] then [''status='' @ sr_status r] else [])
            @ (case sr_returncode r of None \<Rightarrow> [] | Some n \<Rightarrow> [''returncode='' @ str_int n])
            @ (case sr_timeout r of None \<Rightarrow> [] | Some n \<Rightarrow> [''timeout_seconds='' @ str_int n])
            @ (case or_empty (sr_error r) of [] \<Rightarrow> [] | e \<Rightarrow> [''error='' @ e])
            @ (let out = strip (sr_output r) in if out = [] then [] else [last_chars 800 out]);
          text = join ''; '' parts in
      take 1000 (if text = [] then fallback else text))"

record file_asset =
  fa_id :: string
  fa_sha256 :: string
  fa_path :: string
  fa_storage :: "string option"
  fa_name :: "string option"
  fa_deleted :: "bool option"
  fa_status :: "string option"
  fa_checked_at :: "datetime option"
  fa_error :: "string option"
  fa_quarantined_at :: "datetime option"

definition set_scan_status :: "datetime \<Rightarrow> string \<Rightarrow> string \<Rightarrow> string option \<Rightarrow> file_asset list \<Rightarrow> file_asset list" where
  "set_scan_status now fid status err t =
     sql_update (\<lambda>a. fa_id a = fid)
       (\<lambda>a. a\<lparr>fa_status := Some (normalize_file_asset_scan_status (Some status)), fa_checked_at := Some now, fa_error := err\<rparr>) t"

definition find_asset :: "string \<Rightarrow> file_asset list \<Rightarrow> file_asset option" where
  "find_asset fid t = sql_first (\<lambda>a. fa_id a = fid \<and> fa_deleted a \<noteq> Some True) t"

definition ensure_file_asset_scan_pending :: "scan_config \<Rightarrow> string \<Rightarrow> file_asset list \<Rightarrow> (string + bool) \<times> file_asset list" where
  "ensure_file_asset_scan_pending c file_asset_id t =
     (let fid = strip file_asset_id in
      if fid = [] \<or> \<not> virus_scan_enabled c \<or> virus_scan_mode c \<noteq> ModeAsync then (Inr False, t)
      else case find_asset fid t of
        None \<Rightarrow> (Inr False, t)
      | Some a \<Rightarrow>
          let s = normalize_file_asset_scan_status (fa_status a) in
          if s = ''infected'' then (Inl ''virus_scan_rejected'', t)
          else if s \<in> set [''clean'', ''pending_scan'', ''scanning''] then (Inr (s \<noteq> ''clean''), t)
          else (Inr True, sql_update (\<lambda>a. fa_id a = fid)
                  (\<lambda>a. a\<lparr>fa_status := Some ''pending_scan'', fa_checked_at := None, fa_error := None\<rparr>) t))"

section \<open>Uploads\<close>

text \<open>\<open>_upsert_file_asset\<close>: the row with these contents, or a new one under \<open>new_id\<close>. Nobody else inserts the
  contents in between: the transaction holds the lock on them.\<close>

definition upsert_file_asset ::
  "datetime \<Rightarrow> string \<Rightarrow> string \<Rightarrow> string \<Rightarrow> string \<Rightarrow> string option \<Rightarrow> string \<Rightarrow> file_asset list \<Rightarrow> string \<times> file_asset list"
where
  "upsert_file_asset now new_id sha path name stype status t =
     (case sql_first (\<lambda>a. fa_sha256 a = sha) t of
        Some a \<Rightarrow> (fa_id a, t)
      | None \<Rightarrow>
          (new_id, t @ [\<lparr>fa_id = new_id, fa_sha256 = sha, fa_path = path,
             fa_storage = Some (if or_empty stype = [] then ''local'' else or_empty stype), fa_name = Some name,
             fa_deleted = Some False, fa_status = Some status,
             fa_checked_at = (if status \<in> set [''clean'', ''disabled''] then Some now else None),
             fa_error = None, fa_quarantined_at = None\<rparr>]))"

text \<open>The scan of an upload and its row; the asset is queued for a scan when the result says so. An exception rolls
  the transaction back. Saving the contents under the path of the row comes after this and is not part of it.\<close>

definition stage_upload ::
  "scan_config \<Rightarrow> scan_run \<Rightarrow> datetime \<Rightarrow> string \<Rightarrow> string \<Rightarrow> string \<Rightarrow> string \<Rightarrow> string option \<Rightarrow> file_asset list
    \<Rightarrow> (string + string \<times> bool) \<times> file_asset list"
where
  "stage_upload c run now new_id sha path name stype t =
     (let scan_enabled = (virus_scan_enabled c \<and> virus_scan_mode c \<noteq> ModeDisabled);
          scan_async = (scan_enabled \<and> virus_scan_mode c = ModeAsync);
          status = (if scan_enabled \<and> \<not> scan_async then map_sum id file_asset_scan_status_from_result (scan_upload_path c run)
                    else Inr (if scan_async then ''pending_scan'' else ''disabled'')) in
      case status of
        Inl err \<Rightarrow> (Inl err, t)
      | Inr s \<Rightarrow>
          if s = ''infected'' then (Inl ''virus_scan_rejected'', t)
          else case upsert_file_asset now new_id sha path name stype s t of
            (fid, t1) \<Rightarrow>
              if scan_async then
                (case ensure_file_asset_scan_pending c fid t1 of
                   (Inl err, _) \<Rightarrow> (Inl err, t)
                 | (Inr q, t2) \<Rightarrow> (Inr (fid, q), t2))
              else (Inr (fid, False), t1))"

section \<open>The handler\<close>

text \<open>The target of a scan: whether the file could be opened (or the exception, as the error column records it).\<close>

datatype scan_target = TargetOk | TargetFails string

record quarantine_env =
  qe_storage :: storage_env
  qe_default_s3 :: bool
  qe_no_bucket :: bool
  qe_move_fails :: bool
  qe_date_prefix :: string
  qe_suffix :: "string option \<Rightarrow> string"

definition quarantine_rel_path :: "quarantine_env \<Rightarrow> string \<Rightarrow> string option \<Rightarrow> string" where
  "quarantine_rel_path q fid name = ''_quarantine/virus/'' @ qe_date_prefix q @ ''/'' @ fid @ qe_suffix q name"

definition on_s3 :: "quarantine_env \<Rightarrow> string option \<Rightarrow> bool" where
  "on_s3 q stype \<longleftrightarrow> (if or_empty stype = [] then qe_default_s3 q else lower (or_empty stype) = ''s3'')"

text \<open>Moving a local file away, or deleting an object: the new path, the error text of the exception that is
  caught, and the files.\<close>

definition move_away :: "quarantine_env \<Rightarrow> file_asset \<Rightarrow> string \<Rightarrow> store \<Rightarrow> string \<times> string \<times> store" where
  "move_away q a rel fs =
     (if on_s3 q (fa_storage a) then
        (if qe_no_bucket q then (rel, ''quarantine_failed:ValueError:S3_BUCKET is not configured'', fs)
         else case s3_delete (qe_storage q) rel fs of
           (Inl exc, fs') \<Rightarrow> (rel, ''quarantine_failed:'' @ exc, fs')
         | (Inr _, fs') \<Rightarrow> (rel, [], fs'))
      else case abs_path (qe_storage q) rel of
        Inl err \<Rightarrow> (rel, ''quarantine_failed:ValueError:'' @ storage_error_text err, fs)
      | Inr p \<Rightarrow>
          if \<not> local_files fs p then (rel, [], fs)
          else let new = quarantine_rel_path q (fa_id a) (fa_name a) in
            case abs_path (qe_storage q) new of
              Inl err \<Rightarrow> (new, ''quarantine_failed:ValueError:'' @ storage_error_text err, fs)
            | Inr n \<Rightarrow>
                if qe_move_fails q then (new, ''quarantine_failed:OSError:'', fs)
                else (new, [], fs\<lparr>local_files := (local_files fs)(p := False, n := True)\<rparr>))"

datatype scan_outcome = Skipped string | Done string | DoneOpen string | Raises string

definition quarantine_infected_asset ::
  "quarantine_env \<Rightarrow> datetime \<Rightarrow> file_asset \<Rightarrow> scan_result \<Rightarrow> file_asset list \<times> store \<Rightarrow> scan_outcome \<times> file_asset list \<times> store"
where
  "quarantine_infected_asset q now a r s =
     (case normalize_rel_path (fa_path a) of
        Inl err \<Rightarrow> (Raises (''ValueError:'' @ storage_error_text err), s)
      | Inr rel \<Rightarrow>
          (case move_away q a rel (snd s) of
             (new, qerr, fs) \<Rightarrow>
               let err = scan_error_text r ''virus_scan_rejected'';
                   err1 = (if qerr = [] then err else take 1000 (err @ ''; '' @ take 1000 qerr)) in
               (Done ''infected'',
                sql_update (\<lambda>x. fa_id x = fa_id a)
                  (\<lambda>x. x\<lparr>fa_path := new, fa_status := Some ''infected'', fa_checked_at := Some now, fa_error := Some err1,
                         fa_quarantined_at := Some now\<rparr>) (fst s), fs)))"

definition finish_scan ::
  "scan_config \<Rightarrow> quarantine_env \<Rightarrow> datetime \<Rightarrow> file_asset \<Rightarrow> scan_result \<Rightarrow> file_asset list \<times> store \<Rightarrow> scan_outcome \<times> file_asset list \<times> store"
where
  "finish_scan c q now a r s =
     (let raw = lower (strip (sr_status r)); status = file_asset_scan_status_from_result r;
          set_status = (\<lambda>st err. (set_scan_status now (fa_id a) st err (fst s), snd s)) in
      if sr_fail_open r \<and> raw \<in> set [''timeout'', ''error''] then
        (DoneOpen raw, set_status ''clean'' (Some (take 1000 (''fail_open:'' @ scan_error_text r ''virus_scan_failed''))))
      else if status \<in> set [''clean'', ''disabled''] then (Done status, set_status status None)
      else if status = ''infected'' then quarantine_infected_asset q now a r s
      else let err = scan_error_text r ''virus_scan_failed'' in
        (Raises (''RuntimeError:'' @ err), set_status ''scan_error'' (Some err)))"

definition run_file_asset_virus_scan ::
  "scan_config \<Rightarrow> quarantine_env \<Rightarrow> scan_target \<Rightarrow> scan_run \<Rightarrow> datetime \<Rightarrow> string \<Rightarrow> file_asset list \<times> store
    \<Rightarrow> scan_outcome \<times> file_asset list \<times> store"
where
  "run_file_asset_virus_scan c q target run now file_asset_id s =
     (let fid = strip file_asset_id in
      if fid = [] then (Skipped ''missing_file_asset_id'', s)
      else case find_asset fid (fst s) of
        None \<Rightarrow> (Skipped ''not_found'', s)
      | Some a \<Rightarrow>
          if normalize_file_asset_scan_status (fa_status a) = ''infected'' then (Done ''infected'', s)
          else if \<not> virus_scan_enabled c \<or> virus_scan_mode c = ModeDisabled then
            (Done ''disabled'', set_scan_status now fid ''disabled'' None (fst s), snd s)
          else
            let s1 = (set_scan_status now fid ''scanning'' None (fst s), snd s);
                fails = (\<lambda>exc. (Raises exc, set_scan_status now fid ''scan_error'' (Some (take 1000 exc)) (fst s1), snd s1)) in
            case target of
              TargetFails exc \<Rightarrow> fails exc
            | TargetOk \<Rightarrow>
                (case scan_upload_path c run of
                   Inl err \<Rightarrow>
                     if err = ''virus_scan_rejected''
                     then quarantine_infected_asset q now a ((plain_result ''rejected'')\<lparr>sr_error := Some err\<rparr>) s1
                     else fails (''UploadSecurityError:'' @ err)
                 | Inr r \<Rightarrow> finish_scan c q now a r s1))"

section \<open>Statuses\<close>

abbreviation (input) readable_asset :: "file_asset \<Rightarrow> bool" where
  "readable_asset a \<equiv> file_asset_scan_allows_read (fa_status a)"

definition infected_asset :: "file_asset \<Rightarrow> bool" where
  "infected_asset a \<longleftrightarrow> normalize_file_asset_scan_status (fa_status a) = ''infected''"

lemma status_texts:
  "normalize_file_asset_scan_status (Some ''scanning'') = ''scanning''" "normalize_file_asset_scan_status (Some ''scan_error'') = ''scan_error''"
  "normalize_file_asset_scan_status (Some ''clean'') = ''clean''" "normalize_file_asset_scan_status (Some ''disabled'') = ''disabled''"
  "normalize_file_asset_scan_status (Some ''infected'') = ''infected''" "normalize_file_asset_scan_status (Some ''pending_scan'') = ''pending_scan''"
  by code_simp+

lemma blocked_texts:
  "\<not> file_asset_scan_allows_read (Some ''scanning'')" "\<not> file_asset_scan_allows_read (Some ''scan_error'')"
  "\<not> file_asset_scan_allows_read (Some ''infected'')" "\<not> file_asset_scan_allows_read (Some ''pending_scan'')"
  by code_simp+

lemma infected_blocked: "infected_asset a \<Longrightarrow> \<not> readable_asset a"
  by (simp add: infected_asset_def file_asset_scan_allows_read_def)

lemma sql_update_twice:
  "(\<And>x. p (f x) = p x) \<Longrightarrow> sql_update p g (sql_update p f t) = sql_update p (\<lambda>x. g (f x)) t"
  by (simp add: sql_update_def)

text \<open>A rewrite of the row of one file: it keeps the id, and the file is readable afterwards only if \<open>ok\<close>.\<close>

definition rewrites_row :: "bool \<Rightarrow> string \<Rightarrow> file_asset list \<Rightarrow> file_asset list \<Rightarrow> bool" where
  "rewrites_row ok fid t t' \<longleftrightarrow>
     (\<exists>g. t' = sql_update (\<lambda>a. fa_id a = fid) g t \<and> (\<forall>a. fa_id (g a) = fa_id a) \<and> (\<forall>a. readable_asset (g a) \<longrightarrow> ok))"

lemma rewrites_update:
  "(\<And>a. fa_id (g a) = fa_id a) \<Longrightarrow> (\<And>a. readable_asset (g a) \<Longrightarrow> ok) \<Longrightarrow> rewrites_row ok fid t (sql_update (\<lambda>a. fa_id a = fid) g t)"
  unfolding rewrites_row_def by blast

lemma rewrites_trans:
  assumes "rewrites_row ok fid t t1" and "rewrites_row ok' fid t1 t2"
  shows "rewrites_row ok' fid t t2"
proof -
  obtain f g where f: "t1 = sql_update (\<lambda>a. fa_id a = fid) f t" "\<forall>a. fa_id (f a) = fa_id a"
    and g: "t2 = sql_update (\<lambda>a. fa_id a = fid) g t1" "\<forall>a. fa_id (g a) = fa_id a" "\<forall>a. readable_asset (g a) \<longrightarrow> ok'"
    using assms unfolding rewrites_row_def by blast
  have "t2 = sql_update (\<lambda>a. fa_id a = fid) (\<lambda>a. g (f a)) t" unfolding g(1) f(1) by (rule sql_update_twice) (simp add: f(2))
  then show ?thesis using f(2) g(2,3) by (auto intro: rewrites_update)
qed

lemma rewrites_set:
  "file_asset_scan_allows_read (Some (normalize_file_asset_scan_status (Some st))) \<longrightarrow> ok \<Longrightarrow> rewrites_row ok fid t (set_scan_status now fid st err t)"
  unfolding set_scan_status_def by (rule rewrites_update) simp_all

section \<open>One scan\<close>

definition strict_async :: "scan_config \<Rightarrow> bool" where
  "strict_async c \<longleftrightarrow> virus_scan_enabled c \<and> virus_scan_mode c = ModeAsync \<and> \<not> fail_open c"

definition scan_passed :: "scan_target \<Rightarrow> scan_run \<Rightarrow> bool" where
  "scan_passed target run \<longleftrightarrow> target = TargetOk \<and> (\<exists>out. run = Exits 0 out)"

lemma quarantine_rewrites:
  assumes "quarantine_infected_asset q now a r (t, fs) = (out, t', fs')"
  shows "t' = t \<or> rewrites_row False (fa_id a) t t'"
proof (cases "normalize_rel_path (fa_path a)")
  case (Inr rel)
  obtain new qerr fs1 where "move_away q a rel fs = (new, qerr, fs1)" by (metis prod_cases3)
  with Inr assms show ?thesis
    by (auto simp: quarantine_infected_asset_def Let_def blocked_texts intro!: rewrites_update)
qed (use assms in \<open>simp add: quarantine_infected_asset_def\<close>)

lemma strict_scan:
  assumes "strict_async c"
  shows "scan_upload_path c run = Inr r \<Longrightarrow> \<exists>out. run = Exits 0 out \<and> sr_status r = ''ok'' \<and> \<not> sr_fail_open r"
  using assms by (cases run) (auto simp: strict_async_def plain_result_def split: if_splits)

lemma ok_is_clean: "sr_status r = ''ok'' \<Longrightarrow> \<not> sr_fail_open r \<Longrightarrow>
    finish_scan c q now a r s = (Done ''clean'', set_scan_status now (fa_id a) ''clean'' None (fst s), snd s)"
proof -
  assume "sr_status r = ''ok''" and open': "\<not> sr_fail_open r"
  then have "file_asset_scan_status_from_result r = ''clean''" unfolding file_asset_scan_status_from_result_def by (simp, code_simp)
  with open' show ?thesis by (simp add: finish_scan_def Let_def)
qed

lemma scan_rewrites:
  assumes "strict_async c" and "find_asset (strip fid) t = Some a" and "\<not> infected_asset a"
    and "run_file_asset_virus_scan c q target run now fid (t, fs) = (out, t', fs')" and "strip fid \<noteq> []"
  shows "rewrites_row (scan_passed target run) (strip fid) t t'"
proof -
  let ?t1 = "set_scan_status now (strip fid) ''scanning'' None t"
  have a: "fa_id a = strip fid" using assms(2) by (auto simp: find_asset_def dest: sql_first_Some)
  have w1: "rewrites_row False (strip fid) t ?t1" by (rule rewrites_set) (simp add: status_texts blocked_texts)
  have bad: "rewrites_row ok (strip fid) t (set_scan_status now (strip fid) ''scan_error'' err ?t1)" for ok err
    by (rule rewrites_trans [OF w1]) (rule rewrites_set, simp add: status_texts blocked_texts)
  have quar: "rewrites_row ok (strip fid) t t'" if "quarantine_infected_asset q now a r (?t1, fs) = (out, t', fs')" for r ok
  proof -
    have "rewrites_row False (strip fid) t t'" using quarantine_rewrites [OF that] w1 rewrites_trans [OF w1] a by auto
    then show ?thesis unfolding rewrites_row_def by blast
  qed
  have cfg: "virus_scan_enabled c" "virus_scan_mode c = ModeAsync" using assms(1) by (simp_all add: strict_async_def)
  have run: "run_file_asset_virus_scan c q target run now fid (t, fs) =
      (case target of
         TargetFails exc \<Rightarrow> (Raises exc, set_scan_status now (strip fid) ''scan_error'' (Some (take 1000 exc)) ?t1, fs)
       | TargetOk \<Rightarrow>
           (case scan_upload_path c run of
              Inl err \<Rightarrow>
                if err = ''virus_scan_rejected'' then quarantine_infected_asset q now a ((plain_result ''rejected'')\<lparr>sr_error := Some err\<rparr>) (?t1, fs)
                else (Raises (''UploadSecurityError:'' @ err),
                      set_scan_status now (strip fid) ''scan_error'' (Some (take 1000 (''UploadSecurityError:'' @ err))) ?t1, fs)
            | Inr r \<Rightarrow> finish_scan c q now a r (?t1, fs)))"
    using assms(2,3,5) cfg
    by (simp add: run_file_asset_virus_scan_def infected_asset_def Let_def split: scan_target.splits sum.splits)
  show ?thesis
  proof (cases target)
    case (TargetFails exc)
    with assms(4) run bad show ?thesis by auto
  next
    case TargetOk
    show ?thesis
    proof (cases "scan_upload_path c run")
      case (Inl err)
      with assms(4) run bad quar TargetOk show ?thesis by (auto split: if_splits)
    next
      case (Inr r)
      from strict_scan [OF assms(1) Inr] obtain o' where r: "run = Exits 0 o'" "sr_status r = ''ok''" "\<not> sr_fail_open r" by blast
      have "t' = set_scan_status now (strip fid) ''clean'' None ?t1"
        using assms(4) TargetOk ok_is_clean [OF r(2,3)] unfolding run Inr by (simp add: a)
      moreover have "rewrites_row True (strip fid) t (set_scan_status now (strip fid) ''clean'' None ?t1)"
        by (rule rewrites_trans [OF w1]) (rule rewrites_set, simp)
      moreover have "scan_passed target run" using r(1) TargetOk by (simp add: scan_passed_def)
      ultimately show ?thesis by simp
    qed
  qed
qed

section \<open>Blocked until scanned\<close>

text \<open>Uploads and scans one after the other (the scans of one file do not overlap: the job queue runs one job per
  file). The last part of a state is the set of files that the scanner has passed.\<close>

type_synonym scan_state = "file_asset list \<times> store \<times> string set"

inductive scan_step :: "scan_config \<Rightarrow> scan_state \<Rightarrow> scan_state \<Rightarrow> bool" for c where
  upload: "stage_upload c run now new_id sha path name stype t = (res, t') \<Longrightarrow> new_id \<notin> set (map fa_id t)
    \<Longrightarrow> scan_step c (t, fs, ps) (t', fs, ps)"
| scan: "run_file_asset_virus_scan c q target run now fid (t, fs) = (out, t', fs')
    \<Longrightarrow> scan_step c (t, fs, ps) (t', fs', if scan_passed target run then insert (strip fid) ps else ps)"

definition only_passed_readable :: "scan_state \<Rightarrow> bool" where
  "only_passed_readable s \<longleftrightarrow>
     distinct (map fa_id (fst s)) \<and> (\<forall>a \<in> set (fst s). readable_asset a \<longrightarrow> fa_id a \<in> snd (snd s))"

definition infected_id :: "file_asset list \<Rightarrow> string \<Rightarrow> bool" where
  "infected_id t i \<longleftrightarrow> (\<exists>a \<in> set t. fa_id a = i \<and> infected_asset a)"

lemma rewrites_keep:
  assumes "rewrites_row ok fid t t'" and "only_passed_readable (t, fs, ps)" and "ok \<Longrightarrow> fid \<in> ps'" and "ps \<subseteq> ps'"
  shows "only_passed_readable (t', fs', ps')" and "i \<noteq> fid \<Longrightarrow> infected_id t i \<Longrightarrow> infected_id t' i"
proof -
  obtain g where g: "t' = sql_update (\<lambda>a. fa_id a = fid) g t" "\<forall>a. fa_id (g a) = fa_id a" "\<forall>a. readable_asset (g a) \<longrightarrow> ok"
    using assms(1) unfolding rewrites_row_def by blast
  have "map fa_id t' = map fa_id t" unfolding g(1) by (rule sql_update_keys) (simp add: g(2))
  then show "only_passed_readable (t', fs', ps')"
    using assms(2,3,4) g(2,3) by (auto simp: only_passed_readable_def g(1) set_sql_update)
  show "infected_id t' i" if "i \<noteq> fid" "infected_id t i"
  proof -
    from that obtain x where "x \<in> set t" "fa_id x = i" "infected_asset x" unfolding infected_id_def by blast
    then show ?thesis using sql_update_miss [of x t "\<lambda>a. fa_id a = fid" g] that(1) unfolding infected_id_def g(1) by blast
  qed
qed

lemma not_infected_found:
  assumes "find_asset fid t = Some a" and "\<not> infected_asset a" and "distinct (map fa_id t)"
  shows "\<not> infected_id t fid"
proof
  assume "infected_id t fid"
  then obtain b where b: "b \<in> set t" "fa_id b = fid" "infected_asset b" unfolding infected_id_def by blast
  have "a \<in> set t" "fa_id a = fid" using assms(1) by (auto simp: find_asset_def dest: sql_first_Some)
  then have "a = b" using assms(3) b by (metis distinct_map inj_onD)
  with assms(2) b(3) show False by simp
qed

lemma ensure_effect:
  assumes "ensure_file_asset_scan_pending c fid t1 = (e, t2)"
  shows "t2 = t1 \<or> (\<exists>a. find_asset (strip fid) t1 = Some a \<and> \<not> infected_asset a \<and> rewrites_row False (strip fid) t1 t2)"
proof -
  let ?t = "sql_update (\<lambda>a. fa_id a = strip fid) (\<lambda>a. a\<lparr>fa_status := Some ''pending_scan'', fa_checked_at := None, fa_error := None\<rparr>) t1"
  have "rewrites_row False (strip fid) t1 ?t" by (rule rewrites_update) (simp_all add: blocked_texts)
  moreover have "t2 = t1 \<or> (\<exists>a. find_asset (strip fid) t1 = Some a \<and> normalize_file_asset_scan_status (fa_status a) \<noteq> ''infected'' \<and> t2 = ?t)"
    using assms unfolding ensure_file_asset_scan_pending_def Let_def by (simp split: if_splits option.splits)
  ultimately show ?thesis unfolding infected_asset_def by blast
qed

lemma upload_keeps:
  assumes "strict_async c" and "stage_upload c run now new_id sha path name stype t = (res, t')" and "new_id \<notin> set (map fa_id t)"
    and "only_passed_readable (t, fs, ps)"
  shows "only_passed_readable (t', fs, ps) \<and> (infected_id t i \<longrightarrow> infected_id t' i)"
proof -
  obtain fid t1 where u: "upsert_file_asset now new_id sha path name stype ''pending_scan'' t = (fid, t1)" by fastforce
  have t1: "only_passed_readable (t1, fs, ps) \<and> (infected_id t i \<longrightarrow> infected_id t1 i)"
    using u assms(3,4) by (auto simp: upsert_file_asset_def only_passed_readable_def infected_id_def blocked_texts split: option.splits)
  have res: "(res, t') = (case ensure_file_asset_scan_pending c fid t1 of (Inl err, _) \<Rightarrow> (Inl err, t) | (Inr qd, t2) \<Rightarrow> (Inr (fid, qd), t2))"
    using assms(1,2) u by (simp add: stage_upload_def strict_async_def Let_def)
  obtain e t2 where e: "ensure_file_asset_scan_pending c fid t1 = (e, t2)" by fastforce
  have "t2 = t1 \<or> (\<exists>a. find_asset (strip fid) t1 = Some a \<and> \<not> infected_asset a \<and> rewrites_row False (strip fid) t1 t2)"
    by (rule ensure_effect [OF e])
  then have "only_passed_readable (t2, fs, ps) \<and> (infected_id t1 i \<longrightarrow> infected_id t2 i)"
  proof
    assume "\<exists>a. find_asset (strip fid) t1 = Some a \<and> \<not> infected_asset a \<and> rewrites_row False (strip fid) t1 t2"
    then obtain a where a: "find_asset (strip fid) t1 = Some a" "\<not> infected_asset a" "rewrites_row False (strip fid) t1 t2" by blast
    have "\<not> infected_id t1 (strip fid)" using not_infected_found [OF a(1,2)] t1 by (simp add: only_passed_readable_def)
    then have "infected_id t1 i \<longrightarrow> infected_id t2 i"
      using rewrites_keep(2) [OF a(3), of fs ps ps i] t1 by (cases "i = strip fid") auto
    moreover have "only_passed_readable (t2, fs, ps)" using rewrites_keep(1) [OF a(3), of fs ps ps fs] t1 by simp
    ultimately show ?thesis by blast
  qed (use t1 in simp)
  then show ?thesis using res e t1 assms(4) by (auto split: sum.splits)
qed

lemma scan_keeps:
  assumes "strict_async c" and "run_file_asset_virus_scan c q target run now fid (t, fs) = (out, t', fs')"
    and "only_passed_readable (t, fs, ps)" and "ps' = (if scan_passed target run then insert (strip fid) ps else ps)"
  shows "only_passed_readable (t', fs', ps') \<and> (infected_id t i \<longrightarrow> infected_id t' i)"
proof (cases "strip fid \<noteq> [] \<and> (\<exists>a. find_asset (strip fid) t = Some a \<and> \<not> infected_asset a)")
  case True
  then obtain a where a: "find_asset (strip fid) t = Some a" "\<not> infected_asset a" and ne: "strip fid \<noteq> []" by blast
  note rw = scan_rewrites [OF assms(1) a assms(2) ne]
  have "\<not> infected_id t (strip fid)" using not_infected_found [OF a] assms(3) by (simp add: only_passed_readable_def)
  moreover have ok: "scan_passed target run \<Longrightarrow> strip fid \<in> ps'" and sub: "ps \<subseteq> ps'" using assms(4) by auto
  ultimately have "infected_id t i \<longrightarrow> infected_id t' i"
    using rewrites_keep(2) [OF rw assms(3) ok sub, of i] by (cases "i = strip fid") auto
  moreover have "only_passed_readable (t', fs', ps')" by (rule rewrites_keep(1) [OF rw assms(3) ok sub])
  ultimately show ?thesis by blast
next
  case False
  then have "t' = t" using assms(2) by (auto simp: run_file_asset_virus_scan_def infected_asset_def Let_def split: option.splits if_splits)
  then show ?thesis using assms(3,4) by (auto simp: only_passed_readable_def)
qed

lemma scan_steps_keep:
  assumes "(scan_step c)\<^sup>*\<^sup>* s s'" and "strict_async c" and "only_passed_readable s"
  shows "only_passed_readable s' \<and> (infected_id (fst s) i \<longrightarrow> infected_id (fst s') i)"
  using assms(1)
proof induction
  case base
  show ?case using assms(3) by simp
next
  case (step s1 s2)
  from step.hyps(2) have "only_passed_readable s2 \<and> (infected_id (fst s1) i \<longrightarrow> infected_id (fst s2) i)"
  proof (cases rule: scan_step.cases)
    case (upload run now new_id sha path name stype t res t' fs ps)
    then show ?thesis using upload_keeps [OF assms(2)] step.IH by fastforce
  next
    case (scan q target run now fid t fs out t' fs' ps)
    then show ?thesis using scan_keeps [OF assms(2)] step.IH by fastforce
  qed
  with step.IH show ?case by blast
qed

text \<open>C17: A file is readable only after the scanner has passed it. With scanning in the background and no release of
  files whose scan failed, then after any sequence of uploads and scans that starts with no readable file,
  with any outcome of the scanner (infected, timeout, crash, unreadable target), every readable file had a
  scan that ended with exit code 0 since; and an infected file stays infected and is never readable again.\<close>

theorem unscanned_files_stay_blocked:
  assumes "(scan_step c)\<^sup>*\<^sup>* (t, fs, {}) (t', fs', ps)" and "strict_async c" and "distinct (map fa_id t)"
    and "\<And>a. a \<in> set t \<Longrightarrow> \<not> readable_asset a"
  shows "(a \<in> set t' \<and> readable_asset a \<longrightarrow> fa_id a \<in> ps)
    \<and> (b \<in> set t \<and> infected_asset b \<longrightarrow> (\<forall>b' \<in> set t'. fa_id b' = fa_id b \<longrightarrow> infected_asset b' \<and> \<not> readable_asset b'))"
proof -
  have start: "only_passed_readable (t, fs, {})" using assms(3,4) by (auto simp: only_passed_readable_def)
  note keep = scan_steps_keep [OF assms(1,2) start]
  have "infected_asset b'" if "b \<in> set t" "infected_asset b" "b' \<in> set t'" "fa_id b' = fa_id b" for b'
  proof -
    have "infected_id t' (fa_id b)" using keep that(1,2) by (auto simp: infected_id_def)
    then obtain x where "x \<in> set t'" "fa_id x = fa_id b" "infected_asset x" unfolding infected_id_def by blast
    moreover have "distinct (map fa_id t')" using keep by (simp add: only_passed_readable_def)
    ultimately have "x = b'" using that(3,4) by (metis distinct_map inj_onD)
    with \<open>infected_asset x\<close> show ?thesis by simp
  qed
  then show ?thesis using keep infected_blocked by (auto simp: only_passed_readable_def)
qed

definition async_config :: scan_config where
  "async_config = \<lparr>scan_command = ''clamscan'', mode_text = [], fail_open = False, timeout_seconds = 30\<rparr>"

definition empty_store :: store where
  "empty_store = \<lparr>local_files = (\<lambda>_. False), s3_objects = (\<lambda>_. False)\<rparr>"

definition plain_quarantine :: quarantine_env where
  "plain_quarantine = \<lparr>qe_storage = \<lparr>path_escapes = (\<lambda>_. False), unlink_fails = (\<lambda>_. False), s3_reply = (\<lambda>_. S3Ok)\<rparr>, qe_default_s3 = False,
     qe_no_bucket = False, qe_move_fails = False, qe_date_prefix = ''2025/05/01'', qe_suffix = (\<lambda>_. ''.pdf'')\<rparr>"

text \<open>Two uploads; the first file passes its scan, the scan of the second one times out.\<close>

definition after_uploads :: "file_asset list" where
  "after_uploads = snd (stage_upload async_config TimesOut 0 ''f2'' ''sha2'' ''up/b.pdf'' ''b.pdf'' None
     (snd (stage_upload async_config TimesOut 0 ''f1'' ''sha1'' ''up/a.pdf'' ''a.pdf'' None [])))"

definition after_scans :: "file_asset list \<times> store" where
  "after_scans = snd (run_file_asset_virus_scan async_config plain_quarantine TargetOk TimesOut 2 ''f2''
     (snd (run_file_asset_virus_scan async_config plain_quarantine TargetOk (Exits 0 ''OK'') 1 '' f1'' (after_uploads, empty_store))))"

lemma scan_stepI:
  "scan_step c (t, fs, ps) (fst (snd (run_file_asset_virus_scan c q target run now fid (t, fs))),
     snd (snd (run_file_asset_virus_scan c q target run now fid (t, fs))), if scan_passed target run then insert (strip fid) ps else ps)"
  by (rule scan_step.scan [where out = "fst (run_file_asset_virus_scan c q target run now fid (t, fs))"]) simp

theorem unscanned_files_stay_blocked_witness:
  "map (\<lambda>a. (fa_id a, fa_status a)) (fst after_scans) = [(''f1'', Some ''clean''), (''f2'', Some ''scan_error'')]
    \<and> fa_id ` {a \<in> set (fst after_scans). readable_asset a} \<subseteq> {''f1''}"
proof -
  let ?up1 = "snd (stage_upload async_config TimesOut 0 ''f1'' ''sha1'' ''up/a.pdf'' ''a.pdf'' None [])"
  let ?sc1 = "snd (run_file_asset_virus_scan async_config plain_quarantine TargetOk (Exits 0 ''OK'') 1 '' f1'' (after_uploads, empty_store))"
  have s1: "scan_step async_config ([], empty_store, {}) (?up1, empty_store, {})"
    by (rule scan_step.upload [of _ TimesOut 0 "''f1''" "''sha1''" "''up/a.pdf''" "''a.pdf''" None]) (auto simp: prod_eq_iff)
  have "''f2'' \<notin> set (map fa_id ?up1)" by code_simp
  then have s2: "scan_step async_config (?up1, empty_store, {}) (after_uploads, empty_store, {})" unfolding after_uploads_def
    by (intro scan_step.upload [of _ TimesOut 0 "''f2''" "''sha2''" "''up/b.pdf''" "''b.pdf''" None]) (auto simp: prod_eq_iff)
  have f1: "strip '' f1'' = ''f1''" "scan_passed TargetOk (Exits 0 ''OK'')" "\<not> scan_passed TargetOk TimesOut"
    by (code_simp, simp_all add: scan_passed_def)
  have s3: "scan_step async_config (after_uploads, empty_store, {}) (fst ?sc1, snd ?sc1, {''f1''})"
    using scan_stepI [of async_config after_uploads empty_store "{}" plain_quarantine TargetOk "Exits 0 ''OK''" 1 "'' f1''"]
    unfolding f1(1) by (simp only: f1(2) if_True)
  have s4: "scan_step async_config (fst ?sc1, snd ?sc1, {''f1''}) (fst after_scans, snd after_scans, {''f1''})"
    using scan_stepI [of async_config "fst ?sc1" "snd ?sc1" "{''f1''}" plain_quarantine TargetOk TimesOut 2 "''f2''"]
    unfolding after_scans_def prod.collapse by (simp only: f1(3) if_False)
  have "(scan_step async_config)\<^sup>*\<^sup>* ([], empty_store, {}) (fst after_scans, snd after_scans, {''f1''})"
    by (rule converse_rtranclp_into_rtranclp, rule s1, rule converse_rtranclp_into_rtranclp, rule s2,
        rule converse_rtranclp_into_rtranclp, rule s3, rule r_into_rtranclp, rule s4)
  moreover have "strict_async async_config" by code_simp
  moreover have "map (\<lambda>a. (fa_id a, fa_status a)) (fst after_scans) = [(''f1'', Some ''clean''), (''f2'', Some ''scan_error'')]" by code_simp
  ultimately show ?thesis using unscanned_files_stay_blocked [of async_config "[]" empty_store "fst after_scans" "snd after_scans" "{''f1''}"] by auto
qed

text \<open>When moving an infected file away fails, its row still gets the path in the quarantine: the file stays where it was,
  and no row points to it any more.\<close>

lemma failed_move_loses_file:
  assumes "\<not> on_s3 q (fa_storage a)" and "abs_path (qe_storage q) rel = Inr p" and "local_files fs p"
    and "abs_path (qe_storage q) (quarantine_rel_path q (fa_id a) (fa_name a)) = Inr n" and "qe_move_fails q"
  shows "\<exists>err. move_away q a rel fs = (quarantine_rel_path q (fa_id a) (fa_name a), err, fs)"
  using assms by (simp add: move_away_def)

end
