(* ===== verification/File_Access.thy ===== *)
theory File_Access
  imports File_Scan Matter_Access
begin

text \<open>
  Who may read and reuse a stored file (\<open>app/services/storage/file_asset_access.py\<close>). A file is read in the name
  of a matter: the matter must exist, the user must be allowed to view it, the file must be linked to it, and the
  scan must allow it. The four link tables are one list of rows, each joined with its parent row and naming the
  table it comes from.
\<close>

section \<open>Links\<close>

datatype link_kind = MatterFile | CommunicationFile | OfficeActionFile | MemoFile

record file_link =
  fl_kind :: link_kind
  fl_matter :: string
  fl_asset :: string
  fl_deleted :: "bool option"

record file_db =
  fd_assets :: "file_asset list"
  fd_links :: "file_link list"
  fd_matters :: matter_db

definition matter_exists :: "file_db \<Rightarrow> string \<Rightarrow> bool" where
  "matter_exists db m \<longleftrightarrow> strip m \<noteq> [] \<and> live_matter (fd_matters db) (strip m)"

definition file_asset_row :: "file_db \<Rightarrow> string \<Rightarrow> file_asset option" where
  "file_asset_row db f = (if strip f = [] then None else find_asset (strip f) (fd_assets db))"

definition is_linked_to_matter :: "file_db \<Rightarrow> string \<Rightarrow> string \<Rightarrow> bool" where
  "is_linked_to_matter db m f \<longleftrightarrow>
     strip m \<noteq> [] \<and> strip f \<noteq> []
     \<and> list_ex (\<lambda>l. fl_matter l = strip m \<and> fl_asset l = strip f \<and> fl_deleted l \<noteq> Some True) (fd_links db)"

section \<open>Reading\<close>

definition can_read :: "perm_env \<Rightarrow> file_db \<Rightarrow> user option \<Rightarrow> string \<Rightarrow> string \<Rightarrow> bool" where
  "can_read e db u matter_id file_asset_id =
     (let mid = strip matter_id; fid = strip file_asset_id in
      if mid = [] \<or> fid = [] then False
      else if \<not> matter_exists db mid then False
      else case file_asset_row db fid of
        None \<Rightarrow> False
      | Some a \<Rightarrow>
          if \<not> file_asset_scan_allows_read (fa_status a) then False
          else if \<not> can_access_matter e (fd_matters db) u mid ''view'' then False
          else is_linked_to_matter db mid fid)"

definition can_read_matter :: "perm_env \<Rightarrow> file_db \<Rightarrow> user option \<Rightarrow> string \<Rightarrow> bool" where
  "can_read_matter e db u matter_id =
     (let mid = strip matter_id in
      if mid = [] then False else matter_exists db mid \<and> can_access_matter e (fd_matters db) u mid ''view'')"

datatype read_error = FileNotFound string | PermissionDenied string | ScanBlocked string

definition assert_file_asset_scan_allows_read :: "string option \<Rightarrow> read_error + unit" where
  "assert_file_asset_scan_allows_read s =
     (if file_asset_scan_allows_read s then Inr () else Inl (ScanBlocked (normalize_file_asset_scan_status s)))"

definition authorize_read :: "perm_env \<Rightarrow> file_db \<Rightarrow> user option \<Rightarrow> string \<Rightarrow> string \<Rightarrow> read_error + file_asset" where
  "authorize_read e db u matter_id file_asset_id =
     (let mid = strip matter_id; fid = strip file_asset_id in
      if mid = [] \<or> fid = [] \<or> \<not> matter_exists db mid then Inl (FileNotFound ''matter_not_found'')
      else case file_asset_row db fid of
        None \<Rightarrow> Inl (FileNotFound ''file_asset_not_found'')
      | Some a \<Rightarrow>
          if \<not> can_access_matter e (fd_matters db) u mid ''view'' then Inl (PermissionDenied ''matter_access_denied'')
          else if \<not> is_linked_to_matter db mid fid then Inl (PermissionDenied ''file_asset_not_linked_to_matter'')
          else case assert_file_asset_scan_allows_read (fa_status a) of Inl err \<Rightarrow> Inl err | Inr _ \<Rightarrow> Inr a)"

section \<open>Reusing\<close>

text \<open>The links of a file, except those of memos, deleted ones included.\<close>

definition linked_matter_ids_for_file_asset :: "file_db \<Rightarrow> string \<Rightarrow> string list" where
  "linked_matter_ids_for_file_asset db f =
     (if strip f = [] then []
      else filter (\<lambda>m. m \<noteq> []) (remdups (map fl_matter (filter (\<lambda>l. fl_asset l = f \<and> fl_kind l \<noteq> MemoFile) (fd_links db)))))"

datatype reuse_error = MissingFileAsset | FileAssetAccessDenied

fun filter_each :: "perm_env \<Rightarrow> file_db \<Rightarrow> user option \<Rightarrow> string list \<Rightarrow> reuse_error + string list" where
  "filter_each e db u [] = Inr []"
| "filter_each e db u (f # fs) =
     (if list_all (\<lambda>m. can_access_matter e (fd_matters db) u m ''view'') (linked_matter_ids_for_file_asset db f)
      then map_sum id ((#) f) (filter_each e db u fs)
      else Inl FileAssetAccessDenied)"

definition filter_accessible_file_assets :: "perm_env \<Rightarrow> file_db \<Rightarrow> user option \<Rightarrow> string list \<Rightarrow> reuse_error + string list" where
  "filter_accessible_file_assets e db u fs =
     (if fs = [] then Inr []
      else if list_ex (\<lambda>f. f \<notin> set (map fa_id (fd_assets db))) fs then Inl MissingFileAsset
      else filter_each e db u fs)"

section \<open>The two checks agree\<close>

lemma authorize_read_iff:
  "(\<exists>a. authorize_read e db u m f = Inr a) \<longleftrightarrow> can_read e db u m f"
  by (auto simp: authorize_read_def can_read_def assert_file_asset_scan_allows_read_def Let_def split: option.splits if_splits)

text \<open>C18: Files are served under the rules of the matter only. The check and the authorisation agree, and whenever a
  file is served, the matter exists, the user is active and may view the matter, a link of the file to the
  matter is in force, and the scan status of the stored row allows reading; otherwise the request
  ends with an error.\<close>

theorem served_files_are_authorized:
  "((\<exists>a. authorize_read e db u m f = Inr a) \<longleftrightarrow> can_read e db u m f)
   \<and> (authorize_read e db u m f = Inr a \<longrightarrow>
        a \<in> set (fd_assets db) \<and> fa_id a = strip f \<and> file_asset_scan_allows_read (fa_status a) \<and> \<not> infected_asset a
        \<and> live_matter (fd_matters db) (strip m) \<and> can_access_matter e (fd_matters db) u (strip m) ''view'' \<and> authenticated_active u
        \<and> (\<exists>l \<in> set (fd_links db). fl_matter l = strip m \<and> fl_asset l = strip f \<and> fl_deleted l \<noteq> Some True))"
proof -
  have "a \<in> set (fd_assets db) \<and> fa_id a = strip f \<and> file_asset_scan_allows_read (fa_status a)
      \<and> live_matter (fd_matters db) (strip m) \<and> can_access_matter e (fd_matters db) u (strip m) ''view''
      \<and> (\<exists>l \<in> set (fd_links db). fl_matter l = strip m \<and> fl_asset l = strip f \<and> fl_deleted l \<noteq> Some True)"
    if "authorize_read e db u m f = Inr a"
    using that unfolding authorize_read_def Let_def file_asset_row_def find_asset_def
    by (auto simp: assert_file_asset_scan_allows_read_def matter_exists_def is_linked_to_matter_def list_ex_iff
        dest!: sql_first_Some split: if_splits option.splits)
  then show ?thesis using authorize_read_iff infected_blocked can_access_active by blast
qed

section \<open>Reuse\<close>

lemma filter_each_Inr:
  "filter_each e db u fs = Inr r \<Longrightarrow>
     r = fs \<and> (\<forall>f \<in> set fs. \<forall>m \<in> set (linked_matter_ids_for_file_asset db f). can_access_matter e (fd_matters db) u m ''view'')"
proof (induction fs arbitrary: r)
  case (Cons f fs)
  then show ?case by (cases "filter_each e db u fs") (auto simp: list_all_iff split: if_splits)
qed simp

text \<open>Reusing a file needs access to the matters it belongs to. A request to reuse files is granted as a whole or
  not at all; when it is granted, every file exists and the user may view every matter the file was ever
  linked to directly, through a communication or through an office action, deleted links included.\<close>

theorem reuse_needs_access:
  assumes "filter_accessible_file_assets e db u fs = Inr r"
  shows "r = fs \<and> set fs \<subseteq> set (map fa_id (fd_assets db))
    \<and> (f \<in> set fs \<and> strip f \<noteq> [] \<and> l \<in> set (fd_links db) \<and> fl_asset l = f \<and> fl_kind l \<noteq> MemoFile \<and> fl_matter l \<noteq> []
        \<longrightarrow> can_access_matter e (fd_matters db) u (fl_matter l) ''view'')"
proof (cases "fs = []")
  case True
  with assms show ?thesis by (simp add: filter_accessible_file_assets_def)
next
  case False
  with assms have ex: "set fs \<subseteq> set (map fa_id (fd_assets db))" and r: "filter_each e db u fs = Inr r"
    by (auto simp: filter_accessible_file_assets_def list_ex_iff split: if_splits)
  have "can_access_matter e (fd_matters db) u (fl_matter l) ''view''"
    if "f \<in> set fs" "strip f \<noteq> []" "l \<in> set (fd_links db)" "fl_asset l = f" "fl_kind l \<noteq> MemoFile" "fl_matter l \<noteq> []"
  proof -
    have "fl_matter l \<in> set (linked_matter_ids_for_file_asset db f)"
      using that by (auto simp: linked_matter_ids_for_file_asset_def)
    with filter_each_Inr [OF r] that(1) show ?thesis by blast
  qed
  with ex filter_each_Inr [OF r] show ?thesis by blast
qed

text \<open>C33: The attachments of memos escape this rule. When all links of a clean file come from memos, any user may reuse
  it, also one who may not view the memo's matter, and after linking it to a matter of his own he reads it.\<close>

theorem memo_files_can_be_reused:
  assumes "find_asset f (fd_assets db) = Some a" and "strip f = f" and "f \<noteq> []" and "file_asset_scan_allows_read (fa_status a)"
    and "\<And>l. l \<in> set (fd_links db) \<Longrightarrow> fl_asset l = f \<Longrightarrow> fl_kind l = MemoFile"
    and "live_matter (fd_matters db) own" and "strip own = own" and "own \<noteq> []" and "can_access_matter e (fd_matters db) u own ''view''"
    and "strip m0 = m0" and "\<not> can_access_matter e (fd_matters db) u m0 ''view''"
  shows "\<not> can_read e db u m0 f
    \<and> filter_accessible_file_assets e db u [f] = Inr [f]
    \<and> authorize_read e (db\<lparr>fd_links := fd_links db @ [\<lparr>fl_kind = MatterFile, fl_matter = own, fl_asset = f, fl_deleted = None\<rparr>]\<rparr>) u own f = Inr a"
proof (intro conjI)
  show "\<not> can_read e db u m0 f" using assms(10,11) by (auto simp: can_read_def Let_def split: option.splits)
  have "a \<in> set (fd_assets db)" "fa_id a = f" using assms(1) by (auto simp: find_asset_def dest: sql_first_Some)
  then have "f \<in> set (map fa_id (fd_assets db))" by auto
  moreover have "linked_matter_ids_for_file_asset db f = []"
  proof -
    have "filter (\<lambda>l. fl_asset l = f \<and> fl_kind l \<noteq> MemoFile) (fd_links db) = []" using assms(5) by (auto simp: filter_empty_conv)
    then show ?thesis by (simp add: linked_matter_ids_for_file_asset_def)
  qed
  ultimately show "filter_accessible_file_assets e db u [f] = Inr [f]" by (simp add: filter_accessible_file_assets_def)
  show "authorize_read e (db\<lparr>fd_links := fd_links db @ [\<lparr>fl_kind = MatterFile, fl_matter = own, fl_asset = f, fl_deleted = None\<rparr>]\<rparr>) u own f = Inr a"
    using assms(1-4,6-9)
    by (simp add: authorize_read_def Let_def matter_exists_def file_asset_row_def is_linked_to_matter_def assert_file_asset_scan_allows_read_def)
qed

definition memo_db :: file_db where
  "memo_db = \<lparr>fd_assets = fst after_scans,
     fd_links = [\<lparr>fl_kind = MemoFile, fl_matter = ''M9'', fl_asset = ''f1'', fl_deleted = None\<rparr>],
     fd_matters = small_db\<lparr>matters := matters small_db @ [\<lparr>mr_id = ''M9'', mr_deleted = None, mr_our_ref = None, mr_old_our_ref = None, mr_your_ref = None\<rparr>]\<rparr>\<rparr>"

theorem reuse_needs_access_witness:
  "filter_accessible_file_assets quiet_perm_env
       (memo_db\<lparr>fd_links := [\<lparr>fl_kind = MatterFile, fl_matter = ''M1'', fl_asset = ''f1'', fl_deleted = Some True\<rparr>]\<rparr>) (Some staff_member) [''f1''] = Inr [''f1'']
   \<and> can_access_matter quiet_perm_env (fd_matters memo_db) (Some staff_member) ''M1'' ''view''"
proof -
  let ?db = "memo_db\<lparr>fd_links := [\<lparr>fl_kind = MatterFile, fl_matter = ''M1'', fl_asset = ''f1'', fl_deleted = Some True\<rparr>]\<rparr>"
  have r: "filter_accessible_file_assets quiet_perm_env ?db (Some staff_member) [''f1''] = Inr [''f1'']" by code_simp
  have "strip ''f1'' \<noteq> []" by code_simp
  with reuse_needs_access [OF r, of "''f1''" "\<lparr>fl_kind = MatterFile, fl_matter = ''M1'', fl_asset = ''f1'', fl_deleted = Some True\<rparr>"] r show ?thesis by simp
qed

theorem memo_files_can_be_reused_witness:
  "\<not> can_read quiet_perm_env memo_db (Some staff_member) ''M9'' ''f1''
   \<and> (\<exists>a. authorize_read quiet_perm_env
         (memo_db\<lparr>fd_links := fd_links memo_db @ [\<lparr>fl_kind = MatterFile, fl_matter = ''M1'', fl_asset = ''f1'', fl_deleted = None\<rparr>]\<rparr>) (Some staff_member) ''M1'' ''f1'' = Inr a)"
proof -
  obtain a where a: "find_asset ''f1'' (fd_assets memo_db) = Some a" "file_asset_scan_allows_read (fa_status a)"
  proof -
    have "(case find_asset ''f1'' (fd_assets memo_db) of Some a \<Rightarrow> file_asset_scan_allows_read (fa_status a) | None \<Rightarrow> False)" by code_simp
    then show ?thesis using that by (auto split: option.splits)
  qed
  have c: "strip ''f1'' = ''f1''" "strip ''M1'' = ''M1''" "strip ''M9'' = ''M9''" "live_matter (fd_matters memo_db) ''M1''"
    "can_access_matter quiet_perm_env (fd_matters memo_db) (Some staff_member) ''M1'' ''view''"
    "\<not> can_access_matter quiet_perm_env (fd_matters memo_db) (Some staff_member) ''M9'' ''view''" by code_simp+
  have "fl_kind l = MemoFile" if "l \<in> set (fd_links memo_db)" for l using that by (auto simp: memo_db_def)
  then show ?thesis using memo_files_can_be_reused [OF a(1) c(1) _ a(2) _ c(4,2) _ c(5) c(3,6)] by auto
qed


theorem served_files_are_authorized_witness:
  "\<exists>a. authorize_read quiet_perm_env
       (memo_db\<lparr>fd_links := [\<lparr>fl_kind = CommunicationFile, fl_matter = ''M1'', fl_asset = ''f1'', fl_deleted = None\<rparr>]\<rparr>) (Some staff_member) '' M1'' ''f1 '' = Inr a
     \<and> fa_id a = strip ''f1 '' \<and> file_asset_scan_allows_read (fa_status a) \<and> authenticated_active (Some staff_member)"
proof -
  let ?db = "memo_db\<lparr>fd_links := [\<lparr>fl_kind = CommunicationFile, fl_matter = ''M1'', fl_asset = ''f1'', fl_deleted = None\<rparr>]\<rparr>"
  have "can_read quiet_perm_env ?db (Some staff_member) '' M1'' ''f1 ''" by code_simp
  then obtain a where a: "authorize_read quiet_perm_env ?db (Some staff_member) '' M1'' ''f1 '' = Inr a"
    using served_files_are_authorized [of quiet_perm_env ?db "Some staff_member" "'' M1''" "''f1 ''"] by blast
  with served_files_are_authorized [of quiet_perm_env ?db "Some staff_member" "'' M1''" "''f1 ''" a] show ?thesis by blast
qed

end
