(* ===== verification/Matter_Family.thy ===== *)
theory Matter_Family
  imports Matter_Access Numerals "HOL-Library.AList" "HOL-Library.Multiset"
begin

text \<open>
  Families of matters (\<open>app/services/matter/matter_family_service.py\<close>, the family routes of
  \<open>app/blueprints/case/routes/detail.py\<close> and the component search of
  \<open>app/blueprints/case/services/detail_context.py\<close>). A family is a row, and a membership is a row that names a matter
  and a family. Linking two matters merges their families; disconnecting takes a matter out of every family it shares
  with another one, directly or through a chain of families. Membership gives the right to view.
\<close>

section \<open>Tables\<close>

record family =
  fam_id :: string
  fam_key :: string
  fam_key_type :: string
  fam_key_value :: string

record membership =
  mf_id :: string
  mf_matter :: string
  mf_family :: string
  mf_role :: string
  mf_created :: "string option"

text \<open>The value under \<open>excluded_related_matter_ids\<close> in the data of the namespace \<open>family\<close>: absent, not a list, or a
  list with the text of each entry. A row whose data is not a dictionary has \<open>NoDict\<close>. Other keys are kept and left out.\<close>

datatype exclusion_data = NoDict | NoKey | NoList | Excluded "string list"

record family_state =
  fs_families :: "family list"
  fs_rows :: "membership list"
  fs_excluded :: "(string \<times> exclusion_data) list"
  fs_matters :: matter_db

text \<open>What the permission checks see.\<close>

definition access_db :: "family_state \<Rightarrow> matter_db" where
  "access_db s = (fs_matters s)\<lparr>matter_family := map (\<lambda>r. (mf_family r, mf_matter r)) (fs_rows s)\<rparr>"

text \<open>Random ids and keys, the time as text, the element a set iteration gives first, and the order by creation time
  and id.\<close>

record link_env =
  le_family_id :: string
  le_row_ids :: "string \<times> string"
  le_manual_keys :: "string \<times> string"
  le_now :: string
  le_pick :: "string list \<Rightarrow> string"
  le_by_age :: "membership list \<Rightarrow> membership list"

section \<open>The family of a link\<close>

definition ascii_letter :: "char \<Rightarrow> bool" where
  "ascii_letter c \<longleftrightarrow> (let n = (of_char c :: nat) in (65 \<le> n \<and> n \<le> 90) \<or> (97 \<le> n \<and> n \<le> 122))"

definition extract_base_ref :: "string \<Rightarrow> string" where
  "extract_base_ref v =
     (let raw = strip v in
      if 8 \<le> length raw \<and> list_all is_digit (take 2 raw) \<and> list_all ascii_letter (take 2 (drop 2 raw))
         \<and> list_all is_digit (take 4 (drop 4 raw))
      then upper (take 8 raw) else [])"

definition family_by_key :: "string \<Rightarrow> family list \<Rightarrow> family option" where
  "family_by_key k fams = sql_first (\<lambda>f. fam_key f = k) fams"

definition family_by_id :: "string \<Rightarrow> family list \<Rightarrow> family option" where
  "family_by_id i fams = sql_first (\<lambda>f. fam_id f = i) fams"

definition ensure_unique_family_key :: "link_env \<Rightarrow> string \<Rightarrow> family list \<Rightarrow> string" where
  "ensure_unique_family_key env base_key fams =
     (let key = upper (strip base_key); key = (if key = [] then fst (le_manual_keys env) else key) in
      if family_by_key key fams = None then key
      else case find (\<lambda>c. family_by_key c fams = None) (map (\<lambda>i. key @ ''-'' @ str_nat i) [1..<1000]) of
        Some c \<Rightarrow> c
      | None \<Rightarrow> snd (le_manual_keys env))"

definition new_family :: "link_env \<Rightarrow> string \<Rightarrow> string \<Rightarrow> family list \<Rightarrow> (family \<times> bool) \<times> family list" where
  "new_family env key value_text fams =
     (let f = \<lparr>fam_id = le_family_id env, fam_key = key, fam_key_type = ''manual'', fam_key_value = value_text\<rparr> in
      ((f, True), fams @ [f]))"

fun first_existing :: "family list \<Rightarrow> string list \<Rightarrow> family option" where
  "first_existing fams [] = None"
| "first_existing fams (i # ids) =
     (if i = [] then first_existing fams ids
      else case family_by_id i fams of Some f \<Rightarrow> Some f | None \<Rightarrow> first_existing fams ids)"

text \<open>The family both sides share, if its row is there.\<close>

definition shared_family :: "link_env \<Rightarrow> string list \<Rightarrow> string list \<Rightarrow> family list \<Rightarrow> family option" where
  "shared_family env primary_ids target_ids fams =
     (case filter (\<lambda>f. f \<noteq> [] \<and> f \<in> set target_ids) primary_ids of
        [] \<Rightarrow> None
      | common \<Rightarrow> family_by_id (le_pick env common) fams)"

definition resolve_family_for_link ::
  "link_env \<Rightarrow> string list \<Rightarrow> string list \<Rightarrow> string option \<Rightarrow> bool \<Rightarrow> string \<Rightarrow> string \<Rightarrow> family list
    \<Rightarrow> (family \<times> bool) \<times> family list"
where
  "resolve_family_for_link env primary_ids target_ids explicit_family_key prefer_primary primary_ref target_ref fams =
     (let key = strip (or_empty explicit_family_key) in
      if key \<noteq> [] then
        (case family_by_key key fams of
           Some f \<Rightarrow> ((f, False), fams)
         | None \<Rightarrow> new_family env (ensure_unique_family_key env key fams) key fams)
      else case shared_family env primary_ids target_ids fams of
        Some f \<Rightarrow> ((f, False), fams)
      | None \<Rightarrow>
          (case first_existing fams (if prefer_primary then primary_ids @ target_ids else target_ids @ primary_ids) of
             Some f \<Rightarrow> ((f, False), fams)
           | None \<Rightarrow>
               let base = (if extract_base_ref primary_ref \<noteq> [] then extract_base_ref primary_ref else extract_base_ref target_ref);
                   base_key = (if base \<noteq> [] then base else upper (strip (if primary_ref \<noteq> [] then primary_ref else target_ref))) in
               (case (if base_key \<noteq> [] then family_by_key base_key fams else None) of
                  Some f \<Rightarrow> ((f, False), fams)
                | None \<Rightarrow>
                    let final_key = ensure_unique_family_key env base_key fams in
                    new_family env final_key final_key fams)))"

section \<open>Merging\<close>

text \<open>Each row of a merged family is deleted when its matter is already in the canonical family, and moved otherwise.
  The unit of work writes through the primary key.\<close>

fun merge_rows :: "string \<Rightarrow> membership list \<Rightarrow> string list \<Rightarrow> membership list \<Rightarrow> membership list" where
  "merge_rows canonical [] mids t = t"
| "merge_rows canonical (r # rs) mids t =
     (let mid = strip (mf_matter r) in
      if mid = [] \<or> mid \<in> set mids
      then merge_rows canonical rs mids (sql_delete (\<lambda>x. mf_id x = mf_id r) t)
      else merge_rows canonical rs (mid # mids) (sql_update (\<lambda>x. mf_id x = mf_id r) (\<lambda>x. x\<lparr>mf_family := canonical\<rparr>) t))"

fun dedupe_rows :: "membership list \<Rightarrow> string list \<Rightarrow> membership list \<Rightarrow> nat \<times> membership list" where
  "dedupe_rows [] seen t = (0, t)"
| "dedupe_rows (r # rs) seen t =
     (let mid = strip (mf_matter r) in
      if mid = [] \<or> mid \<in> set seen
      then map_prod Suc id (dedupe_rows rs seen (sql_delete (\<lambda>x. mf_id x = mf_id r) t))
      else dedupe_rows rs (mid # seen) t)"

definition merge_families_into :: "link_env \<Rightarrow> string \<Rightarrow> string list \<Rightarrow> family_state \<Rightarrow> nat \<times> family_state" where
  "merge_families_into env canonical_family_id family_ids_to_merge s =
     (let canonical = strip canonical_family_id;
          merge_ids = filter (\<lambda>f. f \<noteq> [] \<and> f \<noteq> canonical) (map strip family_ids_to_merge) in
      if canonical = [] \<or> merge_ids = [] then (0, s)
      else
        let merged_rows = le_by_age env (filter (\<lambda>r. mf_family r \<in> set merge_ids) (fs_rows s));
            mids = filter (\<lambda>m. m \<noteq> []) (map (\<lambda>r. strip (mf_matter r)) (filter (\<lambda>r. mf_family r = canonical) (fs_rows s)));
            t1 = merge_rows canonical merged_rows mids (fs_rows s);
            (n, t2) = dedupe_rows (le_by_age env (filter (\<lambda>r. mf_family r = canonical) t1)) [] t1 in
        (length merged_rows + n,
         s\<lparr>fs_rows := t2, fs_families := sql_delete (\<lambda>f. fam_id f \<in> set merge_ids) (fs_families s)\<rparr>))"

section \<open>Linking\<close>

datatype family_error = ValueErr string | PermissionErr string

definition add_membership :: "string \<Rightarrow> string \<Rightarrow> string \<Rightarrow> string \<Rightarrow> string \<Rightarrow> membership list \<Rightarrow> membership list" where
  "add_membership new_id mid fid role now t =
     (if list_ex (\<lambda>r. mf_matter r = mid \<and> mf_family r = fid) t then t
      else t @ [\<lparr>mf_id = new_id, mf_matter = mid, mf_family = fid, mf_role = role, mf_created = Some now\<rparr>])"

definition family_ids_of_matter :: "membership list \<Rightarrow> string \<Rightarrow> string list" where
  "family_ids_of_matter t mid = filter (\<lambda>f. f \<noteq> []) (map (\<lambda>r. strip (mf_family r)) (filter (\<lambda>r. mf_matter r = mid) t))"

text \<open>The loop over the set of the two ids is written out, primary first. \<open>actor\<close> is \<open>None\<close> when the call names none.\<close>

definition link_matters_into_family ::
  "perm_env \<Rightarrow> link_env \<Rightarrow> matter_row option \<Rightarrow> matter_row option \<Rightarrow> string option \<Rightarrow> bool \<Rightarrow> string \<Rightarrow> user option option
    \<Rightarrow> family_state \<Rightarrow> (family_error + string \<times> string \<times> bool) \<times> family_state"
where
  "link_matters_into_family e env primary target explicit_family_key prefer_primary link_role actor s =
     (case (primary, target) of
        (Some p, Some t) \<Rightarrow>
          if mr_id p = mr_id t then (Inl (ValueErr ''Cannot link a matter to itself.''), s)
          else if (case actor of None \<Rightarrow> False | Some u \<Rightarrow> \<not> can_access_matter e (access_db s) u (mr_id t) ''edit_case'')
          then (Inl (PermissionErr ''No permission to link target matter.''), s)
          else
            let primary_ids = family_ids_of_matter (fs_rows s) (mr_id p);
                target_ids = family_ids_of_matter (fs_rows s) (mr_id t) in
            (case resolve_family_for_link env primary_ids target_ids explicit_family_key prefer_primary
                    (or_empty (mr_our_ref p)) (or_empty (mr_our_ref t)) (fs_families s) of
               ((f, created), fams) \<Rightarrow>
                 let s1 = snd (merge_families_into env (fam_id f) (primary_ids @ target_ids) (s\<lparr>fs_families := fams\<rparr>));
                     add = (\<lambda>i mid. add_membership i mid (fam_id f) link_role (le_now env)) in
                 (Inr (fam_id f, fam_key f, created),
                  s1\<lparr>fs_rows := add (snd (le_row_ids env)) (mr_id t) (add (fst (le_row_ids env)) (mr_id p) (fs_rows s1))\<rparr>))
      | _ \<Rightarrow> (Inl (ValueErr ''Both matters are required.''), s))"

definition link_matter_to_family_id ::
  "perm_env \<Rightarrow> link_env \<Rightarrow> matter_row option \<Rightarrow> string \<Rightarrow> string \<Rightarrow> user option option \<Rightarrow> family_state
    \<Rightarrow> (family_error + string \<times> string) \<times> family_state"
where
  "link_matter_to_family_id e env matter family_id_text link_role actor s =
     (case matter of
        None \<Rightarrow> (Inl (ValueErr ''Matter is required.''), s)
      | Some m \<Rightarrow>
          let fid = strip family_id_text in
          if fid = [] then (Inl (ValueErr ''family_id is required.''), s)
          else case family_by_id fid (fs_families s) of
            None \<Rightarrow> (Inl (ValueErr ''Family not found.''), s)
          | Some f \<Rightarrow>
              let members = filter (\<lambda>i. i \<noteq> []) (map (\<lambda>r. strip (mf_matter r)) (filter (\<lambda>r. mf_family r = fam_id f) (fs_rows s))) in
              if (case actor of None \<Rightarrow> False | Some u \<Rightarrow> list_ex (\<lambda>i. \<not> can_access_matter e (access_db s) u i ''edit_case'') members)
              then (Inl (PermissionErr ''No permission to link into this family.''), s)
              else (Inr (fam_id f, fam_key f),
                    s\<lparr>fs_rows := add_membership (fst (le_row_ids env)) (mr_id m) (fam_id f) link_role (le_now env) (fs_rows s)\<rparr>))"

section \<open>Components\<close>

definition clean_ids :: "string list \<Rightarrow> string set" where
  "clean_ids xs = set (filter (\<lambda>x. x \<noteq> []) (map strip xs))"

text \<open>At most \<open>n\<close> rounds; \<open>ok\<close> is the condition on the matters that are added.\<close>

fun widen :: "nat \<Rightarrow> (string \<Rightarrow> bool) \<Rightarrow> membership list \<Rightarrow> string set \<times> string set \<Rightarrow> string set \<times> string set" where
  "widen 0 ok t known = known"
| "widen (Suc n) ok t (fams, mids) =
     (let fams1 = fams \<union> clean_ids (map mf_family (filter (\<lambda>r. mf_matter r \<in> mids) t));
          mids1 = mids \<union> clean_ids (map mf_matter (filter (\<lambda>r. mf_family r \<in> fams1 \<and> ok (mf_matter r)) t)) in
      if fams1 = fams \<and> mids1 = mids then (fams, mids) else widen n ok t (fams1, mids1))"

text \<open>The version of the routes, with seeds of both kinds, and the version of the detail page, which adds matters that
  are not deleted.\<close>

definition collect_connected_family_component :: "membership list \<Rightarrow> string list \<Rightarrow> string list \<Rightarrow> string set \<times> string set" where
  "collect_connected_family_component t seed_matter_ids seed_family_ids =
     (if clean_ids seed_matter_ids = {} \<and> clean_ids seed_family_ids = {} then ({}, {})
      else widen 64 (\<lambda>_. True) t (clean_ids seed_family_ids, clean_ids seed_matter_ids))"

definition collect_visible_family_component :: "family_state \<Rightarrow> string \<Rightarrow> string set \<times> string set" where
  "collect_visible_family_component s start_matter_id =
     (if strip start_matter_id = [] then ({}, {})
      else widen 64 (live_matter (fs_matters s)) (fs_rows s) ({}, {strip start_matter_id}))"

section \<open>Exclusions\<close>

fun load_family_excluded_related_ids :: "exclusion_data \<Rightarrow> string \<Rightarrow> string list" where
  "load_family_excluded_related_ids (Excluded raws) self = rev (remdups (rev (filter (\<lambda>i. i \<noteq> [] \<and> i \<noteq> self) (map strip raws))))"
| "load_family_excluded_related_ids _ self = []"

definition upsert_auto_related_exclusion :: "string \<Rightarrow> string \<Rightarrow> (string \<times> exclusion_data) list \<Rightarrow> bool \<times> (string \<times> exclusion_data) list" where
  "upsert_auto_related_exclusion matter_id_text target_text t =
     (let m = strip matter_id_text; x = strip target_text in
      if m = [] \<or> x = [] \<or> m = x then (False, t)
      else
        let t1 = (if map_of t m = None then t @ [(m, NoKey)] else t);
            excluded = load_family_excluded_related_ids (the (map_of t1 m)) m in
        if x \<in> set excluded then (False, t1)
        else (True, AList.update m (Excluded (excluded @ [x])) t1))"

definition remove_auto_related_exclusion :: "string \<Rightarrow> string \<Rightarrow> (string \<times> exclusion_data) list \<Rightarrow> bool \<times> (string \<times> exclusion_data) list" where
  "remove_auto_related_exclusion matter_id_text target_text t =
     (let m = strip matter_id_text; x = strip target_text in
      if m = [] \<or> x = [] \<or> m = x then (False, t)
      else case map_of t m of
        None \<Rightarrow> (False, t)
      | Some NoDict \<Rightarrow> (False, t)
      | Some d \<Rightarrow>
          let excluded = load_family_excluded_related_ids d m; rest = filter (\<lambda>i. i \<noteq> x) excluded in
          if x \<notin> set excluded then (False, t)
          else (True, AList.update m (if rest = [] then NoKey else Excluded rest) t))"

section \<open>Disconnecting\<close>

definition family_size :: "membership list \<Rightarrow> string \<Rightarrow> nat" where
  "family_size t fid = rowcount (\<lambda>r. mf_family r = fid) t"

definition cleanup_degenerate_families :: "string set \<Rightarrow> family_state \<Rightarrow> nat \<times> family_state" where
  "cleanup_degenerate_families family_ids s =
     (let gone = (\<lambda>i. i \<in> family_ids \<and> i \<noteq> [] \<and> family_size (fs_rows s) i < 2) in
      (rowcount (\<lambda>f. gone (fam_id f)) (fs_families s),
       s\<lparr>fs_rows := sql_delete (\<lambda>r. gone (mf_family r)) (fs_rows s),
         fs_families := sql_delete (\<lambda>f. gone (fam_id f)) (fs_families s)\<rparr>))"

text \<open>The part of \<open>family_disconnect\<close> between the checks and the commit: links and families removed, and the two
  exclusions.\<close>

definition disconnect_matter :: "string \<Rightarrow> string \<Rightarrow> family_state \<Rightarrow> (nat \<times> nat \<times> bool) \<times> family_state" where
  "disconnect_matter case_id target_id s =
     (let shared = fst (collect_connected_family_component (fs_rows s) [case_id] [])
                   \<inter> fst (collect_connected_family_component (fs_rows s) [target_id] []);
          hit = (\<lambda>r. mf_matter r = target_id \<and> mf_family r \<in> shared);
          removed = rowcount hit (fs_rows s);
          s1 = s\<lparr>fs_rows := sql_delete hit (fs_rows s)\<rparr>;
          (families_gone, s2) = (if removed = 0 then (0, s1) else cleanup_degenerate_families shared s1);
          (x1, t1) = upsert_auto_related_exclusion case_id target_id (fs_excluded s2);
          (x2, t2) = upsert_auto_related_exclusion target_id case_id t1 in
      ((removed, families_gone, x1 \<or> x2), s2\<lparr>fs_excluded := t2\<rparr>))"


section \<open>The routes\<close>

datatype family_page = NotFound404 | Forbidden403 | Warn string | Danger | LinkedTo string | Disconnected "nat \<times> nat \<times> bool"

definition matter_row_of :: "family_state \<Rightarrow> string \<Rightarrow> matter_row option" where
  "matter_row_of s mid = sql_first (\<lambda>m. mr_id m = mid) (matters (fs_matters s))"

definition target_of_form :: "family_state \<Rightarrow> string \<Rightarrow> string \<Rightarrow> string" where
  "target_of_form s target_ref target_matter_id =
     (if strip target_matter_id = [] \<and> strip target_ref \<noteq> []
      then or_empty (resolve_matter_id_for_case_ref (fs_matters s) (Some (strip target_ref))) else strip target_matter_id)"

text \<open>\<open>commit_fails\<close> says that the database refuses the commit; every exception rolls the session back.\<close>

definition family_link ::
  "perm_env \<Rightarrow> link_env \<Rightarrow> user option \<Rightarrow> bool \<Rightarrow> string \<Rightarrow> string \<Rightarrow> string \<Rightarrow> string \<Rightarrow> family_state \<Rightarrow> family_page \<times> family_state"
where
  "family_link e env u commit_fails case_id form_ref form_target form_key s =
     (if matter_row_of s case_id = None then (NotFound404, s)
      else if \<not> can_access_matter e (access_db s) u case_id ''edit_case'' then (Forbidden403, s)
      else
        let target_id = target_of_form s form_ref form_target in
        if strip form_ref = [] \<and> target_id = [] then (Warn ''Link Our Ref Input .'', s)
        else if target_id = [] then (Warn '' Ref not found.'', s)
        else if target_id = case_id then (Warn '' Matter Link  none.'', s)
        else if \<not> can_access_matter e (access_db s) u target_id ''edit_case'' then (Forbidden403, s)
        else if matter_row_of s target_id = None then (Danger, s)
        else
          let key = strip form_key in
          case link_matters_into_family e env (matter_row_of s case_id) (matter_row_of s target_id)
                 (if key = [] then None else Some key) True ''manual'' (Some u) s of
            (Inl (ValueErr msg), _) \<Rightarrow> (Warn msg, s)
          | (Inl (PermissionErr msg), _) \<Rightarrow> (Warn msg, s)
          | (Inr (fid, fkey, created), s1) \<Rightarrow>
              if commit_fails then (Danger, s)
              else (LinkedTo fkey,
                    s1\<lparr>fs_excluded := snd (remove_auto_related_exclusion target_id case_id
                         (snd (remove_auto_related_exclusion case_id target_id (fs_excluded s1))))\<rparr>))"

definition family_disconnect ::
  "perm_env \<Rightarrow> user option \<Rightarrow> bool \<Rightarrow> string \<Rightarrow> string \<Rightarrow> string \<Rightarrow> family_state \<Rightarrow> family_page \<times> family_state"
where
  "family_disconnect e u commit_fails case_id form_ref form_target s =
     (if matter_row_of s case_id = None then (NotFound404, s)
      else if \<not> can_access_matter e (access_db s) u case_id ''edit_case'' then (Forbidden403, s)
      else
        let target_id = target_of_form s form_ref form_target in
        if target_id = [] then (Warn ''Clear Our Ref not found.'', s)
        else if target_id = case_id then (Warn '' Matter Clear  none.'', s)
        else if matter_row_of s target_id = None then (NotFound404, s)
        else if \<not> can_access_matter e (access_db s) u target_id ''edit_case'' then (Forbidden403, s)
        else if commit_fails then (Danger, s)
        else case disconnect_matter case_id target_id s of (done, s1) \<Rightarrow> (Disconnected done, s1))"

section \<open>Merging rows\<close>

definition clean_id :: "string \<Rightarrow> bool" where
  "clean_id x \<longleftrightarrow> strip x = x \<and> x \<noteq> []"

abbreviation (input) move_to :: "string \<Rightarrow> membership \<Rightarrow> membership" where
  "move_to f r \<equiv> r\<lparr>mf_family := f\<rparr>"

lemma set_delete_row:
  assumes "distinct (map mf_id t)" and "r \<in> set t"
  shows "set (sql_delete (\<lambda>x. mf_id x = mf_id r) t) = set t - {r}"
  using assms by (auto simp: sql_delete_def distinct_map dest: inj_onD)

lemma set_update_row:
  assumes "distinct (map mf_id t)" and "r \<in> set t"
  shows "set (sql_update (\<lambda>x. mf_id x = mf_id r) g t) = insert (g r) (set t - {r})"
proof -
  have "{x \<in> set t. mf_id x = mf_id r} = {r}" "{x \<in> set t. mf_id x \<noteq> mf_id r} = set t - {r}"
    using assms by (auto simp: distinct_map dest: inj_onD)
  then show ?thesis by (simp add: set_sql_update)
qed

lemma merge_rows_spec:
  assumes "distinct (map mf_id t)" and "set rs \<subseteq> set t" and "distinct rs" and "\<And>r. r \<in> set rs \<Longrightarrow> clean_id (mf_matter r)"
  shows "distinct (map mf_id (merge_rows can rs mids t))
    \<and> (\<exists>K \<subseteq> set rs. set (merge_rows can rs mids t) = (set t - set rs) \<union> move_to can ` K
         \<and> inj_on mf_matter K \<and> mf_matter ` K = mf_matter ` set rs - set mids)"
  using assms
proof (induction rs arbitrary: mids t)
  case (Cons r rs)
  have r: "strip (mf_matter r) = mf_matter r" "mf_matter r \<noteq> []" "r \<in> set t" "r \<notin> set rs"
    using Cons.prems by (auto simp: clean_id_def)
  have ids: "mf_id x \<noteq> mf_id r" if "x \<in> set rs" for x
    using that r Cons.prems(1,2) by (auto simp: distinct_map dest: inj_onD)
  show ?case
  proof (cases "mf_matter r \<in> set mids")
    case True
    let ?t = "sql_delete (\<lambda>x. mf_id x = mf_id r) t"
    have s: "set ?t = set t - {r}" by (rule set_delete_row) (use Cons.prems(1) r(3) in auto)
    have "distinct (map mf_id ?t)" by (rule distinct_key_sql_delete) (rule Cons.prems(1))
    moreover have "set rs \<subseteq> set ?t" using s r(4) Cons.prems(2) by auto
    ultimately obtain K where K: "K \<subseteq> set rs" "set (merge_rows can rs mids ?t) = (set ?t - set rs) \<union> move_to can ` K"
        "inj_on mf_matter K" "mf_matter ` K = mf_matter ` set rs - set mids" "distinct (map mf_id (merge_rows can rs mids ?t))"
      using Cons.IH [of ?t mids] Cons.prems(3,4) by auto
    have "(set ?t - set rs) = set t - set (r # rs)" using s by auto
    moreover have "mf_matter ` K = mf_matter ` set (r # rs) - set mids" using K(4) True by auto
    moreover have "merge_rows can (r # rs) mids t = merge_rows can rs mids ?t" using True r(1) by (simp add: Let_def)
    moreover have "K \<subseteq> set (r # rs)" using K(1) by auto
    ultimately show ?thesis using K(2,3,5) by metis
  next
    case False
    let ?t = "sql_update (\<lambda>x. mf_id x = mf_id r) (move_to can) t"
    have s: "set ?t = insert (move_to can r) (set t - {r})" by (rule set_update_row) (use Cons.prems(1) r(3) in auto)
    have "distinct (map mf_id ?t)" using Cons.prems(1) by (simp add: sql_update_keys)
    moreover have "set rs \<subseteq> set ?t" using s r(4) Cons.prems(2) by auto
    ultimately obtain K where K: "K \<subseteq> set rs" "set (merge_rows can rs (mf_matter r # mids) ?t) = (set ?t - set rs) \<union> move_to can ` K"
        "inj_on mf_matter K" "mf_matter ` K = mf_matter ` set rs - set (mf_matter r # mids)"
        "distinct (map mf_id (merge_rows can rs (mf_matter r # mids) ?t))"
      using Cons.IH [of ?t "mf_matter r # mids"] Cons.prems(3,4) by auto
    have "move_to can r \<notin> set rs" using ids [of "move_to can r"] by auto
    then have "(set ?t - set rs) \<union> move_to can ` K = (set t - set (r # rs)) \<union> move_to can ` insert r K" using s by auto
    moreover have "inj_on mf_matter (insert r K)" "mf_matter ` insert r K = mf_matter ` set (r # rs) - set mids"
      using K(3,4) False by auto
    moreover have "merge_rows can (r # rs) mids t = merge_rows can rs (mf_matter r # mids) ?t" using False r(1,2) by (simp add: Let_def)
    moreover have "insert r K \<subseteq> set (r # rs)" using K(1) by auto
    ultimately show ?thesis using K(2,5) by metis
  qed
qed auto

lemma dedupe_rows_spec:
  assumes "distinct (map mf_id t)" and "set rs \<subseteq> set t" and "distinct rs" and "\<And>r. r \<in> set rs \<Longrightarrow> clean_id (mf_matter r)"
  shows "distinct (map mf_id (snd (dedupe_rows rs seen t)))
    \<and> (\<exists>D \<subseteq> set rs. set (snd (dedupe_rows rs seen t)) = set t - D
         \<and> inj_on mf_matter (set rs - D) \<and> mf_matter ` (set rs - D) = mf_matter ` set rs - set seen)"
  using assms
proof (induction rs arbitrary: seen t)
  case (Cons r rs)
  have r: "strip (mf_matter r) = mf_matter r" "mf_matter r \<noteq> []" "r \<in> set t" "r \<notin> set rs"
    using Cons.prems by (auto simp: clean_id_def)
  show ?case
  proof (cases "mf_matter r \<in> set seen")
    case True
    let ?t = "sql_delete (\<lambda>x. mf_id x = mf_id r) t"
    have s: "set ?t = set t - {r}" by (rule set_delete_row) (use Cons.prems(1) r(3) in auto)
    have "distinct (map mf_id ?t)" by (rule distinct_key_sql_delete) (rule Cons.prems(1))
    moreover have "set rs \<subseteq> set ?t" using s r(4) Cons.prems(2) by auto
    ultimately obtain D where D: "D \<subseteq> set rs" "set (snd (dedupe_rows rs seen ?t)) = set ?t - D"
        "inj_on mf_matter (set rs - D)" "mf_matter ` (set rs - D) = mf_matter ` set rs - set seen"
        "distinct (map mf_id (snd (dedupe_rows rs seen ?t)))"
      using Cons.IH [of ?t seen] Cons.prems(3,4) by auto
    have "set (r # rs) - insert r D = set rs - D" using r(4) by auto
    moreover have "mf_matter ` (set rs - D) = mf_matter ` set (r # rs) - set seen" using D(4) True by auto
    moreover have "snd (dedupe_rows (r # rs) seen t) = snd (dedupe_rows rs seen ?t)" using True r(1) by (simp add: Let_def)
    moreover have "insert r D \<subseteq> set (r # rs)" "set ?t - D = set t - insert r D" using D(1) s by auto
    ultimately show ?thesis using D(2,3,5) by metis
  next
    case False
    obtain D where D: "D \<subseteq> set rs" "set (snd (dedupe_rows rs (mf_matter r # seen) t)) = set t - D"
        "inj_on mf_matter (set rs - D)" "mf_matter ` (set rs - D) = mf_matter ` set rs - set (mf_matter r # seen)"
        "distinct (map mf_id (snd (dedupe_rows rs (mf_matter r # seen) t)))"
      using Cons.IH [of t "mf_matter r # seen"] Cons.prems by auto
    have e: "set (r # rs) - D = insert r (set rs - D)" using r(4) D(1) by auto
    have "inj_on mf_matter (set (r # rs) - D)" "mf_matter ` (set (r # rs) - D) = mf_matter ` set (r # rs) - set seen"
      unfolding e using D(3,4) False by auto
    moreover have "dedupe_rows (r # rs) seen t = dedupe_rows rs (mf_matter r # seen) t" using False r(1,2) by (simp add: Let_def)
    moreover have "D \<subseteq> set (r # rs)" using D(1) by auto
    ultimately show ?thesis using D(2,5) by metis
  qed
qed auto


definition members :: "membership list \<Rightarrow> string \<Rightarrow> string set" where
  "members t f = mf_matter ` {r \<in> set t. mf_family r = f}"

abbreviation (input) rows_of :: "membership list \<Rightarrow> string \<Rightarrow> membership set" where
  "rows_of t f \<equiv> {r \<in> set t. mf_family r = f}"

definition clean_rows :: "membership list \<Rightarrow> bool" where
  "clean_rows t \<longleftrightarrow> distinct (map mf_id t) \<and> (\<forall>r \<in> set t. clean_id (mf_matter r) \<and> clean_id (mf_family r))"

definition age_order :: "link_env \<Rightarrow> bool" where
  "age_order env \<longleftrightarrow> (\<forall>rs. mset (le_by_age env rs) = mset rs)"

lemma by_age_facts:
  assumes "age_order env"
  shows "set (le_by_age env rs) = set rs" and "distinct (le_by_age env rs) = distinct rs" and "length (le_by_age env rs) = length rs"
  using assms unfolding age_order_def by (metis set_mset_mset, metis mset_eq_imp_distinct_iff, metis size_mset)

lemma distinct_rows: "distinct (map mf_id t) \<Longrightarrow> distinct (filter p t)"
  by (simp add: distinct_map)

text \<open>What a merge leaves of each family.\<close>

definition merged_rows_spec :: "string \<Rightarrow> string set \<Rightarrow> membership list \<Rightarrow> membership list \<Rightarrow> bool" where
  "merged_rows_spec can M t t' \<longleftrightarrow>
     clean_rows t' \<and> (\<forall>g. g \<notin> insert can M \<longrightarrow> rows_of t' g = rows_of t g) \<and> (\<forall>g \<in> M - {can}. rows_of t' g = {})
     \<and> members t' can = (\<Union>g \<in> insert can M. members t g)
     \<and> (inj_on mf_matter (rows_of t can) \<or> M - {can} \<noteq> {} \<longrightarrow> inj_on mf_matter (rows_of t' can))
     \<and> mf_id ` set t' \<subseteq> mf_id ` set t"

lemma merge_step_spec:
  assumes t: "clean_rows t" and can: "clean_id can" and age: "age_order env" and M: "can \<notin> M"
  defines "mids \<equiv> filter (\<lambda>m. m \<noteq> []) (map (\<lambda>r. strip (mf_matter r)) (filter (\<lambda>r. mf_family r = can) t))"
  defines "t1 \<equiv> merge_rows can (le_by_age env (filter (\<lambda>r. mf_family r \<in> M) t)) mids t"
  shows "clean_rows t1" and "\<And>g. g \<notin> insert can M \<Longrightarrow> rows_of t1 g = rows_of t g" and "\<And>g. g \<in> M \<Longrightarrow> rows_of t1 g = {}"
    and "members t1 can = (\<Union>g \<in> insert can M. members t g)" and "mf_id ` set t1 \<subseteq> mf_id ` set t"
proof -
  let ?rs = "filter (\<lambda>r. mf_family r \<in> M) t"
  have mids: "set mids = members t can" using t by (force simp: mids_def members_def clean_rows_def clean_id_def)
  obtain K where K: "K \<subseteq> set ?rs" "set t1 = (set t - set ?rs) \<union> move_to can ` K" "inj_on mf_matter K"
      "mf_matter ` K = mf_matter ` set ?rs - set mids" and d: "distinct (map mf_id t1)"
    using merge_rows_spec [of t "le_by_age env ?rs" can mids] t distinct_rows [of t "\<lambda>r. mf_family r \<in> M"]
    unfolding t1_def clean_rows_def by_age_facts [OF age] by auto
  have can1: "rows_of t1 can = rows_of t can \<union> move_to can ` K" using K(2) M by auto
  show "clean_rows t1" using t can d K(1,2) by (auto simp: clean_rows_def)
  show "rows_of t1 g = rows_of t g" if "g \<notin> insert can M" for g using that K(2) by auto
  show "rows_of t1 g = {}" if "g \<in> M" for g using that K(2) M by auto
  show "members t1 can = (\<Union>g \<in> insert can M. members t g)"
  proof -
    have "mf_matter ` (move_to can ` K) = mf_matter ` K" by (auto simp: image_image)
    then have "members t1 can = members t can \<union> mf_matter ` set ?rs"
      unfolding members_def can1 image_Un using K(4) mids by (auto simp: members_def)
    also have "mf_matter ` set ?rs = (\<Union>g \<in> M. members t g)" by (auto simp: members_def)
    finally show ?thesis by auto
  qed
  show "mf_id ` set t1 \<subseteq> mf_id ` set t" using K(1,2) by (auto simp: image_image)
qed

lemma merge_families_spec:
  assumes t: "clean_rows (fs_rows s)" and can: "clean_id can" and age: "age_order env" and ids: "\<And>i. i \<in> set ids \<Longrightarrow> clean_id i"
  defines "s' \<equiv> snd (merge_families_into env can ids s)"
  shows "merged_rows_spec can (set ids) (fs_rows s) (fs_rows s')
    \<and> fs_families s' = filter (\<lambda>f. fam_id f \<notin> set ids - {can}) (fs_families s)
    \<and> fs_excluded s' = fs_excluded s \<and> fs_matters s' = fs_matters s"
proof -
  let ?m = "filter (\<lambda>f. f \<noteq> [] \<and> f \<noteq> can) (map strip ids)"
  have "map strip ids = ids" using ids by (auto simp: clean_id_def intro: map_idI)
  then have m: "set ?m = set ids - {can}" using ids by (auto simp: clean_id_def)
  have c: "strip can = can" "can \<noteq> []" using can by (auto simp: clean_id_def)
  show ?thesis
  proof (cases "?m = []")
    case True
    then have s: "s' = s" using c unfolding s'_def merge_families_into_def by (simp add: Let_def)
    have e: "set ids - {can} = {}" "insert can (set ids) = {can}" using True m by auto
    show ?thesis unfolding merged_rows_spec_def s e using t by simp
  next
    case False
    let ?rs = "le_by_age env (filter (\<lambda>r. mf_family r \<in> set ?m) (fs_rows s))"
    let ?mids = "filter (\<lambda>m. m \<noteq> []) (map (\<lambda>r. strip (mf_matter r)) (filter (\<lambda>r. mf_family r = can) (fs_rows s)))"
    let ?t1 = "merge_rows can ?rs ?mids (fs_rows s)"
    let ?cs = "filter (\<lambda>r. mf_family r = can) ?t1"
    have s': "s' = s\<lparr>fs_rows := snd (dedupe_rows (le_by_age env ?cs) [] ?t1), fs_families := sql_delete (\<lambda>f. fam_id f \<in> set ?m) (fs_families s)\<rparr>"
      using False c unfolding s'_def merge_families_into_def by (simp add: Let_def split: prod.splits)
    have "can \<notin> set ?m" by auto
    note t1 = merge_step_spec [OF t can age this]
    obtain D where D: "D \<subseteq> set ?cs" "set (fs_rows s') = set ?t1 - D" "inj_on mf_matter (set ?cs - D)" "mf_matter ` (set ?cs - D) = mf_matter ` set ?cs"
        and d: "distinct (map mf_id (fs_rows s'))"
      using dedupe_rows_spec [of ?t1 "le_by_age env ?cs" "[]"] t1(1) distinct_rows [of ?t1 "\<lambda>r. mf_family r = can"]
      unfolding s' clean_rows_def by_age_facts [OF age] by auto
    have cans: "rows_of (fs_rows s') can = set ?cs - D" using D(1,2) by auto
    have other: "rows_of (fs_rows s') g = rows_of ?t1 g" if "g \<noteq> can" for g using that D(1,2) by auto
    have ins: "insert can (set ?m) = insert can (set ids)" using m by auto
    have "clean_rows (fs_rows s')" using t1(1) d D(2) by (auto simp: clean_rows_def)
    moreover have "members (fs_rows s') can = (\<Union>g \<in> insert can (set ids). members (fs_rows s) g)"
    proof -
      have "members (fs_rows s') can = members ?t1 can" unfolding members_def cans D(4) by simp
      with t1(4) show ?thesis unfolding ins by simp
    qed
    moreover have "inj_on mf_matter (rows_of (fs_rows s') can)" unfolding cans by (rule D(3))
    moreover have "mf_id ` set (fs_rows s') \<subseteq> mf_id ` set (fs_rows s)" using t1(5) D(2) by blast
    moreover have "rows_of (fs_rows s') g = rows_of (fs_rows s) g" if "g \<notin> insert can (set ids)" for g
    proof -
      have "rows_of ?t1 g = rows_of (fs_rows s) g" using that t1(2) [of g] unfolding ins by blast
      with other [of g] that show ?thesis by simp
    qed
    moreover have "rows_of (fs_rows s') g = {}" if "g \<in> set ids - {can}" for g
    proof -
      have "rows_of ?t1 g = {}" using that t1(3) m by blast
      with other [of g] that show ?thesis by simp
    qed
    ultimately have "merged_rows_spec can (set ids) (fs_rows s) (fs_rows s')"
      unfolding merged_rows_spec_def by (intro conjI allI impI ballI) assumption+
    moreover have "fs_families s' = filter (\<lambda>f. fam_id f \<notin> set ids - {can}) (fs_families s)" unfolding s' m by (simp add: sql_delete_def)
    ultimately show ?thesis by (simp add: s')
  qed
qed


section \<open>Well-formed tables\<close>

definition family_wf :: "family_state \<Rightarrow> bool" where
  "family_wf s \<longleftrightarrow>
     clean_rows (fs_rows s) \<and> (\<forall>g. inj_on mf_matter (rows_of (fs_rows s) g))
     \<and> distinct (map fam_id (fs_families s)) \<and> distinct (map fam_key (fs_families s)) \<and> (\<forall>f \<in> set (fs_families s). clean_id (fam_id f))
     \<and> mf_family ` set (fs_rows s) \<subseteq> fam_id ` set (fs_families s)"

definition fresh_env :: "link_env \<Rightarrow> family_state \<Rightarrow> bool" where
  "fresh_env env s \<longleftrightarrow>
     clean_id (le_family_id env) \<and> le_family_id env \<notin> fam_id ` set (fs_families s)
     \<and> fst (le_row_ids env) \<noteq> snd (le_row_ids env) \<and> {fst (le_row_ids env), snd (le_row_ids env)} \<inter> mf_id ` set (fs_rows s) = {}
     \<and> {fst (le_manual_keys env), snd (le_manual_keys env)} \<inter> fam_key ` set (fs_families s) = {} \<and> age_order env"

lemma wf_members_empty: "family_wf s \<Longrightarrow> g \<notin> fam_id ` set (fs_families s) \<Longrightarrow> rows_of (fs_rows s) g = {}"
  by (auto simp: family_wf_def)

lemma ensure_unique_fresh:
  assumes "{fst (le_manual_keys env), snd (le_manual_keys env)} \<inter> fam_key ` set fams = {}"
  shows "ensure_unique_family_key env k fams \<notin> fam_key ` set fams"
proof -
  have n: "family_by_key c fams = None \<Longrightarrow> c \<notin> fam_key ` set fams" for c by (auto simp: family_by_key_def)
  have "c \<notin> fam_key ` set fams" if "find (\<lambda>c. family_by_key c fams = None) cs = Some c" for c cs
    using that n by (auto simp: find_Some_iff)
  then show ?thesis using assms n unfolding ensure_unique_family_key_def Let_def by (auto split: option.split)
qed

lemma first_existing_in: "first_existing fams ids = Some f \<Longrightarrow> f \<in> set fams"
  by (induction ids) (auto simp: family_by_id_def dest: sql_first_Some split: if_splits option.splits)

lemma shared_family_in: "shared_family env ps ts fams = Some f \<Longrightarrow> f \<in> set fams"
  by (auto simp: shared_family_def family_by_id_def dest: sql_first_Some split: list.splits)

lemma family_by_key_in: "family_by_key k fams = Some f \<Longrightarrow> f \<in> set fams"
  by (auto simp: family_by_key_def dest: sql_first_Some)

lemma resolve_family_cases:
  assumes "resolve_family_for_link env ps ts k pref pr tr fams = ((f, created), fams')"
    and "{fst (le_manual_keys env), snd (le_manual_keys env)} \<inter> fam_key ` set fams = {}"
  shows "f \<in> set fams \<and> fams' = fams \<and> \<not> created
    \<or> created \<and> fams' = fams @ [f] \<and> fam_id f = le_family_id env \<and> fam_key f \<notin> fam_key ` set fams"
proof -
  have new: "fams' = fams @ [f] \<and> created \<and> fam_id f = le_family_id env \<and> fam_key f \<notin> fam_key ` set fams"
    if "new_family env (ensure_unique_family_key env x fams) y fams = ((f, created), fams')" for x y
    using that ensure_unique_fresh [OF assms(2), of x] by (auto simp: new_family_def Let_def)
  show ?thesis
    using assms(1) unfolding resolve_family_for_link_def Let_def
    by (auto split: if_splits option.splits dest: new family_by_key_in shared_family_in first_existing_in)
qed

lemma family_ids_of_matter_set:
  "clean_rows t \<Longrightarrow> set (family_ids_of_matter t m) = {g. m \<in> members t g}"
  by (force simp: family_ids_of_matter_def members_def clean_rows_def clean_id_def)

lemma family_ids_of_matter_clean: "clean_rows t \<Longrightarrow> i \<in> set (family_ids_of_matter t m) \<Longrightarrow> clean_id i"
  by (auto simp: family_ids_of_matter_def clean_rows_def clean_id_def)

section \<open>One membership\<close>

lemma add_membership_rows:
  "rows_of (add_membership i m f role now t) g =
     rows_of t g \<union> (if g = f \<and> m \<notin> members t f then {\<lparr>mf_id = i, mf_matter = m, mf_family = f, mf_role = role, mf_created = Some now\<rparr>} else {})"
  by (auto simp: add_membership_def members_def list_ex_iff)

lemma add_membership_members:
  "members (add_membership i m f role now t) g = members t g \<union> (if g = f then {m} else {})"
  unfolding members_def add_membership_rows by (auto simp: members_def)

lemma add_membership_clean:
  assumes "clean_rows t" and "clean_id m" and "clean_id f" and "i \<notin> mf_id ` set t"
  shows "clean_rows (add_membership i m f role now t)"
  using assms by (auto simp: clean_rows_def add_membership_def)

lemma add_membership_inj:
  assumes "inj_on mf_matter (rows_of t g)"
  shows "inj_on mf_matter (rows_of (add_membership i m f role now t) g)"
  using assms unfolding add_membership_rows by (auto simp: members_def)

lemma add_membership_ids: "mf_id ` set (add_membership i m f role now t) \<subseteq> insert i (mf_id ` set t)"
  by (auto simp: add_membership_def)

lemma add_membership_families: "mf_family ` set (add_membership i m f role now t) \<subseteq> insert f (mf_family ` set t)"
  by (auto simp: add_membership_def)

lemmas add_membership_facts = add_membership_members add_membership_clean add_membership_inj add_membership_ids add_membership_families

section \<open>Linking\<close>

lemma link_success:
  assumes "link_matters_into_family e env (Some p) (Some t) k pref role actor s = (Inr (fid, key, created), s')"
  obtains f fams s1 where "mr_id p \<noteq> mr_id t" "fid = fam_id f" "key = fam_key f"
    "resolve_family_for_link env (family_ids_of_matter (fs_rows s) (mr_id p)) (family_ids_of_matter (fs_rows s) (mr_id t)) k pref
       (or_empty (mr_our_ref p)) (or_empty (mr_our_ref t)) (fs_families s) = ((f, created), fams)"
    "s1 = snd (merge_families_into env fid (family_ids_of_matter (fs_rows s) (mr_id p) @ family_ids_of_matter (fs_rows s) (mr_id t)) (s\<lparr>fs_families := fams\<rparr>))"
    "s' = s1\<lparr>fs_rows := add_membership (snd (le_row_ids env)) (mr_id t) fid role (le_now env)
        (add_membership (fst (le_row_ids env)) (mr_id p) fid role (le_now env) (fs_rows s1))\<rparr>"
  using assms by (auto simp: link_matters_into_family_def Let_def split: if_splits prod.splits)


lemma wf_facts:
  assumes "family_wf s"
  shows "clean_rows (fs_rows s)" and "inj_on mf_matter (rows_of (fs_rows s) g)"
    and "distinct (map fam_id (fs_families s))" and "distinct (map fam_key (fs_families s))"
    and "f \<in> set (fs_families s) \<Longrightarrow> clean_id (fam_id f)" and "r \<in> set (fs_rows s) \<Longrightarrow> mf_family r \<in> fam_id ` set (fs_families s)"
  using assms by (auto simp: family_wf_def)

lemma resolve_wf:
  assumes "family_wf s" and "fresh_env env s"
    and "resolve_family_for_link env ps ts k pref pr tr (fs_families s) = ((f, created), fams)"
  shows "f \<in> set fams" and "set (fs_families s) \<subseteq> set fams" and "family_wf (s\<lparr>fs_families := fams\<rparr>)"
  using resolve_family_cases [OF assms(3)] assms(1,2) by (auto simp: family_wf_def fresh_env_def)

lemma merge_wf:
  assumes wf: "family_wf s" and f: "can \<in> fam_id ` set (fs_families s)" and age: "age_order env" and ids: "\<And>i. i \<in> set ids \<Longrightarrow> clean_id i"
  shows "family_wf (snd (merge_families_into env can ids s))"
proof -
  let ?s = "snd (merge_families_into env can ids s)"
  have "clean_id can" using f wf by (auto dest: wf_facts)
  note spec = merge_families_spec [OF wf_facts(1) [OF wf] this age ids]
  have rows: "merged_rows_spec can (set ids) (fs_rows s) (fs_rows ?s)"
    and fams: "fs_families ?s = filter (\<lambda>f. fam_id f \<notin> set ids - {can}) (fs_families s)" using spec by auto
  have kept: "rows_of (fs_rows ?s) g = rows_of (fs_rows s) g \<or> rows_of (fs_rows ?s) g = {} \<and> g \<in> set ids" if "g \<noteq> can" for g
    using rows that unfolding merged_rows_spec_def by (cases "g \<in> set ids") simp_all
  have fam: "g \<in> fam_id ` set (fs_families ?s)" if "g \<in> fam_id ` set (fs_families s)" "g \<notin> set ids - {can}" for g
    using that by (auto simp: fams)
  have "inj_on mf_matter (rows_of (fs_rows ?s) g)" for g
  proof (cases "g = can")
    case True
    with rows wf_facts(2) [OF wf] show ?thesis by (simp add: merged_rows_spec_def)
  next
    case False
    with kept [OF False] wf_facts(2) [OF wf, of g] show ?thesis by (elim disjE conjE) (simp_all only: inj_on_empty)
  qed
  moreover have "mf_family r \<in> fam_id ` set (fs_families ?s)" if "r \<in> set (fs_rows ?s)" for r
  proof (cases "mf_family r = can")
    case True
    then show ?thesis using fam [OF f] by simp
  next
    case False
    have "r \<in> rows_of (fs_rows ?s) (mf_family r)" using that by simp
    moreover have "mf_family r \<notin> set ids"
    proof
      assume "mf_family r \<in> set ids"
      then have "rows_of (fs_rows ?s) (mf_family r) = {}" using rows False by (simp add: merged_rows_spec_def)
      with that show False by auto
    qed
    ultimately have "r \<in> rows_of (fs_rows s) (mf_family r)" using kept [OF False] by (elim disjE conjE) (simp_all only: empty_iff)
    then have "r \<in> set (fs_rows s)" by simp
    then show ?thesis using fam wf_facts(6) [OF wf] \<open>mf_family r \<notin> set ids\<close> by auto
  qed
  ultimately show ?thesis
    using rows wf_facts(3-5) [OF wf] by (auto simp: family_wf_def fams distinct_map_filter merged_rows_spec_def)
qed

lemma add_membership_wf:
  assumes "family_wf s" and "fid \<in> fam_id ` set (fs_families s)" and "clean_id m" and "i \<notin> mf_id ` set (fs_rows s)"
  shows "family_wf (s\<lparr>fs_rows := add_membership i m fid role now (fs_rows s)\<rparr>)"
proof -
  have "clean_id fid" using assms(1,2) by (auto dest: wf_facts)
  then have "clean_rows (add_membership i m fid role now (fs_rows s))" by (intro add_membership_clean wf_facts assms)
  moreover have "inj_on mf_matter (rows_of (add_membership i m fid role now (fs_rows s)) g)" for g by (intro add_membership_inj wf_facts assms)
  moreover have "mf_family ` set (add_membership i m fid role now (fs_rows s)) \<subseteq> fam_id ` set (fs_families s)"
  proof (rule subset_trans [OF add_membership_families])
    show "insert fid (mf_family ` set (fs_rows s)) \<subseteq> fam_id ` set (fs_families s)" using assms(1,2) by (simp add: family_wf_def)
  qed
  ultimately show ?thesis using assms(1) by (simp add: family_wf_def)
qed

lemma link_spec:
  assumes wf: "family_wf s" and env: "fresh_env env s" and p: "clean_id (mr_id p)" and t: "clean_id (mr_id t)"
    and link: "link_matters_into_family e env (Some p) (Some t) k pref role actor s = (Inr (fid, key, created), s')"
  defines "M \<equiv> {g. mr_id p \<in> members (fs_rows s) g \<or> mr_id t \<in> members (fs_rows s) g}"
  shows "members (fs_rows s') fid = insert (mr_id p) (insert (mr_id t) (\<Union>g \<in> insert fid M. members (fs_rows s) g))"
    and "\<And>g. g \<notin> insert fid M \<Longrightarrow> rows_of (fs_rows s') g = rows_of (fs_rows s) g"
    and "\<And>g. g \<in> M - {fid} \<Longrightarrow> rows_of (fs_rows s') g = {} \<and> g \<notin> fam_id ` set (fs_families s')"
    and "\<exists>f \<in> set (fs_families s'). fam_id f = fid \<and> fam_key f = key"
    and "family_wf s'" and "fs_matters s' = fs_matters s" and "fs_excluded s' = fs_excluded s"
proof -
  let ?ids = "family_ids_of_matter (fs_rows s) (mr_id p) @ family_ids_of_matter (fs_rows s) (mr_id t)"
  obtain f fams s1 where fid: "fid = fam_id f" "key = fam_key f"
    and res: "resolve_family_for_link env (family_ids_of_matter (fs_rows s) (mr_id p)) (family_ids_of_matter (fs_rows s) (mr_id t)) k pref
       (or_empty (mr_our_ref p)) (or_empty (mr_our_ref t)) (fs_families s) = ((f, created), fams)"
    and s1: "s1 = snd (merge_families_into env fid ?ids (s\<lparr>fs_families := fams\<rparr>))"
    and s': "s' = s1\<lparr>fs_rows := add_membership (snd (le_row_ids env)) (mr_id t) fid role (le_now env)
        (add_membership (fst (le_row_ids env)) (mr_id p) fid role (le_now env) (fs_rows s1))\<rparr>"
    by (rule link_success [OF link]) blast
  note fams = resolve_wf [OF wf env res]
  have idM: "set ?ids = M" using family_ids_of_matter_set [OF wf_facts(1) [OF wf]] by (auto simp: M_def)
  have can: "clean_id fid" and age: "age_order env" and c: "clean_rows (fs_rows (s\<lparr>fs_families := fams\<rparr>))"
    using fams fid(1) env wf_facts(5) [OF fams(3)] wf_facts(1) [OF wf] by (auto simp: fresh_env_def)
  have cl: "clean_id i" if "i \<in> set ?ids" for i using that family_ids_of_matter_clean [OF wf_facts(1) [OF wf]] by auto
  have "merged_rows_spec fid (set ?ids) (fs_rows (s\<lparr>fs_families := fams\<rparr>)) (fs_rows s1)
      \<and> fs_families s1 = filter (\<lambda>f. fam_id f \<notin> set ?ids - {fid}) (fs_families (s\<lparr>fs_families := fams\<rparr>))
      \<and> fs_excluded s1 = fs_excluded (s\<lparr>fs_families := fams\<rparr>) \<and> fs_matters s1 = fs_matters (s\<lparr>fs_families := fams\<rparr>)"
    unfolding s1 by (rule merge_families_spec [OF c can age]) (rule cl)
  then have spec: "merged_rows_spec fid M (fs_rows s) (fs_rows s1)" "fs_families s1 = filter (\<lambda>f. fam_id f \<notin> M - {fid}) fams"
    "fs_excluded s1 = fs_excluded s" "fs_matters s1 = fs_matters s"
    unfolding idM by simp_all
  let ?t1 = "add_membership (fst (le_row_ids env)) (mr_id p) fid role (le_now env) (fs_rows s1)"
  have rows': "fs_rows s' = add_membership (snd (le_row_ids env)) (mr_id t) fid role (le_now env) ?t1" by (simp add: s')
  show "members (fs_rows s') fid = insert (mr_id p) (insert (mr_id t) (\<Union>g \<in> insert fid M. members (fs_rows s) g))"
    using spec(1) unfolding rows' add_membership_members merged_rows_spec_def by auto
  show "rows_of (fs_rows s') g = rows_of (fs_rows s) g" if "g \<notin> insert fid M" for g
    using that spec(1) unfolding rows' add_membership_rows merged_rows_spec_def by simp
  show "rows_of (fs_rows s') g = {} \<and> g \<notin> fam_id ` set (fs_families s')" if "g \<in> M - {fid}" for g
    using that spec(1) unfolding rows' add_membership_rows merged_rows_spec_def by (auto simp: s' spec(2))
  show "\<exists>f \<in> set (fs_families s'). fam_id f = fid \<and> fam_key f = key" using fams(1) fid by (auto simp: s' spec(2))
  have fin: "fid \<in> fam_id ` set (fs_families s1)" using fams(1) fid by (auto simp: spec(2))
  have new: "fst (le_row_ids env) \<notin> mf_id ` set (fs_rows s1)" "snd (le_row_ids env) \<notin> insert (fst (le_row_ids env)) (mf_id ` set (fs_rows s1))"
    using spec(1) env by (auto simp: fresh_env_def merged_rows_spec_def)
  have "family_wf s1" unfolding s1 by (rule merge_wf [OF fams(3) _ age]) (use fams(1) fid cl in auto)
  then have "family_wf (s1\<lparr>fs_rows := ?t1\<rparr>)" using fin p new(1) by (rule add_membership_wf)
  moreover have "snd (le_row_ids env) \<notin> mf_id ` set ?t1" using new(2) add_membership_ids by (rule contra_subsetD [rotated])
  ultimately show "family_wf s'"
    using add_membership_wf [of "s1\<lparr>fs_rows := ?t1\<rparr>" fid "mr_id t" "snd (le_row_ids env)" role "le_now env"] fin t by (simp add: s')
  show "fs_matters s' = fs_matters s" "fs_excluded s' = fs_excluded s" using spec(3,4) by (simp_all add: s')
qed


section \<open>Components\<close>

text \<open>Two matters are related when a family has both; \<open>ok\<close> restricts the matters a chain may pass through.\<close>

definition related :: "(string \<Rightarrow> bool) \<Rightarrow> membership list \<Rightarrow> string \<Rightarrow> string \<Rightarrow> bool" where
  "related ok t a b \<longleftrightarrow> (\<exists>f. a \<in> members t f \<and> b \<in> members t f) \<and> ok b"

abbreviation (input) connected :: "(string \<Rightarrow> bool) \<Rightarrow> membership list \<Rightarrow> string \<Rightarrow> string \<Rightarrow> bool" where
  "connected ok t \<equiv> (related ok t)\<^sup>*\<^sup>*"

abbreviation (input) families_at :: "membership list \<Rightarrow> string set \<Rightarrow> string set" where
  "families_at t ms \<equiv> {f. \<exists>m \<in> ms. m \<in> members t f}"

abbreviation (input) matters_at :: "(string \<Rightarrow> bool) \<Rightarrow> membership list \<Rightarrow> string set \<Rightarrow> string set" where
  "matters_at ok t fs \<equiv> {m. ok m \<and> (\<exists>f \<in> fs. m \<in> members t f)}"

lemma clean_ids_families: "clean_rows t \<Longrightarrow> clean_ids (map mf_family (filter (\<lambda>r. mf_matter r \<in> ms) t)) = families_at t ms"
  by (force simp: clean_ids_def members_def clean_rows_def clean_id_def)

lemma clean_ids_matters:
  "clean_rows t \<Longrightarrow> clean_ids (map mf_matter (filter (\<lambda>r. mf_family r \<in> fs \<and> ok (mf_matter r)) t)) = matters_at ok t fs"
  by (force simp: clean_ids_def members_def clean_rows_def clean_id_def)

lemma families_at_known: "families_at t ms \<subseteq> mf_family ` set t"
  by (auto simp: members_def)

text \<open>With more rounds than unknown families the search ends with a closed set: every round but the last finds a new
  family.\<close>

lemma widen_closed:
  assumes "clean_rows t" and "matters_at ok t fams \<subseteq> mids" and "card (mf_family ` set t - fams) < n"
    and "widen n ok t (fams, mids) = (F, M)"
  shows "families_at t M \<subseteq> F \<and> matters_at ok t F \<subseteq> M \<and> mids \<subseteq> M"
  using assms(2-)
proof (induction n arbitrary: fams mids)
  case (Suc n)
  let ?f = "fams \<union> families_at t mids" and ?m = "mids \<union> matters_at ok t (fams \<union> families_at t mids)"
  have step: "widen (Suc n) ok t (fams, mids) = (if ?f = fams \<and> ?m = mids then (fams, mids) else widen n ok t (?f, ?m))"
    by (simp only: widen.simps Let_def clean_ids_families [OF assms(1)] clean_ids_matters [OF assms(1)])
  show ?case
  proof (cases "?f = fams")
    case True
    then have "?m = mids" using Suc.prems(1) by auto
    with True Suc.prems step have "F = fams" "M = mids" by auto
    with True Suc.prems(1) show ?thesis by auto
  next
    case False
    then obtain g where g: "g \<in> families_at t mids" "g \<notin> fams" by auto
    then have "g \<in> mf_family ` set t" using families_at_known by blast
    then have "mf_family ` set t - ?f \<subset> mf_family ` set t - fams" using g by auto
    then have "card (mf_family ` set t - ?f) < card (mf_family ` set t - fams)" by (intro psubset_card_mono) auto
    with Suc.prems(2) have "card (mf_family ` set t - ?f) < n" by simp
    moreover have "widen n ok t (?f, ?m) = (F, M)" using Suc.prems(3) step False by auto
    ultimately have "families_at t M \<subseteq> F \<and> matters_at ok t F \<subseteq> M \<and> ?m \<subseteq> M" by (intro Suc.IH) auto
    then show ?thesis by auto
  qed
qed simp

lemma widen_sound:
  assumes "clean_rows t" and "widen n ok t (fams, mids) = (F, M)"
    and "\<And>m. m \<in> mids \<Longrightarrow> connected ok t a m" and "\<And>f. f \<in> fams \<Longrightarrow> \<exists>m. connected ok t a m \<and> m \<in> members t f"
  shows "(\<forall>m \<in> M. connected ok t a m) \<and> (\<forall>f \<in> F. \<exists>m. connected ok t a m \<and> m \<in> members t f)"
  using assms(2-)
proof (induction n arbitrary: fams mids)
  case (Suc n)
  let ?f = "fams \<union> families_at t mids" and ?m = "mids \<union> matters_at ok t (fams \<union> families_at t mids)"
  have step: "widen (Suc n) ok t (fams, mids) = (if ?f = fams \<and> ?m = mids then (fams, mids) else widen n ok t (?f, ?m))"
    by (simp only: widen.simps Let_def clean_ids_families [OF assms(1)] clean_ids_matters [OF assms(1)])
  have f: "\<exists>m. connected ok t a m \<and> m \<in> members t f" if "f \<in> ?f" for f using that Suc.prems(2,3) by auto
  have m: "connected ok t a m" if "m \<in> ?m" for m
  proof (cases "m \<in> mids")
    case False
    then obtain g where "ok m" "g \<in> ?f" "m \<in> members t g" using \<open>m \<in> ?m\<close> by blast
    moreover from f [OF this(2)] obtain x where "connected ok t a x" "x \<in> members t g" by blast
    ultimately have "connected ok t a x" "related ok t x m" unfolding related_def by blast+
    then show ?thesis by (rule rtranclp.rtrancl_into_rtrancl)
  qed (use Suc.prems(2) in auto)
  show ?case
  proof (cases "?f = fams \<and> ?m = mids")
    case True
    then have "F = fams" "M = mids" using Suc.prems(1) step by auto
    then show ?thesis using Suc.prems(2,3) by blast
  next
    case False
    then have "widen n ok t (?f, ?m) = (F, M)" using Suc.prems(1) step by auto
    then show ?thesis using m f by (rule Suc.IH)
  qed
qed auto

lemma widen_exact:
  assumes "clean_rows t" and "card (mf_family ` set t) < n"
  shows "widen n ok t ({}, {m}) = (families_at t {x. connected ok t m x}, {x. connected ok t m x})"
proof -
  obtain F M where w: "widen n ok t ({}, {m}) = (F, M)" by force
  have "card (mf_family ` set t - {}) < n" using assms(2) by simp
  from widen_closed [OF assms(1) _ this w] have c: "families_at t M \<subseteq> F" "matters_at ok t F \<subseteq> M" "m \<in> M" by auto
  have s: "\<forall>x \<in> M. connected ok t m x" "\<forall>f \<in> F. \<exists>x. connected ok t m x \<and> x \<in> members t f"
    using widen_sound [OF assms(1) w, of m] by auto
  have "x \<in> M" if "connected ok t m x" for x
    using that
  proof (induction rule: rtranclp_induct)
    case (step y z)
    then obtain f where "y \<in> members t f" "z \<in> members t f" "ok z" by (auto simp: related_def)
    with step.IH c(1,2) show ?case by blast
  qed (rule c(3))
  with s(1) have M: "M = {x. connected ok t m x}" by blast
  moreover from M c(1) s(2) have "F = families_at t {x. connected ok t m x}" by blast
  ultimately show ?thesis using w by simp
qed



section \<open>Exclusions\<close>

definition excludes :: "(string \<times> exclusion_data) list \<Rightarrow> string \<Rightarrow> string set" where
  "excludes t m = (case map_of t m of None \<Rightarrow> {} | Some d \<Rightarrow> set (load_family_excluded_related_ids d m))"

lemma load_excluded: "set (load_family_excluded_related_ids (Excluded xs) m) = {i. i \<noteq> [] \<and> i \<noteq> m \<and> i \<in> strip ` set xs}"
  by auto

lemma load_clean: "i \<in> set (load_family_excluded_related_ids d m) \<Longrightarrow> clean_id i \<and> i \<noteq> m"
  by (cases d) (auto simp: clean_id_def)

lemma load_excluded_id: "(\<And>i. i \<in> set xs \<Longrightarrow> clean_id i \<and> i \<noteq> m) \<Longrightarrow> set (load_family_excluded_related_ids (Excluded xs) m) = set xs"
  unfolding load_excluded by (force simp: clean_id_def)

lemma excludes_update: "excludes (AList.update m d t) n = (if n = m then set (load_family_excluded_related_ids d m) else excludes t n)"
  by (simp add: excludes_def update_conv')

lemma upsert_excludes:
  assumes "clean_id m" and "clean_id x" and "m \<noteq> x"
  shows "excludes (snd (upsert_auto_related_exclusion m x t)) n = (if n = m then insert x (excludes t m) else excludes t n)"
proof -
  define t1 where "t1 = (if map_of t m = None then t @ [(m, NoKey)] else t)"
  define xs where "xs = load_family_excluded_related_ids (the (map_of t1 m)) m"
  have c: "strip m = m" "strip x = x" "m \<noteq> []" "x \<noteq> []" using assms by (auto simp: clean_id_def)
  have e: "excludes t1 n = excludes t n" for n by (auto simp: t1_def excludes_def map_add_def split: option.splits)
  have "map_of t1 m \<noteq> None" by (simp add: t1_def map_add_def)
  then have m: "set xs = excludes t m" unfolding e [symmetric, of m] xs_def by (auto simp: excludes_def)
  have up: "snd (upsert_auto_related_exclusion m x t) = (if x \<in> set xs then t1 else AList.update m (Excluded (xs @ [x])) t1)"
    using c assms(3) by (simp add: upsert_auto_related_exclusion_def Let_def t1_def xs_def)
  have "set (load_family_excluded_related_ids (Excluded (xs @ [x])) m) = set (xs @ [x])"
    by (rule load_excluded_id) (use load_clean assms in \<open>auto simp: xs_def\<close>)
  then have "excludes (AList.update m (Excluded (xs @ [x])) t1) n = (if n = m then insert x (excludes t m) else excludes t n)"
    unfolding excludes_update e m [symmetric] by simp
  then show ?thesis using up m e [of n] by (cases "x \<in> set xs") (simp_all add: insert_absorb)
qed

text \<open>Excluding a matter from another one's suggestions and taking it back gives the exclusions as they were, for
  every state of the stored data, and touches no other matter.\<close>

theorem exclusion_round_trip:
  assumes "clean_id m" and "clean_id x" and "m \<noteq> x"
  shows "excludes (snd (upsert_auto_related_exclusion m x t)) m = insert x (excludes t m)
    \<and> excludes (snd (remove_auto_related_exclusion m x (snd (upsert_auto_related_exclusion m x t)))) m = excludes t m - {x}
    \<and> (n \<noteq> m \<longrightarrow> excludes (snd (remove_auto_related_exclusion m x (snd (upsert_auto_related_exclusion m x t)))) n = excludes t n)"
proof -
  have c: "strip m = m" "strip x = x" "m \<noteq> []" "x \<noteq> []" using assms by (auto simp: clean_id_def)
  have rem: "excludes (snd (remove_auto_related_exclusion m x t)) n = (if n = m then excludes t m - {x} else excludes t n)" for t n
  proof (cases "map_of t m")
    case None
    then show ?thesis using c by (auto simp: remove_auto_related_exclusion_def excludes_def)
  next
    case (Some d)
    define xs where "xs = load_family_excluded_related_ids d m"
    define rest where "rest = filter (\<lambda>i. i \<noteq> x) xs"
    define d' where "d' = (if rest = [] then NoKey else Excluded rest)"
    have x: "excludes t m = set xs" "set rest = set xs - {x}" using Some by (auto simp: excludes_def xs_def rest_def)
    have "set (load_family_excluded_related_ids (Excluded rest) m) = set rest"
      by (rule load_excluded_id) (use load_clean in \<open>auto simp: rest_def xs_def\<close>)
    then have d': "set (load_family_excluded_related_ids d' m) = set rest" by (simp add: d'_def)
    have "snd (remove_auto_related_exclusion m x t) = (if x \<in> set xs then AList.update m d' t else t)"
      using c assms(3) Some by (cases d) (simp_all add: remove_auto_related_exclusion_def Let_def xs_def rest_def d'_def)
    then show ?thesis using x d' by (cases "x \<in> set xs") (simp_all add: excludes_update)
  qed
  show ?thesis unfolding rem upsert_excludes [OF assms] by auto
qed

theorem exclusion_round_trip_witness:
  "excludes (snd (upsert_auto_related_exclusion ''M1'' ''M2'' [(''M1'', Excluded ['' M3'', ''M1'', ''M3''])])) ''M1'' = {''M2'', ''M3''}"
proof -
  have "clean_id ''M1''" "clean_id ''M2''" "excludes [(''M1'', Excluded ['' M3'', ''M1'', ''M3''])] ''M1'' = {''M3''}" by code_simp+
  with exclusion_round_trip [of "''M1''" "''M2''" "[(''M1'', Excluded ['' M3'', ''M1'', ''M3''])]"] show ?thesis by auto
qed

section \<open>Disconnecting\<close>

lemma connected_sym: "connected (\<lambda>_. True) t a b \<Longrightarrow> connected (\<lambda>_. True) t b a"
proof (induction rule: rtranclp_induct)
  case (step y z)
  then have "related (\<lambda>_. True) t z y" by (auto simp: related_def)
  with step.IH show ?case by (rule converse_rtranclp_into_rtranclp [rotated])
qed simp

lemma connected_mono:
  assumes "set t' \<subseteq> set t" and "connected ok t' a b"
  shows "connected ok t a b"
proof -
  have "members t' f \<subseteq> members t f" for f using assms(1) by (auto simp: members_def)
  then have "related ok t' \<le> related ok t" unfolding related_def by (intro predicate2I) blast
  from rtranclp_mono [OF this] assms(2) show ?thesis by (rule predicate2D)
qed

lemma two_rows_size: "r \<in> set t \<Longrightarrow> r' \<in> set t \<Longrightarrow> r \<noteq> r' \<Longrightarrow> mf_family r = g \<Longrightarrow> mf_family r' = g \<Longrightarrow> 2 \<le> family_size t g"
proof -
  assume a: "r \<in> set t" "r' \<in> set t" "r \<noteq> r'" "mf_family r = g" "mf_family r' = g"
  then have "{r, r'} \<subseteq> set (filter (\<lambda>r. mf_family r = g) t)" by auto
  then have "card {r, r'} \<le> length (filter (\<lambda>r. mf_family r = g) t)" by (meson card_length card_mono finite_set le_trans)
  with a(3) show ?thesis by (simp add: family_size_def rowcount_def)
qed

lemma disconnect_cases:
  assumes "disconnect_matter a b s = (out, s')"
  defines "sh \<equiv> fst (collect_connected_family_component (fs_rows s) [a] []) \<inter> fst (collect_connected_family_component (fs_rows s) [b] [])"
  defines "t1 \<equiv> sql_delete (\<lambda>r. mf_matter r = b \<and> mf_family r \<in> sh) (fs_rows s)"
  obtains (none) "\<forall>r \<in> set (fs_rows s). \<not> (mf_matter r = b \<and> mf_family r \<in> sh)" "fs_rows s' = fs_rows s" "fs_families s' = fs_families s"
  | (some) "fs_rows s' = sql_delete (\<lambda>r. mf_family r \<in> sh \<and> mf_family r \<noteq> [] \<and> family_size t1 (mf_family r) < 2) t1"
      "fs_families s' = sql_delete (\<lambda>f. fam_id f \<in> sh \<and> fam_id f \<noteq> [] \<and> family_size t1 (fam_id f) < 2) (fs_families s)"
proof (cases "rowcount (\<lambda>r. mf_matter r = b \<and> mf_family r \<in> sh) (fs_rows s) = 0")
  case True
  have "fs_rows s' = t1" "fs_families s' = fs_families s"
    using assms(1) True by (auto simp: disconnect_matter_def Let_def sh_def t1_def split: prod.splits)
  moreover have "t1 = fs_rows s" unfolding t1_def by (rule sql_delete_none) (use True in simp)
  ultimately show ?thesis using none True by simp
next
  case False
  then show ?thesis using assms(1) some
    by (auto simp: disconnect_matter_def Let_def sh_def t1_def cleanup_degenerate_families_def split: prod.splits if_splits)
qed


lemma disconnect_wf:
  assumes "family_wf s" and "disconnect_matter a b s = (out, s')"
  shows "family_wf s' \<and> set (fs_rows s') \<subseteq> set (fs_rows s)"
  using assms(2)
proof (cases rule: disconnect_cases)
  case none
  then show ?thesis using assms(1) by (simp add: family_wf_def)
next
  case some
  have sub: "set (fs_rows s') \<subseteq> set (fs_rows s)" unfolding some(1) by (auto simp: set_sql_delete)
  have "clean_rows (fs_rows s')"
  proof -
    have "distinct (map mf_id (fs_rows s'))"
      unfolding some(1) using wf_facts(1) [OF assms(1)] by (simp add: clean_rows_def distinct_key_sql_delete)
    then show ?thesis using sub wf_facts(1) [OF assms(1)] by (auto simp: clean_rows_def)
  qed
  moreover have "inj_on mf_matter (rows_of (fs_rows s') g)" for g
    by (rule inj_on_subset [OF wf_facts(2) [OF assms(1), of g]]) (use sub in auto)
  moreover have "mf_family r \<in> fam_id ` set (fs_families s')" if r: "r \<in> set (fs_rows s')" for r
  proof -
    have "mf_family r \<in> fam_id ` set (fs_families s)" using r sub wf_facts(6) [OF assms(1)] by blast
    with r show ?thesis unfolding some by (auto simp: set_sql_delete)
  qed
  ultimately have "family_wf s'"
    using wf_facts(3-5) [OF assms(1)] by (auto simp: family_wf_def some(2) sql_delete_def distinct_map_filter)
  with sub show ?thesis by blast
qed

abbreviation (input) shared_families :: "string \<Rightarrow> string \<Rightarrow> membership list \<Rightarrow> string set" where
  "shared_families a b t \<equiv> fst (collect_connected_family_component t [a] []) \<inter> fst (collect_connected_family_component t [b] [])"

lemma shared_exact:
  assumes "clean_rows t" and "card (mf_family ` set t) < 64" and "clean_id a" and "clean_id b"
  shows "shared_families a b t = families_at t {x. connected (\<lambda>_. True) t a x} \<inter> families_at t {x. connected (\<lambda>_. True) t b x}"
proof -
  have "fst (collect_connected_family_component t [m] []) = families_at t {x. connected (\<lambda>_. True) t m x}" if "clean_id m" for m
    using widen_exact [OF assms(1,2), of "\<lambda>_. True" m] that
    by (simp add: collect_connected_family_component_def clean_ids_def clean_id_def)
  with assms(3,4) show ?thesis by simp
qed

lemma shared_connected:
  assumes "f \<in> families_at t {x. connected (\<lambda>_. True) t a x} \<inter> families_at t {x. connected (\<lambda>_. True) t b x}"
  shows "connected (\<lambda>_. True) t a b"
proof -
  obtain x y where f: "connected (\<lambda>_. True) t a x" "x \<in> members t f" "connected (\<lambda>_. True) t b y" "y \<in> members t f" using assms by blast
  then have "related (\<lambda>_. True) t x y" by (auto simp: related_def)
  with f(1) have "connected (\<lambda>_. True) t a y" by (rule rtranclp.rtrancl_into_rtrancl)
  with connected_sym [OF f(3)] show ?thesis by (meson rtranclp_trans)
qed

lemma disconnect_no_target:
  assumes "disconnect_matter a b s = (out, s')" and "r \<in> set (fs_rows s')"
  shows "\<not> (mf_matter r = b \<and> mf_family r \<in> shared_families a b (fs_rows s))"
  using assms by (cases rule: disconnect_cases) (auto simp: set_sql_delete)

lemma disconnect_keeps:
  assumes "disconnect_matter a b s = (out, s')"
    and r: "r \<in> set (fs_rows s)" "r' \<in> set (fs_rows s)" "r \<noteq> r'" "mf_family r = mf_family r'" "mf_matter r \<noteq> b" "mf_matter r' \<noteq> b"
  shows "r \<in> set (fs_rows s')"
  using assms(1)
proof (cases rule: disconnect_cases)
  case some
  let ?t1 = "sql_delete (\<lambda>r. mf_matter r = b \<and> mf_family r \<in> shared_families a b (fs_rows s)) (fs_rows s)"
  have "r \<in> set ?t1" "r' \<in> set ?t1" using r by (auto simp: set_sql_delete)
  moreover from two_rows_size [OF this r(3) refl] r(4) have "2 \<le> family_size ?t1 (mf_family r)" by simp
  ultimately show ?thesis unfolding some(1) by (simp add: set_sql_delete)
qed (use r in simp)

lemma disconnect_excludes:
  assumes "disconnect_matter a b s = (out, s')" and "clean_id a" and "clean_id b" and "a \<noteq> b"
  shows "excludes (fs_excluded s') a = insert b (excludes (fs_excluded s) a)"
proof -
  have "fs_excluded s' = snd (upsert_auto_related_exclusion b a (snd (upsert_auto_related_exclusion a b (fs_excluded s))))"
    using assms(1) by (auto simp: disconnect_matter_def Let_def cleanup_degenerate_families_def split: prod.splits if_splits)
  then show ?thesis using upsert_excludes [OF assms(3,2)] upsert_excludes [OF assms(2-4)] assms(4) by simp
qed



section \<open>Reachable tables\<close>

lemma family_wf_excluded [simp]: "family_wf (s\<lparr>fs_excluded := x\<rparr>) = family_wf s" "family_wf (s\<lparr>fs_matters := db\<rparr>) = family_wf s"
  by (simp_all add: family_wf_def)

lemma link_fails: "link_matters_into_family e env p t k pref role actor s = (Inl err, s') \<Longrightarrow> s' = s"
  by (auto simp: link_matters_into_family_def Let_def split: option.splits if_splits prod.splits)

lemma link_keeps_wf:
  assumes "family_wf s" and "fresh_env env s" and "clean_id (mr_id p)" and "clean_id (mr_id t)"
    and "link_matters_into_family e env (Some p) (Some t) k pref role actor s = (res, s')"
  shows "family_wf s'"
proof (cases res)
  case (Inl err)
  with assms link_fails show ?thesis by metis
next
  case (Inr r)
  with assms link_spec(5) show ?thesis by (cases r) blast
qed

lemma join_keeps_wf:
  assumes "family_wf s" and "fresh_env env s" and "clean_id (mr_id m)"
    and "link_matter_to_family_id e env (Some m) fid role actor s = (res, s')"
  shows "family_wf s'"
proof -
  have "s' = s \<or> (\<exists>f \<in> set (fs_families s). s' = s\<lparr>fs_rows := add_membership (fst (le_row_ids env)) (mr_id m) (fam_id f) role (le_now env) (fs_rows s)\<rparr>)"
    using assms(4) by (auto simp: link_matter_to_family_id_def family_by_id_def Let_def dest: sql_first_Some split: if_splits option.splits)
  moreover have "fst (le_row_ids env) \<notin> mf_id ` set (fs_rows s)" using assms(2) by (auto simp: fresh_env_def)
  ultimately show ?thesis using assms(1,3) add_membership_wf by blast
qed

lemma matter_row_of_Some: "matter_row_of s i = Some m \<Longrightarrow> m \<in> set (matters (fs_matters s)) \<and> mr_id m = i"
  by (auto simp: matter_row_of_def dest: sql_first_Some)

lemma family_link_cases:
  assumes "family_link e env u fails case_id form_ref form_target form_key s = (page, s')"
  obtains "s' = s"
  | p t k fid key created s1 x where "p \<in> set (matters (fs_matters s))" "t \<in> set (matters (fs_matters s))"
      "link_matters_into_family e env (Some p) (Some t) k True ''manual'' (Some u) s = (Inr (fid, key, created), s1)" "s' = s1\<lparr>fs_excluded := x\<rparr>"
proof (cases "matter_row_of s case_id")
  case None
  with assms that(1) show ?thesis by (simp add: family_link_def)
next
  case (Some p)
  show ?thesis
  proof (cases "matter_row_of s (target_of_form s form_ref form_target)")
    case None
    with assms that(1) show ?thesis by (auto simp: family_link_def Let_def split: if_splits)
  next
    case (Some t)
    with \<open>matter_row_of s case_id = Some p\<close> assms that matter_row_of_Some show ?thesis
      unfolding family_link_def Let_def by (simp split: if_splits sum.splits family_error.splits prod.splits) blast+
  qed
qed

text \<open>What users do to the families of a database: the two routes, and linking while a matter is created. The ids are
  new, the ids of matters are clean, and the other tables may change in between.\<close>

inductive family_step :: "family_state \<Rightarrow> family_state \<Rightarrow> bool" where
  Link: "fresh_env env s \<Longrightarrow> \<forall>m \<in> set (matters (fs_matters s)). clean_id (mr_id m)
    \<Longrightarrow> family_link e env u fails case_id form_ref form_target form_key s = (page, s') \<Longrightarrow> family_step s s'"
| Disconnect: "family_disconnect e u fails case_id form_ref form_target s = (page, s') \<Longrightarrow> family_step s s'"
| CreateLinked: "fresh_env env s \<Longrightarrow> clean_id (mr_id p) \<Longrightarrow> clean_id (mr_id t)
    \<Longrightarrow> link_matters_into_family e env (Some p) (Some t) None True ''manual'' (Some u) s = (res, s') \<Longrightarrow> family_step s s'"
| CreateJoined: "fresh_env env s \<Longrightarrow> clean_id (mr_id m)
    \<Longrightarrow> link_matter_to_family_id e env (Some m) fid ''manual'' (Some u) s = (res', s') \<Longrightarrow> family_step s s'"
| Elsewhere: "family_step s (s\<lparr>fs_matters := db\<rparr>)"

lemma family_step_wf: "family_step s s' \<Longrightarrow> family_wf s \<Longrightarrow> family_wf s'"
proof (induction rule: family_step.induct)
  case (Link env s e u fails case_id form_ref form_target form_key page s')
  from Link.hyps(3) show ?case
  proof (cases rule: family_link_cases)
    case (2 p t k fid key created s1 x)
    then have "family_wf s1" using link_keeps_wf Link.prems Link.hyps(1,2) by blast
    with 2(4) show ?thesis by simp
  qed (use Link.prems in simp)
next
  case (Disconnect e u fails case_id form_ref form_target s page s')
  then show ?case
    by (auto simp: family_disconnect_def Let_def dest: disconnect_wf split: if_splits prod.splits)
qed (auto intro: link_keeps_wf join_keeps_wf)




section \<open>Rights\<close>

lemma access_db_simps [simp]:
  "staff_rows (access_db s) = staff_rows (fs_matters s)" "matters (access_db s) = matters (fs_matters s)" "party_staff (access_db s) = party_staff (fs_matters s)"
  "matter_family (access_db s) = map (\<lambda>r. (mf_family r, mf_matter r)) (fs_rows s)"
  by (simp_all add: access_db_def)

lemma access_db_live [simp]: "live_matter (access_db s) m = live_matter (fs_matters s) m"
  by (simp add: live_matter_def)

lemma family_gives_view:
  assumes clean: "clean_rows (fs_rows s)" and fam: "m \<in> members (fs_rows s) g" "p \<in> members (fs_rows s) g" "m \<noteq> p"
    and p: "has_direct_assignment e (access_db s) (staff_party_of u) p" "live_matter (fs_matters s) p"
    and u: "authenticated_active u" "\<not> uses_explicit_case_policy u"
    and q: "\<not> query_fails e ''permissions._has_family_related_assignment.family_ids''"
      "\<not> query_fails e ''permissions._has_family_related_assignment.direct''"
  shows "can_access_matter e (access_db s) u m ''view''"
proof -
  have m: "clean_id m" "clean_id g" using clean fam by (auto simp: clean_rows_def members_def)
  have ids: "g \<in> set (family_ids_of (access_db s) m)"
    using fam(1) m by (force simp: family_ids_of_def members_def clean_id_def)
  have sib: "p \<in> set (family_siblings (access_db s) m)"
    using fam(2,3) p(2) ids by (force simp: family_siblings_def members_def)
  obtain pid where pid: "staff_party_of u = Some pid" and codes: "get_self_assigned_role_codes e \<noteq> []"
    and row: "\<exists>r \<in> set (staff_rows (fs_matters s)). st_matter r = p \<and> direct_row (get_self_assigned_role_codes e) pid r"
    using p(1) by (auto simp: has_direct_assignment_def Let_def list_ex_iff split: option.splits if_splits)
  have "fst (has_family_related_assignment e (access_db s) (staff_party_of u) dept m)" for dept
    using ids sib pid codes row q m p(2) unfolding has_family_related_assignment_def Let_def
    by (auto simp: clean_id_def list_ex_iff)
  then have "can_view e (access_db s) u m" using u(2) by (simp add: can_view_def Let_def view_access_def legacy_has_view_access_def)
  with u(1) m(1) show ?thesis by (simp add: can_access_view clean_id_def)
qed


section \<open>An example\<close>

definition plain_matter :: "string \<Rightarrow> matter_row" where
  "plain_matter m = \<lparr>mr_id = m, mr_deleted = None, mr_our_ref = Some ''25PA0001US'', mr_old_our_ref = None, mr_your_ref = None\<rparr>"

definition assigned_db :: matter_db where
  "assigned_db = small_db\<lparr>matters := map plain_matter [''M1'', ''M4'', ''M9''], matter_family := [],
     staff_rows := [\<lparr>st_matter = ''M1'', st_party = Some ''P7'', st_role = '' Attorney''\<rparr>, \<lparr>st_matter = ''M4'', st_party = Some ''P7'', st_role = ''attorney''\<rparr>]\<rparr>"

definition one_family :: family_state where
  "one_family = \<lparr>fs_families = [\<lparr>fam_id = ''f9'', fam_key = ''SECRET'', fam_key_type = ''manual'', fam_key_value = ''SECRET''\<rparr>],
     fs_rows = [\<lparr>mf_id = ''r9'', mf_matter = ''M9'', mf_family = ''f9'', mf_role = ''manual'', mf_created = None\<rparr>],
     fs_excluded = [], fs_matters = assigned_db\<rparr>"

definition fresh_ids :: link_env where
  "fresh_ids = \<lparr>le_family_id = ''f10'', le_row_ids = (''r10'', ''r11''), le_manual_keys = (''MANUAL-1'', ''MANUAL-2''), le_now = ''2025-01-01'',
     le_pick = hd, le_by_age = (\<lambda>rs. rs)\<rparr>"

lemma one_family_facts: "family_wf one_family" "fresh_env fresh_ids one_family" "clean_id ''M1''" "clean_id ''M4''" "clean_id ''M9''"
proof -
  have "clean_id ''M9''" "clean_id ''f9''" "clean_id ''f10''" by code_simp+
  then show "family_wf one_family" "fresh_env fresh_ids one_family" "clean_id ''M9''"
    by (auto simp: family_wf_def one_family_def clean_rows_def fresh_env_def fresh_ids_def age_order_def inj_on_def)
qed code_simp+


definition linked_family :: family_state where
  "linked_family = snd (link_matters_into_family quiet_perm_env fresh_ids (Some (plain_matter ''M1'')) (Some (plain_matter ''M4'')) (Some ''SECRET'') True ''manual'' None one_family)"

lemma linked_family_rows:
  "fs_rows linked_family = fs_rows one_family @
     map (\<lambda>(i, m). \<lparr>mf_id = i, mf_matter = m, mf_family = ''f9'', mf_role = ''manual'', mf_created = Some ''2025-01-01''\<rparr>) [(''r10'', ''M1''), (''r11'', ''M4'')]"
  by code_simp

lemma plain_clean: "clean_id (mr_id (plain_matter ''M1''))" "clean_id (mr_id (plain_matter ''M4''))"
  using one_family_facts by (simp_all add: plain_matter_def)

lemma members_list: "members t g = set (map mf_matter (filter (\<lambda>r. mf_family r = g) t))"
  by (simp add: members_def)

lemma example_members:
  "members (fs_rows one_family) g = (if g = ''f9'' then {''M9''} else {})"
  "members (fs_rows linked_family) g = (if g = ''f9'' then {''M1'', ''M4'', ''M9''} else {})"
  by (auto simp: members_list linked_family_rows one_family_def)

lemma linked_family_wf: "family_wf linked_family"
  unfolding linked_family_def by (rule link_keeps_wf [OF one_family_facts(1,2) plain_clean prod.collapse [symmetric]])




definition routed_family :: family_state where
  "routed_family = snd (family_link quiet_perm_env fresh_ids (Some staff_member) False ''M1'' [] ''M4'' ''SECRET'' one_family)"



text \<open>A key typed in lower case is stored in upper case and not found again: typing it a second time makes another family.\<close>

lemma lower_case_key_makes_another_family:
  "resolve_family_for_link fresh_ids [] [] (Some ''secret'') True [] [] (fs_families one_family)
     = new_family fresh_ids ''SECRET-1'' ''secret'' (fs_families one_family)"
proof -
  have c: "strip ''secret'' = ''secret''" "upper ''secret'' = ''SECRET''" "str_nat (Suc 0) = ''1''" by code_simp+
  have k: "family_by_key x (fs_families one_family) = None \<longleftrightarrow> x \<noteq> ''SECRET''" for x by (auto simp: family_by_key_def one_family_def)
  have u: "[1..<1000] = (1 :: nat) # [Suc 1..<1000]" by (rule upt_conv_Cons) simp
  have "ensure_unique_family_key fresh_ids ''secret'' (fs_families one_family) = ''SECRET-1''"
    unfolding ensure_unique_family_key_def Let_def c k u by (simp add: c del: upt_rec_numeral)
  then show ?thesis using c(1) k [of "''secret''"] by (simp add: resolve_family_for_link_def Let_def)
qed

end
