(* ===== verification/Spec2Isabelle.thy ===== *)
theory Spec2Isabelle
  imports Recalc_Queue Durable_Queue Annuity_Sync_Queue File_Delete_Queue Lock_Heartbeat Annuity_Policy
    Deadline_Rules Workflow_Status Case_Numbering Network_Access Assignment_Requests Policy_Engine Zip_Safety
    Upload_Sessions Deferred_Sync Status_Normalization Matter_Status_Cache Invoice_Billing File_Access Matter_Family
begin

text \<open>
  Verification of \<^bold>\<open>ipdocket\<close>, a docket for patent and trademark matters (Python, Flask, SQLAlchemy).

  \<^bold>\<open>The program.\<close> Matters, their dockets (deadlines) and the workflows (tasks) that follow from them are rows of a
  database. A change to one of them asks for more work: the computed status of the matter is brought up to date,
  annuities are rebuilt, tasks are synchronised and assigned, files are deleted. This work runs in queues, each a
  table that several workers drain under leases. Requests come in through network guards and permission checks;
  uploads pass the archive limits and a table of upload sessions. Every theory below models one of these parts; a
  table is a list of records, a transaction an explicit session state, an exception a value of an option or sum
  type, the clock and random tokens are arguments, and so is code outside the modelled files.

  \<^bold>\<open>Shared theories.\<close>
  \<^item> \<open>Prelude\<close>: Python's strings (\<open>strip\<close>, \<open>lower\<close>, \<open>split\<close>, \<open>in\<close>; characters are Latin-1), times in microseconds, SQL's
    \<open>UPDATE\<close>, \<open>DELETE\<close> and first row on lists, and the lemmas on them (collection \<open>table_simps\<close>).
  \<^item> \<open>Numerals\<close>, \<open>Calendar\<close>, \<open>IP_Address\<close>: the parts of Python's \<open>int\<close>, \<open>datetime\<close>, \<open>re\<close> and \<open>ipaddress\<close> the code
    uses, with printing and reading back.
  \<^item> \<open>Lease_Core\<close>: the interfaces the queues share, as locales. \<open>backoff_policy\<close> (a delay schedule), \<open>lease_claim\<close> (a
    claim takes no row with a live lease), \<open>row_leasing\<close> (claims row by row, a sublocale of the former), \<open>fenced_write\<close>
    (a write checks the token of the worker) and \<open>leased_queue\<close> (both together).

  \<^bold>\<open>Queues.\<close> Each interprets the locales on its own operations.
  \<^item> \<open>Recalc_Queue\<close> (\<open>app/services/matter/matter_status_recalc_queue.py\<close>): upsert, pick with lease, finalize, failure,
    drain. A request that comes before the finishing statements is not lost, while one between the two of them is;
    batches are disjoint whatever happens between them, a superseded worker commits nothing.
  \<^item> \<open>Durable_Queue\<close> (\<open>app/ops/durable_queue.py\<close>): producers, claims, lock recovery, heartbeats, recording, operators
    and the worker loop; the interleavings are an inductive step relation, and well-formedness is an invariant of its
    reachable states. Recording an outcome is a read and a later write by id, with what others commit in between; a
    young lock keeps its job through all steps that are not excluded by name. A failing job runs exactly as often as it
    may.
  \<^item> \<open>Annuity_Sync_Queue\<close> (\<open>app/services/annuity/annuity_sync_queue.py\<close>), \<open>File_Delete_Queue\<close>
    (\<open>app/services/files/file_delete_queue.py\<close>) with \<open>Storage\<close> (\<open>app/services/storage\<close>), and \<open>Lock_Heartbeat\<close>
    (\<open>app/services/ops/queue_lock_heartbeat.py\<close>).
  \<^item> \<open>Deferred_Sync\<close> (\<open>app/services/workflow/deferred_task_sync.py\<close>, \<open>deferred_task_executor.py\<close>): work collected on a
    session, handed to the durable queue by the commit hooks, and the handler that runs it. Savepoints fire the hooks
    too: their release keeps the queues, their rollback drops them. It uses the durable queue through the locale \<open>keyed_queue\<close>, interpreted on \<open>Durable_Queue\<close>.

  \<^bold>\<open>Matters, dates and status.\<close>
  \<^item> \<open>Docket_Dates\<close>, \<open>Annuity_Policy\<close>, \<open>Deadline_Rules\<close> (\<open>app/utils/docket_dates.py\<close>,
    \<open>app/services/annuity/annuity_policy.py\<close>, \<open>app/services/deadlines/foreign_deadline_rules.py\<close>): dates as they are
    stored, the status of an annuity, month and day arithmetic.
  \<^item> \<open>Workflow_Status\<close> (\<open>app/services/workflow/status_transition.py\<close>, \<open>status_sync.py\<close>,
    \<open>app/services/docket_manual_state.py\<close>): a transition keeps workflow and docket consistent.
  \<^item> \<open>Status_Normalization\<close> and \<open>Matter_Status_Cache\<close> (\<open>app/services/matter/status_normalization.py\<close>,
    \<open>matter_status_cache.py\<close>): the labels, and the cached status columns with the paged reconciliation and the audit.
    The reconciliation equals one pass over the table; the audit reaches every matter unless one fails.
  \<^item> \<open>Case_Kind\<close>, \<open>Case_Numbering\<close> (\<open>app/services/case\<close>): the kind of a matter, and reference numbers from templates,
    reserved by compare-and-set; a generated reference is new and is read back, and sessions whose statements interleave
    get increasing numbers.
  \<^item> \<open>Matter_Family\<close> (\<open>app/services/matter/matter_family_service.py\<close>, the family routes of
    \<open>app/blueprints/case/routes/detail.py\<close>): linking merges families; with fewer than 64 families disconnecting separates
    two matters and the bounded component search is exact; a key of a foreign family opens its members.

  \<^bold>\<open>Tasks.\<close> \<open>Task_Distribution\<close>, \<open>Task_Assignment\<close>, \<open>Assignment_Requests\<close> (\<open>app/utils/task_distribution_rules.py\<close>,
  \<open>task_classification.py\<close>, \<open>workflow_semantics.py\<close>, \<open>task_assignment_rules.py\<close>,
  \<open>app/services/workflow/assignment_requests.py\<close>): who gets a task, and the requests for confirmation, whose table
  refines a map from workflow and role to the awaited user. A task reserved to managers goes to managers of its matter.

  \<^bold>\<open>Access.\<close>
  \<^item> \<open>Config_Service\<close> (\<open>app/services/core/config_service.py\<close>): settings and their cache.
  \<^item> \<open>Network_Access\<close> (\<open>app/utils/network_access.py\<close>, \<open>app/security/cidr.py\<close>, \<open>country_block.py\<close>): allow lists, the
    country index (binary search over merged ranges, equal to a search in the file), the guards and proxy headers.
  \<^item> \<open>User_Roles\<close>, \<open>Matter_Access\<close>, \<open>Policy_Engine\<close> (\<open>app/models/user.py\<close>, \<open>app/utils/permissions.py\<close>,
    \<open>app/security/policy_engine.py\<close>, \<open>app/utils/policy_sql.py\<close>): roles, the check of one matter, the filter of lists,
    the filter of ORM queries and the guard of raw SQL; list and check agree.
  \<^item> \<open>Zip_Safety\<close>, \<open>Upload_Sessions\<close> (\<open>app/services/uploads\<close>): limits of archives, and sessions that do not interfere.
  \<^item> \<open>File_Scan\<close>, \<open>File_Access\<close> (\<open>app/services/storage/file_asset_scan_service.py\<close>, \<open>file_asset_scan_queue.py\<close>,
    \<open>file_asset_access.py\<close>): the virus scan of stored files with its quarantine, and who may read or reuse them.

  \<^bold>\<open>Billing.\<close> \<open>Invoice_Billing\<close> (\<open>app/services/billing/utils.py\<close>, \<open>invoice_services.py\<close>): amounts in minor units,
  totals, payments and the links of invoices to matters. Decimals are exact rationals, which is what the code computes
  as long as an amount stays within 28 digits.

  \<^bold>\<open>Bounds and fuel.\<close> Functions that mirror loops are total by structural recursion or a measure, with these exceptions.
  The search for a free number has as much fuel as there are stored references, one more than it can meet; that it
  always returns is a theorem. The compare-and-set reservation makes six tries, as the code does. The worker loop and the
  heartbeat run over a given list of ticks. The page iterator of the status cache is a partial function, because ids with
  trailing blanks make it run for ever; for clean ids it is proved to return. The family component search makes at most
  64 rounds, as the code does, which is enough for fewer than 64 families.

  \<^bold>\<open>Not modelled.\<close> The computation of a matter's status, the rebuild of annuities and the synchronisation of one docket are
  arguments: they are thousands of lines of keyword tests over stored documents. Web pages, reports, mail, language
  models and office parsers read forms, call outside services or print. Of billing, the pages,
  statistics, exports and generated documents are left out.
  Threads, processes and the database engine appear only through the order of the steps they allow: savepoints and
  transactions succeed unless an argument says that they fail, and collation compares texts character by character.
\<close>

section \<open>Retry schedules\<close>

text \<open>C40: The retry delays of all four queues follow one schedule. With a positive base and cap and
  at least one attempt, a delay is positive and at most the cap, the first one is the base (when the
  cap allows it), and every further failure doubles the delay until the cap is reached. The durable
  queue has a fixed base of 60 seconds.\<close>

theorem retry_schedules:
  assumes "1 \<le> a" and "0 < c" and "0 < b"
    and "f \<in> {\<lambda>a. rq_compute_backoff_seconds a b c, \<lambda>a. aq_compute_backoff_seconds a b c,
              \<lambda>a. fd_compute_backoff_seconds a b c} \<or> f = (\<lambda>a. backoff_seconds a c) \<and> b = 60"
  shows "0 < f a \<and> f a \<le> c \<and> f (a + 1) = min c (2 * f a) \<and> (b \<le> c \<longrightarrow> f 1 = b)"
  using assms(4)
proof (elim disjE)
  assume "f \<in> {\<lambda>a. rq_compute_backoff_seconds a b c, \<lambda>a. aq_compute_backoff_seconds a b c,
               \<lambda>a. fd_compute_backoff_seconds a b c}"
  then show ?thesis
    using rq_backoff.schedule [OF assms(1-3)] aq_backoff.schedule [OF assms(1-3)]
      fd_backoff.schedule [OF assms(1-3)] by blast
next
  assume "f = (\<lambda>a. backoff_seconds a c) \<and> b = 60"
  then show ?thesis using dq_backoff.schedule [OF assms(1,2)] by simp
qed

theorem retry_schedules_witness:
  "aq_compute_backoff_seconds 3 60 3600 = min 3600 (2 * aq_compute_backoff_seconds 2 60 3600)
    \<and> aq_compute_backoff_seconds 1 60 3600 = 60"
  using retry_schedules [of 2 3600 60 "\<lambda>a. aq_compute_backoff_seconds a 60 3600"] by simp

end
